(* ===== verification/Prelude.thy ===== *)
theory Prelude
  imports Main "HOL-Library.Multiset" "HOL-Library.Char_ord" "HOL-Library.List_Lexorder" "HOL-Library.Product_Lexorder"
begin

text \<open>
  Shared vocabulary of the development: the theorem collections the component theories fill,
  and generic facts on lists, options and bounded pointer chains that more than one component
  uses. Nothing here models code.
\<close>

named_theorems str_simps \<open>equations of the string operations\<close>
named_theorems ctx_defs \<open>definitions of the context graph's lookups and predicates\<close>
named_theorems auto_defs \<open>definitions of the autopilot's decision functions\<close>

section \<open>Lists\<close>

lemma find_SomeD: "List.find P xs = Some x \<Longrightarrow> P x \<and> x \<in> set xs"
  by (auto simp: find_Some_iff)

lemma find_NoneD: "List.find P xs = None \<Longrightarrow> x \<in> set xs \<Longrightarrow> \<not> P x"
  by (auto simp: find_None_iff)

lemma find_is_Some [simp]: "(\<exists>x. List.find P xs = Some x) \<longleftrightarrow> (\<exists>x \<in> set xs. P x)"
  by (metis find_None_iff find_SomeD not_Some_eq)

lemma find_cong_None: "(List.find P xs = None) \<longleftrightarrow> (\<forall>x \<in> set xs. \<not> P x)"
  by (auto simp: find_None_iff)

lemma set_map_filter_iff: "y \<in> set (List.map_filter f xs) \<longleftrightarrow> (\<exists>x \<in> set xs. f x = Some y)"
  by (force simp: map_filter_def)

lemma find_first_iff:
  "List.find P xs = Some x \<longleftrightarrow>
     (\<exists>before after. xs = before @ x # after \<and> P x \<and> (\<forall>y \<in> set before. \<not> P y))"
proof
  assume "List.find P xs = Some x"
  then obtain i where i: "i < length xs" "P (xs ! i)" "x = xs ! i" "\<forall>j < i. \<not> P (xs ! j)"
    by (auto simp: find_Some_iff)
  then have "xs = take i xs @ x # drop (Suc i) xs" by (simp add: id_take_nth_drop)
  moreover have "\<forall>y \<in> set (take i xs). \<not> P y" using i by (auto simp: in_set_conv_nth)
  ultimately show "\<exists>before after. xs = before @ x # after \<and> P x \<and> (\<forall>y \<in> set before. \<not> P y)"
    using i by blast
next
  assume "\<exists>before after. xs = before @ x # after \<and> P x \<and> (\<forall>y \<in> set before. \<not> P y)"
  then obtain b a where "xs = b @ x # a" "P x" "\<forall>y \<in> set b. \<not> P y" by blast
  then show "List.find P xs = Some x"
    by (auto simp: find_Some_iff nth_append intro!: exI [of _ "length b"])
qed

lemma find_last_iff:
  "List.find P (rev xs) = Some x \<longleftrightarrow>
     (\<exists>before after. xs = before @ x # after \<and> P x \<and> (\<forall>y \<in> set after. \<not> P y))"
  unfolding find_first_iff
proof
  assume "\<exists>before after. rev xs = before @ x # after \<and> P x \<and> (\<forall>y \<in> set before. \<not> P y)"
  then obtain b a where "rev xs = b @ x # a" "P x" "\<forall>y \<in> set b. \<not> P y" by blast
  then have "xs = rev a @ x # rev b" by (metis append.assoc append_Cons append_Nil rev.simps(2) rev_append rev_rev_ident)
  with \<open>P x\<close> \<open>\<forall>y \<in> set b. \<not> P y\<close> show "\<exists>b a. xs = b @ x # a \<and> P x \<and> (\<forall>y \<in> set a. \<not> P y)"
    by (metis set_rev)
next
  assume "\<exists>b a. xs = b @ x # a \<and> P x \<and> (\<forall>y \<in> set a. \<not> P y)"
  then obtain b a where "xs = b @ x # a" "P x" "\<forall>y \<in> set a. \<not> P y" by blast
  then have "rev xs = rev a @ x # rev b" by simp
  with \<open>P x\<close> \<open>\<forall>y \<in> set a. \<not> P y\<close>
  show "\<exists>b a. rev xs = b @ x # a \<and> P x \<and> (\<forall>y \<in> set b. \<not> P y)" by (metis set_rev)
qed

text \<open>\<open>sort_key\<close> is the stable sort Rust's \<open>sort_by_key\<close> documents.\<close>

lemma set_sort_key_eq [simp]: "set (sort_key f xs) = set xs"
  by simp

lemma filter_length_le: "length (filter P xs) \<le> length xs"
  by (rule length_filter_le)

lemma sorted_map_take: "sorted (map f xs) \<Longrightarrow> sorted (map f (take n xs))"
  by (simp add: take_map [symmetric] sorted_wrt_take)

lemma sorted_map_filter: "sorted (map f xs) \<Longrightarrow> sorted (map f (filter P xs))"
  by (rule sorted_filter)

lemma take_eq_butlast: "length xs = Suc n \<Longrightarrow> take n xs = butlast xs"
  by (simp add: butlast_conv_take)

section \<open>Ordered maps and positions\<close>

text \<open>A \<open>BTreeMap\<close> as the list of its entries in key order, and \<open>Iterator::position\<close>.\<close>

fun btree_insert :: "'k::linorder \<Rightarrow> 'v \<Rightarrow> ('k \<times> 'v) list \<Rightarrow> ('k \<times> 'v) list" where
  "btree_insert k v [] = [(k, v)]"
| "btree_insert k v ((k', v') # m) =
     (if k < k' then (k, v) # (k', v') # m
      else if k = k' then (k, v) # m
      else (k', v') # btree_insert k v m)"

lemma map_of_btree_insert [simp]: "map_of (btree_insert k v m) = (map_of m)(k \<mapsto> v)"
  by (induction m) (auto simp: fun_eq_iff)

lemma keys_btree_insert [simp]: "fst ` set (btree_insert k v m) = insert k (fst ` set m)"
proof (induction m)
  case (Cons e m)
  then show ?case by (cases e) (simp add: insert_commute)
qed simp

lemma sorted_btree_insert:
  "sorted_wrt (<) (map fst m) \<Longrightarrow> sorted_wrt (<) (map fst (btree_insert k v m))"
proof (induction m)
  case (Cons e m)
  have "x \<in> fst ` set (btree_insert k v m) \<Longrightarrow> x = k \<or> x \<in> fst ` set m" for x by simp
  with Cons show ?case by (cases e) (auto simp: neq_iff)
qed simp

fun position :: "'a \<Rightarrow> 'a list \<Rightarrow> nat option" where
  "position x [] = None"
| "position x (y # ys) = (if y = x then Some 0 else map_option Suc (position x ys))"

lemma position_None: "position x ys = None \<longleftrightarrow> x \<notin> set ys"
  by (induction ys) auto

lemma position_Some: "position x ys = Some n \<Longrightarrow> n < length ys \<and> ys ! n = x"
  by (induction ys arbitrary: n) (auto split: if_splits)

lemma position_nth: "distinct ys \<Longrightarrow> n < length ys \<Longrightarrow> position (ys ! n) ys = Some n"
proof (induction ys arbitrary: n)
  case (Cons y ys)
  then show ?case by (cases n) auto
qed simp

lemma map_of_btree_inserts:
  "distinct (map fst kvs) \<Longrightarrow> map_of (foldl (\<lambda>m (k, v). btree_insert k v m) m kvs) = map_of m ++ map_of kvs"
proof (induction kvs arbitrary: m)
  case (Cons kv kvs)
  obtain k v where kv: "kv = (k, v)" by (cases kv)
  with Cons.prems have "map_of kvs k = None" by (simp add: map_of_eq_None_iff)
  moreover have "map_of (foldl (\<lambda>m (k, v). btree_insert k v m) m (kv # kvs)) =
      (map_of m)(k \<mapsto> v) ++ map_of kvs"
    using Cons by (simp add: kv)
  ultimately show ?case by (auto simp: kv map_add_def fun_eq_iff split: option.split)
qed simp

section \<open>Bounded pointer chains\<close>

text \<open>
  Several loops of the code follow an optional pointer from record to record under a hop
  bound: the supersession chain in both directions and the merge redirect. \<open>chain_at step n x\<close>
  is the record \<open>n\<close> hops behind \<open>x\<close>.
\<close>

fun chain_at :: "('a \<Rightarrow> 'a option) \<Rightarrow> nat \<Rightarrow> 'a \<Rightarrow> 'a option" where
  "chain_at step 0 x = Some x"
| "chain_at step (Suc n) x =
     (case step x of None \<Rightarrow> None | Some y \<Rightarrow> chain_at step n y)"

inductive chain_reach :: "('a \<Rightarrow> 'a option) \<Rightarrow> 'a \<Rightarrow> 'a \<Rightarrow> bool" for step where
  chain_one: "step x = Some y \<Longrightarrow> chain_reach step x y"
| chain_more: "step x = Some y \<Longrightarrow> chain_reach step y z \<Longrightarrow> chain_reach step x z"

inductive_cases chain_reachE: "chain_reach step x z"

lemma chain_at_Suc_bind: "chain_at step (Suc n) x = Option.bind (step x) (chain_at step n)"
  by (cases "step x") auto

lemma chain_at_add: "chain_at step (m + n) x = Option.bind (chain_at step m x) (chain_at step n)"
  by (induction m arbitrary: x) (auto split: option.splits)

lemma chain_reach_iff: "chain_reach step x y \<longleftrightarrow> (\<exists>n. chain_at step (Suc n) x = Some y)"
proof
  show "chain_reach step x y \<Longrightarrow> \<exists>n. chain_at step (Suc n) x = Some y"
  proof (induction rule: chain_reach.induct)
    case (chain_one x y)
    then have "chain_at step (Suc 0) x = Some y" by simp
    then show ?case by blast
  next
    case (chain_more x y z)
    then obtain n where "chain_at step (Suc n) y = Some z" by blast
    with chain_more have "chain_at step (Suc (Suc n)) x = Some z" by simp
    then show ?case by blast
  qed
next
  have "chain_at step (Suc n) x = Some y \<Longrightarrow> chain_reach step x y" for n
  proof (induction n arbitrary: x)
    case 0
    then show ?case by (auto intro: chain_one split: option.splits)
  next
    case (Suc n)
    then show ?case by (auto intro: chain_more split: option.splits)
  qed
  then show "\<exists>n. chain_at step (Suc n) x = Some y \<Longrightarrow> chain_reach step x y" by blast
qed

text \<open>
  The interface of such a chain: every successor is one of finitely many records. A record
  that can be reached at all is then reached within as many hops as there are records, so a
  loop with that bound sees all of them, cyclic chains included.
\<close>

locale bounded_chain =
  fixes step :: "'a \<Rightarrow> 'a option" and nodes :: "'a list"
  assumes step_in: "step x = Some y \<Longrightarrow> y \<in> set nodes"
begin

lemma chain_at_in: "chain_at step (Suc n) x = Some y \<Longrightarrow> y \<in> set nodes"
proof (induction n arbitrary: x)
  case 0
  then show ?case by (auto split: option.splits dest: step_in)
next
  case (Suc n)
  then show ?case by (auto split: option.splits)
qed

lemma least_hops_distinct:
  assumes at: "chain_at step (Suc n) x = Some y"
    and least: "\<And>m. m < n \<Longrightarrow> chain_at step (Suc m) x \<noteq> Some y"
  shows "inj_on (\<lambda>m. chain_at step (Suc m) x) {0..n}"
proof (rule linorder_inj_onI)
  fix i j assume ij: "i < j" "i \<in> {0..n}" "j \<in> {0..n}"
  show "chain_at step (Suc i) x \<noteq> chain_at step (Suc j) x"
  proof
    assume eq: "chain_at step (Suc i) x = chain_at step (Suc j) x"
    have "chain_at step (Suc (n - (j - i))) x = chain_at step (Suc i + (n - j)) x"
      using ij by (intro arg_cong [where f = "\<lambda>k. chain_at step k x"]) auto
    also have "\<dots> = Option.bind (chain_at step (Suc j) x) (chain_at step (n - j))"
      by (simp only: chain_at_add eq)
    also have "\<dots> = chain_at step (Suc j + (n - j)) x"
      by (simp only: chain_at_add)
    also have "\<dots> = chain_at step (Suc n) x"
      using ij by (intro arg_cong [where f = "\<lambda>k. chain_at step k x"]) auto
    finally show False using least [of "n - (j - i)"] ij at by auto
  qed
qed auto

lemma reach_within:
  assumes "chain_reach step x y"
  obtains n where "n < length nodes" "chain_at step (Suc n) x = Some y"
proof -
  define n where "n = (LEAST n. chain_at step (Suc n) x = Some y)"
  from assms obtain k where k: "chain_at step (Suc k) x = Some y"
    by (auto simp: chain_reach_iff)
  have at: "chain_at step (Suc n) x = Some y"
    unfolding n_def using k by (rule LeastI)
  have least: "\<And>m. m < n \<Longrightarrow> chain_at step (Suc m) x \<noteq> Some y"
    unfolding n_def by (rule not_less_Least)
  let ?f = "\<lambda>m. chain_at step (Suc m) x"
  have sub: "?f ` {0..n} \<subseteq> Some ` set nodes"
  proof
    fix z assume "z \<in> ?f ` {0..n}"
    then obtain m where m: "m \<le> n" "z = ?f m" by auto
    have "?f m \<noteq> None"
    proof
      assume none: "?f m = None"
      have "?f n = Option.bind (?f m) (chain_at step (n - m))"
        using m by (metis add_Suc chain_at_add le_add_diff_inverse)
      with none at show False by simp
    qed
    then obtain w where "?f m = Some w" by blast
    with m show "z \<in> Some ` set nodes" using chain_at_in by blast
  qed
  have "card {0..n} \<le> card (Some ` set nodes)"
    using card_image [OF least_hops_distinct [OF at least]] card_mono [OF _ sub] by simp
  also have "\<dots> \<le> length nodes"
    by (simp add: card_image card_length)
  finally have "n < length nodes" by simp
  with at that show ?thesis by blast
qed

end

end
