(* ===== verification/Rust_Str.thy ===== *)
theory Rust_Str
  imports Prelude "HOL-Library.Sublist"
begin

text \<open>
  Rust's \<open>str\<close> as the code uses it. A string is the list of its UTF-8 bytes, which is what
  \<open>len()\<close> counts and what comparison, \<open>contains\<close>, \<open>starts_with\<close> and slicing work on; the
  operations that look at characters (\<open>chars\<close>, \<open>trim\<close>, \<open>split_whitespace\<close>, \<open>split\<close> by a
  predicate) first group the bytes into characters with \<open>utf8_chars\<close>. The three tables that
  belong to the Unicode database and not to the program (lower-casing, the alphanumeric
  property, the escapes of the debug format) are a record the definitions take as an argument.
\<close>

section \<open>The Unicode tables\<close>

record unicode =
  to_lower :: "string \<Rightarrow> string"
  is_alphanumeric :: "string \<Rightarrow> bool"
  debug_fmt :: "string \<Rightarrow> string"

section \<open>Literals outside ASCII, line feed, quote\<close>

definition nl :: string where "nl = [CHR 0x0A]"
definition dquote :: string where "dquote = [CHR 0x22]"
definition backtick :: string where "backtick = [CHR 0x60]"
definition em_dash :: string where "em_dash = [CHR 0xE2, CHR 0x80, CHR 0x94]"
definition ellipsis :: string where "ellipsis = [CHR 0xE2, CHR 0x80, CHR 0xA6]"
definition right_arrow :: string where "right_arrow = [CHR 0xE2, CHR 0x86, CHR 0x92]"

definition in_ticks :: "string \<Rightarrow> string" where
  "in_ticks s = backtick @ s @ backtick"

lemmas literal_defs = nl_def dquote_def backtick_def em_dash_def ellipsis_def right_arrow_def

section \<open>Bytes and characters\<close>

definition byte_of :: "char \<Rightarrow> nat" where
  "byte_of c = of_char c"

definition is_continuation :: "char \<Rightarrow> bool" where
  "is_continuation c \<longleftrightarrow> 128 \<le> byte_of c \<and> byte_of c < 192"

function utf8_chars :: "string \<Rightarrow> string list" where
  "utf8_chars [] = []"
| "utf8_chars (c # cs) =
     (c # takeWhile is_continuation cs) # utf8_chars (dropWhile is_continuation cs)"
  by pat_completeness auto
termination
  by (relation "measure length") (auto simp: less_Suc_eq_le length_dropWhile_le)

lemma concat_utf8_chars [simp]: "concat (utf8_chars s) = s"
  by (induction s rule: utf8_chars.induct) auto

lemma utf8_chars_ne: "c \<in> set (utf8_chars s) \<Longrightarrow> c \<noteq> []"
  by (induction s rule: utf8_chars.induct) auto

lemma utf8_chars_Nil_iff [simp]: "utf8_chars s = [] \<longleftrightarrow> s = []"
  by (cases s) auto

definition char_count :: "string \<Rightarrow> nat" where
  "char_count s = length (utf8_chars s)"

text \<open>The characters with the Unicode property \<open>White_Space\<close>, in UTF-8.\<close>

definition whitespace_chars :: "string list" where
  "whitespace_chars =
     [[CHR 0x09], [CHR 0x0A], [CHR 0x0B], [CHR 0x0C], [CHR 0x0D], [CHR 0x20],
      [CHR 0xC2, CHR 0x85], [CHR 0xC2, CHR 0xA0], [CHR 0xE1, CHR 0x9A, CHR 0x80],
      [CHR 0xE2, CHR 0x80, CHR 0x80], [CHR 0xE2, CHR 0x80, CHR 0x81],
      [CHR 0xE2, CHR 0x80, CHR 0x82], [CHR 0xE2, CHR 0x80, CHR 0x83],
      [CHR 0xE2, CHR 0x80, CHR 0x84], [CHR 0xE2, CHR 0x80, CHR 0x85],
      [CHR 0xE2, CHR 0x80, CHR 0x86], [CHR 0xE2, CHR 0x80, CHR 0x87],
      [CHR 0xE2, CHR 0x80, CHR 0x88], [CHR 0xE2, CHR 0x80, CHR 0x89],
      [CHR 0xE2, CHR 0x80, CHR 0x8A], [CHR 0xE2, CHR 0x80, CHR 0xA8],
      [CHR 0xE2, CHR 0x80, CHR 0xA9], [CHR 0xE2, CHR 0x80, CHR 0xAF],
      [CHR 0xE2, CHR 0x81, CHR 0x9F], [CHR 0xE3, CHR 0x80, CHR 0x80]]"

definition is_whitespace :: "string \<Rightarrow> bool" where
  "is_whitespace c \<longleftrightarrow> c \<in> set whitespace_chars"

section \<open>Trimming\<close>

definition trim_start_matches :: "(string \<Rightarrow> bool) \<Rightarrow> string \<Rightarrow> string" where
  "trim_start_matches P s = concat (dropWhile P (utf8_chars s))"

definition trim_end_matches :: "(string \<Rightarrow> bool) \<Rightarrow> string \<Rightarrow> string" where
  "trim_end_matches P s = concat (rev (dropWhile P (rev (utf8_chars s))))"

definition trim_matches :: "(string \<Rightarrow> bool) \<Rightarrow> string \<Rightarrow> string" where
  "trim_matches P s = trim_end_matches P (trim_start_matches P s)"

definition trim :: "string \<Rightarrow> string" where
  "trim s = trim_matches is_whitespace s"

definition trim_start :: "string \<Rightarrow> string" where
  "trim_start s = trim_start_matches is_whitespace s"

lemma length_concat_dropWhile_le: "length (concat (dropWhile P cs)) \<le> length (concat cs)"
  by (induction cs) auto

lemma length_concat_rev: "length (concat (rev cs)) = length (concat cs)"
  by (induction cs) auto

lemma length_trim_start_matches_le: "length (trim_start_matches P s) \<le> length s"
  using length_concat_dropWhile_le [of P "utf8_chars s"]
  by (simp add: trim_start_matches_def)

lemma length_trim_end_matches_le: "length (trim_end_matches P s) \<le> length s"
proof -
  have "length (concat (dropWhile P (rev (utf8_chars s)))) \<le> length (concat (rev (utf8_chars s)))"
    by (rule length_concat_dropWhile_le)
  then show ?thesis
    by (simp only: trim_end_matches_def length_concat_rev concat_utf8_chars)
qed

lemma length_trim_matches_le: "length (trim_matches P s) \<le> length s"
  unfolding trim_matches_def
  by (rule order_trans [OF length_trim_end_matches_le length_trim_start_matches_le])

lemma length_trim_le: "length (trim s) \<le> length s"
  unfolding trim_def by (rule length_trim_matches_le)

text \<open>Trimming only ever shortens: a result of the same length is the string itself.\<close>

lemma concat_dropWhile_same:
  "\<forall>c \<in> set cs. c \<noteq> [] \<Longrightarrow> length (concat (dropWhile P cs)) = length (concat cs) \<Longrightarrow> dropWhile P cs = cs"
proof (cases cs)
  case (Cons c rest)
  assume ne: "\<forall>c \<in> set cs. c \<noteq> []" and len: "length (concat (dropWhile P cs)) = length (concat cs)"
  have "\<not> P c"
  proof
    assume "P c"
    with len Cons have "length (concat (dropWhile P rest)) = length c + length (concat rest)" by simp
    moreover have "0 < length c" using ne Cons by simp
    ultimately show False using length_concat_dropWhile_le [of P rest] by linarith
  qed
  with Cons show ?thesis by simp
qed simp

lemma trim_start_matches_same: "length (trim_start_matches P s) = length s \<Longrightarrow> trim_start_matches P s = s"
  using concat_dropWhile_same [of "utf8_chars s" P] utf8_chars_ne [of _ s]
  by (simp add: trim_start_matches_def)

lemma trim_end_matches_same:
  assumes "length (trim_end_matches P s) = length s"
  shows "trim_end_matches P s = s"
proof -
  have "length (concat (dropWhile P (rev (utf8_chars s)))) = length (concat (rev (utf8_chars s)))"
    using assms by (simp only: trim_end_matches_def length_concat_rev concat_utf8_chars)
  then have "dropWhile P (rev (utf8_chars s)) = rev (utf8_chars s)"
    by (intro concat_dropWhile_same) (auto dest: utf8_chars_ne)
  then show ?thesis by (simp add: trim_end_matches_def)
qed

lemma trim_matches_same:
  assumes "length (trim_matches P s) = length s"
  shows "trim_matches P s = s"
proof -
  have "length (trim_start_matches P s) = length s"
    using assms length_trim_end_matches_le [of P "trim_start_matches P s"]
      length_trim_start_matches_le [of P s] by (simp add: trim_matches_def)
  then have "trim_start_matches P s = s" by (rule trim_start_matches_same)
  with assms show ?thesis by (simp add: trim_matches_def trim_end_matches_same)
qed

lemma trim_same: "length (trim s) = length s \<Longrightarrow> trim s = s"
  unfolding trim_def by (rule trim_matches_same)

section \<open>Splitting and joining\<close>

text \<open>\<open>split\<close> keeps the empty pieces: \<open>n\<close> separators give \<open>n + 1\<close> pieces.\<close>

fun split_chars :: "(string \<Rightarrow> bool) \<Rightarrow> string list \<Rightarrow> string list" where
  "split_chars P [] = [[]]"
| "split_chars P (c # cs) =
     (if P c then [] # split_chars P cs
      else (case split_chars P cs of [] \<Rightarrow> [c] | w # ws \<Rightarrow> (c @ w) # ws))"

definition split_by :: "(string \<Rightarrow> bool) \<Rightarrow> string \<Rightarrow> string list" where
  "split_by P s = split_chars P (utf8_chars s)"

definition split_whitespace :: "string \<Rightarrow> string list" where
  "split_whitespace s = filter (\<lambda>w. w \<noteq> []) (split_by is_whitespace s)"

fun join :: "string \<Rightarrow> string list \<Rightarrow> string" where
  "join sep [] = []"
| "join sep [x] = x"
| "join sep (x # y # zs) = x @ sep @ join sep (y # zs)"

definition single_spaced :: "string \<Rightarrow> string" where
  "single_spaced s = join '' '' (split_whitespace s)"

lemma join_Cons: "join sep (x # xs) = x @ (if xs = [] then [] else sep @ join sep xs)"
  by (cases xs) auto

lemma join_Cons_concat: "join sep (x # xs) = x @ concat (map ((@) sep) xs)"
  by (induction xs arbitrary: x) auto

section \<open>Searching\<close>

fun contains :: "string \<Rightarrow> string \<Rightarrow> bool" where
  "contains needle [] = (needle = [])"
| "contains needle (c # cs) = (prefix needle (c # cs) \<or> contains needle cs)"

lemma contains_iff: "contains needle hay \<longleftrightarrow> (\<exists>pre post. hay = pre @ needle @ post)"
proof (induction hay)
  case Nil
  then show ?case by simp
next
  case (Cons c cs)
  show ?case
  proof
    assume "contains needle (c # cs)"
    then consider "prefix needle (c # cs)" | "contains needle cs" by auto
    then show "\<exists>pre post. c # cs = pre @ needle @ post"
    proof cases
      case 1
      then show ?thesis by (metis append_Nil prefixE)
    next
      case 2
      with Cons show ?thesis by (metis append_Cons)
    qed
  next
    assume "\<exists>pre post. c # cs = pre @ needle @ post"
    then obtain pre post where eq: "c # cs = pre @ needle @ post" by blast
    show "contains needle (c # cs)"
    proof (cases pre)
      case Nil
      with eq have "prefix needle (c # cs)" by (simp add: prefix_def)
      then show ?thesis by simp
    next
      case (Cons d ds)
      with eq Cons.IH show ?thesis by auto
    qed
  qed
qed

lemma contains_refl [simp, intro]: "contains s s"
  by (metis append_Nil append_Nil2 contains_iff)

lemma contains_appendI1 [intro]: "contains s t \<Longrightarrow> contains s (t @ u)"
  by (metis append.assoc contains_iff)

lemma contains_appendI2 [intro]: "contains s u \<Longrightarrow> contains s (t @ u)"
  by (metis append.assoc contains_iff)

text \<open>Skipping several pieces of a concatenation at once.\<close>

lemmas contains_skip2 = contains_appendI2 [OF contains_appendI2]
lemmas contains_skip4 = contains_skip2 [OF contains_skip2]
lemmas contains_skip8 = contains_skip4 [OF contains_skip4]

lemma contains_ConsI [intro]: "contains s u \<Longrightarrow> contains s (c # u)"
  using contains_appendI2 [of s u "[c]"] by simp

lemma contains_concatI: "x \<in> set xs \<Longrightarrow> contains s (f x) \<Longrightarrow> contains s (concat (map f xs))"
  by (induction xs) auto

lemma contains_trans: "contains a b \<Longrightarrow> contains b c \<Longrightarrow> contains a c"
  by (metis append.assoc contains_iff)

definition strip_prefix :: "string \<Rightarrow> string \<Rightarrow> string option" where
  "strip_prefix p s = (if prefix p s then Some (drop (length p) s) else None)"

lemma strip_prefix_Some: "strip_prefix p s = Some r \<longleftrightarrow> s = p @ r"
  by (auto simp: strip_prefix_def prefix_def)

text \<open>\<open>str::replace\<close> for a pattern that is not empty.\<close>

function str_replace :: "string \<Rightarrow> string \<Rightarrow> string \<Rightarrow> string" where
  "str_replace pat to [] = []"
| "str_replace pat to (c # cs) =
     (if pat \<noteq> [] \<and> prefix pat (c # cs) then to @ str_replace pat to (drop (length pat) (c # cs))
      else c # str_replace pat to cs)"
  by pat_completeness auto
termination
  by (relation "measure (\<lambda>(_, _, s). length s)") (auto simp: less_Suc_eq_le neq_Nil_conv)

section \<open>ASCII case\<close>

definition ascii_lower_byte :: "char \<Rightarrow> char" where
  "ascii_lower_byte c =
     (if 65 \<le> byte_of c \<and> byte_of c \<le> 90 then char_of (byte_of c + 32) else c)"

definition to_ascii_lowercase :: "string \<Rightarrow> string" where
  "to_ascii_lowercase s = map ascii_lower_byte s"

definition to_ascii_uppercase :: "string \<Rightarrow> string" where
  "to_ascii_uppercase s =
     map (\<lambda>c. if 97 \<le> byte_of c \<and> byte_of c \<le> 122 then char_of (byte_of c - 32) else c) s"

definition eq_ignore_ascii_case :: "string \<Rightarrow> string \<Rightarrow> bool" where
  "eq_ignore_ascii_case a b \<longleftrightarrow> to_ascii_lowercase a = to_ascii_lowercase b"

lemma length_to_ascii_lowercase [simp]: "length (to_ascii_lowercase s) = length s"
  by (simp add: to_ascii_lowercase_def)

lemma ascii_lower_byte_idem [simp]: "ascii_lower_byte (ascii_lower_byte c) = ascii_lower_byte c"
  by (auto simp: ascii_lower_byte_def byte_of_def)

lemma to_ascii_lowercase_idem [simp]:
  "to_ascii_lowercase (to_ascii_lowercase s) = to_ascii_lowercase s"
  by (simp add: to_ascii_lowercase_def)

lemma eq_ignore_ascii_case_sym: "eq_ignore_ascii_case a b \<longleftrightarrow> eq_ignore_ascii_case b a"
  by (auto simp: eq_ignore_ascii_case_def)

definition is_ascii_digit :: "char \<Rightarrow> bool" where
  "is_ascii_digit c \<longleftrightarrow> 48 \<le> byte_of c \<and> byte_of c \<le> 57"

definition is_ascii_alphanumeric :: "char \<Rightarrow> bool" where
  "is_ascii_alphanumeric c \<longleftrightarrow>
     is_ascii_digit c \<or> 65 \<le> byte_of c \<and> byte_of c \<le> 90 \<or> 97 \<le> byte_of c \<and> byte_of c \<le> 122"

text \<open>The tables restricted to ASCII: a concrete instance of \<open>unicode\<close>.\<close>

definition ascii_tables :: unicode where
  "ascii_tables = \<lparr>to_lower = to_ascii_lowercase,
     is_alphanumeric = (\<lambda>c. list_all is_ascii_alphanumeric c),
     debug_fmt = (\<lambda>s. dquote @ s @ dquote)\<rparr>"

section \<open>Decimal numbers\<close>

function show_nat :: "nat \<Rightarrow> string" where
  "show_nat n =
     (if n < 10 then [char_of (48 + n)] else show_nat (n div 10) @ [char_of (48 + n mod 10)])"
  by pat_completeness auto
termination
  by (relation "measure id") auto

declare show_nat.simps [simp del]

definition show_int :: "int \<Rightarrow> string" where
  "show_int n = (if n < 0 then CHR ''-'' # show_nat (nat (- n)) else show_nat (nat n))"

fun digits_value :: "nat \<Rightarrow> string \<Rightarrow> nat" where
  "digits_value acc [] = acc"
| "digits_value acc (c # cs) = digits_value (10 * acc + (byte_of c - 48)) cs"

definition usize_max :: nat where "usize_max = 2 ^ 64 - 1"

text \<open>\<open>str::parse::<usize>\<close>: an optional \<open>+\<close>, then at least one digit, no overflow.\<close>

definition parse_usize :: "string \<Rightarrow> nat option" where
  "parse_usize s =
     (let ds = (case s of c # cs \<Rightarrow> if c = CHR ''+'' then cs else s | [] \<Rightarrow> s)
      in if ds \<noteq> [] \<and> list_all is_ascii_digit ds \<and> digits_value 0 ds \<le> usize_max
         then Some (digits_value 0 ds) else None)"

lemma digits_value_append: "digits_value acc (xs @ [c]) = 10 * digits_value acc xs + (byte_of c - 48)"
  by (induction xs arbitrary: acc) auto

lemma byte_of_digit [simp]: "d < 10 \<Longrightarrow> byte_of (char_of (48 + d)) = 48 + d"
  by (simp add: byte_of_def)

lemma digits_value_show_nat [simp]: "digits_value 0 (show_nat n) = n"
proof (induction n rule: show_nat.induct)
  case (1 n)
  then show ?case
    by (cases "n < 10") (simp_all add: show_nat.simps [of n] digits_value_append)
qed

lemma show_nat_digits: "list_all is_ascii_digit (show_nat n)"
proof (induction n rule: show_nat.induct)
  case (1 n)
  then show ?case
    by (cases "n < 10") (simp_all add: show_nat.simps [of n] is_ascii_digit_def)
qed

lemma show_nat_ne [simp]: "show_nat n \<noteq> []"
  by (subst show_nat.simps) simp

lemma show_nat_inj [simp]: "show_nat m = show_nat n \<longleftrightarrow> m = n"
  by (metis digits_value_show_nat)

lemma show_nat_bytes: "c \<in> set (show_nat n) \<Longrightarrow> 48 \<le> byte_of c \<and> byte_of c \<le> 57"
  using show_nat_digits [of n] by (auto simp: list_all_iff is_ascii_digit_def)

lemma length_show_nat_mono: "m \<le> n \<Longrightarrow> length (show_nat m) \<le> length (show_nat n)"
proof (induction n arbitrary: m rule: show_nat.induct)
  case (1 n)
  show ?case
  proof (cases "n < 10")
    case True
    with "1.prems" show ?thesis by (simp add: show_nat.simps [of m] show_nat.simps [of n])
  next
    case n: False
    show ?thesis
    proof (cases "m < 10")
      case True
      with n show ?thesis by (simp add: show_nat.simps [of m] show_nat.simps [of n])
    next
      case False
      have "m div 10 \<le> n div 10" using "1.prems" by (rule div_le_mono)
      with "1.IH" [OF n] n False show ?thesis
        by (simp add: show_nat.simps [of m] show_nat.simps [of n])
    qed
  qed
qed

lemma hd_show_nat: "hd (show_nat n) \<noteq> CHR ''+''"
proof -
  have "48 \<le> byte_of (hd (show_nat n))"
    using show_nat_bytes [of "hd (show_nat n)" n] by simp
  then show ?thesis by (auto simp: byte_of_def)
qed

lemma parse_show_nat: "n \<le> usize_max \<Longrightarrow> parse_usize (show_nat n) = Some n"
  using show_nat_digits [of n] hd_show_nat [of n] digits_value_show_nat [of n]
  by (cases "show_nat n") (simp_all add: parse_usize_def)

text \<open>A string of ASCII bytes is one character per byte.\<close>

lemma utf8_chars_ascii: "list_all (\<lambda>c. byte_of c < 128) s \<Longrightarrow> utf8_chars s = map (\<lambda>c. [c]) s"
proof (induction s)
  case (Cons c cs)
  then have "takeWhile is_continuation cs = []" "dropWhile is_continuation cs = cs"
    by (cases cs; simp add: is_continuation_def)+
  with Cons show ?case by simp
qed simp

lemma trim_start_id: "is_whitespace [c] = False \<Longrightarrow> byte_of c < 128 \<Longrightarrow> cs = [] \<or> \<not> is_continuation (hd cs) \<Longrightarrow>
    trim_start (c # cs) = c # cs"
  by (cases cs) (auto simp: trim_start_def trim_start_matches_def)

lemma digit_not_whitespace: "is_ascii_digit c \<Longrightarrow> \<not> is_whitespace [c]"
  by (auto simp: is_whitespace_def whitespace_chars_def is_ascii_digit_def byte_of_def)

lemma trim_digits:
  assumes "list_all is_ascii_digit s"
  shows "trim s = s"
proof -
  have chars: "utf8_chars s = map (\<lambda>c. [c]) s"
    using assms by (intro utf8_chars_ascii) (auto simp: list_all_iff is_ascii_digit_def)
  have drop: "dropWhile is_whitespace (map (\<lambda>c. [c]) t) = map (\<lambda>c. [c]) t"
    if "list_all is_ascii_digit t" for t
    using that by (cases t) (auto simp: digit_not_whitespace)
  have single: "concat (map (\<lambda>c. [c]) t) = t" for t :: string
    by (induction t) auto
  have front: "trim_start_matches is_whitespace s = s"
    using assms by (simp add: trim_start_matches_def chars drop single)
  have "rev (dropWhile is_whitespace (rev (utf8_chars s))) = map (\<lambda>c. [c]) s"
    using assms drop [of "rev s"] by (simp add: chars rev_map)
  then have tail: "trim_end_matches is_whitespace s = s"
    by (simp add: trim_end_matches_def single)
  show ?thesis by (simp add: trim_def trim_matches_def front tail)
qed

end
