(* ===== verification/Ctx_Model.thy ===== *)
theory Ctx_Model
  imports Rust_Str
begin

text \<open>
  The context layer's data (\<open>crates/fletch-core/src/context/model.rs\<close>): the vocabulary, the
  write stamp, the events, one project's projection (\<open>graph\<close>) and the compiled picture
  (\<open>ctx_bundle\<close>). Fields carry a prefix per record, since record selectors are global. Timestamps
  (\<open>i64\<close>) are \<open>int\<close>: the code only compares them.
\<close>

type_synonym ctx_id = string

section \<open>Vocabulary\<close>

datatype entity_kind = Vision | Goal | Capability | Feature | Module | Topic

datatype assertion_kind = Decision | Constraint | Fact

datatype ctx_domain = Business | Architectural | Implementation

datatype stance = Adopted | Rejected

datatype rel = PartOf | DependsOn | Serves

datatype entity_status = Active | Archived | Merged

datatype assertion_status = Provisional | Confirmed | Abandoned | Retracted

section \<open>The write stamp\<close>

datatype author_kind = User | Agent | Extractor | Ingester

record author =
  au_kind :: author_kind
  au_agent_id :: "string option"
  au_provider :: "string option"

definition author_user :: author where
  "author_user = \<lparr>au_kind = User, au_agent_id = None, au_provider = None\<rparr>"

definition author_agent :: "string \<Rightarrow> string \<Rightarrow> author" where
  "author_agent agent_id provider =
     \<lparr>au_kind = Agent, au_agent_id = Some agent_id, au_provider = Some provider\<rparr>"

definition author_ingester :: author where
  "author_ingester = \<lparr>au_kind = Ingester, au_agent_id = None, au_provider = None\<rparr>"

definition author_extractor :: "string \<Rightarrow> string \<Rightarrow> author" where
  "author_extractor agent_id provider =
     \<lparr>au_kind = Extractor, au_agent_id = Some agent_id, au_provider = Some provider\<rparr>"

datatype source_kind =
  UserTurn | AgentTurn | Pr | ReviewThread | Roadmap | Workflow | Ui | Repo

record source =
  so_kind :: source_kind
  so_reference :: "string option"

definition source_new :: "source_kind \<Rightarrow> string option \<Rightarrow> source" where
  "source_new kind reference = \<lparr>so_kind = kind, so_reference = reference\<rparr>"

definition source_ui :: source where
  "source_ui = source_new Ui None"

record provenance =
  pv_workspace_id :: "string option"
  pv_branch :: "string option"
  pv_commit_sha :: "string option"
  pv_session_id :: "string option"
  pv_turn_id :: "string option"
  pv_repo :: "string option"

record stamp =
  st_author :: author
  st_source :: source
  st_provenance :: provenance

section \<open>Events\<close>

record supersede =
  su_id :: ctx_id
  su_reasoning :: string

record contradict =
  co_id :: ctx_id
  co_reasoning :: "string option"

text \<open>The payload's fields are positional, in the order the source declares them.\<close>

datatype event_payload =
    EntityRecorded ctx_id string entity_kind string string "string list" "string list"
  | EntityArchived ctx_id
  | EntityMerged ctx_id ctx_id
  | AssertionRecorded ctx_id assertion_kind ctx_domain stance string string int "string list"
      "ctx_id list" "supersede option" "contradict list" assertion_status
  | EvLinked ctx_id ctx_id rel
  | EvUnlinked ctx_id ctx_id rel
  | EvRetracted ctx_id string
  | EvConfirmed ctx_id
  | EvAbandoned ctx_id
  | ContradictionResolved ctx_id ctx_id string

fun type_name :: "event_payload \<Rightarrow> string" where
  "type_name (EntityRecorded _ _ _ _ _ _ _) = ''entity_recorded''"
| "type_name (EntityArchived _) = ''entity_archived''"
| "type_name (EntityMerged _ _) = ''entity_merged''"
| "type_name (AssertionRecorded _ _ _ _ _ _ _ _ _ _ _ _) = ''assertion_recorded''"
| "type_name (EvLinked _ _ _) = ''linked''"
| "type_name (EvUnlinked _ _ _) = ''unlinked''"
| "type_name (EvRetracted _ _) = ''retracted''"
| "type_name (EvConfirmed _) = ''confirmed''"
| "type_name (EvAbandoned _) = ''abandoned''"
| "type_name (ContradictionResolved _ _ _) = ''contradiction_resolved''"

section \<open>The projection as read back\<close>

record assertion_input =
  ai_kind :: assertion_kind
  ai_domain :: ctx_domain
  ai_stance :: stance
  ai_statement :: string
  ai_rationale :: string
  ai_valid_from :: "int option"
  ai_paths :: "string list"
  ai_about :: "ctx_id list"
  ai_supersedes :: "supersede option"
  ai_contradicts :: "contradict list"
  ai_status :: assertion_status

record entity =
  e_id :: ctx_id
  e_slug :: string
  e_kind :: entity_kind
  e_name :: string
  e_summary :: string
  e_aliases :: "string list"
  e_paths :: "string list"
  e_status :: entity_status
  e_merged_into :: "ctx_id option"
  e_recorded_at :: int
  e_author :: author
  e_source :: source

record assertion =
  a_id :: ctx_id
  a_kind :: assertion_kind
  a_domain :: ctx_domain
  a_stance :: stance
  a_statement :: string
  a_rationale :: string
  a_valid_from :: int
  a_paths :: "string list"
  a_status :: assertion_status
  a_recorded_at :: int
  a_author :: author
  a_source :: source
  a_provenance :: provenance
  a_about :: "ctx_id list"
  a_supersedes :: "supersede option"
  a_superseded_by :: "ctx_id option"
  a_contradicts :: "ctx_id list"

definition is_head :: "assertion \<Rightarrow> bool" where
  "is_head a \<longleftrightarrow> a_superseded_by a = None"

record relation =
  r_from :: ctx_id
  r_to :: ctx_id
  r_rel :: rel

record resolution =
  rs_reasoning :: string
  rs_at :: int
  rs_by :: author

record contradiction_edge =
  ce_a :: ctx_id
  ce_b :: ctx_id
  ce_reasoning :: "string option"
  ce_resolution :: "resolution option"

record graph =
  g_project_id :: string
  g_entities :: "entity list"
  g_assertions :: "assertion list"
  g_relations :: "relation list"
  g_current :: "ctx_id list"
  g_contradictions :: "contradiction_edge list"

definition graph_entity :: "graph \<Rightarrow> ctx_id \<Rightarrow> entity option" where
  "graph_entity g i = List.find (\<lambda>e. e_id e = i) (g_entities g)"

definition graph_assertion :: "graph \<Rightarrow> ctx_id \<Rightarrow> assertion option" where
  "graph_assertion g i = List.find (\<lambda>a. a_id a = i) (g_assertions g)"

definition graph_vision :: "graph \<Rightarrow> entity option" where
  "graph_vision g = List.find (\<lambda>e. e_kind e = Vision \<and> e_status e = Active) (g_entities g)"

lemma graph_entity_SomeD: "graph_entity g i = Some e \<Longrightarrow> e_id e = i \<and> e \<in> set (g_entities g)"
  unfolding graph_entity_def by (drule find_SomeD) simp

lemma graph_assertion_SomeD:
  "graph_assertion g i = Some a \<Longrightarrow> a_id a = i \<and> a \<in> set (g_assertions g)"
  unfolding graph_assertion_def by (drule find_SomeD) simp

lemma graph_vision_SomeD:
  "graph_vision g = Some v \<Longrightarrow> v \<in> set (g_entities g) \<and> e_kind v = Vision \<and> e_status v = Active"
  unfolding graph_vision_def by (drule find_SomeD) simp

section \<open>Compilation: what an agent or the UI gets\<close>

record compile_query =
  q_entities :: "string list"
  q_query :: "string option"
  q_paths :: "string list"
  q_include_history :: bool
  q_budget_chars :: nat
  q_overview :: bool

datatype entry_reason =
  EntryVision | EntryNamed | EntryQuery | EntryPath | EntryNeighbour

record bundle_entity =
  be_entity :: entity
  be_reason :: entry_reason
  be_relations :: "relation list"

record assertion_flags =
  af_provisional :: bool
  af_contradicted_by :: "ctx_id list"
  af_has_history :: bool

record bundle_assertion =
  ba_assertion :: assertion
  ba_flags :: assertion_flags
  ba_history :: "assertion list"

record contradiction =
  cn_a :: ctx_id
  cn_b :: ctx_id
  cn_reasoning :: "string option"

record ctx_bundle =
  b_project_id :: string
  b_vision :: "entity option"
  b_overview :: bool
  b_entities :: "bundle_entity list"
  b_assertions :: "bundle_assertion list"
  b_contradictions :: "contradiction list"
  b_misses :: "string list"
  b_warnings :: "string list"
  b_truncated :: "ctx_id list"

datatype relation_kind = RelNew | RelConfirms | RelSupersedes | RelContradicts | RelDuplicate

record proposed_relation =
  pr_kind :: relation_kind
  pr_target :: "ctx_id option"
  pr_reasoning :: "string option"

end
