(* ===== verification/Ctx_Chain.thy ===== *)
theory Ctx_Chain
  imports Ctx_Model
begin

text \<open>
  What stands now: \<open>is_live\<close> (\<open>context/resolve.rs\<close>) and the walks along the supersession chain
  of \<open>context/compile.rs\<close> (\<open>is_current\<close>, \<open>current_heads\<close>, \<open>heads_about\<close>, \<open>history\<close>). Both
  walks are bounded by the number of assertions in the graph; the lemmas show that the bound
  never cuts a chain short, whatever its shape, cycles included.
\<close>

definition is_live :: "assertion_status \<Rightarrow> bool" where
  "is_live status \<longleftrightarrow> \<not> (status = Retracted \<or> status = Abandoned)"

text \<open>The two pointers, resolved in the graph.\<close>

definition successor :: "graph \<Rightarrow> assertion \<Rightarrow> assertion option" where
  "successor g a = Option.bind (a_superseded_by a) (graph_assertion g)"

definition predecessor :: "graph \<Rightarrow> assertion \<Rightarrow> assertion option" where
  "predecessor g a = Option.bind (a_supersedes a) (\<lambda>s. graph_assertion g (su_id s))"

text \<open>The \<open>while let Some(s) = next\<close> loop of \<open>is_current\<close>, with its hop counter.\<close>

function current_walk :: "graph \<Rightarrow> nat \<Rightarrow> assertion option \<Rightarrow> bool" where
  "current_walk g hops next =
     (case next of
        None \<Rightarrow> True
      | Some s \<Rightarrow>
          if is_live (a_status s) then False
          else if Suc hops > length (g_assertions g) then True
          else current_walk g (Suc hops) (successor g s))"
  by pat_completeness auto
termination
  by (relation "measure (\<lambda>(g, hops, _). Suc (length (g_assertions g)) - hops)") auto

declare current_walk.simps [simp del]

definition is_current :: "graph \<Rightarrow> assertion \<Rightarrow> bool" where
  "is_current g a =
     (if \<not> is_live (a_status a) then False else current_walk g 0 (successor g a))"

definition current_heads :: "graph \<Rightarrow> ctx_id set" where
  "current_heads g = set (map a_id (filter (is_current g) (g_assertions g)))"

definition heads_about :: "graph \<Rightarrow> ctx_id \<Rightarrow> assertion list" where
  "heads_about g i = filter (\<lambda>a. i \<in> set (a_about a) \<and> is_current g a) (g_assertions g)"

function history_loop :: "graph \<Rightarrow> assertion list \<Rightarrow> assertion option \<Rightarrow> assertion list" where
  "history_loop g chain current =
     (case Option.bind current (predecessor g) of
        None \<Rightarrow> chain
      | Some prev \<Rightarrow>
          if length chain \<ge> length (g_assertions g) then chain
          else history_loop g (chain @ [prev]) (Some prev))"
  by pat_completeness auto
termination
  by (relation "measure (\<lambda>(g, chain, _). length (g_assertions g) - length chain)") auto

declare history_loop.simps [simp del]

definition history :: "graph \<Rightarrow> ctx_id \<Rightarrow> assertion list" where
  "history g i = history_loop g [] (graph_assertion g i)"

section \<open>The chains of a graph are bounded chains\<close>

interpretation supersession: bounded_chain "successor g" "g_assertions g" for g
  by unfold_locales (auto simp: successor_def bind_eq_Some_conv dest: graph_assertion_SomeD)

interpretation precession: bounded_chain "predecessor g" "g_assertions g" for g
  by unfold_locales (auto simp: predecessor_def bind_eq_Some_conv dest: graph_assertion_SomeD)

section \<open>is_current\<close>

text \<open>The walk from hop count \<open>h\<close> looks at the next \<open>length + 1 - h\<close> records of the chain.\<close>

lemma current_walk_iff:
  "h \<le> length (g_assertions g) \<Longrightarrow>
   current_walk g h next \<longleftrightarrow>
     (\<forall>n s. h + n \<le> length (g_assertions g) \<longrightarrow>
        Option.bind next (chain_at (successor g) n) = Some s \<longrightarrow> \<not> is_live (a_status s))"
proof (induction g h "next" rule: current_walk.induct)
  case (1 g h "next")
  let ?L = "length (g_assertions g)"
  show ?case
  proof (cases "next")
    case None
    then show ?thesis by (simp add: current_walk.simps)
  next
    case (Some s)
    have split: "(\<forall>n t. h + n \<le> ?L \<longrightarrow> chain_at (successor g) n s = Some t \<longrightarrow> \<not> is_live (a_status t))
      \<longleftrightarrow> \<not> is_live (a_status s) \<and>
          (\<forall>n t. Suc h + n \<le> ?L \<longrightarrow> Option.bind (successor g s) (chain_at (successor g) n) = Some t
             \<longrightarrow> \<not> is_live (a_status t))" (is "?l \<longleftrightarrow> ?r")
    proof
      assume l: ?l
      have "\<not> is_live (a_status t)"
        if "Suc h + n \<le> ?L" "Option.bind (successor g s) (chain_at (successor g) n) = Some t" for n t
        using l [rule_format, of "Suc n" t] that by (simp add: chain_at_Suc_bind del: chain_at.simps)
      moreover have "\<not> is_live (a_status s)"
        using l [rule_format, of 0 s] "1.prems" by simp
      ultimately show ?r by blast
    next
      assume r: ?r
      show ?l
      proof (intro allI impI)
        fix n t assume "h + n \<le> ?L" "chain_at (successor g) n s = Some t"
        with r show "\<not> is_live (a_status t)"
          by (cases n) (auto split: option.splits)
      qed
    qed
    show ?thesis
    proof (cases "is_live (a_status s)")
      case True
      with Some split show ?thesis by (simp add: current_walk.simps [of g h])
    next
      case live: False
      show ?thesis
      proof (cases "Suc h > ?L")
        case True
        with Some live split show ?thesis by (simp add: current_walk.simps [of g h])
      next
        case False
        with Some live have "current_walk g h next = current_walk g (Suc h) (successor g s)"
          by (simp add: current_walk.simps [of g h])
        also have "\<dots> \<longleftrightarrow> (\<forall>n t. Suc h + n \<le> ?L \<longrightarrow>
            Option.bind (successor g s) (chain_at (successor g) n) = Some t \<longrightarrow> \<not> is_live (a_status t))"
          using "1.IH" [OF Some live False] False by simp
        finally show ?thesis using live split Some by simp
      qed
    qed
  qed
qed

lemma is_current_chain:
  "is_current g a \<longleftrightarrow>
     is_live (a_status a) \<and> (\<forall>s. chain_reach (successor g) a s \<longrightarrow> \<not> is_live (a_status s))"
proof -
  let ?L = "length (g_assertions g)"
  have "(\<forall>n s. n \<le> ?L \<longrightarrow> chain_at (successor g) (Suc n) a = Some s \<longrightarrow> \<not> is_live (a_status s))
     \<longleftrightarrow> (\<forall>s. chain_reach (successor g) a s \<longrightarrow> \<not> is_live (a_status s))" (is "?l \<longleftrightarrow> ?r")
  proof
    assume l: ?l
    show ?r
    proof (intro allI impI)
      fix s assume "chain_reach (successor g) a s"
      then obtain n where "n < ?L" "chain_at (successor g) (Suc n) a = Some s"
        by (rule supersession.reach_within)
      with l show "\<not> is_live (a_status s)" by (meson less_imp_le)
    qed
  next
    assume ?r
    then show ?l by (meson chain_reach_iff)
  qed
  then show ?thesis
    by (simp add: is_current_def current_walk_iff chain_at_Suc_bind del: chain_at.simps)
qed

text \<open>
  Claim C4. \<open>is_current\<close> decides exactly what its documentation says: the assertion is live and
  no record further down its supersession chain is. The hop bound of the loop changes nothing,
  even on a cyclic chain.
\<close>

theorem is_current_correct:
  "is_current g a \<longleftrightarrow>
     is_live (a_status a) \<and> (\<forall>s. chain_reach (successor g) a s \<longrightarrow> \<not> is_live (a_status s))"
  by (rule is_current_chain)

lemma is_current_live: "is_current g a \<Longrightarrow> is_live (a_status a)"
  by (simp add: is_current_def split: if_splits)

text \<open>
  The chain never loses its last live record: a live assertion whose supersession chain
  ends is current, or some record that replaced it, directly or not, is.
\<close>

theorem live_chain_has_current:
  assumes "is_live (a_status a)" and "chain_at (successor g) n a = None"
  shows "\<exists>c. (c = a \<or> chain_reach (successor g) a c) \<and> is_current g c"
  using assms
proof (induction n arbitrary: a rule: less_induct)
  case (less n)
  show ?case
  proof (cases "is_current g a")
    case True
    then show ?thesis by blast
  next
    case False
    with less.prems(1) obtain s where s: "chain_reach (successor g) a s" "is_live (a_status s)"
      by (auto simp: is_current_chain)
    then obtain k where k: "chain_at (successor g) (Suc k) a = Some s"
      by (auto simp: chain_reach_iff)
    have kn: "Suc k < n"
    proof (rule ccontr)
      assume "\<not> Suc k < n"
      then have "chain_at (successor g) (Suc k) a = chain_at (successor g) (n + (Suc k - n)) a"
        by simp
      also have "\<dots> = None" by (simp only: chain_at_add less.prems(2)) simp
      finally show False using k by simp
    qed
    have "chain_at (successor g) n a = chain_at (successor g) (Suc k + (n - Suc k)) a"
      using kn by simp
    then have "chain_at (successor g) (n - Suc k) s = None"
      using less.prems(2) by (simp only: chain_at_add k) simp
    with less.IH [of "n - Suc k" s] s(2) kn
    obtain c where "c = s \<or> chain_reach (successor g) s c" "is_current g c" by auto
    moreover have "chain_reach (successor g) a c" if "chain_reach (successor g) s c"
    proof -
      from that obtain m where "chain_at (successor g) (Suc m) s = Some c"
        by (auto simp: chain_reach_iff)
      then have "chain_at (successor g) (Suc (k + Suc m)) a = Some c"
        using chain_at_add [of "successor g" "Suc k" "Suc m" a] k by simp
      then show ?thesis by (auto simp: chain_reach_iff simp del: chain_at.simps)
    qed
    ultimately show ?thesis using s(1) by blast
  qed
qed

section \<open>history\<close>

lemma history_loop_nth:
  "length chain \<le> length (g_assertions g) \<Longrightarrow>
   \<exists>rest. history_loop g chain current = chain @ rest \<and>
     length chain + length rest \<le> length (g_assertions g) \<and>
     (\<forall>k < length rest. Option.bind current (chain_at (predecessor g) (Suc k)) = Some (rest ! k)) \<and>
     (length chain + length rest < length (g_assertions g) \<longrightarrow>
        Option.bind current (chain_at (predecessor g) (Suc (length rest))) = None)"
proof (induction g chain current rule: history_loop.induct)
  case (1 g chain current)
  let ?L = "length (g_assertions g)"
  show ?case
  proof (cases "Option.bind current (predecessor g)")
    case None
    have "history_loop g chain current = chain @ []"
      by (simp add: history_loop.simps [of g chain] None)
    moreover have "Option.bind current (chain_at (predecessor g) (Suc 0)) = None"
      using None by (cases current) auto
    ultimately show ?thesis using "1.prems" by (intro exI [of _ "[]"]) (simp del: chain_at.simps)
  next
    case (Some prev)
    show ?thesis
    proof (cases "length chain \<ge> ?L")
      case True
      then have "history_loop g chain current = chain @ []"
        by (simp add: history_loop.simps [of g chain] Some)
      with True "1.prems" show ?thesis by force
    next
      case False
      then have step: "history_loop g chain current = history_loop g (chain @ [prev]) (Some prev)"
        by (simp add: history_loop.simps [of g chain] Some)
      from "1.IH" [OF Some False] False obtain rest where rest:
        "history_loop g (chain @ [prev]) (Some prev) = (chain @ [prev]) @ rest"
        "length (chain @ [prev]) + length rest \<le> ?L"
        "\<forall>k < length rest. chain_at (predecessor g) (Suc k) prev = Some (rest ! k)"
        "length (chain @ [prev]) + length rest < ?L \<longrightarrow>
           chain_at (predecessor g) (Suc (length rest)) prev = None"
        by auto
      obtain c where c: "current = Some c" "predecessor g c = Some prev"
        using Some by (cases current) auto
      have shift: "Option.bind current (chain_at (predecessor g) (Suc k)) =
          chain_at (predecessor g) k prev" for k
        using c by simp
      have "\<forall>k < length (prev # rest).
          Option.bind current (chain_at (predecessor g) (Suc k)) = Some ((prev # rest) ! k)"
        unfolding shift using rest(3) by (auto simp: less_Suc_eq_0_disj simp del: chain_at.simps(2))
      moreover have "Option.bind current (chain_at (predecessor g) (Suc (length (prev # rest)))) =
          chain_at (predecessor g) (Suc (length rest)) prev"
        unfolding shift by simp
      ultimately show ?thesis
        using step rest
        by (intro exI [of _ "prev # rest"]) (simp del: chain_at.simps(2))
    qed
  qed
qed

lemma history_chain:
  assumes "graph_assertion g i = Some a"
  shows "set (history g i) = {p. chain_reach (predecessor g) a p} \<and>
    length (history g i) \<le> length (g_assertions g) \<and>
    (\<forall>k < length (history g i). chain_at (predecessor g) (Suc k) a = Some (history g i ! k))"
proof -
  let ?h = "history g i" and ?L = "length (g_assertions g)"
  obtain rest where
    "history_loop g [] (graph_assertion g i) = [] @ rest"
    "length ([] :: assertion list) + length rest \<le> ?L"
    "\<forall>k < length rest. Option.bind (graph_assertion g i) (chain_at (predecessor g) (Suc k)) =
       Some (rest ! k)"
    "length ([] :: assertion list) + length rest < ?L \<longrightarrow>
       Option.bind (graph_assertion g i) (chain_at (predecessor g) (Suc (length rest))) = None"
    using history_loop_nth [of "[]" g "graph_assertion g i"] by auto
  then have len: "length ?h \<le> ?L"
    and nth: "\<And>k. k < length ?h \<Longrightarrow> chain_at (predecessor g) (Suc k) a = Some (?h ! k)"
    and stop: "length ?h < ?L \<Longrightarrow> chain_at (predecessor g) (Suc (length ?h)) a = None"
    using assms by (auto simp: history_def simp del: chain_at.simps)
  have "p \<in> set ?h" if "chain_reach (predecessor g) a p" for p
  proof -
    from that obtain n where n: "n < ?L" "chain_at (predecessor g) (Suc n) a = Some p"
      by (rule precession.reach_within)
    have "n < length ?h"
    proof (rule ccontr)
      assume "\<not> n < length ?h"
      then have "chain_at (predecessor g) (Suc n) a =
          chain_at (predecessor g) (Suc (length ?h) + (n - length ?h)) a" by simp
      also have "\<dots> = None"
        using n stop \<open>\<not> n < length ?h\<close> by (simp only: chain_at_add) simp
      finally show False using n by simp
    qed
    with nth [OF this] n show ?thesis by (metis nth_mem option.inject)
  qed
  moreover have "chain_reach (predecessor g) a p" if "p \<in> set ?h" for p
    using that nth by (metis chain_reach_iff in_set_conv_nth)
  ultimately show ?thesis using len nth by blast
qed

lemma history_set:
  "graph_assertion g i = Some a \<Longrightarrow> p \<in> set (history g i) \<longleftrightarrow> chain_reach (predecessor g) a p"
  using history_chain by blast

text \<open>
  \<open>history\<close> lists exactly the records behind an assertion on its supersession chain,
  each at its distance (newest first), and never more of them than the graph has assertions.
\<close>

theorem history_is_chain:
  assumes "graph_assertion g i = Some a"
  shows "set (history g i) = {p. chain_reach (predecessor g) a p} \<and>
    length (history g i) \<le> length (g_assertions g) \<and>
    (\<forall>k < length (history g i). chain_at (predecessor g) (Suc k) a = Some (history g i ! k))"
  by (rule history_chain [OF assms])

end
