(* ===== verification/Ctx_Resolve.thy ===== *)
theory Ctx_Resolve
  imports Ctx_Chain
begin

text \<open>
  Entity resolution and the conflict check (\<open>context/resolve.rs\<close>): \<open>resolve_entity\<close> turns what a
  caller wrote into one active entity or an error; \<open>classify\<close>, \<open>similar\<close> and
  \<open>retired_restatement\<close> compare a candidate assertion with what is recorded. The Unicode tables
  (lower-casing, alphanumeric) are the argument \<open>U\<close>.
\<close>

datatype context_error = AmbiguousEntity string "string list" | UnknownEntity string

definition max_merge_hops :: nat where "max_merge_hops = 8"

text \<open>The \<open>for _ in 0..MAX_MERGE_HOPS\<close> loop of \<open>redirect\<close>; the first argument is the hops left.\<close>

fun redirect_loop :: "graph \<Rightarrow> nat \<Rightarrow> entity \<Rightarrow> entity option" where
  "redirect_loop g 0 current = None"
| "redirect_loop g (Suc n) current =
     (case (e_status current, e_merged_into current) of
        (Active, _) \<Rightarrow> Some current
      | (Merged, Some into) \<Rightarrow>
          (case graph_entity g into of
             Some next \<Rightarrow> redirect_loop g n next
           | None \<Rightarrow> None)
      | _ \<Rightarrow> None)"

definition redirect :: "graph \<Rightarrow> entity \<Rightarrow> context_error + entity" where
  "redirect g e =
     (case redirect_loop g max_merge_hops e of
        Some r \<Rightarrow> Inr r
      | None \<Rightarrow> Inl (UnknownEntity (e_slug e)))"

text \<open>The \<open>for matches in tiers\<close> loop: the first tier with a hit decides.\<close>

fun resolve_tiers ::
  "graph \<Rightarrow> string \<Rightarrow> entity list \<Rightarrow> (entity \<Rightarrow> bool) list \<Rightarrow> context_error + entity" where
  "resolve_tiers g reference candidates [] = Inl (UnknownEntity reference)"
| "resolve_tiers g reference candidates (matches # tiers) =
     (case filter matches candidates of
        [] \<Rightarrow> resolve_tiers g reference candidates tiers
      | [one] \<Rightarrow> redirect g one
      | many \<Rightarrow> Inl (AmbiguousEntity reference (map e_slug many)))"

definition resolve_entity :: "unicode \<Rightarrow> graph \<Rightarrow> string \<Rightarrow> context_error + entity" where
  "resolve_entity U g reference =
     (case graph_entity g reference of
        Some e \<Rightarrow> redirect g e
      | None \<Rightarrow>
          (let wanted = to_lower U reference;
               candidates = filter (\<lambda>e. e_status e \<noteq> Archived) (g_entities g)
           in case List.find (\<lambda>e. to_lower U (e_slug e) = wanted) candidates of
                Some e \<Rightarrow> redirect g e
              | None \<Rightarrow>
                  resolve_tiers g reference candidates
                    [\<lambda>e. \<exists>a \<in> set (e_aliases e). to_lower U a = wanted,
                     \<lambda>e. to_lower U (e_name e) = wanted]))"

fun resolve_entities :: "unicode \<Rightarrow> graph \<Rightarrow> string list \<Rightarrow> entity list \<times> string list" where
  "resolve_entities U g [] = ([], [])"
| "resolve_entities U g (reference # references) =
     (let (found, unknown) = resolve_entities U g references
      in case resolve_entity U g reference of
           Inr e \<Rightarrow> (e # found, unknown)
         | Inl _ \<Rightarrow> (found, reference # unknown))"

definition related_heads :: "graph \<Rightarrow> assertion_input \<Rightarrow> assertion list" where
  "related_heads g candidate =
     filter (\<lambda>a. \<exists>i \<in> set (a_about a). i \<in> set (ai_about candidate))
       (filter (\<lambda>a. is_current g a \<and> a_domain a = ai_domain candidate) (g_assertions g))"

definition negations :: "string list" where
  "negations = [''not'', ''no'', ''never'', ''none'', ''nor'', ''without'', ''cannot'', ''n't'']"

text \<open>The pieces between non-alphanumeric characters, empty ones included.\<close>

definition alnum_words :: "unicode \<Rightarrow> string \<Rightarrow> string list" where
  "alnum_words U s = split_by (\<lambda>c. \<not> is_alphanumeric U c) s"

definition negated :: "unicode \<Rightarrow> string \<Rightarrow> bool" where
  "negated U statement =
     (let lower = to_lower U statement
      in contains ''n't'' lower \<or> (\<exists>w \<in> set (alnum_words U lower). w \<in> set negations))"

definition long_words :: "unicode \<Rightarrow> string \<Rightarrow> string set" where
  "long_words U s = set (filter (\<lambda>w. length w \<ge> 4) (alnum_words U (to_lower U s)))"

text \<open>
  \<open>TWIN_SIMILARITY\<close> is the double nearest to 0.6. A correctly rounded quotient of two counts below
  \<open>2 ^ 50\<close> is at or above that double exactly when the counts' ratio is at or above 6/10, so
  the comparison is written over the counts.
\<close>

definition similar :: "unicode \<Rightarrow> string \<Rightarrow> string \<Rightarrow> bool" where
  "similar U a b =
     (if negated U a \<noteq> negated U b then False
      else (let wa = long_words U a; wb = long_words U b; union = card (wa \<union> wb)
            in union > 0 \<and> 10 * card (wa \<inter> wb) \<ge> 6 * union))"

definition same_claim :: "assertion \<Rightarrow> assertion_input \<Rightarrow> bool" where
  "same_claim a candidate \<longleftrightarrow>
     a_kind a = ai_kind candidate \<and> a_domain a = ai_domain candidate \<and>
     a_stance a = ai_stance candidate \<and>
     (\<exists>i \<in> set (a_about a). i \<in> set (ai_about candidate))"

definition retired_restatement :: "unicode \<Rightarrow> graph \<Rightarrow> assertion_input \<Rightarrow> assertion option" where
  "retired_restatement U g candidate =
     List.find (\<lambda>a. is_live (a_status a) \<and> \<not> is_current g a \<and> same_claim a candidate \<and>
                    similar U (a_statement a) (ai_statement candidate))
       (g_assertions g)"

definition is_end_mark :: "string \<Rightarrow> bool" where
  "is_end_mark c \<longleftrightarrow> c \<in> set [''.'', ''!'']"

definition normalise :: "unicode \<Rightarrow> string \<Rightarrow> string" where
  "normalise U statement = trim_end_matches is_end_mark (to_lower U (single_spaced statement))"

definition classify :: "unicode \<Rightarrow> graph \<Rightarrow> assertion_input \<Rightarrow> proposed_relation" where
  "classify U g candidate =
     (let statement = normalise U (ai_statement candidate);
          duplicate = List.find (\<lambda>a. a_kind a = ai_kind candidate \<and> a_stance a = ai_stance candidate \<and>
                                     normalise U (a_statement a) = statement)
                        (related_heads g candidate)
      in case duplicate of
           Some dup \<Rightarrow> \<lparr>pr_kind = RelDuplicate, pr_target = Some (a_id dup), pr_reasoning = None\<rparr>
         | None \<Rightarrow> \<lparr>pr_kind = RelNew, pr_target = None, pr_reasoning = None\<rparr>)"

section \<open>Redirection of merged entities\<close>

definition merge_step :: "graph \<Rightarrow> entity \<Rightarrow> entity option" where
  "merge_step g e =
     (if e_status e = Merged then Option.bind (e_merged_into e) (graph_entity g) else None)"

interpretation merging: bounded_chain "merge_step g" "g_entities g" for g
  by unfold_locales
     (auto simp: merge_step_def bind_eq_Some_conv split: if_splits dest: graph_entity_SomeD)

lemma redirect_loop_step:
  "redirect_loop g (Suc n) e =
     (if e_status e = Active then Some e else Option.bind (merge_step g e) (redirect_loop g n))"
  by (cases "e_status e"; cases "e_merged_into e")
     (auto simp: merge_step_def split: option.splits)

lemma redirect_loop_iff:
  "redirect_loop g n e = Some r \<longleftrightarrow>
     (\<exists>k < n. chain_at (merge_step g) k e = Some r \<and> e_status r = Active)"
proof (induction n arbitrary: e)
  case 0
  then show ?case by simp
next
  case (Suc n)
  show ?case
  proof (cases "e_status e = Active")
    case True
    then have "merge_step g e = None" by (simp add: merge_step_def)
    then have "chain_at (merge_step g) k e = Some r \<longleftrightarrow> k = 0 \<and> r = e" for k
      by (cases k) auto
    with True show ?thesis by (auto simp del: redirect_loop.simps simp: redirect_loop_step)
  next
    case False
    then have at: "chain_at (merge_step g) k e = Some r \<and> e_status r = Active \<longleftrightarrow>
        (\<exists>m next. k = Suc m \<and> merge_step g e = Some next \<and>
           chain_at (merge_step g) m next = Some r \<and> e_status r = Active)" for k
      by (cases k) (auto split: option.splits)
    show ?thesis
      using False
      by (auto simp del: redirect_loop.simps simp: redirect_loop_step at Suc bind_eq_Some_conv)
  qed
qed

lemma redirect_loop_now: "e_status e = Active \<Longrightarrow> 0 < n \<Longrightarrow> redirect_loop g n e = Some e"
  by (cases n) (simp_all add: redirect_loop_step del: redirect_loop.simps)

lemma redirect_loop_active: "redirect_loop g n e = Some r \<Longrightarrow> e_status r = Active"
  by (auto simp: redirect_loop_iff)

lemma redirect_loop_in:
  assumes "redirect_loop g n e = Some r" and "e \<in> set (g_entities g)"
  shows "r \<in> set (g_entities g)"
proof -
  from assms(1) obtain k where "chain_at (merge_step g) k e = Some r"
    by (auto simp: redirect_loop_iff)
  with assms(2) show ?thesis by (cases k) (auto simp del: chain_at.simps(2) dest: merging.chain_at_in)
qed

text \<open>
  \<open>redirect\<close> answers with the active entity a merged one stands for, wherever it is
  fewer than \<open>MAX_MERGE_HOPS\<close> merges away, and with \<open>UnknownEntity\<close> of the entity's own slug
  otherwise (archived, merged into nothing, or a longer chain).
\<close>

theorem redirect_correct:
  "(redirect g e = Inr r \<longleftrightarrow>
     (\<exists>k < 8. chain_at (merge_step g) k e = Some r \<and> e_status r = Active)) \<and>
   (redirect g e = Inl err \<longleftrightarrow>
     err = UnknownEntity (e_slug e) \<and>
     \<not> (\<exists>k < 8. \<exists>r. chain_at (merge_step g) k e = Some r \<and> e_status r = Active))"
proof
  show "redirect g e = Inr r \<longleftrightarrow>
     (\<exists>k < 8. chain_at (merge_step g) k e = Some r \<and> e_status r = Active)"
    unfolding redirect_def max_merge_hops_def redirect_loop_iff [of g 8 e, symmetric]
    by (auto split: option.splits)
  have "redirect_loop g 8 e = None \<longleftrightarrow>
     \<not> (\<exists>k < 8. \<exists>r. chain_at (merge_step g) k e = Some r \<and> e_status r = Active)"
    by (metis not_None_eq redirect_loop_iff)
  then show "redirect g e = Inl err \<longleftrightarrow>
     err = UnknownEntity (e_slug e) \<and>
     \<not> (\<exists>k < 8. \<exists>r. chain_at (merge_step g) k e = Some r \<and> e_status r = Active)"
    unfolding redirect_def max_merge_hops_def by (auto split: option.splits)
qed

lemma redirect_Inr_iff: "redirect g e = Inr r \<longleftrightarrow> redirect_loop g max_merge_hops e = Some r"
  by (auto simp: redirect_def split: option.splits)

lemma redirect_Inl_iff:
  "redirect g e = Inl err \<longleftrightarrow>
     err = UnknownEntity (e_slug e) \<and> redirect_loop g max_merge_hops e = None"
  by (auto simp: redirect_def split: option.splits)

section \<open>Resolution\<close>

lemma resolve_tiers_Inr:
  "resolve_tiers g reference cs tiers = Inr r \<Longrightarrow>
   \<exists>e \<in> set cs. redirect_loop g max_merge_hops e = Some r"
  by (induction tiers)
     (auto simp: redirect_Inr_iff split: list.splits dest: filter_eq_ConsD)

lemma resolve_tiers_Ambiguous:
  "resolve_tiers g reference cs tiers = Inl (AmbiguousEntity r slugs) \<Longrightarrow>
   r = reference \<and> (\<exists>m \<in> set tiers. slugs = map e_slug (filter m cs) \<and> length slugs \<ge> 2)"
proof (induction tiers)
  case (Cons m tiers)
  show ?case
  proof (cases "filter m cs")
    case Nil
    with Cons show ?thesis by auto
  next
    case f: (Cons x xs)
    show ?thesis
    proof (cases xs)
      case Nil
      with Cons.prems f show ?thesis by (simp add: redirect_Inl_iff)
    next
      case more: (Cons y ys)
      with Cons.prems f have "r = reference" "slugs = map e_slug (filter m cs)" by simp_all
      with f more show ?thesis by auto
    qed
  qed
qed simp

lemma resolve_entity_cases:
  assumes "resolve_entity U g reference = Inr r"
  shows "\<exists>e \<in> set (g_entities g). redirect_loop g max_merge_hops e = Some r"
  using assms
  by (auto simp: resolve_entity_def Let_def redirect_Inr_iff simp del: resolve_tiers.simps
      split: option.splits dest!: graph_entity_SomeD find_SomeD resolve_tiers_Inr)

text \<open>
  A reference only ever resolves to an active entity of the graph: archived entities are
  never served and merged ones never stand for themselves.
\<close>

theorem resolve_entity_active:
  assumes "resolve_entity U g reference = Inr r"
  shows "r \<in> set (g_entities g) \<and> e_status r = Active"
  using resolve_entity_cases [OF assms] redirect_loop_in redirect_loop_active by blast

lemma resolve_entity_by_id:
  assumes "graph_entity g reference = Some e" and "e_status e = Active"
  shows "resolve_entity U g reference = Inr e"
  using assms redirect_loop_now [of e max_merge_hops g]
  by (simp add: resolve_entity_def redirect_Inr_iff max_merge_hops_def)

text \<open>
  An ambiguity error names at least two entities, none of them archived, and is only given
  when no id and no slug matches: each listed entity has the reference among its aliases, or each
  has it as its name, up to case.
\<close>

theorem resolve_entity_ambiguous:
  assumes "resolve_entity U g reference = Inl (AmbiguousEntity r slugs)"
  shows "r = reference \<and> length slugs \<ge> 2 \<and> graph_entity g reference = None \<and>
    (\<forall>e \<in> set (g_entities g). e_status e \<noteq> Archived \<longrightarrow> to_lower U (e_slug e) \<noteq> to_lower U reference) \<and>
    (\<exists>m \<in> {\<lambda>e. \<exists>a \<in> set (e_aliases e). to_lower U a = to_lower U reference,
          \<lambda>e. to_lower U (e_name e) = to_lower U reference}.
       slugs = map e_slug (filter (\<lambda>e. e_status e \<noteq> Archived \<and> m e) (g_entities g)))"
proof -
  let ?w = "to_lower U reference"
  let ?cs = "filter (\<lambda>e. e_status e \<noteq> Archived) (g_entities g)"
  let ?tiers = "[\<lambda>e. \<exists>a \<in> set (e_aliases e). to_lower U a = ?w, \<lambda>e. to_lower U (e_name e) = ?w]"
  have no_id: "graph_entity g reference = None"
    and no_slug: "List.find (\<lambda>e. to_lower U (e_slug e) = ?w) ?cs = None"
    and tiers: "resolve_tiers g reference ?cs ?tiers = Inl (AmbiguousEntity r slugs)"
    using assms
    by (auto simp: resolve_entity_def Let_def redirect_Inl_iff simp del: resolve_tiers.simps
        split: option.splits)
  from resolve_tiers_Ambiguous [OF tiers] obtain m where
    "r = reference" "m \<in> set ?tiers" "slugs = map e_slug (filter m ?cs)" "length slugs \<ge> 2"
    by blast
  moreover have "filter m ?cs = filter (\<lambda>e. e_status e \<noteq> Archived \<and> m e) (g_entities g)"
    by (simp add: conj_commute)
  moreover have "\<forall>e \<in> set (g_entities g). e_status e \<noteq> Archived \<longrightarrow> to_lower U (e_slug e) \<noteq> ?w"
    using no_slug by (auto simp: find_cong_None)
  ultimately show ?thesis using no_id by auto
qed

text \<open>
  \<open>entities\<close> loses nothing: the found entities are the successful resolutions in the order
  asked, the misses are exactly the references that did not resolve, in the same order.
\<close>

theorem resolve_entities_eq:
  "resolve_entities U g references =
     (map projr (filter (\<lambda>x. \<not> isl x) (map (resolve_entity U g) references)),
      filter (\<lambda>x. isl (resolve_entity U g x)) references)"
  by (induction references) (auto split: sum.splits)

lemma resolve_entities_active:
  assumes "e \<in> set (fst (resolve_entities U g references))"
  shows "e \<in> set (g_entities g) \<and> e_status e = Active"
  using assms
proof (induction references)
  case (Cons x xs)
  then show ?case
    by (cases "resolve_entity U g x")
       (auto simp: Let_def split: prod.splits dest!: resolve_entity_cases
          intro: redirect_loop_in redirect_loop_active)
qed simp

section \<open>Comparing statements\<close>

lemma related_heads_iff:
  "a \<in> set (related_heads g c) \<longleftrightarrow>
     a \<in> set (g_assertions g) \<and> is_current g a \<and> a_domain a = ai_domain c \<and>
     (\<exists>i \<in> set (a_about a). i \<in> set (ai_about c))"
  by (auto simp: related_heads_def)

text \<open>
  \<open>classify\<close> says \<open>Duplicate\<close> exactly when a current assertion of the same kind, domain and
  stance about one of the same entities has the same statement up to case, spacing and final
  punctuation; the target is such an assertion. It never says more than \<open>Duplicate\<close> or \<open>New\<close>:
  replacing and contradicting are never inferred from text.
\<close>

theorem classify_correct:
  "(pr_kind (classify U g c) = RelDuplicate \<longleftrightarrow>
     (\<exists>a \<in> set (g_assertions g). is_current g a \<and> same_claim a c \<and>
        normalise U (a_statement a) = normalise U (ai_statement c))) \<and>
   (pr_kind (classify U g c) = RelDuplicate \<longrightarrow>
     (\<exists>a \<in> set (g_assertions g). pr_target (classify U g c) = Some (a_id a) \<and> is_current g a \<and>
        same_claim a c \<and> normalise U (a_statement a) = normalise U (ai_statement c))) \<and>
   pr_kind (classify U g c) \<in> {RelNew, RelDuplicate}"
proof -
  let ?P = "\<lambda>a. a_kind a = ai_kind c \<and> a_stance a = ai_stance c \<and>
                normalise U (a_statement a) = normalise U (ai_statement c)"
  have rel: "a \<in> set (related_heads g c) \<and> ?P a \<longleftrightarrow>
      a \<in> set (g_assertions g) \<and> is_current g a \<and> same_claim a c \<and>
      normalise U (a_statement a) = normalise U (ai_statement c)" for a
    by (auto simp: related_heads_iff same_claim_def)
  show ?thesis
  proof (cases "List.find ?P (related_heads g c)")
    case None
    then have kind: "pr_kind (classify U g c) = RelNew" by (simp add: classify_def Let_def)
    from None have "\<not> (\<exists>a \<in> set (related_heads g c). ?P a)" by (auto simp: find_cong_None)
    with rel kind show ?thesis by auto
  next
    case (Some dup)
    then have "pr_kind (classify U g c) = RelDuplicate"
      "pr_target (classify U g c) = Some (a_id dup)" by (simp_all add: classify_def Let_def)
    moreover from find_SomeD [OF Some] rel have "dup \<in> set (g_assertions g) \<and> is_current g dup \<and>
        same_claim dup c \<and> normalise U (a_statement dup) = normalise U (ai_statement c)" by blast
    ultimately show ?thesis by blast
  qed
qed

lemma similar_sym: "similar U a b \<longleftrightarrow> similar U b a"
  by (auto simp: similar_def Let_def Int_commute Un_commute)

lemma finite_long_words [simp]: "finite (long_words U s)"
  by (simp add: long_words_def)

lemma similar_refl: "similar U a a \<longleftrightarrow> long_words U a \<noteq> {}"
  by (auto simp: similar_def Let_def card_gt_0_iff)

lemma similar_same_polarity: "similar U a b \<Longrightarrow> negated U a = negated U b"
  by (auto simp: similar_def split: if_splits)

text \<open>
  \<open>similar\<close> is symmetric, holds of a statement and itself as soon as it has one word of four
  letters, never relates a statement that negates to one that does not, and two similar
  statements share at least three fifths of the longer one's words.
\<close>

theorem similar_laws:
  "(similar U a b \<longleftrightarrow> similar U b a) \<and>
   (similar U a a \<longleftrightarrow> long_words U a \<noteq> {}) \<and>
   (similar U a b \<longrightarrow> negated U a = negated U b \<and>
      5 * card (long_words U a \<inter> long_words U b) \<ge>
        3 * max (card (long_words U a)) (card (long_words U b)))"
proof (intro conjI impI)
  show "similar U a b \<longleftrightarrow> similar U b a" by (rule similar_sym)
  show "similar U a a \<longleftrightarrow> long_words U a \<noteq> {}" by (rule similar_refl)
  assume sim: "similar U a b"
  then show "negated U a = negated U b" by (rule similar_same_polarity)
  from sim have "6 * card (long_words U a \<union> long_words U b) \<le> 10 * card (long_words U a \<inter> long_words U b)"
    by (auto simp: similar_def Let_def split: if_splits)
  moreover have "card (long_words U a) \<le> card (long_words U a \<union> long_words U b)"
    "card (long_words U b) \<le> card (long_words U a \<union> long_words U b)"
    by (auto intro: card_mono)
  ultimately show "5 * card (long_words U a \<inter> long_words U b) \<ge>
      3 * max (card (long_words U a)) (card (long_words U b))" by linarith
qed

end
