(* ===== verification/Ctx_Render.thy ===== *)
theory Ctx_Render
  imports Ctx_Chain
begin

text \<open>
  Rendering a bundle as the markdown an agent reads, and the extractor's compact index
  (\<open>context/render.rs\<close>). \<open>out.push_str(..)\<close> is \<open>@\<close>; the nested \<open>for\<close> loops over the constant
  lists of kinds, domains and stances are \<open>concat (map ..)\<close>.
\<close>

definition legend_summary_chars :: nat where "legend_summary_chars = 140"

definition entity_kinds :: "entity_kind list" where
  "entity_kinds = [Vision, Goal, Capability, Feature, Module, Topic]"

definition assertion_kinds :: "assertion_kind list" where
  "assertion_kinds = [Decision, Constraint, Fact]"

definition domains :: "ctx_domain list" where
  "domains = [Business, Architectural, Implementation]"

definition stances :: "stance list" where "stances = [Adopted, Rejected]"

section \<open>Labels\<close>

fun entity_kind_label :: "entity_kind \<Rightarrow> string" where
  "entity_kind_label Vision = ''Visions''"
| "entity_kind_label Goal = ''Goals''"
| "entity_kind_label Capability = ''Capabilities''"
| "entity_kind_label Feature = ''Features''"
| "entity_kind_label Module = ''Modules''"
| "entity_kind_label Topic = ''Topics''"

fun assertion_kind_label :: "assertion_kind \<Rightarrow> string" where
  "assertion_kind_label Decision = ''Decisions''"
| "assertion_kind_label Constraint = ''Constraints''"
| "assertion_kind_label Fact = ''Facts''"

fun domain_label :: "ctx_domain \<Rightarrow> string" where
  "domain_label Business = ''Business''"
| "domain_label Architectural = ''Architectural''"
| "domain_label Implementation = ''Implementation''"

fun stance_label :: "stance \<Rightarrow> string" where
  "stance_label Adopted = ''adopted''"
| "stance_label Rejected = ''rejected''"

fun rel_name :: "rel \<Rightarrow> string" where
  "rel_name PartOf = ''part_of''"
| "rel_name DependsOn = ''depends_on''"
| "rel_name Serves = ''serves''"

text \<open>\<open>id.get(..8).unwrap_or(id)\<close>: eight bytes when there are eight and they end a character.\<close>

definition short :: "string \<Rightarrow> string" where
  "short i =
     (if length i \<ge> 8 \<and> (length i = 8 \<or> \<not> is_continuation (i ! 8)) then take 8 i else i)"

text \<open>A name as a quoted string: \<open>replace('\\', ..)\<close>, then \<open>replace('"', ..)\<close>.\<close>

definition quoted :: "string \<Rightarrow> string" where
  "quoted name =
     (let slashes = concat (map (\<lambda>c. if c = CHR 0x5C then [CHR 0x5C, CHR 0x5C] else [c]) name);
          quotes = concat (map (\<lambda>c. if c = CHR 0x22 then [CHR 0x5C, CHR 0x22] else [c]) slashes)
      in dquote @ quotes @ dquote)"

definition index_item :: "entity \<Rightarrow> string" where
  "index_item e = e_slug e @ '' ('' @ quoted (e_name e) @ '')''"

section \<open>Assertions and warnings\<close>

definition slug_of :: "ctx_bundle \<Rightarrow> ctx_id \<Rightarrow> string option" where
  "slug_of b i =
     map_option e_slug
       (List.find (\<lambda>e. e_id e = i)
          (map be_entity (b_entities b) @ (case b_vision b of None \<Rightarrow> [] | Some v \<Rightarrow> [v])))"

text \<open>The history lines; \<open>newer\<close> is the record that replaced the one printed.\<close>

fun history_lines :: "assertion \<Rightarrow> assertion list \<Rightarrow> string" where
  "history_lines newer [] = []"
| "history_lines newer (prev # rest) =
     ''  - superseded: '' @ a_statement prev @ '' '' @ em_dash @ '' reasoning: '' @
     (case a_supersedes newer of Some s \<Rightarrow> su_reasoning s | None \<Rightarrow> []) @ nl @
     history_lines prev rest"

definition assertion_line :: "ctx_bundle \<Rightarrow> bundle_assertion \<Rightarrow> string" where
  "assertion_line b ba =
     (let a = ba_assertion ba;
          about = map in_ticks (List.map_filter (slug_of b) (a_about a))
      in ''- ['' @ stance_label (a_stance a) @ ''] '' @ a_statement a @
         (if about \<noteq> [] then '' (about: '' @ join '', '' about @ '')'' else []) @
         (if \<not> b_overview b \<and> a_rationale a \<noteq> []
          then '' '' @ em_dash @ '' '' @ a_rationale a else []) @
         (if af_provisional (ba_flags ba) then '' _(provisional)_'' else []) @
         concat (map (\<lambda>other. '' _(contradicted by '' @ short other @ '')_'')
                   (af_contradicted_by (ba_flags ba))) @
         '' (id: '' @ short (a_id a) @ '')'' @ nl @
         history_lines a (ba_history ba))"

definition push_assertions :: "ctx_bundle \<Rightarrow> string" where
  "push_assertions b =
     concat (map (\<lambda>kind.
       (let of_kind = filter (\<lambda>x. a_kind (ba_assertion x) = kind) (b_assertions b)
        in if of_kind = [] then []
           else nl @ ''## '' @ assertion_kind_label kind @ nl @
             concat (map (\<lambda>dom.
               (let of_domain = filter (\<lambda>x. a_domain (ba_assertion x) = dom) of_kind
                in if of_domain = [] then []
                   else nl @ ''### '' @ domain_label dom @ nl @
                     concat (map (\<lambda>st.
                       concat (map (assertion_line b)
                         (filter (\<lambda>x. a_stance (ba_assertion x) = st) of_domain))) stances)))
               domains)))
       assertion_kinds)"

definition push_warnings :: "ctx_bundle \<Rightarrow> string" where
  "push_warnings b =
     (if b_warnings b \<noteq> []
      then nl @ ''## Warnings'' @ nl @ concat (map (\<lambda>w. ''- '' @ w @ nl) (b_warnings b))
      else [])"

section \<open>The \<open>context_get\<close> answer and the overview\<close>

definition entity_lines :: "ctx_bundle \<Rightarrow> bundle_entity \<Rightarrow> string" where
  "entity_lines b be =
     (let e = be_entity be
      in ''- **'' @ e_name e @ ''** ('' @ in_ticks (e_slug e) @ '') '' @ em_dash @ '' '' @
         e_summary e @ nl @
         (if e_paths e \<noteq> [] then ''  - at '' @ join '', '' (map in_ticks (e_paths e)) @ nl else []) @
         concat (map (\<lambda>r. case slug_of b (r_to r) of
                            Some to \<Rightarrow> ''  - '' @ rel_name (r_rel r) @ '' '' @ in_ticks to @ nl
                          | None \<Rightarrow> [])
                   (filter (\<lambda>r. r_from r = e_id e) (be_relations be))))"

definition legend_line :: "entity \<Rightarrow> string" where
  "legend_line e =
     (let summary = trim (e_summary e); cs = utf8_chars summary
      in ''- '' @ in_ticks (e_slug e) @
         (if summary \<noteq> []
          then '' '' @ em_dash @ '' '' @
            (if length cs > legend_summary_chars
             then concat (take legend_summary_chars cs) @ ellipsis else summary)
          else []) @
         (case e_paths e of path # _ \<Rightarrow> '' ('' @ in_ticks path @ '')'' | [] \<Rightarrow> []) @ nl)"

definition overview_text :: "ctx_bundle \<Rightarrow> string" where
  "overview_text b =
     (let listed = map be_entity (filter (\<lambda>x. be_reason x \<noteq> EntryVision) (b_entities b));
          mods = filter (\<lambda>e. e_kind e = Module) listed;
          described = filter (\<lambda>e. trim (e_summary e) \<noteq> []) mods;
          bare = filter (\<lambda>e. trim (e_summary e) = []) mods;
          modules = map legend_line described @
            (if bare \<noteq> []
             then [''- '' @ show_nat (length bare) @
                   '' more module(s) mapped by path only, no summary yet (Map project on the Context tab writes one)'' @ nl]
             else []);
          groups = List.map_filter (\<lambda>kind.
            (let items = map index_item (filter (\<lambda>e. e_kind e = kind) listed)
             in if items \<noteq> []
                then Some (''**'' @ entity_kind_label kind @ '':** '' @ join '', '' items @ nl)
                else None))
            (filter (\<lambda>kind. kind \<noteq> Vision \<and> kind \<noteq> Module) entity_kinds)
      in (case b_vision b of Some v \<Rightarrow> ''## Vision'' @ nl @ e_summary v @ nl | None \<Rightarrow> []) @
         push_assertions b @
         (if modules \<noteq> [] then nl @ ''## Modules'' @ nl @ concat modules else []) @
         (if groups \<noteq> [] then nl @ ''## Index'' @ nl @ concat groups else []) @
         push_warnings b)"

definition render_overview :: "ctx_bundle \<Rightarrow> string" where
  "render_overview b = trim_start (overview_text b)"

definition render_markdown :: "ctx_bundle \<Rightarrow> string" where
  "render_markdown b =
     (if b_overview b then render_overview b
      else
        (let listed = filter (\<lambda>x. be_reason x \<noteq> EntryVision) (b_entities b)
         in ''# Project context'' @ nl @ nl @ ''## Vision'' @ nl @
            (case b_vision b of Some v \<Rightarrow> e_summary v | None \<Rightarrow> ''No vision recorded yet.'') @ nl @
            (if listed \<noteq> []
             then nl @ ''## Entities'' @ nl @
               concat (map (\<lambda>kind.
                 (let members = filter (\<lambda>x. e_kind (be_entity x) = kind) listed
                  in if members = [] then []
                     else nl @ ''### '' @ entity_kind_label kind @ nl @
                       concat (map (entity_lines b) members))) entity_kinds)
             else []) @
            push_assertions b @ push_warnings b))"

section \<open>The extractor's index\<close>

text \<open>
  The inner loop of \<open>index_text_counted\<close>: \<open>Inl\<close> is its early return, \<open>Inr\<close> the line when every
  item of the group fitted.
\<close>

fun index_line :: "nat \<Rightarrow> nat \<Rightarrow> string \<Rightarrow> string \<Rightarrow> bool \<Rightarrow> nat \<Rightarrow> string list \<Rightarrow>
    (string \<times> nat) + (string \<times> nat)" where
  "index_line max_chars reserve out line any emitted [] = Inr (line, emitted)"
| "index_line max_chars reserve out line any emitted (item # items) =
     (let sep = (if any then '', '' else [])
      in if length out + length line + length sep + length item + 1 + reserve > max_chars
         then Inl (if any then out @ line @ nl else out, emitted)
         else index_line max_chars reserve out (line @ sep @ item) True (Suc emitted) items)"

fun index_groups :: "nat \<Rightarrow> nat \<Rightarrow> string \<Rightarrow> nat \<Rightarrow> (string \<times> string list) list \<Rightarrow> string \<times> nat" where
  "index_groups max_chars reserve out emitted [] = (out, emitted)"
| "index_groups max_chars reserve out emitted ((label, items) # groups) =
     (case index_line max_chars reserve out (''**'' @ label @ '':** '') False emitted items of
        Inl r \<Rightarrow> r
      | Inr (line, emitted) \<Rightarrow> index_groups max_chars reserve (out @ line @ nl) emitted groups)"

definition index_header :: string where
  "index_header = ''## Project context index'' @ nl"

definition index_text_counted :: "(string \<times> string list) list \<Rightarrow> nat \<Rightarrow> nat \<Rightarrow> string \<times> nat" where
  "index_text_counted groups max_chars reserve =
     index_groups max_chars reserve index_header 0 groups"

definition index_text :: "(string \<times> string list) list \<Rightarrow> nat \<Rightarrow> nat \<Rightarrow> string" where
  "index_text groups max_chars reserve = fst (index_text_counted groups max_chars reserve)"

definition index_listed :: "graph \<Rightarrow> entity_kind \<Rightarrow> entity list" where
  "index_listed g kind =
     filter (\<lambda>e. e_status e = Active \<and> e_kind e = kind \<and> au_kind (e_author e) \<noteq> Extractor)
       (g_entities g)"

definition index_group_list :: "graph \<Rightarrow> (string \<times> string list) list" where
  "index_group_list g =
     filter (\<lambda>(_, items). items \<noteq> [])
       (map (\<lambda>kind. (entity_kind_label kind, map index_item (index_listed g kind))) entity_kinds)"

definition more_line :: "nat \<Rightarrow> string" where
  "more_line n = ellipsis @ '' and '' @ show_nat n @ '' more''"

definition render_index :: "graph \<Rightarrow> nat \<Rightarrow> string" where
  "render_index g max_chars =
     (let groups = index_group_list g;
          total = sum_list (map (\<lambda>(_, items). length items) groups)
      in if total = 0 then []
         else
           (let full = index_text groups usize_max 0
            in if length full \<le> max_chars then full
               else
                 (let reserve = length (more_line total);
                      (out, emitted) = index_text_counted groups max_chars reserve
                  in out @ more_line (total - emitted))))"

section \<open>Quoted names\<close>

text \<open>
  A reader of quoted text: after the opening quote, a backslash takes the next byte as it is and
  a bare quote ends the name. It is the specification the escapes are judged against.
\<close>

fun read_body :: "string \<Rightarrow> (string \<times> string) option" where
  "read_body [] = None"
| "read_body (c # cs) =
     (if c = CHR 0x22 then Some ([], cs)
      else if c = CHR 0x5C
      then (case cs of [] \<Rightarrow> None
            | d # ds \<Rightarrow> map_option (\<lambda>(name, rest). (d # name, rest)) (read_body ds))
      else map_option (\<lambda>(name, rest). (c # name, rest)) (read_body cs))"

definition read_quoted :: "string \<Rightarrow> (string \<times> string) option" where
  "read_quoted s = (case s of [] \<Rightarrow> None | c # cs \<Rightarrow> if c = CHR 0x22 then read_body cs else None)"

lemma quoted_eq:
  "quoted name =
     dquote @ concat (map (\<lambda>c. if c = CHR 0x5C then [CHR 0x5C, CHR 0x5C]
                            else if c = CHR 0x22 then [CHR 0x5C, CHR 0x22] else [c]) name) @ dquote"
  unfolding quoted_def Let_def by (induction name) auto

text \<open>
  A name in the index or the overview travels as data: whatever it contains, and whatever
  text follows it, reading the quoted text gives back the name and leaves what follows.
\<close>

theorem read_quoted_quoted: "read_quoted (quoted name @ rest) = Some (name, rest)"
proof -
  have "read_body (concat (map (\<lambda>c. if c = CHR 0x5C then [CHR 0x5C, CHR 0x5C]
      else if c = CHR 0x22 then [CHR 0x5C, CHR 0x22] else [c]) name) @ CHR 0x22 # rest) =
      Some (name, rest)"
    by (induction name) auto
  then show ?thesis by (simp add: read_quoted_def quoted_eq dquote_def)
qed

section \<open>The index\<close>

text \<open>
  The specification: the index of some groups is the header and one line per group, and a cut
  index is the index of the first items.
\<close>

definition group_line :: "string \<times> string list \<Rightarrow> string" where
  "group_line gr = ''**'' @ fst gr @ '':** '' @ join '', '' (snd gr) @ nl"

fun take_groups :: "nat \<Rightarrow> (string \<times> string list) list \<Rightarrow> (string \<times> string list) list" where
  "take_groups n [] = []"
| "take_groups n ((label, items) # groups) =
     (if n = 0 then [] else (label, take n items) # take_groups (n - length items) groups)"

definition items_of :: "(string \<times> string list) list \<Rightarrow> string list" where
  "items_of groups = concat (map snd groups)"

definition joined_after :: "bool \<Rightarrow> string list \<Rightarrow> string" where
  "joined_after any items =
     (if any then concat (map ((@) '', '') items) else join '', '' items)"

lemma joined_after_Nil [simp]: "joined_after any [] = []"
  by (simp add: joined_after_def)

lemma joined_after_False: "joined_after False items = join '', '' items"
  by (simp add: joined_after_def)

lemma joined_after_Cons:
  "joined_after any (i # items) = (if any then '', '' else []) @ i @ joined_after True items"
  by (simp add: joined_after_def join_Cons_concat)

lemma index_line_Inr:
  "index_line m r out line any emitted items = Inr (line', n) \<Longrightarrow>
   line' = line @ joined_after any items \<and> n = emitted + length items \<and>
   ((any \<longrightarrow> length out + length line + 1 + r \<le> m) \<longrightarrow> any \<or> items \<noteq> [] \<longrightarrow>
      length out + length line' + 1 + r \<le> m)"
proof (induction items arbitrary: line any emitted)
  case (Cons i items)
  then have fits: "length out + length line + length (if any then '', '' else []) + length i + 1 + r \<le> m"
    and rest: "index_line m r out (line @ (if any then '', '' else []) @ i) True (Suc emitted) items =
      Inr (line', n)"
    by (auto simp: Let_def split: if_splits)
  from Cons.IH [OF rest] fits show ?case by (cases any) (auto simp: joined_after_Cons)
qed simp

lemma index_line_Inl:
  "index_line m r out line any emitted items = Inl (out', n) \<Longrightarrow>
   \<exists>k < length items. n = emitted + k \<and>
     out' = (if any \<or> k > 0 then out @ line @ joined_after any (take k items) @ nl else out) \<and>
     (length out + r \<le> m \<longrightarrow> (any \<longrightarrow> length out + length line + 1 + r \<le> m) \<longrightarrow> length out' + r \<le> m)"
proof (induction items arbitrary: line any emitted)
  case (Cons i items)
  let ?sep = "if any then '', '' else []"
  show ?case
  proof (cases "length out + length line + length ?sep + length i + 1 + r > m")
    case True
    with Cons.prems have "out' = (if any then out @ line @ nl else out)" "n = emitted"
      by (auto simp: Let_def)
    then show ?thesis by (intro exI [of _ 0]) (simp add: nl_def)
  next
    case False
    with Cons.prems have rest:
      "index_line m r out (line @ ?sep @ i) True (Suc emitted) items = Inl (out', n)"
      by (simp add: Let_def)
    from Cons.IH [OF rest] obtain k where
      "k < length items" "n = Suc emitted + k"
      "out' = out @ (line @ ?sep @ i) @ joined_after True (take k items) @ nl"
      "length out + r \<le> m \<longrightarrow> length out + length (line @ ?sep @ i) + 1 + r \<le> m \<longrightarrow>
         length out' + r \<le> m" by auto
    with False show ?thesis
      by (intro exI [of _ "Suc k"]) (simp add: joined_after_Cons)
  qed
qed simp

lemma index_groups_spec:
  assumes "\<forall>(label, items) \<in> set groups. items \<noteq> []"
    and "index_groups m r out emitted groups = (out', n)"
  shows "emitted \<le> n \<and> n \<le> emitted + length (items_of groups) \<and>
    out' = out @ concat (map group_line (take_groups (n - emitted) groups)) \<and>
    (length out + r \<le> m \<longrightarrow> length out' + r \<le> m)"
  using assms
proof (induction groups arbitrary: out emitted)
  case Nil
  then show ?case by (simp add: items_of_def)
next
  case (Cons g groups)
  obtain label items where g: "g = (label, items)" by (cases g)
  let ?line = "''**'' @ label @ '':** ''"
  have ne: "items \<noteq> []" using Cons.prems(1) g by auto
  show ?case
  proof (cases "index_line m r out ?line False emitted items")
    case (Inl p)
    obtain o' k' where p: "p = (o', k')" by (cases p)
    with Cons.prems(2) g Inl have eq: "out' = o'" "n = k'" by auto
    from index_line_Inl [OF Inl [unfolded p]] obtain k where k:
      "k < length items" "k' = emitted + k"
      "o' = (if k > 0 then out @ ?line @ join '', '' (take k items) @ nl else out)"
      "length out + r \<le> m \<longrightarrow> length o' + r \<le> m"
      by (simp only: joined_after_False simp_thms) blast
    from k(1) have "take_groups (k - length items) groups = []" by (cases groups) auto
    with k eq g show ?thesis by (auto simp: items_of_def group_line_def)
  next
    case (Inr p)
    obtain line k' where p: "p = (line, k')" by (cases p)
    from index_line_Inr [OF Inr [unfolded p]] ne have line:
      "line = ?line @ join '', '' items" "k' = emitted + length items"
      "length out + length line + 1 + r \<le> m"
      by (auto simp: joined_after_def)
    from Cons.prems(2) g Inr p have rest: "index_groups m r (out @ line @ nl) k' groups = (out', n)"
      by simp
    from Cons.IH [OF _ rest] Cons.prems(1) have IH:
      "k' \<le> n" "n \<le> k' + length (items_of groups)"
      "out' = (out @ line @ nl) @ concat (map group_line (take_groups (n - k') groups))"
      "length (out @ line @ nl) + r \<le> m \<longrightarrow> length out' + r \<le> m" by auto
    have "0 < length items" using ne by simp
    with IH(1) line(2) have pos: "0 < n - emitted" "length items \<le> n - emitted" by linarith+
    then have taken: "take_groups (n - emitted) (g # groups) =
        (label, items) # take_groups (n - k') groups"
      using line(2) g by simp
    have "out' = out @ concat (map group_line (take_groups (n - emitted) (g # groups)))"
      unfolding taken using IH(3) line(1) by (simp add: group_line_def)
    moreover have "length out + r \<le> m \<longrightarrow> length out' + r \<le> m"
      using IH(4) line(3) by (simp add: nl_def)
    moreover have "n \<le> emitted + length (items_of (g # groups))"
      using IH(2) line(2) g by (simp add: items_of_def)
    ultimately show ?thesis using pos by simp
  qed
qed

lemma index_group_list_ne: "\<forall>(label, items) \<in> set (index_group_list g). items \<noteq> []"
  by (auto simp: index_group_list_def)

lemma length_index_header [simp]: "length index_header = 25"
  by (simp add: index_header_def nl_def)

lemma index_text_counted_spec:
  assumes "index_text_counted (index_group_list g) m r = (out, n)"
  shows "n \<le> length (items_of (index_group_list g)) \<and>
    out = index_header @ concat (map group_line (take_groups n (index_group_list g))) \<and>
    (25 + r \<le> m \<longrightarrow> length out + r \<le> m)"
  using index_groups_spec [OF index_group_list_ne assms [unfolded index_text_counted_def]]
  by auto

lemma index_total:
  "sum_list (map (\<lambda>(_, items). length items) (index_group_list g)) =
     length (items_of (index_group_list g))"
  by (simp add: items_of_def length_concat split_def o_def)

text \<open>
  Claim C29. The extractor's index fits the character limit it is given, as soon as the limit has room
  for the header line and the closing count.
\<close>

theorem render_index_within:
  assumes "25 + length (more_line (length (items_of (index_group_list g)))) \<le> max_chars"
  shows "length (render_index g max_chars) \<le> max_chars"
proof -
  let ?gs = "index_group_list g" and ?total = "length (items_of (index_group_list g))"
  let ?reserve = "length (more_line ?total)"
  obtain out n where cut: "index_text_counted ?gs max_chars ?reserve = (out, n)"
    by (cases "index_text_counted ?gs max_chars ?reserve")
  from index_text_counted_spec [OF cut] assms
  have "length out + ?reserve \<le> max_chars" by auto
  moreover have "length (more_line (?total - n)) \<le> ?reserve"
    by (simp add: more_line_def length_show_nat_mono)
  ultimately have "length (out @ more_line (?total - n)) \<le> max_chars" by simp
  then show ?thesis
    using cut unfolding render_index_def Let_def index_total by simp
qed

text \<open>
  The index shows the first items of the full list, in order, and nothing else: for some
  count \<open>n\<close> it is the header, the lines of the first \<open>n\<close> items, and, when it was cut, the exact
  number of the items left out.
\<close>

theorem render_index_prefix:
  assumes "items_of (index_group_list g) \<noteq> []"
  shows "\<exists>n \<le> length (items_of (index_group_list g)). \<exists>tail.
    render_index g max_chars =
      index_header @
      concat (map group_line (take_groups n (index_group_list g))) @ tail \<and>
    (tail = [] \<or> tail = more_line (length (items_of (index_group_list g)) - n))"
proof -
  let ?gs = "index_group_list g" and ?total = "length (items_of (index_group_list g))"
  obtain out n where cut: "index_text_counted ?gs max_chars (length (more_line ?total)) = (out, n)"
    by (cases "index_text_counted ?gs max_chars (length (more_line ?total))")
  obtain full k where full: "index_text_counted ?gs usize_max 0 = (full, k)"
    by (cases "index_text_counted ?gs usize_max 0")
  have "render_index g max_chars =
      (if length full \<le> max_chars then full else out @ more_line (?total - n))"
    using assms cut full unfolding render_index_def Let_def index_total by (simp add: index_text_def)
  with index_text_counted_spec [OF cut] index_text_counted_spec [OF full] show ?thesis
    by (cases "length full \<le> max_chars") force+
qed

text \<open>
  The index reads only active entities that something other than the extractor wrote:
  removing all the others from the graph gives the same text.
\<close>

theorem render_index_hides_extractor:
  "render_index g max_chars =
     render_index
       (g\<lparr>g_entities :=
          filter (\<lambda>e. e_status e = Active \<and> au_kind (e_author e) \<noteq> Extractor) (g_entities g)\<rparr>)
       max_chars"
proof -
  have "index_listed g kind = index_listed (g\<lparr>g_entities :=
      filter (\<lambda>e. e_status e = Active \<and> au_kind (e_author e) \<noteq> Extractor) (g_entities g)\<rparr>) kind" for kind
    by (auto simp: index_listed_def intro: filter_cong)
  then have "index_group_list g = index_group_list (g\<lparr>g_entities :=
      filter (\<lambda>e. e_status e = Active \<and> au_kind (e_author e) \<noteq> Extractor) (g_entities g)\<rparr>)"
    by (simp add: index_group_list_def)
  then show ?thesis by (simp add: render_index_def)
qed

section \<open>Nothing served is dropped from the text\<close>

lemma assertion_kinds_all [simp]: "k \<in> set assertion_kinds"
  by (cases k) (simp_all add: assertion_kinds_def)

lemma domains_all [simp]: "d \<in> set domains"
  by (cases d) (simp_all add: domains_def)

lemma stances_all [simp]: "s \<in> set stances"
  by (cases s) (simp_all add: stances_def)

lemma entity_kinds_all [simp]: "k \<in> set entity_kinds"
  by (cases k) (simp_all add: entity_kinds_def)

lemma assertion_line_pushed:
  assumes "ba \<in> set (b_assertions b)"
  shows "contains (assertion_line b ba) (push_assertions b)"
proof -
  let ?a = "ba_assertion ba"
  let ?of_kind = "filter (\<lambda>x. a_kind (ba_assertion x) = a_kind ?a) (b_assertions b)"
  let ?of_domain = "filter (\<lambda>x. a_domain (ba_assertion x) = a_domain ?a) ?of_kind"
  let ?of_stance = "filter (\<lambda>x. a_stance (ba_assertion x) = a_stance ?a) ?of_domain"
  from assms have mem: "ba \<in> set ?of_stance" "?of_domain \<noteq> []" "?of_kind \<noteq> []"
    by (auto simp: filter_empty_conv)
  have "contains (assertion_line b ba) (concat (map (assertion_line b) ?of_stance))"
    using mem(1) by (rule contains_concatI) (rule contains_refl)
  then have stance: "contains (assertion_line b ba) (concat (map (\<lambda>st.
      concat (map (assertion_line b)
        (filter (\<lambda>x. a_stance (ba_assertion x) = st) ?of_domain))) stances))"
    by (intro contains_concatI [where x = "a_stance ?a"]) simp_all
  have dom: "contains (assertion_line b ba) (concat (map (\<lambda>dom.
      (let of_domain = filter (\<lambda>x. a_domain (ba_assertion x) = dom) ?of_kind
       in if of_domain = [] then []
          else nl @ ''### '' @ domain_label dom @ nl @
            concat (map (\<lambda>st. concat (map (assertion_line b)
              (filter (\<lambda>x. a_stance (ba_assertion x) = st) of_domain))) stances))) domains))"
    using mem(2) stance
    by (intro contains_concatI [where x = "a_domain ?a"])
       (simp_all only: Let_def if_False domains_all contains_appendI2)
  show ?thesis
    unfolding push_assertions_def
    using mem(3) dom
    by (intro contains_concatI [where x = "a_kind ?a"])
       (simp_all only: Let_def if_False assertion_kinds_all contains_appendI2)
qed

lemma push_assertions_shape:
  "push_assertions b = [] \<or> (\<exists>s. push_assertions b = CHR 0x0A # CHR ''#'' # s)"
  unfolding push_assertions_def assertion_kinds_def Let_def
  by (auto simp: nl_def simp del: filter_False)

lemma contains_Cons_other: "contains (x # xs) (c # cs) \<Longrightarrow> x \<noteq> c \<Longrightarrow> contains (x # xs) cs"
  by simp

lemma not_ws_hash: "\<not> is_whitespace (CHR ''#'' # s)"
  by (simp add: is_whitespace_def whitespace_chars_def)

lemma trim_start_hash: "trim_start (CHR ''#'' # s) = CHR ''#'' # s"
  by (simp add: trim_start_def trim_start_matches_def not_ws_hash)

lemma trim_start_nl_hash: "trim_start (CHR 0x0A # CHR ''#'' # s) = CHR ''#'' # s"
proof -
  have "is_whitespace [CHR 0x0A]" by (simp add: is_whitespace_def whitespace_chars_def)
  moreover have "\<not> is_continuation CHR ''#''" by (simp add: is_continuation_def byte_of_def)
  ultimately show ?thesis
    by (simp add: trim_start_def trim_start_matches_def not_ws_hash)
qed

lemma assertion_line_head: "\<exists>s. assertion_line b ba = CHR ''-'' # s"
  by (simp add: assertion_line_def Let_def)

lemma overview_text_shape:
  assumes "push_assertions b \<noteq> []"
  shows "\<exists>s. overview_text b = CHR ''#'' # s \<or> overview_text b = CHR 0x0A # CHR ''#'' # s"
proof -
  obtain rest where "overview_text b =
      (case b_vision b of Some v \<Rightarrow> ''## Vision'' @ nl @ e_summary v @ nl | None \<Rightarrow> []) @
      push_assertions b @ rest"
    unfolding overview_text_def Let_def by blast
  then show ?thesis
    using assms push_assertions_shape [of b] by (cases "b_vision b") auto
qed

text \<open>
  Every assertion of a bundle is in the rendered text with its own line, in the overview and
  in the \<open>context_get\<close> answer alike, and the line carries the statement, the provisional mark and a
  mark for every contradiction: provisional and contradicted assertions are never dropped.
\<close>

theorem render_keeps_assertions:
  assumes "ba \<in> set (b_assertions b)"
  shows "contains (assertion_line b ba) (render_markdown b) \<and>
    contains (a_statement (ba_assertion ba)) (assertion_line b ba) \<and>
    (af_provisional (ba_flags ba) \<longrightarrow> contains '' _(provisional)_'' (assertion_line b ba)) \<and>
    (\<forall>other \<in> set (af_contradicted_by (ba_flags ba)).
       contains ('' _(contradicted by '' @ short other @ '')_'') (assertion_line b ba))"
proof (intro conjI impI ballI)
  note pushed = assertion_line_pushed [OF assms]
  show "contains (assertion_line b ba) (render_markdown b)"
  proof (cases "b_overview b")
    case False
    with pushed show ?thesis
      unfolding render_markdown_def Let_def
      by (simp only: if_False) (rule contains_skip8, rule contains_appendI1)
  next
    case True
    have inside: "contains (assertion_line b ba) (overview_text b)"
      unfolding overview_text_def Let_def
      by (rule contains_appendI2, rule contains_appendI1, rule pushed)
    obtain l where line: "assertion_line b ba = CHR ''-'' # l" using assertion_line_head by blast
    have "push_assertions b \<noteq> []" using pushed line by auto
    then obtain s where "overview_text b = CHR ''#'' # s \<or> overview_text b = CHR 0x0A # CHR ''#'' # s"
      using overview_text_shape by blast
    then have "contains (assertion_line b ba) (render_overview b)"
    proof
      assume "overview_text b = CHR ''#'' # s"
      with inside show ?thesis by (simp add: render_overview_def trim_start_hash)
    next
      assume eq: "overview_text b = CHR 0x0A # CHR ''#'' # s"
      have "contains (assertion_line b ba) (CHR ''#'' # s)"
        using inside unfolding eq line by (rule contains_Cons_other) simp
      with eq show ?thesis by (simp only: render_overview_def trim_start_nl_hash)
    qed
    with True show ?thesis by (simp add: render_markdown_def)
  qed
  show "contains (a_statement (ba_assertion ba)) (assertion_line b ba)"
    unfolding assertion_line_def Let_def
    by (rule contains_skip2, rule contains_appendI2, rule contains_appendI1, rule contains_refl)
next
  assume "af_provisional (ba_flags ba)"
  then show "contains '' _(provisional)_'' (assertion_line b ba)"
    unfolding assertion_line_def Let_def
    by (simp only: if_True)
       (rule contains_skip4, rule contains_skip2, rule contains_appendI1, rule contains_refl)
next
  fix other assume other: "other \<in> set (af_contradicted_by (ba_flags ba))"
  have marks: "contains ('' _(contradicted by '' @ short other @ '')_'')
      (concat (map (\<lambda>other. '' _(contradicted by '' @ short other @ '')_'')
         (af_contradicted_by (ba_flags ba))))"
    using other by (rule contains_concatI) (rule contains_refl)
  show "contains ('' _(contradicted by '' @ short other @ '')_'') (assertion_line b ba)"
    unfolding assertion_line_def Let_def
    by (rule contains_skip4, rule contains_skip2, rule contains_appendI2, rule contains_appendI1,
        rule marks)
qed

end
