(* ===== verification/Ctx_Compile.thy ===== *)
theory Ctx_Compile
  imports Ctx_Resolve Ctx_Render
begin

text \<open>
  Compilation of a project's graph into the bundle an agent or the UI reads
  (\<open>context/compile.rs\<close>): entry selection, ranking, the budget loop, assembly, and the
  spawn-time overview. The reader's checkout is a function from a repo-relative path to
  \<open>Some True/False\<close> (the path was checked) or \<open>None\<close> (it could not be).
\<close>

type_synonym entries = "(entity \<times> entry_reason) list"
type_synonym checkout = "string \<Rightarrow> bool option"
type_synonym builder = "entries \<Rightarrow> ctx_id list \<Rightarrow> nat \<Rightarrow> ctx_bundle"

definition query_hits :: nat where "query_hits = 10"
definition charter_per_entity :: nat where "charter_per_entity = 2"
definition default_budget_chars :: nat where "default_budget_chars = 12000"
definition overview_budget_chars :: nat where "overview_budget_chars = 3000"

section \<open>Entry selection\<close>

fun tier :: "entry_reason \<Rightarrow> nat" where
  "tier EntryVision = 0"
| "tier EntryNamed = 1"
| "tier EntryPath = 1"
| "tier EntryQuery = 2"
| "tier EntryNeighbour = 3"

fun entries_add :: "entries \<Rightarrow> entity \<Rightarrow> entry_reason \<Rightarrow> entries" where
  "entries_add [] e reason = [(e, reason)]"
| "entries_add ((e', r) # rest) e reason =
     (if e_id e' = e_id e
      then (if tier reason < tier r then (e', reason) # rest else (e', r) # rest)
      else (e', r) # entries_add rest e reason)"

definition add_all :: "entry_reason \<Rightarrow> entity list \<Rightarrow> entries \<Rightarrow> entries" where
  "add_all reason es entries = foldl (\<lambda>acc e. entries_add acc e reason) entries es"

definition seeds :: "entries \<Rightarrow> entity list" where
  "seeds entries = map fst (filter (\<lambda>(_, r). r \<noteq> EntryVision) entries)"

definition degree :: "graph \<Rightarrow> ctx_id \<Rightarrow> nat" where
  "degree g i = length (filter (\<lambda>r. r_from r = i \<or> r_to r = i) (g_relations g))"

definition rank_key :: "graph \<Rightarrow> entity \<times> entry_reason \<Rightarrow> nat \<times> int \<times> int" where
  "rank_key g = (\<lambda>(e, r). (tier r, - int (degree g (e_id e)), - e_recorded_at e))"

definition ranked :: "graph \<Rightarrow> entries \<Rightarrow> entries" where
  "ranked g entries = sort_key (rank_key g) entries"

definition active :: "graph \<Rightarrow> entity list" where
  "active g = filter (\<lambda>e. e_status e = Active) (g_entities g)"

definition neighbours :: "graph \<Rightarrow> ctx_id \<Rightarrow> entity list" where
  "neighbours g i =
     filter (\<lambda>e. e_status e = Active)
       (List.map_filter (graph_entity g)
          (List.map_filter
             (\<lambda>r. if r_from r = i then Some (r_to r)
                  else if r_to r = i then Some (r_from r) else None)
             (g_relations g)))"

definition text_tokens :: "unicode \<Rightarrow> compile_query \<Rightarrow> string list" where
  "text_tokens U q =
     filter (\<lambda>t. length t \<ge> 3)
       (map (to_lower U) (split_whitespace (case q_query q of Some s \<Rightarrow> s | None \<Rightarrow> [])))"

definition token_hits :: "unicode \<Rightarrow> string list \<Rightarrow> string \<Rightarrow> nat" where
  "token_hits U tokens body =
     (let low = to_lower U body in length (filter (\<lambda>t. contains t low) tokens))"

definition text_score :: "unicode \<Rightarrow> graph \<Rightarrow> string list \<Rightarrow> entity \<Rightarrow> nat" where
  "text_score U g tokens e =
     (let own = token_hits U tokens
                  (e_slug e @ '' '' @ e_name e @ '' '' @ join '' '' (e_aliases e) @ '' '' @ e_summary e);
          about = sum_list (map (\<lambda>a. token_hits U tokens (a_statement a @ '' '' @ a_rationale a))
                    (filter (\<lambda>a. is_current g a \<and> e_id e \<in> set (a_about a)) (g_assertions g)))
      in own + about)"

definition by_text :: "unicode \<Rightarrow> graph \<Rightarrow> compile_query \<Rightarrow> entity list" where
  "by_text U g q =
     (let tokens = text_tokens U q
      in if tokens = [] then []
         else
           (let scored = filter (\<lambda>(_, score). score > 0)
                           (map (\<lambda>e. (e, text_score U g tokens e)) (active g))
            in map fst (take query_hits (sort_key (\<lambda>(_, score). - int score) scored))))"

fun trim_dot_slash :: "string \<Rightarrow> string" where
  "trim_dot_slash (a # b # rest) =
     (if a = CHR ''.'' \<and> b = CHR ''/'' then trim_dot_slash rest else a # b # rest)"
| "trim_dot_slash s = s"

definition trim_path :: "string \<Rightarrow> string" where
  "trim_path p = trim_end_matches (\<lambda>c. c = ''/'') (trim_dot_slash p)"

definition path_under :: "string \<Rightarrow> string \<Rightarrow> bool" where
  "path_under shorter longer \<longleftrightarrow>
     shorter = [] \<or> longer = shorter \<or> prefix (shorter @ ''/'') longer"

definition path_overlaps :: "string \<Rightarrow> string \<Rightarrow> bool" where
  "path_overlaps a b \<longleftrightarrow> path_under a b \<or> path_under b a"

definition anchored :: "string list \<Rightarrow> string list \<Rightarrow> bool" where
  "anchored wanted paths \<longleftrightarrow>
     (\<exists>p \<in> set (map trim_path paths). \<exists>w \<in> set wanted. path_overlaps p w)"

text \<open>The inner loop of \<open>by_paths\<close>: push the active subjects not yet there.\<close>

definition push_subjects :: "graph \<Rightarrow> entity list \<Rightarrow> assertion \<Rightarrow> entity list" where
  "push_subjects g out a =
     foldl (\<lambda>out e. if e_status e = Active \<and> \<not> (\<exists>o' \<in> set out. e_id o' = e_id e)
                    then out @ [e] else out)
       out (List.map_filter (graph_entity g) (a_about a))"

definition by_paths :: "graph \<Rightarrow> string list \<Rightarrow> entity list" where
  "by_paths g paths =
     (let wanted = map trim_path paths
      in if wanted = [] then []
         else foldl (push_subjects g)
                (filter (\<lambda>e. anchored wanted (e_paths e)) (active g))
                (filter (\<lambda>a. is_current g a \<and> anchored wanted (a_paths a)) (g_assertions g)))"

definition checkable :: "string \<Rightarrow> bool" where
  "checkable p \<longleftrightarrow>
     p \<noteq> [] \<and> \<not> prefix ''/'' p \<and> ''..'' \<notin> set (split_by (\<lambda>c. c = ''/'') p) \<and>
     CHR ''*'' \<notin> set p \<and> CHR ''?'' \<notin> set p \<and> CHR ''['' \<notin> set p"

definition missing_anchors :: "graph \<Rightarrow> entries \<Rightarrow> checkout \<Rightarrow> string set" where
  "missing_anchors g rk root =
     set (filter (\<lambda>p. checkable p \<and> root p = Some False)
       (map trim_path
         (concat (map (\<lambda>(e, _). e_paths e @ concat (map a_paths (heads_about g (e_id e)))) rk))))"

section \<open>The budget loop\<close>

function fit_loop :: "builder \<Rightarrow> nat \<Rightarrow> entries \<Rightarrow> ctx_id list \<Rightarrow> nat \<Rightarrow> ctx_bundle" where
  "fit_loop build budget rk truncated kept =
     (let b = build rk truncated kept
      in if length (render_markdown b) \<le> budget then b
         else if rk \<noteq> [] \<and> snd (last rk) \<noteq> EntryVision
         then fit_loop build budget (butlast rk) (truncated @ [e_id (fst (last rk))]) kept
         else if kept > 0 then fit_loop build budget rk truncated (kept - 1)
         else b)"
  by pat_completeness auto
termination
  by (relation "measure (\<lambda>(_, _, rk, _, kept). length rk + kept)") auto

declare fit_loop.simps [simp del]

definition fit :: "entries \<Rightarrow> nat \<Rightarrow> nat \<Rightarrow> builder \<Rightarrow> ctx_bundle" where
  "fit rk sheddable budget build = fit_loop build budget rk [] sheddable"

section \<open>Assembly\<close>

definition bundle_entities :: "graph \<Rightarrow> entries \<Rightarrow> bundle_entity list" where
  "bundle_entities g rk =
     (let ids = set (map (\<lambda>(e, _). e_id e) rk)
      in map (\<lambda>(e, reason).
           \<lparr>be_entity = e, be_reason = reason,
            be_relations =
              filter (\<lambda>r. r_from r = e_id e \<and> r_to r \<in> ids \<or> r_to r = e_id e \<and> r_from r \<in> ids)
                (g_relations g)\<rparr>) rk)"

fun add_contradicted :: "graph \<Rightarrow> ctx_id \<Rightarrow> ctx_id list \<Rightarrow> ctx_id list \<Rightarrow> ctx_id list" where
  "add_contradicted g self out [] = out"
| "add_contradicted g self out (i # is) =
     (let current = (case graph_assertion g i of Some o' \<Rightarrow> is_current g o' | None \<Rightarrow> False)
      in add_contradicted g self
           (if i \<noteq> self \<and> current \<and> i \<notin> set out then out @ [i] else out) is)"

definition contradicted_by :: "graph \<Rightarrow> assertion \<Rightarrow> ctx_id list" where
  "contradicted_by g a =
     add_contradicted g (a_id a) []
       (a_contradicts a @ map a_id (filter (\<lambda>o'. a_id a \<in> set (a_contradicts o')) (g_assertions g)))"

text \<open>The pairs met so far and the contradictions recorded for them.\<close>

type_synonym pair_state = "(ctx_id \<times> ctx_id) list \<times> contradiction list"

definition add_pair :: "ctx_id \<Rightarrow> pair_state \<Rightarrow> ctx_id \<Rightarrow> pair_state" where
  "add_pair self st other =
     (let (seen, cs) = st;
          (x, y) = (if self < other then (self, other) else (other, self))
      in if (x, y) \<in> set seen then (seen, cs)
         else ((x, y) # seen, cs @ [\<lparr>cn_a = x, cn_b = y, cn_reasoning = None\<rparr>]))"

definition flag_assertion :: "graph \<Rightarrow> bool \<Rightarrow> assertion \<Rightarrow> bundle_assertion" where
  "flag_assertion g include_history a =
     \<lparr>ba_assertion = a,
      ba_flags = \<lparr>af_provisional = (a_status a = Provisional),
                  af_contradicted_by = contradicted_by g a,
                  af_has_history = (a_supersedes a \<noteq> None)\<rparr>,
      ba_history = (if include_history then history g (a_id a) else [])\<rparr>"

definition bundle_pairs :: "graph \<Rightarrow> assertion list \<Rightarrow> pair_state" where
  "bundle_pairs g heads =
     foldl (\<lambda>st a. foldl (add_pair (a_id a)) st (contradicted_by g a)) ([], []) heads"

definition bundle_assertions ::
  "graph \<Rightarrow> assertion list \<Rightarrow> bool \<Rightarrow> bundle_assertion list \<times> contradiction list" where
  "bundle_assertions g heads include_history =
     (map (flag_assertion g include_history) heads, snd (bundle_pairs g heads))"

definition ctx_warnings ::
  "graph \<Rightarrow> bundle_assertion list \<Rightarrow> contradiction list \<Rightarrow> string list \<Rightarrow> ctx_id list \<Rightarrow> string list" where
  "ctx_warnings g assertions contradictions misses truncated =
     (let statement = (\<lambda>i. case graph_assertion g i of None \<Rightarrow> i | Some a \<Rightarrow> a_statement a);
          provisional = length (filter (\<lambda>a. af_provisional (ba_flags a)) assertions)
      in map (\<lambda>c. ''Unresolved: '' @ statement (cn_a c) @ '' vs '' @ statement (cn_b c)) contradictions @
         (if provisional > 0
          then [show_nat provisional @
                '' decision(s) are provisional: recorded from a branch that has not merged'']
          else []) @
         (if misses \<noteq> [] then [''No context recorded for: '' @ join '', '' misses] else []) @
         (if truncated \<noteq> []
          then [''Truncated to fit the budget: '' @ show_nat (length truncated) @ '' entities dropped'']
          else []))"

definition stale_anchors :: "entries \<Rightarrow> bundle_assertion list \<Rightarrow> string set \<Rightarrow> string list" where
  "stale_anchors rk assertions missing =
     (let gone = (\<lambda>paths. filter (\<lambda>p. p \<in> missing) (map trim_path paths))
      in concat (map (\<lambda>(e, _).
           map (\<lambda>p. in_ticks p @ '' (anchor of '' @ in_ticks (e_slug e) @
                    '') does not exist in this checkout'') (gone (e_paths e))) rk) @
         concat (map (\<lambda>a.
           map (\<lambda>p. in_ticks p @ '' (anchor of '' @ dquote @ a_statement (ba_assertion a) @ dquote @
                    '') does not exist in this checkout'') (gone (a_paths (ba_assertion a)))) assertions))"

definition assemble_step ::
  "bool \<Rightarrow> bool \<Rightarrow> assertion list \<times> ctx_id set \<Rightarrow> assertion \<Rightarrow> assertion list \<times> ctx_id set" where
  "assemble_step is_map targeted st a =
     (let (heads, left_out) = st
      in if \<exists>h \<in> set heads. a_id h = a_id a then (heads, left_out)
         else if targeted \<or> a_domain a \<noteq> Implementation then (heads @ [a], left_out)
         else if is_map then (heads, insert (a_id a) left_out)
         else (heads, left_out))"

definition assemble_heads :: "graph \<Rightarrow> bool \<Rightarrow> entries \<Rightarrow> assertion list \<times> ctx_id set" where
  "assemble_heads g is_map rk =
     foldl (\<lambda>st (e, reason).
              foldl (assemble_step is_map (\<not> is_map \<and> reason \<noteq> EntryNeighbour)) st
                (heads_about g (e_id e)))
       ([], {}) rk"

definition assemble ::
  "graph \<Rightarrow> compile_query \<Rightarrow> bool \<Rightarrow> string list \<Rightarrow> string set option \<Rightarrow> entries \<Rightarrow> ctx_id list \<Rightarrow> ctx_bundle" where
  "assemble g q is_map misses missing rk truncated =
     (let (heads, left_out) = assemble_heads g is_map rk;
          (assertions, contradictions) = bundle_assertions g heads (q_include_history q)
      in \<lparr>b_project_id = g_project_id g,
          b_vision = graph_vision g,
          b_overview = False,
          b_entities = bundle_entities g rk,
          b_assertions = assertions,
          b_contradictions = contradictions,
          b_misses = misses,
          b_warnings =
            ctx_warnings g assertions contradictions misses truncated @
            (if left_out \<noteq> {}
             then [show_nat (card left_out) @
                   '' implementation-level record(s) not in the map; name entities or paths to read them'']
             else []) @
            (case missing of Some m \<Rightarrow> stale_anchors rk assertions m | None \<Rightarrow> []),
          b_truncated = truncated\<rparr>)"

section \<open>The overview\<close>

definition charter_rank :: "assertion \<Rightarrow> bool \<times> bool \<times> int" where
  "charter_rank a =
     (let user_stated = (au_kind (a_author a) = User \<or> so_kind (a_source a) = UserTurn)
      in (\<not> user_stated, a_status a = Provisional, - a_recorded_at a))"

definition bump_taken :: "(ctx_id \<rightharpoonup> nat) \<Rightarrow> ctx_id \<Rightarrow> (ctx_id \<rightharpoonup> nat)" where
  "bump_taken taken i = taken(i \<mapsto> (case taken i of None \<Rightarrow> 0 | Some n \<Rightarrow> n) + 1)"

fun per_entity_loop :: "nat \<Rightarrow> (ctx_id \<rightharpoonup> nat) \<Rightarrow> assertion list \<Rightarrow> assertion list" where
  "per_entity_loop cap taken [] = []"
| "per_entity_loop cap taken (a # rest) =
     (if \<forall>i \<in> set (a_about a). (case taken i of None \<Rightarrow> True | Some n \<Rightarrow> n < cap)
      then a # per_entity_loop cap (foldl bump_taken taken (a_about a)) rest
      else per_entity_loop cap taken rest)"

definition per_entity :: "assertion list \<Rightarrow> nat \<Rightarrow> assertion list" where
  "per_entity rk cap = per_entity_loop cap Map.empty rk"

definition overview_entries :: "graph \<Rightarrow> entries" where
  "overview_entries g =
     foldl (\<lambda>acc e.
              if e_kind e = Vision
              then (case graph_vision g of
                      Some v \<Rightarrow> if e_id v = e_id e then entries_add acc e EntryVision else acc
                    | None \<Rightarrow> acc)
              else entries_add acc e EntryNamed)
       [] (filter (\<lambda>e. au_kind (e_author e) \<noteq> Extractor) (active g))"

definition charter :: "graph \<Rightarrow> assertion list" where
  "charter g =
     per_entity
       (sort_key charter_rank
          (filter (\<lambda>a. a_domain a \<noteq> Implementation \<and> is_current g a) (g_assertions g)))
       charter_per_entity"

definition overview_build :: "graph \<Rightarrow> builder" where
  "overview_build g rk truncated kept =
     (let (assertions, contradictions) = bundle_assertions g (charter g) False;
          shown = take kept assertions;
          shed = drop kept assertions;
          ids = set (map (\<lambda>a. a_id (ba_assertion a)) shown);
          cs = filter (\<lambda>c. cn_a c \<in> ids \<or> cn_b c \<in> ids) contradictions
      in \<lparr>b_project_id = g_project_id g,
          b_vision = map_option fst (List.find (\<lambda>(_, r). r = EntryVision) rk),
          b_overview = True,
          b_entities = bundle_entities g rk,
          b_assertions = shown,
          b_contradictions = cs,
          b_misses = [],
          b_warnings =
            ctx_warnings g shown cs [] truncated @
            (if shed \<noteq> []
             then [''Truncated to fit the budget: '' @ show_nat (length shed) @
                   '' decisions not shown; call context_get for the full set'']
             else []),
          b_truncated = truncated @ map (\<lambda>a. a_id (ba_assertion a)) (rev shed)\<rparr>)"

definition overview :: "graph \<Rightarrow> nat \<Rightarrow> ctx_bundle" where
  "overview g budget_chars =
     fit (ranked g (overview_entries g))
       (length (charter g))
       (if budget_chars = 0 then overview_budget_chars else budget_chars)
       (overview_build g)"

section \<open>compile\<close>

definition is_map_query :: "compile_query \<Rightarrow> bool" where
  "is_map_query q \<longleftrightarrow>
     q_entities q = [] \<and> q_paths q = [] \<and>
     \<not> (case q_query q of Some s \<Rightarrow> trim s \<noteq> [] | None \<Rightarrow> False)"

definition vision_entries :: "graph \<Rightarrow> entries" where
  "vision_entries g = (case graph_vision g of Some v \<Rightarrow> entries_add [] v EntryVision | None \<Rightarrow> [])"

text \<open>The targeted branch up to the neighbours, and the one-hop expansion.\<close>

definition targeted_entries :: "unicode \<Rightarrow> graph \<Rightarrow> compile_query \<Rightarrow> entries" where
  "targeted_entries U g q =
     add_all EntryPath (by_paths g (q_paths q))
       (add_all EntryQuery (by_text U g q)
         (add_all EntryNamed (fst (resolve_entities U g (q_entities q))) (vision_entries g)))"

definition expand :: "graph \<Rightarrow> entries \<Rightarrow> entries" where
  "expand g entries =
     foldl (\<lambda>acc seed. add_all EntryNeighbour (neighbours g (e_id seed)) acc) entries (seeds entries)"

definition compile_entries :: "unicode \<Rightarrow> graph \<Rightarrow> compile_query \<Rightarrow> entries" where
  "compile_entries U g q =
     (if is_map_query q then add_all EntryNamed (active g) (vision_entries g)
      else expand g (targeted_entries U g q))"

definition compile_misses :: "unicode \<Rightarrow> graph \<Rightarrow> compile_query \<Rightarrow> string list" where
  "compile_misses U g q =
     (if is_map_query q then [] else snd (resolve_entities U g (q_entities q)))"

definition compile :: "unicode \<Rightarrow> graph \<Rightarrow> compile_query \<Rightarrow> checkout option \<Rightarrow> ctx_bundle" where
  "compile U g q checkout =
     (if q_overview q then overview g (q_budget_chars q)
      else
        (let rk = ranked g (compile_entries U g q);
             missing = map_option (missing_anchors g rk) checkout;
             budget = (if q_budget_chars q = 0 then default_budget_chars else q_budget_chars q)
         in fit rk 0 budget
              (\<lambda>rk truncated _.
                 assemble g q (is_map_query q) (compile_misses U g q) missing rk truncated)))"

end
