(* ===== verification/Ctx_Served.thy ===== *)
theory Ctx_Served
  imports Ctx_Compile
begin

text \<open>
  What a compiled bundle serves: the budget loop's contract (\<open>fit\<close>), stated once over any builder
  that lists the entries it is given, then the entities, assertions and contradictions that
  \<open>compile\<close> and \<open>overview\<close> put in the bundle.
\<close>

section \<open>The budget loop\<close>

abbreviation entry_ids :: "entries \<Rightarrow> ctx_id list" where
  "entry_ids rk \<equiv> map (\<lambda>x. e_id (fst x)) rk"

text \<open>The entities the bundle is built from: the first \<open>n\<close> ranked, the rest truncated last first.\<close>

definition kept_first :: "builder \<Rightarrow> entries \<Rightarrow> nat \<Rightarrow> nat \<Rightarrow> ctx_bundle" where
  "kept_first build rk n kept = build (take n rk) (entry_ids (rev (drop n rk))) kept"

text \<open>
  The state the loop stops in, from \<open>n\<close> entities and \<open>kept\<close> assertions: \<open>m\<close> entities and \<open>k\<close>
  assertions are left. A vision is never dropped, assertions are shed only once no droppable
  entity is left, the budget is met unless nothing droppable is left, and every drop was forced.
\<close>

definition fit_stops ::
  "builder \<Rightarrow> nat \<Rightarrow> entries \<Rightarrow> nat \<Rightarrow> nat \<Rightarrow> nat \<Rightarrow> nat \<Rightarrow> bool" where
  "fit_stops build budget rk n kept m k \<longleftrightarrow>
     m \<le> n \<and> k \<le> kept \<and> (\<forall>i. m \<le> i \<longrightarrow> i < n \<longrightarrow> snd (rk ! i) \<noteq> EntryVision) \<and>
     (k < kept \<longrightarrow> m = 0 \<or> snd (rk ! (m - 1)) = EntryVision) \<and>
     (length (render_markdown (kept_first build rk m k)) \<le> budget \<or>
        k = 0 \<and> (m = 0 \<or> snd (rk ! (m - 1)) = EntryVision)) \<and>
     (m < n \<longrightarrow> budget < length (render_markdown (kept_first build rk (Suc m) kept))) \<and>
     (k < kept \<longrightarrow> budget < length (render_markdown (kept_first build rk m (Suc k))))"

lemma fit_stops_drop:
  assumes "fit_stops build budget rk n kept m k" and "snd (rk ! n) \<noteq> EntryVision"
    and "budget < length (render_markdown (kept_first build rk (Suc n) kept))"
  shows "fit_stops build budget rk (Suc n) kept m k"
  using assms by (auto simp: fit_stops_def less_Suc_eq)

lemma fit_stops_shed:
  assumes "fit_stops build budget rk n kept m k" and "n = 0 \<or> snd (rk ! (n - 1)) = EntryVision"
    and "budget < length (render_markdown (kept_first build rk n (Suc kept)))"
  shows "fit_stops build budget rk n (Suc kept) m k"
proof -
  have "m = n"
  proof (rule ccontr)
    assume "m \<noteq> n"
    with assms(1) have "m \<le> n - 1" "n - 1 < n" by (auto simp: fit_stops_def)
    with assms(1,2) show False by (auto simp: fit_stops_def)
  qed
  with assms show ?thesis by (auto simp: fit_stops_def less_Suc_eq)
qed

lemma fit_loop_stops:
  assumes "n \<le> length rk"
  shows "\<exists>m k. fit_stops build budget rk n kept m k \<and>
     fit_loop build budget (take n rk) (entry_ids (rev (drop n rk))) kept = kept_first build rk m k"
  using assms
proof (induction "n + kept" arbitrary: n kept rule: less_induct)
  case less
  let ?b = "kept_first build rk n kept"
  let ?loop = "\<lambda>n kept. fit_loop build budget (take n rk) (entry_ids (rev (drop n rk))) kept"
  have last_take: "last (take n rk) = rk ! (n - 1)" if "n > 0"
    using that less.prems by (cases n) (auto simp: take_Suc_conv_app_nth)
  have run: "?loop n kept = (if length (render_markdown ?b) \<le> budget then ?b
      else if take n rk \<noteq> [] \<and> snd (last (take n rk)) \<noteq> EntryVision
      then fit_loop build budget (butlast (take n rk))
             (entry_ids (rev (drop n rk)) @ [e_id (fst (last (take n rk)))]) kept
      else if kept > 0 then ?loop n (kept - 1) else ?b)"
    by (subst fit_loop.simps) (simp add: Let_def kept_first_def)
  consider (fits) "length (render_markdown ?b) \<le> budget"
    | (stuck) "budget < length (render_markdown ?b)" "n = 0 \<or> snd (rk ! (n - 1)) = EntryVision" "kept = 0"
    | (drop) p where "budget < length (render_markdown ?b)" "n = Suc p" "snd (rk ! p) \<noteq> EntryVision"
    | (shed) j where "budget < length (render_markdown ?b)" "n = 0 \<or> snd (rk ! (n - 1)) = EntryVision" "kept = Suc j"
    by (cases n; cases kept) fastforce+
  then show ?case
  proof cases
    case fits
    with run have "?loop n kept = ?b" by simp
    moreover have "fit_stops build budget rk n kept n kept" using fits by (auto simp: fit_stops_def)
    ultimately show ?thesis by blast
  next
    case stuck
    with run last_take less.prems have "?loop n kept = ?b" by auto
    moreover have "fit_stops build budget rk n kept n kept" using stuck by (auto simp: fit_stops_def)
    ultimately show ?thesis by blast
  next
    case drop
    have dropped: "drop p rk = rk ! p # drop n rk"
      using less.prems drop(2) by (simp add: Cons_nth_drop_Suc)
    have "?loop n kept = ?loop p kept"
      using run drop last_take less.prems dropped by (auto simp: butlast_take)
    moreover obtain m k where "fit_stops build budget rk p kept m k" "?loop p kept = kept_first build rk m k"
      using less.hyps [of p kept] drop(2) less.prems by auto
    ultimately show ?thesis using fit_stops_drop drop by metis
  next
    case shed
    then have "?loop n kept = ?loop n j" using run last_take less.prems by auto
    moreover obtain m k where "fit_stops build budget rk n j m k" "?loop n j = kept_first build rk m k"
      using less.hyps [of n j] shed(3) less.prems by auto
    ultimately show ?thesis using fit_stops_shed shed by metis
  qed
qed

text \<open>
  The interface of a builder: the bundle lists the entities it was given, with their reasons and in
  their order, and what was truncated, followed by what the builder itself sheds.
\<close>

locale bundle_builder =
  fixes build :: builder and shed :: "nat \<Rightarrow> ctx_id list"
  assumes built_entities:
      "map (\<lambda>be. (be_entity be, be_reason be)) (b_entities (build rk truncated kept)) = rk"
    and built_truncated: "b_truncated (build rk truncated kept) = truncated @ shed kept"
begin

lemma fit_spec:
  obtains m k where "fit_stops build budget rk (length rk) sheddable m k"
    "fit rk sheddable budget build = kept_first build rk m k"
  using fit_loop_stops [of "length rk" rk build budget sheddable] by (auto simp: fit_def)

lemma kept_entities:
  "map (\<lambda>be. (be_entity be, be_reason be)) (b_entities (kept_first build rk m k)) = take m rk"
  unfolding kept_first_def by (rule built_entities)

lemma kept_served: "be \<in> set (b_entities (kept_first build rk m k)) \<Longrightarrow> (be_entity be, be_reason be) \<in> set rk"
  using arg_cong [OF kept_entities [where rk = rk and m = m and k = k], of set]
  by (auto dest: in_set_takeD)

lemma kept_ids:
  "map (\<lambda>be. e_id (be_entity be)) (b_entities (kept_first build rk m k)) = entry_ids (take m rk)"
  using arg_cong [OF kept_entities [where rk = rk and m = m and k = k], of "map (\<lambda>x. e_id (fst x))"]
  by (simp add: comp_def)

text \<open>Nothing is lost: what is not listed is named in \<open>truncated\<close>, the lowest ranked first.\<close>

lemma fit_accounts_for_all:
  "\<exists>k \<le> sheddable. map (\<lambda>be. e_id (be_entity be)) (b_entities (fit rk sheddable budget build)) @
     rev (b_truncated (fit rk sheddable budget build)) =
   take (length (b_entities (fit rk sheddable budget build))) (entry_ids rk) @ rev (shed k) @
     drop (length (b_entities (fit rk sheddable budget build))) (entry_ids rk)"
proof -
  obtain m k where mk: "fit_stops build budget rk (length rk) sheddable m k"
    "fit rk sheddable budget build = kept_first build rk m k" by (rule fit_spec)
  have "length (b_entities (kept_first build rk m k)) = length (take m rk)"
    using arg_cong [OF kept_entities [where rk = rk and m = m and k = k], of length] by simp
  then have "length (b_entities (kept_first build rk m k)) = m"
    using mk(1) by (simp add: fit_stops_def)
  moreover have "b_truncated (kept_first build rk m k) = entry_ids (rev (drop m rk)) @ shed k"
    by (simp add: kept_first_def built_truncated)
  moreover have "k \<le> sheddable" using mk(1) by (simp add: fit_stops_def)
  ultimately show ?thesis
    using mk(2) by (intro exI [of _ k]) (simp add: kept_ids rev_map take_map drop_map)
qed

lemma fit_keeps_vision:
  assumes "(v, EntryVision) \<in> set rk"
  shows "\<exists>be \<in> set (b_entities (fit rk sheddable budget build)). be_entity be = v \<and> be_reason be = EntryVision"
proof -
  obtain m k where mk: "fit_stops build budget rk (length rk) sheddable m k"
    "fit rk sheddable budget build = kept_first build rk m k" by (rule fit_spec)
  obtain i where "i < length rk" "rk ! i = (v, EntryVision)"
    using assms by (auto simp: in_set_conv_nth)
  have "i < m"
  proof (rule ccontr)
    assume "\<not> i < m"
    with mk(1) \<open>i < length rk\<close> have "snd (rk ! i) \<noteq> EntryVision" by (simp add: fit_stops_def)
    with \<open>rk ! i = _\<close> show False by simp
  qed
  with \<open>i < length rk\<close> \<open>rk ! i = _\<close> have "(v, EntryVision) \<in> set (take m rk)"
    by (auto simp: in_set_conv_nth intro!: exI [of _ i])
  then have "(v, EntryVision) \<in>
      (\<lambda>be. (be_entity be, be_reason be)) ` set (b_entities (kept_first build rk m k))"
    by (metis kept_entities list.set_map)
  with mk(2) show ?thesis by force
qed

lemma fit_forced:
  obtains m k where "fit rk sheddable budget build = kept_first build rk m k"
    "length (render_markdown (kept_first build rk m k)) \<le> budget \<or>
       k = 0 \<and> (m = 0 \<or> snd (rk ! (m - 1)) = EntryVision)"
    "m \<le> length rk" "k \<le> sheddable"
  by (rule fit_spec [where rk = rk and sheddable = sheddable and budget = budget]) (auto simp: fit_stops_def)

end

text \<open>Ranking puts the visions first, so once the last entry is one, all are.\<close>

lemma ranked_vision_prefix:
  assumes "m \<le> length rk" and "sorted (map (rank_key g) rk)"
    and "m = 0 \<or> snd (rk ! (m - 1)) = EntryVision"
  shows "\<forall>x \<in> set (take m rk). snd x = EntryVision"
proof
  fix x assume "x \<in> set (take m rk)"
  then obtain i where i: "i < m" "x = rk ! i" using assms(1) by (auto simp: in_set_conv_nth)
  have "rank_key g (rk ! i) \<le> rank_key g (rk ! (m - 1))"
    using sorted_nth_mono [OF assms(2), of i "m - 1"] i assms(1) by auto
  then have "tier (snd x) \<le> tier (snd (rk ! (m - 1)))"
    using i by (auto simp: rank_key_def less_eq_prod_def split: prod.splits)
  with assms(3) i have "tier (snd x) = 0" by auto
  then show "snd x = EntryVision" by (cases "snd x") auto
qed

lemma ranked_sorted: "sorted (map (rank_key g) (ranked g es))"
  by (simp add: ranked_def)

lemma set_ranked [simp]: "set (ranked g es) = set es"
  by (simp add: ranked_def)

section \<open>The two builders\<close>

lemma bundle_entities_listed [simp]:
  "map (\<lambda>be. (be_entity be, be_reason be)) (bundle_entities g rk) = rk"
  unfolding bundle_entities_def Let_def map_map by (rule map_idI) (auto split: prod.splits)

lemma bundle_assertions_fst: "fst (bundle_assertions g heads h) = map (flag_assertion g h) heads"
  by (simp add: bundle_assertions_def)

lemma ba_assertion_flag [simp]: "ba_assertion (flag_assertion g h a) = a"
  by (simp add: flag_assertion_def)

lemma assemble_fields [simp]:
  "b_entities (assemble g q is_map misses missing rk truncated) = bundle_entities g rk"
  "b_truncated (assemble g q is_map misses missing rk truncated) = truncated"
  "b_vision (assemble g q is_map misses missing rk truncated) = graph_vision g"
  "b_assertions (assemble g q is_map misses missing rk truncated) =
     map (flag_assertion g (q_include_history q)) (fst (assemble_heads g is_map rk))"
  "b_contradictions (assemble g q is_map misses missing rk truncated) =
     snd (bundle_pairs g (fst (assemble_heads g is_map rk)))"
  by (simp_all add: assemble_def bundle_assertions_def split: prod.splits)

lemma overview_build_fields [simp]:
  "b_entities (overview_build g rk truncated kept) = bundle_entities g rk"
  "b_truncated (overview_build g rk truncated kept) =
     truncated @ map a_id (rev (drop kept (charter g)))"
  "b_vision (overview_build g rk truncated kept) =
     map_option fst (List.find (\<lambda>(_, r). r = EntryVision) rk)"
  "b_assertions (overview_build g rk truncated kept) = map (flag_assertion g False) (take kept (charter g))"
  "b_contradictions (overview_build g rk truncated kept) =
     filter (\<lambda>c. cn_a c \<in> a_id ` set (take kept (charter g)) \<or> cn_b c \<in> a_id ` set (take kept (charter g)))
       (snd (bundle_pairs g (charter g)))"
  by (simp_all add: overview_build_def bundle_assertions_def Let_def take_map drop_map rev_map
      image_image split: prod.splits)

interpretation compiled: bundle_builder
  "\<lambda>rk truncated _. assemble g q is_map misses missing rk truncated" "\<lambda>_. []"
  for g q is_map misses missing
  by unfold_locales simp_all

interpretation overviewed: bundle_builder "overview_build g" "\<lambda>k. map a_id (rev (drop k (charter g)))" for g
  by unfold_locales simp_all

lemma compile_targeted:
  "\<not> q_overview q \<Longrightarrow>
   compile U g q checkout =
     fit (ranked g (compile_entries U g q)) 0
       (if q_budget_chars q = 0 then 12000 else q_budget_chars q)
       (\<lambda>rk truncated _. assemble g q (is_map_query q) (compile_misses U g q)
          (map_option (missing_anchors g (ranked g (compile_entries U g q))) checkout) rk truncated)"
  by (simp add: compile_def Let_def default_budget_chars_def)

lemma compile_overview: "q_overview q \<Longrightarrow> compile U g q checkout = overview g (q_budget_chars q)"
  by (simp add: compile_def)

lemma overview_fit:
  "overview g budget_chars =
     fit (ranked g (overview_entries g)) (length (charter g))
       (if budget_chars = 0 then 3000 else budget_chars) (overview_build g)"
  by (simp add: overview_def overview_budget_chars_def)

text \<open>
  Claim C2. A compiled bundle renders within its budget (the default one when the query names
  none), unless nothing droppable is left: then only the vision is served, and an overview
  has shed every assertion.
\<close>

theorem compile_within_budget:
  "length (render_markdown (compile U g q checkout)) \<le>
     (if q_budget_chars q = 0 then (if q_overview q then 3000 else 12000) else q_budget_chars q) \<or>
   (\<forall>be \<in> set (b_entities (compile U g q checkout)). be_reason be = EntryVision) \<and>
   (q_overview q \<longrightarrow> b_assertions (compile U g q checkout) = [])"
proof (cases "q_overview q")
  case True
  let ?rk = "ranked g (overview_entries g)"
  let ?budget = "if q_budget_chars q = 0 then 3000 else q_budget_chars q"
  obtain m k where mk: "fit ?rk (length (charter g)) ?budget (overview_build g) =
      kept_first (overview_build g) ?rk m k" "m \<le> length ?rk"
    "length (render_markdown (kept_first (overview_build g) ?rk m k)) \<le> ?budget \<or>
      k = 0 \<and> (m = 0 \<or> snd (?rk ! (m - 1)) = EntryVision)"
    by (rule overviewed.fit_forced [where rk = ?rk and sheddable = "length (charter g)"
          and budget = ?budget]) blast
  have "\<forall>be \<in> set (b_entities (kept_first (overview_build g) ?rk m k)). be_reason be = EntryVision"
    if "m = 0 \<or> snd (?rk ! (m - 1)) = EntryVision"
    using ranked_vision_prefix [OF mk(2) ranked_sorted that]
      arg_cong [OF overviewed.kept_entities [where rk = ?rk and m = m and k = k], of set]
    by (force simp: set_eq_iff)
  moreover have "b_assertions (kept_first (overview_build g) ?rk m 0) = []"
    by (simp add: kept_first_def)
  ultimately show ?thesis
    using mk(1,3) True by (auto simp: compile_overview overview_fit)
next
  case False
  let ?rk = "ranked g (compile_entries U g q)"
  let ?budget = "if q_budget_chars q = 0 then 12000 else q_budget_chars q"
  let ?build = "\<lambda>rk truncated (_ :: nat). assemble g q (is_map_query q) (compile_misses U g q)
    (map_option (missing_anchors g ?rk) checkout) rk truncated"
  obtain m k where mk: "fit ?rk 0 ?budget ?build = kept_first ?build ?rk m k" "m \<le> length ?rk"
    "length (render_markdown (kept_first ?build ?rk m k)) \<le> ?budget \<or>
      k = 0 \<and> (m = 0 \<or> snd (?rk ! (m - 1)) = EntryVision)"
    by (rule compiled.fit_forced [where rk = ?rk and sheddable = 0 and budget = ?budget]) blast
  have "\<forall>be \<in> set (b_entities (kept_first ?build ?rk m k)). be_reason be = EntryVision"
    if "m = 0 \<or> snd (?rk ! (m - 1)) = EntryVision"
    using ranked_vision_prefix [OF mk(2) ranked_sorted that]
      arg_cong [OF compiled.kept_entities [where rk = ?rk and m = m and k = k], of set]
    by (force simp: set_eq_iff)
  then show ?thesis
    using mk(1,3) False by (auto simp: compile_targeted)
qed

section \<open>Which entities are entries\<close>

lemma entries_add_mem:
  "(x, r) \<in> set (entries_add es e reason) \<Longrightarrow> x = e \<or> (\<exists>r'. (x, r') \<in> set es)"
  by (induction es e reason rule: entries_add.induct) (auto split: if_splits)

lemma entries_add_reason:
  "(x, r) \<in> set (entries_add es e reason) \<Longrightarrow> r = reason \<or> (x, r) \<in> set es"
  by (induction es e reason rule: entries_add.induct) (auto split: if_splits)

lemma entries_add_ids:
  "e_id ` fst ` set (entries_add es e reason) = insert (e_id e) (e_id ` fst ` set es)"
  by (induction es e reason rule: entries_add.induct) (auto split: if_splits)

lemma entries_add_distinct: "distinct (entry_ids es) \<Longrightarrow> distinct (entry_ids (entries_add es e reason))"
proof (induction es e reason rule: entries_add.induct)
  case (2 e' r rest e reason)
  have "e_id e' \<notin> e_id ` fst ` set (entries_add rest e reason)" if "e_id e' \<noteq> e_id e"
    using that 2 unfolding entries_add_ids by (auto simp: image_image)
  with 2 show ?case by (force simp: image_image)
qed simp

lemma entries_add_vision:
  "(v, EntryVision) \<in> set es \<Longrightarrow> (v, EntryVision) \<in> set (entries_add es e reason)"
  by (induction es e reason rule: entries_add.induct) (auto split: if_splits)

text \<open>What the additions keep: the entries are entities satisfying \<open>P\<close>, each once.\<close>

definition entries_of :: "(entity \<Rightarrow> bool) \<Rightarrow> entries \<Rightarrow> bool" where
  "entries_of P es \<longleftrightarrow> (\<forall>x \<in> set es. P (fst x)) \<and> distinct (entry_ids es)"

lemma entries_of_Nil [simp]: "entries_of P []"
  by (simp add: entries_of_def)

lemma entries_of_add: "entries_of P es \<Longrightarrow> P e \<Longrightarrow> entries_of P (entries_add es e reason)"
  by (auto simp: entries_of_def entries_add_distinct dest!: entries_add_mem)

lemma entries_of_add_all:
  "entries_of P es \<Longrightarrow> \<forall>e \<in> set xs. P e \<Longrightarrow> entries_of P (add_all reason xs es)"
  by (induction xs arbitrary: es) (auto simp: add_all_def entries_of_add)

lemma add_all_vision:
  "(v, EntryVision) \<in> set es \<Longrightarrow> (v, EntryVision) \<in> set (add_all reason xs es)"
  by (induction xs arbitrary: es) (auto simp: add_all_def entries_add_vision)

lemma ranked_entries_of: "entries_of P es \<Longrightarrow> entries_of P (ranked g es)"
proof -
  have "mset (ranked g es) = mset es" by (simp add: ranked_def)
  then have "mset (entry_ids (ranked g es)) = mset (entry_ids es)" by (simp only: mset_map)
  then have "distinct (entry_ids (ranked g es)) = distinct (entry_ids es)"
    by (rule mset_eq_imp_distinct_iff)
  then show "entries_of P es \<Longrightarrow> entries_of P (ranked g es)" by (simp add: entries_of_def)
qed

lemma active_iff: "e \<in> set (active g) \<longleftrightarrow> e \<in> set (g_entities g) \<and> e_status e = Active"
  by (auto simp: active_def)

lemma vision_active: "graph_vision g = Some v \<Longrightarrow> v \<in> set (active g)"
  by (auto simp: active_iff dest: graph_vision_SomeD)

lemma vision_entries_of: "entries_of (\<lambda>e. e \<in> set (active g)) (vision_entries g)"
  by (auto simp: vision_entries_def vision_active entries_of_def split: option.splits)

lemma neighbours_active: "e \<in> set (neighbours g i) \<Longrightarrow> e \<in> set (active g)"
  by (auto simp: neighbours_def active_iff set_map_filter_iff split: if_splits dest: graph_entity_SomeD)

lemma by_text_active: "e \<in> set (by_text U g q) \<Longrightarrow> e \<in> set (active g)"
  by (auto simp: by_text_def Let_def split: if_splits dest!: in_set_takeD)

lemma push_subjects_active:
  assumes "\<forall>e \<in> set out. e \<in> set (active g)" and "e \<in> set (push_subjects g out a)"
  shows "e \<in> set (active g)"
proof -
  let ?step = "\<lambda>out e. if e_status e = Active \<and> \<not> (\<exists>o' \<in> set out. e_id o' = e_id e) then out @ [e] else out"
  have "set (foldl ?step out xs) \<subseteq> set (active g)"
    if "\<forall>e \<in> set out. e \<in> set (active g)" "set xs \<subseteq> set (g_entities g)" for out xs
    using that
  proof (induction xs arbitrary: out)
    case (Cons x xs)
    show ?case
      unfolding foldl_Cons using Cons.prems by (intro Cons.IH) (auto simp: active_iff)
  qed auto
  moreover have "set (List.map_filter (graph_entity g) (a_about a)) \<subseteq> set (g_entities g)"
    by (auto simp: set_map_filter_iff dest: graph_entity_SomeD)
  ultimately show ?thesis using assms unfolding push_subjects_def by blast
qed

lemma by_paths_active: "e \<in> set (by_paths g paths) \<Longrightarrow> e \<in> set (active g)"
proof -
  have "\<forall>e \<in> set (foldl (push_subjects g) out as). e \<in> set (active g)"
    if "\<forall>e \<in> set out. e \<in> set (active g)" for out as
    using that
  proof (induction as arbitrary: out)
    case (Cons a as)
    show ?case unfolding foldl_Cons by (rule Cons.IH) (use Cons.prems push_subjects_active in blast)
  qed simp
  note closed = this
  assume "e \<in> set (by_paths g paths)"
  then obtain as where "e \<in> set (foldl (push_subjects g)
      (filter (\<lambda>e. anchored (map trim_path paths) (e_paths e)) (active g)) as)"
    unfolding by_paths_def Let_def by (auto split: if_splits)
  with closed show "e \<in> set (active g)" by (metis (no_types, lifting) filter_is_subset subsetD)
qed

lemma resolved_active: "e \<in> set (fst (resolve_entities U g rs)) \<Longrightarrow> e \<in> set (active g)"
  using resolve_entities_active by (simp add: active_iff)

lemma targeted_entries_of: "entries_of (\<lambda>e. e \<in> set (active g)) (targeted_entries U g q)"
  unfolding targeted_entries_def
  by (intro entries_of_add_all vision_entries_of) (auto intro: by_paths_active by_text_active resolved_active)

lemma expand_induct:
  assumes "Q es" and "\<And>es i. Q es \<Longrightarrow> Q (add_all EntryNeighbour (neighbours g i) es)"
  shows "Q (expand g es)"
proof -
  have "Q (foldl (\<lambda>acc seed. add_all EntryNeighbour (neighbours g (e_id seed)) acc) es ss)"
    if "Q es" for es ss
    using that
  proof (induction ss arbitrary: es)
    case (Cons s ss)
    show ?case unfolding foldl_Cons by (rule Cons.IH) (rule assms(2) [OF Cons.prems])
  qed simp
  with assms(1) show ?thesis by (simp add: expand_def)
qed

lemma compile_entries_of: "entries_of (\<lambda>e. e \<in> set (active g)) (compile_entries U g q)"
proof (cases "is_map_query q")
  case True
  then show ?thesis
    by (auto simp: compile_entries_def intro!: entries_of_add_all vision_entries_of)
next
  case False
  have "entries_of (\<lambda>e. e \<in> set (active g)) (expand g (targeted_entries U g q))"
    by (rule expand_induct)
       (auto intro: targeted_entries_of entries_of_add_all neighbours_active)
  with False show ?thesis by (simp add: compile_entries_def)
qed

lemma compile_entries_vision:
  assumes "graph_vision g = Some v"
  shows "(v, EntryVision) \<in> set (compile_entries U g q)"
proof -
  have start: "(v, EntryVision) \<in> set (vision_entries g)" using assms by (simp add: vision_entries_def)
  then have "(v, EntryVision) \<in> set (targeted_entries U g q)"
    unfolding targeted_entries_def by (intro add_all_vision)
  then have "(v, EntryVision) \<in> set (expand g (targeted_entries U g q))"
    by (rule expand_induct [where Q = "\<lambda>es. (v, EntryVision) \<in> set es"]) (rule add_all_vision)
  with start show ?thesis by (auto simp: compile_entries_def intro: add_all_vision)
qed

lemma overview_entries_of:
  "entries_of (\<lambda>e. e \<in> set (active g) \<and> au_kind (e_author e) \<noteq> Extractor) (overview_entries g)"
proof -
  let ?P = "\<lambda>e. e \<in> set (active g) \<and> au_kind (e_author e) \<noteq> Extractor"
  let ?step = "\<lambda>acc e. if e_kind e = Vision
      then (case graph_vision g of
              Some v \<Rightarrow> if e_id v = e_id e then entries_add acc e EntryVision else acc
            | None \<Rightarrow> acc)
      else entries_add acc e EntryNamed"
  have step: "entries_of ?P (?step es x)" if "entries_of ?P es" "?P x" for es x
  proof -
    have "entries_of ?P (entries_add es x r)" for r by (rule entries_of_add [OF that])
    with that(1) show ?thesis by (cases "graph_vision g") (simp_all del: entries_add.simps)
  qed
  have "entries_of ?P (foldl ?step es xs)" if "entries_of ?P es" "\<forall>x \<in> set xs. ?P x" for es xs
    using that
  proof (induction xs arbitrary: es)
    case (Cons x xs)
    show ?case
      unfolding foldl_Cons
      by (rule Cons.IH [OF step [OF Cons.prems(1)]]) (use Cons.prems(2) in simp_all)
  qed simp
  then show ?thesis unfolding overview_entries_def by simp
qed

text \<open>The entries a compiled bundle is cut from.\<close>

definition bundle_source :: "unicode \<Rightarrow> graph \<Rightarrow> compile_query \<Rightarrow> entries" where
  "bundle_source U g q =
     ranked g (if q_overview q then overview_entries g else compile_entries U g q)"

lemma bundle_source_of: "entries_of (\<lambda>e. e \<in> set (active g)) (bundle_source U g q)"
proof -
  have "entries_of (\<lambda>e. e \<in> set (active g)) (overview_entries g)"
    using overview_entries_of [of g] by (auto simp: entries_of_def)
  then show ?thesis
    using compile_entries_of by (auto simp: bundle_source_def intro: ranked_entries_of)
qed

lemma compile_targeted_shape:
  assumes "\<not> q_overview q"
  shows "\<exists>m. compile U g q checkout =
     assemble g q (is_map_query q) (compile_misses U g q)
       (map_option (missing_anchors g (ranked g (compile_entries U g q))) checkout)
       (take m (ranked g (compile_entries U g q)))
       (entry_ids (rev (drop m (ranked g (compile_entries U g q)))))"
proof -
  let ?rk = "ranked g (compile_entries U g q)"
  let ?build = "\<lambda>rk truncated (_ :: nat). assemble g q (is_map_query q) (compile_misses U g q)
    (map_option (missing_anchors g ?rk) checkout) rk truncated"
  obtain m k where "fit ?rk 0 (if q_budget_chars q = 0 then 12000 else q_budget_chars q) ?build =
      kept_first ?build ?rk m k"
    using compiled.fit_forced by blast
  then show ?thesis unfolding compile_targeted [OF assms] kept_first_def by blast
qed

lemma overview_shape:
  "\<exists>m k. overview g budget_chars =
     overview_build g (take m (ranked g (overview_entries g)))
       (entry_ids (rev (drop m (ranked g (overview_entries g))))) k"
proof -
  let ?rk = "ranked g (overview_entries g)"
  obtain m k where "fit ?rk (length (charter g)) (if budget_chars = 0 then 3000 else budget_chars)
      (overview_build g) = kept_first (overview_build g) ?rk m k"
    using overviewed.fit_forced by blast
  then show ?thesis unfolding overview_fit kept_first_def by blast
qed

lemma compile_prefix:
  "\<exists>m. b_entities (compile U g q checkout) = bundle_entities g (take m (bundle_source U g q))"
proof (cases "q_overview q")
  case True
  then show ?thesis
    using overview_shape [of g "q_budget_chars q"]
    by (auto simp: compile_overview bundle_source_def simp del: set_ranked)
next
  case False
  then show ?thesis
    using compile_targeted_shape [OF False, of U g checkout] by (auto simp: bundle_source_def)
qed

lemma in_bundle_entities:
  "be \<in> set (bundle_entities g rk) \<longleftrightarrow>
     (\<exists>e r. (e, r) \<in> set rk \<and> be_entity be = e \<and> be_reason be = r \<and>
        be_relations be = filter (\<lambda>x. r_from x = e_id e \<and> r_to x \<in> set (entry_ids rk) \<or>
          r_to x = e_id e \<and> r_from x \<in> set (entry_ids rk)) (g_relations g))"
  by (auto simp: bundle_entities_def Let_def case_prod_beta intro!: rev_image_eqI)

lemma bundle_entity_ids: "map (\<lambda>be. e_id (be_entity be)) (bundle_entities g rk) = entry_ids rk"
  by (simp add: bundle_entities_def Let_def comp_def case_prod_beta)

text \<open>
  Claim C19. A bundle serves active entities of the graph only, each once, each with exactly the
  graph's relations that link it to another entity of the same bundle.
\<close>

theorem compile_serves_active:
  "distinct (map (\<lambda>be. e_id (be_entity be)) (b_entities (compile U g q checkout))) \<and>
   (\<forall>be \<in> set (b_entities (compile U g q checkout)).
      be_entity be \<in> set (g_entities g) \<and> e_status (be_entity be) = Active \<and>
      (\<forall>x. x \<in> set (be_relations be) \<longleftrightarrow> x \<in> set (g_relations g) \<and>
         (\<exists>other \<in> set (b_entities (compile U g q checkout)).
            r_from x = e_id (be_entity be) \<and> r_to x = e_id (be_entity other) \<or>
            r_to x = e_id (be_entity be) \<and> r_from x = e_id (be_entity other))))"
proof -
  obtain m where m: "b_entities (compile U g q checkout) =
      bundle_entities g (take m (bundle_source U g q))" using compile_prefix by blast
  let ?rk = "take m (bundle_source U g q)"
  have src: "\<forall>x \<in> set ?rk. fst x \<in> set (active g)" "distinct (entry_ids ?rk)"
    using bundle_source_of [of g U q]
    by (auto simp: entries_of_def take_map [symmetric] dest: in_set_takeD)
  have ids: "i \<in> set (entry_ids ?rk) \<longleftrightarrow> (\<exists>other \<in> set (bundle_entities g ?rk). i = e_id (be_entity other))" for i
    unfolding bundle_entity_ids [of g ?rk, symmetric] by auto
  show ?thesis
    unfolding m bundle_entity_ids
  proof (intro conjI ballI)
    show "distinct (entry_ids ?rk)" by (rule src(2))
    fix be assume "be \<in> set (bundle_entities g ?rk)"
    then obtain e r where e: "(e, r) \<in> set ?rk" "be_entity be = e"
      "be_relations be = filter (\<lambda>x. r_from x = e_id e \<and> r_to x \<in> set (entry_ids ?rk) \<or>
          r_to x = e_id e \<and> r_from x \<in> set (entry_ids ?rk)) (g_relations g)"
      unfolding in_bundle_entities by blast
    with src(1) show "be_entity be \<in> set (g_entities g)" "e_status (be_entity be) = Active"
      by (auto simp: active_iff)
    show "\<forall>x. x \<in> set (be_relations be) \<longleftrightarrow> x \<in> set (g_relations g) \<and>
         (\<exists>other \<in> set (bundle_entities g ?rk).
            r_from x = e_id (be_entity be) \<and> r_to x = e_id (be_entity other) \<or>
            r_to x = e_id (be_entity be) \<and> r_from x = e_id (be_entity other))"
      unfolding e(2,3) set_filter ids by blast
  qed
qed

text \<open>
  A \<open>context_get\<close> bundle accounts for every selected entity, in rank order: what is not
  listed is named in \<open>truncated\<close>, the lowest ranked first; the project's vision is always listed.
\<close>

theorem compile_accounts_for_all:
  assumes "\<not> q_overview q"
  shows "map (\<lambda>be. e_id (be_entity be)) (b_entities (compile U g q checkout)) @
      rev (b_truncated (compile U g q checkout)) =
      map (\<lambda>x. e_id (fst x)) (ranked g (compile_entries U g q)) \<and>
    b_vision (compile U g q checkout) = graph_vision g \<and>
    (\<forall>v. graph_vision g = Some v \<longrightarrow>
       (\<exists>be \<in> set (b_entities (compile U g q checkout)). be_entity be = v \<and> be_reason be = EntryVision))"
proof -
  let ?rk = "ranked g (compile_entries U g q)"
  let ?budget = "if q_budget_chars q = 0 then 12000 else q_budget_chars q"
  let ?build = "\<lambda>rk truncated (_ :: nat). assemble g q (is_map_query q) (compile_misses U g q)
    (map_option (missing_anchors g ?rk) checkout) rk truncated"
  note run = compile_targeted [OF assms, of U g checkout]
  have "map (\<lambda>be. e_id (be_entity be)) (b_entities (fit ?rk 0 ?budget ?build)) @
      rev (b_truncated (fit ?rk 0 ?budget ?build)) = entry_ids ?rk"
    using compiled.fit_accounts_for_all [where rk = ?rk and sheddable = 0 and budget = ?budget]
    by (auto simp: append_take_drop_id)
  moreover have "b_vision (fit ?rk 0 ?budget ?build) = graph_vision g"
    using compile_targeted_shape [OF assms, of U g checkout] unfolding run by auto
  moreover have "\<exists>be \<in> set (b_entities (fit ?rk 0 ?budget ?build)). be_entity be = v \<and> be_reason be = EntryVision"
    if "graph_vision g = Some v" for v
    by (rule compiled.fit_keeps_vision) (simp add: compile_entries_vision [OF that])
  ultimately show ?thesis unfolding run by blast
qed

section \<open>Which assertions are served\<close>

text \<open>What \<open>assemble\<close> serves for one entry: current records about it, implementation ones only on request.\<close>

definition serves :: "graph \<Rightarrow> bool \<Rightarrow> entity \<times> entry_reason \<Rightarrow> assertion \<Rightarrow> bool" where
  "serves g is_map x a \<longleftrightarrow>
     a \<in> set (g_assertions g) \<and> is_current g a \<and> e_id (fst x) \<in> set (a_about a) \<and>
     (a_domain a \<noteq> Implementation \<or> \<not> is_map \<and> snd x \<noteq> EntryNeighbour)"

lemma heads_about_iff:
  "a \<in> set (heads_about g i) \<longleftrightarrow> a \<in> set (g_assertions g) \<and> i \<in> set (a_about a) \<and> is_current g a"
  by (auto simp: heads_about_def)

text \<open>The heads collected so far: each once, each wanted, and none of the wanted missing.\<close>

definition heads_ok :: "(assertion \<Rightarrow> bool) \<Rightarrow> assertion list \<Rightarrow> bool" where
  "heads_ok W hs \<longleftrightarrow>
     distinct (map a_id hs) \<and> (\<forall>h \<in> set hs. W h) \<and> (\<forall>a. W a \<longrightarrow> a_id a \<in> a_id ` set hs)"

lemma assemble_step_ok:
  assumes "heads_ok W (fst st)"
  shows "heads_ok (\<lambda>x. W x \<or> x = a \<and> (targeted \<or> a_domain a \<noteq> Implementation))
    (fst (assemble_step is_map targeted st a))"
  using assms by (cases st) (auto simp: heads_ok_def assemble_step_def intro: rev_image_eqI)

lemma heads_ok_cong: "heads_ok W hs \<Longrightarrow> (\<And>a. W a \<longleftrightarrow> W' a) \<Longrightarrow> heads_ok W' hs"
  by (auto simp: heads_ok_def)

lemma assemble_inner_ok:
  assumes "heads_ok W (fst st)"
  shows "heads_ok (\<lambda>x. W x \<or> x \<in> set as \<and> (targeted \<or> a_domain x \<noteq> Implementation))
    (fst (foldl (assemble_step is_map targeted) st as))"
  using assms
proof (induction as arbitrary: W st)
  case (Cons a as)
  show ?case
    unfolding foldl_Cons
    by (rule heads_ok_cong [OF Cons.IH [OF assemble_step_ok [OF Cons.prems]]]) auto
qed (auto simp: heads_ok_def)

lemma assemble_heads_ok:
  "heads_ok (\<lambda>a. \<exists>x \<in> set rk. serves g is_map x a) (fst (assemble_heads g is_map rk))"
proof -
  let ?step = "\<lambda>st (e, reason). foldl (assemble_step is_map (\<not> is_map \<and> reason \<noteq> EntryNeighbour)) st
      (heads_about g (e_id e))"
  have "heads_ok (\<lambda>a. W a \<or> (\<exists>x \<in> set rk. serves g is_map x a)) (fst (foldl ?step st rk))"
    if "heads_ok W (fst st)" for W st
    using that
  proof (induction rk arbitrary: W st)
    case (Cons x rk)
    obtain e r where x: "x = (e, r)" by (cases x)
    show ?case
      unfolding foldl_Cons x prod.case
      by (rule heads_ok_cong [OF Cons.IH [OF assemble_inner_ok [OF Cons.prems]]])
         (auto simp: serves_def heads_about_iff)
  qed simp
  from this [of "\<lambda>_. False" "([], {})"] show ?thesis
    by (simp add: assemble_heads_def heads_ok_def)
qed

text \<open>
  The assertions of a \<open>context_get\<close> bundle are exactly the current ones about a served
  entity, each once; implementation-level ones are served only for an entity the caller asked
  for, never for a neighbour and never in the map.
\<close>

theorem compile_serves_current:
  assumes "\<not> q_overview q" and "b = compile U g q checkout"
  shows "distinct (map (\<lambda>ba. a_id (ba_assertion ba)) (b_assertions b)) \<and>
    (\<forall>ba \<in> set (b_assertions b).
       ba_assertion ba \<in> set (g_assertions g) \<and> is_current g (ba_assertion ba)) \<and>
    (\<forall>i. (\<exists>ba \<in> set (b_assertions b). a_id (ba_assertion ba) = i) \<longleftrightarrow>
       (\<exists>a \<in> set (g_assertions g). a_id a = i \<and> is_current g a \<and>
          (\<exists>be \<in> set (b_entities b). e_id (be_entity be) \<in> set (a_about a) \<and>
             (a_domain a \<noteq> Implementation \<or> \<not> is_map_query q \<and> be_reason be \<noteq> EntryNeighbour))))"
proof -
  obtain m missing truncated where b: "b = assemble g q (is_map_query q) (compile_misses U g q)
      missing (take m (ranked g (compile_entries U g q))) truncated"
    using compile_targeted_shape [OF assms(1), of U g checkout] assms(2) by blast
  define rk where "rk = take m (ranked g (compile_entries U g q))"
  define hs where "hs = fst (assemble_heads g (is_map_query q) rk)"
  have served: "b_assertions b = map (flag_assertion g (q_include_history q)) hs"
    and listed: "b_entities b = bundle_entities g rk"
    by (simp_all add: b rk_def hs_def)
  have ok: "heads_ok (\<lambda>a. \<exists>x \<in> set rk. serves g (is_map_query q) x a) hs"
    unfolding hs_def by (rule assemble_heads_ok)
  have wanted: "(\<exists>x \<in> set rk. serves g (is_map_query q) x a) \<longleftrightarrow>
      a \<in> set (g_assertions g) \<and> is_current g a \<and>
      (\<exists>be \<in> set (b_entities b). e_id (be_entity be) \<in> set (a_about a) \<and>
         (a_domain a \<noteq> Implementation \<or> \<not> is_map_query q \<and> be_reason be \<noteq> EntryNeighbour))" for a
    unfolding listed bundle_entities_def Let_def by (force simp: serves_def)
  have ids: "(\<exists>ba \<in> set (b_assertions b). a_id (ba_assertion ba) = i) \<longleftrightarrow> i \<in> a_id ` set hs" for i
    unfolding served by auto
  have "map (\<lambda>ba. a_id (ba_assertion ba)) (b_assertions b) = map a_id hs"
    unfolding served by simp
  moreover have "\<forall>ba \<in> set (b_assertions b). \<exists>x \<in> set rk. serves g (is_map_query q) x (ba_assertion ba)"
    using ok unfolding served by (auto simp: heads_ok_def)
  moreover have "i \<in> a_id ` set hs \<longleftrightarrow> (\<exists>a. a_id a = i \<and> (\<exists>x \<in> set rk. serves g (is_map_query q) x a))" for i
    using ok unfolding heads_ok_def by blast
  ultimately show ?thesis
    using ok unfolding ids wanted heads_ok_def by simp blast
qed

section \<open>Contradictions\<close>

lemma add_contradicted_mem:
  "i \<in> set (add_contradicted g self out is) \<longleftrightarrow>
     i \<in> set out \<or> i \<in> set is \<and> i \<noteq> self \<and> (\<exists>x. graph_assertion g i = Some x \<and> is_current g x)"
  by (induction g self out "is" rule: add_contradicted.induct) (auto split: option.splits)

lemma contradicted_by_iff:
  "i \<in> set (contradicted_by g a) \<longleftrightarrow>
     i \<noteq> a_id a \<and> (\<exists>x. graph_assertion g i = Some x \<and> is_current g x) \<and>
     (i \<in> set (a_contradicts a) \<or> (\<exists>x \<in> set (g_assertions g). a_id x = i \<and> a_id a \<in> set (a_contradicts x)))"
  unfolding contradicted_by_def add_contradicted_mem by auto

definition unordered :: "ctx_id \<Rightarrow> ctx_id \<Rightarrow> ctx_id \<times> ctx_id" where
  "unordered x y = (if x < y then (x, y) else (y, x))"

definition pairs_ok :: "(ctx_id \<times> ctx_id) set \<Rightarrow> pair_state \<Rightarrow> bool" where
  "pairs_ok P st \<longleftrightarrow>
     distinct (fst st) \<and> set (fst st) = P \<and> map (\<lambda>c. (cn_a c, cn_b c)) (snd st) = rev (fst st)"

lemma add_pair_ok: "pairs_ok P st \<Longrightarrow> pairs_ok (insert (unordered self other) P) (add_pair self st other)"
  by (cases st) (auto simp: pairs_ok_def add_pair_def unordered_def Let_def insert_absorb)

lemma add_pairs_ok:
  "pairs_ok P st \<Longrightarrow> pairs_ok (P \<union> unordered self ` set others) (foldl (add_pair self) st others)"
proof (induction others arbitrary: P st)
  case (Cons other others)
  show ?case using Cons.IH [OF add_pair_ok [OF Cons.prems]] by simp
qed simp

lemma bundle_pairs_ok:
  "pairs_ok (\<Union>a \<in> set heads. unordered (a_id a) ` set (contradicted_by g a)) (bundle_pairs g heads)"
proof -
  have "pairs_ok (P \<union> (\<Union>a \<in> set heads. unordered (a_id a) ` set (contradicted_by g a)))
      (foldl (\<lambda>st a. foldl (add_pair (a_id a)) st (contradicted_by g a)) st heads)"
    if "pairs_ok P st" for P st
    using that
  proof (induction heads arbitrary: P st)
    case (Cons a heads)
    show ?case using Cons.IH [OF add_pairs_ok [OF Cons.prems]] by (simp add: Un_assoc)
  qed simp
  from this [of "{}" "([], [])"] show ?thesis by (simp add: bundle_pairs_def pairs_ok_def)
qed

lemma unordered_eq: "x \<noteq> y \<Longrightarrow> unordered x y = (s, t) \<longleftrightarrow> s < t \<and> (s = x \<and> t = y \<or> s = y \<and> t = x)"
  by (auto simp: unordered_def)

text \<open>
  A \<open>context_get\<close> bundle lists every contradiction between a served assertion and another
  current one, recorded by either side, exactly once, as the pair in order of ids, and lists
  nothing else.
\<close>

theorem compile_contradictions:
  assumes "\<not> q_overview q" and "b = compile U g q checkout"
  shows "distinct (map (\<lambda>c. (cn_a c, cn_b c)) (b_contradictions b)) \<and>
    (\<forall>x y. (\<exists>c \<in> set (b_contradictions b). cn_a c = x \<and> cn_b c = y) \<longleftrightarrow>
       x < y \<and>
       (\<exists>ba \<in> set (b_assertions b). \<exists>i o'.
          {x, y} = {a_id (ba_assertion ba), i} \<and> graph_assertion g i = Some o' \<and> is_current g o' \<and>
          (i \<in> set (a_contradicts (ba_assertion ba)) \<or>
           (\<exists>z \<in> set (g_assertions g). a_id z = i \<and> a_id (ba_assertion ba) \<in> set (a_contradicts z)))))"
proof -
  obtain m missing truncated where b: "b = assemble g q (is_map_query q) (compile_misses U g q)
      missing (take m (ranked g (compile_entries U g q))) truncated"
    using compile_targeted_shape [OF assms(1), of U g checkout] assms(2) by blast
  define hs where
    "hs = fst (assemble_heads g (is_map_query q) (take m (ranked g (compile_entries U g q))))"
  have served: "b_assertions b = map (flag_assertion g (q_include_history q)) hs"
    and cs: "b_contradictions b = snd (bundle_pairs g hs)"
    by (simp_all add: b hs_def)
  have ok: "pairs_ok (\<Union>a \<in> set hs. unordered (a_id a) ` set (contradicted_by g a)) (bundle_pairs g hs)"
    by (rule bundle_pairs_ok)
  have "(\<exists>c \<in> set (b_contradictions b). cn_a c = x \<and> cn_b c = y) \<longleftrightarrow>
      (x, y) \<in> (\<lambda>c. (cn_a c, cn_b c)) ` set (b_contradictions b)" for x y by auto
  also have "(\<lambda>c. (cn_a c, cn_b c)) ` set (b_contradictions b) =
      (\<Union>a \<in> set hs. unordered (a_id a) ` set (contradicted_by g a))"
    using ok unfolding cs pairs_ok_def by (metis list.set_map set_rev)
  also have "(x, y) \<in> (\<Union>a \<in> set hs. unordered (a_id a) ` set (contradicted_by g a)) \<longleftrightarrow>
      x < y \<and> (\<exists>a \<in> set hs. \<exists>i. i \<in> set (contradicted_by g a) \<and> {x, y} = {a_id a, i})" for x y
  proof -
    have "(x, y) = unordered (a_id a) i \<longleftrightarrow> x < y \<and> {x, y} = {a_id a, i}"
      if "i \<in> set (contradicted_by g a)" for a i
      using that unordered_eq [of "a_id a" i x y]
      by (auto simp: contradicted_by_iff doubleton_eq_iff)
    then show ?thesis by (auto simp: image_iff)
  qed
  finally have pairs: "(\<exists>c \<in> set (b_contradictions b). cn_a c = x \<and> cn_b c = y) \<longleftrightarrow>
      x < y \<and> (\<exists>a \<in> set hs. \<exists>i. i \<in> set (contradicted_by g a) \<and> {x, y} = {a_id a, i})" for x y .
  have "distinct (map (\<lambda>c. (cn_a c, cn_b c)) (b_contradictions b))"
    using ok unfolding cs pairs_ok_def by simp
  moreover have "x < y \<and> (\<exists>a \<in> set hs. \<exists>i. i \<in> set (contradicted_by g a) \<and> {x, y} = {a_id a, i}) \<longleftrightarrow>
      x < y \<and> (\<exists>ba \<in> set (b_assertions b). \<exists>i o'.
          {x, y} = {a_id (ba_assertion ba), i} \<and> graph_assertion g i = Some o' \<and> is_current g o' \<and>
          (i \<in> set (a_contradicts (ba_assertion ba)) \<or>
           (\<exists>z \<in> set (g_assertions g). a_id z = i \<and> a_id (ba_assertion ba) \<in> set (a_contradicts z))))"
    (is "?l \<longleftrightarrow> ?r") for x y
  proof -
    have "i \<noteq> a_id a" if "{x, y} = {a_id a, i}" "x < y" for a i
      using that by (auto simp: doubleton_eq_iff)
    then show "?l \<longleftrightarrow> ?r"
      unfolding served contradicted_by_iff set_map ball_simps bex_simps ba_assertion_flag by blast
  qed
  ultimately show ?thesis unfolding pairs by blast
qed

section \<open>The overview\<close>

abbreviation taken_of :: "(ctx_id \<rightharpoonup> nat) \<Rightarrow> ctx_id \<Rightarrow> nat" where
  "taken_of taken i \<equiv> (case taken i of None \<Rightarrow> 0 | Some n \<Rightarrow> n)"

definition slots :: "ctx_id \<Rightarrow> assertion list \<Rightarrow> nat" where
  "slots i as = sum_list (map (\<lambda>a. count_list (a_about a) i) as)"

lemma taken_of_bumps: "taken_of (foldl bump_taken taken is) i = taken_of taken i + count_list is i"
  by (induction "is" arbitrary: taken) (auto simp: bump_taken_def)

lemma has_slot_iff:
  assumes "0 < cap"
  shows "(case taken i of None \<Rightarrow> True | Some n \<Rightarrow> n < cap) \<longleftrightarrow> taken_of taken i < cap"
  using assms by (auto split: option.splits)

lemma per_entity_loop_skip:
  "\<not> (\<forall>i \<in> set (a_about a). (case taken i of None \<Rightarrow> True | Some n \<Rightarrow> n < cap)) \<Longrightarrow>
   per_entity_loop cap taken (a # rest) = per_entity_loop cap taken rest"
  by (simp only: per_entity_loop.simps if_False)

lemma per_entity_loop_cap:
  assumes "0 < cap"
  shows "length (filter (\<lambda>a. i \<in> set (a_about a)) (per_entity_loop cap taken rk)) \<le> cap - taken_of taken i"
  using assms
proof (induction cap taken rk rule: per_entity_loop.induct)
  case (2 cap taken a rest)
  show ?case
  proof (cases "\<forall>i \<in> set (a_about a). (case taken i of None \<Rightarrow> True | Some n \<Rightarrow> n < cap)")
    case True
    have "i \<in> set (a_about a) \<Longrightarrow> taken_of taken i < cap \<and> 0 < count_list (a_about a) i"
      using True has_slot_iff [OF 2(3)] by (auto simp: count_list_0_iff intro: gr0I)
    with "2.IH"(1) [OF True 2(3)] True show ?thesis
      unfolding taken_of_bumps by (cases "i \<in> set (a_about a)") auto
  next
    case False
    from "2.IH"(2) [OF False 2(3)] show ?thesis unfolding per_entity_loop_skip [OF False] .
  qed
qed simp

lemma per_entity_loop_full:
  assumes "0 < cap" and "a \<in> set rk" and "a \<notin> set (per_entity_loop cap taken rk)"
  shows "\<exists>i \<in> set (a_about a). cap \<le> taken_of taken i + slots i (per_entity_loop cap taken rk)"
  using assms
proof (induction cap taken rk rule: per_entity_loop.induct)
  case (2 cap taken x rest)
  show ?case
  proof (cases "\<forall>i \<in> set (a_about x). (case taken i of None \<Rightarrow> True | Some n \<Rightarrow> n < cap)")
    case True
    with 2(4,5) have "a \<in> set rest" "a \<notin> set (per_entity_loop cap (foldl bump_taken taken (a_about x)) rest)"
      by auto
    from "2.IH"(1) [OF True 2(3) this] True show ?thesis
      unfolding taken_of_bumps by (auto simp: slots_def add.assoc)
  next
    case False
    show ?thesis
    proof (cases "a = x")
      case True
      with False has_slot_iff [OF 2(3)] show ?thesis
        by (auto simp: not_less intro: trans_le_add1)
    next
      case other: False
      with "2.IH"(2) [OF False 2(3)] 2(4,5) show ?thesis
        unfolding per_entity_loop_skip [OF False] by auto
    qed
  qed
qed simp

lemma per_entity_loop_subset: "set (per_entity_loop cap taken rk) \<subseteq> set rk"
  by (induction cap taken rk rule: per_entity_loop.induct) auto

lemma per_entity_loop_sorted: "sorted (map f rk) \<Longrightarrow> sorted (map f (per_entity_loop cap taken rk))"
proof (induction cap taken rk rule: per_entity_loop.induct)
  case (2 cap taken a rest)
  have "sorted (map f (a # per_entity_loop cap taken' rest))"
    if "sorted (map f (per_entity_loop cap taken' rest))" for taken'
    using that 2(3) per_entity_loop_subset [of cap taken' rest] by auto
  with 2 show ?case by auto
qed simp

lemma charter_mem:
  "a \<in> set (charter g) \<Longrightarrow> a \<in> set (g_assertions g) \<and> is_current g a \<and> a_domain a \<noteq> Implementation"
  using per_entity_loop_subset by (fastforce simp: charter_def per_entity_def)

text \<open>
  The charter of the overview holds current records above the implementation level, the
  user's own first, at most two about any one entity; a record is left out only when some
  entity it is about already has its two slots taken.
\<close>

theorem charter_correct:
  "(\<forall>a \<in> set (charter g). a \<in> set (g_assertions g) \<and> is_current g a \<and> a_domain a \<noteq> Implementation) \<and>
   sorted (map charter_rank (charter g)) \<and>
   (\<forall>i. length (filter (\<lambda>a. i \<in> set (a_about a)) (charter g)) \<le> 2) \<and>
   (\<forall>a \<in> set (g_assertions g). is_current g a \<longrightarrow> a_domain a \<noteq> Implementation \<longrightarrow> a \<notin> set (charter g) \<longrightarrow>
      (\<exists>i \<in> set (a_about a). 2 \<le> sum_list (map (\<lambda>x. count_list (a_about x) i) (charter g))))"
proof (intro conjI allI ballI impI)
  let ?rk = "sort_key charter_rank
    (filter (\<lambda>a. a_domain a \<noteq> Implementation \<and> is_current g a) (g_assertions g))"
  have charter: "charter g = per_entity_loop 2 Map.empty ?rk"
    by (simp add: charter_def per_entity_def charter_per_entity_def)
  show "a \<in> set (g_assertions g)" "is_current g a" "a_domain a \<noteq> Implementation" if "a \<in> set (charter g)" for a
    using charter_mem [OF that] by simp_all
  show "sorted (map charter_rank (charter g))"
    unfolding charter by (rule per_entity_loop_sorted) simp
  show "length (filter (\<lambda>a. i \<in> set (a_about a)) (charter g)) \<le> 2" for i
    using per_entity_loop_cap [of 2 i Map.empty ?rk] by (simp add: charter)
  fix a assume a: "a \<in> set (g_assertions g)" "is_current g a" "a_domain a \<noteq> Implementation"
    "a \<notin> set (charter g)"
  then have "a \<in> set ?rk" by simp
  with a(4) show "\<exists>i \<in> set (a_about a). 2 \<le> sum_list (map (\<lambda>x. count_list (a_about x) i) (charter g))"
    using per_entity_loop_full [of 2 a ?rk Map.empty] by (simp add: charter slots_def)
qed

lemma tier_0 [simp]: "tier r = 0 \<longleftrightarrow> r = EntryVision"
  by (cases r) auto

lemma overview_step_vision:
  assumes "graph_vision g = Some v" and "e_kind e = Vision" and "e_id e = e_id v" and "e \<in> set xs"
  shows "\<exists>w. (w, EntryVision) \<in> set (foldl (\<lambda>acc e. if e_kind e = Vision
      then (case graph_vision g of
              Some v \<Rightarrow> if e_id v = e_id e then entries_add acc e EntryVision else acc
            | None \<Rightarrow> acc)
      else entries_add acc e EntryNamed) es xs) \<and> e_id w = e_id v"
  (is "\<exists>w. (w, EntryVision) \<in> set (foldl ?step es xs) \<and> _")
proof -
  have keep: "(w, EntryVision) \<in> set (?step es x)" if "(w, EntryVision) \<in> set es" for w es x
    using entries_add_vision [OF that, of x] that
    by (cases "graph_vision g") (simp_all del: entries_add.simps)
  then have keeps: "(w, EntryVision) \<in> set (foldl ?step es xs)" if "(w, EntryVision) \<in> set es" for w es xs
    using that by (induction xs arbitrary: es) (simp_all del: entries_add.simps)
  have added: "\<exists>w. (w, EntryVision) \<in> set (entries_add es e EntryVision) \<and> e_id w = e_id e" for es
    by (induction es e EntryVision rule: entries_add.induct) auto
  from assms(4) show ?thesis
  proof (induction xs arbitrary: es)
    case (Cons x xs)
    show ?case
    proof (cases "x = e")
      case True
      have step: "?step es x = entries_add es e EntryVision" using assms True by simp
      obtain w where "(w, EntryVision) \<in> set (entries_add es e EntryVision)" "e_id w = e_id e"
        using added by blast
      with keeps [of w "entries_add es e EntryVision" xs] assms(3) show ?thesis
        unfolding foldl_Cons step by auto
    next
      case False
      with Cons.prems have "e \<in> set xs" by simp
      from Cons.IH [OF this] show ?thesis unfolding foldl_Cons .
    qed
  qed simp
qed

lemma overview_entries_vision:
  assumes "graph_vision g = Some v" and "au_kind (e_author v) \<noteq> Extractor"
  shows "\<exists>w. (w, EntryVision) \<in> set (overview_entries g) \<and> e_id w = e_id v"
  unfolding overview_entries_def
  using assms graph_vision_SomeD [OF assms(1)]
  by (intro overview_step_vision [OF assms(1), of v]) (auto simp: active_def)

lemma overview_entries_vision_kind:
  "(e, EntryVision) \<in> set (overview_entries g) \<Longrightarrow> \<exists>v. graph_vision g = Some v \<and> e_id v = e_id e"
proof -
  let ?step = "\<lambda>acc e. if e_kind e = Vision
      then (case graph_vision g of
              Some v \<Rightarrow> if e_id v = e_id e then entries_add acc e EntryVision else acc
            | None \<Rightarrow> acc)
      else entries_add acc e EntryNamed"
  let ?Q = "\<lambda>es :: entries. \<forall>e. (e, EntryVision) \<in> set es \<longrightarrow>
      (\<exists>v. graph_vision g = Some v \<and> e_id v = e_id e)"
  have only: "(e, EntryVision) \<in> set (entries_add es x r) \<Longrightarrow>
      (e, EntryVision) \<in> set es \<or> e_id e = e_id x \<and> r = EntryVision" for e es x r
    by (induction es x r rule: entries_add.induct) (auto split: if_splits)
  have step: "?Q (?step es x)" if "?Q es" for es x
    using that by (cases "graph_vision g") (auto simp del: entries_add.simps dest!: only)
  have "?Q (foldl ?step es xs)" if "?Q es" for es xs
    using that
  proof (induction xs arbitrary: es)
    case (Cons x xs)
    show ?case unfolding foldl_Cons by (rule Cons.IH [OF step [OF Cons.prems]])
  qed simp
  from this [of "[]"] show "(e, EntryVision) \<in> set (overview_entries g) \<Longrightarrow>
   \<exists>v. graph_vision g = Some v \<and> e_id v = e_id e"
    unfolding overview_entries_def by simp
qed

text \<open>
  The overview shown at spawn never lists an entity an extractor minted; its vision is the
  project's active vision, whenever that one is not extractor-minted, whatever the budget. The
  assertions shown are the highest ranked of the charter, shed only once every other entity is
  gone, and each entity or assertion left out is named in \<open>truncated\<close>.
\<close>

theorem overview_serves:
  assumes "b = overview g budget_chars"
  shows "(\<forall>be \<in> set (b_entities b). be_entity be \<in> set (g_entities g) \<and>
      e_status (be_entity be) = Active \<and> au_kind (e_author (be_entity be)) \<noteq> Extractor) \<and>
    (\<forall>w. b_vision b = Some w \<longrightarrow> (\<exists>be \<in> set (b_entities b). be_entity be = w) \<and>
       (\<exists>v. graph_vision g = Some v \<and> e_id v = e_id w)) \<and>
    (\<forall>v. graph_vision g = Some v \<longrightarrow> au_kind (e_author v) \<noteq> Extractor \<longrightarrow>
       (\<exists>w. b_vision b = Some w \<and> e_id w = e_id v)) \<and>
    (\<exists>k. map ba_assertion (b_assertions b) = take k (charter g) \<and>
       (k < length (charter g) \<longrightarrow> (\<forall>be \<in> set (b_entities b). be_reason be = EntryVision)) \<and>
       map (\<lambda>be. e_id (be_entity be)) (b_entities b) =
         take (length (b_entities b)) (map (\<lambda>x. e_id (fst x)) (ranked g (overview_entries g))) \<and>
       rev (b_truncated b) = map a_id (drop k (charter g)) @
         drop (length (b_entities b)) (map (\<lambda>x. e_id (fst x)) (ranked g (overview_entries g))))"
proof -
  let ?rk = "ranked g (overview_entries g)"
  obtain m k where mk: "fit_stops (overview_build g)
      (if budget_chars = 0 then 3000 else budget_chars) ?rk (length ?rk) (length (charter g)) m k"
    "b = kept_first (overview_build g) ?rk m k"
    using overviewed.fit_spec [where rk = ?rk and sheddable = "length (charter g)"
        and budget = "if budget_chars = 0 then 3000 else budget_chars"]
    unfolding assms overview_fit by blast
  then have m: "m \<le> length ?rk" and vis: "k < length (charter g) \<Longrightarrow> m = 0 \<or> snd (?rk ! (m - 1)) = EntryVision"
    by (simp_all add: fit_stops_def)
  have ents: "b_entities b = bundle_entities g (take m ?rk)"
    and asserts: "b_assertions b = map (flag_assertion g False) (take k (charter g))"
    and trunc: "rev (b_truncated b) = map a_id (drop k (charter g)) @ entry_ids (drop m ?rk)"
    and vision: "b_vision b = map_option fst (List.find (\<lambda>(_, r). r = EntryVision) (take m ?rk))"
    unfolding mk(2) kept_first_def by (simp_all add: rev_map)
  have listed: "\<exists>r. (be_entity be, r) \<in> set ?rk \<and> be_reason be = r" if "be \<in> set (b_entities b)" for be
    using that unfolding ents in_bundle_entities by (auto dest: in_set_takeD)
  have "be_entity be \<in> set (g_entities g) \<and> e_status (be_entity be) = Active \<and>
      au_kind (e_author (be_entity be)) \<noteq> Extractor" if "be \<in> set (b_entities b)" for be
    using listed [OF that] overview_entries_of [of g] by (auto simp: entries_of_def active_iff)
  moreover have "(\<exists>be \<in> set (b_entities b). be_entity be = w) \<and> (\<exists>v. graph_vision g = Some v \<and> e_id v = e_id w)"
    if "b_vision b = Some w" for w
  proof -
    from that have w: "(w, EntryVision) \<in> set (take m ?rk)"
      unfolding vision by (auto dest!: find_SomeD)
    then have "(w, EntryVision) \<in> set (overview_entries g)" using in_set_takeD by fastforce
    moreover have "\<exists>be \<in> set (b_entities b). be_entity be = w"
      using w unfolding ents bundle_entities_def Let_def by force
    ultimately show ?thesis using overview_entries_vision_kind by blast
  qed
  moreover have "\<exists>w. b_vision b = Some w \<and> e_id w = e_id v"
    if v: "graph_vision g = Some v" "au_kind (e_author v) \<noteq> Extractor" for v
  proof -
    obtain w where w: "(w, EntryVision) \<in> set ?rk"
      using overview_entries_vision [OF v] by auto
    then obtain i where i: "i < length ?rk" "?rk ! i = (w, EntryVision)"
      by (auto simp: in_set_conv_nth simp del: set_ranked)
    have "i < m"
    proof (rule ccontr)
      assume "\<not> i < m"
      with mk(1) i(1) have "snd (?rk ! i) \<noteq> EntryVision" by (simp add: fit_stops_def)
      with i(2) show False by simp
    qed
    with i have "(w, EntryVision) \<in> set (take m ?rk)"
      by (auto simp: in_set_conv_nth intro!: exI [of _ i])
    then have "List.find (\<lambda>(_, r). r = EntryVision) (take m ?rk) \<noteq> None"
      by (auto simp: find_None_iff)
    then obtain y where y: "List.find (\<lambda>(_, r). r = EntryVision) (take m ?rk) = Some y" by blast
    define x where "x = fst y"
    have x: "b_vision b = Some x" "(x, EntryVision) \<in> set (take m ?rk)"
      using y find_SomeD [OF y] by (auto simp: vision x_def)
    then have "(x, EntryVision) \<in> set (overview_entries g)" using in_set_takeD by fastforce
    with x(1) v(1) overview_entries_vision_kind show ?thesis by force
  qed
  moreover have "length (b_entities b) = m"
    using m by (simp add: ents bundle_entities_def Let_def)
  moreover have "\<forall>be \<in> set (b_entities b). be_reason be = EntryVision" if "k < length (charter g)"
    using ranked_vision_prefix [OF m ranked_sorted vis [OF that]]
    unfolding ents by (force simp: in_bundle_entities)
  ultimately show ?thesis
    using asserts trunc bundle_entity_ids [of g "take m ?rk"]
    by (intro conjI exI [of _ k]) (simp_all add: drop_map take_map ents comp_def)
qed

end
