(* ===== verification/Ctx_Tidy.thy ===== *)
theory Ctx_Tidy
  imports Ctx_Resolve
begin

text \<open>
  The tidy pass (\<open>context/tidy.rs\<close>): the current assertions today's rules would not have landed,
  a merged PR's twin of an earlier record and a head that restates a retired one.
\<close>

datatype tidy_reason = TwinOf | RestatesRetired

record tidy_candidate =
  tc_retract :: ctx_id
  tc_statement :: string
  tc_reason :: tidy_reason
  tc_of :: ctx_id
  tc_of_statement :: string

definition tidy_reasoning :: "tidy_candidate \<Rightarrow> string" where
  "tidy_reasoning c =
     (case tc_reason c of
        TwinOf \<Rightarrow> ''tidy: twin of '' @ tc_of c
      | RestatesRetired \<Rightarrow> ''tidy: restates retired '' @ tc_of c)"

definition same_shape :: "assertion \<Rightarrow> assertion \<Rightarrow> bool" where
  "same_shape a b \<longleftrightarrow>
     a_kind a = a_kind b \<and> a_domain a = a_domain b \<and> a_stance a = a_stance b \<and>
     (\<exists>i \<in> set (a_about a). i \<in> set (a_about b))"

definition twin_of :: "unicode \<Rightarrow> assertion \<Rightarrow> assertion \<Rightarrow> bool" where
  "twin_of U a b \<longleftrightarrow>
     a_id b \<noteq> a_id a \<and> so_kind (a_source b) \<noteq> Pr \<and>
     pv_workspace_id (a_provenance b) \<noteq> None \<and>
     pv_workspace_id (a_provenance b) = pv_workspace_id (a_provenance a) \<and>
     a_recorded_at b \<le> a_recorded_at a \<and> same_shape a b \<and>
     similar U (a_statement a) (a_statement b)"

definition retired_by_a_successor :: "unicode \<Rightarrow> graph \<Rightarrow> assertion \<Rightarrow> assertion option" where
  "retired_by_a_successor U g a =
     (let own = map a_id (history g (a_id a))
      in List.find
           (\<lambda>old. a_id old \<noteq> a_id a \<and> is_live (a_status old) \<and> \<not> is_current g old \<and>
              a_id old \<notin> set own \<and> same_shape a old \<and>
              similar U (a_statement a) (a_statement old))
           (g_assertions g))"

definition candidate :: "assertion \<Rightarrow> tidy_reason \<Rightarrow> assertion \<Rightarrow> tidy_candidate" where
  "candidate a reason of_a =
     \<lparr>tc_retract = a_id a, tc_statement = a_statement a, tc_reason = reason,
      tc_of = a_id of_a, tc_of_statement = a_statement of_a\<rparr>"

text \<open>The body of the \<open>filter_map\<close> in \<open>candidates\<close>.\<close>

definition candidate_for ::
  "unicode \<Rightarrow> graph \<Rightarrow> assertion list \<Rightarrow> assertion \<Rightarrow> tidy_candidate option" where
  "candidate_for U g current a =
     (case retired_by_a_successor U g a of
        Some old \<Rightarrow> Some (candidate a RestatesRetired old)
      | None \<Rightarrow>
          if so_kind (a_source a) = Pr
          then map_option (candidate a TwinOf) (List.find (twin_of U a) current)
          else None)"

definition candidates :: "unicode \<Rightarrow> graph \<Rightarrow> tidy_candidate list" where
  "candidates U g =
     (let current = filter (is_current g) (g_assertions g)
      in List.map_filter (candidate_for U g current) current)"

lemma candidate_fields [simp]:
  "tc_retract (candidate a r b) = a_id a" "tc_of (candidate a r b) = a_id b"
  "tc_reason (candidate a r b) = r"
  by (simp_all add: candidate_def)

lemma retired_by_a_successorD:
  "retired_by_a_successor U g a = Some old \<Longrightarrow>
   old \<in> set (g_assertions g) \<and> a_id old \<noteq> a_id a \<and> is_live (a_status old) \<and> \<not> is_current g old \<and>
   old \<notin> set (history g (a_id a)) \<and> same_shape a old \<and> similar U (a_statement a) (a_statement old)"
  unfolding retired_by_a_successor_def Let_def by (drule find_SomeD) auto

lemma candidate_for_cases:
  assumes "candidate_for U g current a = Some c"
  obtains (retired) old where "retired_by_a_successor U g a = Some old" "c = candidate a RestatesRetired old"
    | (twin) b where "so_kind (a_source a) = Pr" "b \<in> set current" "twin_of U a b" "c = candidate a TwinOf b"
  using assms by (auto simp: candidate_for_def split: option.splits if_splits dest: find_SomeD)

lemma candidates_mem:
  "c \<in> set (candidates U g) \<longleftrightarrow>
     (\<exists>a \<in> set (g_assertions g). is_current g a \<and>
        candidate_for U g (filter (is_current g) (g_assertions g)) a = Some c)"
  by (auto simp: candidates_def Let_def set_map_filter_iff)

lemma candidates_retract_current:
  "c \<in> set (candidates U g) \<Longrightarrow> \<exists>a \<in> set (g_assertions g). is_current g a \<and> tc_retract c = a_id a"
  unfolding candidates_mem by (auto elim!: candidate_for_cases)

lemma distinct_map_filter_ids:
  assumes "\<And>x y. f x = Some y \<Longrightarrow> k y = h x" and "distinct (map h xs)"
  shows "distinct (map k (List.map_filter f xs))"
  using assms(2)
  by (induction xs)
     (auto simp: map_filter_simps set_map_filter_iff assms(1) split: option.splits)

text \<open>
  The tidy pass lists a current assertion at most once, and only next to another live record of
  the same shape in similar words: for a twin, an earlier current one of the same workspace that
  is no PR's line, for a restatement, one that was replaced and is not behind the assertion
  itself. The record a twin is judged against is never listed as a twin, so retracting every
  twin leaves each of those decisions stated.
\<close>

theorem candidates_sound:
  assumes "distinct (map a_id (g_assertions g))"
  shows "distinct (map tc_retract (candidates U g)) \<and>
    (\<forall>c \<in> set (candidates U g).
       \<exists>a \<in> set (g_assertions g). \<exists>b \<in> set (g_assertions g).
         a_id a = tc_retract c \<and> a_id b = tc_of c \<and> a_id a \<noteq> a_id b \<and>
         is_current g a \<and> is_live (a_status b) \<and> same_shape a b \<and>
         similar U (a_statement a) (a_statement b) \<and>
         (case tc_reason c of
            TwinOf \<Rightarrow> is_current g b \<and> so_kind (a_source a) = Pr \<and> so_kind (a_source b) \<noteq> Pr \<and>
              pv_workspace_id (a_provenance a) = pv_workspace_id (a_provenance b) \<and>
              a_recorded_at b \<le> a_recorded_at a \<and>
              (\<forall>c' \<in> set (candidates U g). tc_retract c' = tc_of c \<longrightarrow> tc_reason c' \<noteq> TwinOf)
          | RestatesRetired \<Rightarrow> \<not> is_current g b \<and> \<not> chain_reach (predecessor g) a b))"
proof (intro conjI ballI)
  have "distinct (map a_id (filter (is_current g) (g_assertions g)))"
    using assms by (simp add: distinct_map_filter)
  then show "distinct (map tc_retract (candidates U g))"
    unfolding candidates_def Let_def
    by (intro distinct_map_filter_ids [where h = a_id]) (auto elim: candidate_for_cases)
  have same: "x = y" if "x \<in> set (g_assertions g)" "y \<in> set (g_assertions g)" "a_id x = a_id y" for x y
    using assms that by (simp add: distinct_map inj_on_def)
  fix c assume c: "c \<in> set (candidates U g)"
  then obtain a where a: "a \<in> set (g_assertions g)" "is_current g a"
    "candidate_for U g (filter (is_current g) (g_assertions g)) a = Some c"
    by (auto simp: candidates_mem)
  from a(3) show "\<exists>a \<in> set (g_assertions g). \<exists>b \<in> set (g_assertions g).
         a_id a = tc_retract c \<and> a_id b = tc_of c \<and> a_id a \<noteq> a_id b \<and>
         is_current g a \<and> is_live (a_status b) \<and> same_shape a b \<and>
         similar U (a_statement a) (a_statement b) \<and>
         (case tc_reason c of
            TwinOf \<Rightarrow> is_current g b \<and> so_kind (a_source a) = Pr \<and> so_kind (a_source b) \<noteq> Pr \<and>
              pv_workspace_id (a_provenance a) = pv_workspace_id (a_provenance b) \<and>
              a_recorded_at b \<le> a_recorded_at a \<and>
              (\<forall>c' \<in> set (candidates U g). tc_retract c' = tc_of c \<longrightarrow> tc_reason c' \<noteq> TwinOf)
          | RestatesRetired \<Rightarrow> \<not> is_current g b \<and> \<not> chain_reach (predecessor g) a b)"
  proof (cases rule: candidate_for_cases)
    case (retired old)
    have "graph_assertion g (a_id a) = Some a"
    proof -
      have "graph_assertion g (a_id a) \<noteq> None" using a(1) by (auto simp: graph_assertion_def find_cong_None)
      then obtain x where "graph_assertion g (a_id a) = Some x" by blast
      with same [of x a] a(1) graph_assertion_SomeD [OF this] show ?thesis by auto
    qed
    then have "\<not> chain_reach (predecessor g) a old"
      using retired_by_a_successorD [OF retired(1)] history_set by blast
    with retired(2) a retired_by_a_successorD [OF retired(1)] show ?thesis
      by (intro bexI [of _ a] bexI [of _ old]) auto
  next
    case (twin b)
    have "tc_reason c' \<noteq> TwinOf" if "c' \<in> set (candidates U g)" "tc_retract c' = a_id b" for c'
    proof -
      from that(1) obtain a' where a': "a' \<in> set (g_assertions g)"
        "candidate_for U g (filter (is_current g) (g_assertions g)) a' = Some c'"
        by (auto simp: candidates_mem)
      from a'(2) show ?thesis
      proof (cases rule: candidate_for_cases)
        case (twin b')
        with that(2) same [of a' b] a'(1) \<open>b \<in> set (filter _ _)\<close> \<open>twin_of U a b\<close>
        show ?thesis by (auto simp: twin_of_def)
      qed simp
    qed
    with twin a show ?thesis
      by (intro bexI [of _ a] bexI [of _ b]) (auto simp: twin_of_def is_current_live)
  qed
qed

end
