(* ===== verification/Ctx_Trust.thy ===== *)
theory Ctx_Trust
  imports Ctx_Model
begin

text \<open>
  Where "the user said it" is decided (\<open>context/trust.rs\<close>): a writer's quote counts as the user's
  word only when it is found, normalised, in one of the user's own turns.
\<close>

record user_turn_text =
  ut_turn_id :: string
  ut_text :: string

record user_stated =
  us_turn_id :: string
  us_quote :: string

definition user_stated_source :: "user_stated \<Rightarrow> source" where
  "user_stated_source u = \<lparr>so_kind = UserTurn, so_reference = Some (us_turn_id u)\<rparr>"

definition min_quote_chars :: nat where "min_quote_chars = 12"

text \<open>The quote marks, the curly ones in UTF-8, and the punctuation a citation ends in.\<close>

definition is_quote_mark :: "string \<Rightarrow> bool" where
  "is_quote_mark c \<longleftrightarrow>
     c \<in> set [dquote, [CHR 0x27], [CHR 0xE2, CHR 0x80, CHR 0x9C], [CHR 0xE2, CHR 0x80, CHR 0x9D],
              [CHR 0xE2, CHR 0x80, CHR 0x98], [CHR 0xE2, CHR 0x80, CHR 0x99], backtick]"

definition is_final_punctuation :: "string \<Rightarrow> bool" where
  "is_final_punctuation c \<longleftrightarrow> c \<in> set [''.'', ''!'', ''?'', '','', '';'', '':'']"

definition normalise_quote :: "unicode \<Rightarrow> string \<Rightarrow> string" where
  "normalise_quote U text =
     trim_end_matches is_final_punctuation
       (trim_matches is_quote_mark (to_lower U (single_spaced text)))"

definition peel :: "string \<Rightarrow> string" where
  "peel out = trim_end_matches is_final_punctuation (trim_matches is_quote_mark (trim out))"

lemma length_peel_le: "length (peel s) \<le> length s"
  unfolding peel_def
  by (rule order_trans [OF length_trim_end_matches_le
        order_trans [OF length_trim_matches_le length_trim_le]])

lemma peel_same_length:
  assumes "length (peel s) = length s"
  shows "peel s = s"
proof -
  let ?t = "trim s" and ?m = "trim_matches is_quote_mark (trim s)"
  have "length ?t = length s" "length ?m = length ?t" "length (peel s) = length ?m"
    using assms length_trim_le [of s] length_trim_matches_le [of is_quote_mark ?t]
      length_trim_end_matches_le [of is_final_punctuation ?m] by (simp_all add: peel_def)
  then have "?t = s" "?m = ?t" "peel s = ?m"
    by (simp_all add: trim_same trim_matches_same peel_def trim_end_matches_same)
  then show ?thesis by simp
qed

lemma peel_shorter: "peel s \<noteq> s \<Longrightarrow> length (peel s) < length s"
  using length_peel_le [of s] peel_same_length [of s] by linarith

text \<open>The \<open>loop\<close> of \<open>clean_quote\<close>: peel until nothing changes.\<close>

function peel_loop :: "string \<Rightarrow> string" where
  "peel_loop out = (let peeled = peel out in if peeled = out then out else peel_loop peeled)"
  by pat_completeness auto
termination
  by (relation "measure length") (auto simp: peel_shorter)

declare peel_loop.simps [simp del]

definition clean_quote :: "string \<Rightarrow> string" where
  "clean_quote text = peel_loop (single_spaced text)"

definition find_user_quote :: "unicode \<Rightarrow> user_turn_text list \<Rightarrow> string \<Rightarrow> user_stated option" where
  "find_user_quote U turns quote =
     (let needle = normalise_quote U quote
      in if char_count needle < min_quote_chars then None
         else map_option
                (\<lambda>t. \<lparr>us_turn_id = ut_turn_id t, us_quote = clean_quote quote\<rparr>)
                (List.find (\<lambda>t. contains needle (normalise_quote U (ut_text t))) (rev turns)))"

lemma peel_loop_fixed: "peel (peel_loop s) = peel_loop s"
  by (induction s rule: peel_loop.induct)
     (metis (full_types) peel_loop.simps)

lemma peel_loop_stripped: "\<exists>n. peel_loop s = (peel ^^ n) s"
proof (induction s rule: peel_loop.induct)
  case (1 s)
  show ?case
  proof (cases "peel s = s")
    case True
    then have "peel_loop s = (peel ^^ 0) s" by (simp add: peel_loop.simps [of s])
    then show ?thesis by blast
  next
    case False
    then obtain n where "peel_loop (peel s) = (peel ^^ n) (peel s)" using "1.IH" by blast
    then have "peel_loop s = (peel ^^ Suc n) s"
      using False by (simp add: peel_loop.simps [of s] Let_def funpow_swap1)
    then show ?thesis by blast
  qed
qed

text \<open>
  A quote counts as the user's word only when, normalised, it has at least twelve
  characters and occurs in one of the user's turns; the proof names the last such turn and
  carries the quote stripped until nothing more peels off. Otherwise there is no proof.
\<close>

theorem find_user_quote_correct:
  "(find_user_quote U turns quote = Some u \<longleftrightarrow>
     12 \<le> char_count (normalise_quote U quote) \<and>
     (\<exists>before t after. turns = before @ t # after \<and>
        contains (normalise_quote U quote) (normalise_quote U (ut_text t)) \<and>
        (\<forall>later \<in> set after. \<not> contains (normalise_quote U quote) (normalise_quote U (ut_text later))) \<and>
        u = \<lparr>us_turn_id = ut_turn_id t, us_quote = clean_quote quote\<rparr>)) \<and>
   (find_user_quote U turns quote = None \<longleftrightarrow>
     char_count (normalise_quote U quote) < 12 \<or>
     \<not> (\<exists>t \<in> set turns. contains (normalise_quote U quote) (normalise_quote U (ut_text t)))) \<and>
   peel (clean_quote quote) = clean_quote quote \<and>
   (\<exists>n. clean_quote quote = (peel ^^ n) (single_spaced quote))"
proof -
  let ?P = "\<lambda>t. contains (normalise_quote U quote) (normalise_quote U (ut_text t))"
  have "find_user_quote U turns quote = Some u \<longleftrightarrow>
      12 \<le> char_count (normalise_quote U quote) \<and>
      (\<exists>t. List.find ?P (rev turns) = Some t \<and>
        u = \<lparr>us_turn_id = ut_turn_id t, us_quote = clean_quote quote\<rparr>)"
    by (auto simp: find_user_quote_def Let_def min_quote_chars_def)
  moreover have "find_user_quote U turns quote = None \<longleftrightarrow>
      char_count (normalise_quote U quote) < 12 \<or> \<not> (\<exists>t \<in> set turns. ?P t)"
    by (simp add: find_user_quote_def Let_def min_quote_chars_def find_cong_None)
  moreover have "peel (clean_quote quote) = clean_quote quote"
    "\<exists>n. clean_quote quote = (peel ^^ n) (single_spaced quote)"
    by (simp_all add: clean_quote_def peel_loop_fixed peel_loop_stripped)
  ultimately show ?thesis unfolding find_last_iff by blast
qed

end
