(* ===== verification/Examples_Ctx.thy ===== *)
theory Examples_Ctx
  imports Ctx_Served Ctx_Tidy Ctx_Trust
begin

text \<open>
  A small context graph, and the context layer's properties applied to it: an active vision, two
  modules of which one was merged into the other, a decision that superseded an older one, a
  record that contradicts it, and a merged PR's restatement.
\<close>

definition ex_entity :: "string \<Rightarrow> entity_kind \<Rightarrow> entity_status \<Rightarrow> ctx_id option \<Rightarrow> entity" where
  "ex_entity i kind status into =
     \<lparr>e_id = i, e_slug = i @ ''s'', e_kind = kind, e_name = ''core'', e_summary = ''does it'',
      e_aliases = [''a''], e_paths = [], e_status = status, e_merged_into = into,
      e_recorded_at = 1, e_author = author_user, e_source = source_ui\<rparr>"

definition ex_assertion ::
  "ctx_id \<Rightarrow> assertion_status \<Rightarrow> source_kind \<Rightarrow> ctx_id option \<Rightarrow> ctx_id option \<Rightarrow> ctx_id list \<Rightarrow> assertion" where
  "ex_assertion i status kind old new against =
     \<lparr>a_id = i, a_kind = Decision, a_domain = Architectural, a_stance = Adopted,
      a_statement = ''keep words'', a_rationale = [], a_valid_from = 0, a_paths = [],
      a_status = status, a_recorded_at = 1, a_author = author_user, a_source = source_new kind None,
      a_provenance = \<lparr>pv_workspace_id = Some ''w'', pv_branch = None, pv_commit_sha = None,
                      pv_session_id = None, pv_turn_id = None, pv_repo = None\<rparr>,
      a_about = [''m''],
      a_supersedes = map_option (\<lambda>j. \<lparr>su_id = j, su_reasoning = []\<rparr>) old,
      a_superseded_by = new, a_contradicts = against\<rparr>"

definition ex_graph :: graph where
  "ex_graph =
     \<lparr>g_project_id = ''p'',
      g_entities =
        [ex_entity ''v'' Vision Active None, ex_entity ''m'' Module Active None,
         ex_entity ''o'' Module Merged (Some ''m'')],
      g_assertions =
        [ex_assertion ''1'' Confirmed Ui None (Some ''2'') [],
         ex_assertion ''2'' Provisional Ui (Some ''1'') None [''3''],
         ex_assertion ''3'' Confirmed Pr None None []],
      g_relations = [\<lparr>r_from = ''m'', r_to = ''v'', r_rel = Serves\<rparr>],
      g_current = [''2'', ''3''],
      g_contradictions = []\<rparr>"

definition ex_old :: assertion where "ex_old = ex_assertion ''1'' Confirmed Ui None (Some ''2'') []"
definition ex_new :: assertion where "ex_new = ex_assertion ''2'' Provisional Ui (Some ''1'') None [''3'']"

definition ex_query :: compile_query where
  "ex_query = \<lparr>q_entities = [''m''], q_query = None, q_paths = [], q_include_history = True,
               q_budget_chars = 0, q_overview = False\<rparr>"

definition ex_input :: assertion_input where
  "ex_input = \<lparr>ai_kind = Decision, ai_domain = Architectural, ai_stance = Adopted,
               ai_statement = ''Keep  words.'', ai_rationale = [], ai_valid_from = None, ai_paths = [],
               ai_about = [''m''], ai_supersedes = None, ai_contradicts = [], ai_status = Provisional\<rparr>"

section \<open>Chains\<close>

lemma ex_new_current: "is_current ex_graph ex_new"
  by code_simp

theorem is_current_correct_witness:
  "\<not> (\<exists>s. chain_reach (successor ex_graph) ex_new s \<and> is_live (a_status s))"
  using is_current_correct [of ex_graph ex_new] ex_new_current by blast

theorem live_chain_has_current_witness:
  "\<exists>c. (c = ex_old \<or> chain_reach (successor ex_graph) ex_old c) \<and> is_current ex_graph c"
  by (rule live_chain_has_current [of ex_old ex_graph 2]) code_simp+

theorem history_is_chain_witness:
  "ex_old \<in> set (history ex_graph ''2'') \<and> chain_reach (predecessor ex_graph) ex_new ex_old"
proof -
  have "graph_assertion ex_graph ''2'' = Some ex_new" by code_simp
  note chain = history_is_chain [OF this]
  have "ex_old \<in> set (history ex_graph ''2'')" by code_simp
  with chain show ?thesis by blast
qed

section \<open>Resolution and comparison\<close>

theorem resolve_entity_active_witness:
  "ex_entity ''m'' Module Active None \<in> set (g_entities ex_graph) \<and>
   e_status (ex_entity ''m'' Module Active None) = Active"
  by (rule resolve_entity_active [of ascii_tables ex_graph "''OS''"]) code_simp

theorem resolve_entity_ambiguous_witness:
  "length [''vs'', ''ms'', ''os''] \<ge> 2 \<and> graph_entity ex_graph ''A'' = None"
proof -
  have "resolve_entity ascii_tables ex_graph ''A'' = Inl (AmbiguousEntity ''A'' [''vs'', ''ms'', ''os''])"
    by code_simp
  from resolve_entity_ambiguous [OF this] show ?thesis by blast
qed

theorem classify_correct_witness:
  "pr_kind (classify ascii_tables ex_graph ex_input) = RelDuplicate \<and>
   (\<exists>a \<in> set (g_assertions ex_graph). pr_target (classify ascii_tables ex_graph ex_input) = Some (a_id a) \<and>
      same_claim a ex_input)"
proof -
  have "pr_kind (classify ascii_tables ex_graph ex_input) = RelDuplicate" by code_simp
  with classify_correct [of ascii_tables ex_graph ex_input] show ?thesis by blast
qed

theorem similar_laws_witness:
  "similar ascii_tables ''keep words'' ''words keep'' \<and>
   negated ascii_tables ''keep words'' = negated ascii_tables ''words keep''"
proof -
  have "similar ascii_tables ''keep words'' ''words keep''" by code_simp
  with similar_laws [of ascii_tables "''keep words''" "''words keep''"] show ?thesis by blast
qed

section \<open>Rendering\<close>

theorem render_index_within_witness:
  "length (render_index ex_graph 60) \<le> 60 \<and> length (items_of (index_group_list ex_graph)) = 2"
proof -
  have "length (items_of (index_group_list ex_graph)) = 2" by code_simp
  moreover have "25 + length (more_line (length (items_of (index_group_list ex_graph)))) \<le> 60" by code_simp
  ultimately show ?thesis using render_index_within [of ex_graph 60] by blast
qed

theorem render_index_prefix_witness:
  "\<exists>n \<le> length (items_of (index_group_list ex_graph)). \<exists>tail.
     render_index ex_graph 60 =
       index_header @ concat (map group_line (take_groups n (index_group_list ex_graph))) @ tail \<and>
     (tail = [] \<or> tail = more_line (length (items_of (index_group_list ex_graph)) - n))"
  by (rule render_index_prefix) code_simp

definition ex_bundle :: ctx_bundle where
  "ex_bundle = compile ascii_tables ex_graph ex_query None"

lemma ex_bundle_served:
  "map (\<lambda>be. e_id (be_entity be)) (b_entities ex_bundle) = [''v'', ''m''] \<and>
   map (\<lambda>ba. a_id (ba_assertion ba)) (b_assertions ex_bundle) = [''2'', ''3''] \<and>
   map (\<lambda>c. (cn_a c, cn_b c)) (b_contradictions ex_bundle) = [(''2'', ''3'')]"
  by code_simp

theorem render_keeps_assertions_witness:
  "\<exists>ba \<in> set (b_assertions ex_bundle).
     contains (a_statement (ba_assertion ba)) (assertion_line ex_bundle ba) \<and>
     contains (assertion_line ex_bundle ba) (render_markdown ex_bundle)"
proof -
  from ex_bundle_served obtain ba where "ba \<in> set (b_assertions ex_bundle)"
    by (metis list.set_intros(1) list.set_map imageE)
  from render_keeps_assertions [OF this] this show ?thesis by blast
qed

section \<open>Compilation\<close>

theorem compile_within_budget_witness:
  "length (render_markdown ex_bundle) \<le> 12000"
proof -
  have "length (render_markdown (compile ascii_tables ex_graph ex_query None)) \<le> 12000 \<or>
      (\<forall>be \<in> set (b_entities ex_bundle). be_reason be = EntryVision)"
    using compile_within_budget [of ascii_tables ex_graph ex_query None]
    by (auto simp: ex_query_def ex_bundle_def)
  moreover have "\<exists>be \<in> set (b_entities ex_bundle). be_reason be \<noteq> EntryVision" by code_simp
  ultimately show ?thesis by (auto simp: ex_bundle_def)
qed

theorem compile_serves_active_witness:
  "b_entities ex_bundle \<noteq> [] \<and>
   list_all (\<lambda>be. e_status (be_entity be) = Active) (b_entities ex_bundle)"
proof -
  have "b_entities ex_bundle \<noteq> []" using ex_bundle_served by auto
  with compile_serves_active [of ascii_tables ex_graph ex_query None] show ?thesis
    by (auto simp: ex_bundle_def list_all_iff)
qed

lemma ex_query_targeted: "\<not> q_overview ex_query"
  by code_simp

theorem compile_accounts_for_all_witness:
  "\<exists>be \<in> set (b_entities ex_bundle). be_entity be = ex_entity ''v'' Vision Active None \<and>
     be_reason be = EntryVision"
proof -
  have "graph_vision ex_graph = Some (ex_entity ''v'' Vision Active None)" by code_simp
  with compile_accounts_for_all [OF ex_query_targeted, of ascii_tables ex_graph None] show ?thesis
    unfolding ex_bundle_def by blast
qed

theorem compile_serves_current_witness:
  "b_assertions ex_bundle \<noteq> [] \<and>
   list_all (\<lambda>ba. is_current ex_graph (ba_assertion ba)) (b_assertions ex_bundle)"
  using compile_serves_current [OF ex_query_targeted, of ex_bundle ascii_tables ex_graph None]
    ex_bundle_served by (auto simp: ex_bundle_def list_all_iff)

theorem compile_contradictions_witness:
  "\<exists>c \<in> set (b_contradictions ex_bundle). cn_a c = ''2'' \<and> cn_b c = ''3'' \<and> cn_a c < cn_b c"
proof -
  from ex_bundle_served have "(''2'', ''3'') \<in> (\<lambda>c. (cn_a c, cn_b c)) ` set (b_contradictions ex_bundle)"
    by (metis list.set_intros(1) list.set_map)
  then obtain c where c: "c \<in> set (b_contradictions ex_bundle)" "cn_a c = ''2''" "cn_b c = ''3''" by auto
  from c compile_contradictions [OF ex_query_targeted, of ex_bundle ascii_tables ex_graph None]
  have "cn_a c < cn_b c" by (metis ex_bundle_def)
  with c show ?thesis by blast
qed

theorem charter_correct_witness:
  "charter ex_graph \<noteq> [] \<and> list_all (is_current ex_graph) (charter ex_graph)"
proof -
  have "charter ex_graph \<noteq> []" by code_simp
  with charter_correct [of ex_graph] show ?thesis unfolding list_all_iff by blast
qed

theorem overview_serves_witness:
  "\<exists>w. b_vision (overview ex_graph 1) = Some w \<and> e_id w = ''v''"
proof -
  have "graph_vision ex_graph = Some (ex_entity ''v'' Vision Active None)"
    "au_kind (e_author (ex_entity ''v'' Vision Active None)) \<noteq> Extractor"
    "e_id (ex_entity ''v'' Vision Active None) = ''v''" by code_simp+
  with overview_serves [OF refl, of ex_graph 1] show ?thesis by metis
qed

section \<open>The user's word and the tidy pass\<close>

definition ex_turns :: "user_turn_text list" where
  "ex_turns = [\<lparr>ut_turn_id = ''t1'', ut_text = ''Please keep the words short''\<rparr>,
               \<lparr>ut_turn_id = ''t2'', ut_text = ''ok''\<rparr>]"

theorem find_user_quote_correct_witness:
  "find_user_quote ascii_tables ex_turns ''keep  the words!'' =
     Some \<lparr>us_turn_id = ''t1'', us_quote = clean_quote ''keep  the words!''\<rparr> \<and>
   12 \<le> char_count (normalise_quote ascii_tables ''keep  the words!'')"
proof -
  have found: "find_user_quote ascii_tables ex_turns ''keep  the words!'' =
      Some \<lparr>us_turn_id = ''t1'', us_quote = clean_quote ''keep  the words!''\<rparr>" by code_simp
  with find_user_quote_correct [of ascii_tables ex_turns "''keep  the words!''"] show ?thesis by blast
qed

theorem candidates_sound_witness:
  "distinct (map tc_retract (candidates ascii_tables ex_graph)) \<and>
   candidates ascii_tables ex_graph \<noteq> []"
proof -
  have "distinct (map a_id (g_assertions ex_graph))" "candidates ascii_tables ex_graph \<noteq> []"
    by code_simp+
  with candidates_sound [of ex_graph ascii_tables] show ?thesis by blast
qed

end
