(* ===== verification/Ap_World.thy ===== *)
theory Ap_World
  imports Rust_Str
begin

text \<open>
  What autopilot reads of one checkout (\<open>git_state.rs\<close>, \<open>github/types.rs\<close>, \<open>verify.rs\<close>) and the
  kinds of work it can hand to the agent with their pure decisions
  (\<open>supervisor/delegation.rs\<close>). Counters the code only compares (\<open>u32\<close>, \<open>usize\<close>) are \<open>nat\<close>.
\<close>

section \<open>Git state\<close>

datatype status_kind = SkModified | SkAdded | SkDeleted | SkRenamed | SkUntracked | SkConflicted

record file_status =
  f_path :: string
  f_kind :: status_kind
  f_staged :: bool
  f_additions :: nat
  f_deletions :: nat

record linked_worktree =
  lw_path :: string
  lw_branch :: "string option"

record git_state =
  gs_branch :: string
  gs_parent_branch :: string
  gs_ahead :: nat
  gs_behind :: nat
  gs_unpushed :: nat
  gs_files :: "file_status list"
  gs_additions :: nat
  gs_deletions :: nat
  gs_remote_url :: "string option"
  gs_has_origin :: bool
  gs_head_sha :: "string option"
  gs_blocked_config :: "string list"
  gs_worktrees :: "linked_worktree list"

section \<open>Pull requests\<close>

datatype pr_status = PrOpen | PrMerged | PrClosed

fun pr_status_as_str :: "pr_status \<Rightarrow> string" where
  "pr_status_as_str PrOpen = ''open''"
| "pr_status_as_str PrMerged = ''merged''"
| "pr_status_as_str PrClosed = ''closed''"

definition pr_status_parse :: "string \<Rightarrow> pr_status option" where
  "pr_status_parse s =
     (if s = ''open'' then Some PrOpen
      else if s = ''merged'' then Some PrMerged
      else if s = ''closed'' then Some PrClosed
      else None)"

datatype mergeable_state = Mergeable | Conflicting | MergeableUnknown

record pr_state =
  ps_number :: nat
  ps_url :: string
  ps_state :: pr_status
  ps_title :: string
  ps_mergeable :: mergeable_state
  ps_opened_at :: "int option"
  ps_merged_at :: "int option"
  ps_branch :: "string option"

datatype merge_state =
  MsClean | MsBlocked | MsUnstable | MsBehind | MsDirty | MsDraft | MsHasHooks | MsUnknown

record check_run =
  ck_id :: "nat option"
  ck_name :: string
  ck_status :: string
  ck_conclusion :: "string option"
  ck_required :: bool
  ck_url :: "string option"
  ck_started_at :: "string option"
  ck_completed_at :: "string option"

record pr_checks =
  pc_merge_state :: merge_state
  pc_rollup :: string
  pc_total :: nat
  pc_passed :: nat
  pc_failed :: nat
  pc_pending :: nat
  pc_required_failing :: "string list"
  pc_runs :: "check_run list"

datatype thread_source = ThreadGithub | ThreadLocal

datatype review_severity = SevHigh | SevMedium | SevLow

record pr_comment =
  t_id :: string
  t_source :: thread_source
  t_severity :: "review_severity option"
  t_round :: "nat option"
  t_author :: string
  t_is_bot :: bool
  t_body :: string
  t_path :: "string option"
  t_line :: "nat option"
  t_url :: "string option"
  t_replies :: nat
  t_we_replied_last :: bool

record pr_comments = unresolved :: "pr_comment list"

section \<open>Verification\<close>

datatype check_outcome = CheckPassed | CheckFailed | CheckTimedOut | CheckSetupFailed | CheckSkipped

record check_result =
  cr_name :: string
  cr_command :: string
  cr_outcome :: check_outcome
  cr_duration_ms :: nat
  cr_tail :: "string list"

record verification_report = vr_checks :: "check_result list"

definition report_passed :: "verification_report \<Rightarrow> bool" where
  "report_passed v \<longleftrightarrow> (\<forall>c \<in> set (vr_checks v). cr_outcome c \<in> {CheckPassed, CheckSkipped})"

section \<open>Delegation kinds\<close>

datatype delegation_kind =
  Commit | CommitPush | CommitPr | OpenPr | Push | Resolve | UpdateBranch | FixChecks | ResolveComments

definition all_kinds :: "delegation_kind list" where
  "all_kinds =
     [Commit, CommitPush, CommitPr, OpenPr, Push, Resolve, UpdateBranch, FixChecks, ResolveComments]"

fun action :: "delegation_kind \<Rightarrow> string" where
  "action Commit = ''commit''"
| "action CommitPush = ''commit-push''"
| "action CommitPr = ''commit-pr''"
| "action OpenPr = ''open-pr''"
| "action Push = ''push''"
| "action Resolve = ''resolve-conflicts''"
| "action UpdateBranch = ''update-branch''"
| "action FixChecks = ''fix-checks''"
| "action ResolveComments = ''resolve-comments''"

definition from_action :: "string \<Rightarrow> delegation_kind option" where
  "from_action s = List.find (\<lambda>k. action k = s) all_kinds"

definition settles_on_idle :: "delegation_kind \<Rightarrow> bool" where
  "settles_on_idle kind \<longleftrightarrow> kind \<in> {FixChecks, ResolveComments}"

fun action_proves_kind :: "delegation_kind \<Rightarrow> string \<Rightarrow> bool" where
  "action_proves_kind Commit op = (op = ''git_commit'')"
| "action_proves_kind Resolve op = (op = ''git_commit'' \<or> op = ''git_update_branch'')"
| "action_proves_kind CommitPush op = (op = ''git_commit'' \<or> op = ''git_push'')"
| "action_proves_kind FixChecks op = (op = ''git_commit'' \<or> op = ''git_push'')"
| "action_proves_kind CommitPr op = (op = ''git_commit'' \<or> op = ''open_pr'')"
| "action_proves_kind OpenPr op = (op = ''open_pr'')"
| "action_proves_kind Push op = (op = ''git_push'')"
| "action_proves_kind ResolveComments op = (op = ''reply_thread'' \<or> op = ''resolve_thread'')"
| "action_proves_kind UpdateBranch op = (op = ''git_update_branch'')"

definition delegation_resolved ::
  "delegation_kind \<Rightarrow> git_state option \<Rightarrow> pr_state option \<Rightarrow> pr_checks option \<Rightarrow> bool" where
  "delegation_resolved kind git pr checks =
     (let clean = (case git of Some g \<Rightarrow> gs_files g = [] | None \<Rightarrow> False);
          pr_open = (case pr of Some p \<Rightarrow> ps_state p = PrOpen | None \<Rightarrow> False);
          pushed = (case git of Some g \<Rightarrow> gs_unpushed g = 0 | None \<Rightarrow> False)
      in case kind of
           Commit \<Rightarrow> clean
         | CommitPush \<Rightarrow> clean \<and> pushed
         | CommitPr \<Rightarrow> clean \<and> pr_open
         | OpenPr \<Rightarrow> pr_open
         | Push \<Rightarrow> pushed
         | Resolve \<Rightarrow>
             (case git of
                Some g \<Rightarrow> \<not> (\<exists>f \<in> set (gs_files g). f_kind f = SkConflicted)
              | None \<Rightarrow> False)
         | UpdateBranch \<Rightarrow>
             (case checks of
                Some c \<Rightarrow> pc_merge_state c \<notin> {MsBehind, MsDirty, MsUnknown}
              | None \<Rightarrow> (case pr of Some p \<Rightarrow> ps_mergeable p = Mergeable | None \<Rightarrow> False))
         | FixChecks \<Rightarrow> False
         | ResolveComments \<Rightarrow> False)"

lemma all_kinds_all [simp]: "k \<in> set all_kinds"
  by (cases k) (simp_all add: all_kinds_def)

lemma action_inj: "action a = action b \<longleftrightarrow> a = b"
  by (cases a; cases b) simp_all

lemma from_action_Some: "from_action s = Some k \<longleftrightarrow> s = action k"
proof
  assume "from_action s = Some k"
  then show "s = action k" unfolding from_action_def by (auto dest: find_SomeD)
next
  assume s: "s = action k"
  then have "from_action s \<noteq> None" unfolding from_action_def by (auto simp: find_cong_None)
  then obtain k' where k': "from_action s = Some k'" by blast
  then have "action k' = s" unfolding from_action_def by (auto dest: find_SomeD)
  with s k' show "from_action s = Some k" by (simp add: action_inj)
qed

text \<open>A clean, pushed checkout with a mergeable open pull request: every observable kind is done there.\<close>

definition done_git :: git_state where
  "done_git =
     \<lparr>gs_branch = ''f'', gs_parent_branch = ''main'', gs_ahead = 1, gs_behind = 0, gs_unpushed = 0,
      gs_files = [], gs_additions = 0, gs_deletions = 0, gs_remote_url = None, gs_has_origin = True,
      gs_head_sha = Some ''1'', gs_blocked_config = [], gs_worktrees = []\<rparr>"

definition done_pr :: pr_state where
  "done_pr =
     \<lparr>ps_number = 1, ps_url = [], ps_state = PrOpen, ps_title = [], ps_mergeable = Mergeable,
      ps_opened_at = None, ps_merged_at = None, ps_branch = None\<rparr>"

lemma observable: "\<not> settles_on_idle k \<Longrightarrow> delegation_resolved k (Some done_git) (Some done_pr) None"
  by (cases k) (simp_all add: delegation_resolved_def settles_on_idle_def done_git_def done_pr_def)

text \<open>
  The playbook names and the delegation kinds are in bijection: parsing a name gives the one
  kind it is the playbook of, and a name that is no playbook delegates nothing. Only the two
  kinds whose end cannot be observed settle on idle.
\<close>

theorem delegation_kind_roundtrip:
  "(from_action s = Some k \<longleftrightarrow> s = action k) \<and>
   from_action (action k) = Some k \<and>
   (settles_on_idle k \<longleftrightarrow> (\<forall>git pr checks. \<not> delegation_resolved k git pr checks))"
proof (intro conjI)
  show "from_action s = Some k \<longleftrightarrow> s = action k" by (rule from_action_Some)
  show "from_action (action k) = Some k" by (simp add: from_action_Some)
  show "settles_on_idle k \<longleftrightarrow> (\<forall>git pr checks. \<not> delegation_resolved k git pr checks)"
  proof
    assume "settles_on_idle k"
    then show "\<forall>git pr checks. \<not> delegation_resolved k git pr checks"
      by (auto simp: delegation_resolved_def settles_on_idle_def)
  next
    assume "\<forall>git pr checks. \<not> delegation_resolved k git pr checks"
    then show "settles_on_idle k" using observable [of k] by blast
  qed
qed

end
