(* ===== verification/Ap_Readiness.thy ===== *)
theory Ap_Readiness
  imports Ap_World
begin

text \<open>
  Readiness (\<open>autopilot/readiness.rs\<close>): what stands between a checkout and landing
  (\<open>detect_blockers\<close>) and what to do about the most blocking thing (\<open>next_rung\<close>).
\<close>

section \<open>Blockers\<close>

datatype blocker =
    Conflicted "string list"
  | Uncommitted nat
  | Unpushed nat
  | Unsubmitted
  | Diverged string
  | ChecksFailing "string list"
  | ReviewUnaddressed nat
  | ReviewDisputed nat
  | ReviewRequired
  | Draft
  | ProposalClosed

fun blocker_kind :: "blocker \<Rightarrow> string" where
  "blocker_kind (Conflicted _) = ''conflicted''"
| "blocker_kind (Uncommitted _) = ''uncommitted''"
| "blocker_kind (Unpushed _) = ''unpushed''"
| "blocker_kind Unsubmitted = ''unsubmitted''"
| "blocker_kind (Diverged _) = ''diverged''"
| "blocker_kind (ChecksFailing _) = ''checks-failing''"
| "blocker_kind (ReviewUnaddressed _) = ''review-unaddressed''"
| "blocker_kind (ReviewDisputed _) = ''review-disputed''"
| "blocker_kind ReviewRequired = ''review-required''"
| "blocker_kind Draft = ''draft''"
| "blocker_kind ProposalClosed = ''proposal-closed''"

definition has_work_since_merge :: "git_state \<Rightarrow> bool" where
  "has_work_since_merge git \<longleftrightarrow> gs_files git \<noteq> [] \<or> gs_unpushed git > 0"

record readiness_input =
  ri_git :: "git_state option"
  ri_pr :: "pr_state option"
  ri_checks :: "pr_checks option"
  ri_comments :: "pr_comments option"

datatype situation =
    SitReady | SitMergeableSoft | SitChecksFailing | SitReviewRequired | SitBehind | SitConflicts
  | SitDraft | SitComputing | SitNoConflicts

record merge_gate =
  mg_situation :: situation
  mg_merge_allowed :: bool

definition gate :: "situation \<Rightarrow> bool \<Rightarrow> merge_gate" where
  "gate situation merge_allowed = \<lparr>mg_situation = situation, mg_merge_allowed = merge_allowed\<rparr>"

definition describe_merge_gate :: "merge_state option \<Rightarrow> nat \<Rightarrow> mergeable_state \<Rightarrow> merge_gate" where
  "describe_merge_gate merge_state checks_failed mergeable =
     (case merge_state of
        Some MsClean \<Rightarrow> gate SitReady True
      | Some MsUnstable \<Rightarrow>
          if checks_failed > 0 then gate SitChecksFailing True else gate SitMergeableSoft True
      | Some MsBlocked \<Rightarrow>
          if checks_failed > 0 then gate SitChecksFailing False else gate SitReviewRequired False
      | Some MsBehind \<Rightarrow> gate SitBehind False
      | Some MsDirty \<Rightarrow> gate SitConflicts False
      | Some MsDraft \<Rightarrow> gate SitDraft False
      | Some MsUnknown \<Rightarrow> gate SitComputing False
      | Some MsHasHooks \<Rightarrow> gate SitComputing False
      | None \<Rightarrow>
          (case mergeable of
             Mergeable \<Rightarrow> gate SitNoConflicts False
           | Conflicting \<Rightarrow> gate SitConflicts False
           | MergeableUnknown \<Rightarrow> gate SitComputing False))"

definition is_open :: "pr_state option \<Rightarrow> bool" where
  "is_open pr \<longleftrightarrow> (case pr of Some p \<Rightarrow> ps_state p = PrOpen | None \<Rightarrow> False)"

definition failing_checks :: "readiness_input \<Rightarrow> string list" where
  "failing_checks input = (case ri_checks input of Some c \<Rightarrow> pc_required_failing c | None \<Rightarrow> [])"

definition input_gate :: "readiness_input \<Rightarrow> pr_state \<Rightarrow> merge_gate" where
  "input_gate input pr =
     describe_merge_gate (map_option pc_merge_state (ri_checks input))
       (length (failing_checks input)) (ps_mergeable pr)"

text \<open>\<open>detect_blockers\<close>, block by block in the order the code pushes them.\<close>

definition tree_blockers :: "git_state \<Rightarrow> blocker list" where
  "tree_blockers git =
     (let conflicted = map f_path (filter (\<lambda>f. f_kind f = SkConflicted) (gs_files git))
      in if conflicted \<noteq> [] then [Conflicted conflicted]
         else if gs_files git \<noteq> [] then [Uncommitted (length (gs_files git))]
         else [])"

definition publish_blockers :: "git_state \<Rightarrow> pr_state option \<Rightarrow> blocker list" where
  "publish_blockers git pr =
     (let unproposed =
            (case pr of None \<Rightarrow> gs_ahead git > 0
             | Some p \<Rightarrow> ps_state p = PrMerged \<and> gs_unpushed git > 0)
      in (if gs_unpushed git > 0 then [Unpushed (gs_unpushed git)] else []) @
         (if unproposed then [Unsubmitted] else []) @
         (case pr of Some p \<Rightarrow> if ps_state p = PrClosed then [ProposalClosed] else [] | None \<Rightarrow> []))"

definition gate_blockers :: "readiness_input \<Rightarrow> git_state \<Rightarrow> blocker list" where
  "gate_blockers input git =
     (case ri_pr input of
        None \<Rightarrow> []
      | Some pr \<Rightarrow>
          if ps_state pr \<noteq> PrOpen then []
          else (case mg_situation (input_gate input pr) of
                  SitConflicts \<Rightarrow> [Diverged (gs_parent_branch git)]
                | SitBehind \<Rightarrow> [Diverged (gs_parent_branch git)]
                | SitChecksFailing \<Rightarrow> [ChecksFailing (failing_checks input)]
                | SitReviewRequired \<Rightarrow> [ReviewRequired]
                | SitDraft \<Rightarrow> [Draft]
                | _ \<Rightarrow> []))"

definition thread_blockers :: "readiness_input \<Rightarrow> blocker list" where
  "thread_blockers input =
     (let threads =
            (if case ri_pr input of None \<Rightarrow> True | Some p \<Rightarrow> ps_state p = PrOpen
             then (case ri_comments input of Some c \<Rightarrow> unresolved c | None \<Rightarrow> [])
             else []);
          ours = length (filter t_we_replied_last threads);
          theirs = length threads - ours
      in (if theirs > 0 then [ReviewUnaddressed theirs] else []) @
         (if ours > 0 then [ReviewDisputed ours] else []))"

definition detect_blockers :: "readiness_input \<Rightarrow> blocker list" where
  "detect_blockers input =
     (case ri_git input of
        None \<Rightarrow> []
      | Some git \<Rightarrow>
          tree_blockers git @ publish_blockers git (ri_pr input) @
          gate_blockers input git @ thread_blockers input)"

section \<open>The ladder\<close>

datatype wait_why = UnknownState | GateComputing

datatype rung =
    Delegate delegation_kind string "string \<rightharpoonup> string" blocker
  | Merge
  | Escalate blocker
  | RungWait wait_why
  | Landed
  | RungReady

datatype commit_mode = ModeCommit | ModeCommitPush | ModeCommitPr

fun mode_kind :: "commit_mode \<Rightarrow> delegation_kind" where
  "mode_kind ModeCommit = Commit"
| "mode_kind ModeCommitPush = CommitPush"
| "mode_kind ModeCommitPr = CommitPr"

record ladder_context =
  lc_base :: string
  lc_commit_mode :: commit_mode

definition params :: "(string \<times> string) list \<Rightarrow> (string \<rightharpoonup> string)" where
  "params pairs = foldl (\<lambda>m (k, v). m(k \<mapsto> v)) Map.empty pairs"

definition delegate :: "delegation_kind \<Rightarrow> (string \<times> string) list \<Rightarrow> blocker \<Rightarrow> rung" where
  "delegate kind pairs b = Delegate kind (action kind) (params pairs) b"

definition find_kind :: "blocker list \<Rightarrow> string \<Rightarrow> blocker option" where
  "find_kind blockers kind = List.find (\<lambda>b. blocker_kind b = kind) blockers"

text \<open>The two arms that read a count or names out of the blocker found by kind.\<close>

definition resolve_comments_rung :: "blocker \<Rightarrow> rung" where
  "resolve_comments_rung b =
     delegate ResolveComments
       [(''count'', show_nat (case b of ReviewUnaddressed n \<Rightarrow> n | _ \<Rightarrow> 0))] b"

definition fix_checks_rung :: "blocker \<Rightarrow> rung" where
  "fix_checks_rung b =
     delegate FixChecks [(''failing'', join '', '' (case b of ChecksFailing names \<Rightarrow> names | _ \<Rightarrow> []))] b"

definition commit_rung :: "ladder_context \<Rightarrow> pr_state option \<Rightarrow> blocker \<Rightarrow> rung" where
  "commit_rung ctx pr b =
     (let mode = (if lc_commit_mode ctx = ModeCommitPr \<and> is_open pr then ModeCommitPush
                  else lc_commit_mode ctx)
      in delegate (mode_kind mode) (if mode = ModeCommitPr then [(''base'', lc_base ctx)] else []) b)"

text \<open>The end of \<open>next_rung\<close>: nothing is in the way, only the gate is left to ask.\<close>

definition settled_rung :: "readiness_input \<Rightarrow> rung" where
  "settled_rung input =
     (case ri_pr input of
        None \<Rightarrow> RungReady
      | Some pr \<Rightarrow>
          if ps_state pr \<noteq> PrOpen then RungReady
          else if mg_situation (input_gate input pr) = SitComputing then RungWait GateComputing
          else if mg_merge_allowed (input_gate input pr) then Merge
          else RungReady)"

text \<open>The chain of \<open>if let Some(b) = find(...)\<close> arms, first hit first.\<close>

fun first_arm :: "blocker list \<Rightarrow> (string \<times> bool \<times> (blocker \<Rightarrow> rung)) list \<Rightarrow> rung \<Rightarrow> rung" where
  "first_arm blockers [] otherwise = otherwise"
| "first_arm blockers ((kind, guarded, arm) # arms) otherwise =
     (case find_kind blockers kind of
        Some b \<Rightarrow> if guarded then arm b else first_arm blockers arms otherwise
      | None \<Rightarrow> first_arm blockers arms otherwise)"

definition ladder :: "readiness_input \<Rightarrow> ladder_context \<Rightarrow> (string \<times> bool \<times> (blocker \<Rightarrow> rung)) list" where
  "ladder input ctx =
     [(''conflicted'', True, delegate Resolve []),
      (''uncommitted'', True, commit_rung ctx (ri_pr input)),
      (''review-unaddressed'', \<not> is_open (ri_pr input), resolve_comments_rung),
      (''unsubmitted'', True, delegate OpenPr [(''base'', lc_base ctx)]),
      (''unpushed'', True, delegate Push []),
      (''diverged'', True, delegate UpdateBranch [(''base'', lc_base ctx)]),
      (''checks-failing'', True, fix_checks_rung),
      (''review-required'', True, Escalate),
      (''draft'', True, Escalate),
      (''proposal-closed'', True, Escalate),
      (''review-unaddressed'', True, resolve_comments_rung),
      (''review-disputed'', True, Escalate)]"

definition next_rung :: "readiness_input \<Rightarrow> ladder_context \<Rightarrow> rung" where
  "next_rung input ctx =
     (case ri_git input of
        None \<Rightarrow> RungWait UnknownState
      | Some git \<Rightarrow>
          if (case ri_pr input of Some p \<Rightarrow> ps_state p = PrMerged | None \<Rightarrow> False) \<and>
             \<not> has_work_since_merge git
          then Landed
          else first_arm (detect_blockers input) (ladder input ctx) (settled_rung input))"

section \<open>What the ladder promises\<close>

lemma find_kind_Some: "find_kind bs kind = Some b \<Longrightarrow> b \<in> set bs \<and> blocker_kind b = kind"
  unfolding find_kind_def by (drule find_SomeD) simp

lemma find_kind_None: "find_kind bs kind = None \<longleftrightarrow> (\<forall>b \<in> set bs. blocker_kind b \<noteq> kind)"
  unfolding find_kind_def by (simp add: find_cong_None)

lemma find_kind_is_Some: "b \<in> set bs \<Longrightarrow> blocker_kind b = kind \<Longrightarrow> find_kind bs kind \<noteq> None"
  by (auto simp: find_kind_None)

text \<open>The arm that fires is the first whose kind is pending and whose guard holds.\<close>

definition fires :: "blocker list \<Rightarrow> string \<times> bool \<times> (blocker \<Rightarrow> rung) \<Rightarrow> bool" where
  "fires bs arm \<longleftrightarrow> fst (snd arm) \<and> find_kind bs (fst arm) \<noteq> None"

lemma first_arm_cases:
  obtains (arm) before kind arm after b where
      "arms = before @ (kind, True, arm) # after" "\<forall>x \<in> set before. \<not> fires bs x"
      "b \<in> set bs" "blocker_kind b = kind" "first_arm bs arms otherwise = arm b"
    | (none) "\<forall>x \<in> set arms. \<not> fires bs x" "first_arm bs arms otherwise = otherwise"
proof -
  have "(\<exists>before kind arm after b. arms = before @ (kind, True, arm) # after \<and>
      (\<forall>x \<in> set before. \<not> fires bs x) \<and> b \<in> set bs \<and> blocker_kind b = kind \<and>
      first_arm bs arms otherwise = arm b) \<or>
    (\<forall>x \<in> set arms. \<not> fires bs x) \<and> first_arm bs arms otherwise = otherwise"
  proof (induction arms)
    case (Cons x arms)
    obtain kind g arm where x: "x = (kind, g, arm)" by (cases x)
    show ?case
    proof (cases "fires bs x")
      case True
      then obtain b where b: "find_kind bs kind = Some b" "g" by (auto simp: fires_def x)
      with find_kind_Some [OF b(1)] have "b \<in> set bs" "blocker_kind b = kind"
        "first_arm bs (x # arms) otherwise = arm b" by (simp_all add: x)
      with b(2) have "x # arms = [] @ (kind, True, arm) # arms \<and> (\<forall>x \<in> set []. \<not> fires bs x) \<and>
          b \<in> set bs \<and> blocker_kind b = kind \<and> first_arm bs (x # arms) otherwise = arm b"
        by (simp add: x)
      then show ?thesis by blast
    next
      case False
      then have "first_arm bs (x # arms) otherwise = first_arm bs arms otherwise"
        by (auto simp: fires_def x split: option.splits)
      with Cons.IH False show ?thesis by (metis append_Cons set_ConsD)
    qed
  qed simp
  with that show ?thesis by blast
qed

lemma blocker_kind_cases:
  "blocker_kind b = ''conflicted'' \<longleftrightarrow> (\<exists>paths. b = Conflicted paths)"
  "blocker_kind b = ''uncommitted'' \<longleftrightarrow> (\<exists>n. b = Uncommitted n)"
  "blocker_kind b = ''unpushed'' \<longleftrightarrow> (\<exists>n. b = Unpushed n)"
  "blocker_kind b = ''unsubmitted'' \<longleftrightarrow> b = Unsubmitted"
  "blocker_kind b = ''diverged'' \<longleftrightarrow> (\<exists>m. b = Diverged m)"
  "blocker_kind b = ''checks-failing'' \<longleftrightarrow> (\<exists>names. b = ChecksFailing names)"
  "blocker_kind b = ''review-unaddressed'' \<longleftrightarrow> (\<exists>n. b = ReviewUnaddressed n)"
  "blocker_kind b = ''review-disputed'' \<longleftrightarrow> (\<exists>n. b = ReviewDisputed n)"
  "blocker_kind b = ''review-required'' \<longleftrightarrow> b = ReviewRequired"
  "blocker_kind b = ''draft'' \<longleftrightarrow> b = Draft"
  "blocker_kind b = ''proposal-closed'' \<longleftrightarrow> b = ProposalClosed"
  by (cases b; simp)+

lemma mode_kind_commits [simp]:
  "mode_kind m \<noteq> OpenPr" "mode_kind m \<noteq> Push" "mode_kind m \<noteq> Resolve"
  "mode_kind m \<noteq> UpdateBranch" "mode_kind m \<noteq> FixChecks" "mode_kind m \<noteq> ResolveComments"
  by (cases m; simp)+

lemma detect_blockers_git:
  "ri_git input = Some git \<Longrightarrow>
   detect_blockers input = tree_blockers git @ publish_blockers git (ri_pr input) @
     gate_blockers input git @ thread_blockers input"
  by (simp add: detect_blockers_def)

lemma tree_clear:
  assumes "ri_git input = Some git" and "find_kind (detect_blockers input) ''conflicted'' = None"
    and "find_kind (detect_blockers input) ''uncommitted'' = None"
  shows "gs_files git = []"
proof (rule ccontr)
  assume "gs_files git \<noteq> []"
  then obtain b where "b \<in> set (tree_blockers git)" "blocker_kind b \<in> {''conflicted'', ''uncommitted''}"
    by (cases "filter (\<lambda>f. f_kind f = SkConflicted) (gs_files git) = []")
       (auto simp: tree_blockers_def Let_def)
  with assms(2,3) show False by (auto simp: detect_blockers_git [OF assms(1)] find_kind_None)
qed

lemma all_pushed:
  assumes "ri_git input = Some git" and "find_kind (detect_blockers input) ''unpushed'' = None"
  shows "gs_unpushed git = 0"
proof (rule ccontr)
  assume "gs_unpushed git \<noteq> 0"
  then have "Unpushed (gs_unpushed git) \<in> set (publish_blockers git (ri_pr input))"
    by (simp add: publish_blockers_def Let_def)
  then have "Unpushed (gs_unpushed git) \<in> set (detect_blockers input)"
    by (simp add: detect_blockers_git [OF assms(1)])
  from find_kind_is_Some [OF this] assms(2) show False by simp
qed

lemma thread_blockers_shape:
  "\<exists>theirs ours. thread_blockers input =
     (if theirs > 0 then [ReviewUnaddressed theirs] else []) @
     (if ours > 0 then [ReviewDisputed ours] else [])"
  unfolding thread_blockers_def Let_def by blast

lemma unsubmitted_not_open:
  assumes "ri_git input = Some git" and "Unsubmitted \<in> set (detect_blockers input)"
  shows "\<not> is_open (ri_pr input)"
proof -
  have "Unsubmitted \<notin> set (tree_blockers git)"
    unfolding tree_blockers_def Let_def by simp
  moreover have "Unsubmitted \<notin> set (thread_blockers input)"
    using thread_blockers_shape [of input] by auto
  moreover have "Unsubmitted \<notin> set (gate_blockers input git)"
    by (cases "ri_pr input") (auto simp: gate_blockers_def split: situation.split)
  ultimately have "Unsubmitted \<in> set (publish_blockers git (ri_pr input))"
    using assms(2) by (simp add: detect_blockers_git [OF assms(1)])
  then show ?thesis
    by (cases "ri_pr input") (auto simp: publish_blockers_def is_open_def Let_def split: if_splits)
qed

lemma no_diverged: "find_kind bs ''diverged'' = None \<Longrightarrow> Diverged m \<in> set bs \<Longrightarrow> False"
  by (auto simp: find_kind_None)

lemma only_reviews_left:
  assumes "find_kind bs ''conflicted'' = None" "find_kind bs ''uncommitted'' = None"
    "find_kind bs ''unsubmitted'' = None" "find_kind bs ''unpushed'' = None"
    "find_kind bs ''diverged'' = None" "find_kind bs ''checks-failing'' = None"
    "find_kind bs ''review-required'' = None" "find_kind bs ''draft'' = None"
    "find_kind bs ''proposal-closed'' = None" "other \<in> set bs"
  shows "blocker_kind other \<in> {''review-unaddressed'', ''review-disputed''}"
  using assms unfolding find_kind_None by (cases other) (simp_all only:, auto)

lemma ladder_covers:
  assumes "b \<in> set (detect_blockers input)"
  shows "\<exists>x \<in> set (ladder input ctx). fires (detect_blockers input) x"
  using find_kind_is_Some [OF assms refl]
  by (cases b) (simp_all add: ladder_def fires_def)

lemma next_rung_ladder:
  assumes "next_rung input ctx = r" and "r \<noteq> Landed" and "r \<noteq> RungWait UnknownState"
  shows "first_arm (detect_blockers input) (ladder input ctx) (settled_rung input) = r"
  using assms by (auto simp: next_rung_def split: option.splits if_splits)

text \<open>What each remedy finds already done: the rungs above it in the ladder.\<close>

definition remedy_ready :: "readiness_input \<Rightarrow> git_state \<Rightarrow> delegation_kind \<Rightarrow> blocker \<Rightarrow> bool" where
  "remedy_ready input git k b =
     (case k of
        Resolve \<Rightarrow> \<exists>paths. b = Conflicted paths
      | OpenPr \<Rightarrow> gs_files git = [] \<and> \<not> is_open (ri_pr input) \<and> b = Unsubmitted
      | Push \<Rightarrow> gs_files git = [] \<and> (\<exists>n. b = Unpushed n)
      | UpdateBranch \<Rightarrow> gs_files git = [] \<and> gs_unpushed git = 0 \<and> (\<exists>m. b = Diverged m)
      | FixChecks \<Rightarrow> gs_files git = [] \<and> gs_unpushed git = 0 \<and> (\<exists>names. b = ChecksFailing names) \<and>
          (\<forall>m. Diverged m \<notin> set (detect_blockers input))
      | ResolveComments \<Rightarrow> gs_files git = [] \<and> (\<exists>n. b = ReviewUnaddressed n) \<and>
          (is_open (ri_pr input) \<longrightarrow> gs_unpushed git = 0 \<and>
             (\<forall>other \<in> set (detect_blockers input).
                blocker_kind other \<in> {''review-unaddressed'', ''review-disputed''}))
      | _ \<Rightarrow> \<exists>n. b = Uncommitted n)"

lemma ladder_facts:
  assumes "next_rung input ctx = Delegate k act ps b" and "ri_git input = Some git"
  shows "act = action k \<and> b \<in> set (detect_blockers input) \<and> remedy_ready input git k b"
proof -
  let ?bs = "detect_blockers input"
  have run: "first_arm ?bs (ladder input ctx) (settled_rung input) = Delegate k act ps b"
    by (rule next_rung_ladder [OF assms(1)]) simp_all
  have settled: "settled_rung input \<noteq> Delegate k act ps b"
    by (simp add: settled_rung_def split: option.splits)
  note clear = tree_clear [OF assms(2)] all_pushed [OF assms(2)]
  note delegates = delegate_def commit_rung_def resolve_comments_rung_def fix_checks_rung_def
  show ?thesis
  proof (cases "find_kind ?bs ''conflicted''")
    case (Some c)
    with run find_kind_Some [OF Some] show ?thesis
      by (simp add: ladder_def delegates remedy_ready_def blocker_kind_cases)
  next
    case conflicted: None
    show ?thesis
    proof (cases "find_kind ?bs ''uncommitted''")
      case (Some c)
      with run conflicted find_kind_Some [OF Some] show ?thesis
        by (auto simp: ladder_def delegates remedy_ready_def blocker_kind_cases Let_def
            split: delegation_kind.splits if_splits dest: sym)
    next
      case uncommitted: None
      note not_open = unsubmitted_not_open [OF assms(2)]
      note only_reviews = only_reviews_left [OF conflicted uncommitted]
      from clear(1) [OF conflicted uncommitted] have clean: "gs_files git = []" .
      show ?thesis
        using run settled conflicted uncommitted clean
        by (auto simp: ladder_def delegates remedy_ready_def blocker_kind_cases clear(2)
            split: option.splits if_splits
            dest: not_open no_diverged only_reviews dest!: find_kind_Some)
    qed
  qed
qed

text \<open>What each remedy is due for, read off the facts and not off the blockers.\<close>

definition has_conflict :: "git_state \<Rightarrow> bool" where
  "has_conflict git \<longleftrightarrow> (\<exists>f \<in> set (gs_files git). f_kind f = SkConflicted)"

definition unproposed :: "readiness_input \<Rightarrow> git_state \<Rightarrow> bool" where
  "unproposed input git \<longleftrightarrow>
     (case ri_pr input of None \<Rightarrow> gs_ahead git > 0 | Some p \<Rightarrow> ps_state p = PrMerged \<and> gs_unpushed git > 0)"

definition unanswered :: "readiness_input \<Rightarrow> bool" where
  "unanswered input \<longleftrightarrow>
     (ri_pr input = None \<or> is_open (ri_pr input)) \<and>
     (\<exists>c. ri_comments input = Some c \<and> (\<exists>t \<in> set (unresolved c). \<not> t_we_replied_last t))"

definition situation_in :: "readiness_input \<Rightarrow> situation set \<Rightarrow> bool" where
  "situation_in input S \<longleftrightarrow>
     (\<exists>pr. ri_pr input = Some pr \<and> ps_state pr = PrOpen \<and> mg_situation (input_gate input pr) \<in> S)"

definition remedy_due :: "readiness_input \<Rightarrow> git_state \<Rightarrow> ladder_context \<Rightarrow> delegation_kind \<Rightarrow> bool" where
  "remedy_due input git ctx k \<longleftrightarrow>
     (if has_conflict git then k = Resolve
      else if gs_files git \<noteq> []
      then k = (case lc_commit_mode ctx of
                  ModeCommit \<Rightarrow> Commit | ModeCommitPush \<Rightarrow> CommitPush
                | ModeCommitPr \<Rightarrow> if is_open (ri_pr input) then CommitPush else CommitPr)
      else
        (let fixed = gs_unpushed git = 0 \<and> is_open (ri_pr input)
         in k = OpenPr \<and> unproposed input git \<and> \<not> unanswered input \<or>
            k = Push \<and> gs_unpushed git > 0 \<and> \<not> unproposed input git \<and> (is_open (ri_pr input) \<or> \<not> unanswered input) \<or>
            k = UpdateBranch \<and> fixed \<and> situation_in input {SitConflicts, SitBehind} \<or>
            k = FixChecks \<and> fixed \<and> situation_in input {SitChecksFailing} \<or>
            k = ResolveComments \<and> unanswered input \<and>
              (\<not> is_open (ri_pr input) \<or>
               fixed \<and> \<not> situation_in input {SitConflicts, SitBehind, SitChecksFailing, SitReviewRequired, SitDraft})))"

lemma some_unanswered:
  "length ts - length (filter t_we_replied_last ts) > 0 \<longleftrightarrow> (\<exists>t \<in> set ts. \<not> t_we_replied_last t)"
proof -
  have "length ts = length (filter t_we_replied_last ts) + length (filter (\<lambda>t. \<not> t_we_replied_last t) ts)"
    using sum_length_filter_compl [of t_we_replied_last ts] by simp
  then have "length ts - length (filter t_we_replied_last ts) = length (filter (\<lambda>t. \<not> t_we_replied_last t) ts)" by simp
  then show ?thesis by (simp add: filter_empty_conv)
qed

lemma blockers_found:
  assumes "ri_git input = Some git"
  defines "found \<equiv> \<lambda>k. find_kind (detect_blockers input) k \<noteq> None"
  shows "found ''conflicted'' \<longleftrightarrow> has_conflict git"
    "found ''uncommitted'' \<longleftrightarrow> \<not> has_conflict git \<and> gs_files git \<noteq> []"
    "found ''unpushed'' \<longleftrightarrow> gs_unpushed git > 0"
    "found ''unsubmitted'' \<longleftrightarrow> unproposed input git"
    "found ''diverged'' \<longleftrightarrow> situation_in input {SitConflicts, SitBehind}"
    "found ''checks-failing'' \<longleftrightarrow> situation_in input {SitChecksFailing}"
    "found ''review-required'' \<longleftrightarrow> situation_in input {SitReviewRequired}"
    "found ''draft'' \<longleftrightarrow> situation_in input {SitDraft}"
    "found ''proposal-closed'' \<longleftrightarrow> (\<exists>pr. ri_pr input = Some pr \<and> ps_state pr = PrClosed)"
    "found ''review-unaddressed'' \<longleftrightarrow> unanswered input"
proof -
  have set: "found k \<longleftrightarrow> (\<exists>b \<in> set (detect_blockers input). blocker_kind b = k)" for k
    unfolding found_def find_kind_None by blast
  have tree: "b \<in> set (tree_blockers git) \<longleftrightarrow>
      (if has_conflict git then b = Conflicted (map f_path (filter (\<lambda>f. f_kind f = SkConflicted) (gs_files git)))
       else gs_files git \<noteq> [] \<and> b = Uncommitted (length (gs_files git)))" for b
    by (auto simp: tree_blockers_def has_conflict_def Let_def filter_empty_conv)
  have publish: "b \<in> set (publish_blockers git (ri_pr input)) \<longleftrightarrow>
      gs_unpushed git > 0 \<and> b = Unpushed (gs_unpushed git) \<or> unproposed input git \<and> b = Unsubmitted \<or>
      b = ProposalClosed \<and> (\<exists>pr. ri_pr input = Some pr \<and> ps_state pr = PrClosed)" for b
    by (auto simp: publish_blockers_def unproposed_def Let_def split: option.splits)
  have gate: "b \<in> set (gate_blockers input git) \<longleftrightarrow>
      situation_in input {SitConflicts, SitBehind} \<and> b = Diverged (gs_parent_branch git) \<or>
      situation_in input {SitChecksFailing} \<and> b = ChecksFailing (failing_checks input) \<or>
      situation_in input {SitReviewRequired} \<and> b = ReviewRequired \<or> situation_in input {SitDraft} \<and> b = Draft" for b
    by (cases "ri_pr input") (auto simp: gate_blockers_def situation_in_def split: situation.splits)
  define ts where "ts = (if case ri_pr input of None \<Rightarrow> True | Some p \<Rightarrow> ps_state p = PrOpen
      then (case ri_comments input of Some c \<Rightarrow> unresolved c | None \<Rightarrow> []) else [])"
  have open_pr: "(case ri_pr input of None \<Rightarrow> True | Some p \<Rightarrow> ps_state p = PrOpen) \<longleftrightarrow> ri_pr input = None \<or> is_open (ri_pr input)"
    by (auto simp: is_open_def split: option.splits)
  have wait: "unanswered input \<longleftrightarrow> (\<exists>t \<in> set ts. \<not> t_we_replied_last t)"
  proof (cases "ri_pr input = None \<or> is_open (ri_pr input)")
    case True
    then have "ts = (case ri_comments input of Some c \<Rightarrow> unresolved c | None \<Rightarrow> [])" by (simp only: ts_def open_pr if_True)
    with True show ?thesis by (cases "ri_comments input") (simp_all add: unanswered_def)
  next
    case False
    then have "ts = []" by (simp only: ts_def open_pr if_False)
    with False show ?thesis by (simp add: unanswered_def)
  qed
  have threads: "b \<in> set (thread_blockers input) \<longleftrightarrow>
      unanswered input \<and> b = ReviewUnaddressed (length ts - length (filter t_we_replied_last ts)) \<or>
      length (filter t_we_replied_last ts) > 0 \<and> b = ReviewDisputed (length (filter t_we_replied_last ts))" for b
    unfolding thread_blockers_def ts_def [symmetric] Let_def wait some_unanswered [symmetric] by auto
  have kinds:
    "(\<exists>b \<in> set (tree_blockers git). blocker_kind b = k) \<longleftrightarrow>
       has_conflict git \<and> k = ''conflicted'' \<or> \<not> has_conflict git \<and> gs_files git \<noteq> [] \<and> k = ''uncommitted''"
    "(\<exists>b \<in> set (publish_blockers git (ri_pr input)). blocker_kind b = k) \<longleftrightarrow>
       gs_unpushed git > 0 \<and> k = ''unpushed'' \<or> unproposed input git \<and> k = ''unsubmitted'' \<or>
       k = ''proposal-closed'' \<and> (\<exists>pr. ri_pr input = Some pr \<and> ps_state pr = PrClosed)"
    "(\<exists>b \<in> set (gate_blockers input git). blocker_kind b = k) \<longleftrightarrow>
       situation_in input {SitConflicts, SitBehind} \<and> k = ''diverged'' \<or> situation_in input {SitChecksFailing} \<and> k = ''checks-failing'' \<or>
       situation_in input {SitReviewRequired} \<and> k = ''review-required'' \<or> situation_in input {SitDraft} \<and> k = ''draft''"
    "(\<exists>b \<in> set (thread_blockers input). blocker_kind b = k) \<longleftrightarrow>
       unanswered input \<and> k = ''review-unaddressed'' \<or> length (filter t_we_replied_last ts) > 0 \<and> k = ''review-disputed''" for k
    unfolding Bex_def tree publish gate threads by (auto split: if_splits)
  have parts: "found k \<longleftrightarrow>
      (\<exists>b \<in> set (tree_blockers git). blocker_kind b = k) \<or> (\<exists>b \<in> set (publish_blockers git (ri_pr input)). blocker_kind b = k) \<or>
      (\<exists>b \<in> set (gate_blockers input git). blocker_kind b = k) \<or> (\<exists>b \<in> set (thread_blockers input). blocker_kind b = k)" for k
    unfolding set detect_blockers_git [OF assms(1)] by auto
  show "found ''conflicted'' \<longleftrightarrow> has_conflict git"
    "found ''uncommitted'' \<longleftrightarrow> \<not> has_conflict git \<and> gs_files git \<noteq> []"
    "found ''unpushed'' \<longleftrightarrow> gs_unpushed git > 0"
    "found ''unsubmitted'' \<longleftrightarrow> unproposed input git"
    "found ''diverged'' \<longleftrightarrow> situation_in input {SitConflicts, SitBehind}"
    "found ''checks-failing'' \<longleftrightarrow> situation_in input {SitChecksFailing}"
    "found ''review-required'' \<longleftrightarrow> situation_in input {SitReviewRequired}"
    "found ''draft'' \<longleftrightarrow> situation_in input {SitDraft}"
    "found ''proposal-closed'' \<longleftrightarrow> (\<exists>pr. ri_pr input = Some pr \<and> ps_state pr = PrClosed)"
    "found ''review-unaddressed'' \<longleftrightarrow> unanswered input"
    unfolding parts kinds by simp_all
qed

definition hands :: "rung \<Rightarrow> delegation_kind \<Rightarrow> bool" where
  "hands r k \<longleftrightarrow> (\<exists>act ps b. r = Delegate k act ps b)"

lemma hands_simps [simp]:
  "hands (Delegate k' act ps b) k \<longleftrightarrow> k = k'" "\<not> hands Merge k" "\<not> hands (Escalate b) k" "\<not> hands (RungWait y) k"
  "\<not> hands Landed k" "\<not> hands RungReady k"
  by (auto simp: hands_def)

lemma hands_arm:
  "hands (first_arm bs ((kind, g, arm) # arms) r) k \<longleftrightarrow>
     (if find_kind bs kind \<noteq> None \<and> g then hands (arm (the (find_kind bs kind))) k else hands (first_arm bs arms r) k)"
  by (auto split: option.splits)

lemma hands_each:
  "hands (delegate k' ps b) k \<longleftrightarrow> k = k'" "hands (resolve_comments_rung b) k \<longleftrightarrow> k = ResolveComments"
  "hands (fix_checks_rung b) k \<longleftrightarrow> k = FixChecks" "\<not> hands (settled_rung input) k"
  "hands (commit_rung ctx pr b) k \<longleftrightarrow> k = (case lc_commit_mode ctx of
     ModeCommit \<Rightarrow> Commit | ModeCommitPush \<Rightarrow> CommitPush | ModeCommitPr \<Rightarrow> if is_open pr then CommitPush else CommitPr)"
  by (auto simp: delegate_def resolve_comments_rung_def fix_checks_rung_def settled_rung_def commit_rung_def Let_def
      split: option.split commit_mode.split)

lemma situation_open: "situation_in input S \<Longrightarrow> is_open (ri_pr input)"
  by (auto simp: situation_in_def is_open_def)

lemma situation_apart:
  "situation_in input {SitConflicts, SitBehind} \<Longrightarrow> \<not> situation_in input {SitChecksFailing}"
  "situation_in input {SitConflicts, SitBehind, SitChecksFailing, SitReviewRequired, SitDraft} \<longleftrightarrow>
     situation_in input {SitConflicts, SitBehind} \<or> situation_in input {SitChecksFailing} \<or>
     situation_in input {SitReviewRequired} \<or> situation_in input {SitDraft}"
  by (auto simp: situation_in_def)

lemma remedy_iff:
  assumes "ri_git input = Some git"
  shows "(\<exists>act ps b. next_rung input ctx = Delegate k act ps b) \<longleftrightarrow> remedy_due input git ctx k"
proof -
  note found = blockers_found [OF assms]
  have opens: "is_open (ri_pr input) \<Longrightarrow> \<not> unproposed input git \<and> \<not> (\<exists>pr. ri_pr input = Some pr \<and> ps_state pr = PrClosed)"
    by (auto simp: is_open_def unproposed_def split: option.splits)
  have shut: "(\<exists>pr. ri_pr input = Some pr \<and> ps_state pr = PrClosed) \<Longrightarrow> \<not> unanswered input \<and> \<not> unproposed input git"
    by (auto simp: is_open_def unanswered_def unproposed_def split: option.splits)
  show ?thesis
  proof (cases "(case ri_pr input of Some p \<Rightarrow> ps_state p = PrMerged | None \<Rightarrow> False) \<and> \<not> has_work_since_merge git")
    case True
    then have "next_rung input ctx = Landed" by (simp add: next_rung_def assms)
    moreover from True obtain pr where pr: "ri_pr input = Some pr" "ps_state pr = PrMerged" by (auto split: option.splits)
    from True have "gs_files git = []" "gs_unpushed git = 0" by (simp_all add: has_work_since_merge_def)
    with pr have "\<not> remedy_due input git ctx k"
      by (auto simp: remedy_due_def has_conflict_def unproposed_def unanswered_def situation_in_def is_open_def Let_def)
    ultimately show ?thesis by simp
  next
    case False
    then have run: "next_rung input ctx = first_arm (detect_blockers input) (ladder input ctx) (settled_rung input)"
      by (auto simp: next_rung_def assms)
    have "hands (next_rung input ctx) k \<longleftrightarrow> remedy_due input git ctx k"
      unfolding run ladder_def hands_arm found hands_each remedy_due_def Let_def situation_apart(2)
      using opens shut situation_open [of input] situation_apart(1) [of input]
      by (cases "is_open (ri_pr input)"; cases "has_conflict git"; cases "gs_files git = []"; cases "gs_unpushed git = 0";
        cases "unanswered input"; cases "unproposed input git"; simp add: hands_each; blast?)
    then show ?thesis by (simp add: hands_def)
  qed
qed

text \<open>
  Claim C18. The ladder hands out exactly the remedy the facts call for. A conflict is resolved first, then
  the tree is committed; on a clean tree with no open pull request review threads come before it is
  proposed or pushed, and new work is proposed before it is pushed; with one open the branch is
  pushed, then updated, then its checks are fixed, and a review is answered only when the gate waits on no
  one else. A remedy carries its kind's playbook and a blocker that was detected.
\<close>

theorem ladder_order:
  assumes "ri_git input = Some git"
  shows "((\<exists>act ps b. next_rung input ctx = Delegate k act ps b) \<longleftrightarrow> remedy_due input git ctx k) \<and>
    (\<forall>act ps b. next_rung input ctx = Delegate k act ps b \<longrightarrow>
       act = action k \<and> b \<in> set (detect_blockers input) \<and> remedy_ready input git k b)"
proof (intro conjI allI impI)
  fix act ps b
  assume "next_rung input ctx = Delegate k act ps b"
  from ladder_facts [OF this assms] show "act = action k" "b \<in> set (detect_blockers input)" "remedy_ready input git k b"
    by simp_all
next
  show "(\<exists>act ps b. next_rung input ctx = Delegate k act ps b) \<longleftrightarrow> remedy_due input git ctx k"
    by (rule remedy_iff [OF assms])
qed

lemma ladder_arms:
  assumes "(kind, g, arm) \<in> set (ladder input ctx)"
  shows "(\<exists>k act ps. arm b = Delegate k act ps b) \<or> arm b = Escalate b"
  using assms
  by (auto simp: ladder_def delegate_def commit_rung_def resolve_comments_rung_def fix_checks_rung_def Let_def)

text \<open>A rung that hands nothing over means that nothing was detected, and the gate decided.\<close>

lemma quiet_rung:
  assumes "next_rung input ctx = r" and "r \<in> {Merge, RungReady, RungWait GateComputing}"
  shows "detect_blockers input = [] \<and> settled_rung input = r"
proof -
  have run: "first_arm (detect_blockers input) (ladder input ctx) (settled_rung input) = r"
    by (rule next_rung_ladder [OF assms(1)]) (use assms(2) in auto)
  show ?thesis
  proof (cases rule: first_arm_cases [of "ladder input ctx" "detect_blockers input" "settled_rung input"])
    case (arm before kind arm after b)
    then have "(kind, True, arm) \<in> set (ladder input ctx)" by simp
    with ladder_arms [of kind True arm input ctx b] arm(5) run assms(2) show ?thesis by auto
  next
    case none
    then have "detect_blockers input = []" using ladder_covers by (metis list.set_intros(1) neq_Nil_conv)
    with none run show ?thesis by simp
  qed
qed

lemma thread_blockers_Nil:
  assumes "is_open (ri_pr input)"
  shows "thread_blockers input = [] \<longleftrightarrow> (\<forall>cm. ri_comments input = Some cm \<longrightarrow> unresolved cm = [])"
proof -
  define ts where "ts = (case ri_comments input of Some c \<Rightarrow> unresolved c | None \<Rightarrow> [])"
  have open_pr: "(case ri_pr input of None \<Rightarrow> True | Some p \<Rightarrow> ps_state p = PrOpen) = True"
    using assms by (auto simp: is_open_def split: option.splits)
  have "thread_blockers input = [] \<longleftrightarrow>
      \<not> length ts - length (filter t_we_replied_last ts) > 0 \<and> \<not> length (filter t_we_replied_last ts) > 0"
    unfolding thread_blockers_def Let_def open_pr ts_def by auto
  also have "\<dots> \<longleftrightarrow> ts = []" by auto
  finally show ?thesis unfolding ts_def by (cases "ri_comments input") auto
qed

lemma tree_blockers_Nil: "tree_blockers git = [] \<longleftrightarrow> gs_files git = []"
  by (auto simp: tree_blockers_def Let_def filter_empty_conv)

text \<open>
  Claim C7. The ladder says \<open>Merge\<close> exactly when the checkout is clean and pushed, its pull request is
  open with no unresolved review thread, and the forge's gate has settled open: clean, or
  unstable with no failing check. Without a checks read, or with the gate still computing, it
  never does; and it reports nothing to do only when no blocker was detected.
\<close>

theorem merge_only_when_clear:
  "(next_rung input ctx = Merge \<longleftrightarrow>
     (\<exists>git p c. ri_git input = Some git \<and> ri_pr input = Some p \<and> ri_checks input = Some c \<and>
        ps_state p = PrOpen \<and> gs_files git = [] \<and> gs_unpushed git = 0 \<and>
        (pc_merge_state c = MsClean \<or> pc_merge_state c = MsUnstable \<and> pc_required_failing c = []) \<and>
        (\<forall>cm. ri_comments input = Some cm \<longrightarrow> unresolved cm = []))) \<and>
   (next_rung input ctx \<in> {Merge, RungReady, RungWait GateComputing} \<longrightarrow> detect_blockers input = [])"
proof (intro conjI impI)
  show "next_rung input ctx \<in> {Merge, RungReady, RungWait GateComputing} \<Longrightarrow> detect_blockers input = []"
    using quiet_rung by blast
  show "next_rung input ctx = Merge \<longleftrightarrow>
     (\<exists>git p c. ri_git input = Some git \<and> ri_pr input = Some p \<and> ri_checks input = Some c \<and>
        ps_state p = PrOpen \<and> gs_files git = [] \<and> gs_unpushed git = 0 \<and>
        (pc_merge_state c = MsClean \<or> pc_merge_state c = MsUnstable \<and> pc_required_failing c = []) \<and>
        (\<forall>cm. ri_comments input = Some cm \<longrightarrow> unresolved cm = []))" (is "_ \<longleftrightarrow> ?clear")
  proof
    assume merge: "next_rung input ctx = Merge"
    then obtain git where git: "ri_git input = Some git" by (auto simp: next_rung_def split: option.splits)
    from quiet_rung [OF merge] have none: "detect_blockers input = []" and settled: "settled_rung input = Merge"
      by simp_all
    from settled obtain p where p: "ri_pr input = Some p" "ps_state p = PrOpen"
      "mg_merge_allowed (input_gate input p)"
      by (auto simp: settled_rung_def split: option.splits if_splits)
    then obtain c where c: "ri_checks input = Some c" "pc_merge_state c \<in> {MsClean, MsUnstable}"
      by (cases "ri_checks input")
         (auto simp: input_gate_def describe_merge_gate_def gate_def
            split: mergeable_state.splits merge_state.splits if_splits)
    have parts: "tree_blockers git = []" "publish_blockers git (ri_pr input) = []"
      "gate_blockers input git = []" "thread_blockers input = []"
      using none by (simp_all add: detect_blockers_git [OF git])
    have "pc_required_failing c = []" if "pc_merge_state c = MsUnstable"
      using parts(3) that p c
      by (auto simp: gate_blockers_def input_gate_def describe_merge_gate_def gate_def failing_checks_def
          split: if_splits)
    moreover have "gs_unpushed git = 0"
      using parts(2) by (auto simp: publish_blockers_def Let_def split: if_splits)
    ultimately show ?clear
      using git p c parts(1,4) tree_blockers_Nil thread_blockers_Nil [of input]
      by (auto simp: is_open_def)
  next
    assume ?clear
    then obtain git p c where git: "ri_git input = Some git" and p: "ri_pr input = Some p" "ps_state p = PrOpen"
      and c: "ri_checks input = Some c"
        "pc_merge_state c = MsClean \<or> pc_merge_state c = MsUnstable \<and> pc_required_failing c = []"
      and clean: "gs_files git = []" "gs_unpushed git = 0"
      and threads: "\<forall>cm. ri_comments input = Some cm \<longrightarrow> unresolved cm = []"
      by blast
    have gate: "mg_situation (input_gate input p) \<in> {SitReady, SitMergeableSoft}"
      "mg_merge_allowed (input_gate input p)"
      using c by (auto simp: input_gate_def describe_merge_gate_def gate_def failing_checks_def)
    have "tree_blockers git = []" "thread_blockers input = []"
      using clean threads p by (simp_all add: tree_blockers_Nil thread_blockers_Nil is_open_def)
    moreover have "publish_blockers git (ri_pr input) = []"
      using clean p by (simp add: publish_blockers_def)
    moreover have "gate_blockers input git = []" using gate p by (auto simp: gate_blockers_def)
    ultimately have "detect_blockers input = []" by (simp add: detect_blockers_git [OF git])
    then have "first_arm (detect_blockers input) (ladder input ctx) (settled_rung input) = settled_rung input"
      by (simp add: ladder_def find_kind_def)
    moreover have "settled_rung input = Merge" using gate p by (auto simp: settled_rung_def)
    ultimately show "next_rung input ctx = Merge" using git p by (simp add: next_rung_def)
  qed
qed

end
