(* ===== verification/Ap_Step.thy ===== *)
theory Ap_Step
  imports Ap_Readiness
begin

text \<open>
  The autopilot policy (\<open>autopilot/step.rs\<close>): the per-checkout state and its transitions, the two
  fingerprints, and the decision \<open>autopilot_step\<close>. Times are epoch milliseconds (\<open>i64\<close>), as \<open>int\<close>.
\<close>

definition autopilot_rungs :: "delegation_kind list" where
  "autopilot_rungs = [FixChecks, Resolve, UpdateBranch, ResolveComments]"

fun rung_budget :: "delegation_kind \<Rightarrow> nat" where
  "rung_budget FixChecks = 3"
| "rung_budget Resolve = 2"
| "rung_budget UpdateBranch = 2"
| "rung_budget ResolveComments = 2"
| "rung_budget _ = 0"

datatype evidence = EvVerify | EvState

fun rung_evidence :: "delegation_kind \<Rightarrow> evidence" where
  "rung_evidence FixChecks = EvVerify"
| "rung_evidence _ = EvState"

definition evidence_timeout_ms :: int where "evidence_timeout_ms = 15 * 60 * 1000"

datatype cycle_phase = Working | AwaitingEvidence

record cycle =
  c_rung :: delegation_kind
  c_attempt :: nat
  c_signature :: string
  c_phase :: cycle_phase
  c_phase_since :: int

datatype give_up_reason = GuBudgetSpent | GuNoProgress | GuNoEvidence

fun give_up_reason_as_str :: "give_up_reason \<Rightarrow> string" where
  "give_up_reason_as_str GuBudgetSpent = ''budget-spent''"
| "give_up_reason_as_str GuNoProgress = ''no-progress''"
| "give_up_reason_as_str GuNoEvidence = ''no-evidence''"

record autopilot_state =
  as_enrolled :: bool
  as_cycle :: "cycle option"
  as_attempts :: "delegation_kind \<rightharpoonup> nat"
  as_situation :: string
  as_barren :: "string list"

definition autopilot_enrolled :: autopilot_state where
  "autopilot_enrolled =
     \<lparr>as_enrolled = True, as_cycle = None, as_attempts = Map.empty, as_situation = [], as_barren = []\<rparr>"

definition attempts_of :: "autopilot_state \<Rightarrow> delegation_kind \<Rightarrow> nat" where
  "attempts_of st r = (case as_attempts st r of Some n \<Rightarrow> n | None \<Rightarrow> 0)"

definition open_cycle ::
  "delegation_kind \<Rightarrow> string \<Rightarrow> string \<Rightarrow> int \<Rightarrow> autopilot_state \<Rightarrow> autopilot_state" where
  "open_cycle r signature situation now st =
     (let st = (if as_situation st \<noteq> situation then st\<lparr>as_attempts := Map.empty\<rparr> else st);
          st = st\<lparr>as_situation := situation\<rparr>
      in st\<lparr>as_cycle := Some \<lparr>c_rung = r, c_attempt = attempts_of st r + 1, c_signature = signature,
                             c_phase = Working, c_phase_since = now\<rparr>\<rparr>)"

definition advance :: "cycle_phase \<Rightarrow> int \<Rightarrow> autopilot_state \<Rightarrow> autopilot_state" where
  "advance phase now st =
     st\<lparr>as_cycle := map_option (\<lambda>c. c\<lparr>c_phase := phase, c_phase_since := now\<rparr>) (as_cycle st)\<rparr>"

definition settle :: "delegation_kind \<Rightarrow> autopilot_state \<Rightarrow> autopilot_state" where
  "settle r st = st\<lparr>as_cycle := None, as_attempts := (as_attempts st)(r \<mapsto> 0)\<rparr>"

definition retry :: "delegation_kind \<Rightarrow> string option \<Rightarrow> autopilot_state \<Rightarrow> autopilot_state" where
  "retry r barren st =
     (let st = st\<lparr>as_cycle := None, as_attempts := (as_attempts st)(r \<mapsto> attempts_of st r + 1)\<rparr>
      in case barren of
           None \<Rightarrow> st
         | Some b \<Rightarrow> if b \<in> set (as_barren st) then st else st\<lparr>as_barren := as_barren st @ [b]\<rparr>)"

section \<open>Fingerprints\<close>

definition conflicted_paths :: "git_state option \<Rightarrow> string list" where
  "conflicted_paths git =
     (case git of
        Some g \<Rightarrow> map f_path (filter (\<lambda>f. f_kind f = SkConflicted) (gs_files g))
      | None \<Rightarrow> [])"

definition thread_mark :: "pr_comment \<Rightarrow> string" where
  "thread_mark t = t_id t @ (if t_we_replied_last t then ''!'' else [])"

definition state_signature :: "readiness_input \<Rightarrow> string" where
  "state_signature input =
     (let sha = (case Option.bind (ri_git input) gs_head_sha of Some s \<Rightarrow> s | None \<Rightarrow> ''no-head'');
          failing = sort (failing_checks input);
          conflicted = sort (conflicted_paths (ri_git input));
          threads = sort (case ri_comments input of
                            Some c \<Rightarrow> map thread_mark (unresolved c) | None \<Rightarrow> [])
      in sha @ ''|'' @ join '','' failing @ ''|'' @ join '','' conflicted @ ''|'' @ join '','' threads)"

definition blocker_part :: "blocker \<Rightarrow> string" where
  "blocker_part b =
     (case b of
        ChecksFailing checks \<Rightarrow> blocker_kind b @ '':'' @ join '','' (sort checks)
      | Conflicted paths \<Rightarrow> blocker_kind b @ '':'' @ join '','' (sort paths)
      | ReviewUnaddressed n \<Rightarrow> blocker_kind b @ '':'' @ show_nat n
      | ReviewDisputed n \<Rightarrow> blocker_kind b @ '':'' @ show_nat n
      | _ \<Rightarrow> blocker_kind b)"

definition blocker_fingerprint :: "blocker list \<Rightarrow> string" where
  "blocker_fingerprint blockers = join ''|'' (sort (map blocker_part blockers))"

definition unstaged_edits :: "git_state option \<Rightarrow> nat" where
  "unstaged_edits git =
     (case git of
        Some g \<Rightarrow> length (filter (\<lambda>f. \<not> f_staged f \<and> f_kind f \<noteq> SkConflicted) (gs_files g))
      | None \<Rightarrow> 0)"

section \<open>The decision\<close>

datatype wait_reason =
    WrNotEnrolled | WrAgentBusy | WrDelegationInFlight | WrNoPr | WrNotMine | WrDirtyTree
  | WrNoProgress | WrBudgetSpent | WrGateSettling | WrAwaitingEvidence | WrNothingToDo

datatype effect =
    Dispatch delegation_kind string "string \<rightharpoonup> string" string string
  | Verify
  | AwaitEvidence
  | Settle delegation_kind
  | Retry delegation_kind "string option"
  | GiveUp delegation_kind give_up_reason "string option"
  | Wait wait_reason

record autopilot_input =
  ap_state :: "autopilot_state option"
  ap_readiness :: readiness_input
  ap_ladder :: ladder_context
  ap_agent_busy :: bool
  ap_delegation_in_flight :: bool
  ap_verification :: "verification_report option"
  ap_now :: int

text \<open>The \<open>failed\<close> and \<open>give_up\<close> closures of \<open>judge_cycle\<close>.\<close>

definition give_up :: "cycle \<Rightarrow> string option \<Rightarrow> give_up_reason \<Rightarrow> effect" where
  "give_up c barren reason = GiveUp (c_rung c) reason barren"

definition failed :: "cycle \<Rightarrow> autopilot_state \<Rightarrow> string option \<Rightarrow> effect" where
  "failed c st barren =
     (if (case barren of Some b \<Rightarrow> b \<in> set (as_barren st) | None \<Rightarrow> False)
      then give_up c barren GuNoProgress
      else if c_attempt c \<ge> rung_budget (c_rung c) then give_up c barren GuBudgetSpent
      else Retry (c_rung c) barren)"

definition judge_cycle :: "cycle \<Rightarrow> autopilot_state \<Rightarrow> autopilot_input \<Rightarrow> effect" where
  "judge_cycle c st input =
     (if c_phase c = Working
      then (if ap_agent_busy input \<or> ap_delegation_in_flight input then Wait WrAwaitingEvidence
            else (case rung_evidence (c_rung c) of EvVerify \<Rightarrow> Verify | EvState \<Rightarrow> AwaitEvidence))
      else
        (let moved = (state_signature (ap_readiness input) \<noteq> c_signature c);
             barren = (if moved then None else Some (c_signature c))
         in if rung_evidence (c_rung c) = EvVerify \<and>
               (case ap_verification input of Some v \<Rightarrow> \<not> report_passed v | None \<Rightarrow> False)
            then failed c st barren
            else
              (case next_rung (ap_readiness input) (ap_ladder input) of
                 RungWait _ \<Rightarrow>
                   if ap_now input - c_phase_since c > evidence_timeout_ms
                   then give_up c barren GuNoEvidence
                   else Wait WrAwaitingEvidence
               | r \<Rightarrow>
                   if (case r of Delegate kind _ _ _ \<Rightarrow> kind = c_rung c | _ \<Rightarrow> False) \<or> \<not> moved
                   then failed c st barren
                   else Settle (c_rung c))))"

text \<open>The \<open>Rung::Delegate\<close> arm of \<open>autopilot_step\<close>.\<close>

definition consider_rung ::
  "autopilot_state \<Rightarrow> readiness_input \<Rightarrow> delegation_kind \<Rightarrow> string \<Rightarrow> (string \<rightharpoonup> string) \<Rightarrow> effect" where
  "consider_rung st readiness kind act ps =
     (if kind \<notin> set autopilot_rungs then Wait WrNotMine
      else if kind = Resolve \<and> unstaged_edits (ri_git readiness) > 0 then Wait WrDirtyTree
      else
        (let signature = state_signature readiness
         in if signature \<in> set (as_barren st) then Wait WrNoProgress
            else
              (let situation = blocker_fingerprint (detect_blockers readiness);
                   spent = (if as_situation st = situation then attempts_of st kind else 0)
               in if spent \<ge> rung_budget kind then Wait WrBudgetSpent
                  else Dispatch kind act ps signature situation)))"

definition autopilot_step :: "autopilot_input \<Rightarrow> effect" where
  "autopilot_step input =
     (case ap_state input of
        None \<Rightarrow> Wait WrNotEnrolled
      | Some st \<Rightarrow>
          if \<not> as_enrolled st then Wait WrNotEnrolled
          else
            (case as_cycle st of
               Some c \<Rightarrow> judge_cycle c st input
             | None \<Rightarrow>
                 if \<not> is_open (ri_pr (ap_readiness input)) then Wait WrNoPr
                 else if ap_agent_busy input then Wait WrAgentBusy
                 else if ap_delegation_in_flight input then Wait WrDelegationInFlight
                 else
                   (case next_rung (ap_readiness input) (ap_ladder input) of
                      Delegate kind act ps _ \<Rightarrow> consider_rung st (ap_readiness input) kind act ps
                    | RungWait _ \<Rightarrow> Wait WrGateSettling
                    | _ \<Rightarrow> Wait WrNothingToDo)))"

section \<open>When a cycle opens\<close>

lemma autopilot_step_Dispatch:
  assumes "autopilot_step input = Dispatch r act ps sig sit"
  obtains st b where "ap_state input = Some st" "as_enrolled st" "as_cycle st = None"
    "is_open (ri_pr (ap_readiness input))" "\<not> ap_agent_busy input" "\<not> ap_delegation_in_flight input"
    "next_rung (ap_readiness input) (ap_ladder input) = Delegate r act ps b"
    "consider_rung st (ap_readiness input) r act ps = Dispatch r act ps sig sit"
proof -
  obtain st where st: "ap_state input = Some st" "as_enrolled st"
    using assms by (auto simp: autopilot_step_def split: option.splits if_splits)
  have idle: "as_cycle st = None"
    using assms st
    by (auto simp: autopilot_step_def judge_cycle_def failed_def give_up_def Let_def
        split: option.splits if_splits evidence.splits rung.splits)
  have only: "consider_rung st rd k a p = Dispatch r act ps sig sit \<Longrightarrow> k = r \<and> a = act \<and> p = ps"
    for rd k a p
    by (auto simp: consider_rung_def Let_def split: if_splits)
  obtain k a p b where run: "next_rung (ap_readiness input) (ap_ladder input) = Delegate k a p b"
    "consider_rung st (ap_readiness input) k a p = Dispatch r act ps sig sit"
    "is_open (ri_pr (ap_readiness input))" "\<not> ap_agent_busy input" "\<not> ap_delegation_in_flight input"
    using assms st idle by (auto simp: autopilot_step_def split: if_splits rung.splits)
  with only [OF run(2)] st idle that show ?thesis by blast
qed

lemma consider_rung_Dispatch:
  "consider_rung st rd k act ps = Dispatch k act ps sig sit \<longleftrightarrow>
     k \<in> set autopilot_rungs \<and> \<not> (k = Resolve \<and> unstaged_edits (ri_git rd) > 0) \<and>
     sig = state_signature rd \<and> sig \<notin> set (as_barren st) \<and>
     sit = blocker_fingerprint (detect_blockers rd) \<and>
     (if as_situation st = sit then attempts_of st k else 0) < rung_budget k"
  by (auto simp: consider_rung_def Let_def)

text \<open>
  Claim C3. Autopilot opens a cycle only for an enrolled checkout with no cycle in flight, an open pull
  request and an idle agent; only for one of its four rungs, as the ladder put it; never on a
  world already proven barren, never beyond the rung's budget for the situation, and never over
  work in progress: the tree is clean, or, for a conflict, holds no unstaged edit.
\<close>

theorem dispatch_guarded:
  assumes "autopilot_step input = Dispatch r act ps sig sit"
  shows "\<exists>st git. ap_state input = Some st \<and> as_enrolled st \<and> as_cycle st = None \<and>
    ri_git (ap_readiness input) = Some git \<and> is_open (ri_pr (ap_readiness input)) \<and>
    \<not> ap_agent_busy input \<and> \<not> ap_delegation_in_flight input \<and>
    r \<in> {FixChecks, Resolve, UpdateBranch, ResolveComments} \<and> act = action r \<and>
    (\<exists>b. next_rung (ap_readiness input) (ap_ladder input) = Delegate r act ps b) \<and>
    sig = state_signature (ap_readiness input) \<and> sig \<notin> set (as_barren st) \<and>
    sit = blocker_fingerprint (detect_blockers (ap_readiness input)) \<and>
    (as_situation st = sit \<longrightarrow> attempts_of st r < rung_budget r) \<and>
    (if r = Resolve then \<forall>f \<in> set (gs_files git). f_staged f \<or> f_kind f = SkConflicted
     else gs_files git = [] \<and> gs_unpushed git = 0)"
proof -
  obtain st b where st: "ap_state input = Some st" "as_enrolled st" "as_cycle st = None"
    "is_open (ri_pr (ap_readiness input))" "\<not> ap_agent_busy input" "\<not> ap_delegation_in_flight input"
    and rung: "next_rung (ap_readiness input) (ap_ladder input) = Delegate r act ps b"
    and ok: "consider_rung st (ap_readiness input) r act ps = Dispatch r act ps sig sit"
    using assms by (rule autopilot_step_Dispatch)
  from rung obtain git where git: "ri_git (ap_readiness input) = Some git"
    by (auto simp: next_rung_def split: option.splits)
  note ladder = ladder_facts [OF rung git]
  from ok have k: "r \<in> {FixChecks, Resolve, UpdateBranch, ResolveComments}"
    "\<not> (r = Resolve \<and> unstaged_edits (Some git) > 0)"
    by (auto simp: consider_rung_Dispatch autopilot_rungs_def git)
  have tree: "if r = Resolve then \<forall>f \<in> set (gs_files git). f_staged f \<or> f_kind f = SkConflicted
     else gs_files git = [] \<and> gs_unpushed git = 0"
    using k ladder st(4)
    by (auto simp: remedy_ready_def unstaged_edits_def filter_empty_conv)
  have "sig = state_signature (ap_readiness input)" "sig \<notin> set (as_barren st)"
    "sit = blocker_fingerprint (detect_blockers (ap_readiness input))"
    "as_situation st = sit \<longrightarrow> attempts_of st r < rung_budget r"
    using ok unfolding consider_rung_Dispatch by (auto split: if_splits)
  with st git rung k(1) ladder tree show ?thesis by blast
qed

section \<open>How a cycle ends\<close>

text \<open>
  A cycle in flight is judged on evidence alone: while the agent works nothing is decided, it
  settles only if the world moved, its own rung is no longer wanted and no local check failed,
  it ends as failed exactly when the project's own tests fail or the settled world still wants
  the rung or did not move, and on an unsettled world it waits, for fifteen minutes at most.
\<close>

theorem judge_correct:
  assumes "ap_state input = Some st" and "as_enrolled st" and "as_cycle st = Some c"
    and "moved \<longleftrightarrow> state_signature (ap_readiness input) \<noteq> c_signature c"
    and "red \<longleftrightarrow> c_rung c = FixChecks \<and> (\<exists>v. ap_verification input = Some v \<and> \<not> report_passed v)"
    and "unsettled \<longleftrightarrow> (\<exists>why. next_rung (ap_readiness input) (ap_ladder input) = RungWait why)"
    and "wanted \<longleftrightarrow> (\<exists>act ps b. next_rung (ap_readiness input) (ap_ladder input) = Delegate (c_rung c) act ps b)"
  shows "autopilot_step input =
    (if c_phase c = Working
     then (if ap_agent_busy input \<or> ap_delegation_in_flight input then Wait WrAwaitingEvidence
           else if c_rung c = FixChecks then Verify else AwaitEvidence)
     else if \<not> red \<and> unsettled
     then (if ap_now input - c_phase_since c > 900000
           then GiveUp (c_rung c) GuNoEvidence (if moved then None else Some (c_signature c))
           else Wait WrAwaitingEvidence)
     else if red \<or> wanted \<or> \<not> moved
     then failed c st (if moved then None else Some (c_signature c))
     else Settle (c_rung c))"
proof -
  have verify: "rung_evidence k = EvVerify \<longleftrightarrow> k = FixChecks" for k by (cases k) simp_all
  have run: "autopilot_step input = judge_cycle c st input"
    using assms(1-3) by (simp add: autopilot_step_def)
  show ?thesis
  proof (cases "c_phase c")
    case Working
    then show ?thesis
      unfolding run by (cases "c_rung c") (simp_all add: judge_cycle_def)
  next
    case AwaitingEvidence
    have red: "red \<longleftrightarrow> rung_evidence (c_rung c) = EvVerify \<and>
        (case ap_verification input of Some v \<Rightarrow> \<not> report_passed v | None \<Rightarrow> False)"
      unfolding assms(5) verify by (auto split: option.splits)
    show ?thesis
      unfolding run judge_cycle_def Let_def AwaitingEvidence red [symmetric] assms(4) [symmetric]
      using assms(6,7)
      by (cases "next_rung (ap_readiness input) (ap_ladder input)")
         (auto simp: give_up_def evidence_timeout_ms_def AwaitingEvidence)
  qed
qed

end
