(* ===== verification/Ap_Driver.thy ===== *)
theory Ap_Driver
  imports Ap_Step "HOL-Library.AList" "HOL-Library.Option_ord"
begin

text \<open>
  The host's table of enrolled checkouts (\<open>autopilot/mod.rs\<close>), the two switches
  (\<open>autopilot/store.rs\<close>) and the driver's pass over the table (\<open>autopilot/driver.rs\<close>). The
  \<open>World\<close> trait is a record of functions; a switch written by another task while a pass runs
  is the argument that says before which key it lands. Rows announced to clients are not
  kept: they are read off the table.
\<close>

text \<open>A checkout: the agent's id, and the subdirectory of a repo that is not its primary one.\<close>

type_synonym key = "string \<times> string option"

section \<open>The table\<close>

record threads_read =
  tr_at :: int
  tr_comments :: "pr_comments option"

record tracked =
  tk_state :: autopilot_state
  tk_verdict :: "verification_report option"
  tk_verifying :: bool
  tk_threads :: "threads_read option"

text \<open>The \<open>BTreeMap\<close> is an association list; its order is never observed.\<close>

record table =
  tb_inner :: "(key \<times> tracked) list"
  tb_generation :: nat

definition table_default :: table where
  "table_default = \<lparr>tb_inner = [], tb_generation = 0\<rparr>"

record cycle_view =
  cv_rung :: delegation_kind
  cv_attempt :: nat
  cv_phase :: cycle_phase
  cv_since :: int

definition cycle_view_of :: "autopilot_state \<Rightarrow> cycle_view option" where
  "cycle_view_of st =
     map_option (\<lambda>c. \<lparr>cv_rung = c_rung c, cv_attempt = c_attempt c, cv_phase = c_phase c,
                      cv_since = c_phase_since c\<rparr>) (as_cycle st)"

definition table_bump :: "table \<Rightarrow> table" where
  "table_bump tb = tb\<lparr>tb_generation := tb_generation tb + 1\<rparr>"

definition table_keys :: "table \<Rightarrow> key list" where
  "table_keys tb = map fst (tb_inner tb)"

definition table_get :: "table \<Rightarrow> key \<Rightarrow> tracked option" where
  "table_get tb k = map_of (tb_inner tb) k"

definition table_contains :: "table \<Rightarrow> key \<Rightarrow> bool" where
  "table_contains tb k \<longleftrightarrow> table_get tb k \<noteq> None"

definition tracked_new :: tracked where
  "tracked_new = \<lparr>tk_state = autopilot_enrolled, tk_verdict = None, tk_verifying = False, tk_threads = None\<rparr>"

definition table_enroll :: "key \<Rightarrow> table \<Rightarrow> table \<times> bool" where
  "table_enroll k tb =
     (if table_contains tb k then (tb, False)
      else (tb\<lparr>tb_inner := AList.update k tracked_new (tb_inner tb)\<rparr>, True))"

definition table_remove :: "key \<Rightarrow> table \<Rightarrow> table \<times> bool" where
  "table_remove k tb = (tb\<lparr>tb_inner := AList.delete k (tb_inner tb)\<rparr>, table_contains tb k)"

definition table_update :: "key \<Rightarrow> (tracked \<Rightarrow> tracked) \<Rightarrow> table \<Rightarrow> table" where
  "table_update k f tb =
     (case table_get tb k of
        None \<Rightarrow> tb
      | Some t \<Rightarrow> tb\<lparr>tb_inner := AList.update k (f t) (tb_inner tb)\<rparr>)"

definition cycle_of :: "table \<Rightarrow> key \<Rightarrow> cycle_view option" where
  "cycle_of tb k = Option.bind (table_get tb k) (\<lambda>t. cycle_view_of (tk_state t))"

definition pre_authorizes :: "table \<Rightarrow> string \<Rightarrow> string option \<Rightarrow> string \<Rightarrow> bool" where
  "pre_authorizes tb agent_id repo op \<longleftrightarrow> op = ''git_push'' \<and> table_contains tb (agent_id, repo)"

section \<open>Switches and agents\<close>

definition project_off :: "string \<Rightarrow> bool" where
  "project_off value \<longleftrightarrow> value = ''0'' \<or> value = ''false''"

record switches =
  sw_disabled_projects :: "string list"
  sw_paused_agents :: "string list"

definition project_on :: "switches \<Rightarrow> string \<Rightarrow> bool" where
  "project_on sw project_id \<longleftrightarrow> \<not> (\<exists>p \<in> set (sw_disabled_projects sw). p = project_id)"

definition agent_paused :: "switches \<Rightarrow> string \<Rightarrow> bool" where
  "agent_paused sw agent_id \<longleftrightarrow> (\<exists>a \<in> set (sw_paused_agents sw). a = agent_id)"

definition agent_on :: "switches \<Rightarrow> string \<Rightarrow> string \<Rightarrow> bool" where
  "agent_on sw project_id agent_id \<longleftrightarrow> project_on sw project_id \<and> \<not> agent_paused sw agent_id"

text \<open>What the driver reads of an agent's record: its project and its repos' subdirectories.\<close>

record agent_record =
  ag_id :: string
  ag_project_id :: string
  ag_repos :: "string list"

definition checkouts :: "agent_record \<Rightarrow> string option list" where
  "checkouts a = map (\<lambda>(i, subdir). if i > 0 then Some subdir else None)
                     (zip [0..<length (ag_repos a)] (ag_repos a))"

record autopilot_checkout =
  ac_agent_id :: string
  ac_subdir :: "string option"
  ac_project_id :: string
  ac_enrolled :: bool
  ac_paused :: bool
  ac_project_enabled :: bool
  ac_cycle :: "cycle_view option"

definition row :: "table \<Rightarrow> switches \<Rightarrow> agent_record \<Rightarrow> string option \<Rightarrow> autopilot_checkout" where
  "row tb sw a subdir =
     (let project_enabled = project_on sw (ag_project_id a);
          paused = agent_paused sw (ag_id a)
      in \<lparr>ac_agent_id = ag_id a, ac_subdir = subdir, ac_project_id = ag_project_id a,
          ac_enrolled = project_enabled \<and> \<not> paused, ac_paused = paused,
          ac_project_enabled = project_enabled, ac_cycle = cycle_of tb (ag_id a, subdir)\<rparr>)"

text \<open>
  The end of \<open>autopilot_set\<close>, once the switch is written: bump the generation and drop the
  checkouts of every affected agent that is now off.
\<close>

definition set_switch :: "switches \<Rightarrow> agent_record list \<Rightarrow> table \<Rightarrow> table" where
  "set_switch sw affected tb =
     foldl (\<lambda>tb a. if agent_on sw (ag_project_id a) (ag_id a) then tb
                   else foldl (\<lambda>tb subdir. fst (table_remove (ag_id a, subdir) tb)) tb (checkouts a))
       (table_bump tb) affected"

section \<open>Applying an effect\<close>

datatype log_outcome = OutDispatch | OutSettle | OutRetry | OutGiveUp

fun log_outcome_as_str :: "log_outcome \<Rightarrow> string" where
  "log_outcome_as_str OutDispatch = ''dispatch''"
| "log_outcome_as_str OutSettle = ''settle''"
| "log_outcome_as_str OutRetry = ''retry''"
| "log_outcome_as_str OutGiveUp = ''give-up''"

text \<open>A log row less its random id.\<close>

record log_entry =
  le_key :: key
  le_at :: int
  le_outcome :: log_outcome
  le_rung :: delegation_kind
  le_attempt :: nat
  le_reason :: "give_up_reason option"

definition log_row ::
  "key \<Rightarrow> int \<Rightarrow> log_outcome \<Rightarrow> delegation_kind \<Rightarrow> nat \<Rightarrow> give_up_reason option \<Rightarrow> log_entry" where
  "log_row k now outcome r attempt reason =
     \<lparr>le_key = k, le_at = now, le_outcome = outcome, le_rung = r, le_attempt = attempt, le_reason = reason\<rparr>"

text \<open>\<open>admit\<close>: the checkout is taken for the rung, a local review holds it, or taking it failed.\<close>

datatype admission = Admitted | HeldByReview | AdmitFailed

text \<open>What a pass does beyond the table: log rows, rungs handed over, verifications started.\<close>

datatype act_out =
    Logged log_entry
  | Sent key delegation_kind "string \<rightharpoonup> string"
  | Verifying key "(delegation_kind \<times> nat) option"

definition cycle_identity :: "autopilot_state \<Rightarrow> (delegation_kind \<times> nat) option" where
  "cycle_identity st = map_option (\<lambda>c. (c_rung c, c_attempt c)) (as_cycle st)"

definition attempt_now :: "table \<Rightarrow> key \<Rightarrow> nat" where
  "attempt_now tb k =
     (case Option.bind (table_get tb k) (\<lambda>t. as_cycle (tk_state t)) of Some c \<Rightarrow> c_attempt c | None \<Rightarrow> 0)"

definition on_state :: "(autopilot_state \<Rightarrow> autopilot_state) \<Rightarrow> tracked \<Rightarrow> tracked" where
  "on_state f t = t\<lparr>tk_state := f (tk_state t)\<rparr>"

definition apply_effect ::
  "admission \<Rightarrow> key \<Rightarrow> int \<Rightarrow> effect \<Rightarrow> table \<Rightarrow> table \<times> act_out list \<times> bool" where
  "apply_effect admitted k now eff tb =
     (case eff of
        Dispatch r act ps signature situation \<Rightarrow>
          (if admitted = HeldByReview then (tb, [], False)
           else
             (let tb' = table_update k
                    (\<lambda>t. (on_state (open_cycle r signature situation now) t)\<lparr>tk_verdict := None\<rparr>) tb
              in (tb', Logged (log_row k now OutDispatch r (attempt_now tb' k) None) #
                       (if admitted = Admitted then [Sent k r ps] else []), True)))
      | AwaitEvidence \<Rightarrow> (table_update k (on_state (advance AwaitingEvidence now)) tb, [], False)
      | Verify \<Rightarrow>
          (let tb' = table_update k
                 (\<lambda>t. (on_state (advance AwaitingEvidence now) t)\<lparr>tk_verifying := True\<rparr>) tb
           in (tb', [Verifying k (Option.bind (table_get tb' k) (\<lambda>t. cycle_identity (tk_state t)))], False))
      | Settle r \<Rightarrow>
          (table_update k (on_state (settle r)) tb,
           [Logged (log_row k now OutSettle r (attempt_now tb k) None)], False)
      | Retry r barren \<Rightarrow>
          (table_update k (on_state (retry r barren)) tb,
           [Logged (log_row k now OutRetry r (attempt_now tb k) None)], False)
      | GiveUp r reason barren \<Rightarrow>
          (table_update k (on_state (retry r barren)) tb,
           [Logged (log_row k now OutGiveUp r (attempt_now tb k) (Some reason))], False)
      | Wait why \<Rightarrow> (tb, [], False))"

text \<open>The end of the task that \<open>Verify\<close> spawns: only evidence for the same cycle counts.\<close>

definition verified ::
  "key \<Rightarrow> (delegation_kind \<times> nat) option \<Rightarrow> verification_report option \<Rightarrow> table \<Rightarrow> table" where
  "verified k identity report =
     table_update k
       (\<lambda>t. (let t = t\<lparr>tk_verifying := False\<rparr>
             in if cycle_identity (tk_state t) = identity then t\<lparr>tk_verdict := report\<rparr> else t))"

section \<open>One pass\<close>

record world =
  w_agents :: "agent_record list"
  w_busy :: "string \<Rightarrow> bool"
  w_delegation_live :: "key \<Rightarrow> bool"
  w_git :: "key \<Rightarrow> git_state option"
  w_pr :: "key \<Rightarrow> (pr_state \<times> pr_checks option) option"
  w_threads :: "key \<Rightarrow> pr_comments option"
  w_admit :: "key \<Rightarrow> admission"

definition threads_every_ms :: int where "threads_every_ms = 60000"

definition observe ::
  "world \<Rightarrow> key \<Rightarrow> int option \<Rightarrow> threads_read option \<Rightarrow> int \<Rightarrow> table \<Rightarrow> table \<times> readiness_input" where
  "observe w k awaiting_since cached now tb =
     (let git = w_git w k;
          pr = map_option fst (w_pr w k);
          checks = Option.bind (w_pr w k) snd;
          stale = (case cached of
                     None \<Rightarrow> True
                   | Some c \<Rightarrow> now - tr_at c \<ge> threads_every_ms \<or>
                       (case awaiting_since of Some since \<Rightarrow> tr_at c < since | None \<Rightarrow> False));
          (tb', comments) =
            (if is_open pr
             then (if stale
                   then (table_update k
                           (\<lambda>t. t\<lparr>tk_threads := Some \<lparr>tr_at = now, tr_comments = w_threads w k\<rparr>\<rparr>) tb,
                         w_threads w k)
                   else (tb, Option.bind cached tr_comments))
             else (tb, None))
      in (tb', \<lparr>ri_git = git, ri_pr = pr, ri_checks = checks, ri_comments = comments\<rparr>))"

definition no_readiness :: readiness_input where
  "no_readiness = \<lparr>ri_git = None, ri_pr = None, ri_checks = None, ri_comments = None\<rparr>"

definition pass_ladder :: "readiness_input \<Rightarrow> ladder_context" where
  "pass_ladder rd =
     \<lparr>lc_base = (case ri_git rd of
                   Some g \<Rightarrow> if gs_parent_branch g = [] then ''main'' else gs_parent_branch g
                 | None \<Rightarrow> ''main''),
      lc_commit_mode = ModeCommitPr\<rparr>"

text \<open>The input the pass judges one tracked checkout on, and the table after the reads.\<close>

definition step_input :: "world \<Rightarrow> bool \<Rightarrow> key \<Rightarrow> int \<Rightarrow> tracked \<Rightarrow> table \<Rightarrow> table \<times> autopilot_input" where
  "step_input w handed k now t tb =
     (let busy = (w_busy w (fst k) \<or> handed);
          in_flight = w_delegation_live w k;
          awaiting_since = (case as_cycle (tk_state t) of
                              Some c \<Rightarrow> if c_phase c = AwaitingEvidence then Some (c_phase_since c) else None
                            | None \<Rightarrow> None);
          needs_world = (case as_cycle (tk_state t) of
                           None \<Rightarrow> \<not> busy \<and> \<not> in_flight
                         | Some _ \<Rightarrow> awaiting_since \<noteq> None);
          (tb', rd) = (if needs_world then observe w k awaiting_since (tk_threads t) now tb
                       else (tb, no_readiness))
      in (tb', \<lparr>ap_state = Some (tk_state t), ap_readiness = rd, ap_ladder = pass_ladder rd,
                ap_agent_busy = busy, ap_delegation_in_flight = in_flight,
                ap_verification = tk_verdict t, ap_now = now\<rparr>))"

text \<open>
  One iteration of the pass. The state is the table, the agents handed a rung in this pass, what
  was done, and whether the pass has stopped; \<open>before\<close> and \<open>during\<close> say that a switch was written
  before this key's visit, or while its world was read.
\<close>

record pass_state =
  pa_table :: table
  pa_handed :: "string set"
  pa_out :: "act_out list"
  pa_stopped :: bool

definition visit ::
  "world \<Rightarrow> int \<Rightarrow> (key \<Rightarrow> bool) \<Rightarrow> (key \<Rightarrow> bool) \<Rightarrow> key set \<Rightarrow> pass_state \<Rightarrow> key \<Rightarrow> pass_state" where
  "visit w now before during on pa k =
     (if pa_stopped pa then pa
      else if before k then pa\<lparr>pa_stopped := True\<rparr>
      else if k \<notin> on then pa\<lparr>pa_table := fst (table_remove k (pa_table pa))\<rparr>
      else
        (let tb = fst (table_enroll k (pa_table pa))
         in case table_get tb k of
              None \<Rightarrow> pa\<lparr>pa_table := tb\<rparr>
            | Some t \<Rightarrow>
                if tk_verifying t then pa\<lparr>pa_table := tb\<rparr>
                else
                  (let (tb', input) = step_input w (fst k \<in> pa_handed pa) k now t tb;
                       eff = autopilot_step input
                   in if during k then pa\<lparr>pa_table := tb', pa_stopped := True\<rparr>
                      else
                        (let (tb'', out, opened) = apply_effect (w_admit w k) k now eff tb'
                         in pa\<lparr>pa_table := tb'',
                               pa_handed := (if opened then insert (fst k) (pa_handed pa) else pa_handed pa),
                               pa_out := pa_out pa @ out\<rparr>))))"

definition on_keys :: "world \<Rightarrow> switches \<Rightarrow> key list" where
  "on_keys w sw =
     concat (map (\<lambda>a. map (Pair (ag_id a)) (checkouts a))
       (filter (\<lambda>a. agent_on sw (ag_project_id a) (ag_id a)) (w_agents w)))"

definition run_pass ::
  "world \<Rightarrow> switches option \<Rightarrow> int \<Rightarrow> (key \<Rightarrow> bool) \<Rightarrow> (key \<Rightarrow> bool) \<Rightarrow> table \<Rightarrow> pass_state" where
  "run_pass w sw now before during tb =
     (let start = \<lparr>pa_table = tb, pa_handed = {}, pa_out = [], pa_stopped = False\<rparr>
      in case sw of
           None \<Rightarrow> start
         | Some sw \<Rightarrow>
             (let on = on_keys w sw
              in foldl (visit w now before during (set on)) start
                   (sorted_list_of_set (set (table_keys tb @ on)))))"

end
