(* ===== verification/Ap_Run.thy ===== *)
theory Ap_Run
  imports Ap_Driver
begin

text \<open>
  What the driver's loop keeps: the invariant of every tracked checkout over all tables the host
  can reach, the bounds on how often it hands out a rung, and what one pass may touch.
\<close>

section \<open>One checkout\<close>

text \<open>The state transition of each effect, as \<open>apply_effect\<close> performs it.\<close>

fun state_after :: "effect \<Rightarrow> int \<Rightarrow> autopilot_state \<Rightarrow> autopilot_state" where
  "state_after (Dispatch r _ _ signature situation) now st = open_cycle r signature situation now st"
| "state_after Verify now st = advance AwaitingEvidence now st"
| "state_after AwaitEvidence now st = advance AwaitingEvidence now st"
| "state_after (Settle r) now st = settle r st"
| "state_after (Retry r barren) now st = retry r barren st"
| "state_after (GiveUp r _ barren) now st = retry r barren st"
| "state_after (Wait _) now st = st"

definition ap_inv :: "autopilot_state \<Rightarrow> bool" where
  "ap_inv st \<longleftrightarrow>
     as_enrolled st \<and> (\<forall>r. attempts_of st r \<le> rung_budget r) \<and> distinct (as_barren st) \<and>
     (\<forall>c. as_cycle st = Some c \<longrightarrow>
        c_rung c \<in> set autopilot_rungs \<and> c_attempt c = attempts_of st (c_rung c) + 1 \<and>
        c_attempt c \<le> rung_budget (c_rung c) \<and> c_signature c \<notin> set (as_barren st))"

lemma ap_inv_enrolled: "ap_inv autopilot_enrolled"
  by (simp add: ap_inv_def autopilot_enrolled_def attempts_of_def)

lemma attempts_of_open_cycle:
  "attempts_of (open_cycle k sig sit now st) r = (if as_situation st = sit then attempts_of st r else 0)"
  by (simp add: open_cycle_def attempts_of_def Let_def)

lemma open_cycle_fields [simp]:
  "as_situation (open_cycle k sig sit now st) = sit"
  "as_barren (open_cycle k sig sit now st) = as_barren st"
  "as_enrolled (open_cycle k sig sit now st) = as_enrolled st"
  "as_cycle (open_cycle k sig sit now st) =
     Some \<lparr>c_rung = k, c_attempt = (if as_situation st = sit then attempts_of st k else 0) + 1,
           c_signature = sig, c_phase = Working, c_phase_since = now\<rparr>"
  by (simp_all add: open_cycle_def attempts_of_def Let_def)

lemma advance_fields [simp]:
  "as_situation (advance ph now st) = as_situation st" "as_barren (advance ph now st) = as_barren st"
  "as_enrolled (advance ph now st) = as_enrolled st"
  "attempts_of (advance ph now st) = attempts_of st"
  "as_cycle (advance ph now st) = map_option (\<lambda>c. c\<lparr>c_phase := ph, c_phase_since := now\<rparr>) (as_cycle st)"
  by (simp_all add: advance_def attempts_of_def fun_eq_iff)

lemma settle_fields [simp]:
  "as_situation (settle r st) = as_situation st" "as_barren (settle r st) = as_barren st"
  "as_enrolled (settle r st) = as_enrolled st" "as_cycle (settle r st) = None"
  "attempts_of (settle r st) k = (if k = r then 0 else attempts_of st k)"
  by (simp_all add: settle_def attempts_of_def)

lemma retry_fields [simp]:
  "as_situation (retry r b st) = as_situation st" "as_enrolled (retry r b st) = as_enrolled st"
  "as_cycle (retry r b st) = None"
  "attempts_of (retry r b st) k = (if k = r then attempts_of st k + 1 else attempts_of st k)"
  "as_barren (retry r b st) =
     (case b of None \<Rightarrow> as_barren st
      | Some s \<Rightarrow> if s \<in> set (as_barren st) then as_barren st else as_barren st @ [s])"
  by (auto simp: retry_def attempts_of_def Let_def split: option.splits)

text \<open>The effects of a cycle in flight, and those of a free checkout.\<close>

lemma step_cases:
  assumes "ap_state input = Some st" and "as_enrolled st"
  obtains (free) "as_cycle st = None" "\<exists>why. autopilot_step input = Wait why"
    | (dispatch) r act ps sig sit where "as_cycle st = None"
        "autopilot_step input = Dispatch r act ps sig sit"
    | (cycle) c where "as_cycle st = Some c" "autopilot_step input = judge_cycle c st input"
proof (cases "as_cycle st")
  case None
  have "(\<exists>why. autopilot_step input = Wait why) \<or>
      (\<exists>r act ps sig sit. autopilot_step input = Dispatch r act ps sig sit)"
    unfolding autopilot_step_def consider_rung_def Let_def
    by (simp add: assms None split: rung.split)
  with None that show ?thesis by blast
next
  case (Some c)
  with assms that show ?thesis by (simp add: autopilot_step_def)
qed

lemma failed_cases:
  "failed c st barren = Retry (c_rung c) barren \<or>
   failed c st barren = GiveUp (c_rung c) GuBudgetSpent barren \<or>
   (\<exists>b. barren = Some b \<and> b \<in> set (as_barren st) \<and>
      failed c st barren = GiveUp (c_rung c) GuNoProgress barren)"
  by (cases barren) (simp_all add: failed_def give_up_def)

lemma judge_working:
  "c_phase c = Working \<Longrightarrow>
   (\<exists>why. judge_cycle c st input = Wait why) \<or> judge_cycle c st input = Verify \<or>
   judge_cycle c st input = AwaitEvidence"
  by (cases "rung_evidence (c_rung c)") (simp_all add: judge_cycle_def)

lemma judge_awaiting:
  assumes "c_phase c \<noteq> Working"
    and "barren = (if state_signature (ap_readiness input) \<noteq> c_signature c then None else Some (c_signature c))"
  shows "judge_cycle c st input = failed c st barren \<or> judge_cycle c st input = give_up c barren GuNoEvidence \<or>
    judge_cycle c st input = Wait WrAwaitingEvidence \<or>
    judge_cycle c st input = Settle (c_rung c) \<and> state_signature (ap_readiness input) \<noteq> c_signature c"
  using assms(1) unfolding judge_cycle_def Let_def assms(2) by (simp split: rung.split)

lemma judge_cases:
  obtains (wait) why where "judge_cycle c st input = Wait why"
    | (await) "judge_cycle c st input = Verify \<or> judge_cycle c st input = AwaitEvidence"
    | (settled) "judge_cycle c st input = Settle (c_rung c)"
        "state_signature (ap_readiness input) \<noteq> c_signature c"
    | (no_progress) "c_signature c \<in> set (as_barren st)"
    | (again) barren where
        "barren = (if state_signature (ap_readiness input) \<noteq> c_signature c then None else Some (c_signature c))"
        "judge_cycle c st input = Retry (c_rung c) barren \<or>
         judge_cycle c st input = GiveUp (c_rung c) GuBudgetSpent barren \<or>
         judge_cycle c st input = GiveUp (c_rung c) GuNoEvidence barren"
proof (cases "c_phase c = Working")
  case True
  from judge_working [OF this, of st input] that(1,2) show ?thesis by blast
next
  case False
  define barren where
    "barren = (if state_signature (ap_readiness input) \<noteq> c_signature c then None else Some (c_signature c))"
  have known: "b = c_signature c" if "barren = Some b" for b
    using that by (simp add: barren_def split: if_splits)
  from judge_awaiting [OF False barren_def, of st] that(1) that(3) that(4) known
    that(5) [OF barren_def] failed_cases [of c st barren]
  show ?thesis unfolding give_up_def by metis
qed

lemma ap_inv_step:
  assumes inv: "ap_inv st" and st: "ap_state input = Some st" and eff: "autopilot_step input = eff"
  shows "ap_inv (state_after eff now st)"
proof -
  from inv have enrolled: "as_enrolled st" by (simp add: ap_inv_def)
  from st enrolled show ?thesis
  proof (cases rule: step_cases)
    case free
    with eff inv show ?thesis by auto
  next
    case (dispatch r act ps sig sit)
    then obtain st' b where ok: "ap_state input = Some st'"
      "consider_rung st' (ap_readiness input) r act ps = Dispatch r act ps sig sit"
      by (auto elim: autopilot_step_Dispatch)
    with st have "consider_rung st (ap_readiness input) r act ps = Dispatch r act ps sig sit" by simp
    then have "r \<in> set autopilot_rungs" "sig \<notin> set (as_barren st)"
      "(if as_situation st = sit then attempts_of st r else 0) < rung_budget r"
      unfolding consider_rung_Dispatch by blast+
    with inv dispatch(2) eff [symmetric] show ?thesis
      by (auto simp: ap_inv_def attempts_of_open_cycle)
  next
    case (cycle c)
    show ?thesis
    proof (cases rule: judge_cases [of c st input])
      case (again barren)
      with cycle eff inv show ?thesis by (auto simp: ap_inv_def split: option.splits)
    qed (use cycle eff inv in \<open>auto simp: ap_inv_def\<close>)
  qed
qed

lemma ap_inv_no_progress:
  assumes "ap_inv st" and "ap_state input = Some st"
  shows "autopilot_step input \<noteq> GiveUp r GuNoProgress barren"
proof -
  from assms(1) have enrolled: "as_enrolled st" by (simp add: ap_inv_def)
  from assms(2) enrolled show ?thesis
  proof (cases rule: step_cases)
    case (cycle c)
    with assms(1) have "c_signature c \<notin> set (as_barren st)" by (simp add: ap_inv_def)
    then show ?thesis
      unfolding cycle(2) by (cases rule: judge_cases [of c st input]) auto
  qed auto
qed

section \<open>How often a rung is handed out\<close>

text \<open>
  The run of one checkout over a list of ticks, as the driver makes it: the world is read only
  where the step could use it, so a cycle whose agent still works is judged on nothing.
\<close>

definition seen :: "autopilot_state \<Rightarrow> autopilot_input \<Rightarrow> autopilot_input" where
  "seen st i =
     (let i = i\<lparr>ap_state := Some st\<rparr>
      in case as_cycle st of
           Some c \<Rightarrow> if c_phase c = AwaitingEvidence then i else i\<lparr>ap_readiness := no_readiness\<rparr>
         | None \<Rightarrow> i)"

fun drive :: "autopilot_state \<Rightarrow> autopilot_input list \<Rightarrow> effect list" where
  "drive st [] = []"
| "drive st (i # is) =
     (let eff = autopilot_step (seen st i) in eff # drive (state_after eff (ap_now i) st) is)"

fun opens :: "delegation_kind \<Rightarrow> effect \<Rightarrow> bool" where
  "opens k (Dispatch r _ _ _ _) = (r = k)"
| "opens k _ = False"

fun opens_any :: "effect \<Rightarrow> bool" where
  "opens_any (Dispatch _ _ _ _ _) = True"
| "opens_any _ = False"

text \<open>The cycles rung \<open>r\<close> still has on situation \<open>S\<close>, the one in flight not counted.\<close>

definition tries_left :: "delegation_kind \<Rightarrow> string \<Rightarrow> autopilot_state \<Rightarrow> nat" where
  "tries_left r S st =
     (if as_situation st = S
      then rung_budget r - attempts_of st r -
           (case as_cycle st of Some c \<Rightarrow> if c_rung c = r then 1 else 0 | None \<Rightarrow> 0)
      else rung_budget r)"

lemma seen_state [simp]: "ap_state (seen st i) = Some st"
  by (simp add: seen_def Let_def split: option.splits)

lemma tries_left_step:
  assumes inv: "ap_inv st" and eff: "autopilot_step (seen st i) = eff"
    and same: "\<And>k act ps sig sit. eff = Dispatch k act ps sig sit \<Longrightarrow> sit = S" and "eff \<noteq> Settle r"
  shows "(if opens r eff then 1 else 0) + tries_left r S (state_after eff now st) \<le> tries_left r S st"
proof -
  from inv have enrolled: "as_enrolled st" by (simp add: ap_inv_def)
  from seen_state [of st i] enrolled show ?thesis
  proof (cases rule: step_cases)
    case free
    with eff show ?thesis by auto
  next
    case (dispatch k act ps sig sit)
    then have "consider_rung st (ap_readiness (seen st i)) k act ps = Dispatch k act ps sig sit"
      by (auto elim: autopilot_step_Dispatch)
    then have "(if as_situation st = sit then attempts_of st k else 0) < rung_budget k"
      unfolding consider_rung_Dispatch by blast
    with dispatch eff same show ?thesis
      by (auto simp: tries_left_def attempts_of_open_cycle)
  next
    case (cycle c)
    let ?J = "judge_cycle c st (seen st i)"
    from inv cycle(1) have budget: "attempts_of st (c_rung c) + 1 \<le> rung_budget (c_rung c)"
      and fresh: "c_signature c \<notin> set (as_barren st)" by (auto simp: ap_inv_def)
    have eq: "eff = ?J" using cycle(2) eff by simp
    have after_retry: "tries_left r S (retry (c_rung c) barren st) \<le> tries_left r S st" for barren
      using cycle(1) budget by (simp add: tries_left_def)
    show ?thesis
    proof (cases rule: judge_cases [of c st "seen st i"])
      case (again barren)
      with after_retry show ?thesis by (auto simp: eq)
    next
      case settled
      with assms(4) have "r \<noteq> c_rung c" by (auto simp: eq)
      with settled cycle(1) show ?thesis by (simp add: eq tries_left_def)
    next
      case await
      have "tries_left r S (advance AwaitingEvidence now st) = tries_left r S st"
        using cycle(1) by (simp add: tries_left_def)
      with await show ?thesis by (auto simp: eq)
    next
      case no_progress
      with fresh show ?thesis by simp
    qed (simp add: eq)
  qed
qed

lemma drive_bound:
  assumes "ap_inv st"
    and "\<And>k act ps sig sit. Dispatch k act ps sig sit \<in> set (drive st is) \<Longrightarrow> sit = S"
    and "Settle r \<notin> set (drive st is)"
  shows "length (filter (opens r) (drive st is)) \<le> tries_left r S st"
  using assms
proof (induction "is" arbitrary: st)
  case (Cons i "is")
  let ?eff = "autopilot_step (seen st i)"
  let ?st' = "state_after ?eff (ap_now i) st"
  have run: "drive st (i # is) = ?eff # drive ?st' is" by (simp add: Let_def)
  have same: "sit = S" if "Dispatch k act ps sig sit \<in> set (?eff # drive ?st' is)" for k act ps sig sit
    using Cons.prems(2) that unfolding run .
  have "length (filter (opens r) (drive ?st' is)) \<le> tries_left r S ?st'"
  proof (rule Cons.IH)
    show "ap_inv ?st'" by (rule ap_inv_step [OF Cons.prems(1) seen_state refl])
    show "sit = S" if "Dispatch k act ps sig sit \<in> set (drive ?st' is)" for k act ps sig sit
      using that by (intro same) (rule list.set_intros(2))
    show "Settle r \<notin> set (drive ?st' is)" using Cons.prems(3) unfolding run by simp
  qed
  moreover have "(if opens r ?eff then 1 else 0) + tries_left r S ?st' \<le> tries_left r S st"
  proof (rule tries_left_step [OF Cons.prems(1) refl])
    show "sit = S" if "?eff = Dispatch k act ps sig sit" for k act ps sig sit
      by (rule same [of k act ps sig]) (simp add: that)
    show "?eff \<noteq> Settle r" using Cons.prems(3) unfolding run by auto
  qed
  ultimately show ?case unfolding run by (auto split: if_splits)
qed simp

text \<open>
  Claim C13. The loop is bounded: as long as the situation stays the same, a rung that never settles is
  handed to the agent at most as often as its budget says, however many ticks go by and whatever
  the agent, the checks and the verification report in between.
\<close>

theorem dispatches_bounded:
  assumes "ap_inv st"
    and "\<forall>eff \<in> set (drive st is). \<forall>k act ps sig sit. eff = Dispatch k act ps sig sit \<longrightarrow> sit = S"
    and "Settle r \<notin> set (drive st is)"
  shows "length (filter (opens r) (drive st is)) \<le> rung_budget r"
proof -
  have "length (filter (opens r) (drive st is)) \<le> tries_left r S st"
    using assms by (intro drive_bound) auto
  also have "\<dots> \<le> rung_budget r" by (simp add: tries_left_def)
  finally show ?thesis .
qed

text \<open>On a world that does not move: what is known of the state, and how many cycles may still open.\<close>

definition cycles_left :: "string \<Rightarrow> autopilot_state \<Rightarrow> nat" where
  "cycles_left s st = (if s \<in> set (as_barren st) \<or> as_cycle st \<noteq> None then 0 else 1)"

definition on_signature :: "string \<Rightarrow> autopilot_state \<Rightarrow> bool" where
  "on_signature s st \<longleftrightarrow> (\<forall>c. as_cycle st = Some c \<longrightarrow> c_signature c = s)"

lemma seen_free: "as_cycle st = None \<Longrightarrow> ap_readiness (seen st i) = ap_readiness i"
  by (simp add: seen_def)

lemma seen_awaiting:
  "as_cycle st = Some c \<Longrightarrow> c_phase c \<noteq> Working \<Longrightarrow> ap_readiness (seen st i) = ap_readiness i"
  by (cases "c_phase c") (simp_all add: seen_def)

lemma unmoved_step:
  assumes inv: "ap_inv st" and on: "on_signature s st" and world: "state_signature (ap_readiness i) = s"
    and eff: "autopilot_step (seen st i) = eff"
  shows "on_signature s (state_after eff now st) \<and>
    (if opens_any eff then 1 else 0) + cycles_left s (state_after eff now st) \<le> cycles_left s st"
proof -
  from inv have enrolled: "as_enrolled st" by (simp add: ap_inv_def)
  from seen_state [of st i] enrolled show ?thesis
  proof (cases rule: step_cases)
    case free
    with eff on show ?thesis by auto
  next
    case (dispatch k act ps sig sit)
    then have "consider_rung st (ap_readiness (seen st i)) k act ps = Dispatch k act ps sig sit"
      by (auto elim: autopilot_step_Dispatch)
    then have "sig = state_signature (ap_readiness (seen st i))" "sig \<notin> set (as_barren st)"
      unfolding consider_rung_Dispatch by blast+
    moreover have "ap_readiness (seen st i) = ap_readiness i" by (rule seen_free) fact
    ultimately have "sig = s" "s \<notin> set (as_barren st)" using world by simp_all
    with dispatch eff show ?thesis by (auto simp: on_signature_def cycles_left_def)
  next
    case (cycle c)
    let ?J = "judge_cycle c st (seen st i)"
    have eq: "eff = ?J" using cycle(2) eff by simp
    have sig: "c_signature c = s" using on cycle(1) by (simp add: on_signature_def)
    show ?thesis
    proof (cases "c_phase c = Working")
      case True
      have keeps: "on_signature s (advance AwaitingEvidence now st)"
        "cycles_left s (advance AwaitingEvidence now st) = cycles_left s st"
        using cycle(1) sig by (simp_all add: on_signature_def cycles_left_def)
      from judge_working [OF True, of st "seen st i"] on keeps show ?thesis by (auto simp: eq)
    next
      case False
      then have unmoved: "state_signature (ap_readiness (seen st i)) = c_signature c"
        using world sig seen_awaiting [OF cycle(1) False, of i] by simp
      have closed: "on_signature s (retry (c_rung c) (Some s) st)"
        "cycles_left s (retry (c_rung c) (Some s) st) = 0"
        by (simp_all add: on_signature_def cycles_left_def)
      from judge_awaiting [OF False refl, where input = "seen st i" and st = st] failed_cases [of c st "Some s"] on closed
      show ?thesis unfolding unmoved sig give_up_def eq by auto
    qed
  qed
qed

text \<open>
  A world autopilot cannot change costs one cycle: over any run in which every read of the
  checkout shows the same head, failing checks, conflicts and threads, at most one rung of any
  kind is handed to the agent.
\<close>

theorem unmoved_world_one_cycle:
  assumes "ap_inv st" and "as_cycle st = None"
    and "\<forall>i \<in> set is. state_signature (ap_readiness i) = s"
  shows "length (filter opens_any (drive st is)) \<le> 1"
proof -
  have "length (filter opens_any (drive st is)) \<le> cycles_left s st"
    if "ap_inv st" "on_signature s st" "\<forall>i \<in> set is. state_signature (ap_readiness i) = s" for st
    using that
  proof (induction "is" arbitrary: st)
    case (Cons i "is")
    let ?eff = "autopilot_step (seen st i)"
    let ?st' = "state_after ?eff (ap_now i) st"
    have "state_signature (ap_readiness i) = s" using Cons.prems(3) by simp
    note step = unmoved_step [OF Cons.prems(1,2) this refl, of "ap_now i"]
    have "length (filter opens_any (drive ?st' is)) \<le> cycles_left s ?st'"
      using Cons.prems(3) step ap_inv_step [OF Cons.prems(1) seen_state refl] by (intro Cons.IH) auto
    with step show ?case by (auto simp: Let_def split: if_splits)
  qed simp
  from this [OF assms(1) _ assms(3)] assms(2) show ?thesis
    by (force simp: on_signature_def cycles_left_def split: if_splits)
qed

section \<open>The table the host keeps\<close>

text \<open>Every table the host can reach: passes, verifications that end, switches that are written.\<close>

inductive host_reach :: "table \<Rightarrow> bool" where
  host_start: "host_reach table_default"
| host_pass: "host_reach tb \<Longrightarrow> host_reach (pa_table (run_pass w sw now before during tb))"
| host_verified: "host_reach tb \<Longrightarrow> host_reach (verified k identity report tb)"
| host_switch: "host_reach tb \<Longrightarrow> host_reach (set_switch sw affected tb)"

definition table_inv :: "table \<Rightarrow> bool" where
  "table_inv tb \<longleftrightarrow> (\<forall>k t. table_get tb k = Some t \<longrightarrow> ap_inv (tk_state t))"

lemma table_invD: "table_inv tb \<Longrightarrow> table_get tb k = Some t \<Longrightarrow> ap_inv (tk_state t)"
  by (simp only: table_inv_def)

lemma table_get_update [simp]:
  "table_get (table_update k f tb) j =
     (if j = k then map_option f (table_get tb k) else table_get tb j)"
  by (auto simp: table_update_def table_get_def update_conv' split: option.splits)

lemma table_get_remove [simp]:
  "table_get (fst (table_remove k tb)) j = (if j = k then None else table_get tb j)"
  by (auto simp: table_remove_def table_get_def delete_conv')

lemma table_get_enroll [simp]:
  "table_get (fst (table_enroll k tb)) j =
     (if j = k \<and> table_get tb k = None then Some tracked_new else table_get tb j)"
  by (auto simp: table_enroll_def table_contains_def table_get_def update_conv')

lemma table_get_bump [simp]: "table_get (table_bump tb) = table_get tb"
  by (simp add: fun_eq_iff table_bump_def table_get_def)

lemma table_inv_update:
  assumes "table_inv tb" and "\<And>t. table_get tb k = Some t \<Longrightarrow> ap_inv (tk_state (f t))"
  shows "table_inv (table_update k f tb)"
  using assms by (auto simp: table_inv_def)

lemma table_inv_keep:
  "table_inv tb \<Longrightarrow> (\<And>t. tk_state (f t) = tk_state t) \<Longrightarrow> table_inv (table_update k f tb)"
  by (rule table_inv_update) (metis table_inv_def)+

lemma table_inv_remove: "table_inv tb \<Longrightarrow> table_inv (fst (table_remove k tb))"
  by (auto simp: table_inv_def)

lemma table_inv_enroll: "table_inv tb \<Longrightarrow> table_inv (fst (table_enroll k tb))"
  by (auto simp: table_inv_def tracked_new_def ap_inv_enrolled)

text \<open>An effect changes its own key only, and there as \<open>state_after\<close> says (or not at all).\<close>

lemma on_state_fields [simp]: "tk_state (on_state f t) = f (tk_state t)"
  by (simp add: on_state_def)

lemma apply_effect_get:
  assumes "table_get (fst (apply_effect adm k now eff tb)) j = Some t'"
  shows "\<exists>t. table_get tb j = Some t \<and>
    (tk_state t' = tk_state t \<or> j = k \<and> tk_state t' = state_after eff now (tk_state t))"
  using assms by (cases eff) (auto simp: apply_effect_def Let_def split: if_splits)

lemma table_inv_apply:
  assumes "table_inv tb" and "\<And>t. table_get tb k = Some t \<Longrightarrow> ap_inv (state_after eff now (tk_state t))"
  shows "table_inv (fst (apply_effect adm k now eff tb))"
  unfolding table_inv_def
proof (intro allI impI)
  fix j t' assume "table_get (fst (apply_effect adm k now eff tb)) j = Some t'"
  from apply_effect_get [OF this] assms(2) table_invD [OF assms(1)] show "ap_inv (tk_state t')"
    by metis
qed

lemma observe_get:
  "table_get (fst (observe w k since cached now tb)) j = Some t' \<Longrightarrow>
   \<exists>t. table_get tb j = Some t \<and> tk_state t' = tk_state t"
  by (auto simp: observe_def Let_def split: if_splits)

lemma observe_domain:
  "table_get (fst (observe w k since cached now tb)) j = None \<longleftrightarrow> table_get tb j = None"
  by (auto simp: observe_def Let_def)

lemma step_input_fields:
  "ap_state (snd (step_input w h k now t tb)) = Some (tk_state t)"
  "ap_now (snd (step_input w h k now t tb)) = now"
  "ap_agent_busy (snd (step_input w h k now t tb)) = (w_busy w (fst k) \<or> h)"
  "ap_delegation_in_flight (snd (step_input w h k now t tb)) = w_delegation_live w k"
  by (simp_all add: step_input_def Let_def split: prod.splits)

lemma step_input_get:
  "table_get (fst (step_input w h k now t tb)) j = Some t' \<Longrightarrow>
   \<exists>t. table_get tb j = Some t \<and> tk_state t' = tk_state t"
  by (auto simp: step_input_def Let_def split: prod.splits if_splits dest: observe_get)
     (metis fst_conv observe_get)+

lemma step_input_domain:
  "table_get (fst (step_input w h k now t tb)) j = None \<longleftrightarrow> table_get tb j = None"
  by (simp add: step_input_def Let_def split: prod.split)
     (metis fst_conv observe_domain)

lemma table_inv_step_input: "table_inv tb \<Longrightarrow> table_inv (fst (step_input w h k now t tb))"
  unfolding table_inv_def using step_input_get by metis

text \<open>The two shapes of a visit: it leaves the table to the bookkeeping, or it applies one step.\<close>

lemma visit_cases:
  obtains (idle) "pa_handed (visit w now before during on pa k) = pa_handed pa"
      "pa_out (visit w now before during on pa k) = pa_out pa"
      "pa_table (visit w now before during on pa k) \<in>
         {pa_table pa, fst (table_remove k (pa_table pa)), fst (table_enroll k (pa_table pa))}"
    | (step) t tb' input tb'' out opened where
      "\<not> pa_stopped pa" "\<not> before k" "k \<in> on"
      "table_get (fst (table_enroll k (pa_table pa))) k = Some t" "\<not> tk_verifying t"
      "step_input w (fst k \<in> pa_handed pa) k now t (fst (table_enroll k (pa_table pa))) = (tb', input)"
      "apply_effect (w_admit w k) k now (autopilot_step input) tb' = (tb'', out, opened)"
      "visit w now before during on pa k =
         (if during k then pa\<lparr>pa_table := tb', pa_stopped := True\<rparr>
          else pa\<lparr>pa_table := tb'',
                 pa_handed := (if opened then insert (fst k) (pa_handed pa) else pa_handed pa),
                 pa_out := pa_out pa @ out\<rparr>)"
proof -
  let ?enr = "fst (table_enroll k (pa_table pa))"
  show ?thesis
  proof (cases "\<not> pa_stopped pa \<and> \<not> before k \<and> k \<in> on")
    case False
    then show ?thesis using that(1) by (auto simp: visit_def)
  next
    case True
    show ?thesis
    proof (cases "table_get ?enr k")
      case None
      with True that(1) show ?thesis by (auto simp: visit_def Let_def)
    next
      case (Some t)
      show ?thesis
      proof (cases "tk_verifying t")
        case True
        with Some \<open>\<not> pa_stopped pa \<and> _\<close> that(1) show ?thesis
          by (auto simp: visit_def Let_def simp del: table_get_enroll)
      next
        case False
        obtain tb' input where si: "step_input w (fst k \<in> pa_handed pa) k now t ?enr = (tb', input)"
          by (cases "step_input w (fst k \<in> pa_handed pa) k now t ?enr")
        obtain tb'' out opened where ap:
          "apply_effect (w_admit w k) k now (autopilot_step input) tb' = (tb'', out, opened)"
          by (cases "apply_effect (w_admit w k) k now (autopilot_step input) tb'") auto
        from True Some False si ap show ?thesis
          by (intro that(2) [of t tb' input tb'' out opened])
             (simp_all add: visit_def Let_def del: table_get_enroll)
      qed
    qed
  qed
qed

lemma visit_inv:
  assumes "table_inv (pa_table pa)"
  shows "table_inv (pa_table (visit w now before during on pa k))"
proof (cases rule: visit_cases [of w now before during on pa k])
  case idle
  with assms table_inv_remove [OF assms, of k] table_inv_enroll [OF assms, of k] show ?thesis by auto
next
  case (step t tb' input tb'' out opened)
  note enrolled = table_inv_enroll [OF assms, of k]
  have tb': "table_inv tb'"
    using table_inv_step_input [OF enrolled] step(6) by (metis fst_conv)
  have st: "ap_state input = Some (tk_state t)"
    using step_input_fields(1) step(6) by (metis snd_conv)
  have same: "tk_state u = tk_state t" if "table_get tb' k = Some u" for u
    using step_input_get [of w _ k now t _ k u] step(4,6) that by (metis fst_conv option.inject)
  have "ap_inv (tk_state t)" by (rule table_invD [OF enrolled step(4)])
  then have "table_inv tb''"
    using table_inv_apply [OF tb', of k "autopilot_step input" now "w_admit w k"]
      ap_inv_step [OF _ st refl] same step(7) by (metis fst_conv)
  with tb' step(8) show ?thesis by auto
qed

lemma host_reach_inv: "host_reach tb \<Longrightarrow> table_inv tb"
proof (induction rule: host_reach.induct)
  case host_start
  show ?case by (simp add: table_inv_def table_default_def table_get_def)
next
  case (host_pass tb w sw now before during)
  have "table_inv (pa_table (foldl (visit w now before during on) pa ks))"
    if "table_inv (pa_table pa)" for on pa ks
    using that by (induction ks arbitrary: pa) (auto intro: visit_inv)
  with host_pass.IH show ?case by (auto simp: run_pass_def Let_def split: option.splits)
next
  case (host_verified tb k identity report)
  show ?case unfolding verified_def by (rule table_inv_keep [OF host_verified.IH]) (simp add: Let_def)
next
  case (host_switch tb sw affected)
  have inner: "table_inv (foldl (\<lambda>tb subdir. fst (table_remove (i, subdir) tb)) tb subs)"
    if "table_inv tb" for i tb subs
    using that by (induction subs arbitrary: tb) (auto intro: table_inv_remove)
  have "table_inv (foldl (\<lambda>tb a. if agent_on sw (ag_project_id a) (ag_id a) then tb
      else foldl (\<lambda>tb subdir. fst (table_remove (ag_id a, subdir) tb)) tb (checkouts a)) tb affected)"
    if "table_inv tb" for tb
    using that by (induction affected arbitrary: tb) (auto intro: inner)
  moreover have "table_inv (table_bump tb)" using host_switch.IH by (simp add: table_inv_def)
  ultimately show ?case by (simp add: set_switch_def)
qed

text \<open>
  Claim C9. Whatever the host does, every tracked checkout stays within its limits: no rung's count of
  failed cycles passes its budget, and a cycle in flight is one of the four rungs, numbered one
  more than its failures and within the budget, on a world not yet proven barren.
\<close>

theorem tracked_within_budget:
  assumes "host_reach tb" and "table_get tb k = Some t"
  shows "as_enrolled (tk_state t) \<and> (\<forall>r. attempts_of (tk_state t) r \<le> rung_budget r) \<and>
    distinct (as_barren (tk_state t)) \<and>
    (\<forall>c. as_cycle (tk_state t) = Some c \<longrightarrow>
       c_rung c \<in> {FixChecks, Resolve, UpdateBranch, ResolveComments} \<and>
       c_attempt c = attempts_of (tk_state t) (c_rung c) + 1 \<and> c_attempt c \<le> rung_budget (c_rung c) \<and>
       c_signature c \<notin> set (as_barren (tk_state t)))"
  using table_invD [OF host_reach_inv [OF assms(1)] assms(2)]
  by (auto simp: ap_inv_def autopilot_rungs_def)

text \<open>
  Claim C30. No reachable checkout ever gives up for lack of progress: the step refuses to open a cycle on
  a world already proven barren, so a cycle is never judged on one, and the \<open>NoProgress\<close>
  give-up of \<open>judge_cycle\<close> cannot happen. A barren world ends in waiting instead.
\<close>

theorem no_progress_never_given_up:
  assumes "host_reach tb" and "table_get tb k = Some t" and "ap_state input = Some (tk_state t)"
  shows "autopilot_step input \<noteq> GiveUp r GuNoProgress barren \<and>
    (as_cycle (tk_state t) = None \<longrightarrow>
     state_signature (ap_readiness input) \<in> set (as_barren (tk_state t)) \<longrightarrow>
     (\<exists>why. autopilot_step input = Wait why))"
proof -
  have inv: "ap_inv (tk_state t)" by (rule table_invD [OF host_reach_inv [OF assms(1)] assms(2)])
  have "\<exists>why. autopilot_step input = Wait why"
    if free: "as_cycle (tk_state t) = None"
      and barren: "state_signature (ap_readiness input) \<in> set (as_barren (tk_state t))"
  proof -
    from inv have "as_enrolled (tk_state t)" by (simp add: ap_inv_def)
    with assms(3) show ?thesis
    proof (cases rule: step_cases)
      case (dispatch r act ps sig sit)
      then have "consider_rung (tk_state t) (ap_readiness input) r act ps = Dispatch r act ps sig sit"
        using assms(3) by (auto elim: autopilot_step_Dispatch)
      with barren show ?thesis by (auto simp: consider_rung_Dispatch)
    qed (use free in auto)
  qed
  with ap_inv_no_progress [OF inv assms(3)] show ?thesis by blast
qed

section \<open>One pass over the table\<close>

fun sent_to :: "act_out \<Rightarrow> key option" where
  "sent_to (Sent k _ _) = Some k"
| "sent_to _ = None"

definition sent_keys :: "act_out list \<Rightarrow> key list" where
  "sent_keys out = List.map_filter sent_to out"

definition sends_to :: "string \<Rightarrow> act_out list \<Rightarrow> nat" where
  "sends_to a out = length (filter (\<lambda>k. fst k = a) (sent_keys out))"

lemma sent_keys_append [simp]: "sent_keys (xs @ ys) = sent_keys xs @ sent_keys ys"
  by (simp add: sent_keys_def map_filter_def)

lemma table_domain: "k \<in> set (table_keys tb) \<longleftrightarrow> table_get tb k \<noteq> None"
  by (auto simp: table_keys_def table_get_def map_of_eq_None_iff)

lemma apply_effect_domain:
  "table_get (fst (apply_effect adm k now eff tb)) j = None \<longleftrightarrow> table_get tb j = None"
  by (cases eff) (auto simp: apply_effect_def Let_def)

lemma apply_effect_sent:
  assumes "apply_effect adm k now eff tb = (tb', out, opened)"
  shows "sent_keys out = [] \<or>
    sent_keys out = [k] \<and> opened \<and> (\<exists>r act ps sig sit. eff = Dispatch r act ps sig sit)"
  using assms
  by (cases eff) (auto simp: apply_effect_def Let_def sent_keys_def map_filter_def split: if_splits)

lemma visit_stopped: "pa_stopped pa \<Longrightarrow> pa_stopped (visit w now before during on pa k)"
  by (simp add: visit_def)

lemma visit_domain:
  assumes "\<not> pa_stopped (visit w now before during on pa k)"
  shows "table_get (pa_table (visit w now before during on pa k)) j \<noteq> None \<longleftrightarrow>
    (if j = k then k \<in> on else table_get (pa_table pa) j \<noteq> None)"
proof (cases "k \<in> on")
  case False
  have "\<not> pa_stopped pa" "\<not> before k" using assms by (auto simp: visit_def split: if_splits)
  with False show ?thesis by (simp add: visit_def)
next
  case True
  let ?enr = "fst (table_enroll k (pa_table pa))"
  have alive: "\<not> pa_stopped pa" "\<not> before k" using assms by (auto simp: visit_def split: if_splits)
  obtain t where t: "table_get ?enr k = Some t" by (cases "table_get (pa_table pa) k") auto
  have dom: "table_get ?enr j \<noteq> None \<longleftrightarrow> (if j = k then True else table_get (pa_table pa) j \<noteq> None)"
    by (cases "table_get (pa_table pa) k") auto
  show ?thesis
  proof (cases "tk_verifying t")
    case verifying: True
    with True alive t dom show ?thesis by (simp add: visit_def Let_def del: table_get_enroll)
  next
    case False
    obtain tb' input where si: "step_input w (fst k \<in> pa_handed pa) k now t ?enr = (tb', input)"
      by (cases "step_input w (fst k \<in> pa_handed pa) k now t ?enr")
    obtain tb'' out opened where ap:
      "apply_effect (w_admit w k) k now (autopilot_step input) tb' = (tb'', out, opened)"
      by (cases "apply_effect (w_admit w k) k now (autopilot_step input) tb'") auto
    have "table_get tb'' j = None \<longleftrightarrow> table_get ?enr j = None"
      using apply_effect_domain [of "w_admit w k" k now "autopilot_step input" tb' j] ap
        step_input_domain [of w _ k now t ?enr j] si by (metis fst_conv)
    with dom True alive t False si ap assms show ?thesis
      by (auto simp: visit_def Let_def simp del: table_get_enroll split: if_splits)
  qed
qed

lemma visits_stopped:
  "pa_stopped pa \<Longrightarrow> pa_stopped (foldl (visit w now before during on) pa ks)"
  by (induction ks arbitrary: pa) (simp_all add: visit_stopped)

lemma visits_domain:
  assumes "\<not> pa_stopped (foldl (visit w now before during on) pa ks)"
  shows "table_get (pa_table (foldl (visit w now before during on) pa ks)) j \<noteq> None \<longleftrightarrow>
    (if j \<in> set ks then j \<in> on else table_get (pa_table pa) j \<noteq> None)"
  using assms
proof (induction ks arbitrary: pa)
  case (Cons k ks)
  let ?pa' = "visit w now before during on pa k"
  have "\<not> pa_stopped ?pa'"
    using Cons.prems visits_stopped [of ?pa' w now before during on ks] by auto
  from visit_domain [OF this, of j] Cons.IH [of ?pa'] Cons.prems show ?case by auto
qed simp

text \<open>What a pass has handed over so far: only to enabled, idle checkouts, once per agent.\<close>

definition pass_inv :: "world \<Rightarrow> key set \<Rightarrow> pass_state \<Rightarrow> bool" where
  "pass_inv w on pa \<longleftrightarrow>
     (\<forall>k \<in> set (sent_keys (pa_out pa)). k \<in> on \<and> \<not> w_busy w (fst k) \<and> \<not> w_delegation_live w k) \<and>
     (\<forall>a. sends_to a (pa_out pa) \<le> 1 \<and> (a \<notin> pa_handed pa \<longrightarrow> sends_to a (pa_out pa) = 0))"

lemma pass_inv_more:
  assumes "pass_inv w on pa" and "sent_keys (pa_out pa') = sent_keys (pa_out pa)"
    and "pa_handed pa \<subseteq> pa_handed pa'"
  shows "pass_inv w on pa'"
  using assms unfolding pass_inv_def sends_to_def by auto

lemma pass_inv_sent:
  assumes "pass_inv w on pa" and "sent_keys (pa_out pa') = sent_keys (pa_out pa) @ [k]"
    and "pa_handed pa' = insert (fst k) (pa_handed pa)" and "fst k \<notin> pa_handed pa"
    and "k \<in> on" "\<not> w_busy w (fst k)" "\<not> w_delegation_live w k"
  shows "pass_inv w on pa'"
  using assms unfolding pass_inv_def sends_to_def by auto

lemma visit_pass_inv:
  assumes "pass_inv w on pa"
  shows "pass_inv w on (visit w now before during on pa k)"
proof (cases rule: visit_cases [of w now before during on pa k])
  case idle
  show ?thesis by (rule pass_inv_more [OF assms]) (simp_all add: idle)
next
  case (step t tb' input tb'' out opened)
  show ?thesis
  proof (cases "during k \<or> sent_keys out = []")
    case True
    then show ?thesis by (intro pass_inv_more [OF assms]) (auto simp: step(8))
  next
    case False
    with apply_effect_sent [OF step(7)] obtain r act ps sig sit where
      sent: "sent_keys out = [k]" "opened" "autopilot_step input = Dispatch r act ps sig sit" by blast
    have "\<not> ap_agent_busy input" "\<not> ap_delegation_in_flight input"
      using sent(3) by (auto elim: autopilot_step_Dispatch)
    then have idle: "\<not> w_busy w (fst k)" "fst k \<notin> pa_handed pa" "\<not> w_delegation_live w k"
      using step_input_fields(3,4) [of w "fst k \<in> pa_handed pa" k now t "fst (table_enroll k (pa_table pa))"]
        step(6) by simp_all
    show ?thesis
      using False sent idle(2) by (intro pass_inv_sent [OF assms _ _ idle(2) step(3) idle(1,3)]) (simp_all add: step(8))
  qed
qed

text \<open>
  One pass hands rungs only to checkouts whose project and agent are switched on and that are
  idle, and to each agent at most one, however many checkouts it has; with unreadable switches
  it does nothing, and a pass that was not cut short leaves exactly the switched-on checkouts
  enrolled, so \<open>git_push\<close> is pre-authorized for those and nothing else.
\<close>

theorem pass_respects_switches:
  assumes "pa = run_pass w (Some sw) now before during tb"
  shows "(\<forall>k r ps. Sent k r ps \<in> set (pa_out pa) \<longrightarrow>
      k \<in> set (on_keys w sw) \<and> \<not> w_busy w (fst k) \<and> \<not> w_delegation_live w k) \<and>
    (\<forall>a. length (filter (\<lambda>k. fst k = a) (List.map_filter sent_to (pa_out pa))) \<le> 1) \<and>
    (\<not> pa_stopped pa \<longrightarrow>
      (\<forall>a repo op. pre_authorizes (pa_table pa) a repo op \<longleftrightarrow>
         op = ''git_push'' \<and> (a, repo) \<in> set (on_keys w sw))) \<and>
    pa_out (run_pass w None now before during tb) = [] \<and>
    pa_table (run_pass w None now before during tb) = tb"
proof -
  let ?start = "\<lparr>pa_table = tb, pa_handed = {}, pa_out = [], pa_stopped = False\<rparr>"
  let ?ks = "sorted_list_of_set (set (table_keys tb @ on_keys w sw))"
  have pa: "pa = foldl (visit w now before during (set (on_keys w sw))) ?start ?ks"
    by (simp add: assms run_pass_def Let_def)
  have "pass_inv w (set (on_keys w sw)) (foldl (visit w now before during (set (on_keys w sw))) pa ks)"
    if "pass_inv w (set (on_keys w sw)) pa" for pa ks
    using that by (induction ks arbitrary: pa) (auto intro: visit_pass_inv)
  moreover have "pass_inv w (set (on_keys w sw)) ?start"
    by (simp add: pass_inv_def sent_keys_def sends_to_def map_filter_def)
  ultimately have inv: "pass_inv w (set (on_keys w sw)) pa" unfolding pa by blast
  have sent: "k \<in> set (sent_keys out)" if "Sent k r ps \<in> set out" for k r ps out
    using that by (auto simp: sent_keys_def set_map_filter_iff intro: bexI [of _ "Sent k r ps"])
  have keys: "table_get (pa_table pa) j \<noteq> None \<longleftrightarrow> j \<in> set (on_keys w sw)" if "\<not> pa_stopped pa" for j
    using visits_domain [of w now before during "set (on_keys w sw)" ?start ?ks j] that
    unfolding pa [symmetric] by (auto simp: table_domain)
  have once: "length (filter (\<lambda>k. fst k = a) (List.map_filter sent_to (pa_out pa))) \<le> 1" for a
  proof -
    have "sends_to a (pa_out pa) \<le> 1" using inv by (simp add: pass_inv_def)
    then show ?thesis by (simp add: sends_to_def sent_keys_def)
  qed
  show ?thesis
  proof (intro conjI allI impI)
    fix k r ps assume "Sent k r ps \<in> set (pa_out pa)"
    from sent [OF this] inv
    have "k \<in> set (on_keys w sw) \<and> \<not> w_busy w (fst k) \<and> \<not> w_delegation_live w k"
      unfolding pass_inv_def by blast
    then show "k \<in> set (on_keys w sw)" "\<not> w_busy w (fst k)" "\<not> w_delegation_live w k" by blast+
  next
    fix a repo op assume "\<not> pa_stopped pa"
    from keys [OF this, of "(a, repo)"]
    show "pre_authorizes (pa_table pa) a repo op \<longleftrightarrow> op = ''git_push'' \<and> (a, repo) \<in> set (on_keys w sw)"
      by (simp add: pre_authorizes_def table_contains_def)
  qed (simp_all add: once [simplified] run_pass_def)
qed

end
