(* ===== verification/Examples_Ap.thy ===== *)
theory Examples_Ap
  imports Ap_Run
begin

text \<open>
  One checkout with a failing check on an open pull request, and autopilot's properties applied to
  it: the dispatch, the cycle that follows, the driver's pass that hands the rung over.
\<close>

definition ex_checks :: "merge_state \<Rightarrow> string list \<Rightarrow> pr_checks" where
  "ex_checks ms failing =
     \<lparr>pc_merge_state = ms, pc_rollup = ''failing'', pc_total = 1, pc_passed = 0,
      pc_failed = length failing, pc_pending = 0, pc_required_failing = failing, pc_runs = []\<rparr>"

definition ex_red :: readiness_input where
  "ex_red = \<lparr>ri_git = Some done_git, ri_pr = Some done_pr, ri_checks = Some (ex_checks MsBlocked [''ci'']),
             ri_comments = Some \<lparr>unresolved = []\<rparr>\<rparr>"

definition ex_green :: readiness_input where
  "ex_green = ex_red\<lparr>ri_checks := Some (ex_checks MsClean [])\<rparr>"

definition ex_ladder :: ladder_context where
  "ex_ladder = \<lparr>lc_base = ''main'', lc_commit_mode = ModeCommitPr\<rparr>"

definition ex_tick :: "readiness_input \<Rightarrow> int \<Rightarrow> autopilot_input" where
  "ex_tick rd now =
     \<lparr>ap_state = Some autopilot_enrolled, ap_readiness = rd, ap_ladder = ex_ladder,
      ap_agent_busy = False, ap_delegation_in_flight = False, ap_verification = None, ap_now = now\<rparr>"

definition ex_params :: "string \<rightharpoonup> string" where "ex_params = params [(''failing'', ''ci'')]"

lemma ex_red_rung: "next_rung ex_red ex_ladder = Delegate FixChecks ''fix-checks'' ex_params (ChecksFailing [''ci''])"
  by (simp add: next_rung_def ex_red_def done_git_def done_pr_def ex_checks_def detect_blockers_def
      tree_blockers_def publish_blockers_def gate_blockers_def thread_blockers_def ladder_def find_kind_def
      input_gate_def describe_merge_gate_def gate_def failing_checks_def is_open_def fix_checks_rung_def
      delegate_def ex_params_def)

lemma ex_red_git: "ri_git ex_red = Some done_git"
  by (simp add: ex_red_def)

theorem ladder_order_witness:
  "remedy_due ex_red done_git ex_ladder FixChecks \<and> ChecksFailing [''ci''] \<in> set (detect_blockers ex_red)"
  using ladder_order [OF ex_red_git, where ctx = ex_ladder and k = FixChecks] ex_red_rung by blast

theorem merge_only_when_clear_witness:
  "next_rung ex_green ex_ladder = Merge \<and> detect_blockers ex_green = []"
proof -
  have "ri_git ex_green = Some done_git" "ri_pr ex_green = Some done_pr"
    "ri_checks ex_green = Some (ex_checks MsClean [])" "ps_state done_pr = PrOpen" "gs_files done_git = []"
    "gs_unpushed done_git = 0" "pc_merge_state (ex_checks MsClean []) = MsClean"
    "\<forall>cm. ri_comments ex_green = Some cm \<longrightarrow> unresolved cm = []"
    by (simp_all add: ex_green_def ex_red_def done_git_def done_pr_def ex_checks_def)
  then have "next_rung ex_green ex_ladder = Merge"
    using merge_only_when_clear [of ex_green ex_ladder] by blast
  with merge_only_when_clear [of ex_green ex_ladder] show ?thesis by blast
qed

definition ex_signature :: string where "ex_signature = state_signature ex_red"
definition ex_situation :: string where "ex_situation = blocker_fingerprint (detect_blockers ex_red)"

lemma ex_dispatch:
  "autopilot_step (ex_tick ex_red now) = Dispatch FixChecks ''fix-checks'' ex_params ex_signature ex_situation"
proof -
  have "is_open (ri_pr ex_red)" by (simp add: ex_red_def done_pr_def is_open_def)
  then have "autopilot_step (ex_tick ex_red now) =
      consider_rung autopilot_enrolled ex_red FixChecks ''fix-checks'' ex_params"
    by (simp add: autopilot_step_def ex_tick_def ex_red_rung autopilot_enrolled_def)
  also have "\<dots> = Dispatch FixChecks ''fix-checks'' ex_params ex_signature ex_situation"
    by (simp add: consider_rung_Dispatch autopilot_rungs_def autopilot_enrolled_def attempts_of_def
        ex_signature_def ex_situation_def)
  finally show ?thesis .
qed

theorem dispatch_guarded_witness:
  "is_open (ri_pr ex_red) \<and> gs_files done_git = [] \<and> ex_signature = state_signature ex_red"
  using dispatch_guarded [OF ex_dispatch, of 0] by (auto simp: ex_tick_def ex_red_git)

definition ex_cycle :: cycle where
  "ex_cycle = \<lparr>c_rung = FixChecks, c_attempt = 1, c_signature = ex_signature, c_phase = AwaitingEvidence,
               c_phase_since = 0\<rparr>"

definition ex_waiting :: autopilot_state where
  "ex_waiting = autopilot_enrolled\<lparr>as_cycle := Some ex_cycle\<rparr>"

theorem judge_correct_witness:
  "autopilot_step ((ex_tick ex_green 5)\<lparr>ap_state := Some ex_waiting\<rparr>) = Settle FixChecks"
proof -
  let ?i = "(ex_tick ex_green 5)\<lparr>ap_state := Some ex_waiting\<rparr>"
  have "next_rung (ap_readiness ?i) (ap_ladder ?i) = Merge"
    by (simp add: next_rung_def ex_tick_def ex_green_def ex_red_def done_git_def done_pr_def ex_checks_def
        detect_blockers_def tree_blockers_def publish_blockers_def gate_blockers_def thread_blockers_def
        ladder_def find_kind_def input_gate_def describe_merge_gate_def gate_def failing_checks_def
        is_open_def settled_rung_def)
  moreover have "state_signature (ap_readiness ?i) \<noteq> c_signature ex_cycle" by code_simp
  ultimately show ?thesis
    using judge_correct [of ?i ex_waiting ex_cycle True False False False]
    by (simp add: ex_waiting_def autopilot_enrolled_def ex_cycle_def ex_tick_def)
qed

section \<open>Runs\<close>

lemma ex_drive: "drive autopilot_enrolled [ex_tick ex_red 0] =
   [Dispatch FixChecks ''fix-checks'' ex_params ex_signature ex_situation]"
proof -
  have "seen autopilot_enrolled (ex_tick ex_red 0) = ex_tick ex_red 0"
    by (simp add: seen_def autopilot_enrolled_def ex_tick_def)
  then show ?thesis by (simp add: ex_dispatch)
qed

theorem dispatches_bounded_witness:
  "length (filter (opens FixChecks) (drive autopilot_enrolled [ex_tick ex_red 0])) \<le> rung_budget FixChecks"
  by (rule dispatches_bounded [where S = ex_situation]) (simp_all add: ap_inv_enrolled ex_drive del: drive.simps)

theorem unmoved_world_one_cycle_witness:
  "length (filter opens_any (drive autopilot_enrolled [ex_tick ex_red 0, ex_tick ex_red 1])) \<le> 1"
proof (rule unmoved_world_one_cycle [where s = ex_signature])
  show "ap_inv autopilot_enrolled" by (rule ap_inv_enrolled)
qed (simp_all add: autopilot_enrolled_def ex_tick_def ex_signature_def)

section \<open>The driver\<close>

definition ex_agent :: agent_record where
  "ex_agent = \<lparr>ag_id = ''a'', ag_project_id = ''p'', ag_repos = [''r'']\<rparr>"

definition ex_world :: world where
  "ex_world =
     \<lparr>w_agents = [ex_agent], w_busy = (\<lambda>_. False), w_delegation_live = (\<lambda>_. False),
      w_git = (\<lambda>_. Some done_git), w_pr = (\<lambda>_. Some (done_pr, Some (ex_checks MsBlocked [''ci'']))),
      w_threads = (\<lambda>_. Some \<lparr>unresolved = []\<rparr>), w_admit = (\<lambda>_. Admitted)\<rparr>"

definition ex_switches :: switches where
  "ex_switches = \<lparr>sw_disabled_projects = [], sw_paused_agents = []\<rparr>"

definition ex_pass :: pass_state where
  "ex_pass = run_pass ex_world (Some ex_switches) 0 (\<lambda>_. False) (\<lambda>_. False) table_default"

lemma ex_pass_key: "on_keys ex_world ex_switches = [(''a'', None)]"
  by code_simp

lemma ex_pass_run:
  "\<not> pa_stopped ex_pass \<and> sent_keys (pa_out ex_pass) = [(''a'', None)] \<and>
   map_option (\<lambda>t. cycle_identity (tk_state t)) (table_get (pa_table ex_pass) (''a'', None)) =
     Some (Some (FixChecks, 1))"
  by code_simp

lemma ex_pass_reached: "host_reach (pa_table ex_pass)"
  unfolding ex_pass_def by (intro host_pass host_start)

theorem tracked_within_budget_witness:
  "\<exists>t c. table_get (pa_table ex_pass) (''a'', None) = Some t \<and> as_cycle (tk_state t) = Some c \<and>
     c_attempt c = 1 \<and> attempts_of (tk_state t) FixChecks = 0"
proof -
  from ex_pass_run obtain t c where t: "table_get (pa_table ex_pass) (''a'', None) = Some t"
    "as_cycle (tk_state t) = Some c" "c_rung c = FixChecks" "c_attempt c = 1"
    by (auto simp: cycle_identity_def)
  from tracked_within_budget [OF ex_pass_reached t(1)] t show ?thesis by auto
qed

theorem no_progress_never_given_up_witness:
  "\<exists>t. table_get (pa_table ex_pass) (''a'', None) = Some t \<and>
     autopilot_step ((ex_tick ex_red 9)\<lparr>ap_state := Some (tk_state t)\<rparr>) \<noteq> GiveUp FixChecks GuNoProgress None"
proof -
  from ex_pass_run obtain t where t: "table_get (pa_table ex_pass) (''a'', None) = Some t" by auto
  from no_progress_never_given_up [OF ex_pass_reached t, of "(ex_tick ex_red 9)\<lparr>ap_state := Some (tk_state t)\<rparr>"] t
  show ?thesis by auto
qed

theorem pass_respects_switches_witness:
  "pre_authorizes (pa_table ex_pass) ''a'' None ''git_push'' \<and>
   \<not> pre_authorizes (pa_table ex_pass) ''a'' None ''open_pr''"
  using pass_respects_switches [of ex_pass ex_world ex_switches 0 "\<lambda>_. False" "\<lambda>_. False" table_default]
    ex_pass_run ex_pass_key by (simp add: ex_pass_def)

end
