(* ===== verification/Del_Table.thy ===== *)
theory Del_Table
  imports Ap_Driver
begin

text \<open>
  In-flight delegations (\<open>supervisor/delegation.rs\<close>): one git playbook handed to the coding agent,
  recorded per checkout, delivered once the agent is free, and ended on the evidence of its own
  turn. This theory has the decision for one delegation, the plan of a pass, the table with its
  operations, and the admission of a new one. The \<open>BTreeMap\<close> is the list of its entries in key
  order. Views for clients are read off an entry.
\<close>

section \<open>Decisions\<close>

datatype agent_status = AsSpawning | AsRunning | AsIdle | AsStopped | AsError

fun delegation_done :: "delegation_kind \<Rightarrow> string" where
  "delegation_done Commit = ''Agent committed your changes''"
| "delegation_done CommitPush = ''Committed & pushed''"
| "delegation_done CommitPr = ''Committed '' @ em_dash @ '' PR is open''"
| "delegation_done OpenPr = ''PR is open''"
| "delegation_done Push = ''Pushed to origin''"
| "delegation_done Resolve = ''Conflicts resolved''"
| "delegation_done UpdateBranch = ''Branch updated''"
| "delegation_done FixChecks = ''Agent finished '' @ em_dash @ '' checks are re-running''"
| "delegation_done ResolveComments = ''Review comments addressed''"

definition give_up_grace_ms :: int where "give_up_grace_ms = 15000"

definition abandoned_notice :: string where
  "abandoned_notice = ''Agent finished '' @ em_dash @ '' review the chat for details''"

definition undelivered_notice :: string where
  "undelivered_notice = ''Couldn't hand the action to the agent''"

record delegation =
  dg_kind :: delegation_kind
  dg_prompt :: string
  dg_started_at :: int
  dg_saw_running :: bool
  dg_saw_git_op :: bool
  dg_queued :: bool

datatype del_step = StResolve | StWait | StDequeue | StMarkRunning | StGiveUp

definition is_active :: "agent_status \<Rightarrow> bool" where
  "is_active status \<longleftrightarrow> status = AsRunning \<or> status = AsSpawning"

definition delegation_step :: "delegation \<Rightarrow> agent_status \<Rightarrow> bool \<Rightarrow> int \<Rightarrow> del_step" where
  "delegation_step d status resolved now =
     (if resolved \<and> dg_saw_git_op d \<and> \<not> dg_queued d then StResolve
      else if dg_queued d then (if is_active status then StWait else StDequeue)
      else if status = AsRunning \<and> \<not> dg_saw_running d then StMarkRunning
      else
        (let armed = dg_saw_running d \<or> now - dg_started_at d > give_up_grace_ms
         in if \<not> is_active status \<and> armed then StGiveUp else StWait))"

datatype phase = PhQueued | PhStarted | PhRunning | PhDone | PhAbandoned

record observed =
  ob_git :: "git_state option"
  ob_pr :: "pr_state option"
  ob_checks :: "pr_checks option"

datatype del_effect =
    EfFinish key phase string
  | EfDequeue key
  | EfMarkRunning key
  | EfDropOrphan key

fun effect_key :: "del_effect \<Rightarrow> key" where
  "effect_key (EfFinish k p n) = k"
| "effect_key (EfDequeue k) = k"
| "effect_key (EfMarkRunning k) = k"
| "effect_key (EfDropOrphan k) = k"

definition resolved_by :: "delegation_kind \<Rightarrow> observed option \<Rightarrow> bool" where
  "resolved_by kind seen =
     delegation_resolved kind (Option.bind seen ob_git) (Option.bind seen ob_pr) (Option.bind seen ob_checks)"

definition give_up_effect :: "key \<Rightarrow> delegation_kind \<Rightarrow> del_effect" where
  "give_up_effect k kind =
     (if settles_on_idle kind then EfFinish k PhDone (delegation_done kind)
      else EfFinish k PhAbandoned abandoned_notice)"

text \<open>The loop of \<open>plan_pass\<close>, with the agents it has delivered to.\<close>

fun plan_loop ::
  "(string \<rightharpoonup> agent_status) \<Rightarrow> (key \<rightharpoonup> observed) \<Rightarrow> int \<Rightarrow> string list \<Rightarrow> (key \<times> delegation) list \<Rightarrow>
     del_effect list" where
  "plan_loop statuses seen now dequeued [] = []"
| "plan_loop statuses seen now dequeued ((k, d) # ds) =
     (case statuses (fst k) of
        None \<Rightarrow> EfDropOrphan k # plan_loop statuses seen now dequeued ds
      | Some status \<Rightarrow>
          (case delegation_step d status (resolved_by (dg_kind d) (seen k)) now of
             StResolve \<Rightarrow>
               EfFinish k PhDone (delegation_done (dg_kind d)) # plan_loop statuses seen now dequeued ds
           | StDequeue \<Rightarrow>
               if fst k \<in> set dequeued then plan_loop statuses seen now dequeued ds
               else EfDequeue k # plan_loop statuses seen now (dequeued @ [fst k]) ds
           | StMarkRunning \<Rightarrow> EfMarkRunning k # plan_loop statuses seen now dequeued ds
           | StGiveUp \<Rightarrow> give_up_effect k (dg_kind d) # plan_loop statuses seen now dequeued ds
           | StWait \<Rightarrow> plan_loop statuses seen now dequeued ds))"

definition plan_pass ::
  "(key \<times> delegation) list \<Rightarrow> (string \<rightharpoonup> agent_status) \<Rightarrow> (key \<rightharpoonup> observed) \<Rightarrow> int \<Rightarrow> del_effect list" where
  "plan_pass ds statuses seen now = plan_loop statuses seen now [] ds"

section \<open>The table\<close>

record del_entry =
  de_id :: nat
  de_delegation :: delegation

record del_table =
  dt_table :: "(key \<times> del_entry) list"
  dt_next_id :: nat

definition del_table_default :: del_table where
  "del_table_default = \<lparr>dt_table = [], dt_next_id = 0\<rparr>"

definition del_get :: "del_table \<Rightarrow> key \<Rightarrow> del_entry option" where
  "del_get tb k = map_of (dt_table tb) k"

record delegation_view =
  dv_agent_id :: string
  dv_subdir :: "string option"
  dv_kind :: delegation_kind
  dv_phase :: phase
  dv_started_at :: int
  dv_notice :: "string option"

definition view_of :: "key \<Rightarrow> delegation \<Rightarrow> phase \<Rightarrow> string option \<Rightarrow> delegation_view" where
  "view_of k d ph notice =
     \<lparr>dv_agent_id = fst k, dv_subdir = snd k, dv_kind = dg_kind d, dv_phase = ph,
      dv_started_at = dg_started_at d, dv_notice = notice\<rparr>"

definition live_phase :: "delegation \<Rightarrow> phase" where
  "live_phase d = (if dg_queued d then PhQueued else if dg_saw_running d then PhRunning else PhStarted)"

definition del_record ::
  "key \<Rightarrow> delegation_kind \<Rightarrow> string \<Rightarrow> bool \<Rightarrow> int \<Rightarrow> del_table \<Rightarrow> (nat \<times> delegation_view) \<times> del_table" where
  "del_record k kind prompt queued now tb =
     (let i = dt_next_id tb + 1;
          d = \<lparr>dg_kind = kind, dg_prompt = prompt, dg_started_at = now, dg_saw_running = False,
               dg_saw_git_op = False, dg_queued = queued\<rparr>
      in ((i, view_of k d (live_phase d) None),
          \<lparr>dt_table = btree_insert k \<lparr>de_id = i, de_delegation = d\<rparr> (dt_table tb), dt_next_id = i\<rparr>))"

definition del_snapshot :: "del_table \<Rightarrow> (key \<times> nat \<times> delegation) list" where
  "del_snapshot tb = map (\<lambda>(k, e). (k, de_id e, de_delegation e)) (dt_table tb)"

definition del_views :: "del_table \<Rightarrow> delegation_view list" where
  "del_views tb = map (\<lambda>(k, e). view_of k (de_delegation e) (live_phase (de_delegation e)) None) (dt_table tb)"

text \<open>Writing the entry under a key, and taking it out.\<close>

definition del_put :: "key \<Rightarrow> delegation \<Rightarrow> del_table \<Rightarrow> del_table" where
  "del_put k d tb =
     tb\<lparr>dt_table := map (\<lambda>(j, e). (j, if j = k then e\<lparr>de_delegation := d\<rparr> else e)) (dt_table tb)\<rparr>"

definition del_drop :: "key \<Rightarrow> del_table \<Rightarrow> del_table" where
  "del_drop k tb = tb\<lparr>dt_table := filter (\<lambda>(j, e). j \<noteq> k) (dt_table tb)\<rparr>"

definition del_finish ::
  "key \<Rightarrow> nat \<Rightarrow> phase \<Rightarrow> string option \<Rightarrow> del_table \<Rightarrow> delegation_view option \<times> del_table" where
  "del_finish k i ph notice tb =
     (case del_get tb k of
        Some e \<Rightarrow>
          if de_id e \<noteq> i then (None, tb)
          else (Some (view_of k (de_delegation e) ph notice), del_drop k tb)
      | None \<Rightarrow> (None, tb))"

definition del_mark_running :: "key \<Rightarrow> nat option \<Rightarrow> del_table \<Rightarrow> delegation_view option \<times> del_table" where
  "del_mark_running k i tb =
     (case del_get tb k of
        None \<Rightarrow> (None, tb)
      | Some e \<Rightarrow>
          if (case i of Some j \<Rightarrow> j \<noteq> de_id e | None \<Rightarrow> False) then (None, tb)
          else
            (let d = de_delegation e
             in if dg_queued d \<or> dg_saw_running d then (None, tb)
                else
                  (let d = d\<lparr>dg_saw_running := True\<rparr> in (Some (view_of k d PhRunning None), del_put k d tb))))"

definition del_take_dequeue ::
  "key \<Rightarrow> nat \<Rightarrow> int \<Rightarrow> del_table \<Rightarrow> (string \<times> delegation_view) option \<times> del_table" where
  "del_take_dequeue k i now tb =
     (case del_get tb k of
        None \<Rightarrow> (None, tb)
      | Some e \<Rightarrow>
          if de_id e \<noteq> i \<or> \<not> dg_queued (de_delegation e) then (None, tb)
          else
            (let d = (de_delegation e)\<lparr>dg_queued := False, dg_started_at := now\<rparr>
             in (Some (dg_prompt d, view_of k d PhStarted None), del_put k d tb)))"

definition proves :: "string \<Rightarrow> string \<Rightarrow> key \<Rightarrow> delegation \<Rightarrow> bool" where
  "proves agent op k d \<longleftrightarrow>
     fst k = agent \<and> \<not> dg_queued d \<and> \<not> dg_saw_git_op d \<and> action_proves_kind (dg_kind d) op"

definition del_note_git_action :: "string \<Rightarrow> string \<Rightarrow> del_table \<Rightarrow> bool \<times> del_table" where
  "del_note_git_action agent op tb =
     (\<exists>(k, e) \<in> set (dt_table tb). proves agent op k (de_delegation e),
      tb\<lparr>dt_table :=
           map (\<lambda>(k, e). (k, if proves agent op k (de_delegation e)
                             then e\<lparr>de_delegation := (de_delegation e)\<lparr>dg_saw_git_op := True\<rparr>\<rparr> else e))
             (dt_table tb)\<rparr>)"

fun mark_keys :: "key list \<Rightarrow> del_table \<Rightarrow> delegation_view list \<times> del_table" where
  "mark_keys [] tb = ([], tb)"
| "mark_keys (k # ks) tb =
     (let (shown, tb) = del_mark_running k None tb;
          (views, tb) = mark_keys ks tb
      in (case shown of Some v \<Rightarrow> v # views | None \<Rightarrow> views, tb))"

definition mark_agent_running :: "string \<Rightarrow> del_table \<Rightarrow> delegation_view list \<times> del_table" where
  "mark_agent_running agent tb = mark_keys (filter (\<lambda>k. fst k = agent) (map fst (dt_table tb))) tb"

definition del_pre_authorizes :: "del_table \<Rightarrow> string \<Rightarrow> string option \<Rightarrow> string \<Rightarrow> bool" where
  "del_pre_authorizes tb agent repo op =
     (case del_get tb (agent, repo) of
        Some e \<Rightarrow> \<not> dg_queued (de_delegation e) \<and> action_proves_kind (dg_kind (de_delegation e)) op
      | None \<Rightarrow> False)"

definition del_is_live :: "del_table \<Rightarrow> key \<Rightarrow> bool" where
  "del_is_live tb k \<longleftrightarrow> del_get tb k \<noteq> None"

end
