(* ===== verification/Del_Admit.thy ===== *)
theory Del_Admit
  imports Del_Table
begin

text \<open>
  How a delegation starts (\<open>supervisor/delegation.rs\<close>): the trigger line that is sent to the agent,
  the checkout it is keyed by, its admission against local reviews, and its delivery. The
  workspace's rows, the agents' statuses and the review table are a record of functions; what
  the agent's process answers to the message is an argument.
\<close>

section \<open>The trigger\<close>

definition app_action_prefix :: string where "app_action_prefix = ''[app-action] ''"

definition backslash :: string where "backslash = [CHR 0x5C]"

definition param_text :: "string \<times> string \<Rightarrow> string" where
  "param_text kv =
     (case kv of (k, v) \<Rightarrow>
        if v = [] then []
        else '' '' @ k @ ''='' @ dquote @ str_replace dquote (backslash @ dquote) v @ dquote)"

definition app_action_message :: "string \<Rightarrow> (string \<times> string) list \<Rightarrow> string" where
  "app_action_message act ps = app_action_prefix @ act @ concat (map param_text ps)"

definition acts_on_pr :: "delegation_kind \<Rightarrow> bool" where
  "acts_on_pr kind \<longleftrightarrow> kind = FixChecks \<or> kind = ResolveComments \<or> kind = UpdateBranch"

text \<open>The caller's parameters are the entries of a \<open>BTreeMap\<close>, in key order.\<close>

definition trigger_params ::
  "delegation_kind \<Rightarrow> (string \<times> string) list \<Rightarrow> string option \<Rightarrow> string option \<Rightarrow> (string \<times> string) list" where
  "trigger_params kind ps subdir pr_branch =
     filter (\<lambda>(k, v). k \<noteq> ''repo'' \<and> k \<noteq> ''branch'') ps @
     (case pr_branch of Some b \<Rightarrow> if acts_on_pr kind then [(''branch'', b)] else [] | None \<Rightarrow> []) @
     (case subdir of Some s \<Rightarrow> [(''repo'', s)] | None \<Rightarrow> [])"

definition delegation_trigger ::
  "delegation_kind \<Rightarrow> (string \<times> string) list \<Rightarrow> string option \<Rightarrow> string option \<Rightarrow> string" where
  "delegation_trigger kind ps subdir pr_branch =
     app_action_message (action kind) (trigger_params kind ps subdir pr_branch)"

section \<open>Admission\<close>

datatype del_error = DeAgent string | DeOther string

record del_host =
  dh_agent :: "string \<Rightarrow> (bool \<times> string list) option"
  dh_status :: "string \<Rightarrow> agent_status option"
  dh_pr_branch :: "string \<Rightarrow> string \<Rightarrow> string option"
  dh_reviewing :: "key \<Rightarrow> bool"
  dh_unicode :: unicode

text \<open>An agent's row: whether it is archived, and the subdirectories of its repos, the primary first.\<close>

definition checkout_subdir :: "unicode \<Rightarrow> string list \<Rightarrow> string option \<Rightarrow> del_error + string option" where
  "checkout_subdir U repos subdir =
     (case (case map_option trim subdir of Some s \<Rightarrow> if s = [] then None else Some s | None \<Rightarrow> None) of
        None \<Rightarrow> Inr None
      | Some requested \<Rightarrow>
          if (case repos of r # _ \<Rightarrow> r = requested | [] \<Rightarrow> False) then Inr None
          else if requested \<in> set repos then Inr (Some requested)
          else Inl (DeOther (''unknown repo '' @ debug_fmt U requested)))"

definition record_unless_reviewed ::
  "(key \<Rightarrow> bool) \<Rightarrow> key \<Rightarrow> delegation_kind \<Rightarrow> string \<Rightarrow> bool \<Rightarrow> int \<Rightarrow> del_table \<Rightarrow>
     (nat \<times> delegation_view) option \<times> del_table" where
  "record_unless_reviewed reviewing k kind prompt queued now tb =
     (if reviewing k then (None, tb)
      else (let (shown, tb) = del_record k kind prompt queued now tb in (Some shown, tb)))"

record admitted =
  ad_key :: key
  ad_id :: nat
  ad_prompt :: string
  ad_queued :: bool
  ad_shown :: delegation_view

definition admit_to ::
  "del_host \<Rightarrow> string \<Rightarrow> string option \<Rightarrow> string \<Rightarrow> (string \<times> string) list \<Rightarrow> int \<Rightarrow> del_table \<Rightarrow>
     del_error + admitted option \<times> del_table" where
  "admit_to H agent subdir act ps now tb =
     (case from_action act of
        None \<Rightarrow> Inl (DeOther (''unknown git action '' @ debug_fmt (dh_unicode H) act))
      | Some kind \<Rightarrow>
          (case dh_agent H agent of
             None \<Rightarrow> Inl (DeAgent agent)
           | Some (archived, repos) \<Rightarrow>
               if archived then Inl (DeOther ''agent is archived'')
               else
                 (case checkout_subdir (dh_unicode H) repos subdir of
                    Inl e \<Rightarrow> Inl e
                  | Inr sub \<Rightarrow>
                      (let worktree = (case sub of Some s \<Rightarrow> s
                                       | None \<Rightarrow> (case repos of r # _ \<Rightarrow> r | [] \<Rightarrow> []));
                           prompt = delegation_trigger kind ps sub (dh_pr_branch H agent worktree);
                           queued = (dh_status H agent = Some AsRunning);
                           k = (agent, sub)
                       in case record_unless_reviewed (dh_reviewing H) k kind prompt queued now tb of
                            (None, tb) \<Rightarrow> Inr (None, tb)
                          | (Some (i, shown), tb) \<Rightarrow>
                              Inr (Some \<lparr>ad_key = k, ad_id = i, ad_prompt = prompt, ad_queued = queued,
                                         ad_shown = shown\<rparr>, tb)))))"

text \<open>
  \<open>run_admitted\<close> on the table as it is when the delivery answered: \<open>Some e\<close> is the error of sending
  the message. What was announced besides is the view of the delegation that is gone.
\<close>

definition run_admitted ::
  "admitted \<Rightarrow> del_error option \<Rightarrow> del_table \<Rightarrow>
     (del_error + delegation_view) \<times> delegation_view option \<times> del_table" where
  "run_admitted a answer tb =
     (if ad_queued a then (Inr (ad_shown a), None, tb)
      else
        (case answer of
           None \<Rightarrow> (Inr (ad_shown a), None, tb)
         | Some e \<Rightarrow>
             (let (gone, tb) = del_finish (ad_key a) (ad_id a) PhAbandoned (Some undelivered_notice) tb
              in (Inl e, gone, tb))))"

definition review_holds_checkout :: string where
  "review_holds_checkout =
     ''A local review is reading this checkout. Wait for it to finish, or stop it.''"

definition delegate_git ::
  "del_host \<Rightarrow> string \<Rightarrow> string option \<Rightarrow> string \<Rightarrow> (string \<times> string) list \<Rightarrow> int \<Rightarrow> del_error option \<Rightarrow>
     del_table \<Rightarrow> (del_error + delegation_view) \<times> del_table" where
  "delegate_git H agent subdir act ps now answer tb =
     (case admit_to H agent subdir act ps now tb of
        Inl e \<Rightarrow> (Inl e, tb)
      | Inr (None, tb) \<Rightarrow> (Inl (DeOther review_holds_checkout), tb)
      | Inr (Some a, tb) \<Rightarrow> (let (r, _, tb) = run_admitted a answer tb in (r, tb)))"

section \<open>What the driver reads\<close>

definition agent_status_of :: "del_host \<Rightarrow> string \<Rightarrow> agent_status option" where
  "agent_status_of H agent =
     (case dh_agent H agent of
        None \<Rightarrow> None
      | Some (archived, _) \<Rightarrow> if archived then None else dh_status H agent)"

definition needs_pr :: "delegation_kind \<Rightarrow> bool" where
  "needs_pr kind \<longleftrightarrow> kind = CommitPr \<or> kind = OpenPr \<or> kind = UpdateBranch"

text \<open>
  A checkout git is refused in reads as a zero state, which is dropped. \<open>git\<close> and \<open>pr\<close> are what the
  reads answer.
\<close>

definition del_observe ::
  "(key \<Rightarrow> git_state option) \<Rightarrow> (key \<Rightarrow> (pr_state \<times> pr_checks option) option) \<Rightarrow> key \<Rightarrow> delegation_kind \<Rightarrow> observed" where
  "del_observe git pr k kind =
     (let g = (case git k of Some g \<Rightarrow> if gs_blocked_config g = [] then Some g else None | None \<Rightarrow> None);
          live = (if needs_pr kind then pr k else None)
      in \<lparr>ob_git = g, ob_pr = map_option fst live, ob_checks = Option.bind live snd\<rparr>)"

text \<open>The maps \<open>run_pass\<close> fills from its snapshot before it plans.\<close>

definition pass_statuses :: "(string \<Rightarrow> agent_status option) \<Rightarrow> (key \<times> nat \<times> delegation) list \<Rightarrow> string \<rightharpoonup> agent_status" where
  "pass_statuses status snap agent = (if agent \<in> (fst \<circ> fst) ` set snap then status agent else None)"

definition looks_at :: "delegation \<Rightarrow> bool" where
  "looks_at d \<longleftrightarrow> dg_saw_git_op d \<and> \<not> dg_queued d \<and> \<not> settles_on_idle (dg_kind d)"

definition pass_observed ::
  "(key \<Rightarrow> delegation_kind \<Rightarrow> observed) \<Rightarrow> (key \<times> nat \<times> delegation) list \<Rightarrow> key \<rightharpoonup> observed" where
  "pass_observed look snap k =
     (case map_of snap k of
        Some (i, d) \<Rightarrow> if looks_at d then Some (look k (dg_kind d)) else None
      | None \<Rightarrow> None)"

definition pass_plan ::
  "(string \<Rightarrow> agent_status option) \<Rightarrow> (key \<Rightarrow> delegation_kind \<Rightarrow> observed) \<Rightarrow> (key \<times> nat \<times> delegation) list \<Rightarrow>
     int \<Rightarrow> del_effect list" where
  "pass_plan status look snap now =
     plan_pass (map (\<lambda>(k, i, d). (k, d)) snap) (pass_statuses status snap) (pass_observed look snap) now"

text \<open>
  One effect applied to the table, against the id the snapshot held. The answer is what is
  announced, and the trigger to send when there is one.
\<close>

definition apply_del_effect ::
  "(key \<Rightarrow> nat) \<Rightarrow> int \<Rightarrow> del_effect \<Rightarrow> del_table \<Rightarrow> (delegation_view option \<times> (key \<times> nat \<times> string) option) \<times> del_table" where
  "apply_del_effect ids now eff tb =
     (case eff of
        EfFinish k ph notice \<Rightarrow> (let (v, tb) = del_finish k (ids k) ph (Some notice) tb in ((v, None), tb))
      | EfDropOrphan k \<Rightarrow> (let (v, tb) = del_finish k (ids k) PhAbandoned None tb in ((v, None), tb))
      | EfMarkRunning k \<Rightarrow> (let (v, tb) = del_mark_running k (Some (ids k)) tb in ((v, None), tb))
      | EfDequeue k \<Rightarrow>
          (case del_take_dequeue k (ids k) now tb of
             (None, tb) \<Rightarrow> ((None, None), tb)
           | (Some (prompt, v), tb) \<Rightarrow> ((Some v, Some (k, ids k, prompt)), tb)))"

definition snapshot_id :: "(key \<times> nat \<times> delegation) list \<Rightarrow> key \<Rightarrow> nat" where
  "snapshot_id snap k = (case map_of snap k of Some (i, d) \<Rightarrow> i | None \<Rightarrow> 0)"

text \<open>A pass with nothing in between, every trigger accepted.\<close>

definition run_del_pass ::
  "(string \<Rightarrow> agent_status option) \<Rightarrow> (key \<Rightarrow> delegation_kind \<Rightarrow> observed) \<Rightarrow> int \<Rightarrow> del_table \<Rightarrow> del_table" where
  "run_del_pass status look now tb =
     (let snap = del_snapshot tb
      in foldl (\<lambda>tb eff. snd (apply_del_effect (snapshot_id snap) now eff tb)) tb (pass_plan status look snap now))"

end
