(* ===== verification/Del_Run.thy ===== *)
theory Del_Run
  imports Del_Admit
begin

text \<open>
  Delegations over time: requests, the agents' operations and turns, the passes of the driver and the
  deliveries, in any order. A pass takes its snapshot, reads, plans, and applies its effects one by one; a
  delivery is awaited, by the request or by the pass, and everything else may happen before it is over.
  The log says in which order things happened.
\<close>

section \<open>The world\<close>

text \<open>
  A trigger is taken up when its delegation is admitted to an agent at rest, or taken off the queue: the
  table holds it as not queued from then on. It is sent when the delivery that was started then succeeds.
\<close>

datatype del_log =
    LRecorded key nat delegation_kind
  | LTaken key nat string
  | LSent key nat string
  | LOp string string
  | LSeen key observed
  | LEnded key nat delegation_kind phase

datatype del_pass =
    PassIdle
  | PassRead "(key \<times> nat \<times> delegation) list"
  | PassApply "(key \<times> nat \<times> delegation) list" int "del_effect list"

record del_send =
  sd_pass :: bool
  sd_key :: key
  sd_id :: nat
  sd_prompt :: string

record del_world =
  dw_table :: del_table
  dw_pass :: del_pass
  dw_sends :: "del_send list"
  dw_log :: "del_log list"

definition ended_log :: "delegation_view option \<Rightarrow> nat \<Rightarrow> del_log list" where
  "ended_log v i =
     (case v of
        Some v \<Rightarrow>
          if dv_phase v = PhDone \<or> dv_phase v = PhAbandoned
          then [LEnded (dv_agent_id v, dv_subdir v) i (dv_kind v) (dv_phase v)] else []
      | None \<Rightarrow> [])"

definition seen_log :: "(key \<Rightarrow> delegation_kind \<Rightarrow> observed) \<Rightarrow> (key \<times> nat \<times> delegation) list \<Rightarrow> del_log list" where
  "seen_log look snap =
     map (\<lambda>(k, i, d). LSeen k (look k (dg_kind d))) (filter (\<lambda>(k, i, d). looks_at d) snap)"

definition awaits_send :: "del_world \<Rightarrow> bool" where
  "awaits_send w \<longleftrightarrow> (\<exists>x \<in> set (dw_sends w). sd_pass x)"

inductive del_move :: "del_world \<Rightarrow> del_world \<Rightarrow> bool" where
  admit: "admit_to H agent subdir act ps now (dw_table w) = Inr (Some a, tb) \<Longrightarrow>
    del_move w (w\<lparr>dw_table := tb,
      dw_sends := dw_sends w @ (if ad_queued a then [] else [\<lparr>sd_pass = False, sd_key = ad_key a, sd_id = ad_id a, sd_prompt = ad_prompt a\<rparr>]),
      dw_log := dw_log w @ LRecorded (ad_key a) (ad_id a) (dv_kind (ad_shown a)) #
        (if ad_queued a then [] else [LTaken (ad_key a) (ad_id a) (ad_prompt a)])\<rparr>)"
| delivered: "x \<in> set (dw_sends w) \<Longrightarrow>
    del_move w (w\<lparr>dw_sends := remove1 x (dw_sends w), dw_log := dw_log w @ [LSent (sd_key x) (sd_id x) (sd_prompt x)]\<rparr>)"
| undelivered: "x \<in> set (dw_sends w) \<Longrightarrow>
    del_finish (sd_key x) (sd_id x) PhAbandoned (Some undelivered_notice) (dw_table w) = (v, tb) \<Longrightarrow>
    del_move w (w\<lparr>dw_table := tb, dw_sends := remove1 x (dw_sends w), dw_log := dw_log w @ ended_log v (sd_id x)\<rparr>)"
| operation: "del_note_git_action agent op (dw_table w) = (b, tb) \<Longrightarrow>
    del_move w (w\<lparr>dw_table := tb, dw_log := dw_log w @ [LOp agent op]\<rparr>)"
| turn: "mark_agent_running agent (dw_table w) = (vs, tb) \<Longrightarrow> del_move w (w\<lparr>dw_table := tb\<rparr>)"
| snapshot: "dw_pass w = PassIdle \<Longrightarrow> del_move w (w\<lparr>dw_pass := PassRead (del_snapshot (dw_table w))\<rparr>)"
| plan: "dw_pass w = PassRead snap \<Longrightarrow>
    del_move w (w\<lparr>dw_pass := PassApply snap now (pass_plan status look snap now), dw_log := dw_log w @ seen_log look snap\<rparr>)"
| effect: "dw_pass w = PassApply snap now (eff # effs) \<Longrightarrow> \<not> awaits_send w \<Longrightarrow>
    apply_del_effect (snapshot_id snap) now eff (dw_table w) = ((v, sent), tb) \<Longrightarrow>
    del_move w (w\<lparr>dw_table := tb, dw_pass := PassApply snap now effs,
      dw_sends := dw_sends w @ (case sent of Some (k, i, p) \<Rightarrow> [\<lparr>sd_pass = True, sd_key = k, sd_id = i, sd_prompt = p\<rparr>] | None \<Rightarrow> []),
      dw_log := dw_log w @ ended_log v (snapshot_id snap (effect_key eff)) @
        (case sent of Some (k, i, p) \<Rightarrow> [LTaken k i p] | None \<Rightarrow> [])\<rparr>)"
| rest: "dw_pass w = PassApply snap now [] \<Longrightarrow> \<not> awaits_send w \<Longrightarrow> del_move w (w\<lparr>dw_pass := PassIdle\<rparr>)"

definition del_start :: del_world where
  "del_start = \<lparr>dw_table = del_table_default, dw_pass = PassIdle, dw_sends = [], dw_log = []\<rparr>"

definition del_reach :: "del_world \<Rightarrow> bool" where
  "del_reach w \<longleftrightarrow> del_move\<^sup>*\<^sup>* del_start w"

lemma del_first: "del_reach del_start"
  by (simp add: del_reach_def)

lemma del_then: "del_reach w \<Longrightarrow> del_move w w' \<Longrightarrow> del_reach w'"
  unfolding del_reach_def by (rule rtranclp.rtrancl_into_rtrancl)

section \<open>Reading the log\<close>

fun recorded_as :: "del_log \<Rightarrow> (nat \<times> key \<times> delegation_kind) option" where
  "recorded_as (LRecorded k i kind) = Some (i, k, kind)"
| "recorded_as _ = None"

fun taken_as :: "del_log \<Rightarrow> nat option" where
  "taken_as (LTaken k i p) = Some i"
| "taken_as _ = None"

fun sent_as :: "del_log \<Rightarrow> nat option" where
  "sent_as (LSent k i p) = Some i"
| "sent_as _ = None"

fun ended_as :: "del_log \<Rightarrow> nat option" where
  "ended_as (LEnded k i kind ph) = Some i"
| "ended_as _ = None"

definition recorded :: "del_log list \<Rightarrow> (nat \<times> key \<times> delegation_kind) list" where
  "recorded log = List.map_filter recorded_as log"

definition taken_ids :: "del_log list \<Rightarrow> nat list" where
  "taken_ids log = List.map_filter taken_as log"

definition sent_ids :: "del_log list \<Rightarrow> nat list" where
  "sent_ids log = List.map_filter sent_as log"

definition ended :: "del_log list \<Rightarrow> nat list" where
  "ended log = List.map_filter ended_as log"

lemma map_filter_append [simp]: "List.map_filter f (xs @ ys) = List.map_filter f xs @ List.map_filter f ys"
  by (simp add: List.map_filter_def)

lemma log_append [simp]:
  "recorded (a @ b) = recorded a @ recorded b" "taken_ids (a @ b) = taken_ids a @ taken_ids b" "ended (a @ b) = ended a @ ended b"
  "sent_ids (a @ b) = sent_ids a @ sent_ids b"
  by (simp_all add: recorded_def taken_ids_def ended_def sent_ids_def)

lemma log_single [simp]:
  "recorded [] = []" "taken_ids [] = []" "ended [] = []" "sent_ids [] = []"
  "sent_ids (x # log) = (case sent_as x of Some r \<Rightarrow> [r] | None \<Rightarrow> []) @ sent_ids log"
  "recorded (x # log) = (case recorded_as x of Some r \<Rightarrow> [r] | None \<Rightarrow> []) @ recorded log"
  "taken_ids (x # log) = (case taken_as x of Some r \<Rightarrow> [r] | None \<Rightarrow> []) @ taken_ids log"
  "ended (x # log) = (case ended_as x of Some r \<Rightarrow> [r] | None \<Rightarrow> []) @ ended log"
  by (simp_all add: recorded_def taken_ids_def ended_def sent_ids_def List.map_filter_simps split: option.split)

text \<open>The agent ran an operation of the playbook after the trigger was taken up; then the target was seen.\<close>

definition worked :: "del_log list \<Rightarrow> key \<Rightarrow> nat \<Rightarrow> delegation_kind \<Rightarrow> bool" where
  "worked log k i kind \<longleftrightarrow>
     (\<exists>p op. subseq [LTaken k i p, LOp (fst k) op] log \<and> action_proves_kind kind op)"

definition landed :: "del_log list \<Rightarrow> key \<Rightarrow> nat \<Rightarrow> delegation_kind \<Rightarrow> bool" where
  "landed log k i kind \<longleftrightarrow>
     (\<exists>p op seen. subseq [LTaken k i p, LOp (fst k) op, LSeen k seen] log \<and> action_proves_kind kind op \<and>
        resolved_by kind (Some seen))"

lemma subseq_later: "subseq xs log \<Longrightarrow> subseq xs (log @ later)"
  by (metis append_Nil2 list_emb_append_mono list_emb_Nil)

lemma subseq_then: "subseq xs log \<Longrightarrow> y \<in> set later \<Longrightarrow> subseq (xs @ [y]) (log @ later)"
  by (intro list_emb_append_mono) (simp_all add: subseq_singleton_left)

lemma worked_later: "worked log k i kind \<Longrightarrow> worked (log @ later) k i kind"
  unfolding worked_def using subseq_later by blast

lemma landed_later: "landed log k i kind \<Longrightarrow> landed (log @ later) k i kind"
  unfolding landed_def using subseq_later by blast

lemma worked_now:
  "LTaken k i p \<in> set log \<Longrightarrow> action_proves_kind kind op \<Longrightarrow> worked (log @ [LOp (fst k) op]) k i kind"
  using subseq_then [of "[LTaken k i p]" log "LOp (fst k) op" "[LOp (fst k) op]"]
  by (auto simp: worked_def subseq_singleton_left)

lemma landed_now:
  "worked log k i kind \<Longrightarrow> LSeen k seen \<in> set later \<Longrightarrow> resolved_by kind (Some seen) \<Longrightarrow> landed (log @ later) k i kind"
  unfolding worked_def landed_def using subseq_then [of "[_, _]" log "LSeen k seen" later] by fastforce

section \<open>The operations, entry by entry\<close>

lemma map_of_values: "map_of (map (\<lambda>(k, e). (k, f k e)) xs) j = map_option (f j) (map_of xs j)"
  by (induction xs) auto

lemma map_of_keep: "map_of (filter (\<lambda>(j, e). j \<noteq> k) xs) j = (if j = k then None else map_of xs j)"
  by (induction xs) auto

lemma del_get_put:
  "del_get (del_put k d tb) j =
     (if j = k then map_option (\<lambda>e. e\<lparr>de_delegation := d\<rparr>) (del_get tb k) else del_get tb j)"
  by (auto simp: del_get_def del_put_def map_of_values option.map_ident)

lemma del_get_drop: "del_get (del_drop k tb) j = (if j = k then None else del_get tb j)"
  by (simp add: del_get_def del_drop_def map_of_keep)

lemma del_get_record:
  "del_record k kind p q now tb = ((i, v), tb') \<Longrightarrow>
     i = Suc (dt_next_id tb) \<and> dt_next_id tb' = i \<and>
     del_get tb' = (del_get tb)(k \<mapsto> \<lparr>de_id = i, de_delegation =
       \<lparr>dg_kind = kind, dg_prompt = p, dg_started_at = now, dg_saw_running = False, dg_saw_git_op = False, dg_queued = q\<rparr>\<rparr>)"
  by (auto simp: del_record_def del_get_def Let_def fun_eq_iff)

lemma del_get_note:
  "del_get (snd (del_note_git_action a op tb)) j =
     map_option (\<lambda>e. if proves a op j (de_delegation e)
       then e\<lparr>de_delegation := (de_delegation e)\<lparr>dg_saw_git_op := True\<rparr>\<rparr> else e) (del_get tb j)"
  by (simp add: del_get_def del_note_git_action_def map_of_values)

lemma del_keys [simp]:
  "map fst (dt_table (del_put k d tb)) = map fst (dt_table tb)"
  "map fst (dt_table (del_drop k tb)) = filter (\<lambda>j. j \<noteq> k) (map fst (dt_table tb))"
  "map fst (dt_table (snd (del_note_git_action a op tb))) = map fst (dt_table tb)"
  by (auto simp: del_put_def del_drop_def del_note_git_action_def filter_map comp_def case_prod_beta')

lemma del_next [simp]:
  "dt_next_id (del_put k d tb) = dt_next_id tb" "dt_next_id (del_drop k tb) = dt_next_id tb"
  "dt_next_id (snd (del_note_git_action a op tb)) = dt_next_id tb"
  by (simp_all add: del_put_def del_drop_def del_note_git_action_def)

lemma del_finish_cases:
  assumes "del_finish k i ph notice tb = (v, tb')"
  obtains (keep) "v = None" "tb' = tb"
    | (gone) e where "del_get tb k = Some e" "de_id e = i" "tb' = del_drop k tb" "v = Some (view_of k (de_delegation e) ph notice)"
  using assms by (auto simp: del_finish_def split: option.splits if_splits)

lemma del_mark_running_cases:
  assumes "del_mark_running k i tb = (v, tb')"
  obtains (keep) "v = None" "tb' = tb"
    | (marked) e where "del_get tb k = Some e" "\<not> dg_queued (de_delegation e)"
        "tb' = del_put k ((de_delegation e)\<lparr>dg_saw_running := True\<rparr>) tb"
        "v = Some (view_of k ((de_delegation e)\<lparr>dg_saw_running := True\<rparr>) PhRunning None)"
  using assms by (auto simp: del_mark_running_def Let_def split: option.splits if_splits)

lemma del_take_dequeue_cases:
  assumes "del_take_dequeue k i now tb = (r, tb')"
  obtains (keep) "r = None" "tb' = tb"
    | (taken) e where "del_get tb k = Some e" "de_id e = i" "dg_queued (de_delegation e)"
        "tb' = del_put k ((de_delegation e)\<lparr>dg_queued := False, dg_started_at := now\<rparr>) tb"
        "r = Some (dg_prompt (de_delegation e),
           view_of k ((de_delegation e)\<lparr>dg_queued := False, dg_started_at := now\<rparr>) PhStarted None)"
  using assms by (auto simp: del_take_dequeue_def Let_def split: option.splits if_splits)

section \<open>The invariant\<close>

definition entry_ok :: "del_log list \<Rightarrow> key \<Rightarrow> del_entry \<Rightarrow> bool" where
  "entry_ok log k e \<longleftrightarrow>
     (let i = de_id e; d = de_delegation e
      in (i, k, dg_kind d) \<in> set (recorded log) \<and> i \<notin> set (ended log) \<and>
         (dg_queued d \<longrightarrow> i \<notin> set (taken_ids log) \<and> \<not> dg_saw_running d \<and> \<not> dg_saw_git_op d) \<and>
         (\<not> dg_queued d \<longrightarrow> (\<exists>p. LTaken k i p \<in> set log)) \<and>
         (dg_saw_git_op d \<longrightarrow> worked log k i (dg_kind d)))"

definition table_ok :: "del_table \<Rightarrow> del_log list \<Rightarrow> bool" where
  "table_ok tb log \<longleftrightarrow>
     sorted_wrt (<) (map fst (dt_table tb)) \<and> map fst (recorded log) = [1..<Suc (dt_next_id tb)] \<and>
     (\<forall>k e. del_get tb k = Some e \<longrightarrow> entry_ok log k e)"

definition log_ok :: "del_log list \<Rightarrow> bool" where
  "log_ok log \<longleftrightarrow>
     distinct (taken_ids log) \<and> distinct (ended log) \<and> set (taken_ids log) \<subseteq> fst ` set (recorded log) \<and>
     (\<forall>pre k i kind ph post. log = pre @ LEnded k i kind ph # post \<longrightarrow>
        (i, k, kind) \<in> set (recorded pre) \<and> i \<notin> set (taken_ids post) \<and>
        (ph = PhDone \<longrightarrow> settles_on_idle kind \<or> landed pre k i kind))"

definition snap_ok :: "del_log list \<Rightarrow> (key \<times> nat \<times> delegation) list \<Rightarrow> bool" where
  "snap_ok log snap \<longleftrightarrow>
     distinct (map fst snap) \<and>
     (\<forall>(k, i, d) \<in> set snap. (i, k, dg_kind d) \<in> set (recorded log) \<and> (dg_saw_git_op d \<longrightarrow> worked log k i (dg_kind d)))"

definition plan_ok :: "del_log list \<Rightarrow> (key \<times> nat \<times> delegation) list \<Rightarrow> del_effect list \<Rightarrow> bool" where
  "plan_ok log snap effs \<longleftrightarrow>
     (\<forall>k ph n. EfFinish k ph n \<in> set effs \<longrightarrow> (ph = PhDone \<or> ph = PhAbandoned) \<and>
        (ph = PhDone \<longrightarrow> (\<exists>i d. (k, i, d) \<in> set snap \<and> (settles_on_idle (dg_kind d) \<or> landed log k i (dg_kind d)))))"

fun pass_ok :: "del_log list \<Rightarrow> del_pass \<Rightarrow> bool" where
  "pass_ok log PassIdle = True"
| "pass_ok log (PassRead snap) = snap_ok log snap"
| "pass_ok log (PassApply snap now effs) = (snap_ok log snap \<and> plan_ok log snap effs)"

text \<open>A trigger that is on its way was taken up and not sent yet; what was sent was taken up before.\<close>

definition sends_ok :: "del_log list \<Rightarrow> del_send list \<Rightarrow> bool" where
  "sends_ok log xs \<longleftrightarrow>
     distinct (sent_ids log @ map sd_id xs) \<and> set (sent_ids log) \<subseteq> set (taken_ids log) \<and>
     (\<forall>x \<in> set xs. LTaken (sd_key x) (sd_id x) (sd_prompt x) \<in> set log) \<and>
     (\<forall>pre k i p post. log = pre @ LSent k i p # post \<longrightarrow> LTaken k i p \<in> set pre)"

definition del_inv :: "del_world \<Rightarrow> bool" where
  "del_inv w \<longleftrightarrow> table_ok (dw_table w) (dw_log w) \<and> log_ok (dw_log w) \<and> pass_ok (dw_log w) (dw_pass w) \<and>
     sends_ok (dw_log w) (dw_sends w)"

lemma pass_later: "pass_ok log p \<Longrightarrow> pass_ok (log @ later) p"
  by (cases p) (fastforce simp: snap_ok_def plan_ok_def intro: worked_later landed_later)+

lemma entry_later:
  assumes "entry_ok log k e" and "de_id e \<notin> set (ended later)"
    and "dg_queued (de_delegation e) \<Longrightarrow> de_id e \<notin> set (taken_ids later)"
  shows "entry_ok (log @ later) k e"
  using assms by (auto simp: entry_ok_def Let_def intro: worked_later)

text \<open>An id names one delegation.\<close>

lemma recorded_once:
  assumes "table_ok tb log" "(i, k, kind) \<in> set (recorded log)" "(i, k', kind') \<in> set (recorded log)"
  shows "k' = k \<and> kind' = kind"
proof -
  have "distinct (map fst (recorded log))" using assms(1) unfolding table_ok_def by (metis distinct_upt)
  from eq_key_imp_eq_value [OF this assms(2,3)] show ?thesis by simp
qed

lemma entries_apart:
  assumes "table_ok tb log" "del_get tb k = Some e" "del_get tb k' = Some e'" "de_id e = de_id e'"
  shows "k' = k"
proof -
  have "(de_id e, k, dg_kind (de_delegation e)) \<in> set (recorded log)"
    "(de_id e', k', dg_kind (de_delegation e')) \<in> set (recorded log)"
    using assms(1-3) unfolding table_ok_def entry_ok_def Let_def by blast+
  with recorded_once [OF assms(1)] assms(4) show ?thesis by metis
qed

lemma log_later:
  assumes "log_ok log" "distinct (taken_ids later)" "distinct (ended later)"
    "set (taken_ids later) \<inter> set (taken_ids log) = {}" "set (ended later) \<inter> set (ended log) = {}"
    "set (taken_ids later) \<inter> set (ended log) = {}"
    "set (taken_ids later) \<subseteq> fst ` set (recorded (log @ later))"
    "\<And>pre k i kind ph post. later = pre @ LEnded k i kind ph # post \<Longrightarrow>
       (i, k, kind) \<in> set (recorded (log @ pre)) \<and> i \<notin> set (taken_ids post) \<and>
       (ph = PhDone \<longrightarrow> settles_on_idle kind \<or> landed (log @ pre) k i kind)"
  shows "log_ok (log @ later)"
  unfolding log_ok_def
proof (intro conjI allI impI)
  show "distinct (taken_ids (log @ later))" "distinct (ended (log @ later))"
    using assms by (auto simp: log_ok_def)
  show "set (taken_ids (log @ later)) \<subseteq> fst ` set (recorded (log @ later))"
    using assms by (auto simp: log_ok_def)
  fix pre k i kind ph post
  assume split: "log @ later = pre @ LEnded k i kind ph # post"
  then obtain us where us: "log = pre @ us \<and> us @ later = LEnded k i kind ph # post \<or>
      pre = log @ us \<and> later = us @ LEnded k i kind ph # post" by (auto simp: append_eq_append_conv2)
  then consider post' where "log = pre @ LEnded k i kind ph # post'" "post = post' @ later"
    | pre' where "pre = log @ pre'" "later = pre' @ LEnded k i kind ph # post"
    by (cases us) auto
  then have "(i, k, kind) \<in> set (recorded pre) \<and> i \<notin> set (taken_ids post) \<and>
      (ph = PhDone \<longrightarrow> settles_on_idle kind \<or> landed pre k i kind)"
  proof cases
    case 1
    then have "(i, k, kind) \<in> set (recorded pre) \<and> i \<notin> set (taken_ids post') \<and>
        (ph = PhDone \<longrightarrow> settles_on_idle kind \<or> landed pre k i kind)"
      using assms(1) unfolding log_ok_def by blast
    moreover have "i \<in> set (ended log)" using 1(1) by simp
    ultimately show ?thesis using assms(6) 1(2) by auto
  next
    case 2
    then show ?thesis using assms(8) by simp
  qed
  then show "(i, k, kind) \<in> set (recorded pre)" "i \<notin> set (taken_ids post)"
    "ph = PhDone \<Longrightarrow> settles_on_idle kind \<or> landed pre k i kind" by blast+
qed

lemma in_taken: "LTaken k i p \<in> set log \<Longrightarrow> i \<in> set (taken_ids log)"
  by (force simp: taken_ids_def List.map_filter_def)

lemma no_sent: "sent_ids later = [] \<Longrightarrow> LSent k i p \<notin> set later"
  by (force simp: sent_ids_def List.map_filter_def filter_empty_conv)

lemma sent_before:
  assumes "sends_ok log xs" "log @ later = pre @ LSent k i p # post" "LSent k i p \<notin> set later"
  shows "LTaken k i p \<in> set pre"
proof -
  from assms(2) obtain us where us: "log = pre @ us \<and> us @ later = LSent k i p # post \<or>
      pre = log @ us \<and> later = us @ LSent k i p # post" by (auto simp: append_eq_append_conv2)
  with assms(3) obtain post' where "log = pre @ LSent k i p # post'" by (cases us) auto
  with assms(1) show ?thesis unfolding sends_ok_def by blast
qed

lemma sends_quiet:
  assumes "sends_ok log xs" "sent_ids later = []"
  shows "sends_ok (log @ later) xs"
  using assms sent_before [OF assms(1) _ no_sent [OF assms(2)]] unfolding sends_ok_def by auto

lemma sends_taken:
  assumes "sends_ok log xs" "sent_ids later = []" "LTaken (sd_key x) (sd_id x) (sd_prompt x) \<in> set later"
    and "sd_id x \<notin> set (taken_ids log)"
  shows "sends_ok (log @ later) (xs @ [x])"
proof -
  have "sd_id x \<notin> sd_id ` set xs" using assms(1,4) in_taken unfolding sends_ok_def by fastforce
  moreover have "sd_id x \<notin> set (sent_ids log)" using assms(1,4) unfolding sends_ok_def by blast
  ultimately show ?thesis
    using sends_quiet [OF assms(1,2)] assms(2,3) unfolding sends_ok_def by auto
qed

lemma remove1_split:
  assumes "x \<in> set xs"
  obtains ys zs where "xs = ys @ x # zs" "remove1 x xs = ys @ zs"
  using split_list_first [OF assms] by (auto simp: remove1_append intro: that)

lemma sends_less:
  assumes "sends_ok log xs" "x \<in> set xs"
  shows "sends_ok log (remove1 x xs)"
proof (rule remove1_split [OF assms(2)])
  fix ys zs
  assume "xs = ys @ x # zs" "remove1 x xs = ys @ zs"
  with assms(1) show ?thesis unfolding sends_ok_def by auto
qed

lemma sends_sent:
  assumes "sends_ok log xs" "x \<in> set xs"
  shows "sends_ok (log @ [LSent (sd_key x) (sd_id x) (sd_prompt x)]) (remove1 x xs)"
proof (rule remove1_split [OF assms(2)])
  let ?e = "LSent (sd_key x) (sd_id x) (sd_prompt x)"
  fix ys zs
  assume split: "xs = ys @ x # zs" "remove1 x xs = ys @ zs"
  have taken: "LTaken (sd_key x) (sd_id x) (sd_prompt x) \<in> set log" using assms unfolding sends_ok_def by blast
  have "LTaken k i p \<in> set pre" if "log @ [?e] = pre @ LSent k i p # post" for pre k i p post
  proof (cases post rule: rev_cases)
    case Nil
    with that taken show ?thesis by simp
  next
    case (snoc post' z)
    with that have "log = pre @ LSent k i p # post'" by simp
    with assms(1) show ?thesis unfolding sends_ok_def by blast
  qed
  with assms(1) in_taken [OF taken] split taken show ?thesis unfolding sends_ok_def by auto
qed

section \<open>Every move keeps it\<close>

lemma view_fields [simp]:
  "dv_phase (view_of k d ph n) = ph" "dv_kind (view_of k d ph n) = dg_kind d"
  "(dv_agent_id (view_of k d ph n), dv_subdir (view_of k d ph n)) = k"
  by (simp_all add: view_of_def)

lemma table_entry: "table_ok tb log \<Longrightarrow> del_get tb k = Some e \<Longrightarrow> entry_ok log k e"
  unfolding table_ok_def by blast

lemma finish_step:
  assumes "table_ok tb log" "log_ok log" "del_finish k i ph notice tb = (v, tb')" "ph = PhDone \<or> ph = PhAbandoned"
    and fin: "\<And>e. ph = PhDone \<Longrightarrow> del_get tb k = Some e \<Longrightarrow> de_id e = i \<Longrightarrow>
      settles_on_idle (dg_kind (de_delegation e)) \<or> landed log k i (dg_kind (de_delegation e))"
  shows "table_ok tb' (log @ ended_log v i) \<and> log_ok (log @ ended_log v i)"
  using assms(3)
proof (cases rule: del_finish_cases)
  case keep
  with assms show ?thesis by (simp add: ended_log_def)
next
  case (gone e)
  let ?kind = "dg_kind (de_delegation e)"
  have later: "ended_log v i = [LEnded k i ?kind ph]" using gone assms(4) by (auto simp: ended_log_def)
  have e: "(i, k, ?kind) \<in> set (recorded log)" "i \<notin> set (ended log)"
    using table_entry [OF assms(1) gone(1)] gone(2) by (auto simp: entry_ok_def Let_def)
  have "entry_ok (log @ [LEnded k i ?kind ph]) j f" if "del_get (del_drop k tb) j = Some f" for j f
  proof -
    from that have f: "j \<noteq> k" "del_get tb j = Some f" by (auto simp: del_get_drop split: if_splits)
    then have "de_id f \<noteq> i" using entries_apart [OF assms(1) gone(1) f(2)] gone(2) by blast
    with table_entry [OF assms(1) f(2)] show ?thesis by (intro entry_later) auto
  qed
  then have "table_ok tb' (log @ [LEnded k i ?kind ph])"
    using assms(1) unfolding table_ok_def gone(3) by (simp add: sorted_wrt_filter del: upt_Suc split_paired_All)
  moreover have "log_ok (log @ [LEnded k i ?kind ph])"
    by (rule log_later [OF assms(2)]) (use e fin gone in \<open>auto simp: Cons_eq_append_conv\<close>)
  ultimately show ?thesis by (simp add: later)
qed

lemma put_step:
  assumes "table_ok tb log" "del_get tb k = Some e" "entry_ok (log @ later) k (e\<lparr>de_delegation := d\<rparr>)"
    and "recorded later = []" "ended later = []" "set (taken_ids later) \<subseteq> {de_id e}"
  shows "table_ok (del_put k d tb) (log @ later)"
proof -
  have "entry_ok (log @ later) j f" if "del_get (del_put k d tb) j = Some f" for j f
  proof (cases "j = k")
    case True
    with that assms(2,3) show ?thesis by (simp add: del_get_put)
  next
    case False
    with that have f: "del_get tb j = Some f" by (simp add: del_get_put)
    then have "de_id f \<noteq> de_id e" using entries_apart [OF assms(1,2) f] False by metis
    with table_entry [OF assms(1) f] assms(5,6) show ?thesis by (intro entry_later) auto
  qed
  then show ?thesis using assms(1,4) unfolding table_ok_def by (simp del: upt_Suc split_paired_All)
qed

lemma mark_step:
  assumes "table_ok tb log" "del_mark_running k i tb = (v, tb')"
  shows "table_ok tb' log \<and> ended_log v j = []"
  using assms(2)
proof (cases rule: del_mark_running_cases)
  case (marked e)
  have "table_ok (del_put k ((de_delegation e)\<lparr>dg_saw_running := True\<rparr>) tb) (log @ [])"
    by (rule put_step [OF assms(1) marked(1)])
      (use table_entry [OF assms(1) marked(1)] marked(2) in \<open>auto simp: entry_ok_def Let_def\<close>)
  with marked show ?thesis by (simp add: ended_log_def)
qed (use assms in \<open>simp add: ended_log_def\<close>)

lemma mark_keys_step: "table_ok tb log \<Longrightarrow> mark_keys ks tb = (vs, tb') \<Longrightarrow> table_ok tb' log"
proof (induction ks arbitrary: tb vs)
  case (Cons k ks)
  obtain v tb1 where one: "del_mark_running k None tb = (v, tb1)" by fastforce
  obtain ws where "mark_keys ks tb1 = (ws, tb')" using Cons.prems(2) one by (auto split: prod.splits)
  with Cons.IH mark_step [OF Cons.prems(1) one] show ?case by blast
qed simp

lemma note_step:
  assumes "table_ok tb log" "del_note_git_action agent op tb = (b, tb')"
  shows "table_ok tb' (log @ [LOp agent op])"
proof -
  have tb': "tb' = snd (del_note_git_action agent op tb)" using assms(2) by simp
  have "entry_ok (log @ [LOp agent op]) k f" if f: "del_get tb' k = Some f" for k f
  proof -
    from f obtain e where e: "del_get tb k = Some e"
      "f = (if proves agent op k (de_delegation e)
            then e\<lparr>de_delegation := (de_delegation e)\<lparr>dg_saw_git_op := True\<rparr>\<rparr> else e)"
      by (auto simp: tb' del_get_note)
    have ok: "entry_ok (log @ [LOp agent op]) k e"
      by (rule entry_later [OF table_entry [OF assms(1) e(1)]]) simp_all
    show ?thesis
    proof (cases "proves agent op k (de_delegation e)")
      case True
      then have p: "\<not> dg_queued (de_delegation e)" "action_proves_kind (dg_kind (de_delegation e)) op" "fst k = agent"
        by (auto simp: proves_def)
      with table_entry [OF assms(1) e(1)] obtain t where "LTaken k (de_id e) t \<in> set log"
        by (auto simp: entry_ok_def Let_def)
      from worked_now [OF this p(2)] p ok e(2) True show ?thesis by (auto simp: entry_ok_def Let_def)
    qed (use ok e(2) in simp)
  qed
  then show ?thesis
    using assms(1) unfolding table_ok_def tb' by (simp del: upt_Suc split_paired_All)
qed

lemma dequeue_step:
  assumes "table_ok tb log" "log_ok log" "del_take_dequeue k i now tb = (Some (p, v), tb')"
  shows "table_ok tb' (log @ [LTaken k i p]) \<and> log_ok (log @ [LTaken k i p]) \<and> ended_log (Some v) i = []"
  using assms(3)
proof (cases rule: del_take_dequeue_cases)
  case (taken e)
  note e = table_entry [OF assms(1) taken(1)]
  have "table_ok tb' (log @ [LTaken k i p])" unfolding taken(4)
    by (rule put_step [OF assms(1) taken(1)]) (use e taken in \<open>auto simp: entry_ok_def Let_def\<close>)
  moreover have "log_ok (log @ [LTaken k i p])"
    by (rule log_later [OF assms(2)])
      (use e taken in \<open>auto simp: entry_ok_def Let_def image_iff Cons_eq_append_conv intro: bexI [rotated]\<close>)
  ultimately show ?thesis using taken(5) by (simp add: ended_log_def)
qed simp

lemma recorded_bound:
  "table_ok tb log \<Longrightarrow> (i, k, kind) \<in> set (recorded log) \<Longrightarrow> 0 < i \<and> i \<le> dt_next_id tb"
  unfolding table_ok_def by (metis Suc_le_eq atLeastLessThan_iff fst_conv image_eqI list.set_map less_Suc_eq_le One_nat_def set_upt)

lemma ended_as_ended: "ended_as x = Some i \<Longrightarrow> \<exists>k kind ph. x = LEnded k i kind ph"
  by (cases x) simp_all

lemma ended_recorded:
  assumes "log_ok log" "i \<in> set (ended log)"
  shows "i \<in> fst ` set (recorded log)"
proof -
  from assms(2) obtain x where x: "x \<in> set log" "ended_as x = Some i"
    by (auto simp: ended_def List.map_filter_def)
  then obtain k kind ph where "x = LEnded k i kind ph" using ended_as_ended by blast
  with x obtain pre post where log: "log = pre @ LEnded k i kind ph # post" by (metis split_list)
  with assms(1) have "(i, k, kind) \<in> set (recorded pre)" unfolding log_ok_def by blast
  then have "i \<in> fst ` set (recorded pre)" by (metis fst_conv imageI)
  then show ?thesis by (simp add: log image_Un)
qed

lemma record_fresh:
  assumes "table_ok tb log" "log_ok log" "del_record k kind p q now tb = ((i, v), tb')"
  shows "i \<notin> fst ` set (recorded log)" "i \<notin> set (ended log)" "i \<notin> set (taken_ids log)"
proof -
  have "j \<noteq> i" if "(j, k', kind') \<in> set (recorded log)" for j k' kind'
    using recorded_bound [OF assms(1) that] del_get_record [OF assms(3)] by auto
  then show "i \<notin> fst ` set (recorded log)" by (metis imageE prod.collapse)
  then show "i \<notin> set (ended log)" "i \<notin> set (taken_ids log)"
    using ended_recorded [OF assms(2)] assms(2) by (auto simp: log_ok_def)
qed

lemma record_step:
  assumes "table_ok tb log" "log_ok log" "del_record k kind p q now tb = ((i, v), tb')"
  defines "later \<equiv> LRecorded k i kind # (if q then [] else [LTaken k i p])"
  shows "table_ok tb' (log @ later) \<and> log_ok (log @ later)"
proof -
  note new = del_get_record [OF assms(3)]
  note ids = record_fresh(1) [OF assms(1-3)] and gone = record_fresh(2,3) [OF assms(1-3)]
  have fresh: "j \<noteq> i" if "(j, k', kind') \<in> set (recorded log)" for j k' kind'
    using ids that by force
  have "entry_ok (log @ later) j f" if f: "del_get tb' j = Some f" for j f
  proof (cases "j = k")
    case True
    with f new gone show ?thesis by (auto simp: later_def entry_ok_def Let_def)
  next
    case False
    with f new have f: "del_get tb j = Some f" by simp
    note e = table_entry [OF assms(1) f]
    then have "(de_id f, j, dg_kind (de_delegation f)) \<in> set (recorded log)" by (simp add: entry_ok_def Let_def)
    from e fresh [OF this] show ?thesis by (intro entry_later) (auto simp: later_def)
  qed
  moreover have "sorted_wrt (<) (map fst (dt_table tb'))"
    using assms(1,3) by (auto simp: table_ok_def del_record_def Let_def sorted_btree_insert)
  moreover have "map fst (recorded (log @ later)) = [1..<Suc (dt_next_id tb')]"
    using assms(1) new by (simp add: table_ok_def later_def)
  ultimately have "table_ok tb' (log @ later)" unfolding table_ok_def by blast
  moreover have "log_ok (log @ later)"
    by (rule log_later [OF assms(2)]) (use gone in \<open>auto simp: later_def Cons_eq_append_conv split: if_splits\<close>)
  ultimately show ?thesis by simp
qed

lemma admit_records:
  assumes "admit_to H agent subdir act ps now tb = Inr (Some a, tb')"
  shows "del_record (ad_key a) (dv_kind (ad_shown a)) (ad_prompt a) (ad_queued a) now tb =
    ((ad_id a, ad_shown a), tb')"
  using assms
  by (auto simp: admit_to_def record_unless_reviewed_def Let_def del_record_def split: option.splits sum.splits if_splits)

lemma unseen [simp]: "\<not> resolved_by kind None"
  by (cases kind) (simp_all add: resolved_by_def delegation_resolved_def)

lemma plan_finish:
  "EfFinish k ph n \<in> set (plan_loop statuses seen now dequeued ds) \<Longrightarrow>
     \<exists>d. (k, d) \<in> set ds \<and>
       (ph = PhDone \<and> (settles_on_idle (dg_kind d) \<or> dg_saw_git_op d \<and> \<not> dg_queued d \<and> resolved_by (dg_kind d) (seen k)) \<or>
        ph = PhAbandoned)"
proof (induction statuses seen now dequeued ds rule: plan_loop.induct)
  case (2 statuses seen now dequeued j d ds)
  show ?case
  proof (cases "statuses (fst j)")
    case None
    with 2 show ?thesis by auto
  next
    case (Some status)
    show ?thesis
    proof (cases "delegation_step d status (resolved_by (dg_kind d) (seen j)) now")
      case StResolve
      then have "dg_saw_git_op d \<and> \<not> dg_queued d \<and> resolved_by (dg_kind d) (seen j)"
        by (simp add: delegation_step_def Let_def split: if_splits)
      with StResolve Some 2 show ?thesis by auto
    next
      case StDequeue
      with Some 2 show ?thesis by (auto split: if_splits)
    qed (use Some 2 in \<open>auto simp: give_up_effect_def split: if_splits\<close>)
  qed
qed simp

lemma snapshot_ok: "table_ok tb log \<Longrightarrow> snap_ok log (del_snapshot tb)"
  unfolding snap_ok_def
proof (intro conjI)
  assume ok: "table_ok tb log"
  then have keys: "distinct (map fst (dt_table tb))"
    unfolding table_ok_def using strict_sorted_iff by blast
  then show "distinct (map fst (del_snapshot tb))"
    by (simp add: del_snapshot_def comp_def case_prod_beta')
  show "\<forall>(k, i, d) \<in> set (del_snapshot tb).
      (i, k, dg_kind d) \<in> set (recorded log) \<and> (dg_saw_git_op d \<longrightarrow> worked log k i (dg_kind d))"
  proof clarify
    fix k i d
    assume "(k, i, d) \<in> set (del_snapshot tb)"
    then obtain e where "(k, e) \<in> set (dt_table tb)" "i = de_id e" "d = de_delegation e"
      by (auto simp: del_snapshot_def)
    with keys have "del_get tb k = Some e" by (simp add: del_get_def)
    from table_entry [OF ok this]
    show "(i, k, dg_kind d) \<in> set (recorded log) \<and> (dg_saw_git_op d \<longrightarrow> worked log k i (dg_kind d))"
      using \<open>i = de_id e\<close> \<open>d = de_delegation e\<close> by (simp add: entry_ok_def Let_def)
  qed
qed

lemma plan_step:
  assumes "snap_ok log snap"
  shows "plan_ok (log @ seen_log look snap) snap (pass_plan status look snap now)"
  unfolding plan_ok_def
proof (intro allI impI)
  fix k ph n
  assume "EfFinish k ph n \<in> set (pass_plan status look snap now)"
  from plan_finish [OF this [unfolded pass_plan_def plan_pass_def]]
  obtain i d where d: "(k, i, d) \<in> set snap"
    "ph = PhDone \<and> (settles_on_idle (dg_kind d) \<or>
       dg_saw_git_op d \<and> \<not> dg_queued d \<and> resolved_by (dg_kind d) (pass_observed look snap k)) \<or> ph = PhAbandoned"
    by auto
  have "settles_on_idle (dg_kind d) \<or> landed (log @ seen_log look snap) k i (dg_kind d)" if "ph = PhDone"
  proof (rule disjCI)
    assume idle: "\<not> landed (log @ seen_log look snap) k i (dg_kind d)"
    show "settles_on_idle (dg_kind d)"
    proof (rule ccontr)
      assume not_idle: "\<not> settles_on_idle (dg_kind d)"
      with d(2) that have r: "dg_saw_git_op d" "\<not> dg_queued d" "resolved_by (dg_kind d) (pass_observed look snap k)"
        by auto
      have at: "map_of snap k = Some (i, d)" using assms d(1) by (simp add: snap_ok_def)
      have looks: "looks_at d" using r not_idle by (simp add: looks_at_def)
      then have "LSeen k (look k (dg_kind d)) \<in> set (seen_log look snap)"
        using d(1) by (force simp: seen_log_def)
      moreover have "worked log k i (dg_kind d)" using assms d(1) r(1) unfolding snap_ok_def by blast
      moreover have "resolved_by (dg_kind d) (Some (look k (dg_kind d)))"
        using r(3) at looks by (simp add: pass_observed_def)
      ultimately show False using landed_now idle by blast
    qed
  qed
  with d show "(ph = PhDone \<or> ph = PhAbandoned) \<and>
      (ph = PhDone \<longrightarrow> (\<exists>i d. (k, i, d) \<in> set snap \<and>
        (settles_on_idle (dg_kind d) \<or> landed (log @ seen_log look snap) k i (dg_kind d))))" by blast
qed

lemma snapshot_id_eq: "snap_ok log snap \<Longrightarrow> (k, i, d) \<in> set snap \<Longrightarrow> snapshot_id snap k = i"
  by (simp add: snapshot_id_def snap_ok_def)

lemma effect_step:
  assumes "table_ok tb log" "log_ok log" "snap_ok log snap" "plan_ok log snap (eff # effs)"
    and "apply_del_effect (snapshot_id snap) now eff tb = ((v, sent), tb')"
  defines "later \<equiv> ended_log v (snapshot_id snap (effect_key eff)) @
    (case sent of Some (k, i, p) \<Rightarrow> [LTaken k i p] | None \<Rightarrow> [])"
  shows "table_ok tb' (log @ later) \<and> log_ok (log @ later)"
proof (cases eff)
  case (EfFinish k ph n)
  with assms(5) have fin: "del_finish k (snapshot_id snap k) ph (Some n) tb = (v, tb')" and sent: "sent = None"
    by (simp_all add: apply_del_effect_def split: prod.splits)
  from assms(4) EfFinish have ends: "ph = PhDone \<or> ph = PhAbandoned"
    and ev: "ph = PhDone \<Longrightarrow> \<exists>i d. (k, i, d) \<in> set snap \<and> (settles_on_idle (dg_kind d) \<or> landed log k i (dg_kind d))"
    unfolding plan_ok_def by (metis list.set_intros(1))+
  have "settles_on_idle (dg_kind (de_delegation e)) \<or> landed log k (snapshot_id snap k) (dg_kind (de_delegation e))"
    if ph: "ph = PhDone" and e: "del_get tb k = Some e" "de_id e = snapshot_id snap k" for e
  proof -
    obtain i d where d: "(k, i, d) \<in> set snap" "settles_on_idle (dg_kind d) \<or> landed log k i (dg_kind d)"
      using ev [OF ph] by blast
    have "(i, k, dg_kind d) \<in> set (recorded log)" using assms(3) d(1) unfolding snap_ok_def by blast
    moreover have "(i, k, dg_kind (de_delegation e)) \<in> set (recorded log)"
      using table_entry [OF assms(1) e(1)] e(2) snapshot_id_eq [OF assms(3) d(1)]
      by (simp add: entry_ok_def Let_def)
    ultimately have "dg_kind d = dg_kind (de_delegation e)" using recorded_once [OF assms(1)] by blast
    with d(2) show ?thesis using snapshot_id_eq [OF assms(3) d(1)] by simp
  qed
  then have "table_ok tb' (log @ ended_log v (snapshot_id snap k)) \<and> log_ok (log @ ended_log v (snapshot_id snap k))"
    by (intro finish_step [OF assms(1,2) fin ends]) blast
  then show ?thesis unfolding later_def EfFinish sent effect_key.simps by simp
next
  case (EfDropOrphan k)
  with assms(5) have fin: "del_finish k (snapshot_id snap k) PhAbandoned None tb = (v, tb')" and sent: "sent = None"
    by (simp_all add: apply_del_effect_def split: prod.splits)
  from finish_step [OF assms(1,2) fin] show ?thesis by (simp add: later_def EfDropOrphan sent)
next
  case (EfMarkRunning k)
  with assms(5) have "del_mark_running k (Some (snapshot_id snap k)) tb = (v, tb')" and sent: "sent = None"
    by (simp_all add: apply_del_effect_def split: prod.splits)
  from mark_step [OF assms(1) this(1)] assms(2) show ?thesis by (simp add: later_def sent)
next
  case (EfDequeue k)
  show ?thesis
  proof (cases "del_take_dequeue k (snapshot_id snap k) now tb")
    case (Pair r tb1)
    show ?thesis
    proof (cases r)
      case None
      with Pair have "tb1 = tb" by (auto elim: del_take_dequeue_cases)
      with None Pair EfDequeue assms show ?thesis by (simp add: apply_del_effect_def ended_log_def)
    next
      case (Some pv)
      obtain p u where "pv = (p, u)" by fastforce
      with Some Pair have took: "del_take_dequeue k (snapshot_id snap k) now tb = (Some (p, u), tb1)" by simp
      with EfDequeue assms(5) have "v = Some u" "sent = Some (k, snapshot_id snap k, p)" "tb' = tb1"
        by (simp_all add: apply_del_effect_def)
      with dequeue_step [OF assms(1,2) took] show ?thesis by (simp add: later_def EfDequeue)
    qed
  qed
qed

lemma effect_takes:
  assumes "table_ok tb log" "apply_del_effect f now eff tb = ((v, Some (k, i, p)), tb')"
  shows "i \<notin> set (taken_ids log)"
proof (cases eff)
  case (EfDequeue j)
  with assms(2) have "k = j" "i = f j" "\<exists>u. del_take_dequeue j (f j) now tb = (Some (p, u), tb')"
    by (auto simp: apply_del_effect_def split: option.splits prod.splits)
  then obtain u where "i = f k" "del_take_dequeue k i now tb = (Some (p, u), tb')" by auto
  from this(2) show ?thesis
  proof (cases rule: del_take_dequeue_cases)
    case (taken e)
    with table_entry [OF assms(1) taken(1)] show ?thesis by (auto simp: entry_ok_def Let_def)
  qed simp
qed (use assms(2) in \<open>simp_all add: apply_del_effect_def split: prod.splits\<close>)

lemma del_move_inv: "del_move w w' \<Longrightarrow> del_inv w \<Longrightarrow> del_inv w'"
proof (induction rule: del_move.induct)
  case (admit H agent subdir act ps now w a tb)
  let ?q = "ad_queued a" and ?x = "\<lparr>sd_pass = False, sd_key = ad_key a, sd_id = ad_id a, sd_prompt = ad_prompt a\<rparr>"
  let ?later = "LRecorded (ad_key a) (ad_id a) (dv_kind (ad_shown a)) # (if ?q then [] else [LTaken (ad_key a) (ad_id a) (ad_prompt a)])"
  from admit(2) have ok: "table_ok (dw_table w) (dw_log w)" "log_ok (dw_log w)" "sends_ok (dw_log w) (dw_sends w)" "pass_ok (dw_log w) (dw_pass w)"
    by (simp_all add: del_inv_def)
  note new = admit_records [OF admit(1)]
  have "sends_ok (dw_log w @ ?later) (dw_sends w @ (if ?q then [] else [?x]))"
  proof (cases ?q)
    case True
    with sends_quiet [OF ok(3), of ?later] show ?thesis by simp
  next
    case False
    with sends_taken [OF ok(3), of ?later ?x] record_fresh(3) [OF ok(1,2) new] show ?thesis by simp
  qed
  with record_step [OF ok(1,2) new] pass_later [OF ok(4)] show ?case by (simp add: del_inv_def)
next
  case (delivered x w)
  let ?e = "LSent (sd_key x) (sd_id x) (sd_prompt x)"
  from delivered(2) have ok: "table_ok (dw_table w) (dw_log w)" "log_ok (dw_log w)" "sends_ok (dw_log w) (dw_sends w)" "pass_ok (dw_log w) (dw_pass w)"
    by (simp_all add: del_inv_def)
  have "table_ok (dw_table w) (dw_log w @ [?e])"
    using ok(1) entry_later [where later = "[?e]"] unfolding table_ok_def by simp
  moreover have "log_ok (dw_log w @ [?e])"
    by (rule log_later [OF ok(2)]) (auto simp: Cons_eq_append_conv)
  ultimately show ?case using sends_sent [OF ok(3) delivered(1)] pass_later [OF ok(4)] by (simp add: del_inv_def)
next
  case (undelivered x w v tb)
  from undelivered(3) have ok: "table_ok (dw_table w) (dw_log w)" "log_ok (dw_log w)" "sends_ok (dw_log w) (dw_sends w)" "pass_ok (dw_log w) (dw_pass w)"
    by (simp_all add: del_inv_def)
  have "sends_ok (dw_log w @ ended_log v (sd_id x)) (remove1 x (dw_sends w))"
    by (rule sends_quiet [OF sends_less [OF ok(3) undelivered(1)]]) (simp add: ended_log_def split: option.split)
  with finish_step [OF ok(1,2) undelivered(2)] pass_later [OF ok(4)] show ?case by (simp add: del_inv_def)
next
  case (operation agent op w b tb)
  have "log_ok (dw_log w @ [LOp agent op])"
    by (rule log_later) (use operation in \<open>auto simp: del_inv_def Cons_eq_append_conv\<close>)
  moreover have "sends_ok (dw_log w @ [LOp agent op]) (dw_sends w)"
    by (rule sends_quiet) (use operation(2) in \<open>simp_all add: del_inv_def\<close>)
  ultimately show ?case using note_step [OF _ operation(1)] operation(2) by (simp add: del_inv_def pass_later)
next
  case (turn agent w vs tb)
  with mark_keys_step show ?case unfolding del_inv_def mark_agent_running_def by fastforce
next
  case (snapshot w)
  then show ?case by (simp add: del_inv_def snapshot_ok)
next
  case (plan w snap look now status)
  then have ok: "table_ok (dw_table w) (dw_log w)" "log_ok (dw_log w)" "snap_ok (dw_log w) snap" "sends_ok (dw_log w) (dw_sends w)"
    by (simp_all add: del_inv_def)
  have quiet: "recorded (seen_log look snap) = []" "taken_ids (seen_log look snap) = []" "ended (seen_log look snap) = []"
    "sent_ids (seen_log look snap) = []"
    unfolding seen_log_def by (induction snap) auto
  then have "table_ok (dw_table w) (dw_log w @ seen_log look snap)"
    using ok(1) unfolding table_ok_def by (metis append_Nil2 entry_later empty_iff empty_set log_append(1))
  moreover have "log_ok (dw_log w @ seen_log look snap)"
    by (rule log_later [OF ok(2)]) (use quiet in \<open>auto simp: seen_log_def append_eq_map_conv\<close>)
  moreover have "pass_ok (dw_log w @ seen_log look snap) (PassRead snap)"
    by (rule pass_later) (simp add: ok(3))
  ultimately show ?case using plan_step [OF ok(3)] sends_quiet [OF ok(4) quiet(4)] by (simp add: del_inv_def)
next
  case (effect w snap now eff effs v sent tb)
  then have "table_ok tb (dw_log w @ ended_log v (snapshot_id snap (effect_key eff)) @
        (case sent of Some (k, i, p) \<Rightarrow> [LTaken k i p] | None \<Rightarrow> [])) \<and>
      log_ok (dw_log w @ ended_log v (snapshot_id snap (effect_key eff)) @
        (case sent of Some (k, i, p) \<Rightarrow> [LTaken k i p] | None \<Rightarrow> []))"
    by (intro effect_step [where effs = effs, OF _ _ _ _ effect(3)]) (use effect in \<open>simp_all add: del_inv_def\<close>)
  moreover have "pass_ok (dw_log w) (PassApply snap now effs)"
    using effect by (auto simp: del_inv_def plan_ok_def)
  from pass_later [OF this] have "pass_ok (dw_log w @ later) (PassApply snap now effs)" for later .
  moreover have "sends_ok (dw_log w @ ended_log v (snapshot_id snap (effect_key eff)) @
        (case sent of Some (k, i, p) \<Rightarrow> [LTaken k i p] | None \<Rightarrow> []))
      (dw_sends w @ (case sent of Some (k, i, p) \<Rightarrow> [\<lparr>sd_pass = True, sd_key = k, sd_id = i, sd_prompt = p\<rparr>] | None \<Rightarrow> []))"
  proof -
    have ok: "table_ok (dw_table w) (dw_log w)" "sends_ok (dw_log w) (dw_sends w)" using effect(4) by (simp_all add: del_inv_def)
    have none: "sent_ids (ended_log v j) = []" for j by (simp add: ended_log_def split: option.split)
    show ?thesis
    proof (cases sent)
      case None
      with sends_quiet [OF ok(2) none] show ?thesis by simp
    next
      case (Some x)
      obtain k i p where x: "x = (k, i, p)" by (metis prod_cases3)
      have "i \<notin> set (taken_ids (dw_log w))" using effect_takes [OF ok(1)] effect(3) Some x by simp
      with sends_taken [OF ok(2), of "ended_log v (snapshot_id snap (effect_key eff)) @ [LTaken k i p]"
          "\<lparr>sd_pass = True, sd_key = k, sd_id = i, sd_prompt = p\<rparr>"] none Some x
      show ?thesis by simp
    qed
  qed
  ultimately show ?case by (simp add: del_inv_def del: pass_ok.simps)
next
  case (rest w snap now)
  then show ?case by (simp add: del_inv_def)
qed

lemma reach_inv: "del_reach w \<Longrightarrow> del_inv w"
  unfolding del_reach_def
proof (induction rule: rtranclp_induct)
  case base
  show ?case
    by (simp add: del_inv_def del_start_def del_table_default_def table_ok_def log_ok_def del_get_def sends_ok_def)
qed (rule del_move_inv)

section \<open>What a log tells\<close>

text \<open>
  Claim C11. A delegation reported done is one whose end was earned: its kind cannot be observed and its agent
  came to rest, or, after its trigger was taken up for delivery (from which its agent's operations count)
  and before the end, an operation of its playbook ran in that agent and a look at that checkout found
  the target met. That the agent had the trigger by then is not said: the delivery may still be on its way.
\<close>

theorem done_needs_evidence:
  assumes "del_reach w" "dw_log w = pre @ LEnded k i kind PhDone # post"
  shows "settles_on_idle kind \<or>
    (\<exists>p op seen. subseq [LTaken k i p, LOp (fst k) op, LSeen k seen] pre \<and>
       action_proves_kind kind op \<and> resolved_by kind (Some seen))"
  using reach_inv [OF assms(1)] assms(2) unfolding del_inv_def log_ok_def landed_def by blast

text \<open>
  Claim C14. Each delegation is recorded under an id of its own; its trigger is taken up for delivery at most
  once and never after it ended, and sent at most once, as it was taken up and not before; it ends at
  most once, and one that ended is not in the table.
\<close>

theorem delegation_once:
  assumes "del_reach w"
  shows "distinct (map fst (recorded (dw_log w))) \<and> distinct (taken_ids (dw_log w)) \<and> distinct (ended (dw_log w)) \<and>
    distinct (sent_ids (dw_log w)) \<and>
    (\<nexists>pre k i p post. dw_log w = pre @ LSent k i p # post \<and> LTaken k i p \<notin> set pre) \<and>
    (\<nexists>pre k i kind ph post. dw_log w = pre @ LEnded k i kind ph # post \<and> i \<in> set (taken_ids post)) \<and>
    (\<nexists>k e. del_get (dw_table w) k = Some e \<and> de_id e \<in> set (ended (dw_log w)))"
proof (intro conjI notI)
  note inv = reach_inv [OF assms, unfolded del_inv_def]
  show "distinct (map fst (recorded (dw_log w)))"
    using inv unfolding table_ok_def by (metis distinct_upt)
  show "distinct (taken_ids (dw_log w))" "distinct (ended (dw_log w))" using inv by (simp_all add: log_ok_def)
  show "distinct (sent_ids (dw_log w))" using inv by (simp add: sends_ok_def)
  assume "\<exists>pre k i p post. dw_log w = pre @ LSent k i p # post \<and> LTaken k i p \<notin> set pre"
  then show False using inv unfolding sends_ok_def by blast
next
  note inv = reach_inv [OF assms, unfolded del_inv_def]
  assume "\<exists>pre k i kind ph post. dw_log w = pre @ LEnded k i kind ph # post \<and> i \<in> set (taken_ids post)"
  then show False using inv unfolding log_ok_def by blast
next
  assume "\<exists>k e. del_get (dw_table w) k = Some e \<and> de_id e \<in> set (ended (dw_log w))"
  then show False using reach_inv [OF assms] table_entry unfolding del_inv_def entry_ok_def Let_def by blast
qed

end
