(* ===== verification/Del_Pass.thy ===== *)
theory Del_Pass
  imports Del_Run
begin

text \<open>
  A pass of the driver with nothing in between (\<open>run_pass\<close> of \<open>supervisor/delegation.rs\<close>), entry by
  entry, and what a run of passes does to the delegations of an agent that has come to rest.
\<close>

section \<open>The plan, entry by entry\<close>

lemma step_dequeue: "delegation_step d status r now = StDequeue \<longleftrightarrow> dg_queued d \<and> \<not> is_active status"
  by (auto simp: delegation_step_def Let_def)

text \<open>What a step does to the entry; \<open>first\<close> says that the delegation is its agent's first queued one.\<close>

definition step_effect :: "agent_status option \<Rightarrow> observed option \<Rightarrow> int \<Rightarrow> bool \<Rightarrow> key \<Rightarrow> delegation \<Rightarrow> del_effect option" where
  "step_effect status seen now first k d =
     (case status of
        None \<Rightarrow> Some (EfDropOrphan k)
      | Some status \<Rightarrow>
          (case delegation_step d status (resolved_by (dg_kind d) seen) now of
             StResolve \<Rightarrow> Some (EfFinish k PhDone (delegation_done (dg_kind d)))
           | StGiveUp \<Rightarrow> Some (give_up_effect k (dg_kind d))
           | StMarkRunning \<Rightarrow> Some (EfMarkRunning k)
           | StDequeue \<Rightarrow> if first then Some (EfDequeue k) else None
           | StWait \<Rightarrow> None))"

lemma step_effect_key: "step_effect status seen now first k d = Some eff \<Longrightarrow> effect_key eff = k"
  by (auto simp: step_effect_def give_up_effect_def split: option.splits del_step.splits if_splits)

definition first_queued :: "(key \<times> delegation) list \<Rightarrow> string \<Rightarrow> key option" where
  "first_queued ds agent = map_option fst (find (\<lambda>(k, d). fst k = agent \<and> dg_queued d) ds)"

lemma plan_cons:
  "plan_loop statuses seen now dequeued ((j, d) # ds) =
     (case step_effect (statuses (fst j)) (seen j) now (fst j \<notin> set dequeued) j d of
        Some eff \<Rightarrow> [eff] | None \<Rightarrow> []) @
     plan_loop statuses seen now
       (if fst j \<notin> set dequeued \<and> dg_queued d \<and> (\<exists>status. statuses (fst j) = Some status \<and> \<not> is_active status)
        then dequeued @ [fst j] else dequeued) ds"
  by (cases "statuses (fst j)")
    (auto simp: step_effect_def step_dequeue delegation_step_def Let_def split: del_step.splits)

lemma plan_keys: "eff \<in> set (plan_loop statuses seen now dequeued ds) \<Longrightarrow> effect_key eff \<in> fst ` set ds"
proof (induction ds arbitrary: dequeued)
  case (Cons jd ds)
  obtain j d where jd: "jd = (j, d)" by fastforce
  from Cons.prems consider "step_effect (statuses (fst j)) (seen j) now (fst j \<notin> set dequeued) j d = Some eff"
    | dq where "eff \<in> set (plan_loop statuses seen now dq ds)"
    unfolding jd plan_cons by (auto split: option.splits simp del: split_paired_All)
  then show ?case
  proof cases
    case 1
    then show ?thesis by (simp add: jd step_effect_key)
  next
    case 2
    then show ?thesis using Cons.IH by simp
  qed
qed simp

fun delivers :: "del_effect \<Rightarrow> string option" where
  "delivers (EfDequeue k) = Some (fst k)"
| "delivers _ = None"

lemma step_delivers:
  "step_effect status seen now first k d = Some eff \<Longrightarrow>
     delivers eff = (if first \<and> dg_queued d \<and> (\<exists>s. status = Some s \<and> \<not> is_active s) then Some (fst k) else None)"
  by (auto simp: step_effect_def step_dequeue give_up_effect_def delegation_step_def Let_def
      split: option.splits del_step.splits if_splits)

lemma step_silent:
  "step_effect status seen now first k d = None \<Longrightarrow> \<not> (first \<and> dg_queued d \<and> (\<exists>s. status = Some s \<and> \<not> is_active s))"
  by (auto simp: step_effect_def delegation_step_def Let_def split: option.splits del_step.splits if_splits)

lemma plan_delivers:
  "distinct (map fst ds) \<Longrightarrow>
     (let effs = plan_loop statuses seen now dequeued ds
      in distinct (map effect_key effs) \<and> distinct (List.map_filter delivers effs) \<and>
         set (List.map_filter delivers effs) \<inter> set dequeued = {})"
proof (induction ds arbitrary: dequeued)
  case (Cons jd ds)
  obtain j d where jd: "jd = (j, d)" by fastforce
  define first where "first \<longleftrightarrow> fst j \<notin> set dequeued"
  define takes where "takes \<longleftrightarrow> first \<and> dg_queued d \<and> (\<exists>s. statuses (fst j) = Some s \<and> \<not> is_active s)"
  let ?rest = "plan_loop statuses seen now (if takes then dequeued @ [fst j] else dequeued) ds"
  have IH: "distinct (map effect_key ?rest)" "distinct (List.map_filter delivers ?rest)"
    "set (List.map_filter delivers ?rest) \<inter> set (if takes then dequeued @ [fst j] else dequeued) = {}"
    using Cons by (simp_all add: Let_def)
  have new: "j \<notin> effect_key ` set ?rest" using plan_keys Cons.prems jd by fastforce
  have plan: "plan_loop statuses seen now dequeued (jd # ds) =
      (case step_effect (statuses (fst j)) (seen j) now first j d of Some eff \<Rightarrow> [eff] | None \<Rightarrow> []) @ ?rest"
    unfolding jd plan_cons takes_def first_def by simp
  show ?case
  proof (cases "step_effect (statuses (fst j)) (seen j) now first j d")
    case None
    with IH plan step_silent [OF None] show ?thesis by (simp add: takes_def [symmetric] Let_def)
  next
    case (Some eff)
    then have eff: "effect_key eff = j" "delivers eff = (if takes then Some (fst j) else None)"
      using step_effect_key step_delivers by (simp_all add: takes_def)
    have "takes \<Longrightarrow> fst j \<notin> set dequeued" by (simp add: takes_def first_def)
    with Some IH new plan eff show ?thesis
      by (cases takes) (auto simp: Let_def List.map_filter_simps simp del: split_paired_All)
  qed
qed (simp add: List.map_filter_simps)

lemma find_key: "k \<notin> fst ` set ds \<Longrightarrow> find (\<lambda>e. effect_key e = k) (plan_loop statuses seen now dequeued ds) = None"
  using plan_keys [of _ statuses seen now dequeued ds] by (auto simp: find_None_iff simp del: split_paired_All)

lemma plan_find:
  assumes "distinct (map fst ds)" "(k, d) \<in> set ds"
  shows "find (\<lambda>e. effect_key e = k) (plan_loop statuses seen now dequeued ds) =
    step_effect (statuses (fst k)) (seen k) now (fst k \<notin> set dequeued \<and> first_queued ds (fst k) = Some k) k d"
  using assms
proof (induction ds arbitrary: dequeued)
  case (Cons jd ds)
  obtain j d0 where jd: "jd = (j, d0)" by fastforce
  show ?case
  proof (cases "j = k")
    case True
    with Cons.prems jd have d: "d0 = d" "k \<notin> fst ` set ds" by (auto simp: image_iff)
    have "first_queued ((k, d) # ds) (fst k) = Some k" if "dg_queued d" using that by (simp add: first_queued_def)
    then have "step_effect (statuses (fst k)) (seen k) now (fst k \<notin> set dequeued) k d =
        step_effect (statuses (fst k)) (seen k) now (fst k \<notin> set dequeued \<and> first_queued ((k, d) # ds) (fst k) = Some k) k d"
      by (auto simp: step_effect_def step_dequeue split: option.splits del_step.splits)
    with True d show ?thesis
      by (auto simp: jd plan_cons find_key simp del: plan_loop.simps split: option.splits dest: step_effect_key)
  next
    case False
    with Cons.prems jd have k: "(k, d) \<in> set ds" by simp
    define dq where "dq = (if fst j \<notin> set dequeued \<and> dg_queued d0 \<and>
      (\<exists>status. statuses (fst j) = Some status \<and> \<not> is_active status) then dequeued @ [fst j] else dequeued)"
    have "find (\<lambda>e. effect_key e = k) (plan_loop statuses seen now dequeued ((j, d0) # ds)) =
        find (\<lambda>e. effect_key e = k) (plan_loop statuses seen now dq ds)"
      using False step_effect_key [of "statuses (fst j)" "seen j" now "fst j \<notin> set dequeued" j d0]
      by (simp add: plan_cons dq_def del: plan_loop.simps split: option.splits)
    also have "\<dots> = step_effect (statuses (fst k)) (seen k) now (fst k \<notin> set dq \<and> first_queued ds (fst k) = Some k) k d"
      using Cons k by simp
    also have "\<dots> = step_effect (statuses (fst k)) (seen k) now
        (fst k \<notin> set dequeued \<and> first_queued ((j, d0) # ds) (fst k) = Some k) k d"
      using False
      by (auto simp: step_effect_def step_dequeue dq_def first_queued_def split: option.splits del_step.splits if_splits)
    finally show ?thesis by (simp add: jd)
  qed
qed simp

section \<open>A pass, entry by entry\<close>

fun effect_entry :: "int \<Rightarrow> del_effect \<Rightarrow> del_entry \<Rightarrow> del_entry option" where
  "effect_entry now (EfFinish k ph n) e = None"
| "effect_entry now (EfDropOrphan k) e = None"
| "effect_entry now (EfMarkRunning k) e =
     Some (if dg_queued (de_delegation e) then e
           else e\<lparr>de_delegation := (de_delegation e)\<lparr>dg_saw_running := True\<rparr>\<rparr>)"
| "effect_entry now (EfDequeue k) e =
     Some (if dg_queued (de_delegation e)
           then e\<lparr>de_delegation := (de_delegation e)\<lparr>dg_queued := False, dg_started_at := now\<rparr>\<rparr> else e)"

lemma apply_at:
  assumes "del_get tb (effect_key eff) = Some e" "ids (effect_key eff) = de_id e"
  shows "del_get (snd (apply_del_effect ids now eff tb)) j =
    (if j = effect_key eff then effect_entry now eff e else del_get tb j)"
  using assms
  by (cases eff)
    (auto simp: apply_del_effect_def del_finish_def del_mark_running_def del_take_dequeue_def Let_def
      del_get_put del_get_drop simp del: split_paired_All)

lemma sorted_apply:
  "sorted_wrt (<) (map fst (dt_table tb)) \<Longrightarrow> sorted_wrt (<) (map fst (dt_table (snd (apply_del_effect ids now eff tb))))"
  by (cases eff)
    (auto simp: apply_del_effect_def del_finish_def del_mark_running_def del_take_dequeue_def Let_def
      sorted_wrt_filter split: option.splits)

lemma apply_all:
  assumes "distinct (map effect_key effs)"
    and "\<And>eff. eff \<in> set effs \<Longrightarrow> \<exists>e. del_get tb (effect_key eff) = Some e \<and> ids (effect_key eff) = de_id e"
  shows "del_get (foldl (\<lambda>tb eff. snd (apply_del_effect ids now eff tb)) tb effs) j =
    (case find (\<lambda>eff. effect_key eff = j) effs of
       None \<Rightarrow> del_get tb j
     | Some eff \<Rightarrow> Option.bind (del_get tb j) (effect_entry now eff))"
  using assms
proof (induction effs arbitrary: tb)
  case (Cons eff effs)
  obtain e where e: "del_get tb (effect_key eff) = Some e" "ids (effect_key eff) = de_id e"
    using Cons.prems(2) by fastforce
  note at = apply_at [where now = now and ids = ids, OF e]
  have "\<exists>f. del_get (snd (apply_del_effect ids now eff tb)) (effect_key x) = Some f \<and> ids (effect_key x) = de_id f"
    if "x \<in> set effs" for x
  proof -
    have "effect_key x \<noteq> effect_key eff" using that Cons.prems(1) by (metis distinct.simps(2) image_eqI list.set_map list.simps(9))
    then show ?thesis using Cons.prems(2) that by (simp add: at)
  qed
  from Cons.IH [OF _ this] Cons.prems(1)
  have IH: "del_get (foldl (\<lambda>tb eff. snd (apply_del_effect ids now eff tb)) (snd (apply_del_effect ids now eff tb)) effs) j =
      (case find (\<lambda>eff. effect_key eff = j) effs of
         None \<Rightarrow> del_get (snd (apply_del_effect ids now eff tb)) j
       | Some x \<Rightarrow> Option.bind (del_get (snd (apply_del_effect ids now eff tb)) j) (effect_entry now x))" by simp
  show ?case
  proof (cases "j = effect_key eff")
    case True
    with Cons.prems(1) have "find (\<lambda>eff. effect_key eff = j) effs = None"
      by (simp add: find_None_iff) (metis image_eqI)
    with IH at e True show ?thesis by simp
  next
    case False
    with IH at show ?thesis by (auto split: option.splits)
  qed
qed simp

text \<open>What a pass makes of one delegation, with everything in view.\<close>

definition decide ::
  "agent_status option \<Rightarrow> observed \<Rightarrow> int \<Rightarrow> bool \<Rightarrow> delegation \<Rightarrow> delegation option" where
  "decide status seen now first d =
     (case status of
        None \<Rightarrow> None
      | Some status \<Rightarrow>
          if dg_queued d then
            Some (if first \<and> \<not> is_active status then d\<lparr>dg_queued := False, dg_started_at := now\<rparr> else d)
          else if dg_saw_git_op d \<and> resolved_by (dg_kind d) (Some seen) then None
          else if status = AsRunning then Some (d\<lparr>dg_saw_running := True\<rparr>)
          else if \<not> is_active status \<and> (dg_saw_running d \<or> now - dg_started_at d > give_up_grace_ms) then None
          else Some d)"

definition queue_of :: "del_table \<Rightarrow> (key \<times> delegation) list" where
  "queue_of tb = map (\<lambda>(k, e). (k, de_delegation e)) (dt_table tb)"

lemma idle_unresolved: "settles_on_idle kind \<Longrightarrow> \<not> resolved_by kind seen"
  by (auto simp: resolved_by_def delegation_resolved_def settles_on_idle_def)

lemma step_decides:
  assumes "de_delegation e = d"
  shows "(case step_effect status (if looks_at d then Some seen else None) now first k d of
       None \<Rightarrow> Some e | Some eff \<Rightarrow> effect_entry now eff e) =
    map_option (\<lambda>d. e\<lparr>de_delegation := d\<rparr>) (decide status seen now first d)"
  using assms idle_unresolved [of "dg_kind d" "Some seen"]
  by (cases status) (auto simp: step_effect_def decide_def delegation_step_def looks_at_def is_active_def Let_def give_up_effect_def)

lemma snapshot_facts:
  "map (\<lambda>(k, i, d). (k, d)) (del_snapshot tb) = queue_of tb"
  "map_of (del_snapshot tb) k = map_option (\<lambda>e. (de_id e, de_delegation e)) (del_get tb k)"
  "(fst \<circ> fst) ` set (del_snapshot tb) = fst ` fst ` set (queue_of tb)"
  "map_of (queue_of tb) k = map_option de_delegation (del_get tb k)"
  "map fst (queue_of tb) = map fst (dt_table tb)"
  using map_of_map [of "\<lambda>e. (de_id e, de_delegation e)" "dt_table tb"] map_of_map [of de_delegation "dt_table tb"]
  by (simp_all add: del_snapshot_def queue_of_def del_get_def case_prod_beta' image_image comp_def)

lemma pass_entry:
  assumes "sorted_wrt (<) (map fst (dt_table tb))"
  shows "del_get (run_del_pass status look now tb) k =
    Option.bind (del_get tb k) (\<lambda>e. map_option (\<lambda>d. e\<lparr>de_delegation := d\<rparr>)
      (decide (status (fst k)) (look k (dg_kind (de_delegation e))) now
        (first_queued (queue_of tb) (fst k) = Some k) (de_delegation e)))"
proof -
  let ?snap = "del_snapshot tb"
  let ?plan = "pass_plan status look ?snap now"
  have keys: "distinct (map fst (queue_of tb))"
    using assms by (simp add: snapshot_facts strict_sorted_iff)
  have plan: "?plan = plan_loop (pass_statuses status ?snap) (pass_observed look ?snap) now [] (queue_of tb)"
    by (simp add: pass_plan_def plan_pass_def snapshot_facts)
  have apart: "distinct (map effect_key ?plan)"
    using plan_delivers [OF keys] by (simp add: plan Let_def)
  have "\<exists>e. del_get tb (effect_key eff) = Some e \<and> snapshot_id ?snap (effect_key eff) = de_id e" if "eff \<in> set ?plan" for eff
  proof -
    have "effect_key eff \<in> fst ` set (queue_of tb)" using that plan_keys by (simp add: plan)
    then have "map_of (queue_of tb) (effect_key eff) \<noteq> None" by (simp add: map_of_eq_None_iff)
    then show ?thesis by (auto simp: snapshot_facts snapshot_id_def)
  qed
  from apply_all [OF apart this]
  have get: "del_get (run_del_pass status look now tb) k =
      (case find (\<lambda>eff. effect_key eff = k) ?plan of
         None \<Rightarrow> del_get tb k | Some eff \<Rightarrow> Option.bind (del_get tb k) (effect_entry now eff))"
    by (simp add: run_del_pass_def Let_def)
  show ?thesis
  proof (cases "del_get tb k")
    case None
    with get show ?thesis by (simp split: option.splits)
  next
    case (Some e)
    let ?d = "de_delegation e"
    have kd: "(k, ?d) \<in> set (queue_of tb)"
      using Some by (intro map_of_SomeD) (simp add: snapshot_facts)
    then have "fst k \<in> (fst \<circ> fst) ` set ?snap" by (metis fst_conv imageI snapshot_facts(3))
    then have st: "pass_statuses status ?snap (fst k) = status (fst k)" by (simp add: pass_statuses_def)
    have seen: "pass_observed look ?snap k = (if looks_at ?d then Some (look k (dg_kind ?d)) else None)"
      using Some by (simp add: pass_observed_def snapshot_facts)
    have "find (\<lambda>eff. effect_key eff = k) ?plan =
        step_effect (status (fst k)) (if looks_at ?d then Some (look k (dg_kind ?d)) else None) now
          (first_queued (queue_of tb) (fst k) = Some k) k ?d"
      unfolding plan plan_find [OF keys kd] st seen by simp
    then have "del_get (run_del_pass status look now tb) k =
        (case step_effect (status (fst k)) (if looks_at ?d then Some (look k (dg_kind ?d)) else None) now
            (first_queued (queue_of tb) (fst k) = Some k) k ?d of
           None \<Rightarrow> Some e | Some eff \<Rightarrow> effect_entry now eff e)"
      unfolding get Some Option.bind.simps(2) by (rule arg_cong)
    also have "\<dots> = map_option (\<lambda>d. e\<lparr>de_delegation := d\<rparr>)
        (decide (status (fst k)) (look k (dg_kind ?d)) now (first_queued (queue_of tb) (fst k) = Some k) ?d)"
      by (rule step_decides [OF refl])
    finally show ?thesis unfolding Some Option.bind.simps(2) .
  qed
qed

lemma pass_sorted:
  "sorted_wrt (<) (map fst (dt_table tb)) \<Longrightarrow> sorted_wrt (<) (map fst (dt_table (run_del_pass status look now tb)))"
proof -
  have "sorted_wrt (<) (map fst (dt_table (foldl (\<lambda>tb eff. snd (apply_del_effect ids now eff tb)) tb effs)))"
    if "sorted_wrt (<) (map fst (dt_table tb))" for ids effs tb
    using that by (induction effs arbitrary: tb) (simp_all add: sorted_apply)
  then show "sorted_wrt (<) (map fst (dt_table tb)) \<Longrightarrow> ?thesis" by (simp add: run_del_pass_def Let_def)
qed

text \<open>
  Claim C31. The pass decides every delegation on its own evidence: reading only the checkouts whose answer
  can matter, planning over the snapshot and applying the effects one by one gives each entry what
  the decision with everything in view gives it, with one delivery for an agent at rest, to the
  first of its queued delegations.
\<close>

theorem pass_decides:
  assumes "sorted_wrt (<) (map fst (dt_table tb))"
  shows "del_get (run_del_pass status look now tb) k =
    Option.bind (del_get tb k) (\<lambda>e. map_option (\<lambda>d. e\<lparr>de_delegation := d\<rparr>)
      (decide (status (fst k)) (look k (dg_kind (de_delegation e))) now
        (first_queued (queue_of tb) (fst k) = Some k) (de_delegation e)))"
  by (rule pass_entry [OF assms])

section \<open>Agents at rest\<close>

type_synonym pass_view = "(string \<Rightarrow> agent_status option) \<times> (key \<Rightarrow> delegation_kind \<Rightarrow> observed) \<times> int"

definition run_del_passes :: "pass_view list \<Rightarrow> del_table \<Rightarrow> del_table" where
  "run_del_passes ps tb = foldl (\<lambda>tb (status, look, now). run_del_pass status look now tb) tb ps"

definition at_rest :: "agent_status option \<Rightarrow> bool" where
  "at_rest status \<longleftrightarrow> status \<notin> {Some AsRunning, Some AsSpawning}"

definition del_waiting :: "del_table \<Rightarrow> string \<Rightarrow> key set" where
  "del_waiting tb agent = {k. \<exists>e. del_get tb k = Some e \<and> fst k = agent \<and> dg_queued (de_delegation e)}"

text \<open>Every delivered delegation of the agent has had its turn, or is older than the grace.\<close>

definition due :: "del_table \<Rightarrow> string \<Rightarrow> int \<Rightarrow> bool" where
  "due tb agent now \<longleftrightarrow>
     (\<forall>k e. del_get tb k = Some e \<longrightarrow> fst k = agent \<longrightarrow> \<not> dg_queued (de_delegation e) \<longrightarrow>
        dg_saw_running (de_delegation e) \<or> now - dg_started_at (de_delegation e) > give_up_grace_ms)"

lemma finite_waiting: "finite (del_waiting tb agent)"
  by (rule finite_subset [OF _ finite_dom_map_of [of "dt_table tb"]])
    (auto simp: del_waiting_def del_get_def simp del: split_paired_All split_paired_Ex)

lemma first_waits:
  assumes "sorted_wrt (<) (map fst (dt_table tb))"
  shows "case first_queued (queue_of tb) agent of
      None \<Rightarrow> del_waiting tb agent = {} | Some k \<Rightarrow> k \<in> del_waiting tb agent"
proof -
  have keys: "distinct (map fst (queue_of tb))" using assms by (simp add: snapshot_facts strict_sorted_iff)
  have entries: "(k, d) \<in> set (queue_of tb) \<longleftrightarrow> (\<exists>e. del_get tb k = Some e \<and> d = de_delegation e)" for k d
    using map_of_eq_Some_iff [OF keys, of k d] by (auto simp: snapshot_facts)
  show ?thesis
  proof (cases "find (\<lambda>(k, d). fst k = agent \<and> dg_queued d) (queue_of tb)")
    case None
    then have "\<And>k d. (k, d) \<in> set (queue_of tb) \<Longrightarrow> \<not> (fst k = agent \<and> dg_queued d)"
      unfolding find_None_iff by blast
    then have "del_waiting tb agent = {}" unfolding entries del_waiting_def by blast
    with None show ?thesis by (simp add: first_queued_def)
  next
    case (Some kd)
    obtain k d where kd: "kd = (k, d)" by fastforce
    from Some kd have "(k, d) \<in> set (queue_of tb) \<and> fst k = agent \<and> dg_queued d"
      by (auto simp: find_Some_iff in_set_conv_nth simp del: split_paired_All split_paired_Ex)
    then have "k \<in> del_waiting tb agent" unfolding entries del_waiting_def by blast
    with Some kd show ?thesis by (simp add: first_queued_def)
  qed
qed

text \<open>One pass over an agent at rest: its due delegations end, and the first that waits is delivered.\<close>

lemma rest_pass:
  assumes "sorted_wrt (<) (map fst (dt_table tb))" "at_rest (status agent)" "due tb agent now"
    and "del_get (run_del_pass status look now tb) k = Some f" "fst k = agent"
  shows "k \<in> del_waiting tb agent \<and>
    (if dg_queued (de_delegation f) then first_queued (queue_of tb) agent \<noteq> Some k
     else dg_started_at (de_delegation f) = now)"
proof -
  from assms(4) pass_entry [OF assms(1)] obtain e d where e: "del_get tb k = Some e"
    "decide (status (fst k)) (look k (dg_kind (de_delegation e))) now
        (first_queued (queue_of tb) (fst k) = Some k) (de_delegation e) = Some d" "f = e\<lparr>de_delegation := d\<rparr>"
    by (auto simp: bind_eq_Some_conv)
  have "dg_queued (de_delegation e)"
  proof (rule ccontr)
    assume n: "\<not> dg_queued (de_delegation e)"
    with assms(3,5) e(1) have "dg_saw_running (de_delegation e) \<or> now - dg_started_at (de_delegation e) > give_up_grace_ms"
      unfolding due_def by blast
    with n assms(2,5) e(2) show False
      by (auto simp: decide_def at_rest_def is_active_def split: option.splits if_splits)
  qed
  moreover from this have "k \<in> del_waiting tb agent" using e(1) assms(5) unfolding del_waiting_def by blast
  ultimately show ?thesis using e assms(2,5)
    by (auto simp: decide_def at_rest_def is_active_def split: option.splits if_splits)
qed

lemma pass_waiting:
  assumes "sorted_wrt (<) (map fst (dt_table tb))" "at_rest (status agent)" "due tb agent now"
    and "tb' = run_del_pass status look now tb"
  shows "del_waiting tb' agent = {} \<and> (\<forall>k e. fst k = agent \<longrightarrow> del_get tb' k = Some e \<longrightarrow> del_waiting tb agent \<noteq> {}) \<or>
    card (del_waiting tb' agent) < card (del_waiting tb agent)"
proof -
  have step: "k \<in> del_waiting tb agent \<and>
      (if dg_queued (de_delegation f) then first_queued (queue_of tb) agent \<noteq> Some k
       else dg_started_at (de_delegation f) = now)" if "del_get tb' k = Some f" "fst k = agent" for k f
    using rest_pass [where status = status and agent = agent, OF assms(1-3)] that unfolding assms(4) by blast
  show ?thesis
  proof (cases "first_queued (queue_of tb) agent")
    case None
    with first_waits [OF assms(1), of agent] have "del_waiting tb agent = {}" by simp
    with step show ?thesis unfolding del_waiting_def by blast
  next
    case (Some k)
    with first_waits [OF assms(1), of agent] have k: "k \<in> del_waiting tb agent" by simp
    have "del_waiting tb' agent \<subseteq> del_waiting tb agent - {k}"
    proof
      fix j
      assume "j \<in> del_waiting tb' agent"
      then obtain f where "del_get tb' j = Some f" "fst j = agent" "dg_queued (de_delegation f)"
        unfolding del_waiting_def by blast
      with step [of j f] Some show "j \<in> del_waiting tb agent - {k}" by auto
    qed
    then have "card (del_waiting tb' agent) \<le> card (del_waiting tb agent - {k})"
      by (intro card_mono) (simp_all add: finite_waiting)
    also have "\<dots> < card (del_waiting tb agent)" by (rule card_Diff1_less [OF finite_waiting k])
    finally show ?thesis by blast
  qed
qed

lemma none_stay:
  assumes "sorted_wrt (<) (map fst (dt_table tb))" "del_get tb k = None"
  shows "del_get (run_del_passes ps tb) k = None"
  using assms
proof (induction ps arbitrary: tb)
  case (Cons p ps)
  obtain status look now where p: "p = (status, look, now)" by (metis prod_cases3)
  show ?case
    using Cons.IH [of "run_del_pass status look now tb"] Cons.prems
    by (simp add: run_del_passes_def p pass_sorted pass_entry)
qed (simp add: run_del_passes_def)

text \<open>
  Claim C16. An agent that stays at rest is drained: where at the first pass each of its delivered
  delegations has been seen running or is past the grace (\<open>due\<close>), passes further apart than the grace, one more
  of them than it has queued delegations, leave none of its delegations in the table.
\<close>

theorem rest_drains:
  assumes "sorted_wrt (<) (map fst (dt_table tb))"
    and "\<forall>(status, look, now) \<in> set ps. at_rest (status agent)"
    and "sorted_wrt (\<lambda>(_, _, t) (_, _, u). u - t > give_up_grace_ms) ps"
    and "case ps of (_, _, now) # _ \<Rightarrow> due tb agent now | [] \<Rightarrow> True"
    and "card (del_waiting tb agent) < length ps" "fst k = agent"
  shows "del_get (run_del_passes ps tb) k = None"
  using assms
proof (induction ps arbitrary: tb)
  case (Cons p ps)
  obtain status look now where p: "p = (status, look, now)" by (metis prod_cases3)
  let ?tb = "run_del_pass status look now tb"
  have rest: "at_rest (status agent)" and d: "due tb agent now" using Cons.prems by (simp_all add: p)
  have s: "sorted_wrt (<) (map fst (dt_table ?tb))" by (rule pass_sorted) (rule Cons.prems(1))
  have runs: "run_del_passes (p # ps) tb = run_del_passes ps ?tb" by (simp add: run_del_passes_def p)
  show ?case
  proof (cases "del_waiting tb agent = {}")
    case True
    then have "del_get ?tb k = None"
      using rest_pass [where status = status and agent = agent, OF Cons.prems(1) rest d] Cons.prems(6) by (metis empty_iff not_None_eq)
    then show ?thesis unfolding runs by (rule none_stay [OF s])
  next
    case False
    have "card (del_waiting ?tb agent) < card (del_waiting tb agent)"
      using pass_waiting [where status = status and agent = agent and look = look, OF Cons.prems(1) rest d refl] False
      by (auto simp: card_gt_0_iff finite_waiting)
    then have "card (del_waiting ?tb agent) < length ps" using Cons.prems(5) by simp
    moreover have "case ps of (_, _, now) # _ \<Rightarrow> due ?tb agent now | [] \<Rightarrow> True"
    proof (cases ps)
      case (Cons q qs)
      obtain status' look' u where q: "q = (status', look', u)" by (metis prod_cases3)
      have "u - now > give_up_grace_ms" using Cons.prems(3) by (simp add: p Cons q)
      then have "due ?tb agent u"
        using rest_pass [where status = status and agent = agent, OF Cons.prems(1) rest d] unfolding due_def by fastforce
      then show ?thesis by (simp add: Cons q)
    qed simp
    ultimately show ?thesis unfolding runs
      using Cons.prems by (intro Cons.IH [OF s]) auto
  qed
qed simp

end
