(* ===== verification/Examples_Del.thy ===== *)
theory Examples_Del
  imports Del_Pass
begin

text \<open>
  A commit handed to an agent at rest, from its admission to its reported end, and the properties
  of delegations applied to it.
\<close>

definition ex_key :: key where "ex_key = (''a'', None)"

definition ex_delegation :: "bool \<Rightarrow> delegation" where
  "ex_delegation op =
     \<lparr>dg_kind = Commit, dg_prompt = ''[app-action] commit'', dg_started_at = 0, dg_saw_running = False,
      dg_saw_git_op = op, dg_queued = False\<rparr>"

definition ex_held :: "bool \<Rightarrow> del_table" where
  "ex_held op = \<lparr>dt_table = [(ex_key, \<lparr>de_id = 1, de_delegation = ex_delegation op\<rparr>)], dt_next_id = 1\<rparr>"

definition ex_clean :: observed where
  "ex_clean = \<lparr>ob_git = Some done_git, ob_pr = None, ob_checks = None\<rparr>"

definition ex_before :: "del_log list" where
  "ex_before = [LRecorded ex_key 1 Commit, LTaken ex_key 1 ''[app-action] commit'', LSent ex_key 1 ''[app-action] commit'',
     LOp ''a'' ''git_commit'', LSeen ex_key ex_clean]"

definition ex_world :: "del_table \<Rightarrow> del_pass \<Rightarrow> del_send list \<Rightarrow> del_log list \<Rightarrow> del_world" where
  "ex_world tb p xs log = \<lparr>dw_table = tb, dw_pass = p, dw_sends = xs, dw_log = log\<rparr>"

lemma ex_world [simp]:
  "dw_table (ex_world tb p xs log) = tb" "dw_pass (ex_world tb p xs log) = p"
  "dw_sends (ex_world tb p xs log) = xs" "dw_log (ex_world tb p xs log) = log"
  "(ex_world tb p xs log)\<lparr>dw_table := tb'\<rparr> = ex_world tb' p xs log"
  "(ex_world tb p xs log)\<lparr>dw_pass := p'\<rparr> = ex_world tb p' xs log"
  "(ex_world tb p xs log)\<lparr>dw_sends := xs'\<rparr> = ex_world tb p xs' log"
  "(ex_world tb p xs log)\<lparr>dw_log := log'\<rparr> = ex_world tb p xs log'"
  by (simp_all add: ex_world_def)

definition ex_send :: del_send where
  "ex_send = \<lparr>sd_pass = False, sd_key = ex_key, sd_id = 1, sd_prompt = ''[app-action] commit''\<rparr>"

definition ex_gone :: del_table where
  "ex_gone = \<lparr>dt_table = [], dt_next_id = 1\<rparr>"

definition ex_ended :: del_world where
  "ex_ended = ex_world ex_gone (PassApply [(ex_key, 1, ex_delegation True)] 1 []) [] (ex_before @ [LEnded ex_key 1 Commit PhDone])"

definition ex_host :: "unicode \<Rightarrow> del_host" where
  "ex_host U = \<lparr>dh_agent = (\<lambda>_. Some (False, [''r''])), dh_status = (\<lambda>_. Some AsIdle), dh_pr_branch = (\<lambda>_ _. None),
     dh_reviewing = (\<lambda>_. False), dh_unicode = U\<rparr>"

lemma ex_commit: "from_action ''commit'' = Some Commit"
  by (simp add: from_action_Some)

lemma ex_admitted:
  "admit_to (ex_host U) ''a'' None ''commit'' [] 0 (dw_table del_start) =
     Inr (Some \<lparr>ad_key = ex_key, ad_id = 1, ad_prompt = ''[app-action] commit'', ad_queued = False,
       ad_shown = view_of ex_key (ex_delegation False) PhStarted None\<rparr>, ex_held False)"
  by (simp add: admit_to_def ex_host_def ex_commit del_start_def checkout_subdir_def
      delegation_trigger_def trigger_params_def app_action_message_def app_action_prefix_def
      record_unless_reviewed_def del_record_def del_table_default_def Let_def live_phase_def ex_key_def
      ex_delegation_def ex_held_def)

lemma ex_kind: "dg_kind (ex_delegation op) = Commit"
  by (simp add: ex_delegation_def)

lemma ex_start: "del_start = ex_world del_table_default PassIdle [] []"
  by (simp add: del_start_def ex_world_def)

text \<open>The request, answered; its trigger is on its way.\<close>

lemma ex_requested: "del_reach (ex_world (ex_held False) PassIdle [ex_send] (take 2 ex_before))"
proof (rule del_first [THEN del_then])
  show "del_move del_start (ex_world (ex_held False) PassIdle [ex_send] (take 2 ex_before))"
    using del_move.admit [OF ex_admitted]
    by (simp add: ex_start ex_before_def view_of_def ex_delegation_def ex_send_def)
qed

lemma ex_move_sent: "del_move (ex_world tb p [ex_send] log) (ex_world tb p [] (log @ [LSent ex_key 1 ''[app-action] commit'']))"
  using del_move.delivered [of ex_send "ex_world tb p [ex_send] log"] by (simp add: ex_send_def)

lemma ex_move_op:
  "del_move (ex_world (ex_held False) p xs log) (ex_world (ex_held True) p xs (log @ [LOp ''a'' ''git_commit'']))"
  using del_move.operation [of "''a''" "''git_commit''" "ex_world (ex_held False) p xs log" True "ex_held True"]
  by (simp add: del_note_git_action_def ex_held_def ex_key_def proves_def ex_delegation_def)

lemma ex_move_read:
  "del_move (ex_world (ex_held op) PassIdle xs log) (ex_world (ex_held op) (PassRead [(ex_key, 1, ex_delegation op)]) xs log)"
  using del_move.snapshot [of "ex_world (ex_held op) PassIdle xs log"] by (simp add: del_snapshot_def ex_held_def)

lemma ex_move_plan:
  "del_move (ex_world tb (PassRead [(ex_key, 1, ex_delegation True)]) xs log)
     (ex_world tb (PassApply [(ex_key, 1, ex_delegation True)] 1 [EfFinish ex_key PhDone (delegation_done Commit)]) xs
       (log @ [LSeen ex_key ex_clean]))"
  using del_move.plan [of "ex_world tb (PassRead [(ex_key, 1, ex_delegation True)]) xs log" "[(ex_key, 1, ex_delegation True)]"
      "\<lambda>_ _. ex_clean" 1 "\<lambda>_. Some AsIdle"]
  by (simp add: pass_plan_def plan_pass_def pass_statuses_def pass_observed_def looks_at_def ex_delegation_def
      settles_on_idle_def delegation_step_def resolved_by_def delegation_resolved_def ex_clean_def done_git_def seen_log_def)

lemma ex_move_finish:
  assumes "ph = PhDone \<or> ph = PhAbandoned" "\<not> list_ex sd_pass xs"
  shows "del_move (ex_world (ex_held op) (PassApply [(ex_key, 1, d)] now [EfFinish ex_key ph n]) xs log)
    (ex_world ex_gone (PassApply [(ex_key, 1, d)] now []) xs (log @ [LEnded ex_key 1 Commit ph]))"
  using del_move.effect [where w = "ex_world (ex_held op) (PassApply [(ex_key, 1, d)] now [EfFinish ex_key ph n]) xs log"
      and v = "Some (view_of ex_key (ex_delegation op) ph (Some n))" and sent = None and tb = ex_gone] assms
  by (simp add: awaits_send_def list_ex_iff apply_del_effect_def del_finish_def snapshot_id_def del_get_def del_drop_def
      ex_held_def ex_gone_def ended_log_def view_of_def ex_key_def ex_delegation_def)

lemma ex_reached: "del_reach ex_ended"
proof -
  note sent = del_then [OF ex_requested ex_move_sent]
  from del_then [OF del_then [OF del_then [OF del_then [OF sent ex_move_op] ex_move_read] ex_move_plan] ex_move_finish]
  show ?thesis by (simp add: ex_ended_def ex_before_def)
qed

text \<open>
  A delivery that takes longer than the grace: the pass gives the delegation up, and its trigger is sent
  after its end, since nothing looks at the table again once the delivery was started.
\<close>

lemma ex_move_give_up:
  "del_move (ex_world tb (PassRead [(ex_key, 1, ex_delegation False)]) xs log)
     (ex_world tb (PassApply [(ex_key, 1, ex_delegation False)] 20000 [EfFinish ex_key PhAbandoned abandoned_notice]) xs log)"
  using del_move.plan [of "ex_world tb (PassRead [(ex_key, 1, ex_delegation False)]) xs log" "[(ex_key, 1, ex_delegation False)]"
      "\<lambda>_ _. ex_clean" 20000 "\<lambda>_. Some AsIdle"]
  by (simp add: pass_plan_def plan_pass_def pass_statuses_def pass_observed_def looks_at_def ex_delegation_def
      settles_on_idle_def delegation_step_def resolved_by_def give_up_grace_ms_def give_up_effect_def seen_log_def is_active_def)

lemma sent_after_end:
  "\<exists>w. del_reach w \<and> subseq [LEnded ex_key 1 Commit PhAbandoned, LSent ex_key 1 ''[app-action] commit''] (dw_log w)"
proof -
  from del_then [OF del_then [OF del_then [OF del_then [OF ex_requested ex_move_read] ex_move_give_up] ex_move_finish] ex_move_sent]
  show ?thesis by (intro exI conjI) (auto simp: ex_send_def ex_before_def)
qed

lemma done_needs_evidence_witness:
  "settles_on_idle Commit \<or>
    (\<exists>p op seen. subseq [LTaken ex_key 1 p, LOp (fst ex_key) op, LSeen ex_key seen] ex_before \<and>
       action_proves_kind Commit op \<and> resolved_by Commit (Some seen))"
  by (rule done_needs_evidence [OF ex_reached, of _ _ _ _ "[]"]) (simp add: ex_ended_def)

lemma delegation_once_witness: "distinct (ended (dw_log ex_ended)) \<and> distinct (taken_ids (dw_log ex_ended))"
  using delegation_once [OF ex_reached] by blast

definition ex_asked_del :: del_table where
  "ex_asked_del = \<lparr>dt_table = [(ex_key, \<lparr>de_id = 1, de_delegation = (ex_delegation False)\<lparr>dg_queued := True\<rparr>\<rparr>)], dt_next_id = 1\<rparr>"

definition ex_passes :: "pass_view list" where
  "ex_passes = [(\<lambda>_. Some AsIdle, \<lambda>_ _. ex_clean, 1), (\<lambda>_. Some AsIdle, \<lambda>_ _. ex_clean, 20000)]"

lemma pass_decides_witness:
  "del_get (run_del_pass (\<lambda>_. Some AsIdle) (\<lambda>_ _. ex_clean) 1 (ex_held True)) ex_key = None"
  by (subst pass_decides) (simp_all add: ex_held_def del_get_def decide_def ex_delegation_def resolved_by_def
      delegation_resolved_def ex_clean_def done_git_def)

lemma rest_drains_witness: "del_get (run_del_passes ex_passes ex_asked_del) ex_key = None"
proof (rule rest_drains [where agent = "''a''"])
  have "del_waiting ex_asked_del ''a'' \<subseteq> {ex_key}"
    unfolding del_waiting_def by (auto simp: ex_asked_del_def del_get_def split: if_splits)
  then have "card (del_waiting ex_asked_del ''a'') \<le> 1" by (metis card.empty card_mono card_insert_disjoint empty_iff finite.intros One_nat_def)
  then show "card (del_waiting ex_asked_del ''a'') < length ex_passes" by (simp add: ex_passes_def)
qed (auto simp: ex_passes_def ex_asked_del_def ex_key_def at_rest_def due_def del_get_def ex_delegation_def
    give_up_grace_ms_def split: if_splits)

end
