(* ===== verification/Review_Model.thy ===== *)
theory Review_Model
  imports Ap_World
begin

text \<open>
  The memory the local review keeps of a checkout (\<open>review/engine.rs\<close>, the part before its drivers):
  what a look saw of the code, whether it is the code a state names, the one failure on record, and
  the operations on a checkout's entry. Times are milliseconds; the clock is an argument. Messages
  are the source's.
\<close>

section \<open>Evidence\<close>

definition max_rounds_per_pr :: nat where "max_rounds_per_pr = 3"
definition wall_timeout_ms :: int where "wall_timeout_ms = 20 * 60 * 1000"
definition pr_opened_recently_ms :: int where "pr_opened_recently_ms = 15 * 60 * 1000"
definition active_window_ms :: int where "active_window_ms = 2 * 60 * 1000"

definition code_moved :: string where "code_moved = ''the code changed during the review''"

definition already_running :: string where
  "already_running = ''A review is already running on this checkout''"

datatype rv_phase = RvIdle | RvQueued | RvReviewing | RvFindings | RvClean | RvStale | RvFailed

datatype rv_trigger = TrManual | TrPrOpen | TrReReview

datatype content_digest = DgVerified string | DgUnverified string | DgSkipped

datatype sighting = NotScanned | Unreadable string | Read string content_digest

record code_read =
  rd_cheap :: string
  rd_digest :: content_digest

datatype content = CtVerified string | CtUnverified string

record code_state =
  cs_cheap :: string
  cs_content :: content

definition read_state :: "code_read \<Rightarrow> code_state option" where
  "read_state r =
     (case rd_digest r of
        DgVerified digest \<Rightarrow> Some \<lparr>cs_cheap = rd_cheap r, cs_content = CtVerified digest\<rparr>
      | DgUnverified reason \<Rightarrow> Some \<lparr>cs_cheap = rd_cheap r, cs_content = CtUnverified reason\<rparr>
      | DgSkipped \<Rightarrow> None)"

definition signature :: "code_state \<Rightarrow> string" where
  "signature c =
     (case cs_content c of
        CtVerified digest \<Rightarrow> cs_cheap c @ ''#'' @ digest
      | CtUnverified reason \<Rightarrow> cs_cheap c @ ''#unverified'')"

text \<open>\<open>rsplit_once('#')\<close>.\<close>

definition rsplit_hash :: "string \<Rightarrow> (string \<times> string) option" where
  "rsplit_hash s =
     (if CHR ''#'' \<in> set s
      then Some (rev (tl (dropWhile (\<lambda>c. c \<noteq> CHR ''#'') (rev s))), rev (takeWhile (\<lambda>c. c \<noteq> CHR ''#'') (rev s)))
      else None)"

definition from_signature :: "string \<Rightarrow> code_state" where
  "from_signature s =
     (let (cheap, digest) = (case rsplit_hash s of Some p \<Rightarrow> p | None \<Rightarrow> (s, []))
      in \<lparr>cs_cheap = cheap,
          cs_content = (if digest = ''unverified'' then CtUnverified ''recorded by an earlier build''
                        else CtVerified digest)\<rparr>)"

datatype code_identity = IdSame | IdDifferent | IdUnknown

definition identity :: "code_read \<Rightarrow> code_state \<Rightarrow> code_identity" where
  "identity r stored =
     (if rd_cheap r \<noteq> cs_cheap stored then IdDifferent
      else
        (case (rd_digest r, cs_content stored) of
           (DgVerified digest, CtVerified theirs) \<Rightarrow> if digest = theirs then IdSame else IdDifferent
         | (DgUnverified _, CtUnverified _) \<Rightarrow> IdSame
         | (DgVerified _, CtUnverified _) \<Rightarrow> IdDifferent
         | (DgUnverified _, CtVerified _) \<Rightarrow> IdDifferent
         | (DgSkipped, _) \<Rightarrow> IdUnknown))"

text \<open>A code state as a record of this or an earlier build spells it.\<close>

datatype stored_code = StoredState code_state | StoredSignature string

definition compat_reviewed :: "stored_code option \<Rightarrow> code_state option" where
  "compat_reviewed v =
     (case v of
        None \<Rightarrow> None
      | Some (StoredState c) \<Rightarrow> Some c
      | Some (StoredSignature s) \<Rightarrow> Some (from_signature s))"

definition compat_failure_code :: "stored_code option \<Rightarrow> code_state option" where
  "compat_failure_code v = (case v of Some (StoredState c) \<Rightarrow> Some c | _ \<Rightarrow> None)"

datatype auto_review = ArAllow | ArBlock | ArNeedsFullRead

section \<open>The entry of a checkout\<close>

datatype failure_origin = FoScan | FoStart | FoRound | FoQueued | FoRestart

record rv_failure =
  fl_reason :: string
  fl_origin :: failure_origin
  fl_code :: "code_state option"
  fl_at_ms :: int

record reviewer_view =
  rw_custom_agent_id :: string
  rw_name :: string
  rw_provider :: string
  rw_model :: "string option"
  rw_agent_id :: "string option"

record review_state =
  rs_agent_id :: string
  rs_subdir :: "string option"
  rs_phase :: rv_phase
  rs_trigger :: "rv_trigger option"
  rs_reviewer :: "reviewer_view option"
  rs_round :: nat
  rs_open :: nat
  rs_resolved :: nat
  rs_since_ms :: int
  rs_reviewed_signature :: "string option"
  rs_error :: "string option"

record flight =
  ft_reviewer_agent_id :: string
  ft_started_ms :: int
  ft_submitted :: bool
  ft_saw_running :: bool

record rv_pending =
  pd_trigger :: rv_trigger
  pd_custom_agent_id :: "string option"

record rv_tracked =
  tr_reviewer :: "reviewer_view option"
  tr_round :: nat
  tr_pr_number :: "nat option"
  tr_pr_rounds :: nat
  tr_reviewed :: "code_state option"
  tr_round_code :: "code_state option"
  tr_trigger :: "rv_trigger option"
  tr_failure :: "rv_failure option"
  tr_note :: "string option"
  tr_last_read :: "code_read option"
  tr_since_ms :: int
  tr_phase :: rv_phase
  tr_pending :: "rv_pending option"
  tr_flight :: "flight option"
  tr_starting :: bool
  tr_active_until_ms :: int
  tr_needs_rescan :: bool

definition tracked_default :: rv_tracked where
  "tracked_default =
     \<lparr>tr_reviewer = None, tr_round = 0, tr_pr_number = None, tr_pr_rounds = 0, tr_reviewed = None,
      tr_round_code = None, tr_trigger = None, tr_failure = None, tr_note = None, tr_last_read = None,
      tr_since_ms = 0, tr_phase = RvIdle, tr_pending = None, tr_flight = None, tr_starting = False,
      tr_active_until_ms = 0, tr_needs_rescan = False\<rparr>"

definition in_round :: "rv_tracked \<Rightarrow> bool" where
  "in_round t \<longleftrightarrow> tr_flight t \<noteq> None \<or> tr_starting t"

definition derive_stale :: "rv_tracked \<Rightarrow> code_state \<Rightarrow> bool" where
  "derive_stale t reviewed =
     (case tr_last_read t of
        Some r \<Rightarrow> identity r reviewed \<noteq> IdSame
      | None \<Rightarrow> tr_phase t = RvStale)"

definition derive :: "rv_tracked \<Rightarrow> nat \<Rightarrow> rv_phase" where
  "derive t opened =
     (if in_round t then RvReviewing
      else if tr_pending t \<noteq> None then RvQueued
      else
        (case map_option fl_origin (tr_failure t) of
           Some FoScan \<Rightarrow> RvStale
         | Some _ \<Rightarrow> RvFailed
         | None \<Rightarrow>
             (case tr_reviewed t of
                None \<Rightarrow> RvIdle
              | Some reviewed \<Rightarrow>
                  if derive_stale t reviewed then RvStale
                  else if opened > 0 then RvFindings
                  else RvClean)))"

definition record_failure ::
  "failure_origin \<Rightarrow> string \<Rightarrow> code_state option \<Rightarrow> int \<Rightarrow> rv_tracked \<Rightarrow> rv_tracked" where
  "record_failure origin reason code now t =
     (let t = (if origin \<noteq> FoScan then t\<lparr>tr_flight := None, tr_starting := False\<rparr> else t)
      in t\<lparr>tr_failure := Some \<lparr>fl_reason = reason, fl_origin = origin, fl_code = code, fl_at_ms = now\<rparr>\<rparr>)"

definition scan_cleared :: "code_read \<Rightarrow> rv_tracked \<Rightarrow> bool" where
  "scan_cleared r t =
     (case tr_failure t of
        None \<Rightarrow> False
      | Some f \<Rightarrow>
          fl_origin f = FoScan \<and>
          (case fl_code f of None \<Rightarrow> True | Some code \<Rightarrow> identity r code = IdDifferent))"

definition record_sighting :: "sighting \<Rightarrow> int \<Rightarrow> rv_tracked \<Rightarrow> rv_tracked" where
  "record_sighting s now t =
     (case s of
        NotScanned \<Rightarrow> t
      | Unreadable reason \<Rightarrow> t\<lparr>tr_needs_rescan := False\<rparr>
      | Read cheap digest \<Rightarrow>
          (let t = t\<lparr>tr_needs_rescan := False\<rparr>;
               r = \<lparr>rd_cheap = cheap, rd_digest = digest\<rparr>;
               t = (case digest of
                      DgUnverified reason \<Rightarrow>
                        record_failure FoScan (''couldn't verify the review is current: '' @ reason) (read_state r) now t
                    | _ \<Rightarrow> if scan_cleared r t then t\<lparr>tr_failure := None\<rparr> else t)
           in t\<lparr>tr_last_read := Some r\<rparr>))"

definition round_failed :: "string \<Rightarrow> int \<Rightarrow> rv_tracked \<Rightarrow> rv_tracked" where
  "round_failed reason now t = record_failure FoRound reason (tr_round_code t) now t"

definition automatic_review :: "rv_tracked \<Rightarrow> auto_review" where
  "automatic_review t =
     (case tr_last_read t of
        None \<Rightarrow> ArBlock
      | Some r \<Rightarrow>
          (let differs = (case tr_reviewed t of
                            Some reviewed \<Rightarrow> identity r reviewed \<noteq> IdSame
                          | None \<Rightarrow> tr_failure t \<noteq> None)
           in if \<not> differs then ArBlock
              else
                (case Option.bind (tr_failure t) fl_code of
                   None \<Rightarrow> ArAllow
                 | Some code \<Rightarrow>
                     (case identity r code of
                        IdSame \<Rightarrow> ArBlock
                      | IdDifferent \<Rightarrow> ArAllow
                      | IdUnknown \<Rightarrow> ArNeedsFullRead))))"

definition wants_scan :: "bool \<Rightarrow> int \<Rightarrow> rv_tracked \<Rightarrow> bool" where
  "wants_scan pr_open now t \<longleftrightarrow>
     \<not> in_round t \<and> (tr_needs_rescan t \<or> pr_open \<or> now < tr_active_until_ms t)"

text \<open>What the row keeps: the fields the source does not skip.\<close>

definition persisted :: "rv_tracked \<Rightarrow> rv_tracked" where
  "persisted t = t\<lparr>tr_flight := None, tr_starting := False, tr_active_until_ms := 0, tr_needs_rescan := False\<rparr>"

definition loaded :: "int \<Rightarrow> rv_tracked \<Rightarrow> rv_tracked" where
  "loaded now t =
     (let t = t\<lparr>tr_flight := None, tr_starting := False, tr_active_until_ms := 0, tr_needs_rescan := True\<rparr>
      in if tr_phase t = RvReviewing
         then record_failure FoRestart ''interrupted by restart'' (tr_round_code t) now t else t)"

definition rv_claim :: "rv_tracked \<Rightarrow> (string + unit) \<times> rv_tracked" where
  "rv_claim t =
     (if in_round t then (Inl ''a review is already running on this checkout'', t)
      else (Inr (), t\<lparr>tr_starting := True\<rparr>))"

definition rv_release :: "rv_tracked \<Rightarrow> rv_tracked" where
  "rv_release t = t\<lparr>tr_starting := False\<rparr>"

definition claim_pending :: "rv_tracked \<Rightarrow> rv_pending option \<times> rv_tracked" where
  "claim_pending t =
     (case tr_pending t of
        None \<Rightarrow> (None, t)
      | Some p \<Rightarrow>
          (case rv_claim t of
             (Inl _, t) \<Rightarrow> (None, t)
           | (Inr _, t) \<Rightarrow> (Some p, t\<lparr>tr_pending := None\<rparr>)))"

definition check_code_after_report :: "rv_tracked \<Rightarrow> rv_tracked" where
  "check_code_after_report t =
     (case (tr_last_read t, tr_reviewed t) of
        (Some r, Some reviewed) \<Rightarrow>
          (case rd_digest r of
             DgUnverified _ \<Rightarrow> t
           | _ \<Rightarrow> if identity r reviewed = IdDifferent then t\<lparr>tr_note := Some code_moved\<rparr> else t)
      | _ \<Rightarrow> t)"

definition rv_queue :: "rv_trigger \<Rightarrow> string option \<Rightarrow> rv_tracked \<Rightarrow> rv_tracked" where
  "rv_queue trigger custom t =
     (if tr_pending t = None
      then t\<lparr>tr_pending := Some \<lparr>pd_trigger = trigger, pd_custom_agent_id = custom\<rparr>, tr_note := None\<rparr>
      else t)"

definition rv_begin ::
  "reviewer_view \<Rightarrow> rv_trigger \<Rightarrow> code_state \<Rightarrow> nat option \<Rightarrow> int \<Rightarrow> rv_tracked \<Rightarrow> (string + unit) \<times> rv_tracked" where
  "rv_begin reviewer trigger code pr_number now t =
     (if tr_flight t \<noteq> None then (Inl ''a review is already running on this checkout'', t)
      else
        (let t = t\<lparr>tr_starting := False\<rparr>;
             t = (if tr_pr_number t \<noteq> pr_number then t\<lparr>tr_pr_number := pr_number, tr_pr_rounds := 0\<rparr> else t);
             t = (if trigger = TrReReview then t\<lparr>tr_pr_rounds := tr_pr_rounds t + 1\<rparr> else t)
         in (Inr (),
             t\<lparr>tr_round := tr_round t + 1, tr_failure := None, tr_note := None, tr_trigger := Some trigger,
               tr_round_code := Some code,
               tr_flight := Some \<lparr>ft_reviewer_agent_id = (case rw_agent_id reviewer of Some i \<Rightarrow> i | None \<Rightarrow> []),
                                  ft_started_ms = now, ft_submitted = False, ft_saw_running = False\<rparr>,
               tr_reviewer := Some reviewer\<rparr>)))"

definition submitted :: "rv_tracked \<Rightarrow> (string + unit) \<times> rv_tracked" where
  "submitted t =
     (case tr_flight t of
        None \<Rightarrow> (Inl ''no review is in flight for this reviewer'', t)
      | Some f \<Rightarrow>
          if ft_submitted f then (Inl ''already submitted this turn'', t)
          else (Inr (), t\<lparr>tr_flight := Some (f\<lparr>ft_submitted := True\<rparr>), tr_reviewed := tr_round_code t\<rparr>))"

definition turn_ended :: "int \<Rightarrow> rv_tracked \<Rightarrow> rv_tracked" where
  "turn_ended now t =
     (case tr_flight t of
        None \<Rightarrow> t
      | Some f \<Rightarrow>
          (let t = t\<lparr>tr_flight := None\<rparr>
           in if ft_submitted f then t
              else round_failed ''the reviewer ended its turn without submitting a review'' now t))"

definition reviewed_pr :: "nat \<Rightarrow> rv_tracked \<Rightarrow> bool" where
  "reviewed_pr n t \<longleftrightarrow> tr_round t > 0 \<and> tr_pr_number t = Some n"

definition rv_stop :: "rv_tracked \<Rightarrow> rv_tracked" where
  "rv_stop t = t\<lparr>tr_flight := None, tr_pending := None, tr_note := Some ''review stopped''\<rparr>"

definition auto_budget_left :: "nat \<Rightarrow> rv_tracked \<Rightarrow> bool" where
  "auto_budget_left n t \<longleftrightarrow> tr_pr_number t \<noteq> Some n \<or> tr_pr_rounds t < max_rounds_per_pr"

definition rv_error :: "rv_tracked \<Rightarrow> string option" where
  "rv_error t = (case tr_failure t of Some f \<Rightarrow> Some (fl_reason f) | None \<Rightarrow> tr_note t)"

end
