(* ===== verification/Review_Threads.thy ===== *)
theory Review_Threads
  imports Review_Model Del_Admit
begin

text \<open>
  The local reviewer's findings as review threads (\<open>review/model.rs\<close>, \<open>review/store.rs\<close>) and the set
  of threads every consumer reads, local ones in front of GitHub's (\<open>review/mod.rs\<close>). The table is
  the list of its rows in \<open>rowid\<close> order; new ids are an argument, and statements do not fail.
\<close>

record finding =
  fd_path :: "string option"
  fd_line :: "nat option"
  fd_severity :: "review_severity option"
  fd_title :: string
  fd_body :: string

datatype reply_author = RaAgent | RaUser

fun reply_author_as_str :: "reply_author \<Rightarrow> string" where
  "reply_author_as_str RaAgent = ''agent''"
| "reply_author_as_str RaUser = ''user''"

record reply =
  rp_author :: reply_author
  rp_body :: string
  rp_at :: int

record thread_row =
  th_id :: string
  th_agent_id :: string
  th_subdir :: "string option"
  th_round :: nat
  th_severity :: "review_severity option"
  th_path :: "string option"
  th_line :: "nat option"
  th_title :: string
  th_body :: string
  th_author :: string
  th_created_at :: int
  th_resolved_at :: "int option"
  th_resolved_by :: "reply_author option"
  th_replies :: "reply list"

definition resolved :: "thread_row \<Rightarrow> bool" where
  "resolved r \<longleftrightarrow> th_resolved_at r \<noteq> None"

definition we_replied_last :: "thread_row \<Rightarrow> bool" where
  "we_replied_last r \<longleftrightarrow>
     \<not> resolved r \<and> (case rev (th_replies r) of [] \<Rightarrow> False | x # _ \<Rightarrow> rp_author x = RaAgent)"

definition to_comment :: "thread_row \<Rightarrow> pr_comment" where
  "to_comment r =
     \<lparr>t_id = th_id r, t_source = ThreadLocal, t_severity = th_severity r, t_round = Some (th_round r),
      t_author = th_author r, t_is_bot = True,
      t_body = (if trim (th_body r) = [] then th_title r else th_title r @ nl @ nl @ th_body r),
      t_path = th_path r, t_line = th_line r, t_url = None, t_replies = length (th_replies r),
      t_we_replied_last = we_replied_last r\<rparr>"

definition local_id_prefix :: string where "local_id_prefix = ''local:''"

definition is_local :: "string \<Rightarrow> bool" where
  "is_local i \<longleftrightarrow> strip_prefix local_id_prefix i \<noteq> None"

definition finding_row :: "key \<Rightarrow> nat \<Rightarrow> string \<Rightarrow> int \<Rightarrow> string \<Rightarrow> finding \<Rightarrow> thread_row" where
  "finding_row k round author now uuid f =
     \<lparr>th_id = local_id_prefix @ uuid, th_agent_id = fst k, th_subdir = snd k, th_round = round,
      th_severity = fd_severity f, th_path = fd_path f, th_line = fd_line f, th_title = trim (fd_title f),
      th_body = trim (fd_body f), th_author = author, th_created_at = now, th_resolved_at = None,
      th_resolved_by = None, th_replies = []\<rparr>"

text \<open>One uuid for each finding.\<close>

definition insert_findings ::
  "key \<Rightarrow> nat \<Rightarrow> string \<Rightarrow> string list \<Rightarrow> int \<Rightarrow> finding list \<Rightarrow> thread_row list \<Rightarrow> string list \<times> thread_row list" where
  "insert_findings k round author uuids now findings rows =
     (let new = map (\<lambda>(u, f). finding_row k round author now u f) (zip uuids findings)
      in (map th_id new, rows @ new))"

definition thread_get :: "string \<Rightarrow> thread_row list \<Rightarrow> thread_row option" where
  "thread_get i rows = find (\<lambda>r. th_id r = i) rows"

definition on_checkout :: "key \<Rightarrow> thread_row \<Rightarrow> bool" where
  "on_checkout k r \<longleftrightarrow> th_agent_id r = fst k \<and> th_subdir r = snd k"

definition unresolved_rows :: "key \<Rightarrow> thread_row list \<Rightarrow> thread_row list" where
  "unresolved_rows k rows = sort_key th_created_at (filter (\<lambda>r. on_checkout k r \<and> \<not> resolved r) rows)"

definition unresolved_threads :: "key \<Rightarrow> thread_row list \<Rightarrow> pr_comment list" where
  "unresolved_threads k rows = map to_comment (unresolved_rows k rows)"

definition thread_reply :: "string \<Rightarrow> reply_author \<Rightarrow> string \<Rightarrow> int \<Rightarrow> thread_row list \<Rightarrow> bool \<times> thread_row list" where
  "thread_reply i author body now rows =
     (case thread_get i rows of
        None \<Rightarrow> (False, rows)
      | Some thread \<Rightarrow>
          (let replies = th_replies thread @ [\<lparr>rp_author = author, rp_body = trim body, rp_at = now\<rparr>]
           in (True, map (\<lambda>r. if th_id r = i then r\<lparr>th_replies := replies\<rparr> else r) rows)))"

definition thread_resolve :: "string \<Rightarrow> reply_author \<Rightarrow> int \<Rightarrow> thread_row list \<Rightarrow> bool \<times> thread_row list" where
  "thread_resolve i author now rows =
     (if thread_get i rows = None then (False, rows)
      else (True, map (\<lambda>r. if th_id r = i \<and> \<not> resolved r
                           then r\<lparr>th_resolved_at := Some now, th_resolved_by := Some author\<rparr> else r) rows))"

definition thread_counts :: "key \<Rightarrow> thread_row list \<Rightarrow> nat \<times> nat" where
  "thread_counts k rows =
     (length (filter (\<lambda>r. on_checkout k r \<and> \<not> resolved r) rows),
      length (filter (\<lambda>r. on_checkout k r \<and> resolved r) rows))"

definition threads_delete_for_agent :: "string \<Rightarrow> thread_row list \<Rightarrow> thread_row list" where
  "threads_delete_for_agent agent rows = filter (\<lambda>r. th_agent_id r \<noteq> agent) rows"

definition merge_local :: "key \<Rightarrow> thread_row list \<Rightarrow> pr_comment list \<Rightarrow> pr_comment list" where
  "merge_local k rows github = unresolved_threads k rows @ github"

text \<open>\<open>github\<close> is \<open>None\<close> without an open pull request, or when its threads could not be read.\<close>

definition threads_for :: "key \<Rightarrow> thread_row list \<Rightarrow> pr_comment list option \<Rightarrow> pr_comment list option" where
  "threads_for k rows github =
     (case (unresolved_threads k rows, github) of
        ([], None) \<Rightarrow> None
      | (local, github) \<Rightarrow> Some (local @ (case github of Some g \<Rightarrow> g | None \<Rightarrow> [])))"

definition dismiss_thread ::
  "key \<Rightarrow> string \<Rightarrow> string option \<Rightarrow> unicode \<Rightarrow> int \<Rightarrow> thread_row list \<Rightarrow> (del_error + unit) \<times> thread_row list" where
  "dismiss_thread k i reason U now rows =
     (case thread_get i rows of
        None \<Rightarrow> (Inl (DeOther (''no local review thread '' @ debug_fmt U i)), rows)
      | Some thread \<Rightarrow>
          if \<not> on_checkout k thread then (Inl (DeOther (''thread '' @ debug_fmt U i @ '' is not on this checkout'')), rows)
          else
            (let note = (case map_option trim reason of
                           Some s \<Rightarrow> if s = [] then ''dismissed'' else s | None \<Rightarrow> ''dismissed'');
                 (_, rows) = thread_reply i RaUser note now rows;
                 (_, rows) = thread_resolve i RaUser now rows
             in (Inr (), rows)))"

end
