(* ===== verification/Review_Engine.thy ===== *)
theory Review_Engine
  imports Review_Threads
begin

text \<open>
  The local review engine (\<open>review/engine.rs\<close>): the table of checkouts, a look at one, the claim of
  a checkout for a round, starting, beginning and delivering a round, the reviewer's report, and the
  steps of the driver. What git, the agents' statuses, the settings and the agents' rows answer is a
  record of functions; spawning the reviewer and sending its prompt are arguments. A look that
  awaits its read of the code is the read followed by the recording of what it saw.
\<close>

section \<open>The host\<close>

record rv_repo =
  rr_subdir :: string
  rr_pr_number :: "nat option"
  rr_pr_state :: "string option"

record rv_coder =
  co_archived :: bool
  co_purpose :: "string option"
  co_owner_run_id :: "string option"
  co_repos :: "rv_repo list"

record reviewer_spec =
  rp_custom_agent_id :: string
  rp_name :: string
  rp_base :: string
  rp_model :: "string option"
  rp_effort :: "string option"

record rv_host =
  rh_agent :: "string \<Rightarrow> rv_coder option"
  rh_status :: "string \<Rightarrow> agent_status option"
  rh_moving :: "string \<Rightarrow> bool"
  rh_delegated :: "key \<Rightarrow> bool"
  rh_git :: "key \<Rightarrow> string + git_state option"
  rh_digest :: "key \<Rightarrow> (string + string) option"
  rh_asleep :: "key \<Rightarrow> bool"
  rh_custom_agents :: "(string \<rightharpoonup> string) list"
  rh_setting_agent :: "string option"
  rh_setting_on_pr_open :: "string option"
  rh_unicode :: unicode

text \<open>
  The engine's tables: the checkouts, what each was last announced as and last saved as, and the
  database's rows. The custom agents are listed newest first.
\<close>

record rv_world =
  ew_inner :: "(key \<times> rv_tracked) list"
  ew_emitted :: "(key \<times> review_state) list"
  ew_saved :: "(key \<times> rv_tracked) list"
  ew_rows :: "(key \<times> rv_tracked) list"
  ew_threads :: "thread_row list"

definition rv_get :: "rv_world \<Rightarrow> key \<Rightarrow> rv_tracked option" where
  "rv_get w k = map_of (ew_inner w) k"

definition reviewing :: "rv_world \<Rightarrow> key \<Rightarrow> bool" where
  "reviewing w k \<longleftrightarrow> (case rv_get w k of Some t \<Rightarrow> in_round t | None \<Rightarrow> False)"

definition rv_put :: "key \<Rightarrow> rv_tracked \<Rightarrow> rv_world \<Rightarrow> rv_world" where
  "rv_put k t w = w\<lparr>ew_inner := btree_insert k t (ew_inner w)\<rparr>"

definition rv_entry :: "rv_world \<Rightarrow> key \<Rightarrow> rv_tracked" where
  "rv_entry w k = (case rv_get w k of Some t \<Rightarrow> t | None \<Rightarrow> tracked_default)"

definition rv_update :: "key \<Rightarrow> (rv_tracked \<Rightarrow> 'a \<times> rv_tracked) \<Rightarrow> rv_world \<Rightarrow> 'a \<times> rv_world" where
  "rv_update k f w = (let (x, t) = f (rv_entry w k) in (x, rv_put k t w))"

definition rv_update_existing ::
  "key \<Rightarrow> (rv_tracked \<Rightarrow> 'a \<times> rv_tracked) \<Rightarrow> rv_world \<Rightarrow> 'a option \<times> rv_world" where
  "rv_update_existing k f w =
     (case rv_get w k of
        None \<Rightarrow> (None, w)
      | Some t \<Rightarrow> (let (x, t) = f t in (Some x, rv_put k t w)))"

definition alter :: "key \<Rightarrow> (rv_tracked \<Rightarrow> rv_tracked) \<Rightarrow> rv_world \<Rightarrow> rv_world" where
  "alter k f w = snd (rv_update_existing k (\<lambda>t. ((), f t)) w)"

definition rv_drop :: "key \<Rightarrow> (key \<times> 'a) list \<Rightarrow> (key \<times> 'a) list" where
  "rv_drop k xs = filter (\<lambda>(j, _). j \<noteq> k) xs"

definition rv_remove :: "key \<Rightarrow> rv_world \<Rightarrow> rv_world" where
  "rv_remove k w =
     w\<lparr>ew_emitted := rv_drop k (ew_emitted w), ew_saved := rv_drop k (ew_saved w), ew_inner := rv_drop k (ew_inner w)\<rparr>"

definition flown_by :: "string \<Rightarrow> rv_tracked \<Rightarrow> bool" where
  "flown_by reviewer t \<longleftrightarrow> (case tr_flight t of Some f \<Rightarrow> ft_reviewer_agent_id f = reviewer | None \<Rightarrow> False)"

definition key_of_reviewer :: "string \<Rightarrow> rv_world \<Rightarrow> key option" where
  "key_of_reviewer reviewer w = map_option fst (find (\<lambda>(_, t). flown_by reviewer t) (ew_inner w))"

definition reviewers_of :: "string \<Rightarrow> rv_world \<Rightarrow> (key \<times> string) list" where
  "reviewers_of agent w =
     List.map_filter (\<lambda>(k, t). map_option (Pair k) (Option.bind (tr_reviewer t) rw_agent_id))
       (filter (\<lambda>(k, _). fst k = agent) (ew_inner w))"

definition rv_keys_of :: "string \<Rightarrow> rv_world \<Rightarrow> key list" where
  "rv_keys_of agent w = filter (\<lambda>k. fst k = agent) (map fst (ew_inner w))"

section \<open>The reviewer that is set up\<close>

definition default_reviewer_name :: string where "default_reviewer_name = ''Reviewer''"

definition column_text :: "(string \<rightharpoonup> string) \<Rightarrow> string \<Rightarrow> string option" where
  "column_text r k = (case r k of Some s \<Rightarrow> if trim s = [] then None else Some (trim s) | None \<Rightarrow> None)"

definition spec_of :: "(string \<rightharpoonup> string) \<Rightarrow> reviewer_spec option" where
  "spec_of r =
     (case (column_text r ''id'', column_text r ''base'') of
        (Some i, Some base) \<Rightarrow>
          Some \<lparr>rp_custom_agent_id = i,
                rp_name = (case column_text r ''name'' of Some n \<Rightarrow> n | None \<Rightarrow> default_reviewer_name),
                rp_base = base, rp_model = column_text r ''model'', rp_effort = column_text r ''effort''\<rparr>
      | _ \<Rightarrow> None)"

definition custom_agent_by_id :: "(string \<rightharpoonup> string) list \<Rightarrow> string \<Rightarrow> reviewer_spec option" where
  "custom_agent_by_id rows i = Option.bind (find (\<lambda>r. r ''id'' = Some i) rows) spec_of"

definition clean_id :: "string option \<Rightarrow> string option" where
  "clean_id s = (case map_option trim s of Some i \<Rightarrow> if i = [] then None else Some i | None \<Rightarrow> None)"

definition named_reviewer :: "(string \<rightharpoonup> string) \<Rightarrow> bool" where
  "named_reviewer r = (case r ''name'' of Some n \<Rightarrow> eq_ignore_ascii_case (trim n) default_reviewer_name | None \<Rightarrow> False)"

fun find_spec :: "(string \<rightharpoonup> string) list \<Rightarrow> reviewer_spec option" where
  "find_spec [] = None"
| "find_spec (r # rows) = (case spec_of r of Some s \<Rightarrow> Some s | None \<Rightarrow> find_spec rows)"

definition resolve_reviewer :: "rv_host \<Rightarrow> string option \<Rightarrow> reviewer_spec option" where
  "resolve_reviewer H requested =
     (let rows = rh_custom_agents H
      in case Option.bind (clean_id requested) (custom_agent_by_id rows) of
           Some s \<Rightarrow> Some s
         | None \<Rightarrow>
             (case Option.bind (clean_id (rh_setting_agent H)) (custom_agent_by_id rows) of
                Some s \<Rightarrow> Some s
              | None \<Rightarrow> find_spec (filter named_reviewer rows)))"

definition on_pr_open :: "string option \<Rightarrow> bool" where
  "on_pr_open setting \<longleftrightarrow> setting \<noteq> Some ''false'' \<and> setting \<noteq> Some ''0''"

section \<open>A look\<close>

fun status_debug :: "status_kind \<Rightarrow> string" where
  "status_debug SkModified = ''Modified''"
| "status_debug SkAdded = ''Added''"
| "status_debug SkDeleted = ''Deleted''"
| "status_debug SkRenamed = ''Renamed''"
| "status_debug SkUntracked = ''Untracked''"
| "status_debug SkConflicted = ''Conflicted''"

definition cheap_signature :: "git_state \<Rightarrow> string" where
  "cheap_signature g =
     (case gs_head_sha g of Some h \<Rightarrow> h | None \<Rightarrow> []) @ ''|'' @
     join '','' (sort (map (\<lambda>f. f_path f @ '':'' @ status_debug (f_kind f)) (gs_files g)))"

datatype scan_depth = ScCached | ScGit | ScPoll | ScFull

record rv_counts =
  ct_open :: nat
  ct_resolved :: nat
  ct_pr_number :: "nat option"
  ct_pr_open :: bool

definition repo_for :: "rv_coder \<Rightarrow> key \<Rightarrow> rv_repo option" where
  "repo_for c k =
     (case snd k of
        None \<Rightarrow> (case co_repos c of r # _ \<Rightarrow> Some r | [] \<Rightarrow> None)
      | Some subdir \<Rightarrow> find (\<lambda>r. rr_subdir r = subdir) (co_repos c))"

definition counts_of :: "rv_host \<Rightarrow> key \<Rightarrow> rv_world \<Rightarrow> rv_counts" where
  "counts_of H k w =
     (let (opened, resolved) = thread_counts k (ew_threads w);
          repo = Option.bind (rh_agent H (fst k)) (\<lambda>c. repo_for c k)
      in \<lparr>ct_open = opened, ct_resolved = resolved,
          ct_pr_number = Option.bind repo rr_pr_number,
          ct_pr_open = (case repo of Some r \<Rightarrow> rr_pr_state r = Some ''open'' | None \<Rightarrow> False)\<rparr>)"

definition digest_needed :: "string \<Rightarrow> bool \<Rightarrow> code_state option \<Rightarrow> bool" where
  "digest_needed cheap full reviewed \<longleftrightarrow>
     full \<or> (case reviewed of Some r \<Rightarrow> cs_cheap r = cheap | None \<Rightarrow> False)"

definition sight :: "rv_host \<Rightarrow> key \<Rightarrow> bool \<Rightarrow> code_state option \<Rightarrow> sighting" where
  "sight H k full reviewed =
     (case rh_git H k of
        Inl e \<Rightarrow> Unreadable e
      | Inr None \<Rightarrow> Unreadable ''the checkout is not ready''
      | Inr (Some g) \<Rightarrow>
          if gs_blocked_config g \<noteq> [] then Unreadable (''refused config: '' @ join '', '' (gs_blocked_config g))
          else
            (let cheap = cheap_signature g
             in if \<not> digest_needed cheap full reviewed then Read cheap DgSkipped
                else Read cheap
                  (case rh_digest H k of
                     None \<Rightarrow> DgUnverified ''the checkout is gone''
                   | Some (Inl e) \<Rightarrow> DgUnverified e
                   | Some (Inr digest) \<Rightarrow> DgVerified digest)))"

definition look_sees :: "rv_host \<Rightarrow> key \<Rightarrow> scan_depth \<Rightarrow> code_state option \<Rightarrow> sighting" where
  "look_sees H k sc reviewed =
     (case sc of
        ScCached \<Rightarrow> NotScanned
      | ScGit \<Rightarrow> sight H k False reviewed
      | ScFull \<Rightarrow> sight H k True reviewed
      | ScPoll \<Rightarrow> if rh_asleep H k then NotScanned else sight H k False reviewed)"

definition review_view :: "key \<Rightarrow> rv_tracked \<Rightarrow> rv_phase \<Rightarrow> rv_counts \<Rightarrow> review_state" where
  "review_view k t ph c =
     \<lparr>rs_agent_id = fst k, rs_subdir = snd k, rs_phase = ph, rs_trigger = tr_trigger t,
      rs_reviewer = tr_reviewer t, rs_round = tr_round t, rs_open = ct_open c, rs_resolved = ct_resolved c,
      rs_since_ms = tr_since_ms t, rs_reviewed_signature = map_option signature (tr_reviewed t),
      rs_error = rv_error t\<rparr>"

definition settle_phase :: "nat \<Rightarrow> int \<Rightarrow> rv_tracked \<Rightarrow> rv_tracked" where
  "settle_phase opened now t =
     (let ph = derive t opened in if ph \<noteq> tr_phase t then t\<lparr>tr_phase := ph, tr_since_ms := now\<rparr> else t)"

text \<open>Recording what a look saw, persisting the entry and announcing the view when they changed.\<close>

definition look_records :: "rv_host \<Rightarrow> key \<Rightarrow> sighting \<Rightarrow> int \<Rightarrow> rv_world \<Rightarrow> review_state option \<times> rv_world" where
  "look_records H k s now w =
     (case rv_get w k of
        None \<Rightarrow> (None, w)
      | Some t \<Rightarrow>
          (let c = counts_of H k w;
               t = settle_phase (ct_open c) now (record_sighting s now t);
               v = review_view k t (tr_phase t) c;
               w = rv_put k t w;
               w = (if map_of (ew_saved w) k \<noteq> Some (persisted t)
                    then w\<lparr>ew_rows := btree_insert k (persisted t) (ew_rows w),
                           ew_saved := btree_insert k (persisted t) (ew_saved w)\<rparr> else w);
               w = (if map_of (ew_emitted w) k = Some v then w else w\<lparr>ew_emitted := btree_insert k v (ew_emitted w)\<rparr>)
           in (Some v, w)))"

definition look :: "rv_host \<Rightarrow> key \<Rightarrow> scan_depth \<Rightarrow> int \<Rightarrow> rv_world \<Rightarrow> (review_state \<times> rv_counts \<times> sighting) option \<times> rv_world" where
  "look H k sc now w =
     (case rv_get w k of
        None \<Rightarrow> (None, w)
      | Some t \<Rightarrow>
          (let s = look_sees H k sc (tr_reviewed t); (v, w') = look_records H k s now w
           in (map_option (\<lambda>v. (v, counts_of H k w, s)) v, w')))"

definition refresh :: "rv_host \<Rightarrow> key \<Rightarrow> int \<Rightarrow> rv_world \<Rightarrow> review_state option \<times> rv_world" where
  "refresh H k now w = look_records H k NotScanned now w"

definition rv_fail ::
  "rv_host \<Rightarrow> key \<Rightarrow> failure_origin \<Rightarrow> string \<Rightarrow> code_state option \<Rightarrow> int \<Rightarrow> rv_world \<Rightarrow> rv_world" where
  "rv_fail H k origin reason code now w =
     snd (refresh H k now (alter k (record_failure origin reason code now) w))"

end
