(* ===== verification/Review_Drive.thy ===== *)
theory Review_Drive
  imports Review_Engine
begin

text \<open>
  The rounds of the local review and its driver (\<open>review/engine.rs\<close>). A round is its claim, its
  beginning, and its delivery, with the outcome of spawning the reviewer and of sending the prompt
  as arguments. A client's or a driver's call that the source awaits in parts is given part by part
  where other calls can come in between, and as their composition otherwise.
\<close>

section \<open>Claims\<close>

definition coder_idle :: "rv_host \<Rightarrow> key \<Rightarrow> bool" where
  "coder_idle H k \<longleftrightarrow>
     rh_status H (fst k) \<noteq> Some AsRunning \<and> rh_status H (fst k) \<noteq> Some AsSpawning \<and> \<not> rh_delegated H k"

definition coder_free :: "rv_host \<Rightarrow> key \<Rightarrow> bool" where
  "coder_free H k \<longleftrightarrow> coder_idle H k \<and> \<not> rh_moving H (fst k)"

datatype claim_answer = Claimed | CoderBusy | AlreadyRunning

definition claim_if_free :: "key \<Rightarrow> bool \<Rightarrow> rv_world \<Rightarrow> claim_answer \<times> rv_world" where
  "claim_if_free k free w =
     (if \<not> free then (CoderBusy, w)
      else
        (case rv_update k rv_claim w of
           (Inr _, w) \<Rightarrow> (Claimed, w)
         | (Inl _, w) \<Rightarrow> (AlreadyRunning, w)))"

definition no_reviewer :: string where
  "no_reviewer = ''No reviewer is set up '' @ em_dash @ '' pick one in Settings '' @
     [CHR 0xE2, CHR 0x80, CHR 0xBA] @ '' Review''"

definition vanished :: del_error where "vanished = DeOther ''review state vanished''"

text \<open>A start that is to run now leaves the checkout claimed; any other answers with a state or an error.\<close>

datatype start_answer = Runs key | Answers review_state

definition answer_state :: "review_state option \<Rightarrow> del_error + start_answer" where
  "answer_state v = (case v of Some s \<Rightarrow> Inr (Answers s) | None \<Rightarrow> Inl vanished)"

definition queue_start ::
  "rv_host \<Rightarrow> key \<Rightarrow> rv_trigger \<Rightarrow> string option \<Rightarrow> int \<Rightarrow> rv_world \<Rightarrow> (del_error + start_answer) \<times> rv_world" where
  "queue_start H k trigger custom now w =
     (let (_, w) = rv_update k (\<lambda>t. ((), rv_queue trigger custom t)) w;
          (v, w) = refresh H k now w
      in (answer_state v, w))"

definition rv_start ::
  "rv_host \<Rightarrow> string \<Rightarrow> string option \<Rightarrow> string option \<Rightarrow> rv_trigger \<Rightarrow> int \<Rightarrow> rv_world \<Rightarrow>
     (del_error + start_answer) \<times> rv_world" where
  "rv_start H agent subdir custom trigger now w =
     (case rh_agent H agent of
        None \<Rightarrow> (Inl (DeAgent agent), w)
      | Some coder \<Rightarrow>
          if co_archived coder then (Inl (DeOther ''agent is archived''), w)
          else
            (case checkout_subdir (rh_unicode H) (map rr_subdir (co_repos coder)) subdir of
               Inl e \<Rightarrow> (Inl e, w)
             | Inr sub \<Rightarrow>
                 (let k = (agent, sub)
                  in if (case rv_get w k of Some t \<Rightarrow> tr_pending t \<noteq> None | None \<Rightarrow> False)
                     then (let (v, w) = refresh H k now w in (answer_state v, w))
                     else if reviewing w k then (Inl (DeOther already_running), w)
                     else if resolve_reviewer H custom = None then (Inl (DeOther no_reviewer), w)
                     else if rh_moving H agent then queue_start H k trigger custom now w
                     else
                       (case claim_if_free k (coder_idle H k) w of
                          (Claimed, w) \<Rightarrow> (Inr (Runs k), w)
                        | (AlreadyRunning, w) \<Rightarrow> (Inl (DeOther already_running), w)
                        | (CoderBusy, w) \<Rightarrow> queue_start H k trigger custom now w))))"

text \<open>The queued start that is to run now, claimed.\<close>

definition drain :: "rv_host \<Rightarrow> key \<Rightarrow> rv_world \<Rightarrow> rv_pending option \<times> rv_world" where
  "drain H k w =
     (if rh_moving H (fst k) \<or> \<not> coder_idle H k then (None, w)
      else (case rv_update_existing k claim_pending w of (r, w) \<Rightarrow> (Option.bind r (\<lambda>p. p), w)))"

section \<open>A round\<close>

definition code_to_review :: "sighting \<Rightarrow> (string \<times> code_state option) + code_state" where
  "code_to_review s =
     (case s of
        Read cheap digest \<Rightarrow>
          (case digest of
             DgVerified d \<Rightarrow> Inr \<lparr>cs_cheap = cheap, cs_content = CtVerified d\<rparr>
           | DgUnverified reason \<Rightarrow>
               Inl (''couldn't read the change: '' @ reason, read_state \<lparr>rd_cheap = cheap, rd_digest = digest\<rparr>)
           | DgSkipped \<Rightarrow> Inl (''couldn't read the change: its content was not read'', None))
      | Unreadable reason \<Rightarrow> Inl (''couldn't read the change: '' @ reason, None)
      | NotScanned \<Rightarrow> Inl (''couldn't read the change: its content was not read'', None))"

definition reviewer_placeholder :: "reviewer_spec \<Rightarrow> reviewer_view option \<Rightarrow> reviewer_view" where
  "reviewer_placeholder spec existing =
     \<lparr>rw_custom_agent_id = rp_custom_agent_id spec, rw_name = rp_name spec, rw_provider = rp_base spec,
      rw_model = rp_model spec, rw_agent_id = Option.bind existing rw_agent_id\<rparr>"

definition begin_on ::
  "reviewer_view \<Rightarrow> rv_trigger \<Rightarrow> code_state \<Rightarrow> nat option \<Rightarrow> int \<Rightarrow> rv_tracked \<Rightarrow> (string + unit) \<times> rv_tracked" where
  "begin_on reviewer trigger code pr_number now t =
     rv_begin reviewer trigger code pr_number now (t\<lparr>tr_active_until_ms := now + active_window_ms\<rparr>)"

definition error_text :: "unicode \<Rightarrow> del_error \<Rightarrow> string" where
  "error_text U e = (case e of DeAgent a \<Rightarrow> ''agent not found: '' @ a | DeOther m \<Rightarrow> m)"

definition begin_round ::
  "rv_host \<Rightarrow> key \<Rightarrow> string option \<Rightarrow> rv_trigger \<Rightarrow> int \<Rightarrow> rv_world \<Rightarrow>
     ((string \<times> code_state option) + unit) \<times> rv_world" where
  "begin_round H k custom trigger now w =
     (case rh_agent H (fst k) of
        None \<Rightarrow> (Inl (error_text (rh_unicode H) (DeAgent (fst k)), None), w)
      | Some coder \<Rightarrow>
          if co_archived coder then (Inl (''agent is archived'', None), w)
          else
            (case resolve_reviewer H custom of
               None \<Rightarrow> (Inl (no_reviewer, None), w)
             | Some spec \<Rightarrow>
                 (case look H k ScFull now w of
                    (None, w) \<Rightarrow> (Inl (''review state vanished'', None), w)
                  | (Some (_, c, s), w) \<Rightarrow>
                      (case code_to_review s of
                         Inl e \<Rightarrow> (Inl e, w)
                       | Inr code \<Rightarrow>
                           (case rv_update k (begin_on (reviewer_placeholder spec (Option.bind (rv_get w k) tr_reviewer))
                                     trigger code (ct_pr_number c) now) w of
                              (Inl e, w) \<Rightarrow> (Inl (e, Some code), w)
                            | (Inr _, w) \<Rightarrow> (Inr (), snd (refresh H k now w)))))))"

text \<open>The reviewer that came up is put on the entry, and on the flight when there is one.\<close>

definition reviewer_up :: "reviewer_view \<Rightarrow> rv_tracked \<Rightarrow> rv_tracked" where
  "reviewer_up reviewer t =
     t\<lparr>tr_flight := map_option (\<lambda>f. f\<lparr>ft_reviewer_agent_id :=
          (case rw_agent_id reviewer of Some i \<Rightarrow> i | None \<Rightarrow> [])\<rparr>) (tr_flight t),
       tr_reviewer := Some reviewer\<rparr>"

definition deliver_round ::
  "rv_host \<Rightarrow> key \<Rightarrow> string + reviewer_view \<Rightarrow> string option \<Rightarrow> rv_world \<Rightarrow> (string + unit) \<times> rv_world" where
  "deliver_round H k spawned sent w =
     (case rh_agent H (fst k) of
        None \<Rightarrow> (Inl (error_text (rh_unicode H) (DeAgent (fst k))), w)
      | Some coder \<Rightarrow>
          if repo_for coder k = None then (Inl ''agent has no tracked repos'', w)
          else
            (case rv_get w k of
               None \<Rightarrow> (Inl ''review state vanished'', w)
             | Some t \<Rightarrow>
                 if resolve_reviewer H (Some (case tr_reviewer t of Some r \<Rightarrow> rw_custom_agent_id r | None \<Rightarrow> [])) = None
                 then (Inl ''the reviewer is no longer set up'', w)
                 else
                   (case spawned of
                      Inl e \<Rightarrow> (Inl (''the reviewer could not start: '' @ e), w)
                    | Inr reviewer \<Rightarrow>
                        (let (_, w) = rv_update k (\<lambda>t. ((), reviewer_up reviewer t)) w
                         in case sent of
                              None \<Rightarrow> (Inr (), w)
                            | Some e \<Rightarrow> (Inl (''the review could not be sent: '' @ e), w)))))"

text \<open>The prompt of a round: the base is its name and commit, as resolved.\<close>

definition trigger_text :: "rv_trigger \<Rightarrow> string" where
  "trigger_text tg =
     (case tg of
        TrManual \<Rightarrow> ''requested by the user''
      | TrPrOpen \<Rightarrow> ''the pull request was opened''
      | TrReReview \<Rightarrow> ''the code changed since your last review'')"

definition open_finding :: "thread_row \<Rightarrow> string" where
  "open_finding r =
     (let anchor = (case (th_path r, th_line r) of
                      (Some p, Some l) \<Rightarrow> p @ '':'' @ show_nat l
                    | (Some p, None) \<Rightarrow> p
                    | _ \<Rightarrow> ''unanchored'');
          replied = (if we_replied_last r then '' '' @ em_dash @ '' the author replied without resolving'' else [])
      in ''- ['' @ th_id r @ ''] '' @ th_title r @ '' ('' @ anchor @ '')'' @ replied @ nl)"

definition round_prompt ::
  "string \<Rightarrow> string \<Rightarrow> git_state option \<Rightarrow> nat \<Rightarrow> rv_trigger \<Rightarrow> thread_row list \<Rightarrow> string" where
  "round_prompt base_name base_sha git round trigger opened =
     (let head = (case Option.bind git gs_head_sha of Some h \<Rightarrow> h | None \<Rightarrow> ''HEAD'');
          dirty = (case git of Some g \<Rightarrow> map f_path (gs_files g) | None \<Rightarrow> [])
      in ''[review] round '' @ show_nat round @ '' '' @ em_dash @ '' '' @ trigger_text trigger @ nl @ nl @
         ''Review the change in this checkout. Base: '' @ in_ticks base_name @ '' at '' @ in_ticks base_sha @
         ''. Head: '' @ in_ticks head @ ''.'' @ nl @
         ''See the committed change with '' @ in_ticks (''git diff '' @ base_sha @ ''...HEAD'') @ '' and '' @
         in_ticks (''git log '' @ base_sha @ ''..HEAD'') @
         (if dirty = [] then ''; the working tree is clean.'' @ nl
          else ''; the working tree also has uncommitted changes in '' @ join '', '' dirty @ '' ('' @
            in_ticks ''git status'' @ '', '' @ in_ticks ''git diff'' @ ''), which are part of the change.'' @ nl) @
         (if opened = [] then nl @ ''No earlier findings are open.'' @ nl
          else nl @ ''Still open from earlier rounds (do not report these again; judge the new code):'' @ nl @
            concat (map open_finding opened)) @
         nl @ ''Report exactly once with the '' @ in_ticks ''review_submit'' @
         '' op as your instructions describe, then reply in one line.'')"

definition failed_before :: "failure_origin \<Rightarrow> string \<Rightarrow> string" where
  "failed_before before e = (if before = FoQueued then ''queued review not started: '' else []) @ e"

definition run_round ::
  "rv_host \<Rightarrow> key \<Rightarrow> string option \<Rightarrow> rv_trigger \<Rightarrow> failure_origin \<Rightarrow> string + reviewer_view \<Rightarrow> string option \<Rightarrow> int \<Rightarrow>
     rv_world \<Rightarrow> (string + review_state) \<times> rv_world" where
  "run_round H k custom trigger before spawned sent now w =
     (let (_, w) = refresh H k now w
      in case begin_round H k custom trigger now w of
           (Inl (e, code), w) \<Rightarrow> (Inl e, rv_fail H k before (failed_before before e) code now w)
         | (Inr _, w) \<Rightarrow>
             (case deliver_round H k spawned sent w of
                (Inl e, w) \<Rightarrow> (Inl e, snd (refresh H k now (alter k (round_failed e now) w)))
              | (Inr _, w) \<Rightarrow>
                  (case refresh H k now w of
                     (Some v, w) \<Rightarrow> (Inr v, w) | (None, w) \<Rightarrow> (Inl ''review state vanished'', w))))"

text \<open>The reviewer to interrupt, when a turn has one, with the entry stopped.\<close>

definition stop_review :: "rv_host \<Rightarrow> key \<Rightarrow> int \<Rightarrow> rv_world \<Rightarrow> string option \<times> rv_world" where
  "stop_review H k now w =
     (let t = rv_get w k;
          reviewer = Option.bind t (\<lambda>t. map_option ft_reviewer_agent_id (tr_flight t));
          queued = (case t of Some t \<Rightarrow> tr_pending t \<noteq> None | None \<Rightarrow> False);
          w = (if reviewer \<noteq> None \<or> queued then snd (rv_update k (\<lambda>t. ((), rv_stop t)) w) else w)
      in (case reviewer of Some i \<Rightarrow> if i = [] then None else Some i | None \<Rightarrow> None, snd (refresh H k now w)))"

section \<open>The report\<close>

definition purpose_reviewer :: string where "purpose_reviewer = ''reviewer''"

definition rv_submit ::
  "rv_host \<Rightarrow> string \<Rightarrow> string \<Rightarrow> finding list \<Rightarrow> string list \<Rightarrow> int \<Rightarrow> rv_world \<Rightarrow> (del_error + unit) \<times> rv_world" where
  "rv_submit H reviewer verdict findings uuids now w =
     (case rh_agent H reviewer of
        None \<Rightarrow> (Inl (DeAgent reviewer), w)
      | Some rec \<Rightarrow>
          if co_purpose rec \<noteq> Some purpose_reviewer then (Inl (DeOther ''review_submit is for the reviewer agent only''), w)
          else
            (case key_of_reviewer reviewer w of
               None \<Rightarrow> (Inl (DeOther ''no review is in flight for this reviewer''), w)
             | Some k \<Rightarrow>
                 if verdict \<noteq> ''approve'' \<and> verdict \<noteq> ''revise''
                 then (Inl (DeOther (''verdict must be '' @ dquote @ ''approve'' @ dquote @ '' or '' @ dquote @ ''revise'' @
                        dquote @ '', got '' @ debug_fmt (rh_unicode H) verdict)), w)
                 else
                   (case rv_update_existing k submitted w of
                      (None, w) \<Rightarrow> (Inl (DeOther ''no review is in flight for this reviewer''), w)
                    | (Some (Inl e), w) \<Rightarrow> (Inl (DeOther e), w)
                    | (Some (Inr _), w) \<Rightarrow>
                        (let t = rv_entry w k;
                             author = (case tr_reviewer t of Some r \<Rightarrow> rw_name r | None \<Rightarrow> default_reviewer_name);
                             w = (if findings = [] then w
                                  else w\<lparr>ew_threads :=
                                    snd (insert_findings k (tr_round t) author uuids now findings (ew_threads w))\<rparr>);
                             (_, w) = look H k ScFull now w;
                             w = alter k check_code_after_report w
                         in (Inr (), snd (refresh H k now w))))))"

section \<open>What starts and ends a review\<close>

text \<open>Whether a pull request that opened is to be reviewed now, after the look it takes to know.\<close>

definition pr_opened_wants ::
  "rv_host \<Rightarrow> string \<Rightarrow> string option \<Rightarrow> nat option \<Rightarrow> int option \<Rightarrow> int \<Rightarrow> rv_world \<Rightarrow> bool \<times> rv_world" where
  "pr_opened_wants H agent subdir number opened_at now w =
     (if (case opened_at of Some a \<Rightarrow> now - a > pr_opened_recently_ms | None \<Rightarrow> False) then (False, w)
      else if \<not> on_pr_open (rh_setting_on_pr_open H) then (False, w)
      else
        (case rh_agent H agent of
           None \<Rightarrow> (False, w)
         | Some coder \<Rightarrow>
             if co_purpose coder \<noteq> None \<or> co_owner_run_id coder \<noteq> None then (False, w)
             else
               (case checkout_subdir (rh_unicode H) (map rr_subdir (co_repos coder)) subdir of
                  Inl e \<Rightarrow> (False, w)
                | Inr sub \<Rightarrow>
                    (let k = (agent, sub); t = rv_get w k
                     in if reviewing w k then (False, w)
                        else if (case (t, number) of (Some t, Some n) \<Rightarrow> reviewed_pr n t | _ \<Rightarrow> False) then (False, w)
                        else if (case t of Some t \<Rightarrow> tr_reviewed t \<noteq> None | None \<Rightarrow> False)
                        then
                          (let (_, w) = look H k ScGit now w
                           in (\<not> (case rv_get w k of
                                    Some t \<Rightarrow>
                                      (case (tr_last_read t, tr_reviewed t) of
                                         (Some r, Some reviewed) \<Rightarrow> identity r reviewed = IdSame
                                       | _ \<Rightarrow> False)
                                  | None \<Rightarrow> False), w))
                        else (True, w)))))"

definition on_pr_opened ::
  "rv_host \<Rightarrow> string \<Rightarrow> string option \<Rightarrow> nat option \<Rightarrow> int option \<Rightarrow> int \<Rightarrow> rv_world \<Rightarrow> start_answer option \<times> rv_world" where
  "on_pr_opened H agent subdir number opened_at now w =
     (case pr_opened_wants H agent subdir number opened_at now w of
        (False, w) \<Rightarrow> (None, w)
      | (True, w) \<Rightarrow>
          (case rv_start H agent subdir None TrPrOpen now w of
             (Inl e, w) \<Rightarrow> (None, w) | (Inr a, w) \<Rightarrow> (Some a, w)))"

text \<open>The reviewers left to clean up.\<close>

definition on_coder_gone :: "string \<Rightarrow> rv_world \<Rightarrow> string list \<times> rv_world" where
  "on_coder_gone agent w =
     (map snd (reviewers_of agent w),
      (foldr rv_remove (rv_keys_of agent w) w)\<lparr>ew_rows := filter (\<lambda>(k, _). fst k \<noteq> agent) (ew_rows w)\<rparr>)"

definition rv_load :: "int \<Rightarrow> rv_world \<Rightarrow> rv_world" where
  "rv_load now w = foldl (\<lambda>w (k, t). rv_put k (loaded now t) w) w (ew_rows w)"

definition reviewer_status :: "agent_status \<Rightarrow> int \<Rightarrow> rv_tracked \<Rightarrow> bool \<times> rv_tracked" where
  "reviewer_status status now t =
     (case tr_flight t of
        None \<Rightarrow> (False, t)
      | Some f \<Rightarrow>
          (case status of
             AsRunning \<Rightarrow> (False, t\<lparr>tr_flight := Some (f\<lparr>ft_saw_running := True\<rparr>)\<rparr>)
           | AsSpawning \<Rightarrow> (False, t)
           | AsIdle \<Rightarrow> if \<not> ft_saw_running f then (False, t) else (True, turn_ended now t)
           | AsStopped \<Rightarrow> (True, round_failed ''the reviewer was stopped before it reported'' now t)
           | AsError \<Rightarrow> (True, round_failed ''the reviewer's turn failed'' now t)))"

text \<open>An event of a reviewer, or of a coder that settled; the queued starts that run now.\<close>

fun settle_coder :: "rv_host \<Rightarrow> int \<Rightarrow> key list \<Rightarrow> rv_world \<Rightarrow> (key \<times> rv_pending) list \<times> rv_world" where
  "settle_coder H now [] w = ([], w)"
| "settle_coder H now (k # ks) w =
     (let w = alter k (\<lambda>t. t\<lparr>tr_active_until_ms := now + active_window_ms\<rparr>) w;
          (_, w) = look H k ScGit now w;
          (p, w) = drain H k w;
          (rest, w) = settle_coder H now ks w
      in ((case p of Some p \<Rightarrow> [(k, p)] | None \<Rightarrow> []) @ rest, w))"

definition on_status :: "rv_host \<Rightarrow> string \<Rightarrow> agent_status \<Rightarrow> int \<Rightarrow> rv_world \<Rightarrow> (key \<times> rv_pending) list \<times> rv_world" where
  "on_status H agent status now w =
     (case key_of_reviewer agent w of
        Some k \<Rightarrow>
          (let (ended, w) = rv_update_existing k (reviewer_status status now) w
           in ([], if ended = Some True then snd (refresh H k now w) else w))
      | None \<Rightarrow> if status = AsIdle then settle_coder H now (rv_keys_of agent w) w else ([], w))"

text \<open>\<open>f\<close> is the flight as it was read before.\<close>

definition resync_entry :: "agent_status option \<Rightarrow> flight \<Rightarrow> int \<Rightarrow> rv_tracked \<Rightarrow> bool \<times> rv_tracked" where
  "resync_entry status f now t =
     (case status of
        Some AsIdle \<Rightarrow> if ft_submitted f \<or> ft_saw_running f then (True, turn_ended now t) else (False, t)
      | Some AsError \<Rightarrow> (True, round_failed ''the reviewer's turn failed'' now t)
      | Some AsStopped \<Rightarrow> (True, round_failed ''the reviewer went away before it reported'' now t)
      | None \<Rightarrow> (True, round_failed ''the reviewer went away before it reported'' now t)
      | _ \<Rightarrow> (False, t))"

definition resync_key :: "rv_host \<Rightarrow> int \<Rightarrow> key \<Rightarrow> rv_world \<Rightarrow> rv_world" where
  "resync_key H now k w =
     (case Option.bind (rv_get w k) tr_flight of
        None \<Rightarrow> w
      | Some f \<Rightarrow>
          if ft_reviewer_agent_id f = [] then w
          else
            (let (ended, w) = rv_update_existing k (resync_entry (rh_status H (ft_reviewer_agent_id f)) f now) w
             in if ended = Some True then snd (refresh H k now w) else w))"

definition resync :: "rv_host \<Rightarrow> int \<Rightarrow> rv_world \<Rightarrow> rv_world" where
  "resync H now w = foldl (\<lambda>w k. resync_key H now k w) w (map fst (ew_inner w))"

section \<open>A tick\<close>

text \<open>The wall clock: the reviewer to interrupt when the round failed.\<close>

definition time_out :: "int \<Rightarrow> rv_tracked \<Rightarrow> string option \<times> rv_tracked" where
  "time_out now t =
     (case tr_flight t of
        Some f \<Rightarrow>
          if now - ft_started_ms f > wall_timeout_ms
          then (if ft_submitted f then (None, turn_ended now t)
                else (Some (ft_reviewer_agent_id f),
                      round_failed ''the reviewer did not report within 20 minutes'' now t))
          else (None, t)
      | None \<Rightarrow> (None, t))"

datatype tick_answer = TkNothing | TkStart nat

text \<open>The automatic review of one checkout, from the look of this tick on.\<close>

definition tick_gate :: "rv_host \<Rightarrow> key \<Rightarrow> int \<Rightarrow> rv_world \<Rightarrow> auto_review \<times> rv_world" where
  "tick_gate H k now w =
     (let gate = automatic_review (rv_entry w k)
      in if gate = ArNeedsFullRead
         then (let (_, w) = look H k ScFull now w in (automatic_review (rv_entry w k), w))
         else (gate, w))"

definition budget_note :: "nat \<Rightarrow> string" where
  "budget_note n = ''re-review budget spent for PR #'' @ show_nat n @ '' ('' @ show_nat max_rounds_per_pr @ '' rounds)''"

definition tick_auto :: "rv_host \<Rightarrow> key \<Rightarrow> rv_counts \<Rightarrow> int \<Rightarrow> rv_world \<Rightarrow> tick_answer \<times> rv_world" where
  "tick_auto H k c now w =
     (if \<not> on_pr_open (rh_setting_on_pr_open H) then (TkNothing, w)
      else
        (case (if ct_pr_open c then ct_pr_number c else None) of
           None \<Rightarrow> (TkNothing, w)
         | Some n \<Rightarrow>
             if rv_get w k = None \<or> in_round (rv_entry w k) \<or> tr_pending (rv_entry w k) \<noteq> None \<or> \<not> coder_free H k
             then (TkNothing, w)
             else
               (let (gate, w) = tick_gate H k now w;
                    note = (\<lambda>s w. snd (refresh H k now (alter k (\<lambda>t. t\<lparr>tr_note := Some s\<rparr>) w)))
                in if gate \<noteq> ArAllow then (TkNothing, w)
                   else if resolve_reviewer H None = None
                   then (TkNothing, note ''no reviewer is set up for the automatic re-review'' w)
                   else if \<not> auto_budget_left n (rv_entry w k) then (TkNothing, note (budget_note n) w)
                   else (TkStart n, w))))"

definition tick_key :: "rv_host \<Rightarrow> key \<Rightarrow> int \<Rightarrow> rv_world \<Rightarrow>
    (string option \<times> rv_pending option \<times> tick_answer) \<times> rv_world" where
  "tick_key H k now w =
     (let (timed, w) = rv_update_existing k (time_out now) w;
          interrupt = (case timed of Some (Some i) \<Rightarrow> if i = [] then None else Some i | _ \<Rightarrow> None);
          (queued, w) = drain H k w
      in case rv_get w k of
           None \<Rightarrow> ((interrupt, queued, TkNothing), w)
         | Some t \<Rightarrow>
             (let sc = (if wants_scan (ct_pr_open (counts_of H k w)) now t then ScPoll else ScCached)
              in case look H k sc now w of
                   (None, w) \<Rightarrow> ((interrupt, queued, TkNothing), w)
                 | (Some (_, c, _), w) \<Rightarrow>
                     (let (auto, w) = tick_auto H k c now w in ((interrupt, queued, auto), w))))"

text \<open>
  An automatic start that was refused, with the refusal put on record unless a round did so: \<open>ticked\<close>
  is when the tick began.
\<close>

definition refused_auto :: "rv_host \<Rightarrow> key \<Rightarrow> string \<Rightarrow> int \<Rightarrow> int \<Rightarrow> rv_world \<Rightarrow> rv_world" where
  "refused_auto H k e ticked now w =
     (let t = rv_get w k;
          recorded = (case Option.bind t tr_failure of Some f \<Rightarrow> fl_at_ms f \<ge> ticked | None \<Rightarrow> False)
      in if \<not> recorded \<and> e \<noteq> already_running
         then rv_fail H k FoStart (''re-review not started: '' @ e)
                (Option.bind (Option.bind t tr_last_read) read_state) now w
         else w)"

end
