(* ===== verification/Review_Rules.thy ===== *)
theory Review_Rules
  imports Review_Drive
begin

text \<open>
  What the review engine's entry of a checkout guarantees over time: which code it reviews on its
  own, when a round ends, what a restart finds, what becomes of a report; and where it does less
  than it says.
\<close>

section \<open>Stored signatures\<close>

lemma rsplit_hash_append: "CHR ''#'' \<notin> set d \<Longrightarrow> rsplit_hash (a @ CHR ''#'' # d) = Some (a, d)"
  by (simp add: rsplit_hash_def takeWhile_append dropWhile_append takeWhile_eq_all_conv [THEN iffD2] dropWhile_eq_Nil_conv [THEN iffD2])

text \<open>
  The signature a client sees, and earlier builds stored, names its code: reading it back
  gives the state it was written from, for every digest without a hash sign.
\<close>

theorem signature_roundtrip:
  assumes "CHR ''#'' \<notin> set digest" "digest \<noteq> ''unverified''"
    and "c = \<lparr>cs_cheap = cheap, cs_content = CtVerified digest\<rparr>"
  shows "from_signature (signature c) = c \<and> compat_reviewed (Some (StoredSignature (signature c))) = Some c"
  using assms by (simp add: from_signature_def signature_def compat_reviewed_def rsplit_hash_append)

section \<open>Unchanged code\<close>

lemma failure_fields [simp]:
  "tr_failure (record_failure org r c now t) = Some \<lparr>fl_reason = r, fl_origin = org, fl_code = c, fl_at_ms = now\<rparr>"
  "tr_reviewed (record_failure org r c now t) = tr_reviewed t"
  "tr_round_code (record_failure org r c now t) = tr_round_code t"
  "tr_last_read (record_failure org r c now t) = tr_last_read t"
  "tr_needs_rescan (record_failure org r c now t) = tr_needs_rescan t"
  "tr_phase (record_failure org r c now t) = tr_phase t" "tr_note (record_failure org r c now t) = tr_note t"
  "tr_pending (record_failure org r c now t) = tr_pending t"
  "tr_flight (record_failure org r c now t) = (if org = FoScan then tr_flight t else None)"
  "tr_starting (record_failure org r c now t) = (org = FoScan \<and> tr_starting t)"
  by (simp_all add: record_failure_def Let_def)

lemma sighting_blind [simp]:
  "record_sighting NotScanned now t = t" "record_sighting (Unreadable reason) now t = t\<lparr>tr_needs_rescan := False\<rparr>"
  by (simp_all add: record_sighting_def)

lemma rv_settle_fields [simp]:
  "tr_flight (settle_phase n now t) = tr_flight t" "tr_starting (settle_phase n now t) = tr_starting t"
  "tr_failure (settle_phase n now t) = tr_failure t" "tr_reviewed (settle_phase n now t) = tr_reviewed t"
  "tr_pending (settle_phase n now t) = tr_pending t" "tr_round_code (settle_phase n now t) = tr_round_code t"
  "tr_last_read (settle_phase n now t) = tr_last_read t" "tr_round (settle_phase n now t) = tr_round t"
  by (simp_all add: settle_phase_def Let_def)

lemma sighting_fields [simp]:
  "tr_flight (record_sighting s now t) = tr_flight t" "tr_starting (record_sighting s now t) = tr_starting t"
  "tr_reviewed (record_sighting s now t) = tr_reviewed t" "tr_pending (record_sighting s now t) = tr_pending t"
  "tr_round_code (record_sighting s now t) = tr_round_code t" "tr_round (record_sighting s now t) = tr_round t"
  by (simp_all add: record_sighting_def record_failure_def Let_def split: sighting.split content_digest.split)



lemma begin_fields:
  assumes "rv_begin rv tg c pr now t = (Inr (), t')"
  shows "tr_flight t \<noteq> None \<or> tr_round_code t' = Some c \<and> tr_flight t' \<noteq> None \<and> tr_reviewed t' = tr_reviewed t \<and>
    tr_last_read t' = tr_last_read t \<and> tr_pending t' = tr_pending t"
  using assms by (auto simp: rv_begin_def Let_def split: if_splits)





section \<open>The table, entry by entry\<close>

lemma rv_get_put [simp]: "rv_get (rv_put k t w) j = (if j = k then Some t else rv_get w j)"
  by (simp add: rv_get_def rv_put_def)

lemma rv_get_other [simp]:
  "rv_get (w\<lparr>ew_rows := x\<rparr>) j = rv_get w j" "rv_get (w\<lparr>ew_saved := y\<rparr>) j = rv_get w j"
  "rv_get (w\<lparr>ew_emitted := z\<rparr>) j = rv_get w j" "rv_get (w\<lparr>ew_threads := u\<rparr>) j = rv_get w j"
  by (simp_all add: rv_get_def)

lemma rv_entry_get: "rv_get w k = Some t \<Longrightarrow> rv_entry w k = t"
  by (simp add: rv_entry_def)

lemma alter_get: "rv_get (alter k f w) j = (if j = k then map_option f (rv_get w k) else rv_get w j)"
  by (simp add: alter_def rv_update_existing_def split: option.split)

lemma update_existing_get:
  "rv_get (snd (rv_update_existing k f w)) j = (if j = k then map_option (snd \<circ> f) (rv_get w k) else rv_get w j)"
  by (auto simp: rv_update_existing_def split: option.split prod.split)

lemma update_get: "rv_get (snd (rv_update k f w)) j = (if j = k then Some (snd (f (rv_entry w k))) else rv_get w j)"
  by (auto simp: rv_update_def split: prod.split)

lemma look_records_get:
  "rv_get (snd (look_records H k s now w)) j =
     (if j = k then map_option (\<lambda>t. settle_phase (ct_open (counts_of H k w)) now (record_sighting s now t)) (rv_get w k)
      else rv_get w j)"
  by (simp add: look_records_def Let_def split: option.split)

lemma look_get:
  "rv_get (snd (look H k sc now w)) j =
     (if j = k then map_option (\<lambda>t. settle_phase (ct_open (counts_of H k w)) now
        (record_sighting (look_sees H k sc (tr_reviewed t)) now t)) (rv_get w k)
      else rv_get w j)"
  by (auto simp: look_def Let_def look_records_get split: option.split prod.split)
    (metis (no_types, lifting) look_records_get option.simps(9) snd_conv)+

lemma refresh_get:
  "rv_get (snd (refresh H k now w)) j =
     (if j = k then map_option (settle_phase (ct_open (counts_of H k w)) now) (rv_get w k) else rv_get w j)"
  by (simp add: refresh_def look_records_get)

lemma drain_get:
  "rv_get (snd (drain H k w)) j =
     (if j = k \<and> \<not> rh_moving H (fst k) \<and> coder_idle H k then map_option (snd \<circ> claim_pending) (rv_get w k)
      else rv_get w j)"
  using update_existing_get [of k claim_pending w j] by (auto simp: drain_def split: prod.split)

section \<open>The end of a round\<close>

definition landed_at :: "rv_world \<Rightarrow> key \<Rightarrow> bool" where
  "landed_at w k \<longleftrightarrow> (\<exists>t. rv_get w k = Some t \<and> tr_flight t = None)"

lemma claim_pending_flight [simp]: "tr_flight (snd (claim_pending t)) = tr_flight t"
  by (simp add: claim_pending_def rv_claim_def split: option.split)

lemma landed_steps [intro]:
  "landed_at w k \<Longrightarrow> landed_at (snd (drain H k w)) k"
  "landed_at w k \<Longrightarrow> landed_at (snd (look H k sc now w)) k"
  "landed_at w k \<Longrightarrow> landed_at (snd (refresh H k now (alter k (\<lambda>t. t\<lparr>tr_note := n\<rparr>) w))) k"
  by (auto simp: landed_at_def drain_get look_get refresh_get alter_get)

lemma landed_gate: "landed_at w k \<Longrightarrow> landed_at (snd (tick_gate H k now w)) k"
  using landed_steps(2) [of w k H ScFull now] by (auto simp: tick_gate_def Let_def split: prod.split)

lemma landed_auto: "landed_at w k \<Longrightarrow> landed_at (snd (tick_auto H k c now w)) k"
  using landed_gate [of w k H now] by (auto simp: tick_auto_def Let_def split: prod.split option.split)

lemma turn_over [simp]: "tr_flight (turn_ended now t) = None" "tr_flight (round_failed e now t) = None"
  by (auto simp: turn_ended_def round_failed_def Let_def split: option.split)

text \<open>
  A tick that finds a round past the wall clock ends it, whether it reported or not, so a
  reviewer that never answers does not hold its checkout.
\<close>

theorem round_ends:
  assumes "rv_get w k = Some t" "tr_flight t = Some f" "now - ft_started_ms f > wall_timeout_ms"
  shows "\<exists>t'. rv_get (snd (tick_key H k now w)) k = Some t' \<and> tr_flight t' = None"
proof -
  let ?w = "snd (rv_update_existing k (time_out now) w)"
  have "tr_flight (snd (time_out now t)) = None" using assms by (simp add: time_out_def)
  then have w: "landed_at ?w k" using assms(1) by (simp add: landed_at_def update_existing_get)
  then have d: "landed_at (snd (drain H k ?w)) k" by (rule landed_steps)
  then have l: "landed_at (snd (look H k sc now (snd (drain H k ?w)))) k" for sc by (rule landed_steps)
  have "landed_at (snd (tick_key H k now w)) k"
    using d l landed_auto [OF l] by (auto simp: tick_key_def Let_def split: prod.split option.split)
      (metis (no_types, lifting) landed_auto l snd_conv)+
  then show ?thesis by (simp add: landed_at_def)
qed

text \<open>
  A restart ends the round it cut off and does not repeat it: the entry is held by nobody,
  is read again on the next tick, shows the failure unless a start was queued behind it, and, read
  as the code the round was on, is not reviewed again by itself.
\<close>

theorem restart_safe:
  assumes "tr_phase t = RvReviewing" "tr_round_code t = Some \<lparr>cs_cheap = cheap, cs_content = CtVerified d\<rparr>"
    and "t' = loaded now (persisted t)"
  shows "\<not> in_round t' \<and> wants_scan pr_open later t' \<and>
    derive t' opened = (if tr_pending t = None then RvFailed else RvQueued) \<and>
    automatic_review (record_sighting (Read cheap (DgVerified d)) later t') = ArBlock"
  using assms
  by (auto simp: loaded_def persisted_def in_round_def wants_scan_def derive_def automatic_review_def Let_def
      record_sighting_def scan_cleared_def identity_def split: option.split)

section \<open>The report\<close>

lemma put_threads [simp]: "ew_threads (rv_put k t w) = ew_threads w"
  by (simp add: rv_put_def)

lemma alter_threads [simp]: "ew_threads (alter k f w) = ew_threads w"
  by (simp add: alter_def rv_update_existing_def rv_put_def split: option.split)

lemma look_threads [simp]:
  "ew_threads (snd (look_records H k s now w)) = ew_threads w" "ew_threads (snd (look H k sc now w)) = ew_threads w"
  "ew_threads (snd (refresh H k now w)) = ew_threads w"
proof -
  show r: "ew_threads (snd (look_records H k s now w)) = ew_threads w" for s
    by (simp add: look_records_def Let_def rv_put_def split: option.split)
  show "ew_threads (snd (refresh H k now w)) = ew_threads w" by (simp add: refresh_def r)
  show "ew_threads (snd (look H k sc now w)) = ew_threads w"
  proof (cases "rv_get w k")
    case (Some t)
    have "snd (look H k sc now w) = snd (look_records H k (look_sees H k sc (tr_reviewed t)) now w)"
      by (simp add: look_def Some Let_def split: prod.split)
    then show ?thesis by (simp add: r)
  qed (simp add: look_def)
qed

lemma submitted_cases:
  assumes "submitted t = (Inr x, t')"
  obtains f where "tr_flight t = Some f" "\<not> ft_submitted f" "t' = t\<lparr>tr_flight := Some (f\<lparr>ft_submitted := True\<rparr>), tr_reviewed := tr_round_code t\<rparr>"
  using assms by (auto simp: submitted_def split: option.splits if_splits)

lemma moved_fields [simp]:
  "tr_flight (check_code_after_report t) = tr_flight t" "tr_reviewed (check_code_after_report t) = tr_reviewed t"
  "tr_round_code (check_code_after_report t) = tr_round_code t"
  by (simp_all add: check_code_after_report_def split: option.split content_digest.split)

lemma new_counts:
  "length uuids = length findings \<Longrightarrow>
     (let new = map (\<lambda>(u, f). finding_row k round author now u f) (zip uuids findings)
      in filter (\<lambda>r. on_checkout k r \<and> \<not> resolved r) new = new \<and> length new = length findings \<and>
         map th_title new = map (\<lambda>f. trim (fd_title f)) findings)"
  by (induction uuids findings rule: list_induct2) (simp_all add: finding_row_def on_checkout_def resolved_def Let_def)

definition with_findings ::
  "key \<Rightarrow> rv_tracked \<Rightarrow> string list \<Rightarrow> int \<Rightarrow> finding list \<Rightarrow> rv_world \<Rightarrow> rv_world" where
  "with_findings k t uuids now findings w =
     (if findings = [] then w
      else w\<lparr>ew_threads := snd (insert_findings k (tr_round t)
        (case tr_reviewer t of Some r \<Rightarrow> rw_name r | None \<Rightarrow> default_reviewer_name) uuids now findings (ew_threads w))\<rparr>)"

lemma submit_shape:
  assumes "rv_submit H reviewer verdict findings uuids now w = (Inr u, w')"
  obtains k t t' where "key_of_reviewer reviewer w = Some k" "rv_get w k = Some t" "submitted t = (Inr (), t')"
    "w' = snd (refresh H k now (alter k check_code_after_report
       (snd (look H k ScFull now (with_findings k t' uuids now findings (rv_put k t' w))))))"
  using assms
  by (fastforce simp: rv_submit_def rv_update_existing_def with_findings_def rv_entry_get Let_def
      split: option.splits if_splits sum.splits prod.splits)

lemma found_reviewer:
  assumes "key_of_reviewer reviewer w = Some k" "distinct (map fst (ew_inner w))" "rv_get w k = Some t"
  shows "flown_by reviewer t"
proof -
  from assms(1) obtain kt where kt: "find (\<lambda>(_, t). flown_by reviewer t) (ew_inner w) = Some kt" "k = fst kt"
    by (auto simp: key_of_reviewer_def simp del: split_paired_All split_paired_Ex)
  then have "kt \<in> set (ew_inner w)" "flown_by reviewer (snd kt)"
    by (auto simp: find_Some_iff case_prod_beta')
  with kt(2) have "rv_get w k = Some (snd kt)" using assms(2) by (simp add: rv_get_def)
  with assms(3) \<open>flown_by reviewer (snd kt)\<close> show ?thesis by simp
qed

text \<open>
  A report is taken once, from the reviewer of a round in flight that has not reported, and
  whole: it leaves the round reported on the code it read, and every finding, whatever the verdict
  said, as an open thread of the checkout behind those it had. A report that is refused leaves the
  table and the threads as they were.
\<close>

theorem report_kept:
  assumes "rv_submit H reviewer verdict findings uuids now w = (r, w')" "length uuids = length findings"
    and "distinct (map fst (ew_inner w))"
  shows "case r of
      Inl e \<Rightarrow> rv_get w' = rv_get w \<and> ew_threads w' = ew_threads w
    | Inr u \<Rightarrow>
        (\<exists>k t f t' f' new. rv_get w k = Some t \<and> tr_flight t = Some f \<and> ft_reviewer_agent_id f = reviewer \<and>
           \<not> ft_submitted f \<and> rv_get w' k = Some t' \<and> tr_flight t' = Some f' \<and> ft_submitted f' \<and>
           tr_reviewed t' = tr_round_code t \<and> ew_threads w' = ew_threads w @ new \<and>
           map th_title new = map (\<lambda>f. trim (fd_title f)) findings \<and>
           fst (thread_counts k (ew_threads w')) = fst (thread_counts k (ew_threads w)) + length findings)"
proof (cases r)
  case (Inl e)
  have "submitted t = (Inl e, t') \<Longrightarrow> t' = t" for t t' e
    by (auto simp: submitted_def split: option.splits if_splits)
  with assms(1) Inl show ?thesis
    by (auto simp: rv_submit_def Let_def rv_update_existing_def fun_eq_iff
        split: option.splits if_splits sum.splits prod.splits)
next
  case (Inr u)
  with assms(1) obtain k t t' where k: "key_of_reviewer reviewer w = Some k" "rv_get w k = Some t"
    "submitted t = (Inr (), t')"
    "w' = snd (refresh H k now (alter k check_code_after_report
       (snd (look H k ScFull now (with_findings k t' uuids now findings (rv_put k t' w))))))"
    by (auto elim: submit_shape)
  from submitted_cases [OF k(3)] obtain f where f: "tr_flight t = Some f" "\<not> ft_submitted f"
    "t' = t\<lparr>tr_flight := Some (f\<lparr>ft_submitted := True\<rparr>), tr_reviewed := tr_round_code t\<rparr>" by blast
  have same: "rv_get (with_findings k t' uuids now findings (rv_put k t' w)) k = Some t'"
    by (simp add: with_findings_def)
  have by_him: "ft_reviewer_agent_id f = reviewer"
    using found_reviewer [OF k(1) assms(3) k(2)] f(1) by (simp add: flown_by_def)
  obtain t2 where t2: "rv_get w' k = Some t2" "tr_flight t2 = tr_flight t'" "tr_reviewed t2 = tr_reviewed t'"
    using same by (auto simp: k(4) refresh_get alter_get look_get)
  define author where "author = (case tr_reviewer t' of Some r \<Rightarrow> rw_name r | None \<Rightarrow> default_reviewer_name)"
  define new where "new = map (\<lambda>(u, f). finding_row k (tr_round t') author now u f) (zip uuids findings)"
  have new: "filter (\<lambda>r. on_checkout k r \<and> \<not> resolved r) new = new" "length new = length findings"
    "map th_title new = map (\<lambda>f. trim (fd_title f)) findings"
    using new_counts [OF assms(2), of k "tr_round t'" author now] by (simp_all add: new_def Let_def)
  have threads: "ew_threads w' = ew_threads w @ new"
    using new(2) by (auto simp: k(4) with_findings_def insert_findings_def Let_def rv_put_def new_def author_def)
  from new threads have "fst (thread_counts k (ew_threads w')) = fst (thread_counts k (ew_threads w)) + length findings"
    by (simp add: thread_counts_def)
  with k(2) f by_him t2 threads new(3) show ?thesis unfolding Inr sum.case
    by (intro exI [of _ k] exI [of _ t] exI [of _ f] exI [of _ t2] exI [of _ "f\<lparr>ft_submitted := True\<rparr>"] exI [of _ new]) simp
qed

section \<open>Where it does less than it says\<close>

text \<open>
  A re-review the user stops is allowed again at once on the code it was stopped on: the stop leaves
  no failure, and the code still differs from what was last reviewed.
\<close>

theorem stop_allows_again:
  assumes "begin_on reviewer trigger code pr now t = (Inr (), t0)" "tr_last_read t = Some r"
    and "tr_reviewed t = Some old" "identity r old \<noteq> IdSame"
  shows "automatic_review (rv_stop t0) = ArAllow \<and> \<not> in_round (rv_stop t0)"
  using assms by (auto simp: begin_on_def rv_begin_def rv_stop_def automatic_review_def in_round_def Let_def split: if_splits)

text \<open>
  A reviewer that reported and is then stopped is put on record as stopped before it reported, and
  the review reads failed.
\<close>

theorem reported_then_stopped:
  assumes "tr_flight t = Some f" "ft_submitted f" "tr_pending t = None"
    and "t' = snd (reviewer_status AsStopped now t)"
  shows "derive t' opened = RvFailed \<and> rv_error t' = Some ''the reviewer was stopped before it reported''"
  using assms by (simp add: reviewer_status_def round_failed_def derive_def in_round_def rv_error_def)

text \<open>
  A failed round's code is forgotten when a later look cannot verify the content: the failure is
  overwritten by the scan's, the next look that can clears that one, and the same code is reviewed
  by itself again.
\<close>

theorem scan_forgets_failure:
  assumes "tr_failure t = Some g" "fl_origin g = FoRound" "fl_code g = Some \<lparr>cs_cheap = cheap, cs_content = CtVerified d\<rparr>"
    and "tr_reviewed t = Some old" "old \<noteq> \<lparr>cs_cheap = cheap, cs_content = CtVerified d\<rparr>"
  shows "automatic_review (record_sighting (Read cheap (DgVerified d)) now t) = ArBlock \<and>
    automatic_review (record_sighting (Read cheap (DgVerified d)) later
      (record_sighting (Read cheap (DgUnverified e)) now t)) = ArAllow"
  using assms
  by (cases old) (auto simp: record_sighting_def scan_cleared_def automatic_review_def identity_def Let_def read_state_def
      split: content.split)

end
