(* ===== verification/Review_Run.thy ===== *)
theory Review_Run
  imports Review_Rules Del_Run
begin

text \<open>
  Local reviews and delegations on the same checkouts. Both read and write the working tree through an
  agent, so a checkout must not have both at once: a delegation is refused while a round holds the
  checkout, and a round is claimed only while no delegation is live on it. Here the two tables change
  side by side, one operation at a time, with the rounds in progress between their claim, their
  beginning and their delivery.
\<close>

section \<open>Operations take no checkout\<close>

text \<open>
  A change of the reviews' table that puts a checkout in a round only when no delegation is live on
  it, or when it was in one before.
\<close>

definition yields :: "(key \<Rightarrow> bool) \<Rightarrow> rv_world \<Rightarrow> rv_world \<Rightarrow> bool" where
  "yields live w w' \<longleftrightarrow> (\<forall>j. reviewing w' j \<longrightarrow> reviewing w j \<or> \<not> live j)"

lemma yields_refl [simp]: "yields live w w"
  by (simp add: yields_def)

lemma yields_trans [trans]: "yields live w u \<Longrightarrow> yields live u v \<Longrightarrow> yields live w v"
  unfolding yields_def by blast

lemma reviewing_iff: "reviewing w k \<longleftrightarrow> (\<exists>t. rv_get w k = Some t \<and> in_round t)"
  by (simp add: reviewing_def split: option.split)

lemma yields_get:
  assumes "\<And>j t'. rv_get w' j = Some t' \<Longrightarrow> in_round t' \<Longrightarrow> live j \<Longrightarrow> \<exists>t. rv_get w j = Some t \<and> in_round t"
  shows "yields live w w'"
  unfolding yields_def reviewing_iff using assms by blast

lemma yields_alter: "(\<And>t. in_round (f t) \<Longrightarrow> in_round t) \<Longrightarrow> yields live w (alter k f w)"
  by (rule yields_get) (auto simp: alter_get split: if_splits)

lemma yields_existing: "(\<And>t. in_round (snd (f t)) \<Longrightarrow> in_round t) \<Longrightarrow> yields live w (snd (rv_update_existing k f w))"
  by (rule yields_get) (auto simp: update_existing_get split: if_splits)

lemma in_default [simp]: "\<not> in_round tracked_default"
  by (simp add: in_round_def tracked_default_def)

lemma yields_update:
  "(\<And>t. in_round (snd (f t)) \<Longrightarrow> in_round t \<or> \<not> live k) \<Longrightarrow> yields live w (snd (rv_update k f w))"
  by (rule yields_get) (auto simp: update_get rv_entry_def split: if_splits option.splits, force+)

lemma in_settle [simp]: "in_round (settle_phase n now t) = in_round t" "in_round (record_sighting s now t) = in_round t"
  by (simp_all add: in_round_def)

lemma in_other [simp]:
  "in_round (rv_queue trigger custom t) = in_round t" "in_round (reviewer_up reviewer t) = in_round t"
  "in_round (rv_stop t) = tr_starting t" "in_round (check_code_after_report t) = in_round t"
  "in_round (t\<lparr>tr_note := x\<rparr>) = in_round t" "in_round (t\<lparr>tr_active_until_ms := y\<rparr>) = in_round t"
  by (auto simp: in_round_def rv_queue_def reviewer_up_def rv_stop_def check_code_after_report_def
      split: option.splits content_digest.splits)

lemma yields_look [simp]:
  "yields live w (snd (look_records H k s now w))" "yields live w (snd (look H k sc now w))"
  "yields live w (snd (refresh H k now w))"
  by (rule yields_get; auto simp: look_records_get look_get refresh_get split: if_splits)+

lemma in_ended:
  "in_round (record_failure org r c now t) \<Longrightarrow> in_round t"
  "in_round (round_failed r now t) \<Longrightarrow> in_round t" "in_round (turn_ended now t) \<Longrightarrow> in_round t"
  by (auto simp: in_round_def record_failure_def round_failed_def turn_ended_def Let_def split: if_splits option.splits)

lemma yields_fail [simp]: "yields live w (rv_fail H k org r c now w)"
  unfolding rv_fail_def by (rule yields_trans [OF yields_alter yields_look(3)]) (rule in_ended)

lemma yields_drain [simp]: "yields (rh_delegated H) w (snd (drain H k w))"
  by (rule yields_get) (auto simp: drain_get coder_idle_def split: if_splits)

lemma yields_seq:
  "yields live w (snd p) \<Longrightarrow> yields live (snd p) w' \<Longrightarrow> yields live w w'"
  by (rule yields_trans)

lemma yields_claim: "yields live w (snd (claim_if_free k (\<not> live k) w))"
proof (cases "live k")
  case False
  have "yields live w (snd (rv_update k rv_claim w))"
    by (rule yields_update) (use False in simp)
  with False show ?thesis by (auto simp: claim_if_free_def split: prod.split sum.split)
qed (simp add: claim_if_free_def)

lemma yields_claim_idle: "yields (rh_delegated H) w (snd (claim_if_free k (coder_idle H k) w))"
  using yields_claim [of "rh_delegated H" w k]
  by (cases "coder_idle H k") (auto simp: coder_idle_def claim_if_free_def)

lemma yields_queue_start: "yields live w (snd (queue_start H k trigger custom now w))"
proof -
  have "yields live w (snd (rv_update k (\<lambda>t. ((), rv_queue trigger custom t)) w))"
    by (rule yields_update) simp
  from yields_trans [OF this yields_look(3)] show ?thesis
    by (simp add: queue_start_def Let_def case_prod_unfold)
qed

lemma yields_start [simp]: "yields (rh_delegated H) w (snd (rv_start H agent subdir custom trigger now w))"
proof -
  have claim: "yields (rh_delegated H) w (snd (case claim_if_free k (coder_idle H k) w of
      (Claimed, w) \<Rightarrow> (Inr (Runs k), w)
    | (AlreadyRunning, w) \<Rightarrow> (Inl (DeOther already_running), w)
    | (CoderBusy, w) \<Rightarrow> queue_start H k trigger custom now w))" for k
  proof (cases "claim_if_free k (coder_idle H k) w")
    case (Pair a u)
    have "yields (rh_delegated H) w u" using yields_claim_idle [of H w k] by (simp add: Pair)
    from this yields_trans [OF this yields_queue_start] show ?thesis by (cases a) (simp_all add: Pair)
  qed
  show ?thesis
    by (auto simp: rv_start_def Let_def case_prod_unfold yields_queue_start claim [unfolded case_prod_unfold]
        split: option.split sum.split)
qed

lemma yields_deliver: "yields live w (snd (deliver_round H k spawned sent w))"
proof -
  have "yields live w (snd (rv_update k (\<lambda>t. ((), reviewer_up reviewer t)) w))" for reviewer
    by (rule yields_update) simp
  then show ?thesis
    by (auto simp: deliver_round_def Let_def case_prod_unfold split: option.split sum.split)
qed

lemma yields_stop: "yields live w (snd (stop_review H k now w))"
proof -
  have "in_round (rv_stop t) \<Longrightarrow> in_round t" for t by (simp add: in_round_def rv_stop_def)
  then have "yields live w (snd (rv_update k (\<lambda>t. ((), rv_stop t)) w))"
    by (intro yields_update) simp
  from yields_trans [OF this yields_look(3)] show ?thesis
    by (auto simp: stop_review_def Let_def)
qed

lemma yields_submit: "yields live w (snd (rv_submit H reviewer verdict findings uuids now w))"
proof (cases "rv_submit H reviewer verdict findings uuids now w")
  case (Pair r w')
  show ?thesis
  proof (cases r)
    case (Inl e)
    have "in_round (snd (submitted t)) \<Longrightarrow> in_round t" for t
      by (auto simp: submitted_def in_round_def split: option.splits)
    then have "yields live w (snd (rv_update_existing k submitted w))" for k by (rule yields_existing)
    with Pair Inl show ?thesis
      by (auto simp: rv_submit_def Let_def split: option.splits if_splits sum.splits prod.splits) (metis snd_conv)+
  next
    case (Inr u)
    with Pair obtain k t t' where k: "rv_get w k = Some t" "submitted t = (Inr (), t')"
      "w' = snd (refresh H k now (alter k check_code_after_report
         (snd (look H k ScFull now (with_findings k t' uuids now findings (rv_put k t' w))))))"
      by (auto elim: submit_shape)
    have "in_round t" using k(2) by (auto elim: submitted_cases simp: in_round_def)
    then have "yields live w (with_findings k t' uuids now findings (rv_put k t' w))"
      using k(1) by (intro yields_get) (auto simp: with_findings_def split: if_splits)
    then show ?thesis unfolding Pair k(3) snd_conv
      by (rule yields_trans [OF yields_trans [OF yields_trans [OF _ yields_look(2)] yields_alter] yields_look(3)]) simp
  qed
qed

lemma yields_wants: "yields live w (snd (pr_opened_wants H agent subdir number opened_at now w))"
  by (auto simp: pr_opened_wants_def Let_def case_prod_unfold split: option.split sum.split)

lemma yields_opened: "yields (rh_delegated H) w (snd (on_pr_opened H agent subdir number opened_at now w))"
proof (cases "pr_opened_wants H agent subdir number opened_at now w")
  case (Pair b u)
  have u: "yields (rh_delegated H) w u"
    using yields_wants [of _ w H agent subdir number opened_at now] by (simp add: Pair)
  from yields_trans [OF u yields_start]
  have "yields (rh_delegated H) w (snd (rv_start H agent subdir None TrPrOpen now u))" .
  with u show ?thesis
    by (cases "rv_start H agent subdir None TrPrOpen now u") (auto simp: on_pr_opened_def Pair split: bool.split sum.split)
qed

lemma removed_get: "rv_get (rv_remove k w) j = (if j = k then None else rv_get w j)"
  by (simp add: rv_get_def rv_remove_def rv_drop_def map_of_keep)

lemma yields_gone: "yields live w (snd (on_coder_gone agent w))"
proof -
  have "rv_get (foldr rv_remove ks w) j = Some t \<Longrightarrow> rv_get w j = Some t" for ks j t
    by (induction ks) (auto simp: removed_get split: if_splits)
  then show ?thesis by (intro yields_get) (auto simp: on_coder_gone_def)
qed

lemma yields_settle: "yields (rh_delegated H) w (snd (settle_coder H now ks w))"
proof (induction ks arbitrary: w)
  case (Cons k ks)
  let ?w1 = "alter k (\<lambda>t. t\<lparr>tr_active_until_ms := now + active_window_ms\<rparr>) w"
  have "yields (rh_delegated H) w ?w1" by (rule yields_alter) simp
  from yields_trans [OF yields_trans [OF yields_trans [OF this yields_look(2)] yields_drain] Cons.IH]
  show ?case by (simp add: Let_def case_prod_unfold)
qed simp

lemma in_status: "in_round (snd (reviewer_status status now t)) \<Longrightarrow> in_round t"
  by (cases status) (auto simp: reviewer_status_def in_round_def split: option.splits if_splits dest: in_ended)

lemma in_resync: "in_round (snd (resync_entry status f now t)) \<Longrightarrow> in_round t"
  by (auto simp: resync_entry_def split: option.splits agent_status.splits if_splits dest: in_ended)

lemma in_time_out: "in_round (snd (time_out now t)) \<Longrightarrow> in_round t"
  by (auto simp: time_out_def split: option.splits if_splits dest: in_ended)

lemma yields_status: "yields (rh_delegated H) w (snd (on_status H agent status now w))"
proof (cases "key_of_reviewer agent w")
  case (Some k)
  have u: "yields (rh_delegated H) w (snd (rv_update_existing k (reviewer_status status now) w))"
    by (rule yields_existing) (rule in_status)
  with yields_trans [OF u yields_look(3)] show ?thesis
    by (simp add: on_status_def Some Let_def case_prod_unfold)
qed (simp add: on_status_def yields_settle)

lemma yields_resync: "yields live w (resync H now w)"
proof -
  have step: "yields live w (resync_key H now k w)" for k w
  proof -
    have u: "yields live w (snd (rv_update_existing k (resync_entry status f now) w))" for status f
      by (rule yields_existing) (rule in_resync)
    from u yields_trans [OF u yields_look(3)] show ?thesis
      by (simp add: resync_key_def Let_def case_prod_unfold split: option.split)
  qed
  have "yields live w (foldl (\<lambda>w k. resync_key H now k w) w ks)" for ks
    by (induction ks arbitrary: w) (auto intro: yields_trans [OF step])
  then show ?thesis by (simp add: resync_def)
qed

lemma yields_gate: "yields live w (snd (tick_gate H k now w))"
  by (simp add: tick_gate_def Let_def case_prod_unfold)

lemma yields_note: "yields live w (snd (refresh H k now (alter k (\<lambda>t. t\<lparr>tr_note := n\<rparr>) w)))"
  by (rule yields_trans [OF yields_alter yields_look(3)]) simp

lemma yields_auto: "yields live w (snd (tick_auto H k c now w))"
  by (auto simp: tick_auto_def Let_def case_prod_unfold yields_gate
      intro: yields_trans [OF yields_gate yields_note] split: option.split)

lemma yields_tick: "yields (rh_delegated H) w (snd (tick_key H k now w))"
proof -
  let ?w1 = "snd (rv_update_existing k (time_out now) w)"
  let ?w2 = "snd (drain H k ?w1)"
  have "yields (rh_delegated H) w ?w1" by (rule yields_existing) (rule in_time_out)
  from yields_trans [OF this yields_drain] have w2: "yields (rh_delegated H) w ?w2" .
  from yields_trans [OF w2 yields_look(2)]
  have w3: "yields (rh_delegated H) w (snd (look H k sc now ?w2))" for sc .
  from w2 w3 yields_trans [OF w3 yields_auto] show ?thesis
    by (auto simp: tick_key_def Let_def case_prod_unfold split: option.split)
qed

lemma yields_refused: "yields live w (refused_auto H k e ticked now w)"
  by (simp add: refused_auto_def Let_def)

text \<open>A round that begins while it holds its claim changes nothing about who holds the checkout.\<close>

lemma yields_begin:
  assumes "reviewing w k"
  shows "yields live w (snd (begin_round H k custom trigger now w))"
proof -
  have look: "yields live w (snd (look H k ScFull now w))" by simp
  have up: "yields live w (snd (rv_update k f (snd (look H k ScFull now w))))" for f :: "rv_tracked \<Rightarrow> (string + unit) \<times> rv_tracked"
    using assms by (intro yields_get) (auto simp: update_get look_get reviewing_iff split: if_splits)
  from look up yields_trans [OF up yields_look(3)] show ?thesis
    by (auto simp: begin_round_def case_prod_unfold split: option.split sum.split)
qed

section \<open>Both tables together\<close>

text \<open>The rounds in progress: the checkout, and whether the round has begun.\<close>

record shared =
  sh_review :: rv_world
  sh_deleg :: del_table
  sh_rounds :: "(key \<times> bool) list"

definition sees :: "rv_host \<Rightarrow> shared \<Rightarrow> bool" where
  "sees H s \<longleftrightarrow> rh_delegated H = del_is_live (sh_deleg s)"

definition runs_of :: "del_error + start_answer \<Rightarrow> (key \<times> bool) list" where
  "runs_of r = (case r of Inr (Runs k) \<Rightarrow> [(k, False)] | _ \<Rightarrow> [])"

definition opened_runs :: "start_answer option \<Rightarrow> (key \<times> bool) list" where
  "opened_runs r = (case r of Some (Runs k) \<Rightarrow> [(k, False)] | _ \<Rightarrow> [])"

text \<open>\<open>strict\<close> says that a round begins only while its claim is still on the checkout.\<close>

inductive shared_move :: "bool \<Rightarrow> shared \<Rightarrow> shared \<Rightarrow> bool" for strict where
  delegates: "dh_reviewing D = reviewing (sh_review s) \<Longrightarrow>
    admit_to D agent subdir act ps now (sh_deleg s) = Inr (a, tb) \<Longrightarrow> shared_move strict s (s\<lparr>sh_deleg := tb\<rparr>)"
| finishes: "del_finish k i ph n (sh_deleg s) = (v, tb) \<Longrightarrow> shared_move strict s (s\<lparr>sh_deleg := tb\<rparr>)"
| effects: "apply_del_effect ids now eff (sh_deleg s) = (x, tb) \<Longrightarrow> shared_move strict s (s\<lparr>sh_deleg := tb\<rparr>)"
| operates: "del_note_git_action agent op (sh_deleg s) = (b, tb) \<Longrightarrow> shared_move strict s (s\<lparr>sh_deleg := tb\<rparr>)"
| turns: "mark_agent_running agent (sh_deleg s) = (vs, tb) \<Longrightarrow> shared_move strict s (s\<lparr>sh_deleg := tb\<rparr>)"
| starts: "sees H s \<Longrightarrow> rv_start H agent subdir custom trigger now (sh_review s) = (r, w) \<Longrightarrow>
    shared_move strict s (s\<lparr>sh_review := w, sh_rounds := runs_of r @ sh_rounds s\<rparr>)"
| opens: "sees H s \<Longrightarrow> on_pr_opened H agent subdir number opened_at now (sh_review s) = (r, w) \<Longrightarrow>
    shared_move strict s (s\<lparr>sh_review := w, sh_rounds := opened_runs r @ sh_rounds s\<rparr>)"
| begins: "(k, False) \<in> set (sh_rounds s) \<Longrightarrow> strict \<longrightarrow> tr_starting (rv_entry (sh_review s) k) \<Longrightarrow>
    begin_round H k custom trigger now (sh_review s) = (Inr (), w) \<Longrightarrow>
    shared_move strict s (s\<lparr>sh_review := w, sh_rounds := (k, True) # remove1 (k, False) (sh_rounds s)\<rparr>)"
| begin_fails: "(k, False) \<in> set (sh_rounds s) \<Longrightarrow> strict \<longrightarrow> tr_starting (rv_entry (sh_review s) k) \<Longrightarrow>
    begin_round H k custom trigger now (sh_review s) = (Inl (e, code), w) \<Longrightarrow>
    shared_move strict s (s\<lparr>sh_review := rv_fail H k before (failed_before before e) code now w,
      sh_rounds := remove1 (k, False) (sh_rounds s)\<rparr>)"
| delivers: "(k, True) \<in> set (sh_rounds s) \<Longrightarrow> deliver_round H k spawned sent (sh_review s) = (Inr (), w) \<Longrightarrow>
    shared_move strict s (s\<lparr>sh_review := w, sh_rounds := remove1 (k, True) (sh_rounds s)\<rparr>)"
| delivery_fails: "(k, True) \<in> set (sh_rounds s) \<Longrightarrow> deliver_round H k spawned sent (sh_review s) = (Inl e, w) \<Longrightarrow>
    shared_move strict s (s\<lparr>sh_review := snd (refresh H k now (alter k (round_failed e now) w)),
      sh_rounds := remove1 (k, True) (sh_rounds s)\<rparr>)"
| looks: "shared_move strict s (s\<lparr>sh_review := snd (look_records H k sg now (sh_review s))\<rparr>)"
| stops: "shared_move strict s (s\<lparr>sh_review := snd (stop_review H k now (sh_review s))\<rparr>)"
| submits: "shared_move strict s
    (s\<lparr>sh_review := snd (rv_submit H reviewer verdict findings uuids now (sh_review s))\<rparr>)"
| event: "sees H s \<Longrightarrow> on_status H agent status now (sh_review s) = (queued, w) \<Longrightarrow>
    shared_move strict s (s\<lparr>sh_review := w, sh_rounds := map (\<lambda>(k, p). (k, False)) queued @ sh_rounds s\<rparr>)"
| resyncs: "shared_move strict s (s\<lparr>sh_review := resync H now (sh_review s)\<rparr>)"
| ticks: "sees H s \<Longrightarrow> tick_key H k now (sh_review s) = ((i, queued, auto), w) \<Longrightarrow>
    shared_move strict s (s\<lparr>sh_review := w,
      sh_rounds := (case queued of Some p \<Rightarrow> [(k, False)] | None \<Rightarrow> []) @ sh_rounds s\<rparr>)"
| refuses: "shared_move strict s (s\<lparr>sh_review := refused_auto H k e ticked now (sh_review s)\<rparr>)"
| goes: "on_coder_gone agent (sh_review s) = (rs, w) \<Longrightarrow> shared_move strict s (s\<lparr>sh_review := w\<rparr>)"

definition shared_start :: "thread_row list \<Rightarrow> shared" where
  "shared_start rows =
     \<lparr>sh_review = \<lparr>ew_inner = [], ew_emitted = [], ew_saved = [], ew_rows = [], ew_threads = rows\<rparr>,
      sh_deleg = del_table_default, sh_rounds = []\<rparr>"

definition shared_reach :: "bool \<Rightarrow> shared \<Rightarrow> bool" where
  "shared_reach strict s \<longleftrightarrow> (\<exists>rows. (shared_move strict)\<^sup>*\<^sup>* (shared_start rows) s)"

lemma shared_first: "shared_reach strict (shared_start rows)"
  unfolding shared_reach_def by blast

lemma shared_then: "shared_reach strict s \<Longrightarrow> shared_move strict s s' \<Longrightarrow> shared_reach strict s'"
  unfolding shared_reach_def by (meson rtranclp.rtrancl_into_rtrancl)

definition apart :: "shared \<Rightarrow> bool" where
  "apart s \<longleftrightarrow> (\<nexists>k. reviewing (sh_review s) k \<and> del_is_live (sh_deleg s) k)"

lemma apart_review: "apart s \<Longrightarrow> yields (del_is_live (sh_deleg s)) (sh_review s) w \<Longrightarrow> apart (s\<lparr>sh_review := w, sh_rounds := q\<rparr>)"
  unfolding apart_def yields_def by simp blast

lemma apart_review': "apart s \<Longrightarrow> yields (del_is_live (sh_deleg s)) (sh_review s) w \<Longrightarrow> apart (s\<lparr>sh_review := w\<rparr>)"
  unfolding apart_def yields_def by simp blast

lemma apart_deleg:
  "apart s \<Longrightarrow> (\<And>j. del_is_live tb j \<Longrightarrow> del_is_live (sh_deleg s) j \<or> \<not> reviewing (sh_review s) j) \<Longrightarrow>
     apart (s\<lparr>sh_deleg := tb\<rparr>)"
  unfolding apart_def by simp blast

text \<open>The operations on delegations that record none.\<close>

lemma live_finish: "del_finish k i ph n tb = (v, tb') \<Longrightarrow> del_is_live tb' j \<Longrightarrow> del_is_live tb j"
  by (auto elim!: del_finish_cases simp: del_is_live_def del_get_drop split: if_splits)

lemma live_mark: "del_mark_running k i tb = (v, tb') \<Longrightarrow> del_is_live tb' j \<Longrightarrow> del_is_live tb j"
  by (auto elim!: del_mark_running_cases simp: del_is_live_def del_get_put split: if_splits)

lemma live_dequeue: "del_take_dequeue k i now tb = (v, tb') \<Longrightarrow> del_is_live tb' j \<Longrightarrow> del_is_live tb j"
  by (auto elim!: del_take_dequeue_cases simp: del_is_live_def del_get_put split: if_splits)

lemma live_effect: "apply_del_effect ids now eff tb = (x, tb') \<Longrightarrow> del_is_live tb' j \<Longrightarrow> del_is_live tb j"
  by (cases eff) (auto simp: apply_del_effect_def split: prod.splits option.splits
      dest: live_finish live_mark live_dequeue)

lemma live_marks: "mark_keys ks tb = (vs, tb') \<Longrightarrow> del_is_live tb' j \<Longrightarrow> del_is_live tb j"
  by (induction ks arbitrary: tb vs) (auto simp: Let_def split: prod.splits dest: live_mark)

lemma live_note: "del_note_git_action agent op tb = (b, tb') \<Longrightarrow> del_is_live tb' j \<Longrightarrow> del_is_live tb j"
  using del_get_note [of agent op tb j] by (simp add: del_is_live_def)

lemma live_admit:
  assumes "admit_to D agent subdir act ps now tb = Inr (a, tb')" "del_is_live tb' j"
  shows "del_is_live tb j \<or> \<not> dh_reviewing D j"
proof (cases a)
  case None
  with assms show ?thesis
    by (auto simp: admit_to_def record_unless_reviewed_def Let_def split: option.splits sum.splits if_splits prod.splits)
next
  case (Some b)
  with assms(1) have rec: "del_record (ad_key b) (dv_kind (ad_shown b)) (ad_prompt b) (ad_queued b) now tb =
      ((ad_id b, ad_shown b), tb')" by (simp add: admit_records)
  have free: "\<not> dh_reviewing D (ad_key b)"
    using assms(1) Some
    by (auto simp: admit_to_def record_unless_reviewed_def Let_def del_record_def split: option.splits sum.splits if_splits)
  from del_get_record [OF rec] assms(2) free show ?thesis by (auto simp: del_is_live_def split: if_splits)
qed

lemma starting_reviews: "tr_starting (rv_entry w k) \<Longrightarrow> reviewing w k"
  by (auto simp: rv_entry_def reviewing_def in_round_def tracked_default_def split: option.splits)

lemma yields_refused_sees: "sees H s \<Longrightarrow> yields (rh_delegated H) w u \<Longrightarrow> yields (del_is_live (sh_deleg s)) w u"
  by (simp add: sees_def)

lemma move_apart: "shared_move True s s' \<Longrightarrow> apart s \<Longrightarrow> apart s'"
proof (induction rule: shared_move.induct)
  case (delegates D s agent subdir act ps now a tb)
  show ?case by (rule apart_deleg [OF delegates(3)]) (use live_admit [OF delegates(2)] delegates(1) in simp)
next
  case (finishes k i ph n s v tb)
  then show ?case by (intro apart_deleg) (auto dest: live_finish)
next
  case (effects ids now eff s x tb)
  then show ?case by (intro apart_deleg) (auto dest: live_effect)
next
  case (operates agent op s b tb)
  then show ?case by (intro apart_deleg) (auto dest: live_note)
next
  case (turns agent s vs tb)
  then show ?case by (intro apart_deleg) (auto simp: mark_agent_running_def dest: live_marks)
next
  case (starts H s agent subdir custom trigger now r w)
  from yields_start [of H "sh_review s" agent subdir custom trigger now] starts show ?case
    by (intro apart_review) (simp_all add: sees_def)
next
  case (opens H s agent subdir number opened_at now r w)
  from yields_opened [of H "sh_review s" agent subdir number opened_at now] opens show ?case
    by (intro apart_review) (simp_all add: sees_def)
next
  case (begins k s H custom trigger now w)
  have "yields live (sh_review s) w" for live
    using yields_begin [OF starting_reviews, of "sh_review s" k live H custom trigger now] begins(2,3) by simp
  with begins show ?case by (intro apart_review) simp_all
next
  case (begin_fails k s H custom trigger now e code w before)
  have "yields live (sh_review s) w" for live
    using yields_begin [OF starting_reviews, of "sh_review s" k live H custom trigger now] begin_fails(2,3) by simp
  from yields_trans [OF this yields_fail] begin_fails show ?case by (intro apart_review) simp_all
next
  case (delivers k s H spawned sent w)
  have "yields live (sh_review s) w" for live
    using yields_deliver [of live "sh_review s" H k spawned sent] delivers(2) by simp
  with delivers show ?case by (intro apart_review) simp_all
next
  case (delivery_fails k s H spawned sent e w now)
  have "yields live (sh_review s) w" for live
    using yields_deliver [of live "sh_review s" H k spawned sent] delivery_fails(2) by simp
  then have "yields live (sh_review s) (snd (refresh H k now (alter k (round_failed e now) w)))" for live
    by (rule yields_trans [OF yields_trans [OF _ yields_alter] yields_look(3)]) (rule in_ended)
  with delivery_fails show ?case by (intro apart_review) simp_all
next
  case (event H s agent status now queued w)
  from yields_status [of H "sh_review s" agent status now] event show ?case
    by (intro apart_review) (simp_all add: sees_def)
next
  case (ticks H s k now i queued auto w)
  from yields_tick [of H "sh_review s" k now] ticks show ?case
    by (intro apart_review) (simp_all add: sees_def)
next
  case (goes agent s rs w)
  have "yields live (sh_review s) w" for live
    using yields_gone [of live "sh_review s" agent] goes(1) by simp
  with goes show ?case by (intro apart_review') simp_all
qed (auto intro: apart_review' yields_stop yields_submit yields_resync yields_refused)

text \<open>
  Claim C10. A checkout is never under review and delegated at once: in every interleaving of requests,
  rounds, reports, stops, events and ticks in which a round begins only while the claim it took is
  still on the checkout, no checkout is in a round while a delegation is live on it.
\<close>

theorem exclusive_checkout:
  assumes "shared_reach True s"
  shows "\<nexists>k. reviewing (sh_review s) k \<and> del_is_live (sh_deleg s) k"
proof -
  obtain rows where "(shared_move True)\<^sup>*\<^sup>* (shared_start rows) s" using assms by (auto simp: shared_reach_def)
  then have "apart s"
  proof (induction rule: rtranclp_induct)
    case base
    show ?case by (simp add: apart_def shared_start_def reviewing_def rv_get_def)
  qed (rule move_apart)
  then show ?thesis by (simp add: apart_def)
qed

end
