(* ===== verification/Examples_Review.thy ===== *)
theory Examples_Review
  imports Review_Run
begin

text \<open>
  One checkout with a reviewer set up, and the properties of the review engine applied to it; and a
  run in which a checkout is under review and delegated at once, because a round that was stopped
  took the claim of the next one with it.
\<close>

definition rx_key :: key where "rx_key = (''a'', None)"

definition rx_host :: "bool \<Rightarrow> rv_host" where
  "rx_host live =
     \<lparr>rh_agent = (\<lambda>a. Some (if a = ''a'' then \<lparr>co_archived = False, co_purpose = None, co_owner_run_id = None,
         co_repos = [\<lparr>rr_subdir = ''r'', rr_pr_number = Some 1, rr_pr_state = Some ''open''\<rparr>]\<rparr>
       else \<lparr>co_archived = False, co_purpose = Some ''reviewer'', co_owner_run_id = None, co_repos = []\<rparr>)),
      rh_status = (\<lambda>_. Some AsIdle), rh_moving = (\<lambda>_. False), rh_delegated = (\<lambda>k. live \<and> k = rx_key),
      rh_git = (\<lambda>_. Inr (Some done_git)), rh_digest = (\<lambda>_. Some (Inr ''d'')), rh_asleep = (\<lambda>_. False),
      rh_custom_agents = [[''id'' \<mapsto> ''c'', ''name'' \<mapsto> ''Reviewer'', ''base'' \<mapsto> ''claude'']],
      rh_setting_agent = None, rh_setting_on_pr_open = None, rh_unicode = ascii_tables\<rparr>"

definition rx_start :: "rv_world \<Rightarrow> rv_world" where
  "rx_start w = snd (rv_start (rx_host False) ''a'' None None TrManual 0 w)"

definition rx_begin :: "rv_world \<Rightarrow> rv_world" where
  "rx_begin w = snd (begin_round (rx_host False) rx_key None TrManual 0 w)"

definition rx0 :: rv_world where "rx0 = sh_review (shared_start [])"
definition rx1 :: rv_world where "rx1 = rx_start rx0"
definition rx2 :: rv_world where "rx2 = rx_begin rx1"
definition rx3 :: rv_world where "rx3 = snd (stop_review (rx_host False) rx_key 0 rx2)"
definition rx4 :: rv_world where "rx4 = rx_start rx3"
definition rx5 :: rv_world where
  "rx5 = snd (refresh (rx_host False) rx_key 0 (alter rx_key (round_failed ''the reviewer could not start: no'' 0)
     (snd (deliver_round (rx_host False) rx_key (Inl ''no'') None rx4))))"
definition rx7 :: rv_world where "rx7 = rx_begin rx5"

lemma rx_runs:
  "fst (rv_start (rx_host False) ''a'' None None TrManual 0 rx0) = Inr (Runs rx_key)"
  "fst (begin_round (rx_host False) rx_key None TrManual 0 rx1) = Inr ()"
  "fst (rv_start (rx_host False) ''a'' None None TrManual 0 rx3) = Inr (Runs rx_key)"
  "fst (deliver_round (rx_host False) rx_key (Inl ''no'') None rx4) = Inl ''the reviewer could not start: no''"
  "fst (begin_round (rx_host False) rx_key None TrManual 0 rx5) = Inr ()"
  by code_simp+

lemma rx_pairs:
  "rv_start (rx_host False) ''a'' None None TrManual 0 rx0 = (Inr (Runs rx_key), rx1)"
  "begin_round (rx_host False) rx_key None TrManual 0 rx1 = (Inr (), rx2)"
  "rv_start (rx_host False) ''a'' None None TrManual 0 rx3 = (Inr (Runs rx_key), rx4)"
  "deliver_round (rx_host False) rx_key (Inl ''no'') None rx4 =
     (Inl ''the reviewer could not start: no'', snd (deliver_round (rx_host False) rx_key (Inl ''no'') None rx4))"
  "begin_round (rx_host False) rx_key None TrManual 0 rx5 = (Inr (), rx7)"
  using rx_runs by (auto simp: prod_eq_iff rx1_def rx2_def rx4_def rx7_def rx_start_def rx_begin_def)

definition rx_del_host :: "(key \<Rightarrow> bool) \<Rightarrow> del_host" where
  "rx_del_host held = \<lparr>dh_agent = (\<lambda>_. Some (False, [''r''])), dh_status = (\<lambda>_. Some AsIdle), dh_pr_branch = (\<lambda>_ _. None),
     dh_reviewing = held, dh_unicode = ascii_tables\<rparr>"

definition rx_held :: "bool \<Rightarrow> del_table" where
  "rx_held b =
     (if b then \<lparr>dt_table = [(rx_key, \<lparr>de_id = 1, de_delegation =
         \<lparr>dg_kind = Commit, dg_prompt = ''[app-action] commit'', dg_started_at = 0, dg_saw_running = False,
          dg_saw_git_op = False, dg_queued = False\<rparr>\<rparr>)], dt_next_id = 1\<rparr>
      else del_table_default)"

lemma rx_admits:
  assumes "\<not> held rx_key"
  shows "\<exists>a. admit_to (rx_del_host held) ''a'' None ''commit'' [] 0 del_table_default = Inr (a, rx_held True)"
proof -
  have "from_action ''commit'' = Some Commit" by (simp add: from_action_Some)
  with assms show ?thesis
    by (simp add: admit_to_def rx_del_host_def checkout_subdir_def delegation_trigger_def trigger_params_def
        app_action_message_def app_action_prefix_def record_unless_reviewed_def del_record_def del_table_default_def
        Let_def rx_key_def rx_held_def)
qed

definition rx_shared :: "rv_world \<Rightarrow> bool \<Rightarrow> (key \<times> bool) list \<Rightarrow> shared" where
  "rx_shared w b q = \<lparr>sh_review = w, sh_deleg = rx_held b, sh_rounds = q\<rparr>"

lemma rx_delivery:
  "deliver_round (rx_host False) rx_key (Inl ''no'') None (sh_review (rx_shared rx4 b q)) =
     (Inl ''the reviewer could not start: no'', snd (deliver_round (rx_host False) rx_key (Inl ''no'') None rx4))"
  using rx_pairs(4) by (simp add: rx_shared_def)

lemma rx_sees: "sees (rx_host b) (rx_shared w b q)"
  by (auto simp: sees_def rx_host_def rx_shared_def rx_held_def del_is_live_def del_get_def del_table_default_def fun_eq_iff)

lemma rx_free: "\<not> reviewing rx5 rx_key" "reviewing rx7 rx_key" "reviewing rx1 rx_key"
  by code_simp+

lemma rx_first: "rx_shared rx0 False [] = shared_start []"
  by (simp add: rx_shared_def rx0_def shared_start_def rx_held_def)

lemma rx_reach0: "shared_reach strict (rx_shared rx0 False [])"
  unfolding rx_first by (rule shared_first)

lemma rx_claimed: "shared_move strict (rx_shared rx0 False []) (rx_shared rx1 False [(rx_key, False)])"
  using shared_move.starts [OF rx_sees, where strict = strict] rx_pairs(1)
  by (fastforce simp: rx_shared_def runs_of_def)

text \<open>
  Claim C32. The claim of a round goes with the failure of another: a review that is stopped while its reviewer
  comes up still fails when that fails, and its failure ends the claim of the review that was started
  since. A delegation is admitted, and the review begins beside it.
\<close>

theorem claim_lost:
  "\<exists>s k. shared_reach False s \<and> reviewing (sh_review s) k \<and> del_is_live (sh_deleg s) k"
proof -
  note m1 = rx_claimed [of False]
  have m2: "shared_move False (rx_shared rx1 False [(rx_key, False)]) (rx_shared rx2 False [(rx_key, True)])"
    using shared_move.begins [where strict = False and s = "rx_shared rx1 False [(rx_key, False)]"] rx_pairs(2)
    by (fastforce simp: rx_shared_def)
  have m3: "shared_move False (rx_shared rx2 False [(rx_key, True)]) (rx_shared rx3 False [(rx_key, True)])"
    using shared_move.stops [where strict = False and s = "rx_shared rx2 False [(rx_key, True)]" and H = "rx_host False" and
        k = rx_key and now = 0] by (simp add: rx_shared_def rx3_def)
  have m4: "shared_move False (rx_shared rx3 False [(rx_key, True)]) (rx_shared rx4 False [(rx_key, False), (rx_key, True)])"
    using shared_move.starts [OF rx_sees, where strict = False] rx_pairs(3)
    by (fastforce simp: rx_shared_def runs_of_def)
  have m5: "shared_move False (rx_shared rx4 False [(rx_key, False), (rx_key, True)]) (rx_shared rx5 False [(rx_key, False)])"
    using shared_move.delivery_fails [where strict = False and s = "rx_shared rx4 False [(rx_key, False), (rx_key, True)]" and
        k = rx_key and H = "rx_host False" and now = 0, OF _ rx_delivery]
    by (simp add: rx_shared_def rx5_def)
  obtain a where "admit_to (rx_del_host (reviewing rx5)) ''a'' None ''commit'' [] 0 del_table_default = Inr (a, rx_held True)"
    using rx_admits rx_free(1) by blast
  then have m6: "shared_move False (rx_shared rx5 False [(rx_key, False)]) (rx_shared rx5 True [(rx_key, False)])"
    using shared_move.delegates [where strict = False and s = "rx_shared rx5 False [(rx_key, False)]" and
        D = "rx_del_host (reviewing rx5)"] by (fastforce simp: rx_shared_def rx_del_host_def rx_held_def)
  have m7: "shared_move False (rx_shared rx5 True [(rx_key, False)]) (rx_shared rx7 True [(rx_key, True)])"
    using shared_move.begins [where strict = False and s = "rx_shared rx5 True [(rx_key, False)]"] rx_pairs(5)
    by (fastforce simp: rx_shared_def)
  show ?thesis
  proof (intro exI conjI)
    show "shared_reach False (rx_shared rx7 True [(rx_key, True)])"
      by (rule rx_reach0 [THEN shared_then, OF m1, THEN shared_then, OF m2, THEN shared_then, OF m3, THEN shared_then, OF m4,
          THEN shared_then, OF m5, THEN shared_then, OF m6, THEN shared_then, OF m7])
    show "reviewing (sh_review (rx_shared rx7 True [(rx_key, True)])) rx_key"
      using rx_free(2) by (simp add: rx_shared_def)
    show "del_is_live (sh_deleg (rx_shared rx7 True [(rx_key, True)])) rx_key"
      by (simp add: rx_shared_def rx_held_def del_is_live_def del_get_def)
  qed
qed

section \<open>The properties applied\<close>

lemma signature_roundtrip_witness:
  "from_signature ''abc|#d1'' = \<lparr>cs_cheap = ''abc|'', cs_content = CtVerified ''d1''\<rparr>"
  using signature_roundtrip [of "''d1''" _ "''abc|''"] by (simp add: signature_def)

definition rx_view :: reviewer_view where
  "rx_view = \<lparr>rw_custom_agent_id = ''c'', rw_name = ''R'', rw_provider = ''claude'', rw_model = None, rw_agent_id = None\<rparr>"

definition rx_tracked :: rv_tracked where
  "rx_tracked = tracked_default\<lparr>tr_last_read := Some \<lparr>rd_cheap = ''c'', rd_digest = DgVerified ''d''\<rparr>\<rparr>"

definition rx_code :: code_state where "rx_code = \<lparr>cs_cheap = ''c'', cs_content = CtVerified ''d''\<rparr>"

definition rx_begun :: rv_tracked where
  "rx_begun = snd (begin_on rx_view TrReReview rx_code (Some 1) 0 rx_tracked)"



lemma stop_allows_again_witness:
  "automatic_review (rv_stop (snd (begin_on rx_view TrReReview rx_code (Some 1) 0 (rx_tracked\<lparr>tr_reviewed := Some (rx_code\<lparr>cs_cheap := ''b''\<rparr>)\<rparr>)))) =
     ArAllow"
proof -
  define t where "t = rx_tracked\<lparr>tr_reviewed := Some (rx_code\<lparr>cs_cheap := ''b''\<rparr>)\<rparr>"
  have "begin_on rx_view TrReReview rx_code (Some 1) 0 t = (Inr (), snd (begin_on rx_view TrReReview rx_code (Some 1) 0 t))"
    by (simp add: t_def begin_on_def rv_begin_def rx_tracked_def tracked_default_def Let_def)
  from stop_allows_again [OF this] show ?thesis
    unfolding t_def [symmetric] by (auto simp: t_def rx_tracked_def tracked_default_def rx_code_def identity_def)
qed

definition rx_table :: rv_world where
  "rx_table = \<lparr>ew_inner = [(rx_key, rx_begun)], ew_emitted = [], ew_saved = [], ew_rows = [], ew_threads = []\<rparr>"

lemma round_ends_witness:
  "\<exists>t'. rv_get (snd (tick_key (rx_host False) rx_key 1300000 rx_table)) rx_key = Some t' \<and> tr_flight t' = None"
  by (rule round_ends [of rx_table rx_key rx_begun "\<lparr>ft_reviewer_agent_id = [], ft_started_ms = 0, ft_submitted = False,
      ft_saw_running = False\<rparr>"])
    (simp_all add: rx_table_def rv_get_def rx_begun_def begin_on_def rv_begin_def rx_tracked_def tracked_default_def Let_def
      wall_timeout_ms_def rx_view_def)

lemma restart_safe_witness:
  "derive (loaded 0 (persisted (rx_begun\<lparr>tr_phase := RvReviewing\<rparr>))) 0 = RvFailed"
  using restart_safe [of "rx_begun\<lparr>tr_phase := RvReviewing\<rparr>" "''c''" "''d''" _ 0 False 0 0]
  by (simp add: rx_begun_def begin_on_def rv_begin_def rx_tracked_def tracked_default_def Let_def rx_code_def)

definition rx_up :: rv_tracked where "rx_up = reviewer_up (rx_view\<lparr>rw_agent_id := Some ''v''\<rparr>) rx_begun"

definition rx_flying :: rv_world where
  "rx_flying = rx_table\<lparr>ew_inner := [(rx_key, rx_up)]\<rparr>"

definition rx_finding :: finding where
  "rx_finding = \<lparr>fd_path = None, fd_line = None, fd_severity = None, fd_title = '' T '', fd_body = []\<rparr>"

lemma report_kept_witness:
  "map th_title (ew_threads (snd (rv_submit (rx_host False) ''v'' ''approve'' [rx_finding] [''u''] 9 rx_flying))) = [''T'']"
proof -
  have ok: "fst (rv_submit (rx_host False) ''v'' ''approve'' [rx_finding] [''u''] 9 rx_flying) = Inr ()" by code_simp
  obtain w' where w': "rv_submit (rx_host False) ''v'' ''approve'' [rx_finding] [''u''] 9 rx_flying = (Inr (), w')"
    using ok by (metis prod.collapse)
  have "trim '' T '' = ''T''" by code_simp
  with report_kept [OF w'] w' show ?thesis by (auto simp: rx_flying_def rx_table_def rx_finding_def)
qed

lemma exclusive_checkout_witness:
  "reviewing rx1 rx_key \<and> \<not> del_is_live (rx_held False) rx_key"
proof -
  have "shared_reach True (rx_shared rx1 False [(rx_key, False)])"
    by (rule shared_then [OF rx_reach0 rx_claimed])
  from exclusive_checkout [OF this] have "\<not> (reviewing rx1 rx_key \<and> del_is_live (rx_held False) rx_key)"
    unfolding rx_shared_def shared.select_convs by blast
  with rx_free(3) show ?thesis by simp
qed

end
