(* ===== verification/Roadmap_Types.thy ===== *)
theory Roadmap_Types
  imports Rust_Str Complex_Main
begin

text \<open>
  The roadmap's rows (\<open>crates/fletch-core/src/roadmap/types.rs\<close>, \<open>events.rs\<close>, \<open>proposals.rs\<close>,
  \<open>brakes.rs\<close>, \<open>order_proposals.rs\<close>): items, the payloads that create and patch them, their
  history, and the asks and holds that stand beside them. A rank is an \<open>f64\<close>, that is a
  rational number; time is in epoch milliseconds.
\<close>

section \<open>Vocabulary\<close>

datatype horizon = Now | Next | Later

datatype item_status = Captured | Proposed | Open | Queued | Active | InReview | Done | Rejected

fun item_status_as_str :: "item_status \<Rightarrow> string" where
  "item_status_as_str Captured = ''captured''"
| "item_status_as_str Proposed = ''proposed''"
| "item_status_as_str Open = ''open''"
| "item_status_as_str Queued = ''queued''"
| "item_status_as_str Active = ''active''"
| "item_status_as_str InReview = ''in_review''"
| "item_status_as_str Done = ''done''"
| "item_status_as_str Rejected = ''rejected''"

definition is_rulable :: "item_status \<Rightarrow> bool" where
  "is_rulable s \<longleftrightarrow> s = Proposed \<or> s = Open \<or> s = Queued"

datatype item_source = SrcUser | SrcPm | SrcLinear | SrcGithub

datatype capture_kind = Ask | Idea | Brainstorm

fun capture_kind_as_str :: "capture_kind \<Rightarrow> string" where
  "capture_kind_as_str Ask = ''ask''"
| "capture_kind_as_str Idea = ''idea''"
| "capture_kind_as_str Brainstorm = ''brainstorm''"

definition capture_kind_from_db :: "string \<Rightarrow> capture_kind option" where
  "capture_kind_from_db s =
     (if s = ''ask'' then Some Ask else if s = ''idea'' then Some Idea
      else if s = ''brainstorm'' then Some Brainstorm else None)"

definition horizon_from_db :: "string \<Rightarrow> horizon option" where
  "horizon_from_db s =
     (if s = ''now'' then Some Now else if s = ''next'' then Some Next
      else if s = ''later'' then Some Later else None)"

datatype event_actor = ActUser | ActPm | ActDrainer | ActSweep

datatype event_kind =
    EkCreated | EkProposed | EkAccepted | EkEdited | EkQueued | EkUnqueued | EkDispatched | EkPrOpened
  | EkRunFailed | EkRunCanceled | EkRunDeleted | EkShipped | EkPrClosed | EkBlocked | EkHeld | EkReleased
  | EkRejected | EkReopened | EkNote

record triage =
  tr_brief :: "string option"
  tr_questions :: "string list"
  tr_mined :: bool

section \<open>Items\<close>

record roadmap_item =
  it_id :: string
  it_project_id :: string
  it_code :: string
  it_title :: string
  it_why :: string
  it_horizon :: horizon
  it_status :: item_status
  it_rank :: rat
  it_area :: "string option"
  it_source :: item_source
  it_accept :: "string list"
  it_deps :: "string list"
  it_agent_id :: "string option"
  it_workflow_def_id :: "string option"
  it_run_id :: "string option"
  it_pr_url :: "string option"
  it_pr_number :: "int option"
  it_hold_reason :: "string option"
  it_held_by :: "event_actor option"
  it_held_at :: "int option"
  it_close_reason :: "string option"
  it_issue_url :: "string option"
  it_kind :: "capture_kind option"
  it_triage :: "triage option"
  it_from_item :: "string option"
  it_created_at :: int
  it_updated_at :: int

definition is_held :: "roadmap_item \<Rightarrow> bool" where
  "is_held i \<longleftrightarrow> it_hold_reason i \<noteq> None"

record new_item =
  ni_title :: string
  ni_why :: string
  ni_horizon :: "horizon option"
  ni_status :: "item_status option"
  ni_area :: "string option"
  ni_source :: "item_source option"
  ni_accept :: "string list"
  ni_deps :: "string list"
  ni_workflow_def_id :: "string option"
  ni_issue_url :: "string option"
  ni_from_item :: "string option"

definition new_item_default :: new_item where
  "new_item_default =
     \<lparr>ni_title = [], ni_why = [], ni_horizon = None, ni_status = None, ni_area = None, ni_source = None,
      ni_accept = [], ni_deps = [], ni_workflow_def_id = None, ni_issue_url = None, ni_from_item = None\<rparr>"

record item_patch =
  pt_title :: "string option"
  pt_why :: "string option"
  pt_horizon :: "horizon option"
  pt_status :: "item_status option"
  pt_source :: "item_source option"
  pt_rank :: "rat option"
  pt_accept :: "string list option"
  pt_deps :: "string list option"
  pt_area :: "string option option"
  pt_agent_id :: "string option option"
  pt_workflow_def_id :: "string option option"
  pt_run_id :: "string option option"
  pt_pr_url :: "string option option"
  pt_pr_number :: "int option option"

definition item_patch_default :: item_patch where
  "item_patch_default =
     \<lparr>pt_title = None, pt_why = None, pt_horizon = None, pt_status = None, pt_source = None,
      pt_rank = None, pt_accept = None, pt_deps = None, pt_area = None, pt_agent_id = None,
      pt_workflow_def_id = None, pt_run_id = None, pt_pr_url = None, pt_pr_number = None\<rparr>"

record item_update =
  iu_applied :: bool
  iu_item :: roadmap_item

record item_discard =
  id_applied :: bool
  id_item :: "roadmap_item option"

section \<open>History, asks and holds\<close>

record item_event =
  ev_id :: string
  ev_item_id :: string
  ev_project_id :: string
  ev_actor :: event_actor
  ev_kind :: event_kind
  ev_detail :: "string option"
  ev_created_at :: int

datatype proposal_kind = PkUpdate | PkDiscard

record proposal_patch =
  pp_title :: "string option"
  pp_why :: "string option"
  pp_horizon :: "horizon option"
  pp_area :: "string option option"
  pp_accept :: "string list option"
  pp_deps :: "string list option"

definition patch_is_empty :: "proposal_patch \<Rightarrow> bool" where
  "patch_is_empty p \<longleftrightarrow>
     pp_title p = None \<and> pp_why p = None \<and> pp_horizon p = None \<and> pp_area p = None \<and>
     pp_accept p = None \<and> pp_deps p = None"

definition patch_fields :: "proposal_patch \<Rightarrow> string list" where
  "patch_fields p =
     (if pp_title p \<noteq> None then [''title''] else []) @
     (if pp_why p \<noteq> None then [''why''] else []) @
     (if pp_horizon p \<noteq> None then [''horizon''] else []) @
     (if pp_area p \<noteq> None then [''area''] else []) @
     (if pp_accept p \<noteq> None then [''accept''] else []) @
     (if pp_deps p \<noteq> None then [''deps''] else [])"

definition to_item_patch :: "proposal_patch \<Rightarrow> item_patch" where
  "to_item_patch p =
     item_patch_default
       \<lparr>pt_title := pp_title p, pt_why := pp_why p, pt_horizon := pp_horizon p, pt_area := pp_area p,
        pt_accept := pp_accept p, pt_deps := pp_deps p\<rparr>"

record proposal =
  pr_id :: string
  pr_item_id :: string
  pr_project_id :: string
  pr_kind :: proposal_kind
  pr_patch :: "proposal_patch option"
  pr_note :: "string option"
  pr_created_at :: int

record order_proposal =
  op_project_id :: string
  op_codes :: "string list"
  op_note :: "string option"
  op_created_at :: int

record project_hold =
  ph_project_id :: string
  ph_reason :: string
  ph_held_by :: event_actor
  ph_created_at :: int

end
