(* ===== verification/Roadmap_Store.thy ===== *)
theory Roadmap_Store
  imports Roadmap_Types
begin

text \<open>
  The roadmap's tables and their statements (\<open>roadmap/store.rs\<close>, \<open>events.rs\<close>, \<open>proposals.rs\<close>,
  \<open>order_proposals.rs\<close>, \<open>brakes.rs\<close>). A table is the list of its rows in \<open>rowid\<close> order; an
  \<open>UPDATE ... WHERE\<close> maps over it, an \<open>INSERT\<close> appends, and deleting an item takes its events and
  its pending ask with it (\<open>ON DELETE CASCADE\<close>). The database is assumed to answer: its I/O errors
  are not modelled, and a statement that fails leaves the tables as they were.
\<close>

section \<open>State and environment\<close>

record board_db =
  bd_items :: "roadmap_item list"
  bd_events :: "item_event list"
  bd_holds :: "project_hold list"
  bd_proposals :: "proposal list"
  bd_orders :: "order_proposal list"
  bd_settings :: "string \<times> string \<Rightarrow> string option"
  bd_drawn :: nat

text \<open>
  What an operation reads from outside: the clock, the stream of fresh uuids (\<open>bd_drawn\<close> counts
  the ones used), the Unicode tables, and the names of projects and workspaces.
\<close>

record env =
  en_now :: int
  en_uuid :: "nat \<Rightarrow> string"
  en_unicode :: unicode
  en_project :: "string \<Rightarrow> string option"
  en_workspace :: "string \<Rightarrow> string option"

section \<open>Reading\<close>

definition store_list :: "board_db \<Rightarrow> string \<Rightarrow> roadmap_item list" where
  "store_list db project =
     sort_key (\<lambda>i. (it_rank i, it_created_at i)) (filter (\<lambda>i. it_project_id i = project) (bd_items db))"

definition store_get :: "board_db \<Rightarrow> string \<Rightarrow> roadmap_item option" where
  "store_get db i = List.find (\<lambda>r. it_id r = i) (bd_items db)"

definition missing :: "string \<Rightarrow> string" where
  "missing i = ''roadmap item '' @ i @ '' no longer exists''"

definition store_require :: "board_db \<Rightarrow> string \<Rightarrow> string + roadmap_item" where
  "store_require db i = (case store_get db i of Some r \<Rightarrow> Inr r | None \<Rightarrow> Inl (missing i))"

section \<open>Codes and ranks\<close>

definition i64_max :: int where "i64_max = 2 ^ 63 - 1"

definition prefix_key :: string where "prefix_key = ''roadmap.code_prefix''"
definition seq_key :: string where "seq_key = ''roadmap.code_seq''"
definition first_number :: int where "first_number = 100"
definition fallback_prefix :: string where "fallback_prefix = ''PRJ''"

text \<open>\<open>str::parse::<i64>\<close>: an optional sign, at least one digit, in range.\<close>

definition parse_i64 :: "string \<Rightarrow> int option" where
  "parse_i64 s =
     (let (neg, ds) = (case s of
            c # cs \<Rightarrow> if c = CHR ''-'' then (True, cs) else if c = CHR ''+'' then (False, cs) else (False, s)
          | [] \<Rightarrow> (False, []));
          v = int (digits_value 0 ds);
          n = (if neg then - v else v)
      in if ds \<noteq> [] \<and> list_all is_ascii_digit ds \<and> - i64_max - 1 \<le> n \<and> n \<le> i64_max
         then Some n else None)"

definition code_number :: "string \<Rightarrow> int option" where
  "code_number code = parse_i64 (last (split_by (\<lambda>c. c = ''-'') code))"

definition derive_prefix :: "string \<Rightarrow> string" where
  "derive_prefix name =
     (let words = filter (\<lambda>w. w \<noteq> []) (split_by (\<lambda>c. \<not> list_all is_ascii_alphanumeric c) name);
          candidate =
            (if length words \<ge> 2 then map hd (take 4 words)
             else (case words of w # _ \<Rightarrow> take 3 w | [] \<Rightarrow> []));
          candidate = to_ascii_uppercase candidate
      in if length candidate \<ge> 2 then candidate else fallback_prefix)"

definition set_setting :: "string \<Rightarrow> string \<Rightarrow> string \<Rightarrow> board_db \<Rightarrow> board_db" where
  "set_setting project key value db =
     db\<lparr>bd_settings := (bd_settings db)((project, key) \<mapsto> value)\<rparr>"

definition code_prefix :: "env \<Rightarrow> string \<Rightarrow> board_db \<Rightarrow> string \<times> board_db" where
  "code_prefix E project db =
     (case bd_settings db (project, prefix_key) of
        Some p \<Rightarrow>
          if trim p \<noteq> [] then (p, db)
          else (let d = derive_prefix (case en_project E project of Some n \<Rightarrow> n | None \<Rightarrow> [])
                in (d, set_setting project prefix_key d db))
      | None \<Rightarrow>
          (let d = derive_prefix (case en_project E project of Some n \<Rightarrow> n | None \<Rightarrow> [])
           in (d, set_setting project prefix_key d db)))"

definition next_number :: "board_db \<Rightarrow> string \<Rightarrow> int" where
  "next_number db project =
     (let stored = Option.bind (bd_settings db (project, seq_key)) (\<lambda>v. parse_i64 (trim v));
          numbers = List.map_filter (\<lambda>i. code_number (it_code i))
                      (filter (\<lambda>i. it_project_id i = project) (bd_items db));
          highest = (if numbers = [] then first_number - 1 else fold max (tl numbers) (hd numbers))
      in max (case stored of Some n \<Rightarrow> n | None \<Rightarrow> first_number) (highest + 1))"

text \<open>A number is allocated after the prefix; it is never negative.\<close>

definition next_code :: "env \<Rightarrow> string \<Rightarrow> board_db \<Rightarrow> string \<times> board_db" where
  "next_code E project db =
     (let (prefix, db) = code_prefix E project db;
          number = next_number db project
      in (prefix @ ''-'' @ show_nat (nat number),
          set_setting project seq_key (show_nat (nat (number + 1))) db))"

definition next_rank :: "board_db \<Rightarrow> string \<Rightarrow> rat" where
  "next_rank db project =
     (case map it_rank (filter (\<lambda>i. it_project_id i = project) (bd_items db)) of
        [] \<Rightarrow> 0
      | r # rs \<Rightarrow> fold max rs r) + 1"

section \<open>Writing items\<close>

definition draw_uuid :: "env \<Rightarrow> board_db \<Rightarrow> string \<times> board_db" where
  "draw_uuid E db = (en_uuid E (bd_drawn db), db\<lparr>bd_drawn := Suc (bd_drawn db)\<rparr>)"

definition new_row :: "env \<Rightarrow> string \<Rightarrow> new_item \<Rightarrow> string \<Rightarrow> string \<Rightarrow> rat \<Rightarrow> roadmap_item" where
  "new_row E project new i code rank =
     \<lparr>it_id = i, it_project_id = project, it_code = code, it_title = ni_title new, it_why = ni_why new,
      it_horizon = (case ni_horizon new of Some h \<Rightarrow> h | None \<Rightarrow> Later),
      it_status = (case ni_status new of Some s \<Rightarrow> s | None \<Rightarrow> Open),
      it_rank = rank, it_area = ni_area new,
      it_source = (case ni_source new of Some s \<Rightarrow> s | None \<Rightarrow> SrcUser),
      it_accept = ni_accept new, it_deps = ni_deps new, it_agent_id = None,
      it_workflow_def_id = ni_workflow_def_id new, it_run_id = None, it_pr_url = None,
      it_pr_number = None, it_hold_reason = None, it_held_by = None, it_held_at = None,
      it_close_reason = None, it_issue_url = ni_issue_url new, it_kind = None, it_triage = None,
      it_from_item = ni_from_item new, it_created_at = en_now E, it_updated_at = en_now E\<rparr>"

definition store_create :: "env \<Rightarrow> string \<Rightarrow> new_item \<Rightarrow> board_db \<Rightarrow> roadmap_item \<times> board_db" where
  "store_create E project new db =
     (let (i, db) = draw_uuid E db;
          (code, db) = next_code E project db;
          row = new_row E project new i code (next_rank db project)
      in (row, db\<lparr>bd_items := bd_items db @ [row]\<rparr>))"

definition update_rows :: "(roadmap_item \<Rightarrow> bool) \<Rightarrow> (roadmap_item \<Rightarrow> roadmap_item) \<Rightarrow> board_db \<Rightarrow> board_db" where
  "update_rows P f db = db\<lparr>bd_items := map (\<lambda>r. if P r then f r else r) (bd_items db)\<rparr>"

definition set_triage ::
  "env \<Rightarrow> string \<Rightarrow> capture_kind \<Rightarrow> triage option \<Rightarrow> board_db \<Rightarrow> roadmap_item option \<times> board_db" where
  "set_triage E i kind tr db =
     (let db = update_rows (\<lambda>r. it_id r = i)
                 (\<lambda>r. r\<lparr>it_kind := Some kind, it_triage := tr, it_updated_at := en_now E\<rparr>) db
      in (store_get db i, db))"

definition patched :: "'a option \<Rightarrow> 'a \<Rightarrow> 'a" where
  "patched p old = (case p of Some v \<Rightarrow> v | None \<Rightarrow> old)"

definition apply_patch :: "item_patch \<Rightarrow> int \<Rightarrow> roadmap_item \<Rightarrow> roadmap_item" where
  "apply_patch p now r =
     r\<lparr>it_title := patched (pt_title p) (it_title r),
       it_why := patched (pt_why p) (it_why r),
       it_horizon := patched (pt_horizon p) (it_horizon r),
       it_status := patched (pt_status p) (it_status r),
       it_source := patched (pt_source p) (it_source r),
       it_rank := patched (pt_rank p) (it_rank r),
       it_accept := patched (pt_accept p) (it_accept r),
       it_deps := patched (pt_deps p) (it_deps r),
       it_area := patched (pt_area p) (it_area r),
       it_agent_id := patched (pt_agent_id p) (it_agent_id r),
       it_workflow_def_id := patched (pt_workflow_def_id p) (it_workflow_def_id r),
       it_run_id := patched (pt_run_id p) (it_run_id r),
       it_pr_url := patched (pt_pr_url p) (it_pr_url r),
       it_pr_number := patched (pt_pr_number p) (it_pr_number r),
       it_updated_at := now\<rparr>"

definition item_patch_empty :: "item_patch \<Rightarrow> bool" where
  "item_patch_empty p \<longleftrightarrow> p = item_patch_default"

text \<open>\<open>apply\<close>, behind \<open>update\<close> and \<open>update_where_status\<close>.\<close>

definition store_apply ::
  "env \<Rightarrow> string \<Rightarrow> item_patch \<Rightarrow> item_status option \<Rightarrow> board_db \<Rightarrow> roadmap_item option \<times> board_db" where
  "store_apply E i p expected db =
     (let matches = (\<lambda>r. it_id r = i \<and> (case expected of Some s \<Rightarrow> it_status r = s | None \<Rightarrow> True))
      in if item_patch_empty p
         then ((case store_get db i of
                  Some r \<Rightarrow> (case expected of Some s \<Rightarrow> if it_status r = s then Some r else None | None \<Rightarrow> Some r)
                | None \<Rightarrow> None), db)
         else if expected \<noteq> None \<and> \<not> (\<exists>r \<in> set (bd_items db). matches r) then (None, db)
         else (let db = update_rows matches (apply_patch p (en_now E)) db in (store_get db i, db)))"

definition store_update :: "env \<Rightarrow> string \<Rightarrow> item_patch \<Rightarrow> board_db \<Rightarrow> roadmap_item option \<times> board_db" where
  "store_update E i p db = store_apply E i p None db"

definition update_where_status ::
  "env \<Rightarrow> string \<Rightarrow> item_status \<Rightarrow> item_patch \<Rightarrow> board_db \<Rightarrow> roadmap_item option \<times> board_db" where
  "update_where_status E i expected p db = store_apply E i p (Some expected) db"

text \<open>The history and the asks of a deleted row go with it, and a row that came from it forgets that (\<open>ON DELETE SET NULL\<close>).\<close>

definition forget_origin :: "string \<Rightarrow> roadmap_item \<Rightarrow> roadmap_item" where
  "forget_origin i r = (if it_from_item r = Some i then r\<lparr>it_from_item := None\<rparr> else r)"

definition store_delete :: "string \<Rightarrow> board_db \<Rightarrow> bool \<times> board_db" where
  "store_delete i db =
     (\<exists>r \<in> set (bd_items db). it_id r = i,
      db\<lparr>bd_items := map (forget_origin i) (filter (\<lambda>r. it_id r \<noteq> i) (bd_items db)),
         bd_events := filter (\<lambda>e. ev_item_id e \<noteq> i) (bd_events db),
         bd_proposals := filter (\<lambda>p. pr_item_id p \<noteq> i) (bd_proposals db)\<rparr>)"

definition store_reject :: "env \<Rightarrow> string \<Rightarrow> string \<Rightarrow> board_db \<Rightarrow> roadmap_item option \<times> board_db" where
  "store_reject E i reason db =
     (let db = update_rows (\<lambda>r. it_id r = i)
                 (\<lambda>r. r\<lparr>it_status := Rejected, it_close_reason := Some reason, it_hold_reason := None,
                        it_held_by := None, it_held_at := None, it_agent_id := None,
                        it_updated_at := en_now E\<rparr>) db
      in (store_get db i, db))"

definition store_reopen :: "env \<Rightarrow> string \<Rightarrow> board_db \<Rightarrow> roadmap_item option \<times> board_db" where
  "store_reopen E i db =
     (if \<not> (\<exists>r \<in> set (bd_items db). it_id r = i \<and> it_status r = Rejected) then (None, db)
      else
        (let db = update_rows (\<lambda>r. it_id r = i \<and> it_status r = Rejected)
                    (\<lambda>r. r\<lparr>it_status := Open, it_close_reason := None, it_hold_reason := None,
                           it_held_by := None, it_held_at := None, it_updated_at := en_now E\<rparr>) db
         in (store_get db i, db)))"

text \<open>\<open>set_ranks\<close>: the \<open>n\<close>-th id gets rank \<open>n + 1\<close>, one statement per id.\<close>

fun set_ranks_loop :: "env \<Rightarrow> nat \<Rightarrow> string list \<Rightarrow> board_db \<Rightarrow> roadmap_item list \<times> board_db" where
  "set_ranks_loop E n [] db = ([], db)"
| "set_ranks_loop E n (i # is) db =
     (let db = update_rows (\<lambda>r. it_id r = i) (\<lambda>r. r\<lparr>it_rank := of_nat (n + 1), it_updated_at := en_now E\<rparr>) db;
          row = store_get db i;
          (rows, db) = set_ranks_loop E (Suc n) is db
      in (case row of Some r \<Rightarrow> r # rows | None \<Rightarrow> rows, db))"

definition set_ranks :: "env \<Rightarrow> string list \<Rightarrow> board_db \<Rightarrow> roadmap_item list \<times> board_db" where
  "set_ranks E ids db = set_ranks_loop E 0 ids db"

section \<open>History\<close>

definition record_event ::
  "env \<Rightarrow> string \<Rightarrow> string \<Rightarrow> event_actor \<Rightarrow> event_kind \<Rightarrow> string option \<Rightarrow> board_db \<Rightarrow> item_event \<times> board_db" where
  "record_event E item project actor kind detail db =
     (let (i, db) = draw_uuid E db;
          e = \<lparr>ev_id = i, ev_item_id = item, ev_project_id = project, ev_actor = actor, ev_kind = kind,
               ev_detail = detail, ev_created_at = en_now E\<rparr>
      in (e, db\<lparr>bd_events := bd_events db @ [e]\<rparr>))"

text \<open>\<open>ORDER BY created_at DESC, rowid DESC\<close>: the stable ascending order, read backwards.\<close>

definition events_for_item :: "board_db \<Rightarrow> string \<Rightarrow> item_event list" where
  "events_for_item db item =
     rev (sort_key ev_created_at (filter (\<lambda>e. ev_item_id e = item) (bd_events db)))"

definition latest_for_item :: "board_db \<Rightarrow> string \<Rightarrow> item_event option" where
  "latest_for_item db item = (case events_for_item db item of e # _ \<Rightarrow> Some e | [] \<Rightarrow> None)"

definition transition_kind :: "item_status option \<Rightarrow> item_status option \<Rightarrow> event_kind" where
  "transition_kind expected to =
     (if expected = Some Proposed \<and> to = Some Open then EkAccepted
      else if expected = Some Open \<and> to = Some Queued then EkQueued
      else if expected = Some Queued \<and> to = Some Open then EkUnqueued
      else if expected = Some InReview \<and> to = Some Done then EkShipped
      else EkEdited)"

section \<open>Asks and holds\<close>

definition proposal_get :: "board_db \<Rightarrow> string \<Rightarrow> proposal option" where
  "proposal_get db i = List.find (\<lambda>p. pr_id p = i) (bd_proposals db)"

definition proposal_for_item :: "board_db \<Rightarrow> string \<Rightarrow> proposal option" where
  "proposal_for_item db item = List.find (\<lambda>p. pr_item_id p = item) (bd_proposals db)"

definition proposal_delete :: "string \<Rightarrow> board_db \<Rightarrow> board_db" where
  "proposal_delete i db = db\<lparr>bd_proposals := filter (\<lambda>p. pr_id p \<noteq> i) (bd_proposals db)\<rparr>"

text \<open>One pending ask per item: a newer one replaces it under the same id.\<close>

definition proposal_upsert ::
  "env \<Rightarrow> string \<Rightarrow> string \<Rightarrow> proposal_kind \<Rightarrow> proposal_patch option \<Rightarrow> string option \<Rightarrow> board_db \<Rightarrow> board_db" where
  "proposal_upsert E project item kind p note db =
     (let (i, db) = draw_uuid E db
      in if proposal_for_item db item = None
         then db\<lparr>bd_proposals := bd_proposals db @
                   [\<lparr>pr_id = i, pr_item_id = item, pr_project_id = project, pr_kind = kind, pr_patch = p,
                     pr_note = note, pr_created_at = en_now E\<rparr>]\<rparr>
         else db\<lparr>bd_proposals := map (\<lambda>q. if pr_item_id q = item
                   then q\<lparr>pr_kind := kind, pr_patch := p, pr_note := note, pr_created_at := en_now E\<rparr>
                   else q) (bd_proposals db)\<rparr>)"

definition order_get :: "board_db \<Rightarrow> string \<Rightarrow> order_proposal option" where
  "order_get db project = List.find (\<lambda>o'. op_project_id o' = project) (bd_orders db)"

definition order_delete :: "string \<Rightarrow> board_db \<Rightarrow> board_db" where
  "order_delete project db = db\<lparr>bd_orders := filter (\<lambda>o'. op_project_id o' \<noteq> project) (bd_orders db)\<rparr>"

definition order_upsert :: "env \<Rightarrow> string \<Rightarrow> string list \<Rightarrow> string option \<Rightarrow> board_db \<Rightarrow> board_db" where
  "order_upsert E project codes note db =
     (let row = \<lparr>op_project_id = project, op_codes = codes, op_note = note, op_created_at = en_now E\<rparr>
      in if order_get db project = None then db\<lparr>bd_orders := bd_orders db @ [row]\<rparr>
         else db\<lparr>bd_orders := map (\<lambda>o'. if op_project_id o' = project then row else o') (bd_orders db)\<rparr>)"

definition hold_get :: "board_db \<Rightarrow> string \<Rightarrow> project_hold option" where
  "hold_get db project = List.find (\<lambda>h. ph_project_id h = project) (bd_holds db)"

definition hold_project :: "env \<Rightarrow> string \<Rightarrow> string \<Rightarrow> event_actor \<Rightarrow> board_db \<Rightarrow> project_hold \<times> board_db" where
  "hold_project E project reason by db =
     (let row = \<lparr>ph_project_id = project, ph_reason = reason, ph_held_by = by, ph_created_at = en_now E\<rparr>
      in (row,
          if hold_get db project = None then db\<lparr>bd_holds := bd_holds db @ [row]\<rparr>
          else db\<lparr>bd_holds := map (\<lambda>h. if ph_project_id h = project then row else h) (bd_holds db)\<rparr>))"

definition release_project :: "string \<Rightarrow> board_db \<Rightarrow> bool \<times> board_db" where
  "release_project project db =
     (hold_get db project \<noteq> None,
      db\<lparr>bd_holds := filter (\<lambda>h. ph_project_id h \<noteq> project) (bd_holds db)\<rparr>)"

definition hold_item :: "env \<Rightarrow> string \<Rightarrow> string \<Rightarrow> event_actor \<Rightarrow> board_db \<Rightarrow> roadmap_item option \<times> board_db" where
  "hold_item E i reason by db =
     (let db = update_rows (\<lambda>r. it_id r = i)
                 (\<lambda>r. r\<lparr>it_hold_reason := Some reason, it_held_by := Some by, it_held_at := Some (en_now E),
                        it_updated_at := en_now E\<rparr>) db
      in (store_get db i, db))"

text \<open>\<open>release_item\<close>: the row and the reason that was lifted, if any.\<close>

definition release_item ::
  "env \<Rightarrow> string \<Rightarrow> board_db \<Rightarrow> (roadmap_item \<times> string option) option \<times> board_db" where
  "release_item E i db =
     (case store_get db i of
        None \<Rightarrow> (None, db)
      | Some current \<Rightarrow>
          (case it_hold_reason current of
             None \<Rightarrow> (Some (current, None), db)
           | Some lifted \<Rightarrow>
               (let db = update_rows (\<lambda>r. it_id r = i)
                           (\<lambda>r. r\<lparr>it_hold_reason := None, it_held_by := None, it_held_at := None,
                                  it_updated_at := en_now E\<rparr>) db
                in (map_option (\<lambda>row. (row, Some lifted)) (store_get db i), db))))"

end
