(* ===== verification/Roadmap_Deps.thy ===== *)
theory Roadmap_Deps
  imports Roadmap_Types
begin

text \<open>
  The roadmap's dependency rules (\<open>crates/fletch-core/src/roadmap/deps.rs\<close>): the depth-first
  search for a loop, the checks an edit and a batch of new tickets pass before they are written,
  and the rewriting of a batch's own references once its rows exist
  (\<open>rpc/roadmap/intake.rs\<close>). The lemmas show that the search is exact and that an accepted
  write keeps the board free of loops, so that nothing on it waits on itself.
\<close>

section \<open>The board\<close>

text \<open>A \<open>BTreeMap\<close> is its list of entries in key order.\<close>

type_synonym dep_graph = "(string \<times> string list) list"

definition graph_of :: "roadmap_item list \<Rightarrow> dep_graph" where
  "graph_of items = foldl (\<lambda>g i. btree_insert (it_code i) (it_deps i) g) [] items"

definition rejected_of :: "roadmap_item list \<Rightarrow> string set" where
  "rejected_of items = set (map it_code (filter (\<lambda>i. it_status i = Rejected) items))"

section \<open>The search for a loop\<close>

text \<open>
  \<open>walk\<close> and its \<open>for dep in deps\<close> loop. The path is popped on every return without a loop, so it
  is an argument; the settled set is threaded through.
\<close>

function walk :: "dep_graph \<Rightarrow> string \<Rightarrow> string list \<Rightarrow> string set \<Rightarrow> string list option \<times> string set"
  and walk_deps :: "dep_graph \<Rightarrow> string list \<Rightarrow> string list \<Rightarrow> string set \<Rightarrow> string list option \<times> string set"
where
  "walk g code path settled =
     (case position code path of
        Some from \<Rightarrow> (Some (drop from path @ [code]), settled)
      | None \<Rightarrow>
          if code \<in> settled then (None, settled)
          else
            (case map_of g code of
               None \<Rightarrow> (None, insert code settled)
             | Some deps \<Rightarrow>
                 (case walk_deps g deps (path @ [code]) settled of
                    (Some cycle, settled') \<Rightarrow> (Some cycle, settled')
                  | (None, settled') \<Rightarrow> (None, insert code settled'))))"
| "walk_deps g [] path settled = (None, settled)"
| "walk_deps g (dep # deps) path settled =
     (case walk g dep path settled of
        (Some cycle, settled') \<Rightarrow> (Some cycle, settled')
      | (None, settled') \<Rightarrow> walk_deps g deps path settled')"
  by pat_completeness auto

text \<open>Each descent puts one more of the graph's codes on the path.\<close>

lemma path_grows:
  assumes "position code path = None" and "map_of g code = Some deps"
  shows "card (fst ` set g - set (path @ [code])) < card (fst ` set g - set path)"
proof (rule psubset_card_mono)
  have "code \<in> fst ` set g - set path"
    using assms by (auto simp: position_None intro: rev_image_eqI dest: map_of_SomeD)
  then show "fst ` set g - set (path @ [code]) \<subset> fst ` set g - set path" by auto
qed simp

termination walk
proof (relation "inv_image (less_than <*lex*> less_than)
    (\<lambda>x. case x of Inl (g, _, path, _) \<Rightarrow> (card (fst ` set g - set path), 0)
                  | Inr (g, deps, path, _) \<Rightarrow> (card (fst ` set g - set path), Suc (length deps)))")
qed (auto dest: path_grows)

declare walk.simps [simp del]

definition find_cycle :: "dep_graph \<Rightarrow> string \<Rightarrow> string list option" where
  "find_cycle g start = fst (walk g start [] {})"

section \<open>Refusals\<close>

definition loop_path :: "string list \<Rightarrow> string" where
  "loop_path cycle = join ('' '' @ right_arrow @ '' '') cycle"

definition loop_message :: "string \<Rightarrow> string list \<Rightarrow> string" where
  "loop_message code cycle =
     (let path = loop_path cycle
      in if (case cycle of first # _ \<Rightarrow> first = code | [] \<Rightarrow> False)
         then code @ '' can't depend on '' @ (if length cycle > 1 then cycle ! 1 else code) @
              '': that closes a dependency loop '' @ em_dash @ '' '' @ path @
              ''. Nothing in a loop is ever built, because each item waits on the next.''
         else code @ '' would wait on a dependency loop '' @ em_dash @ '' '' @ path @
              ''. Nothing in a loop is ever built, so that chain has to be broken first.'')"

definition rejected_code :: "string \<Rightarrow> string" where
  "rejected_code dep =
     dep @ '' was rejected '' @ em_dash @ '' remove it or reopen it first; a rejected item never satisfies a '' @
     ''dependency, so anything waiting on it would sit wedged''"

definition listed_codes :: nat where "listed_codes = 12"

definition unknown_code :: "unicode \<Rightarrow> string \<Rightarrow> dep_graph \<Rightarrow> string \<Rightarrow> string" where
  "unknown_code U dep g batch_note =
     (if g = []
      then in_ticks ''deps'' @ '' names '' @ debug_fmt U dep @ '', and this board has no items to depend on yet''
      else
        (let codes = map fst g;
             extra = length codes - listed_codes;
             listed = join '', '' (take listed_codes codes) @
               (if extra > 0 then '', and '' @ show_nat extra @ '' more'' else [])
         in in_ticks ''deps'' @ '' names '' @ debug_fmt U dep @ '', which is not an item on this board'' @
            batch_note @ '' '' @ em_dash @ '' the codes on it are '' @ listed))"

fun check_codes ::
  "unicode \<Rightarrow> dep_graph \<Rightarrow> string set \<Rightarrow> string option \<Rightarrow> string list \<Rightarrow> string \<Rightarrow> string + unit" where
  "check_codes U g rejected code [] batch_note = Inr ()"
| "check_codes U g rejected code (d # ds) batch_note =
     (if code = Some d then Inl (d @ '' cannot depend on itself'')
      else if map_of g d = None then Inl (unknown_code U d g batch_note)
      else if d \<in> rejected then Inl (rejected_code d)
      else check_codes U g rejected code ds batch_note)"

section \<open>New rows and edits\<close>

definition validate_new :: "unicode \<Rightarrow> dep_graph \<Rightarrow> string set \<Rightarrow> string list \<Rightarrow> string + unit" where
  "validate_new U g rejected deps = check_codes U g rejected None deps []"

definition validate_edit ::
  "unicode \<Rightarrow> dep_graph \<Rightarrow> string set \<Rightarrow> string \<Rightarrow> string list \<Rightarrow> string + unit" where
  "validate_edit U g rejected code deps =
     (case check_codes U g rejected (Some code) deps [] of
        Inl e \<Rightarrow> Inl e
      | Inr _ \<Rightarrow>
          (case find_cycle (btree_insert code deps g) code of
             Some cycle \<Rightarrow> Inl (loop_message code cycle)
           | None \<Rightarrow> Inr ()))"

text \<open>\<open>check_edit\<close>, given what \<open>store::list\<close> reads of the item's project.\<close>

definition check_edit :: "unicode \<Rightarrow> roadmap_item list \<Rightarrow> roadmap_item \<Rightarrow> string list \<Rightarrow> string + unit" where
  "check_edit U board i new_deps =
     (if it_deps i = new_deps then Inr ()
      else validate_edit U (graph_of board) (rejected_of board) (it_code i) new_deps)"

section \<open>Batches\<close>

definition batch_prefix :: char where "batch_prefix = CHR ''#''"

definition placeholder :: "nat \<Rightarrow> string" where
  "placeholder i = batch_prefix # show_nat (i + 1)"

definition batch_index :: "string \<Rightarrow> nat \<Rightarrow> nat option" where
  "batch_index dep batch_len =
     (case Option.bind (strip_prefix [batch_prefix] dep) (\<lambda>rest. parse_usize (trim rest)) of
        Some n \<Rightarrow> if 1 \<le> n \<and> n \<le> batch_len then Some (n - 1) else None
      | None \<Rightarrow> None)"

record batch_refusal =
  br_at :: nat
  br_message :: string

definition batch_note :: string where
  "batch_note = '', and not a '' @ dquote @ ''#n'' @ dquote @ '' reference to an item in this batch''"

text \<open>The inner loop of \<open>validate_batch\<close>, over the dependencies of item \<open>n\<close>.\<close>

fun check_batch_deps ::
  "unicode \<Rightarrow> dep_graph \<Rightarrow> string set \<Rightarrow> nat \<Rightarrow> nat \<Rightarrow> string list \<Rightarrow> batch_refusal + unit" where
  "check_batch_deps U g rejected len n [] = Inr ()"
| "check_batch_deps U g rejected len n (d # ds) =
     (let refuse = (\<lambda>msg. Inl \<lparr>br_at = n, br_message = msg\<rparr>)
      in if prefix [batch_prefix] d
         then (case batch_index d len of
                 None \<Rightarrow> refuse (in_ticks ''deps'' @ '' names '' @ debug_fmt U d @
                   '', which is not an item in this batch '' @ em_dash @ '' a batch reference is '' @
                   dquote @ ''#1'' @ dquote @ '' to '' @ dquote @ ''#'' @ show_nat len @ dquote @
                   '', counting the items in the order you sent them'')
               | Some p \<Rightarrow>
                   if p = n
                   then refuse (d @ '' is this item '' @ em_dash @ '' an item cannot depend on itself'')
                   else check_batch_deps U g rejected len n ds)
         else if map_of g d = None then refuse (unknown_code U d g batch_note)
         else if d \<in> rejected then refuse (rejected_code d)
         else check_batch_deps U g rejected len n ds)"

fun merge_batch ::
  "unicode \<Rightarrow> dep_graph \<Rightarrow> string set \<Rightarrow> nat \<Rightarrow> nat \<Rightarrow> string list list \<Rightarrow> dep_graph \<Rightarrow> batch_refusal + dep_graph"
where
  "merge_batch U g rejected len n [] merged = Inr merged"
| "merge_batch U g rejected len n (deps # batch) merged =
     (case check_batch_deps U g rejected len n deps of
        Inl e \<Rightarrow> Inl e
      | Inr _ \<Rightarrow> merge_batch U g rejected len (Suc n) batch (btree_insert (placeholder n) deps merged))"

fun batch_cycles :: "dep_graph \<Rightarrow> nat list \<Rightarrow> batch_refusal + unit" where
  "batch_cycles merged [] = Inr ()"
| "batch_cycles merged (n # ns) =
     (case find_cycle merged (placeholder n) of
        Some cycle \<Rightarrow> Inl \<lparr>br_at = n, br_message = loop_message (placeholder n) cycle\<rparr>
      | None \<Rightarrow> batch_cycles merged ns)"

definition validate_batch ::
  "unicode \<Rightarrow> dep_graph \<Rightarrow> string set \<Rightarrow> string list list \<Rightarrow> batch_refusal + unit" where
  "validate_batch U g rejected batch =
     (case merge_batch U g rejected (length batch) 0 batch g of
        Inl e \<Rightarrow> Inl e
      | Inr merged \<Rightarrow> batch_cycles merged [0..<length batch])"

text \<open>What the proposal writes once every row has a code (\<open>rpc/roadmap/intake.rs\<close>).\<close>

definition clean_list :: "string list \<Rightarrow> string list" where
  "clean_list v = filter (\<lambda>s. s \<noteq> []) (map trim v)"

definition resolve_batch_deps :: "string list \<Rightarrow> string list \<Rightarrow> string list" where
  "resolve_batch_deps raw created =
     map (\<lambda>d. case batch_index d (length created) of Some i \<Rightarrow> created ! i | None \<Rightarrow> d) raw"

text \<open>The second pass of \<open>create_proposed\<close> touches only the rows that name a batch reference.\<close>

definition stored_deps :: "string list \<Rightarrow> string list \<Rightarrow> string list" where
  "stored_deps raw created =
     (if \<exists>d \<in> set raw. prefix [batch_prefix] d then resolve_batch_deps raw created else raw)"

definition board_after :: "dep_graph \<Rightarrow> string list list \<Rightarrow> string list \<Rightarrow> dep_graph" where
  "board_after g batch created =
     foldl (\<lambda>m (code, raw). btree_insert code (stored_deps raw created) m) g (zip created batch)"

section \<open>The search is exact\<close>

text \<open>One item waits directly on another; a loop; and the boards no item of which waits on itself.\<close>

definition dep_edge :: "dep_graph \<Rightarrow> string \<Rightarrow> string \<Rightarrow> bool" where
  "dep_edge g a b \<longleftrightarrow> (\<exists>deps. map_of g a = Some deps \<and> b \<in> set deps)"

definition is_loop :: "dep_graph \<Rightarrow> string list \<Rightarrow> bool" where
  "is_loop g c \<longleftrightarrow>
     length c \<ge> 2 \<and> hd c = last c \<and> distinct (butlast c) \<and> successively (dep_edge g) c"

definition waits_on_itself :: "dep_graph \<Rightarrow> string \<Rightarrow> bool" where
  "waits_on_itself g v \<longleftrightarrow> (dep_edge g)\<^sup>+\<^sup>+ v v"

definition acyclic_board :: "dep_graph \<Rightarrow> bool" where
  "acyclic_board g \<longleftrightarrow> (\<forall>v. \<not> waits_on_itself g v)"

text \<open>What the settled codes are: closed under dependencies, and none of them on a loop.\<close>

definition settled_ok :: "dep_graph \<Rightarrow> string set \<Rightarrow> bool" where
  "settled_ok g S \<longleftrightarrow>
     (\<forall>a b. a \<in> S \<longrightarrow> dep_edge g a b \<longrightarrow> b \<in> S) \<and> (\<forall>a \<in> S. \<not> waits_on_itself g a)"

lemma settled_reach: "(dep_edge g)\<^sup>*\<^sup>* a b \<Longrightarrow> settled_ok g S \<Longrightarrow> a \<in> S \<Longrightarrow> b \<in> S"
  by (induction rule: rtranclp_induct) (auto simp: settled_ok_def)

lemma settled_insert:
  assumes "settled_ok g S" and "\<And>b. dep_edge g a b \<Longrightarrow> b \<in> S"
  shows "settled_ok g (insert a S)"
proof (cases "a \<in> S")
  case True
  with assms(1) show ?thesis by (simp add: insert_absorb)
next
  case False
  have "\<not> waits_on_itself g a"
  proof
    assume "waits_on_itself g a"
    then obtain b where "dep_edge g a b" "(dep_edge g)\<^sup>*\<^sup>* b a"
      unfolding waits_on_itself_def by (meson tranclpD)
    with assms settled_reach False show False by blast
  qed
  with assms show ?thesis unfolding settled_ok_def by blast
qed

lemma walk_None:
  "walk g code path S = (None, S') \<Longrightarrow> settled_ok g S \<Longrightarrow> settled_ok g S' \<and> insert code S \<subseteq> S'"
  "walk_deps g deps path S = (None, S') \<Longrightarrow> settled_ok g S \<Longrightarrow> settled_ok g S' \<and> set deps \<union> S \<subseteq> S'"
proof (induction g code path S and g deps path S arbitrary: S' and S' rule: walk_walk_deps.induct)
  case (1 g code path S)
  have new: "position code path = None"
    using "1.prems"(1) by (auto simp: walk.simps [of g code] split: option.splits)
  show ?case
  proof (cases "code \<in> S")
    case True
    with "1.prems" new show ?thesis by (simp add: walk.simps [of g code])
  next
    case False
    show ?thesis
    proof (cases "map_of g code")
      case None
      with "1.prems" new False have "S' = insert code S" by (simp add: walk.simps [of g code])
      moreover have "settled_ok g (insert code S)"
        using None by (intro settled_insert [OF "1.prems"(2)]) (simp add: dep_edge_def)
      ultimately show ?thesis by simp
    next
      case (Some deps)
      with "1.prems" new False obtain T where
        T: "walk_deps g deps (path @ [code]) S = (None, T)" "S' = insert code T"
        by (auto simp: walk.simps [of g code] split: prod.splits option.splits)
      from "1.IH" [OF new False Some T(1) "1.prems"(2)]
      have ok: "settled_ok g T" "set deps \<union> S \<subseteq> T" by simp_all
      have "settled_ok g (insert code T)"
        using ok Some by (intro settled_insert) (auto simp: dep_edge_def)
      with ok T show ?thesis by auto
    qed
  qed
next
  case (2 g path S)
  then show ?case by simp
next
  case (3 g dep deps path S)
  from "3.prems"(1) obtain T where T: "walk g dep path S = (None, T)" "walk_deps g deps path T = (None, S')"
    by (auto split: prod.splits option.splits)
  from "3.IH"(1) [OF T(1) "3.prems"(2)] have "settled_ok g T" "insert dep S \<subseteq> T" by simp_all
  with "3.IH"(2) [OF T(1) [symmetric] refl T(2)] show ?case by auto
qed

text \<open>The path is a chain of dependencies; a hit on it closes a loop.\<close>

lemma path_loop:
  assumes "position code path = Some from" and "distinct path" and "successively (dep_edge g) (path @ [code])"
  shows "is_loop g (drop from path @ [code]) \<and> (dep_edge g)\<^sup>*\<^sup>* (hd path) code \<and>
    (hd path \<in> set (drop from path @ [code]) \<longrightarrow> hd path = code)"
proof -
  from position_Some [OF assms(1)] have pos: "from < length path" "path ! from = code" by simp_all
  then have ne: "drop from path \<noteq> []" "hd (drop from path) = code" by (simp_all add: hd_drop_conv_nth)
  have "path @ [code] = take from path @ (drop from path @ [code])" by simp
  then have "successively (dep_edge g) (drop from path @ [code])"
    using assms(3) by (metis successively_append_iff)
  moreover have "distinct (drop from path)" using assms(2) by simp
  moreover have "length (drop from path) \<ge> 1" using pos by simp
  ultimately have "is_loop g (drop from path @ [code])"
    using ne by (simp add: is_loop_def)
  moreover have "(dep_edge g)\<^sup>*\<^sup>* (path ! 0) (path ! i)" if "i < length path" for i
    using that
  proof (induction i)
    case (Suc i)
    then have "dep_edge g (path ! i) (path ! Suc i)"
      using assms(3) by (auto simp: successively_conv_nth nth_append dest!: spec [of _ i])
    with Suc show ?case by (simp add: rtranclp.rtrancl_into_rtrancl)
  qed simp
  ultimately have reach: "is_loop g (drop from path @ [code])" "(dep_edge g)\<^sup>*\<^sup>* (hd path) code"
    using pos by (metis hd_conv_nth list.size(3) not_less_zero)+
  have "hd path = code" if "hd path \<in> set (drop from path @ [code])"
  proof (cases "from")
    case 0
    with ne show ?thesis by simp
  next
    case (Suc n)
    then have "hd path \<in> set (take from path)" using pos by (cases path) auto
    with that set_take_disj_set_drop_if_distinct [OF assms(2), of "from" "from"] ne show ?thesis
      by (auto dest: in_set_takeD)
  qed
  with reach show ?thesis by blast
qed

lemma walk_Some:
  "walk g code path S = (Some c, S') \<Longrightarrow> distinct path \<Longrightarrow> successively (dep_edge g) (path @ [code]) \<Longrightarrow>
     is_loop g c \<and> (dep_edge g)\<^sup>*\<^sup>* (hd (path @ [code])) (hd c) \<and>
     (hd (path @ [code]) \<in> set c \<longrightarrow> hd (path @ [code]) = hd c)"
  "walk_deps g deps path S = (Some c, S') \<Longrightarrow> distinct path \<Longrightarrow> path \<noteq> [] \<Longrightarrow>
     successively (dep_edge g) path \<Longrightarrow> (\<And>d. d \<in> set deps \<Longrightarrow> dep_edge g (last path) d) \<Longrightarrow>
     is_loop g c \<and> (dep_edge g)\<^sup>*\<^sup>* (hd path) (hd c) \<and> (hd path \<in> set c \<longrightarrow> hd path = hd c)"
proof (induction g code path S and g deps path S arbitrary: S' and S' rule: walk_walk_deps.induct)
  case (1 g code path S)
  show ?case
  proof (cases "position code path")
    case (Some i)
    with "1.prems"(1) have "c = drop i path @ [code]" by (simp add: walk.simps [of g code])
    moreover from position_Some [OF Some] have "path \<noteq> []" "hd (drop i path @ [code]) = code"
      by (auto simp: hd_append hd_drop_conv_nth)
    ultimately show ?thesis using path_loop [OF Some "1.prems"(2,3)] by simp
  next
    case None
    with "1.prems"(1) obtain deps where deps: "code \<notin> S" "map_of g code = Some deps"
      "walk_deps g deps (path @ [code]) S = (Some c, S')"
      by (auto simp: walk.simps [of g code] split: if_splits option.splits prod.splits)
    have "distinct (path @ [code])" using "1.prems"(2) None by (simp add: position_None)
    then show ?thesis
      by (rule "1.IH" [OF None deps]) (use "1.prems"(3) deps(2) in \<open>auto simp: dep_edge_def\<close>)
  qed
next
  case (2 g path S)
  then show ?case by simp
next
  case (3 g dep deps path S)
  show ?case
  proof (cases "fst (walk g dep path S)")
    case None
    then obtain T where T: "walk g dep path S = (None, T)" by (cases "walk g dep path S") auto
    with "3.prems"(1) have "walk_deps g deps path T = (Some c, S')" by simp
    from "3.IH"(2) [OF T [symmetric] refl this "3.prems"(2-4)] "3.prems"(5) show ?thesis by simp
  next
    case (Some c')
    then obtain T where T: "walk g dep path S = (Some c', T)" by (cases "walk g dep path S") auto
    with "3.prems"(1) have "walk g dep path S = (Some c, S')" by simp
    from "3.IH"(1) [OF this "3.prems"(2)] "3.prems"(3-5) show ?thesis
      by (simp add: successively_append_iff)
  qed
qed

lemma loop_waits: "is_loop g c \<Longrightarrow> waits_on_itself g (hd c)"
proof -
  assume loop: "is_loop g c"
  then obtain x y r where c: "c = x # y # r" by (cases c; cases "tl c") (auto simp: is_loop_def)
  have walks: "successively (dep_edge g) (y # r) \<Longrightarrow> (dep_edge g)\<^sup>*\<^sup>* y (last (y # r))" for y r
    by (induction r arbitrary: y) (auto intro: converse_rtranclp_into_rtranclp)
  have "successively (dep_edge g) (x # y # r)" and same: "hd c = last (y # r)"
    using loop unfolding is_loop_def by (auto simp: c)
  then have "dep_edge g (hd c) y" "successively (dep_edge g) (y # r)" by (simp_all add: c)
  with walks same show ?thesis unfolding waits_on_itself_def by (metis rtranclp_into_tranclp2)
qed

lemma find_cycle_None: "find_cycle g start = None \<longleftrightarrow> \<not> (\<exists>v. (dep_edge g)\<^sup>*\<^sup>* start v \<and> waits_on_itself g v)"
proof
  assume "find_cycle g start = None"
  then obtain S where "walk g start [] {} = (None, S)"
    by (cases "walk g start [] {}") (auto simp: find_cycle_def)
  from walk_None(1) [OF this] have S: "settled_ok g S" "start \<in> S" by (simp_all add: settled_ok_def)
  with settled_reach show "\<not> (\<exists>v. (dep_edge g)\<^sup>*\<^sup>* start v \<and> waits_on_itself g v)"
    unfolding settled_ok_def by (metis settled_reach S)
next
  assume none: "\<not> (\<exists>v. (dep_edge g)\<^sup>*\<^sup>* start v \<and> waits_on_itself g v)"
  show "find_cycle g start = None"
  proof (rule ccontr)
    assume "find_cycle g start \<noteq> None"
    then obtain c S where "walk g start [] {} = (Some c, S)"
      by (cases "walk g start [] {}") (auto simp: find_cycle_def)
    from walk_Some(1) [OF this] loop_waits none show False by auto
  qed
qed

lemma find_cycle_Some:
  "find_cycle g start = Some c \<Longrightarrow>
     is_loop g c \<and> (dep_edge g)\<^sup>*\<^sup>* start (hd c) \<and> (start \<in> set c \<longrightarrow> start = hd c)"
  using walk_Some(1) [of g start "[]" "{}" c]
  by (cases "walk g start [] {}") (auto simp: find_cycle_def)

text \<open>
  Claim C8. The search for a dependency loop is exact: it reports none exactly when nothing the item
  waits on, directly or through others, waits on itself; and what it reports is a loop of direct
  dependencies, each code once before it closes, that the item waits on.
\<close>

theorem find_cycle_correct:
  "(find_cycle g start = None \<longleftrightarrow> \<not> (\<exists>v. (dep_edge g)\<^sup>*\<^sup>* start v \<and> waits_on_itself g v)) \<and>
   (\<forall>c. find_cycle g start = Some c \<longrightarrow> is_loop g c \<and> (dep_edge g)\<^sup>*\<^sup>* start (hd c))"
  using find_cycle_None find_cycle_Some by blast

section \<open>Accepted writes keep the board free of loops\<close>

lemma dep_edge_insert: "dep_edge (btree_insert code deps g) a b \<longleftrightarrow> (if a = code then b \<in> set deps else dep_edge g a b)"
  by (simp add: dep_edge_def)

text \<open>A write that only adds dependencies out of \<open>K\<close>, none of which then waits on a loop.\<close>

lemma acyclic_extend:
  assumes "acyclic_board g" and "\<And>a b. dep_edge g' a b \<Longrightarrow> a \<notin> K \<Longrightarrow> dep_edge g a b"
    and "\<And>k. k \<in> K \<Longrightarrow> find_cycle g' k = None"
  shows "acyclic_board g'"
proof -
  have split: "(dep_edge g)\<^sup>+\<^sup>+ v w \<or> (\<exists>k \<in> K. (dep_edge g')\<^sup>*\<^sup>* v k \<and> (dep_edge g')\<^sup>+\<^sup>+ k w)"
    if "(dep_edge g')\<^sup>+\<^sup>+ v w" for v w
    using that
  proof (induction rule: tranclp_induct)
    case (base y)
    with assms(2) [OF base] show ?case by blast
  next
    case (step y z)
    show ?case
    proof (cases "y \<in> K")
      case True
      with step.hyps show ?thesis by (meson tranclp.r_into_trancl tranclp_into_rtranclp)
    next
      case False
      with step assms(2) show ?thesis by (meson tranclp.trancl_into_trancl)
    qed
  qed
  have "\<not> waits_on_itself g' v" for v
  proof
    assume v: "waits_on_itself g' v"
    with split [of v v] assms(1) obtain k where k: "k \<in> K" "(dep_edge g')\<^sup>+\<^sup>+ k v"
      by (auto simp: waits_on_itself_def acyclic_board_def)
    with v assms(3) show False by (auto simp: find_cycle_None dest: tranclp_into_rtranclp)
  qed
  then show ?thesis by (simp add: acyclic_board_def)
qed

lemma check_codes_ok:
  "check_codes U g rejected code deps note = Inr () \<longleftrightarrow>
     (\<forall>d \<in> set deps. code \<noteq> Some d \<and> map_of g d \<noteq> None \<and> d \<notin> rejected)"
  by (induction deps) auto

lemma validate_edit_ok:
  "validate_edit U g rejected code deps = Inr () \<longleftrightarrow>
     (\<forall>d \<in> set deps. d \<noteq> code \<and> map_of g d \<noteq> None \<and> d \<notin> rejected) \<and>
     find_cycle (btree_insert code deps g) code = None"
  using check_codes_ok [of U g rejected "Some code" deps "[]"]
  by (auto simp: validate_edit_def split: sum.splits option.splits)

lemma edit_acyclic:
  "acyclic_board g \<Longrightarrow> find_cycle (btree_insert code deps g) code = None \<Longrightarrow>
   acyclic_board (btree_insert code deps g)"
  by (rule acyclic_extend [where K = "{code}"]) (auto simp: dep_edge_insert)

text \<open>The loop a refused edit closes on a board without loops runs through the edited item.\<close>

lemma edit_loop_here:
  assumes "acyclic_board g" and "find_cycle (btree_insert code deps g) code = Some c"
  shows "\<exists>d r. c = code # d # r \<and> d \<in> set deps"
proof -
  let ?g = "btree_insert code deps g"
  from find_cycle_Some [OF assms(2)] have c: "is_loop ?g c" "code \<in> set c \<Longrightarrow> code = hd c" by simp_all
  have "code \<in> set c"
  proof (rule ccontr)
    assume "code \<notin> set c"
    then have "successively (dep_edge g) c"
      using c(1) by (auto simp: is_loop_def dep_edge_insert elim!: successively_mono split: if_splits)
    with c(1) have "is_loop g c" by (simp add: is_loop_def)
    with loop_waits assms(1) show False by (auto simp: acyclic_board_def)
  qed
  with c obtain d r where "c = code # d # r"
    by (cases c; cases "tl c") (auto simp: is_loop_def)
  with c(1) show ?thesis by (simp add: is_loop_def dep_edge_insert)
qed

text \<open>
  Claim C17. An edit of a dependency list is accepted exactly when every code is another item of the board
  that was not rejected and the item then waits on no loop. A board without loops stays without
  loops; there, an edit refused for anything but one of its codes is refused for closing a loop
  through the edited item itself, and the message says so and names the dependency at fault.
\<close>

theorem validate_edit_keeps_acyclic:
  "(validate_edit U g rejected code deps = Inr () \<longleftrightarrow>
     (\<forall>d \<in> set deps. d \<noteq> code \<and> map_of g d \<noteq> None \<and> d \<notin> rejected) \<and>
     \<not> (\<exists>v. (dep_edge (btree_insert code deps g))\<^sup>*\<^sup>* code v \<and> waits_on_itself (btree_insert code deps g) v)) \<and>
   (acyclic_board g \<longrightarrow> validate_edit U g rejected code deps = Inr () \<longrightarrow>
     acyclic_board (btree_insert code deps g)) \<and>
   (acyclic_board g \<longrightarrow> (\<forall>d \<in> set deps. d \<noteq> code \<and> map_of g d \<noteq> None \<and> d \<notin> rejected) \<longrightarrow>
     (\<forall>e. validate_edit U g rejected code deps = Inl e \<longrightarrow>
       (\<exists>d \<in> set deps. prefix (code @ '' can't depend on '' @ d @ '': that closes a dependency loop '') e)))"
proof (intro conjI impI allI)
  fix e
  assume acyclic: "acyclic_board g"
    and codes: "\<forall>d \<in> set deps. d \<noteq> code \<and> map_of g d \<noteq> None \<and> d \<notin> rejected"
    and e: "validate_edit U g rejected code deps = Inl e"
  have "check_codes U g rejected (Some code) deps [] = Inr ()" using codes by (auto simp: check_codes_ok)
  with e obtain c where c: "find_cycle (btree_insert code deps g) code = Some c" "e = loop_message code c"
    by (auto simp: validate_edit_def split: option.splits)
  from edit_loop_here [OF acyclic c(1)] obtain d r where d: "c = code # d # r" "d \<in> set deps" by blast
  then have "prefix (code @ '' can't depend on '' @ d @ '': that closes a dependency loop '') e"
    unfolding c(2) by (simp add: loop_message_def Let_def)
  with d(2) show "\<exists>d \<in> set deps. prefix (code @ '' can't depend on '' @ d @ '': that closes a dependency loop '') e"
    by blast
qed (use edit_acyclic validate_edit_ok find_cycle_None in \<open>metis (no_types, lifting)\<close>)+

section \<open>Batches\<close>

lemma placeholder_inj [simp]: "placeholder i = placeholder j \<longleftrightarrow> i = j"
  by (simp add: placeholder_def)

lemma batch_index_Some:
  "batch_index d len = Some j \<Longrightarrow> j < len \<and> prefix [batch_prefix] d"
  by (auto simp: batch_index_def bind_eq_Some_conv strip_prefix_def split: option.splits if_splits)

text \<open>A batch's own references read back as the positions they were written for.\<close>

lemma batch_index_placeholder:
  assumes "i < len" and "len \<le> usize_max"
  shows "batch_index (placeholder i) len = Some i"
proof -
  have "strip_prefix [batch_prefix] (placeholder i) = Some (show_nat (i + 1))"
    by (simp add: strip_prefix_Some placeholder_def)
  moreover have "parse_usize (trim (show_nat (i + 1))) = Some (i + 1)"
    using assms by (simp add: trim_digits [OF show_nat_digits] parse_show_nat)
  ultimately show ?thesis using assms(1) by (simp add: batch_index_def)
qed

lemma check_batch_deps_ok:
  "check_batch_deps U g rejected len n deps = Inr () \<longleftrightarrow>
     (\<forall>d \<in> set deps.
        if prefix [batch_prefix] d then \<exists>p. batch_index d len = Some p \<and> p \<noteq> n
        else map_of g d \<noteq> None \<and> d \<notin> rejected)"
  by (induction deps) (auto simp: Let_def split: option.splits)

lemma merge_batch_ok:
  "merge_batch U g rejected len n batch merged = Inr m \<Longrightarrow>
   (\<forall>k < length batch. check_batch_deps U g rejected len (n + k) (batch ! k) = Inr ()) \<and>
   m = foldl (\<lambda>m (k, v). btree_insert k v m) merged (zip (map placeholder [n..<n + length batch]) batch)"
proof (induction batch arbitrary: n merged)
  case (Cons deps batch)
  from Cons.prems have ok: "check_batch_deps U g rejected len n deps = Inr ()"
    "merge_batch U g rejected len (Suc n) batch (btree_insert (placeholder n) deps merged) = Inr m"
    by (auto split: sum.splits)
  have upt: "[n..<n + length (deps # batch)] = n # [Suc n..<Suc n + length batch]"
    by (simp add: upt_rec)
  from Cons.IH [OF ok(2)] ok(1) show ?case
    unfolding upt by (auto simp: nth_Cons split: nat.splits)
qed simp

lemma batch_cycles_ok:
  "batch_cycles merged ns = Inr () \<longleftrightarrow> (\<forall>n \<in> set ns. find_cycle merged (placeholder n) = None)"
  by (induction ns) (auto split: option.splits)

lemma stored_deps_resolved: "stored_deps raw created = resolve_batch_deps raw created"
proof (cases "\<exists>d \<in> set raw. prefix [batch_prefix] d")
  case False
  then have "batch_index d (length created) = None" if "d \<in> set raw" for d
    using that batch_index_Some by (metis not_Some_eq)
  then have "map (\<lambda>d. case batch_index d (length created) of Some i \<Rightarrow> created ! i | None \<Rightarrow> d) raw = raw"
    by (intro map_idI) simp
  with False show ?thesis by (simp add: stored_deps_def resolve_batch_deps_def)
qed (simp add: stored_deps_def)

text \<open>The batch's own graph, and the board with the batch stored on it.\<close>

lemma validate_batch_merged:
  assumes "validate_batch U g rejected batch = Inr ()"
  obtains merged where
    "\<And>k. k < length batch \<Longrightarrow> check_batch_deps U g rejected (length batch) k (batch ! k) = Inr ()"
    "map_of merged = map_of g ++ map_of (zip (map placeholder [0..<length batch]) batch)"
    "\<And>n. n < length batch \<Longrightarrow> find_cycle merged (placeholder n) = None"
proof -
  from assms obtain merged where m: "merge_batch U g rejected (length batch) 0 batch g = Inr merged"
    "batch_cycles merged [0..<length batch] = Inr ()"
    by (auto simp: validate_batch_def split: sum.splits)
  have "distinct (map placeholder [0..<length batch])" by (simp add: distinct_map inj_on_def)
  then have "map_of merged = map_of g ++ map_of (zip (map placeholder [0..<length batch]) batch)"
    using merge_batch_ok [OF m(1)] by (simp add: map_of_btree_inserts)
  moreover have "check_batch_deps U g rejected (length batch) k (batch ! k) = Inr ()" if "k < length batch" for k
    using merge_batch_ok [OF m(1)] that by simp
  moreover have "find_cycle merged (placeholder n) = None" if "n < length batch" for n
    using m(2) that by (simp add: batch_cycles_ok)
  ultimately show ?thesis using that by blast
qed

lemma board_after_map:
  assumes "distinct created" and "length created = length batch"
  shows "map_of (board_after g batch created) =
    map_of g ++ map_of (zip created (map (\<lambda>raw. resolve_batch_deps raw created) batch))"
proof -
  define kvs where "kvs = map (\<lambda>(k, v). (k, stored_deps v created)) (zip created batch)"
  have "foldl (\<lambda>m (code, raw). btree_insert code (stored_deps raw created) m) g ps =
      foldl (\<lambda>m (k, v). btree_insert k v m) g (map (\<lambda>(k, v). (k, stored_deps v created)) ps)" for ps
    by (induction ps arbitrary: g) auto
  then have "board_after g batch created = foldl (\<lambda>m (k, v). btree_insert k v m) g kvs"
    unfolding board_after_def kvs_def by blast
  moreover have "map fst kvs = created"
    using assms(2) by (simp add: kvs_def comp_def case_prod_beta)
  moreover have "kvs = zip created (map (\<lambda>raw. resolve_batch_deps raw created) batch)"
    by (simp add: kvs_def zip_map2 stored_deps_resolved)
  ultimately show ?thesis using assms(1) by (metis map_of_btree_inserts)
qed

text \<open>Under the batch's own names, every dependency of the stored board is one of the merged graph.\<close>

definition batch_name :: "string list \<Rightarrow> string \<Rightarrow> string" where
  "batch_name created code = (case position code created of Some i \<Rightarrow> placeholder i | None \<Rightarrow> code)"

lemma batch_name_created: "distinct created \<Longrightarrow> i < length created \<Longrightarrow> batch_name created (created ! i) = placeholder i"
  by (simp add: batch_name_def position_nth)

lemma batch_name_other: "code \<notin> set created \<Longrightarrow> batch_name created code = code"
  by (simp add: batch_name_def position_None [THEN iffD2])

text \<open>The rows a proposal inserts carry fresh codes, and a code of the board never looks like a reference.\<close>

definition fresh_codes :: "dep_graph \<Rightarrow> string list \<Rightarrow> bool" where
  "fresh_codes g created \<longleftrightarrow>
     distinct created \<and> (\<forall>c \<in> set created. map_of g c = None \<and> (\<forall>a. \<not> dep_edge g a c)) \<and>
     (\<forall>c. map_of g c \<noteq> None \<longrightarrow> \<not> prefix [batch_prefix] c)"

text \<open>Every reference that resolves is spelled the way the message teaches: \<open>#1\<close>, not \<open>#01\<close>.\<close>

definition canonical_refs :: "string list list \<Rightarrow> bool" where
  "canonical_refs batch \<longleftrightarrow>
     (\<forall>raw \<in> set batch. \<forall>d \<in> set raw. \<forall>j. batch_index d (length batch) = Some j \<longrightarrow> d = placeholder j)"

lemma zip_map_of_nth:
  "distinct ks \<Longrightarrow> length ks = length vs \<Longrightarrow>
   map_of (zip ks vs) k = Some v \<longleftrightarrow> (\<exists>i < length ks. k = ks ! i \<and> v = vs ! i)"
  by (auto simp: map_of_zip_is_Some set_zip)

lemma stored_edge_merged:
  assumes ok: "\<And>k. k < length batch \<Longrightarrow> check_batch_deps U g rejected (length batch) k (batch ! k) = Inr ()"
    and merged: "map_of merged = map_of g ++ map_of (zip (map placeholder [0..<length batch]) batch)"
    and fresh: "fresh_codes g created" and len: "length created = length batch"
    and refs: "canonical_refs batch"
    and edge: "dep_edge (board_after g batch created) a b"
  shows "dep_edge merged (batch_name created a) (batch_name created b)"
proof -
  let ?vs = "map (\<lambda>raw. resolve_batch_deps raw created) batch"
  have dist: "distinct created" using fresh by (simp add: fresh_codes_def)
  obtain deps where deps: "(map_of g ++ map_of (zip created ?vs)) a = Some deps" "b \<in> set deps"
    using edge unfolding dep_edge_def board_after_map [OF dist len] by (elim exE conjE) (rule that)
  have phs: "distinct (map placeholder [0..<length batch])" by (simp add: distinct_map inj_on_def)
  show ?thesis
  proof (cases "map_of (zip created ?vs) a")
    case (Some x)
    with deps(1) have x: "x = deps" by simp
    from Some obtain i where i: "i < length created" "a = created ! i" "deps = ?vs ! i"
      using zip_map_of_nth [OF dist, of ?vs a x] len x by auto
    then have deps_i: "deps = resolve_batch_deps (batch ! i) created" using len by simp
    then obtain d where d: "d \<in> set (batch ! i)"
      "b = (case batch_index d (length created) of Some j \<Rightarrow> created ! j | None \<Rightarrow> d)"
      using deps(2) by (auto simp: resolve_batch_deps_def)
    have "batch_name created b = d"
    proof (cases "batch_index d (length created)")
      case None
      then have "map_of g d \<noteq> None"
        using ok [of i] i(1) d(1) len by (auto simp: check_batch_deps_ok split: if_splits)
      with fresh have "d \<notin> set created" by (auto simp: fresh_codes_def)
      with None d(2) show ?thesis by (simp add: batch_name_other)
    next
      case (Some j)
      have "batch ! i \<in> set batch" using i(1) len by simp
      with refs d(1) Some len have "d = placeholder j" by (simp add: canonical_refs_def)
      with Some d(2) batch_index_Some [OF Some] show ?thesis by (simp add: batch_name_created dist)
    qed
    moreover have "map_of merged (placeholder i) = Some (batch ! i)"
    proof -
      have "map_of (zip (map placeholder [0..<length batch]) batch) (placeholder i) = Some (batch ! i)"
        using zip_map_of_nth [OF phs, of batch "placeholder i" "batch ! i"] i(1) len by auto
      then show ?thesis by (simp add: merged)
    qed
    ultimately show ?thesis using d(1) i by (auto simp: dep_edge_def batch_name_created dist)
  next
    case None
    with deps(1) have g: "map_of g a = Some deps" by (simp add: map_add_def)
    with deps(2) have "dep_edge g a b" by (auto simp: dep_edge_def)
    with fresh g have other: "a \<notin> set created" "b \<notin> set created" by (auto simp: fresh_codes_def)
    have none: "map_of (zip (map placeholder [0..<length batch]) batch) a = None"
    proof (rule ccontr)
      assume "map_of (zip (map placeholder [0..<length batch]) batch) a \<noteq> None"
      then obtain i where "a = placeholder i"
        using zip_map_of_nth [OF phs, of batch a] by auto
      moreover have "\<not> prefix [batch_prefix] a" using fresh g by (auto simp: fresh_codes_def)
      ultimately show False by (simp add: placeholder_def)
    qed
    have "map_of merged a = Some deps" unfolding merged map_add_def none g by simp
    with other deps(2) show ?thesis by (simp add: dep_edge_def batch_name_other)
  qed
qed

lemma merged_acyclic:
  assumes "acyclic_board g" "map_of merged = map_of g ++ map_of (zip (map placeholder [0..<length batch]) batch)"
    "\<And>n. n < length batch \<Longrightarrow> find_cycle merged (placeholder n) = None"
  shows "acyclic_board merged"
proof (rule acyclic_extend [OF assms(1), where K = "placeholder ` {0..<length batch}"])
  fix a b assume "dep_edge merged a b" "a \<notin> placeholder ` {0..<length batch}"
  moreover from this(2) have "map_of (zip (map placeholder [0..<length batch]) batch) a = None"
    by (auto simp: map_of_eq_None_iff dest!: set_zip_leftD)
  ultimately show "dep_edge g a b" by (simp add: dep_edge_def assms(2) map_add_def)
qed (use assms(3) in auto)

lemma stored_batch_acyclic:
  assumes "acyclic_board g" and "validate_batch U g rejected batch = Inr ()"
    and "length created = length batch" and "fresh_codes g created" and "canonical_refs batch"
  shows "acyclic_board (board_after g batch created) \<and>
    (\<forall>raw \<in> set batch. \<forall>d \<in> set (stored_deps raw created).
       d \<in> set created \<or> map_of g d \<noteq> None \<and> d \<notin> rejected)"
proof -
  from validate_batch_merged [OF assms(2)] obtain merged where
    ok: "\<And>k. k < length batch \<Longrightarrow> check_batch_deps U g rejected (length batch) k (batch ! k) = Inr ()"
    and merged: "map_of merged = map_of g ++ map_of (zip (map placeholder [0..<length batch]) batch)"
      "\<And>n. n < length batch \<Longrightarrow> find_cycle merged (placeholder n) = None"
    by blast
  note edge = stored_edge_merged [OF ok merged(1) assms(4,3,5)]
  have "(dep_edge (board_after g batch created))\<^sup>+\<^sup>+ a b \<Longrightarrow>
      (dep_edge merged)\<^sup>+\<^sup>+ (batch_name created a) (batch_name created b)" for a b
    by (induction rule: tranclp_induct)
      (use edge in \<open>blast intro: tranclp.r_into_trancl tranclp.trancl_into_trancl\<close>)+
  with merged_acyclic [OF assms(1) merged] have "acyclic_board (board_after g batch created)"
    by (auto simp: acyclic_board_def waits_on_itself_def)
  moreover have "d \<in> set created \<or> map_of g d \<noteq> None \<and> d \<notin> rejected"
    if "raw \<in> set batch" "d \<in> set (stored_deps raw created)" for raw d
  proof -
    from that(1) obtain k where k: "k < length batch" "raw = batch ! k" by (metis in_set_conv_nth)
    from that(2) obtain r where r: "r \<in> set raw"
      "d = (case batch_index r (length created) of Some i \<Rightarrow> created ! i | None \<Rightarrow> r)"
      by (auto simp: stored_deps_resolved resolve_batch_deps_def)
    show ?thesis
    proof (cases "batch_index r (length created)")
      case None
      have "d = r" using r(2) None by simp
      moreover have "if prefix [batch_prefix] r then \<exists>p. batch_index r (length batch) = Some p \<and> p \<noteq> k
          else map_of g r \<noteq> None \<and> r \<notin> rejected"
        using ok [OF k(1)] r(1) k(2) unfolding check_batch_deps_ok by blast
      ultimately show ?thesis using None assms(3) by (simp split: if_splits)
    next
      case (Some i)
      with r batch_index_Some [OF Some] show ?thesis by simp
    qed
  qed
  ultimately show ?thesis by blast
qed

text \<open>
  Claim C25. An accepted batch keeps the board free of loops once its rows are stored and its references
  rewritten to their codes, and every stored dependency is a row of the batch or a code of the
  board that was not rejected, provided its references are spelled canonically. The new codes
  must be fresh, which the project's counter gives.
\<close>

theorem propose_keeps_acyclic:
  assumes "acyclic_board g" and "validate_batch U g rejected batch = Inr ()"
    and "length created = length batch" and "fresh_codes g created" and "canonical_refs batch"
  shows "acyclic_board (board_after g batch created) \<and>
    (\<forall>raw \<in> set batch. \<forall>d \<in> set (stored_deps raw created).
       d \<in> set created \<or> map_of g d \<noteq> None \<and> d \<notin> rejected)"
  using assms by (rule stored_batch_acyclic)

end
