(* ===== verification/Roadmap_Rules.thy ===== *)
theory Roadmap_Rules
  imports Roadmap_Store Roadmap_Deps
begin

text \<open>
  What the user does to the board (\<open>roadmap/brakes.rs\<close>, \<open>autonomy.rs\<close>, \<open>mutations.rs\<close>,
  \<open>rulings.rs\<close>, \<open>order_proposals.rs\<close>, \<open>assignments.rs\<close> and the deletes of \<open>commands.rs\<close>). An
  operation is a function of the environment and the tables; a refusal is \<open>Inl\<close> of its message
  and leaves the tables as they were.
\<close>

section \<open>Brakes\<close>

definition max_reason :: nat where "max_reason = 300"

datatype reason_kind = Hold | Reject

definition clean_reason_for :: "string \<Rightarrow> reason_kind \<Rightarrow> string + string" where
  "clean_reason_for reason kind =
     (let reason = trim reason; len = char_count reason
      in if reason = []
         then Inl (in_ticks ''reason'' @ '' is required '' @ em_dash @
                (case kind of
                   Hold \<Rightarrow> '' say what has to be agreed before this moves''
                 | Reject \<Rightarrow> '' the rejected row is the decision log, and the reason is the decision''))
         else if len > max_reason
         then Inl (in_ticks ''reason'' @ '' is '' @ show_nat len @ '' characters '' @ em_dash @
                '' keep it under '' @ show_nat max_reason @
                (case kind of
                   Hold \<Rightarrow> ''. Say what has to be agreed; the argument for it belongs in the conversation''
                 | Reject \<Rightarrow> ''. Say the ruling; the argument for it belongs in the conversation''))
         else Inr reason)"

definition clean_reason :: "string \<Rightarrow> string + string" where
  "clean_reason reason = clean_reason_for reason Hold"

definition hold_with_event ::
  "env \<Rightarrow> string \<Rightarrow> string \<Rightarrow> event_actor \<Rightarrow> board_db \<Rightarrow> string + (roadmap_item \<times> item_event) \<times> board_db" where
  "hold_with_event E i reason by db =
     (case hold_item E i reason by db of
        (None, _) \<Rightarrow> Inl (missing i)
      | (Some r, db) \<Rightarrow>
          (let (e, db) = record_event E (it_id r) (it_project_id r) by EkHeld (Some reason) db
           in Inr ((r, e), db)))"

definition release_with_event ::
  "env \<Rightarrow> string \<Rightarrow> board_db \<Rightarrow> string + (roadmap_item \<times> item_event option) \<times> board_db" where
  "release_with_event E i db =
     (case release_item E i db of
        (None, _) \<Rightarrow> Inl (missing i)
      | (Some (r, None), db) \<Rightarrow> Inr ((r, None), db)
      | (Some (r, Some lifted), db) \<Rightarrow>
          (let (e, db) = record_event E (it_id r) (it_project_id r) ActUser EkReleased (Some lifted) db
           in Inr ((r, Some e), db)))"

definition project_gate :: "board_db \<Rightarrow> string \<Rightarrow> string option" where
  "project_gate db project = map_option ph_reason (hold_get db project)"

definition brake_gate :: "board_db \<Rightarrow> roadmap_item \<Rightarrow> string option" where
  "brake_gate db r =
     (case it_hold_reason r of Some reason \<Rightarrow> Some reason | None \<Rightarrow> project_gate db (it_project_id r))"

section \<open>Project dials\<close>

definition project_setting :: "board_db \<Rightarrow> string \<Rightarrow> string \<Rightarrow> string option" where
  "project_setting db project key =
     (case map_option trim (bd_settings db (project, key)) of
        Some s \<Rightarrow> if s = [] then None else Some s
      | None \<Rightarrow> None)"

definition parse_flag :: "string option \<Rightarrow> bool \<Rightarrow> bool" where
  "parse_flag raw dflt =
     (case map_option to_ascii_lowercase raw of
        None \<Rightarrow> dflt
      | Some v \<Rightarrow>
          if v = ''1'' \<or> v = ''true'' \<or> v = ''on'' \<or> v = ''yes'' then True
          else if v = ''0'' \<or> v = ''false'' \<or> v = ''off'' \<or> v = ''no'' then False
          else dflt)"

definition project_flag :: "board_db \<Rightarrow> string \<Rightarrow> string \<Rightarrow> bool \<Rightarrow> bool" where
  "project_flag db project key dflt = parse_flag (project_setting db project key) dflt"

definition autoqueue :: "board_db \<Rightarrow> string \<Rightarrow> bool" where
  "autoqueue db project = project_flag db project ''roadmap.autoqueue'' False"

definition max_concurrent_runs :: nat where "max_concurrent_runs = 1"
definition max_concurrent_ceiling :: nat where "max_concurrent_ceiling = 4"

definition parse_cap :: "string option \<Rightarrow> nat" where
  "parse_cap raw =
     min (case Option.bind raw parse_usize of
            Some n \<Rightarrow> if n \<ge> 1 then n else max_concurrent_runs
          | None \<Rightarrow> max_concurrent_runs) max_concurrent_ceiling"

definition concurrency_cap :: "board_db \<Rightarrow> string \<Rightarrow> nat" where
  "concurrency_cap db project = parse_cap (project_setting db project ''roadmap.max_concurrent'')"

section \<open>Autonomy\<close>

definition is_accept :: "item_status option \<Rightarrow> item_patch \<Rightarrow> bool" where
  "is_accept expect p \<longleftrightarrow> expect = Some Proposed \<and> pt_status p = Some Open"

datatype landing = LandBoard | LandQueue | LandHeldBack

fun landing_status :: "landing \<Rightarrow> item_status" where
  "landing_status LandQueue = Queued"
| "landing_status LandBoard = Open"
| "landing_status LandHeldBack = Open"

fun landing_detail :: "landing \<Rightarrow> string option" where
  "landing_detail LandBoard = None"
| "landing_detail LandQueue = Some ''auto-queued''"
| "landing_detail LandHeldBack = Some (''left off the queue '' @ em_dash @ '' this is held'')"

definition accept_landing :: "bool \<Rightarrow> bool \<Rightarrow> bool \<Rightarrow> landing" where
  "accept_landing queue_requested dial held =
     (if \<not> queue_requested \<and> \<not> dial then LandBoard
      else if held then LandHeldBack
      else LandQueue)"

definition landing_for :: "board_db \<Rightarrow> string \<Rightarrow> bool \<Rightarrow> landing option" where
  "landing_for db i queue =
     map_option
       (\<lambda>r. accept_landing queue (autoqueue db (it_project_id r)) (brake_gate db r \<noteq> None))
       (store_get db i)"

section \<open>Creating and editing\<close>

definition create_checked ::
  "env \<Rightarrow> string \<Rightarrow> new_item \<Rightarrow> board_db \<Rightarrow> string + (roadmap_item \<times> item_event) \<times> board_db" where
  "create_checked E project new db =
     (let board = store_list db project
      in case (if ni_deps new \<noteq> []
               then validate_new (en_unicode E) (graph_of board) (rejected_of board) (ni_deps new)
               else Inr ()) of
           Inl e \<Rightarrow> Inl e
         | Inr _ \<Rightarrow>
             (let (created, db) = store_create E project new db;
                  (e, db) = record_event E (it_id created) project ActUser EkCreated
                              (if it_status created = Captured then Some ''captured'' else None) db
              in Inr ((created, e), db)))"

definition capture_title_max :: nat where "capture_title_max = 120"

definition is_newline :: "string \<Rightarrow> bool" where "is_newline c \<longleftrightarrow> c = nl"

definition captured_item :: "string \<Rightarrow> string + new_item" where
  "captured_item body =
     (let body = trim body;
          cs = utf8_chars body;
          first = trim (concat (takeWhile (\<lambda>c. \<not> is_newline c) cs));
          rest = concat (drop 1 (dropWhile (\<lambda>c. \<not> is_newline c) cs))
      in if first = [] then Inl ''a capture needs some text''
         else
           (let (title, why) =
              (if char_count first > capture_title_max
               then (trim_end_matches is_whitespace (concat (take (capture_title_max - 1) (utf8_chars first))) @
                       ellipsis, body)
               else (first, trim rest))
            in Inr (new_item_default
                 \<lparr>ni_title := title, ni_why := why, ni_horizon := Some Later,
                  ni_status := Some Captured, ni_source := Some SrcUser\<rparr>)))"

definition update_and_record ::
  "env \<Rightarrow> string \<Rightarrow> item_patch \<Rightarrow> item_status option \<Rightarrow> bool \<Rightarrow> board_db \<Rightarrow>
     string + (item_update option \<times> item_event option) \<times> board_db" where
  "update_and_record E i p expect queue db =
     (if pt_status p = Some Rejected
      then Inl (''an item is ruled off the board with roadmap_reject_item, which requires a reason '' @
             em_dash @ '' not a status edit'')
      else
        (case (case (pt_deps p, store_get db i) of
                 (Some new_deps, Some current) \<Rightarrow>
                   check_edit (en_unicode E) (store_list db (it_project_id current)) current new_deps
               | _ \<Rightarrow> Inr ()) of
           Inl e \<Rightarrow> Inl e
         | Inr _ \<Rightarrow>
             (let landing = (if is_accept expect p then landing_for db i queue else None);
                  effective = (case landing of Some l \<Rightarrow> p\<lparr>pt_status := Some (landing_status l)\<rparr> | None \<Rightarrow> p)
              in case (case expect of
                         Some expected \<Rightarrow> update_where_status E i expected effective db
                       | None \<Rightarrow> store_update E i effective db) of
                   (Some r, db) \<Rightarrow>
                     (let (e, db) = record_event E (it_id r) (it_project_id r) ActUser
                                      (transition_kind expect (pt_status p))
                                      (Option.bind landing landing_detail) db
                      in Inr ((Some \<lparr>iu_applied = True, iu_item = r\<rparr>, Some e), db))
                 | (None, db) \<Rightarrow>
                     (case expect of
                        Some _ \<Rightarrow>
                          Inr ((map_option (\<lambda>r. \<lparr>iu_applied = False, iu_item = r\<rparr>) (store_get db i), None), db)
                      | None \<Rightarrow> Inr ((None, None), db)))))"

text \<open>\<open>delete_item\<close>, behind the plain delete and the discard of a proposal.\<close>

definition delete_item :: "string \<Rightarrow> bool \<Rightarrow> board_db \<Rightarrow> item_discard \<times> board_db" where
  "delete_item i only_proposed db =
     (case store_get db i of
        Some r \<Rightarrow>
          if only_proposed \<and> it_status r \<noteq> Proposed then (\<lparr>id_applied = False, id_item = Some r\<rparr>, db)
          else (let (removed, db) = store_delete i db in (\<lparr>id_applied = removed, id_item = None\<rparr>, db))
      | None \<Rightarrow> (let (removed, db) = store_delete i db in (\<lparr>id_applied = removed, id_item = None\<rparr>, db)))"

definition set_rank :: "env \<Rightarrow> string \<Rightarrow> rat \<Rightarrow> board_db \<Rightarrow> string + roadmap_item \<times> board_db" where
  "set_rank E i rank db =
     (case store_update E i (item_patch_default\<lparr>pt_rank := Some rank\<rparr>) db of
        (Some r, db) \<Rightarrow> Inr (r, db)
      | (None, _) \<Rightarrow> Inl (missing i))"

section \<open>Rulings\<close>

definition reject_item ::
  "env \<Rightarrow> string \<Rightarrow> string \<Rightarrow> board_db \<Rightarrow>
     string + (roadmap_item \<times> item_event \<times> proposal option) \<times> board_db" where
  "reject_item E i reason db =
     (case clean_reason_for reason Reject of
        Inl e \<Rightarrow> Inl e
      | Inr reason \<Rightarrow>
          (case store_require db i of
             Inl e \<Rightarrow> Inl e
           | Inr current \<Rightarrow>
               (let code = it_code current
                in if it_status current = Active \<or> it_status current = InReview
                   then Inl (code @ '' is '' @ item_status_as_str (it_status current) @ '' '' @ em_dash @
                     '' an agent is on it; cancel or settle the run before ruling this off the board'')
                   else if it_status current = Done
                   then Inl (code @ '' is done '' @ em_dash @ '' shipped work can't be un-decided'')
                   else if it_status current = Rejected
                   then Inl (code @ '' is already rejected'')
                   else if it_status current = Captured
                   then Inl (code @ '' is still in the inbox '' @ em_dash @
                     '' discard it there; nothing was decided to rule off'')
                   else
                     (let pending = proposal_for_item db i;
                          db = (case pending of Some p \<Rightarrow> proposal_delete (pr_id p) db | None \<Rightarrow> db)
                      in case store_reject E i reason db of
                           (None, _) \<Rightarrow> Inl (missing i)
                         | (Some r, db) \<Rightarrow>
                             (let (e, db) = record_event E (it_id r) (it_project_id r) ActUser EkRejected
                                              (Some reason) db
                              in Inr ((r, e, pending), db))))))"

text \<open>The loop of \<open>correct_wedged_dependants\<close> over the queued dependants of a reopened item.\<close>

definition wedged_on :: "board_db \<Rightarrow> string \<Rightarrow> roadmap_item \<Rightarrow> bool" where
  "wedged_on db code dep \<longleftrightarrow>
     (case latest_for_item db (it_id dep) of
        Some e \<Rightarrow>
          ev_kind e = EkBlocked \<and>
          (case ev_detail e of Some d \<Rightarrow> contains code d \<and> contains ''rejected'' d | None \<Rightarrow> False)
      | None \<Rightarrow> False)"

fun correct_loop ::
  "env \<Rightarrow> string \<Rightarrow> roadmap_item list \<Rightarrow> board_db \<Rightarrow> item_event list \<times> board_db" where
  "correct_loop E code [] db = ([], db)"
| "correct_loop E code (dep # deps) db =
     (if wedged_on db code dep
      then (let (e, db) = record_event E (it_id dep) (it_project_id dep) ActUser EkNote
                  (Some (code @ '' was reopened '' @ em_dash @ '' waiting on it normally again'')) db;
                (es, db) = correct_loop E code deps db
            in (e # es, db))
      else correct_loop E code deps db)"

definition correct_wedged_dependants ::
  "env \<Rightarrow> roadmap_item \<Rightarrow> board_db \<Rightarrow> item_event list \<times> board_db" where
  "correct_wedged_dependants E reopened db =
     correct_loop E (it_code reopened)
       (filter (\<lambda>r. it_status r = Queued \<and> it_code reopened \<in> set (it_deps r))
          (store_list db (it_project_id reopened))) db"

definition reopen_item ::
  "env \<Rightarrow> string \<Rightarrow> board_db \<Rightarrow>
     string + (roadmap_item \<times> item_event option \<times> item_event list) \<times> board_db" where
  "reopen_item E i db =
     (case store_get db i of
        None \<Rightarrow> Inl (missing i)
      | Some current \<Rightarrow>
          (case store_reopen E i db of
             (None, db) \<Rightarrow> Inr ((current, None, []), db)
           | (Some r, db) \<Rightarrow>
               (let detail = (case it_close_reason current of
                                Some reason \<Rightarrow> ''was rejected '' @ em_dash @ '' '' @ reason
                              | None \<Rightarrow> ''was rejected'');
                    (e, db) = record_event E (it_id r) (it_project_id r) ActUser EkReopened (Some detail) db;
                    (notes, db) = correct_wedged_dependants E r db
                in Inr ((r, Some e, notes), db))))"

datatype ruling = Updated roadmap_item item_event | Stale string

definition proposal_gate :: "roadmap_item \<Rightarrow> string + unit" where
  "proposal_gate r =
     (if is_rulable (it_status r) then Inr ()
      else Inl (it_code r @ '' is '' @ item_status_as_str (it_status r) @ '' '' @ em_dash @ '' '' @
        (if it_status r = Done then ''shipped work can't be reshaped by proposal''
         else if it_status r = Rejected
         then ''an item ruled off the board can't be reshaped by proposal '' @ em_dash @ '' reopen it first''
         else ''an item being built or reviewed can't be reshaped by proposal'')))"

definition ruling_detail :: "string \<Rightarrow> string option \<Rightarrow> string" where
  "ruling_detail verb note =
     (case note of
        Some n \<Rightarrow> verb @ '' a PM proposal '' @ em_dash @ '' '' @ n
      | None \<Rightarrow> verb @ '' a PM proposal'')"

definition finish_accept ::
  "env \<Rightarrow> roadmap_item \<Rightarrow> event_kind \<Rightarrow> string \<Rightarrow> string option \<Rightarrow> string \<Rightarrow> board_db \<Rightarrow> ruling \<times> board_db" where
  "finish_accept E r kind verb note proposal_id db =
     (let (e, db) = record_event E (it_id r) (it_project_id r) ActUser kind (Some (ruling_detail verb note)) db
      in (Updated r e, proposal_delete proposal_id db))"

definition gone_target :: string where
  "gone_target = ''the item this proposal targets no longer exists''"

definition already_ruled :: string where
  "already_ruled = ''this proposal has already been ruled on''"

definition accept_proposal :: "env \<Rightarrow> string \<Rightarrow> board_db \<Rightarrow> string + ruling \<times> board_db" where
  "accept_proposal E proposal_id db =
     (case proposal_get db proposal_id of
        None \<Rightarrow> Inl already_ruled
      | Some p \<Rightarrow>
          (case store_get db (pr_item_id p) of
             None \<Rightarrow> Inl gone_target
           | Some r \<Rightarrow>
               (case proposal_gate r of
                  Inl message \<Rightarrow> Inr (Stale message, proposal_delete proposal_id db)
                | Inr _ \<Rightarrow>
                    (case pr_kind p of
                       PkUpdate \<Rightarrow>
                         (case pr_patch p of
                            None \<Rightarrow> Inl ''proposal carries no patch''
                          | Some pp \<Rightarrow>
                              (case (case pp_deps pp of
                                       Some new_deps \<Rightarrow>
                                         check_edit (en_unicode E) (store_list db (it_project_id r)) r new_deps
                                     | None \<Rightarrow> Inr ()) of
                                 Inl why \<Rightarrow>
                                   Inr (Stale (''the board changed since the PM asked '' @ em_dash @ '' '' @ why),
                                        proposal_delete proposal_id db)
                               | Inr _ \<Rightarrow>
                                   (case store_update E (it_id r) (to_item_patch pp) db of
                                      (None, _) \<Rightarrow> Inl gone_target
                                    | (Some updated, db) \<Rightarrow>
                                        Inr (finish_accept E updated EkEdited ''Accepted'' (pr_note p)
                                               proposal_id db))))
                     | PkDiscard \<Rightarrow>
                         (case store_reject E (it_id r)
                                 (case pr_note p of Some n \<Rightarrow> n | None \<Rightarrow> ''discarded at the PM's ask'') db of
                            (None, _) \<Rightarrow> Inl gone_target
                          | (Some rejected, db) \<Rightarrow>
                              Inr (finish_accept E rejected EkRejected ''Rejected'' (pr_note p) proposal_id db))))))"

definition reject_proposal :: "env \<Rightarrow> string \<Rightarrow> board_db \<Rightarrow> string + item_event \<times> board_db" where
  "reject_proposal E proposal_id db =
     (case proposal_get db proposal_id of
        None \<Rightarrow> Inl already_ruled
      | Some p \<Rightarrow>
          Inr (record_event E (pr_item_id p) (pr_project_id p) ActUser EkNote
                 (Some (ruling_detail ''Declined'' (pr_note p))) (proposal_delete proposal_id db)))"

section \<open>Order\<close>

definition is_orderable :: "roadmap_item \<Rightarrow> bool" where
  "is_orderable r \<longleftrightarrow> it_status r = Proposed \<or> it_status r = Open \<or> it_status r = Queued"

definition orderable :: "roadmap_item list \<Rightarrow> roadmap_item list" where
  "orderable items = filter is_orderable items"

text \<open>The lookup by code: of two rows with one code the later wins, as in the \<open>HashMap\<close>.\<close>

definition by_code :: "roadmap_item list \<Rightarrow> string \<Rightarrow> roadmap_item option" where
  "by_code items code = List.find (\<lambda>r. it_code r = code) (rev items)"

record order_scan =
  sc_seen :: "string list"
  sc_ids :: "string list"
  sc_unknown :: "string list"
  sc_closed :: "string list"

fun order_loop :: "roadmap_item list \<Rightarrow> string list \<Rightarrow> order_scan \<Rightarrow> string + order_scan" where
  "order_loop items [] sc = Inr sc"
| "order_loop items (code # codes) sc =
     (if code \<in> set (sc_seen sc)
      then Inl (code @ '' appears twice '' @ em_dash @
             '' list every code exactly once, in the order you want'')
      else
        (let sc = sc\<lparr>sc_seen := code # sc_seen sc\<rparr>
         in order_loop items codes
              (case by_code items code of
                 None \<Rightarrow> sc\<lparr>sc_unknown := sc_unknown sc @ [code]\<rparr>
               | Some r \<Rightarrow>
                   if \<not> is_orderable r
                   then sc\<lparr>sc_closed := sc_closed sc @
                            [it_code r @ '' is '' @ item_status_as_str (it_status r)]\<rparr>
                   else sc\<lparr>sc_ids := sc_ids sc @ [it_id r]\<rparr>)))"

definition validate_order :: "string list \<Rightarrow> roadmap_item list \<Rightarrow> string + string list" where
  "validate_order codes items =
     (let opens = orderable items
      in if codes = []
         then Inl (in_ticks ''codes'' @ '' must list every orderable item on this board, in the order you want '' @
                ''them built '' @ em_dash @ '' that is '' @
                (if opens = [] then ''nothing: no item here is proposed, open, or queued''
                 else join '', '' (map it_code opens)))
         else
           (case order_loop items codes \<lparr>sc_seen = [], sc_ids = [], sc_unknown = [], sc_closed = []\<rparr> of
              Inl e \<Rightarrow> Inl e
            | Inr sc \<Rightarrow>
                if sc_unknown sc \<noteq> []
                then Inl (join '', '' (sc_unknown sc) @ '' is not an item on this board '' @ em_dash @
                       '' order only the codes '' @ in_ticks ''roadmap_list'' @ '' returns'')
                else if sc_closed sc \<noteq> []
                then Inl (join '', '' (sc_closed sc) @ '' '' @ em_dash @
                       '' dispatched, shipped, or rejected items have no place in the queue order; list '' @
                       ''only the proposed, open, and queued ones'')
                else
                  (let absent = filter (\<lambda>r. it_code r \<notin> set (sc_seen sc)) opens
                   in if absent \<noteq> []
                      then Inl (''the order must name every orderable item, and '' @
                             join '', '' (map it_code absent) @ '' '' @
                             (if length absent = 1 then ''is'' else ''are'') @ '' missing '' @ em_dash @
                             '' send the whole sequence, not the part you want moved'')
                      else Inr (sc_ids sc))))"

datatype order_ruling = Applied "roadmap_item list" | StaleOrder string

definition accept_order :: "env \<Rightarrow> string \<Rightarrow> board_db \<Rightarrow> string + order_ruling \<times> board_db" where
  "accept_order E project db =
     (case order_get db project of
        None \<Rightarrow> Inl ''this order proposal has already been ruled on''
      | Some ask \<Rightarrow>
          (case validate_order (op_codes ask) (store_list db project) of
             Inl message \<Rightarrow>
               Inr (StaleOrder (''the board changed since the PM proposed this order '' @ em_dash @ '' '' @ message),
                    order_delete project db)
           | Inr ids \<Rightarrow>
               (let (rows, db) = set_ranks E ids db in Inr (Applied rows, order_delete project db))))"

section \<open>Assignments\<close>

datatype assign_op = HandOff string | Reclaim

definition assign_refusal :: "assign_op \<Rightarrow> roadmap_item \<Rightarrow> string" where
  "assign_refusal op r =
     it_code r @ '' is '' @ item_status_as_str (it_status r) @ '' '' @ em_dash @
     (case op of
        HandOff _ \<Rightarrow>
          '' an item that is queued or already being built can't be handed to an agent; take it '' @
          ''back to the board first''
      | Reclaim \<Rightarrow> '' it's already being built; deal with it from the run'')"

definition assign_detail :: "assign_op \<Rightarrow> string option \<Rightarrow> string" where
  "assign_detail op name =
     (case op of
        HandOff _ \<Rightarrow> (case name of Some n \<Rightarrow> ''Handed to agent '' @ n | None \<Rightarrow> ''Handed to an agent'')
      | Reclaim \<Rightarrow> (case name of Some n \<Rightarrow> ''Taken back from agent '' @ n | None \<Rightarrow> ''Taken back from an agent''))"

definition assign ::
  "env \<Rightarrow> string \<Rightarrow> assign_op \<Rightarrow> board_db \<Rightarrow> string + (roadmap_item \<times> item_event) \<times> board_db" where
  "assign E i op db =
     (case store_require db i of
        Inl e \<Rightarrow> Inl e
      | Inr current \<Rightarrow>
          (case (case op of HandOff a \<Rightarrow> Some a | Reclaim \<Rightarrow> it_agent_id current) of
             None \<Rightarrow> Inl (it_code current @ '' isn't with an agent'')
           | Some lookup \<Rightarrow>
               if \<not> (it_status current = Proposed \<or> it_status current = Open)
               then Inl (assign_refusal op current)
               else
                 (case store_update E i
                         (item_patch_default\<lparr>pt_agent_id := Some (case op of HandOff a \<Rightarrow> Some a | Reclaim \<Rightarrow> None)\<rparr>)
                         db of
                    (None, _) \<Rightarrow> Inl (missing i)
                  | (Some r, db) \<Rightarrow>
                      (let (e, db) = record_event E (it_id r) (it_project_id r) ActUser EkNote
                                       (Some (assign_detail op (en_workspace E lookup))) db
                       in Inr ((r, e), db)))))"

end
