(* ===== verification/Roadmap_Pm.thy ===== *)
theory Roadmap_Pm
  imports Roadmap_Rules
begin

text \<open>
  What the project-manager agent may do to the board (\<open>rpc/roadmap/\<close>: \<open>intake.rs\<close>, \<open>deltas.rs\<close>,
  \<open>ordering.rs\<close>, \<open>notes.rs\<close>, \<open>brakes.rs\<close>, \<open>triage.rs\<close>, \<open>duplicates.rs\<close>, \<open>args.rs\<close>). Arguments are
  taken after their JSON was parsed; the JSON of an answer is left out, an operation returns the
  rows and events it announces.
\<close>

section \<open>Arguments\<close>

record proposed_item =
  pi_title :: string
  pi_why :: string
  pi_horizon :: "string option"
  pi_area :: "string option"
  pi_accept :: "string list"
  pi_deps :: "string list"

record triage_args =
  ta_code :: string
  ta_kind :: string
  ta_ticket :: "proposed_item option"
  ta_brief :: "string option"
  ta_questions :: "string list option"
  ta_candidates :: "proposed_item list option"

definition project_scope :: string where "project_scope = ''project''"

definition clean :: "string option \<Rightarrow> string option" where
  "clean s = (case s of Some t \<Rightarrow> if trim t = [] then None else Some (trim t) | None \<Rightarrow> None)"

definition one_of :: "string list \<Rightarrow> string" where
  "one_of values = join '' | '' values"

section \<open>Near duplicates\<close>

definition stopwords :: "string list" where
  "stopwords = [''a'', ''an'', ''the'', ''of'', ''for'', ''to'', ''in'', ''on'', ''and'']"

definition title_words :: "unicode \<Rightarrow> string \<Rightarrow> string set" where
  "title_words U title =
     set (filter (\<lambda>w. w \<noteq> [] \<and> w \<notin> set stopwords)
       (split_by (\<lambda>c. \<not> is_alphanumeric U c) (to_lower U title)))"

definition similar_titles :: "unicode \<Rightarrow> string \<Rightarrow> string \<Rightarrow> bool" where
  "similar_titles U a b =
     (let wa = title_words U a; wb = title_words U b;
          shared = card (wa \<inter> wb);
          smaller = min (card wa) (card wb)
      in shared \<ge> 2 \<and> 10 * shared \<ge> 6 * smaller)"

definition duplicate_warning :: "unicode \<Rightarrow> nat \<Rightarrow> new_item \<Rightarrow> roadmap_item \<Rightarrow> string" where
  "duplicate_warning U pos new r =
     ''item '' @ show_nat pos @ '' ('' @ debug_fmt U (ni_title new) @ '') is similar to '' @ it_code r @
     (if it_status r = Rejected
      then '', which was REJECTED '' @ em_dash @ '' '' @
             (case it_close_reason r of Some reason \<Rightarrow> reason | None \<Rightarrow> ''no reason recorded'')
      else '' '' @ em_dash @ '' '' @ debug_fmt U (it_title r))"

definition duplicate_warnings :: "unicode \<Rightarrow> new_item list \<Rightarrow> roadmap_item list \<Rightarrow> string list" where
  "duplicate_warnings U news board =
     concat (map (\<lambda>(n, new).
         map (duplicate_warning U (n + 1) new)
           (filter (\<lambda>r. similar_titles U (ni_title new) (it_title r)) board))
       (zip [0..<length news] news))"

section \<open>Proposing tickets\<close>

definition max_batch :: nat where "max_batch = 20"

definition horizon_names :: string where
  "horizon_names = one_of [''now'', ''next'', ''later'']"

text \<open>One ticket of the batch, named by its position counted from one.\<close>

definition validate_ticket :: "unicode \<Rightarrow> nat \<Rightarrow> proposed_item \<Rightarrow> string + new_item" where
  "validate_ticket U pos it =
     (let title = trim (pi_title it);
          name = ''item '' @ show_nat pos @ '' ('' @ debug_fmt U title @ ''): ''
      in if title = [] then Inl (''item '' @ show_nat pos @ '': '' @ in_ticks ''title'' @ '' is required'')
         else
           (case map_option trim (pi_horizon it) of
              None \<Rightarrow> Inl (name @ in_ticks ''horizon'' @ '' is required '' @ em_dash @ '' '' @ horizon_names)
            | Some h \<Rightarrow>
                if h = [] then Inl (name @ in_ticks ''horizon'' @ '' is required '' @ em_dash @ '' '' @ horizon_names)
                else
                  (case horizon_from_db h of
                     None \<Rightarrow> Inl (name @ ''unknown horizon '' @ debug_fmt U h @ '' '' @ em_dash @ '' expected '' @
                       horizon_names)
                   | Some hz \<Rightarrow>
                       Inr (new_item_default
                         \<lparr>ni_title := title, ni_why := trim (pi_why it), ni_horizon := Some hz,
                          ni_status := Some Proposed, ni_area := clean (pi_area it), ni_source := Some SrcPm,
                          ni_accept := clean_list (pi_accept it), ni_deps := clean_list (pi_deps it)\<rparr>))))"

fun validate_tickets :: "unicode \<Rightarrow> nat \<Rightarrow> proposed_item list \<Rightarrow> string + new_item list" where
  "validate_tickets U n [] = Inr []"
| "validate_tickets U n (it # is) =
     (case validate_ticket U (n + 1) it of
        Inl e \<Rightarrow> Inl e
      | Inr new \<Rightarrow>
          (case validate_tickets U (Suc n) is of Inl e \<Rightarrow> Inl e | Inr news \<Rightarrow> Inr (new # news)))"

definition validate :: "unicode \<Rightarrow> proposed_item list \<Rightarrow> roadmap_item list \<Rightarrow> string + new_item list" where
  "validate U items existing =
     (if items = [] then Inl (in_ticks ''items'' @ '' must be a non-empty array of tickets'')
      else if length items > max_batch
      then Inl (show_nat (length items) @ '' items is too many for one proposal (max '' @ show_nat max_batch @
             '') '' @ em_dash @ '' propose the next slice once these are accepted'')
      else
        (case validate_tickets U 0 items of
           Inl e \<Rightarrow> Inl e
         | Inr out \<Rightarrow>
             (case validate_batch U (graph_of existing) (rejected_of existing) (map ni_deps out) of
                Inl r \<Rightarrow> Inl (''item '' @ show_nat (br_at r + 1) @ '' ('' @ debug_fmt U (ni_title (out ! br_at r)) @
                  ''): '' @ br_message r)
              | Inr _ \<Rightarrow> Inr out)))"

fun create_rows ::
  "env \<Rightarrow> string \<Rightarrow> string option \<Rightarrow> new_item list \<Rightarrow> board_db \<Rightarrow>
     (roadmap_item list \<times> item_event list) \<times> board_db" where
  "create_rows E project detail [] db = (([], []), db)"
| "create_rows E project detail (new # news) db =
     (let (row, db) = store_create E project new db;
          (e, db) = record_event E (it_id row) project ActPm EkProposed detail db;
          ((rows, es), db) = create_rows E project detail news db
      in ((row # rows, e # es), db))"

text \<open>
  The second pass: a ticket that names a batch reference has its dependencies rewritten, given
  the codes of all the rows. The result is the rows as announced.
\<close>

fun resolve_rows ::
  "env \<Rightarrow> string list \<Rightarrow> (new_item \<times> roadmap_item) list \<Rightarrow> board_db \<Rightarrow> roadmap_item list \<times> board_db" where
  "resolve_rows E codes [] db = ([], db)"
| "resolve_rows E codes ((new, row) # rest) db =
     (if \<exists>d \<in> set (ni_deps new). prefix [batch_prefix] d
      then
        (let (written, db) = store_update E (it_id row)
               (item_patch_default\<lparr>pt_deps := Some (resolve_batch_deps (ni_deps new) codes)\<rparr>) db;
             (rows, db) = resolve_rows E codes rest db
         in ((case written of Some r \<Rightarrow> r | None \<Rightarrow> row) # rows, db))
      else (let (rows, db) = resolve_rows E codes rest db in (row # rows, db)))"

definition create_proposed ::
  "env \<Rightarrow> string \<Rightarrow> string option \<Rightarrow> new_item list \<Rightarrow> board_db \<Rightarrow>
     (roadmap_item list \<times> item_event list) \<times> board_db" where
  "create_proposed E project detail news db =
     (let ((created, recorded), db) = create_rows E project detail news db;
          (created, db) = resolve_rows E (map it_code created) (zip news created) db
      in ((created, recorded), db))"

definition insert_batch ::
  "env \<Rightarrow> string \<Rightarrow> proposed_item list \<Rightarrow> board_db \<Rightarrow>
     string + (string list \<times> roadmap_item list \<times> item_event list) \<times> board_db" where
  "insert_batch E project items db =
     (let existing = store_list db project
      in case validate (en_unicode E) items existing of
           Inl e \<Rightarrow> Inl e
         | Inr news \<Rightarrow>
             (let warnings = duplicate_warnings (en_unicode E) news existing;
                  ((created, recorded), db) = create_proposed E project None news db
              in Inr ((warnings, created, recorded), db)))"

section \<open>Asks\<close>

definition no_item :: "unicode \<Rightarrow> string \<Rightarrow> string" where
  "no_item U code =
     ''no item '' @ debug_fmt U code @ '' on this board '' @ em_dash @ '' '' @ in_ticks ''roadmap_list'' @
     '' shows what exists''"

definition proposable :: "unicode \<Rightarrow> roadmap_item list \<Rightarrow> string \<Rightarrow> string + roadmap_item" where
  "proposable U items code =
     (case List.find (\<lambda>r. it_code r = code) items of
        None \<Rightarrow> Inl (no_item U code)
      | Some r \<Rightarrow>
          if is_rulable (it_status r) then Inr r
          else Inl (it_code r @ '' is '' @ item_status_as_str (it_status r) @ '' '' @ em_dash @ '' '' @
            (if it_status r = Done then ''shipped work can't be reshaped by proposal''
             else if it_status r = Rejected
             then ''the user ruled it off the board; only the user can reopen it''
             else ''an item being built or reviewed can't be reshaped by proposal'') @
            ''; use the codes '' @ in_ticks ''roadmap_list'' @ '' shows as proposed, open, or queued''))"

definition validate_patch ::
  "unicode \<Rightarrow> proposal_patch \<Rightarrow> roadmap_item \<Rightarrow> roadmap_item list \<Rightarrow> string + proposal_patch" where
  "validate_patch U p r board =
     (if patch_is_empty p
      then Inl (in_ticks ''patch'' @ '' must change at least one field '' @ em_dash @
             '' title | why | horizon | area | accept | deps'')
      else if (case pp_title p of Some t \<Rightarrow> trim t = [] | None \<Rightarrow> False)
      then Inl (in_ticks ''title'' @ '' cannot be blank'')
      else if (case pp_area p of Some (Some a) \<Rightarrow> trim a = [] | _ \<Rightarrow> False)
      then Inl (in_ticks ''area'' @ '' cannot be blank '' @ em_dash @ '' send '' @
             in_ticks (dquote @ ''area'' @ dquote @ '': null'') @ '' to clear it'')
      else
        (let out = p\<lparr>pp_title := map_option trim (pp_title p), pp_why := map_option trim (pp_why p),
                     pp_area := map_option (map_option trim) (pp_area p),
                     pp_accept := map_option clean_list (pp_accept p)\<rparr>
         in case pp_deps p of
              None \<Rightarrow> Inr out
            | Some ds \<Rightarrow>
                (case validate_edit U (graph_of board) (rejected_of board) (it_code r) (clean_list ds) of
                   Inl e \<Rightarrow> Inl e
                 | Inr _ \<Rightarrow> Inr (out\<lparr>pp_deps := Some (clean_list ds)\<rparr>))))"

definition park_update ::
  "env \<Rightarrow> string \<Rightarrow> string \<Rightarrow> proposal_patch \<Rightarrow> string option \<Rightarrow> board_db \<Rightarrow> string + string list \<times> board_db" where
  "park_update E project code p note db =
     (let items = store_list db project; U = en_unicode E
      in case proposable U items (trim code) of
           Inl e \<Rightarrow> Inl e
         | Inr r \<Rightarrow>
             (case validate_patch U p r items of
                Inl e \<Rightarrow> Inl e
              | Inr q \<Rightarrow>
                  Inr (patch_fields q, proposal_upsert E project (it_id r) PkUpdate (Some q) (clean note) db)))"

definition park_discard :: "env \<Rightarrow> string \<Rightarrow> string \<Rightarrow> string \<Rightarrow> board_db \<Rightarrow> string + unit \<times> board_db" where
  "park_discard E project code reason db =
     (let reason = trim reason
      in if reason = []
         then Inl (in_ticks ''reason'' @ '' is required '' @ em_dash @ '' say why this should leave the board'')
         else
           (case proposable (en_unicode E) (store_list db project) (trim code) of
              Inl e \<Rightarrow> Inl e
            | Inr r \<Rightarrow> Inr ((), proposal_upsert E project (it_id r) PkDiscard None (Some reason) db)))"

definition park_order ::
  "env \<Rightarrow> string \<Rightarrow> string list \<Rightarrow> string option \<Rightarrow> board_db \<Rightarrow> string + string list \<times> board_db" where
  "park_order E project raw note db =
     (let codes = clean_list raw
      in case validate_order codes (store_list db project) of
           Inl e \<Rightarrow> Inl e
         | Inr _ \<Rightarrow> Inr (codes, order_upsert E project codes (clean note) db))"

section \<open>Notes and holds\<close>

definition max_note :: nat where "max_note = 500"

definition record_note ::
  "env \<Rightarrow> string \<Rightarrow> string \<Rightarrow> string \<Rightarrow> board_db \<Rightarrow> string + item_event \<times> board_db" where
  "record_note E project code raw db =
     (let note = trim raw; len = char_count note; code = trim code
      in if note = []
         then Inl (in_ticks ''note'' @ '' is required '' @ em_dash @ '' say what you observed, in one honest sentence'')
         else if len > max_note
         then Inl (in_ticks ''note'' @ '' is '' @ show_nat len @ '' characters '' @ em_dash @
                '' keep it under '' @ show_nat max_note @
                ''. A note is one observation; if it needs more than that, it is a proposal'')
         else
           (case List.find (\<lambda>r. it_code r = code) (store_list db project) of
              None \<Rightarrow> Inl (no_item (en_unicode E) code)
            | Some r \<Rightarrow> Inr (record_event E (it_id r) project ActPm EkNote (Some note) db)))"

datatype held = HeldItem roadmap_item item_event | HeldProject project_hold

definition place_hold :: "env \<Rightarrow> string \<Rightarrow> string \<Rightarrow> string \<Rightarrow> board_db \<Rightarrow> string + held \<times> board_db" where
  "place_hold E project scope raw db =
     (case clean_reason raw of
        Inl e \<Rightarrow> Inl e
      | Inr reason \<Rightarrow>
          (let scope = trim scope
           in if scope = []
              then Inl (in_ticks ''scope'' @ '' is required '' @ em_dash @ '' an item code, or '' @
                     debug_fmt (en_unicode E) project_scope @ '' for the whole board'')
              else if scope = project_scope
              then (let (h, db) = hold_project E project reason ActPm db in Inr (HeldProject h, db))
              else
                (case List.find (\<lambda>r. it_code r = scope) (store_list db project) of
                   None \<Rightarrow> Inl (no_item (en_unicode E) scope @ '', or use '' @
                     debug_fmt (en_unicode E) project_scope @ '' to hold the whole board'')
                 | Some r \<Rightarrow>
                     if it_status r = Rejected
                     then Inl (it_code r @ '' was rejected '' @ em_dash @
                       '' a ruled-off item has nothing to pause; ask the user to reopen it first'')
                     else
                       (case hold_with_event E (it_id r) reason ActPm db of
                          Inl e \<Rightarrow> Inl e
                        | Inr ((row, e), db) \<Rightarrow> Inr (HeldItem row e, db)))))"

section \<open>Triage\<close>

definition max_questions :: nat where "max_questions = 3"
definition max_brief :: nat where "max_brief = 1000"

datatype outcome =
    OutAsk item_patch
  | OutIdea triage "new_item list"
  | OutBrainstorm "new_item list"

definition captured :: "unicode \<Rightarrow> roadmap_item list \<Rightarrow> string \<Rightarrow> string + roadmap_item" where
  "captured U board code =
     (case List.find (\<lambda>r. it_code r = code) board of
        None \<Rightarrow> Inl (no_item U code)
      | Some r \<Rightarrow>
          if it_status r \<noteq> Captured
          then Inl (it_code r @ '' is '' @ item_status_as_str (it_status r) @ '' '' @ em_dash @
                 '' only a captured row is triaged; reshape a ticket with roadmap_propose_update'')
          else Inr r)"

definition refuse_extra :: "capture_kind \<Rightarrow> string \<Rightarrow> (string \<times> bool) list \<Rightarrow> string + unit" where
  "refuse_extra kind takes extra =
     (case List.find snd extra of
        Some (field, _) \<Rightarrow>
          Inl (in_ticks field @ '' doesn't belong to '' @ capture_kind_as_str kind @ '' '' @ em_dash @
               '' it takes '' @ takes)
      | None \<Rightarrow> Inr ())"

fun link_candidates :: "unicode \<Rightarrow> nat \<Rightarrow> roadmap_item \<Rightarrow> new_item list \<Rightarrow> string + new_item list" where
  "link_candidates U n src [] = Inr []"
| "link_candidates U n src (new # news) =
     (if it_code src \<in> set (ni_deps new)
      then Inl (''candidate '' @ show_nat (n + 1) @ '' ('' @ debug_fmt U (ni_title new) @ ''): '' @ it_code src @
             '' is the captured note, not a ticket '' @ em_dash @ '' nothing can wait on it'')
      else
        (case link_candidates U (Suc n) src news of
           Inl e \<Rightarrow> Inl e
         | Inr rest \<Rightarrow> Inr (new\<lparr>ni_from_item := Some (it_id src)\<rparr> # rest)))"

definition triage_candidates ::
  "unicode \<Rightarrow> proposed_item list \<Rightarrow> roadmap_item \<Rightarrow> roadmap_item list \<Rightarrow> string + new_item list" where
  "triage_candidates U items src board =
     (case validate U items board of
        Inl e \<Rightarrow> Inl (str_replace (in_ticks ''items'') (in_ticks ''candidates'') e)
      | Inr news \<Rightarrow> link_candidates U 0 src news)"

text \<open>The three arms of \<open>shape\<close>.\<close>

definition shape_ask ::
  "unicode \<Rightarrow> triage_args \<Rightarrow> roadmap_item \<Rightarrow> roadmap_item list \<Rightarrow> string + outcome" where
  "shape_ask U a src board =
     (case refuse_extra Ask (in_ticks ''ticket'')
             [(''brief'', ta_brief a \<noteq> None), (''questions'', ta_questions a \<noteq> None),
              (''candidates'', ta_candidates a \<noteq> None)] of
        Inl e \<Rightarrow> Inl e
      | Inr _ \<Rightarrow>
          (case ta_ticket a of
             None \<Rightarrow> Inl (in_ticks ''ticket'' @ '' is required for an ask '' @ em_dash @ '' the row becomes that ticket'')
           | Some ticket \<Rightarrow>
               (case validate U [ticket] board of
                  Inl e \<Rightarrow> Inl (str_replace ''item 1'' (in_ticks ''ticket'') e)
                | Inr news \<Rightarrow>
                    (let new = hd news
                     in case validate_edit U (graph_of board) (rejected_of board) (it_code src) (ni_deps new) of
                          Inl e \<Rightarrow> Inl e
                        | Inr _ \<Rightarrow>
                            Inr (OutAsk (item_patch_default
                              \<lparr>pt_title := Some (ni_title new), pt_why := Some (ni_why new),
                               pt_horizon := ni_horizon new, pt_status := Some Proposed,
                               pt_area := Some (ni_area new), pt_accept := Some (ni_accept new),
                               pt_deps := Some (ni_deps new)\<rparr>))))))"

definition shape_idea ::
  "unicode \<Rightarrow> triage_args \<Rightarrow> roadmap_item \<Rightarrow> roadmap_item list \<Rightarrow> string + outcome" where
  "shape_idea U a src board =
     (case refuse_extra Idea
             (in_ticks ''brief'' @ '', '' @ in_ticks ''questions'' @ '' and optional '' @ in_ticks ''candidates'')
             [(''ticket'', ta_ticket a \<noteq> None)] of
        Inl e \<Rightarrow> Inl e
      | Inr _ \<Rightarrow>
          (let brief = (case ta_brief a of Some b \<Rightarrow> trim b | None \<Rightarrow> []);
               len = char_count brief;
               questions = clean_list (case ta_questions a of Some q \<Rightarrow> q | None \<Rightarrow> [])
           in if brief = []
              then Inl (in_ticks ''brief'' @ '' is required for an idea '' @ em_dash @ '' what is worth finding out'')
              else if len > max_brief
              then Inl (in_ticks ''brief'' @ '' is '' @ show_nat len @ '' characters '' @ em_dash @
                     '' keep it under '' @ show_nat max_brief)
              else if length questions > max_questions
              then Inl (show_nat (length questions) @ '' questions is too many '' @ em_dash @ '' ask the '' @
                     show_nat max_questions @ '' that decide it'')
              else
                (case (case ta_candidates a of
                         None \<Rightarrow> Inr []
                       | Some items \<Rightarrow> if items = [] then Inr [] else triage_candidates U items src board) of
                   Inl e \<Rightarrow> Inl e
                 | Inr news \<Rightarrow>
                     Inr (OutIdea \<lparr>tr_brief = Some brief, tr_questions = questions, tr_mined = False\<rparr> news))))"

definition shape_brainstorm ::
  "unicode \<Rightarrow> triage_args \<Rightarrow> roadmap_item \<Rightarrow> roadmap_item list \<Rightarrow> string + outcome" where
  "shape_brainstorm U a src board =
     (case refuse_extra Brainstorm (in_ticks ''candidates'')
             [(''ticket'', ta_ticket a \<noteq> None), (''brief'', ta_brief a \<noteq> None),
              (''questions'', ta_questions a \<noteq> None)] of
        Inl e \<Rightarrow> Inl e
      | Inr _ \<Rightarrow>
          (let items = (case ta_candidates a of Some items \<Rightarrow> items | None \<Rightarrow> [])
           in if items = []
              then Inl (in_ticks ''candidates'' @ '' must name at least one ticket worth taking from it'')
              else
                (case triage_candidates U items src board of
                   Inl e \<Rightarrow> Inl e
                 | Inr news \<Rightarrow> Inr (OutBrainstorm news))))"

definition triage_shape ::
  "unicode \<Rightarrow> triage_args \<Rightarrow> roadmap_item \<Rightarrow> roadmap_item list \<Rightarrow> string + outcome" where
  "triage_shape U a src board =
     (case capture_kind_from_db (trim (ta_kind a)) of
        None \<Rightarrow> Inl (''unknown kind '' @ debug_fmt U (ta_kind a) @ '' '' @ em_dash @ '' expected '' @
          one_of [''ask'', ''idea'', ''brainstorm''])
      | Some Ask \<Rightarrow> shape_ask U a src board
      | Some Idea \<Rightarrow> shape_idea U a src board
      | Some Brainstorm \<Rightarrow> shape_brainstorm U a src board)"

definition code_list :: "roadmap_item list \<Rightarrow> string" where
  "code_list items = join '', '' (map it_code items)"

text \<open>The transaction of \<open>triage\<close>, one function per outcome.\<close>

definition land_ask ::
  "env \<Rightarrow> string \<Rightarrow> roadmap_item \<Rightarrow> item_patch \<Rightarrow> board_db \<Rightarrow>
     string + (capture_kind \<times> roadmap_item list \<times> item_event list) \<times> board_db" where
  "land_ask E project src p db =
     (case update_where_status E (it_id src) Captured p db of
        (None, _) \<Rightarrow> Inl (it_code src @ '' was triaged meanwhile'')
      | (Some _, db) \<Rightarrow>
          (case set_triage E (it_id src) Ask None db of
             (None, _) \<Rightarrow> Inl (missing (it_id src))
           | (Some row, db) \<Rightarrow>
               (let (e, db) = record_event E (it_id src) project ActPm EkProposed (Some ''triaged as ask'') db
                in Inr ((Ask, [row], [e]), db))))"

definition idea_detail :: "triage \<Rightarrow> roadmap_item list \<Rightarrow> string" where
  "idea_detail tr items =
     ''triaged as idea '' @ em_dash @ '' brief, '' @ show_nat (length (tr_questions tr)) @ '' question'' @
     (if length (tr_questions tr) = 1 then [] else ''s'') @
     (if items \<noteq> [] then ''; proposed '' @ code_list items else [])"

definition land_idea ::
  "env \<Rightarrow> string \<Rightarrow> roadmap_item \<Rightarrow> triage \<Rightarrow> new_item list \<Rightarrow> board_db \<Rightarrow>
     string + (capture_kind \<times> roadmap_item list \<times> item_event list) \<times> board_db" where
  "land_idea E project src tr news db =
     (let ((items, recorded), db) = create_proposed E project (Some (''from '' @ it_code src)) news db
      in case set_triage E (it_id src) Idea (Some tr) db of
           (None, _) \<Rightarrow> Inl (missing (it_id src))
         | (Some row, db) \<Rightarrow>
             (let (e, db) = record_event E (it_id src) project ActPm EkNote (Some (idea_detail tr items)) db
              in Inr ((Idea, row # items, recorded @ [e]), db)))"

definition land_brainstorm ::
  "env \<Rightarrow> string \<Rightarrow> roadmap_item \<Rightarrow> new_item list \<Rightarrow> board_db \<Rightarrow>
     string + (capture_kind \<times> roadmap_item list \<times> item_event list) \<times> board_db" where
  "land_brainstorm E project src news db =
     (let ((items, recorded), db) = create_proposed E project (Some (''from '' @ it_code src)) news db
      in case set_triage E (it_id src) Brainstorm
                (Some \<lparr>tr_brief = None, tr_questions = [], tr_mined = True\<rparr>) db of
           (None, _) \<Rightarrow> Inl (missing (it_id src))
         | (Some row, db) \<Rightarrow>
             (let (e, db) = record_event E (it_id src) project ActPm EkNote
                    (Some (''triaged as brainstorm '' @ em_dash @ '' mined '' @ code_list items)) db
              in Inr ((Brainstorm, row # items, recorded @ [e]), db)))"

definition triage_op ::
  "env \<Rightarrow> string \<Rightarrow> triage_args \<Rightarrow> board_db \<Rightarrow>
     string + (capture_kind \<times> roadmap_item list \<times> item_event list) \<times> board_db" where
  "triage_op E project a db =
     (let U = en_unicode E; board = store_list db project
      in case captured U board (trim (ta_code a)) of
           Inl e \<Rightarrow> Inl e
         | Inr src \<Rightarrow>
             (case triage_shape U a src board of
                Inl e \<Rightarrow> Inl e
              | Inr (OutAsk p) \<Rightarrow> land_ask E project src p db
              | Inr (OutIdea tr news) \<Rightarrow> land_idea E project src tr news db
              | Inr (OutBrainstorm news) \<Rightarrow> land_brainstorm E project src news db))"

end
