(* ===== verification/Roadmap_Queue.thy ===== *)
theory Roadmap_Queue
  imports Roadmap_Rules Ap_World
begin

text \<open>
  The two loops that move rows by themselves: the drainer (\<open>roadmap/drainer.rs\<close>), which claims
  queued items and reflects their runs onto the board, and the merge sweep
  (\<open>roadmap/merge_sweep.rs\<close>), which reflects their pull requests. Both only read the workflow
  engine's runs; what a launch answers and what the forge says of a pull request are arguments.
\<close>

section \<open>What may be dispatched\<close>

datatype run_status = RunPending | RunRunning | RunDone | RunFailed | RunCanceled

record wf_run =
  wr_id :: string
  wr_item_id :: "string option"
  wr_project_id :: string
  wr_status :: run_status
  wr_created_at :: int
  wr_pr_url :: "string option"
  wr_pr_number :: "int option"

datatype decision =
    Empty
  | AtCapacity
  | Blocked string "string list"
  | DispatchAt nat

definition done_codes :: "roadmap_item list \<Rightarrow> string set" where
  "done_codes items = set (map it_code (filter (\<lambda>r. it_status r = Done \<and> \<not> is_held r) items))"

definition unsatisfied_deps :: "string list \<Rightarrow> string set \<Rightarrow> string set \<Rightarrow> string list" where
  "unsatisfied_deps deps landed known = filter (\<lambda>d. d \<in> known \<and> d \<notin> landed) deps"

definition dispatchable :: "roadmap_item list \<Rightarrow> roadmap_item list" where
  "dispatchable items =
     filter (\<lambda>r. it_status r = Queued \<and> it_agent_id r = None \<and> \<not> is_held r) items"

text \<open>The loop of \<open>pick_next\<close>, with the position it is at and the first block it met.\<close>

fun pick_loop ::
  "string set \<Rightarrow> string set \<Rightarrow> nat \<Rightarrow> (string \<times> string list) option \<Rightarrow> roadmap_item list \<Rightarrow> decision" where
  "pick_loop landed known n head [] =
     (case head of Some (i, waiting) \<Rightarrow> Blocked i waiting | None \<Rightarrow> Empty)"
| "pick_loop landed known n head (r # rs) =
     (let waiting = unsatisfied_deps (it_deps r) landed known
      in if waiting = [] then DispatchAt n
         else pick_loop landed known (Suc n) (case head of None \<Rightarrow> Some (it_id r, waiting) | Some h \<Rightarrow> Some h) rs)"

definition pick_next ::
  "roadmap_item list \<Rightarrow> nat \<Rightarrow> nat \<Rightarrow> string set \<Rightarrow> string set \<Rightarrow> decision" where
  "pick_next queued live_runs cap landed known =
     (if queued = [] then Empty
      else if live_runs \<ge> cap then AtCapacity
      else pick_loop landed known 0 None queued)"

section \<open>Settling a run\<close>

record finalized_pr =
  fp_url :: string
  fp_number :: "int option"

datatype settlement = StillRunning | ToReview | Finished | Released string

definition run_failed :: string where "run_failed = ''its run failed''"
definition run_canceled :: string where "run_canceled = ''its run was canceled''"
definition run_deleted :: string where "run_deleted = ''its run was deleted''"
definition run_never_started :: string where "run_never_started = ''its run never started''"
definition run_unlaunchable :: string where "run_unlaunchable = ''its run couldn't be started''"

definition release_kind :: "string \<Rightarrow> event_kind" where
  "release_kind why =
     (if why = run_canceled then EkRunCanceled else if why = run_deleted then EkRunDeleted else EkRunFailed)"

definition settle_run :: "run_status option \<Rightarrow> finalized_pr option \<Rightarrow> settlement" where
  "settle_run status pr =
     (case status of
        None \<Rightarrow> Released run_deleted
      | Some RunPending \<Rightarrow> StillRunning
      | Some RunRunning \<Rightarrow> StillRunning
      | Some RunDone \<Rightarrow> if pr \<noteq> None then ToReview else Finished
      | Some RunFailed \<Rightarrow> Released run_failed
      | Some RunCanceled \<Rightarrow> Released run_canceled)"

definition settlement_event ::
  "settlement \<Rightarrow> finalized_pr option \<Rightarrow> (event_kind \<times> string option) option" where
  "settlement_event out pr =
     (case out of
        StillRunning \<Rightarrow> None
      | ToReview \<Rightarrow> Some (EkPrOpened, map_option fp_url pr)
      | Finished \<Rightarrow> Some (EkShipped, None)
      | Released why \<Rightarrow> Some (release_kind why, Some why))"

definition settlement_patch :: "settlement \<Rightarrow> finalized_pr option \<Rightarrow> item_patch" where
  "settlement_patch out pr =
     (case out of
        StillRunning \<Rightarrow> item_patch_default
      | ToReview \<Rightarrow>
          item_patch_default\<lparr>pt_status := Some InReview, pt_pr_url := Some (map_option fp_url pr),
                             pt_pr_number := Some (Option.bind pr fp_number)\<rparr>
      | Finished \<Rightarrow> item_patch_default\<lparr>pt_status := Some Done\<rparr>
      | Released _ \<Rightarrow> item_patch_default\<lparr>pt_status := Some Open, pt_run_id := Some None\<rparr>)"

definition is_live_run :: "wf_run \<Rightarrow> bool" where
  "is_live_run w \<longleftrightarrow> wr_status w = RunPending \<or> wr_status w = RunRunning"

text \<open>\<open>ORDER BY created_at DESC LIMIT 1\<close>: a newest live run of the item.\<close>

definition dispatched_run_id :: "wf_run list \<Rightarrow> string \<Rightarrow> string option" where
  "dispatched_run_id runs item =
     (case sort_key (\<lambda>w. - wr_created_at w) (filter (\<lambda>w. wr_item_id w = Some item \<and> is_live_run w) runs) of
        w # _ \<Rightarrow> Some (wr_id w)
      | [] \<Rightarrow> None)"

definition run_status_of :: "wf_run list \<Rightarrow> string \<Rightarrow> run_status option" where
  "run_status_of runs i = map_option wr_status (List.find (\<lambda>w. wr_id w = i) runs)"

definition finalized_pr_of :: "wf_run list \<Rightarrow> string \<Rightarrow> finalized_pr option" where
  "finalized_pr_of runs i =
     (case List.find (\<lambda>w. wr_id w = i) runs of
        None \<Rightarrow> None
      | Some w \<Rightarrow>
          (case wr_pr_url w of
             Some url \<Rightarrow> if trim url \<noteq> [] then Some \<lparr>fp_url = url, fp_number = wr_pr_number w\<rparr> else None
           | None \<Rightarrow> None))"

record settled =
  sd_item :: roadmap_item
  sd_outcome :: settlement
  sd_pr :: "finalized_pr option"
  sd_adopted_run_id :: "string option"

definition settle_item :: "wf_run list \<Rightarrow> roadmap_item \<Rightarrow> settled" where
  "settle_item runs r =
     (let adopted = (case it_run_id r of Some _ \<Rightarrow> None | None \<Rightarrow> dispatched_run_id runs (it_id r));
          run = (case it_run_id r of Some i \<Rightarrow> Some i | None \<Rightarrow> adopted);
          status = Option.bind run (run_status_of runs);
          pr = (if status = Some RunDone then Option.bind run (finalized_pr_of runs) else None);
          out = (case run of None \<Rightarrow> Released run_never_started | Some _ \<Rightarrow> settle_run status pr)
      in \<lparr>sd_item = r, sd_outcome = out, sd_pr = pr, sd_adopted_run_id = adopted\<rparr>)"

definition collect_settlements :: "wf_run list \<Rightarrow> board_db \<Rightarrow> string \<Rightarrow> settled list" where
  "collect_settlements runs db project =
     filter (\<lambda>s. sd_outcome s \<noteq> StillRunning \<or> sd_adopted_run_id s \<noteq> None)
       (map (settle_item runs)
         (filter (\<lambda>r. it_status r = Active \<and> (it_run_id r \<noteq> None \<or> it_agent_id r = None))
           (store_list db project)))"

section \<open>Writes with their event\<close>

definition apply_and_record ::
  "env \<Rightarrow> string \<Rightarrow> item_status option \<Rightarrow> item_patch \<Rightarrow> event_actor \<Rightarrow> event_kind \<Rightarrow> string option \<Rightarrow>
     board_db \<Rightarrow> (roadmap_item \<times> item_event) option \<times> board_db" where
  "apply_and_record E i expected p actor kind detail db =
     (case (case expected of Some s \<Rightarrow> update_where_status E i s p db | None \<Rightarrow> store_update E i p db) of
        (None, db) \<Rightarrow> (None, db)
      | (Some r, db) \<Rightarrow>
          (let (e, db) = record_event E (it_id r) (it_project_id r) actor kind detail db in (Some (r, e), db)))"

definition write_item :: "env \<Rightarrow> string \<Rightarrow> item_patch \<Rightarrow> board_db \<Rightarrow> board_db" where
  "write_item E i p db = snd (store_update E i p db)"

definition conclude ::
  "env \<Rightarrow> roadmap_item \<Rightarrow> settlement \<Rightarrow> finalized_pr option \<Rightarrow> string option \<Rightarrow> board_db \<Rightarrow> board_db" where
  "conclude E r out pr detail db =
     (let p = settlement_patch out pr
      in case settlement_event out pr of
           Some (kind, projected) \<Rightarrow>
             snd (apply_and_record E (it_id r) None p ActDrainer kind
                    (case detail of Some d \<Rightarrow> Some d | None \<Rightarrow> projected) db)
         | None \<Rightarrow> write_item E (it_id r) p db)"

definition settle_one :: "env \<Rightarrow> board_db \<Rightarrow> settled \<Rightarrow> board_db" where
  "settle_one E db s =
     (if sd_outcome s = StillRunning
      then write_item E (it_id (sd_item s)) (item_patch_default\<lparr>pt_run_id := Some (sd_adopted_run_id s)\<rparr>) db
      else conclude E (sd_item s) (sd_outcome s) (sd_pr s) None db)"

definition settle_project :: "env \<Rightarrow> wf_run list \<Rightarrow> string \<Rightarrow> board_db \<Rightarrow> board_db" where
  "settle_project E runs project db = foldl (settle_one E) db (collect_settlements runs db project)"

section \<open>Claiming\<close>

definition build_brief :: "roadmap_item \<Rightarrow> roadmap_item list \<Rightarrow> string" where
  "build_brief r deps =
     join nl
       ([it_code r @ '': '' @ it_title r] @
        (if trim (it_why r) \<noteq> [] then [[], trim (it_why r)] else []) @
        (if it_accept r \<noteq> [] then [[], ''Done when:''] @ map (\<lambda>a. ''- [ ] '' @ a) (it_accept r) else []) @
        (if deps \<noteq> []
         then [[], ''Builds on work that has already landed:''] @
              map (\<lambda>d. ''- '' @ it_code d @ '': '' @ it_title d @ '' (done)'') deps
         else []) @
        [[], ''Reference ['' @ it_code r @
             ''] in the pull request title and description so this item can be tracked back to the roadmap.''])"

text \<open>
  The workflow definitions and repositories of the database: whether a definition has a valid
  spec, its name, and the path of a project's first repository.
\<close>

record catalog =
  cat_spec :: "string \<Rightarrow> bool"
  cat_name :: "string \<Rightarrow> string option"
  cat_repo :: "string \<Rightarrow> string option"

definition resolve_workflow :: "roadmap_item \<Rightarrow> string option \<Rightarrow> string option" where
  "resolve_workflow r project_default =
     (case it_workflow_def_id r of Some w \<Rightarrow> Some w | None \<Rightarrow> project_default)"

record dispatch_prep =
  dp_definition_id :: string
  dp_repo_path :: string
  dp_brief :: string
  dp_workflow_name :: "string option"

definition resolve_for_dispatch ::
  "catalog \<Rightarrow> board_db \<Rightarrow> string \<Rightarrow> roadmap_item \<Rightarrow> roadmap_item list \<Rightarrow> string + dispatch_prep" where
  "resolve_for_dispatch C db project r items =
     (case resolve_workflow r (project_setting db project ''workflow.default'') of
        None \<Rightarrow> Inl ''No workflow to run it under. Pick one on this item, or set the project's default workflow.''
      | Some def \<Rightarrow>
          if \<not> cat_spec C def
          then Inl (''Its workflow is missing or no longer valid '' @ em_dash @ '' pick another.'')
          else
            (case cat_repo C project of
               None \<Rightarrow> Inl ''This project has no repo to run in.''
             | Some repo \<Rightarrow>
                 Inr \<lparr>dp_definition_id = def, dp_repo_path = repo,
                      dp_brief = build_brief r
                        (List.map_filter (\<lambda>c. List.find (\<lambda>i. it_code i = c) items) (it_deps r)),
                      dp_workflow_name = cat_name C def\<rparr>))"

definition record_wedge :: "env \<Rightarrow> roadmap_item \<Rightarrow> string \<Rightarrow> board_db \<Rightarrow> item_event option \<times> board_db" where
  "record_wedge E r detail db =
     (case latest_for_item db (it_id r) of
        Some prev \<Rightarrow>
          if ev_kind prev = EkBlocked \<and> ev_detail prev = Some detail then (None, db)
          else (let (e, db) = record_event E (it_id r) (it_project_id r) ActDrainer EkBlocked (Some detail) db
                in (Some e, db))
      | None \<Rightarrow>
          (let (e, db) = record_event E (it_id r) (it_project_id r) ActDrainer EkBlocked (Some detail) db
           in (Some e, db)))"

record plan =
  pl_item :: roadmap_item
  pl_definition_id :: string
  pl_repo_path :: string
  pl_brief :: string

datatype claim =
    ClaimNothing
  | ClaimNote roadmap_item string "item_event option"
  | Claimed plan item_event

definition claim_wedge :: "env \<Rightarrow> roadmap_item \<Rightarrow> string \<Rightarrow> board_db \<Rightarrow> claim \<times> board_db" where
  "claim_wedge E r note db = (let (e, db) = record_wedge E r note db in (ClaimNote r note e, db))"

definition claim_when_blocked ::
  "env \<Rightarrow> roadmap_item list \<Rightarrow> roadmap_item list \<Rightarrow> string \<Rightarrow> string list \<Rightarrow> board_db \<Rightarrow> claim \<times> board_db" where
  "claim_when_blocked E items queued item_id waiting_on db =
     (case List.find (\<lambda>r. it_id r = item_id) queued of
        None \<Rightarrow> (ClaimNothing, db)
      | Some r \<Rightarrow>
          (case find_cycle (graph_of items) (it_code r) of
             Some cycle \<Rightarrow> claim_wedge E r (''Stuck in a dependency loop: '' @ loop_path cycle) db
           | None \<Rightarrow>
               (let dead = filter (\<lambda>c. \<exists>i \<in> set items. it_code i = c \<and> it_status i = Rejected) waiting_on
                in if dead = [] then (ClaimNote r (''Waiting on '' @ join '', '' waiting_on) None, db)
                   else if length dead = 1
                   then claim_wedge E r (''Waiting on '' @ hd dead @ '', which was rejected '' @ em_dash @
                          '' remove or replace that dependency.'') db
                   else claim_wedge E r (''Waiting on '' @ join '', '' dead @ '', which were rejected '' @ em_dash @
                          '' remove or replace those dependencies.'') db)))"

definition claim_item ::
  "env \<Rightarrow> string \<Rightarrow> string \<Rightarrow> string option \<Rightarrow> board_db \<Rightarrow> (roadmap_item \<times> item_event) option \<times> board_db" where
  "claim_item E i def name db =
     (case store_get db i of
        Some fresh \<Rightarrow>
          if it_status fresh \<noteq> Queued then (None, db)
          else
            (case store_update E i
                    (item_patch_default\<lparr>pt_status := Some Active, pt_workflow_def_id := Some (Some def)\<rparr>) db of
               (None, db) \<Rightarrow> (None, db)
             | (Some r, db) \<Rightarrow>
                 (let (e, db) = record_event E (it_id r) (it_project_id r) ActDrainer EkDispatched
                                  (Some (case name of Some n \<Rightarrow> n | None \<Rightarrow> def)) db
                  in (Some (r, e), db)))
      | None \<Rightarrow> (None, db))"

definition live_run_count :: "wf_run list \<Rightarrow> string \<Rightarrow> nat" where
  "live_run_count runs project =
     length (filter (\<lambda>w. wr_project_id w = project \<and> wr_item_id w \<noteq> None \<and> is_live_run w) runs)"

definition plan_and_claim ::
  "env \<Rightarrow> catalog \<Rightarrow> wf_run list \<Rightarrow> string \<Rightarrow> nat \<Rightarrow> board_db \<Rightarrow> claim \<times> board_db" where
  "plan_and_claim E C runs project cap db =
     (if project_gate db project \<noteq> None then (ClaimNothing, db)
      else
        (let items = store_list db project;
             queued = dispatchable items
         in case pick_next queued (live_run_count runs project) cap (done_codes items) (set (map it_code items)) of
              Empty \<Rightarrow> (ClaimNothing, db)
            | AtCapacity \<Rightarrow> (ClaimNothing, db)
            | Blocked i waiting \<Rightarrow> claim_when_blocked E items queued i waiting db
            | DispatchAt n \<Rightarrow>
                (let r = queued ! n
                 in case resolve_for_dispatch C db project r items of
                      Inl msg \<Rightarrow> claim_wedge E r msg db
                    | Inr prep \<Rightarrow>
                        (case claim_item E (it_id r) (dp_definition_id prep) (dp_workflow_name prep) db of
                           (None, db) \<Rightarrow> (ClaimNothing, db)
                         | (Some (claimed, e), db) \<Rightarrow>
                             (Claimed \<lparr>pl_item = claimed, pl_definition_id = dp_definition_id prep,
                                       pl_repo_path = dp_repo_path prep, pl_brief = dp_brief prep\<rparr> e, db)))))"

text \<open>\<open>dispatch\<close>, given what the workflow service answered: a run id, or why it could not launch.\<close>

definition dispatch_plan :: "env \<Rightarrow> plan \<Rightarrow> string + string \<Rightarrow> board_db \<Rightarrow> board_db" where
  "dispatch_plan E pl launched db =
     (case launched of
        Inr run \<Rightarrow> write_item E (it_id (pl_item pl)) (item_patch_default\<lparr>pt_run_id := Some (Some run)\<rparr>) db
      | Inl e \<Rightarrow>
          conclude E (pl_item pl) (Released run_unlaunchable) None
            (Some (''Couldn't start a run '' @ em_dash @ '' '' @ e)) db)"

text \<open>One project's share of a tick: settle, then claim and launch until nothing is claimed or the cap.\<close>

fun claim_loop ::
  "env \<Rightarrow> catalog \<Rightarrow> (plan \<Rightarrow> (string + string) \<times> wf_run list) \<Rightarrow> string \<Rightarrow> nat \<Rightarrow> nat \<Rightarrow> wf_run list \<Rightarrow>
     board_db \<Rightarrow> board_db" where
  "claim_loop E C launch project cap 0 runs db = db"
| "claim_loop E C launch project cap (Suc n) runs db =
     (case plan_and_claim E C runs project cap db of
        (Claimed pl e, db) \<Rightarrow>
          (let (answer, started) = launch pl
           in claim_loop E C launch project cap n (runs @ started) (dispatch_plan E pl answer db))
      | (_, db) \<Rightarrow> db)"

definition tick_project ::
  "env \<Rightarrow> catalog \<Rightarrow> (plan \<Rightarrow> (string + string) \<times> wf_run list) \<Rightarrow> wf_run list \<Rightarrow> string \<Rightarrow> board_db \<Rightarrow> board_db" where
  "tick_project E C launch runs project db =
     (let db = settle_project E runs project db; cap = concurrency_cap db project
      in claim_loop E C launch project cap cap runs db)"

text \<open>A queue note is said once per text and version of the row.\<close>

definition record_queue_note ::
  "(string \<rightharpoonup> string \<times> int) \<Rightarrow> roadmap_item \<Rightarrow> string \<Rightarrow> bool \<times> (string \<rightharpoonup> string \<times> int)" where
  "record_queue_note said r note =
     (if said (it_id r) = Some (note, it_updated_at r) then (False, said)
      else (True, said(it_id r \<mapsto> (note, it_updated_at r))))"

section \<open>The merge sweep\<close>

definition merge_hold_gate :: "board_db \<Rightarrow> string \<Rightarrow> string + unit" where
  "merge_hold_gate db i =
     (case store_get db i of
        None \<Rightarrow> Inr ()
      | Some r \<Rightarrow>
          (case brake_gate db r of
             Some reason \<Rightarrow> Inl (it_code r @ '' is held '' @ em_dash @ '' '' @ reason @
               ''. Release the hold before merging its pull request.'')
           | None \<Rightarrow> Inr ()))"

definition unanswered_limit :: nat where "unanswered_limit = 5"

definition pollable :: "roadmap_item list \<Rightarrow> roadmap_item list" where
  "pollable items = filter (\<lambda>r. it_status r = InReview \<and> it_pr_number r \<noteq> None) items"

datatype verdict = VerdictWaiting | VerdictLanded | VerdictAbandoned

definition verdict_of :: "pr_status option \<Rightarrow> verdict" where
  "verdict_of state =
     (case state of
        Some PrMerged \<Rightarrow> VerdictLanded
      | Some PrClosed \<Rightarrow> VerdictAbandoned
      | Some PrOpen \<Rightarrow> VerdictWaiting
      | None \<Rightarrow> VerdictWaiting)"

definition patch_for :: "verdict \<Rightarrow> item_patch option" where
  "patch_for v =
     (case v of
        VerdictWaiting \<Rightarrow> None
      | VerdictLanded \<Rightarrow> Some (item_patch_default\<lparr>pt_status := Some Done\<rparr>)
      | VerdictAbandoned \<Rightarrow> Some (item_patch_default\<lparr>pt_status := Some Open, pt_run_id := Some None\<rparr>))"

definition shipped_while_held :: string where
  "shipped_while_held =
     ''its PR merged while this was held '' @ em_dash @ '' the hold stands, so nothing waiting on it moves''"

definition event_for :: "verdict \<Rightarrow> bool \<Rightarrow> (event_kind \<times> string option) option" where
  "event_for v held =
     (case v of
        VerdictWaiting \<Rightarrow> None
      | VerdictLanded \<Rightarrow> Some (EkShipped, if held then Some shipped_while_held else None)
      | VerdictAbandoned \<Rightarrow>
          Some (EkPrClosed, Some (''nothing merged '' @ em_dash @ '' the item is back on the board'')))"

type_synonym misses = "string \<rightharpoonup> int \<times> nat"

definition still_watching :: "misses \<Rightarrow> string \<Rightarrow> int \<Rightarrow> bool" where
  "still_watching seen i updated_at =
     (case seen i of Some (version, n) \<Rightarrow> version \<noteq> updated_at \<or> n < unanswered_limit | None \<Rightarrow> True)"

definition record_miss :: "misses \<Rightarrow> string \<Rightarrow> int \<Rightarrow> bool \<times> misses" where
  "record_miss seen i updated_at =
     (let n = (case seen i of Some (version, n) \<Rightarrow> if version \<noteq> updated_at then 0 else n | None \<Rightarrow> 0)
      in (n + 1 = unanswered_limit, seen(i \<mapsto> (updated_at, n + 1))))"

definition answered :: "misses \<Rightarrow> string \<Rightarrow> misses" where
  "answered seen i = seen(i := None)"

definition unreachable_note :: "int \<Rightarrow> string" where
  "unreachable_note number =
     ''Can't reach PR #'' @ show_int number @ '' '' @ em_dash @ '' nothing has answered for '' @
     show_nat unanswered_limit @ '' sweeps. It may have been deleted, or this repo's remote or token can't see it. '' @
     ''Merge it yourself and mark this done, or put the item back on the board.''"

definition held_now :: "board_db \<Rightarrow> string \<Rightarrow> bool" where
  "held_now db i = (case store_get db i of Some r \<Rightarrow> brake_gate db r \<noteq> None | None \<Rightarrow> False)"

text \<open>
  The body of \<open>sweep\<close> for one watched row, read when the sweep began; \<open>poll\<close> is the forge's answer
  for a project's pull request, \<open>None\<close> when there is none.
\<close>

definition sweep_poll :: "(string \<Rightarrow> nat \<Rightarrow> pr_status option) \<Rightarrow> string \<Rightarrow> int \<Rightarrow> pr_status option" where
  "sweep_poll poll project number =
     (if 0 \<le> number \<and> number < 2 ^ 32 then poll project (nat number) else None)"

definition sweep_one ::
  "env \<Rightarrow> (string \<Rightarrow> nat \<Rightarrow> pr_status option) \<Rightarrow> misses \<times> board_db \<Rightarrow> roadmap_item \<Rightarrow> misses \<times> board_db" where
  "sweep_one E poll st w =
     (let (seen, db) = st;
          number = (case it_pr_number w of Some n \<Rightarrow> n | None \<Rightarrow> 0)
      in if \<not> still_watching seen (it_id w) (it_updated_at w) then (seen, db)
         else
           (let state = sweep_poll poll (it_project_id w) number
            in if state = None
               then
                 (let (give_up, seen) = record_miss seen (it_id w) (it_updated_at w)
                  in (seen,
                      if give_up
                      then (case store_get db (it_id w) of
                              Some r \<Rightarrow> snd (record_wedge E r (unreachable_note number) db)
                            | None \<Rightarrow> db)
                      else db))
               else
                 (let seen = answered seen (it_id w); v = verdict_of state
                  in (seen,
                      case patch_for v of
                        None \<Rightarrow> db
                      | Some p \<Rightarrow>
                          (case event_for v (v = VerdictLanded \<and> held_now db (it_id w)) of
                             None \<Rightarrow> db
                           | Some (kind, detail) \<Rightarrow>
                               snd (apply_and_record E (it_id w) (Some InReview) p ActSweep kind detail db))))))"

definition sweep ::
  "env \<Rightarrow> (string \<Rightarrow> nat \<Rightarrow> pr_status option) \<Rightarrow> misses \<times> board_db \<Rightarrow> misses \<times> board_db" where
  "sweep E poll st = foldl (sweep_one E poll) st (pollable (bd_items (snd st)))"

end
