(* ===== verification/Roadmap_Rows.thy ===== *)
theory Roadmap_Rows
  imports Roadmap_Pm Roadmap_Queue
begin

text \<open>
  How each operation changes the table of items: which rows it keeps, what it may change of a row,
  and which it adds. An operation \<open>evolves\<close> the table under a relation \<open>R\<close> when the old rows stay,
  in order and under their ids, each related to what it was by \<open>R\<close>, and the rows it adds come
  after them. The interface \<open>row_change\<close> composes such operations; each party that writes the
  board is an interpretation of it.
\<close>

section \<open>The statements\<close>

lemma record_event_eq:
  "record_event E i p a k d db = (e, db') \<Longrightarrow>
     db' = db\<lparr>bd_drawn := Suc (bd_drawn db), bd_events := bd_events db @ [e]\<rparr> \<and>
     ev_item_id e = i \<and> ev_project_id e = p \<and> ev_actor e = a \<and> ev_kind e = k \<and> ev_detail e = d"
  by (auto simp: record_event_def draw_uuid_def Let_def)

lemma record_event_items: "record_event E i p a k d db = (e, db') \<Longrightarrow> bd_items db' = bd_items db"
  by (auto dest: record_event_eq)

lemma snd_record_event_items [simp]: "bd_items (snd (record_event E i p a k d db)) = bd_items db"
  by (cases "record_event E i p a k d db") (simp add: record_event_items)

lemma code_prefix_items: "code_prefix E p db = (c, db') \<Longrightarrow> bd_items db' = bd_items db \<and> bd_drawn db' = bd_drawn db"
  by (auto simp: code_prefix_def set_setting_def Let_def split: option.splits if_splits)

lemma next_code_items: "next_code E p db = (c, db') \<Longrightarrow> bd_items db' = bd_items db \<and> bd_drawn db' = bd_drawn db"
  by (auto simp: next_code_def set_setting_def Let_def split: prod.splits dest: code_prefix_items)

lemma store_create_items:
  assumes "store_create E p new db = (row, db')"
  shows "bd_items db' = bd_items db @ [row] \<and> it_id row = en_uuid E (bd_drawn db) \<and> it_project_id row = p \<and>
    it_deps row = ni_deps new \<and> it_hold_reason row = None \<and> it_held_by row = None \<and>
    bd_drawn db' = Suc (bd_drawn db)"
  using assms
  by (auto simp: store_create_def draw_uuid_def new_row_def Let_def split: prod.splits dest: next_code_items)

lemma update_rows_items [simp]:
  "bd_items (update_rows P f db) = map (\<lambda>r. if P r then f r else r) (bd_items db)"
  by (simp add: update_rows_def)

lemma store_get_SomeD: "store_get db i = Some r \<Longrightarrow> r \<in> set (bd_items db) \<and> it_id r = i"
  by (auto simp: store_get_def dest: find_SomeD)

lemma store_list_set: "set (store_list db p) = {r \<in> set (bd_items db). it_project_id r = p}"
  by (auto simp: store_list_def)

text \<open>The rows a write with a patch touches.\<close>

definition apply_matches :: "string \<Rightarrow> item_status option \<Rightarrow> roadmap_item \<Rightarrow> bool" where
  "apply_matches i expected r \<longleftrightarrow>
     it_id r = i \<and> (case expected of Some s \<Rightarrow> it_status r = s | None \<Rightarrow> True)"

lemma store_apply_cases:
  assumes "store_apply E i p expected db = (x, db')"
  obtains "db' = db" "p = item_patch_default" | "db' = db" "x = None"
    | "db' = update_rows (apply_matches i expected) (apply_patch p (en_now E)) db" "x = store_get db' i"
  using assms that
  unfolding store_apply_def Let_def apply_matches_def [abs_def] item_patch_empty_def
  by (auto split: if_splits)

section \<open>Amendments\<close>

text \<open>The columns no operation ever changes.\<close>

definition keeps_identity :: "roadmap_item \<Rightarrow> roadmap_item \<Rightarrow> bool" where
  "keeps_identity r s \<longleftrightarrow>
     it_id s = it_id r \<and> it_project_id s = it_project_id r \<and> it_code s = it_code r \<and>
     it_created_at s = it_created_at r \<and> it_from_item s = it_from_item r \<and> it_issue_url s = it_issue_url r"

lemma keeps_identity_refl [simp]: "keeps_identity r r"
  by (simp add: keeps_identity_def)

lemma keeps_identity_trans: "keeps_identity r s \<Longrightarrow> keeps_identity s t \<Longrightarrow> keeps_identity r t"
  by (simp add: keeps_identity_def)

text \<open>Every row stays in its place, changed as \<open>R\<close> allows; what is recorded is signed by one of \<open>A\<close>.\<close>

definition amends ::
  "event_actor set \<Rightarrow> (roadmap_item \<Rightarrow> roadmap_item \<Rightarrow> bool) \<Rightarrow> board_db \<Rightarrow> board_db \<Rightarrow> bool" where
  "amends A R db db' \<longleftrightarrow>
     bd_settings db' = bd_settings db \<and> bd_holds db' = bd_holds db \<and> bd_drawn db \<le> bd_drawn db' \<and>
     (\<exists>es. bd_events db' = bd_events db @ es \<and> (\<forall>e \<in> set es. ev_actor e \<in> A)) \<and>
     (\<exists>P. bd_proposals db' = filter P (bd_proposals db)) \<and>
     (\<exists>f. bd_items db' = map f (bd_items db) \<and> (\<forall>r \<in> set (bd_items db). keeps_identity r (f r) \<and> R r (f r)))"

lemma amends_trans:
  assumes "amends A R db db1" and "amends A S db1 db2"
    and "\<And>r s t. R r s \<Longrightarrow> S s t \<Longrightarrow> T r t"
  shows "amends A T db db2"
proof -
  from assms(1) obtain f es P where
    f: "bd_items db1 = map f (bd_items db)" "\<forall>r \<in> set (bd_items db). keeps_identity r (f r) \<and> R r (f r)"
    and es: "bd_events db1 = bd_events db @ es" "\<forall>e \<in> set es. ev_actor e \<in> A"
    and P: "bd_proposals db1 = filter P (bd_proposals db)"
    unfolding amends_def by blast
  from assms(2) obtain g es' Q where
    g: "bd_items db2 = map g (bd_items db1)" "\<forall>r \<in> set (bd_items db1). keeps_identity r (g r) \<and> S r (g r)"
    and es': "bd_events db2 = bd_events db1 @ es'" "\<forall>e \<in> set es'. ev_actor e \<in> A"
    and Q: "bd_proposals db2 = filter Q (bd_proposals db1)"
    unfolding amends_def by blast
  have kept: "keeps_identity r (g (f r)) \<and> T r (g (f r))" if "r \<in> set (bd_items db)" for r
  proof -
    have fr: "keeps_identity r (f r)" "R r (f r)" "f r \<in> set (bd_items db1)" using f that by auto
    then have "keeps_identity (f r) (g (f r))" "S (f r) (g (f r))" using g(2) by auto
    with fr assms(3) keeps_identity_trans show ?thesis by blast
  qed
  have "\<exists>h. bd_items db2 = map h (bd_items db) \<and> (\<forall>r \<in> set (bd_items db). keeps_identity r (h r) \<and> T r (h r))"
    by (rule exI [of _ "g \<circ> f"]) (use f(1) g(1) kept in simp)
  moreover have "\<exists>es. bd_events db2 = bd_events db @ es \<and> (\<forall>e \<in> set es. ev_actor e \<in> A)"
    by (rule exI [of _ "es @ es'"]) (use es es' in auto)
  moreover have "\<exists>P. bd_proposals db2 = filter P (bd_proposals db)"
    by (rule exI [of _ "\<lambda>x. P x \<and> Q x"]) (use P Q in simp)
  moreover have "bd_settings db2 = bd_settings db" "bd_holds db2 = bd_holds db" "bd_drawn db \<le> bd_drawn db2"
    using assms(1,2) unfolding amends_def by auto
  ultimately show ?thesis unfolding amends_def by blast
qed

lemma amends_mono:
  assumes "amends A R db db'" and "A \<subseteq> B" and "\<And>r s. r \<in> set (bd_items db) \<Longrightarrow> R r s \<Longrightarrow> S r s"
  shows "amends B S db db'"
proof -
  from assms(1) obtain f where
    f: "bd_items db' = map f (bd_items db)" "\<forall>r \<in> set (bd_items db). keeps_identity r (f r) \<and> R r (f r)"
    unfolding amends_def by blast
  then have "\<forall>r \<in> set (bd_items db). keeps_identity r (f r) \<and> S r (f r)" using assms(3) by simp
  with f(1) have "\<exists>f. bd_items db' = map f (bd_items db) \<and> (\<forall>r \<in> set (bd_items db). keeps_identity r (f r) \<and> S r (f r))"
    by blast
  with assms(1,2) show ?thesis unfolding amends_def by (meson subset_iff)
qed

text \<open>The effect on one row, found by its id.\<close>

lemma amends_get:
  assumes "amends A R db db'" and "store_get db i = Some r"
  shows "\<exists>s. store_get db' i = Some s \<and> keeps_identity r s \<and> R r s"
proof -
  from assms(1) obtain f where
    f: "bd_items db' = map f (bd_items db)" "\<forall>r \<in> set (bd_items db). keeps_identity r (f r) \<and> R r (f r)"
    unfolding amends_def by blast
  from assms(2) obtain xs ys where split: "bd_items db = xs @ r # ys" "it_id r = i" "\<forall>y \<in> set xs. it_id y \<noteq> i"
    unfolding store_get_def find_first_iff by blast
  have "bd_items db' = map f xs @ f r # map f ys" "it_id (f r) = i" "\<forall>y \<in> set (map f xs). it_id y \<noteq> i"
    using f split by (auto simp: keeps_identity_def)
  then have "store_get db' i = Some (f r)" unfolding store_get_def find_first_iff by blast
  then show ?thesis using f(2) split by simp
qed

text \<open>
  The operations as building blocks, for a relation that lets a row alone, and for one that
  also composes.
\<close>

locale row_stays =
  fixes R :: "roadmap_item \<Rightarrow> roadmap_item \<Rightarrow> bool"
  assumes stays: "R r r"
begin

lemma amends_refl: "amends A R db db"
  unfolding amends_def
  by (intro conjI exI [of _ id] exI [of _ "[]"] exI [of _ "\<lambda>_. True"]) (simp_all add: stays)

lemma amends_update:
  assumes "\<And>r. r \<in> set (bd_items db) \<Longrightarrow> P r \<Longrightarrow> keeps_identity r (f r) \<and> R r (f r)"
  shows "amends A R db (update_rows P f db)"
  using assms unfolding amends_def
  by (intro conjI exI [of _ "\<lambda>r. if P r then f r else r"] exI [of _ "[]"] exI [of _ "\<lambda>_. True"])
    (simp_all add: stays update_rows_def)

lemma amends_apply:
  assumes "store_apply E i p expected db = (x, db')"
    and "\<And>r. r \<in> set (bd_items db) \<Longrightarrow> apply_matches i expected r \<Longrightarrow> R r (apply_patch p (en_now E) r)"
  shows "amends A R db db'"
  using assms(1)
proof (cases rule: store_apply_cases)
  case 3
  show ?thesis unfolding 3(1)
    by (rule amends_update) (use assms(2) in \<open>auto simp: apply_patch_def keeps_identity_def\<close>)
qed (simp_all add: amends_refl)

lemma amends_proposals: "amends A R db (db\<lparr>bd_proposals := filter P (bd_proposals db)\<rparr>)"
  unfolding amends_def
  by (intro conjI exI [of _ id] exI [of _ "[]"] exI [of _ P]) (simp_all add: stays)

lemma amends_orders: "amends A R db (db\<lparr>bd_orders := os\<rparr>)"
  unfolding amends_def
  by (intro conjI exI [of _ id] exI [of _ "[]"] exI [of _ "\<lambda>_. True"]) (simp_all add: stays)

lemma amends_record:
  assumes "record_event E i p a k d db = (e, db')" and "a \<in> A"
  shows "amends A R db db'"
  unfolding amends_def using record_event_eq [OF assms(1)] assms(2)
  by (intro conjI exI [of _ id] exI [of _ "[e]"] exI [of _ "\<lambda>_. True"]) (simp_all add: stays)

end

lemma amends_then_same: "amends A R db db1 \<Longrightarrow> amends A (=) db1 db2 \<Longrightarrow> amends A R db db2"
  by (erule (1) amends_trans) simp

interpretation same: row_stays "(=)"
  by (rule row_stays.intro) simp

lemmas record_after = amends_then_same [OF _ same.amends_record]

locale row_change = row_stays R for R +
  assumes composes: "R r s \<Longrightarrow> R s t \<Longrightarrow> R r t"
begin

lemma amends_seq: "amends A R db db1 \<Longrightarrow> amends A R db1 db2 \<Longrightarrow> amends A R db db2"
  by (erule (1) amends_trans) (rule composes)

lemma amends_foldl:
  "(\<And>db x. x \<in> set xs \<Longrightarrow> amends A R db (f db x)) \<Longrightarrow> amends A R db (foldl f db xs)"
proof (induction xs arbitrary: db)
  case (Cons x xs)
  have "amends A R (f db x) (foldl f (f db x) xs)" by (rule Cons.IH) (simp add: Cons.prems)
  with Cons.prems have "amends A R db (foldl f (f db x) xs)" by (auto intro: amends_seq)
  then show ?case by simp
qed (simp add: amends_refl)

end

end
