(* ===== verification/Roadmap_Parties.thy ===== *)
theory Roadmap_Parties
  imports Roadmap_Rows
begin

text \<open>
  Who may change what. The board has four writers: the user's commands, the project-manager
  agent's operations, the drainer and the merge sweep. Each has an abstract contract, a relation
  between a row before and after it wrote; the lemmas show that the operations of the party
  refine it.
\<close>

section \<open>The contracts\<close>

definition keeps_text :: "roadmap_item \<Rightarrow> roadmap_item \<Rightarrow> bool" where
  "keeps_text r s \<longleftrightarrow>
     it_title s = it_title r \<and> it_why s = it_why r \<and> it_horizon s = it_horizon r \<and> it_area s = it_area r \<and>
     it_source s = it_source r \<and> it_accept s = it_accept r \<and> it_deps s = it_deps r"

definition keeps_hold :: "roadmap_item \<Rightarrow> roadmap_item \<Rightarrow> bool" where
  "keeps_hold r s \<longleftrightarrow>
     it_hold_reason s = it_hold_reason r \<and> it_held_by s = it_held_by r \<and> it_held_at s = it_held_at r"

definition keeps_runtime :: "roadmap_item \<Rightarrow> roadmap_item \<Rightarrow> bool" where
  "keeps_runtime r s \<longleftrightarrow>
     it_agent_id s = it_agent_id r \<and> it_workflow_def_id s = it_workflow_def_id r \<and> it_run_id s = it_run_id r \<and>
     it_pr_url s = it_pr_url r \<and> it_pr_number s = it_pr_number r"

text \<open>The three columns of a hold stand or fall together.\<close>

definition hold_ok :: "roadmap_item \<Rightarrow> bool" where
  "hold_ok r \<longleftrightarrow>
     (it_held_by r = None \<longleftrightarrow> it_hold_reason r = None) \<and> (it_held_at r = None \<longleftrightarrow> it_hold_reason r = None)"

text \<open>
  The agent suggests: it never reorders, rules or runs, never lifts a hold, and reshapes or moves a
  row only to turn a captured note into a proposal.
\<close>

definition pm_may :: "roadmap_item \<Rightarrow> roadmap_item \<Rightarrow> bool" where
  "pm_may r s \<longleftrightarrow>
     keeps_runtime r s \<and> it_rank s = it_rank r \<and> it_close_reason s = it_close_reason r \<and>
     (it_status s = it_status r \<or> it_status r = Captured \<and> it_status s = Proposed) \<and>
     (keeps_text r s \<or> it_status r = Captured) \<and>
     (keeps_hold r s \<or>
      it_hold_reason s \<noteq> None \<and> it_held_by s = Some ActPm \<and> it_held_at s \<noteq> None \<and> it_status r \<noteq> Rejected)"

definition pm_keeps :: "roadmap_item \<Rightarrow> roadmap_item \<Rightarrow> bool" where
  "pm_keeps r s \<longleftrightarrow> pm_may r s \<and> it_deps s = it_deps r"

text \<open>
  The drainer runs: it takes a row only off the queue, never a held one or one an agent has, and
  otherwise only reflects a run's end. What the user wrote stays.
\<close>

definition drainer_may :: "roadmap_item \<Rightarrow> roadmap_item \<Rightarrow> bool" where
  "drainer_may r s \<longleftrightarrow>
     keeps_text r s \<and> keeps_hold r s \<and> it_rank s = it_rank r \<and>
     it_agent_id s = it_agent_id r \<and> it_close_reason s = it_close_reason r \<and>
     (it_status s = it_status r \<or> it_status s \<in> {Open, InReview, Done} \<or>
      it_status s = Active \<and> it_status r = Queued \<and> it_hold_reason r = None \<and> it_agent_id r = None)"

text \<open>The sweep only moves a row out of review.\<close>

definition sweep_may :: "roadmap_item \<Rightarrow> roadmap_item \<Rightarrow> bool" where
  "sweep_may r s \<longleftrightarrow>
     keeps_text r s \<and> keeps_hold r s \<and> it_rank s = it_rank r \<and>
     it_agent_id s = it_agent_id r \<and> it_close_reason s = it_close_reason r \<and>
     (it_status s = it_status r \<or> it_status r = InReview \<and> (it_status s = Done \<or> it_status s = Open))"

text \<open>
  The user rules. A row is ruled off the board only while it is proposed, open or queued, and then
  with a reason, its hold and its agent gone; the reason stays while the row is off the board.
\<close>

definition user_may :: "roadmap_item \<Rightarrow> roadmap_item \<Rightarrow> bool" where
  "user_may r s \<longleftrightarrow>
     (it_status s = Rejected \<longrightarrow>
        it_status r = Rejected \<or>
        is_rulable (it_status r) \<and> it_close_reason s \<noteq> None \<and> it_hold_reason s = None \<and> it_agent_id s = None) \<and>
     (it_status r = Rejected \<and> it_status s = Rejected \<longrightarrow> it_close_reason s = it_close_reason r) \<and>
     (hold_ok r \<longrightarrow> hold_ok s)"

definition user_keeps :: "roadmap_item \<Rightarrow> roadmap_item \<Rightarrow> bool" where
  "user_keeps r s \<longleftrightarrow> user_may r s \<and> it_deps s = it_deps r"

definition rank_only :: "roadmap_item \<Rightarrow> roadmap_item \<Rightarrow> bool" where
  "rank_only r s \<longleftrightarrow>
     keeps_text r s \<and> keeps_hold r s \<and> keeps_runtime r s \<and>
     it_status s = it_status r \<and> it_close_reason s = it_close_reason r"

text \<open>
  An edit of the dependencies of item \<open>i\<close> went through the check against the board it was made on;
  every other row keeps its own.
\<close>

definition dep_checked :: "unicode \<Rightarrow> board_db \<Rightarrow> string \<Rightarrow> roadmap_item \<Rightarrow> roadmap_item \<Rightarrow> bool" where
  "dep_checked U db i r s \<longleftrightarrow>
     it_deps s = it_deps r \<or>
     it_id r = i \<and>
     validate_edit U (graph_of (store_list db (it_project_id r))) (rejected_of (store_list db (it_project_id r)))
       (it_code r) (it_deps s) = Inr ()"

definition user_edits :: "unicode \<Rightarrow> board_db \<Rightarrow> string \<Rightarrow> roadmap_item \<Rightarrow> roadmap_item \<Rightarrow> bool" where
  "user_edits U db i r s \<longleftrightarrow> user_may r s \<and> dep_checked U db i r s"

definition pm_edits :: "unicode \<Rightarrow> board_db \<Rightarrow> string \<Rightarrow> roadmap_item \<Rightarrow> roadmap_item \<Rightarrow> bool" where
  "pm_edits U db i r s \<longleftrightarrow> pm_may r s \<and> dep_checked U db i r s"

lemmas keeps_defs = keeps_text_def keeps_hold_def keeps_runtime_def

lemma keeps_refl [simp]: "keeps_text r r" "keeps_hold r r" "keeps_runtime r r"
  by (simp_all add: keeps_defs)

lemma keeps_trans:
  "keeps_text r s \<Longrightarrow> keeps_text s t \<Longrightarrow> keeps_text r t"
  "keeps_hold r s \<Longrightarrow> keeps_hold s t \<Longrightarrow> keeps_hold r t"
  "keeps_runtime r s \<Longrightarrow> keeps_runtime s t \<Longrightarrow> keeps_runtime r t"
  by (simp_all add: keeps_defs)

lemma dep_checked_refl [simp]: "dep_checked U db i r r"
  by (simp add: dep_checked_def)

lemma pm_may_trans:
  assumes "pm_may r s" and "pm_may s t"
  shows "pm_may r t"
proof -
  note a = assms(1) [unfolded pm_may_def] and b = assms(2) [unfolded pm_may_def]
  have status: "it_status t = it_status r \<or> it_status r = Captured \<and> it_status t = Proposed" using a b by auto
  have "keeps_text r t \<or> it_status r = Captured"
  proof (cases "it_status r = Captured")
    case False
    with a have "keeps_text r s" "it_status s \<noteq> Captured" by auto
    with b have "keeps_text s t" by blast
    with \<open>keeps_text r s\<close> keeps_trans(1) show ?thesis by blast
  qed simp
  moreover have "keeps_hold r t \<or>
      it_hold_reason t \<noteq> None \<and> it_held_by t = Some ActPm \<and> it_held_at t \<noteq> None \<and> it_status r \<noteq> Rejected"
  proof (cases "keeps_hold s t")
    case True
    show ?thesis
    proof (cases "keeps_hold r s")
      case True
      from keeps_trans(2) [OF True \<open>keeps_hold s t\<close>] show ?thesis by (rule disjI1)
    next
      case False
      with a \<open>keeps_hold s t\<close> show ?thesis by (auto simp: keeps_hold_def)
    qed
  next
    case False
    with b have placed: "it_hold_reason t \<noteq> None" "it_held_by t = Some ActPm" "it_held_at t \<noteq> None" "it_status s \<noteq> Rejected"
      by blast+
    moreover from placed(4) a have "it_status r \<noteq> Rejected" by auto
    ultimately show ?thesis by blast
  qed
  moreover have "keeps_runtime r t" using a b keeps_trans(3) by blast
  ultimately show ?thesis using a b status unfolding pm_may_def by simp
qed

lemma drainer_may_trans: "drainer_may r s \<Longrightarrow> drainer_may s t \<Longrightarrow> drainer_may r t"
  unfolding drainer_may_def by (elim conjE, intro conjI) (erule (1) keeps_trans | auto simp: keeps_hold_def)+

lemma sweep_may_trans: "sweep_may r s \<Longrightarrow> sweep_may s t \<Longrightarrow> sweep_may r t"
  unfolding sweep_may_def by (elim conjE, intro conjI) (erule (1) keeps_trans | auto)+

interpretation pm: row_change pm_may
proof
  show "pm_may r r" for r by (simp add: pm_may_def)
qed (rule pm_may_trans)

interpretation asks: row_change pm_keeps
proof
  show "pm_keeps r r" for r by (simp add: pm_keeps_def pm_may_def)
  show "pm_keeps r s \<Longrightarrow> pm_keeps s t \<Longrightarrow> pm_keeps r t" for r s t
    using pm_may_trans by (auto simp: pm_keeps_def)
qed

interpretation drain: row_change drainer_may
proof
  show "drainer_may r r" for r by (simp add: drainer_may_def)
qed (rule drainer_may_trans)

interpretation merges: row_change sweep_may
proof
  show "sweep_may r r" for r by (simp add: sweep_may_def)
qed (rule sweep_may_trans)

interpretation ranks: row_change rank_only
proof
  show "rank_only r r" for r by (simp add: rank_only_def)
  show "rank_only r s \<Longrightarrow> rank_only s t \<Longrightarrow> rank_only r t" for r s t
    by (auto simp: rank_only_def intro: keeps_trans)
qed

interpretation user: row_stays user_keeps
  by unfold_locales (simp add: user_keeps_def user_may_def)

interpretation edits: row_stays "user_edits U db i" for U db i
  by unfold_locales (simp add: user_edits_def user_may_def)

interpretation shapes: row_stays "pm_edits U db i" for U db i
  by unfold_locales (simp add: pm_edits_def pm_may_def)

text \<open>Every contract keeps a hold's columns together.\<close>

lemma contract_hold_ok:
  "pm_may r s \<Longrightarrow> hold_ok r \<Longrightarrow> hold_ok s"
  "drainer_may r s \<Longrightarrow> hold_ok r \<Longrightarrow> hold_ok s"
  "sweep_may r s \<Longrightarrow> hold_ok r \<Longrightarrow> hold_ok s"
  "user_may r s \<Longrightarrow> hold_ok r \<Longrightarrow> hold_ok s"
  by (auto simp: pm_may_def drainer_may_def sweep_may_def user_may_def hold_ok_def keeps_hold_def)

lemma rank_user: "rank_only r s \<Longrightarrow> user_keeps r s"
  by (simp add: rank_only_def user_keeps_def user_may_def hold_ok_def keeps_hold_def keeps_text_def)

lemma user_keeps_edits: "user_keeps r s \<Longrightarrow> user_edits U db i r s"
  by (simp add: user_keeps_def user_edits_def dep_checked_def)

end
