(* ===== verification/Roadmap_Refines.thy ===== *)
theory Roadmap_Refines
  imports Roadmap_Parties
begin

text \<open>
  Every operation of a party refines the party's contract: the user's commands and rulings, the
  agent's asks and holds, the drainer's claims and settlements, the sweep's verdicts. The
  operations that add rows are treated with the board's invariant.
\<close>

lemma store_get_row:
  "distinct (map it_id (bd_items db)) \<Longrightarrow> store_get db i = Some r \<Longrightarrow> s \<in> set (bd_items db) \<Longrightarrow> it_id s = i \<Longrightarrow> s = r"
  by (auto simp: distinct_map dest: store_get_SomeD inj_onD)

lemma store_get_exists: "r \<in> set (bd_items db) \<Longrightarrow> \<exists>c. store_get db (it_id r) = Some c"
  unfolding store_get_def by auto

context row_stays
begin

lemma hold_amends:
  assumes "hold_with_event E i reason by db = Inr (x, db')" and "by \<in> A"
    and "\<And>r. r \<in> set (bd_items db) \<Longrightarrow> it_id r = i \<Longrightarrow>
      R r (r\<lparr>it_hold_reason := Some reason, it_held_by := Some by, it_held_at := Some (en_now E),
             it_updated_at := en_now E\<rparr>)"
  shows "amends A R db db'"
proof -
  let ?f = "\<lambda>r. r\<lparr>it_hold_reason := Some reason, it_held_by := Some by, it_held_at := Some (en_now E),
             it_updated_at := en_now E\<rparr>"
  obtain j q e where "record_event E j q by EkHeld (Some reason) (update_rows (\<lambda>r. it_id r = i) ?f db) = (e, db')"
    using assms(1) by (auto simp: hold_with_event_def hold_item_def Let_def split: option.splits prod.splits)
  from record_after [OF amends_update this assms(2)] assms(3) show ?thesis by (simp add: keeps_identity_def)
qed

lemma apply_record_amends:
  assumes "store_apply E i p expected db = (Some r, db1)" and "record_event E j q a k d db1 = (e, db')" and "a \<in> A"
    and "\<And>r. r \<in> set (bd_items db) \<Longrightarrow> apply_matches i expected r \<Longrightarrow> R r (apply_patch p (en_now E) r)"
  shows "amends A R db db'"
  by (rule record_after [OF amends_apply assms(2,3)]) (use assms in auto)

end

section \<open>The user\<close>

lemma user_apply: "pt_status p \<noteq> Some Rejected \<Longrightarrow> user_may r (apply_patch p now r)"
  by (auto simp: user_may_def apply_patch_def patched_def hold_ok_def split: option.splits)

lemma user_keeps_apply:
  "pt_status p \<noteq> Some Rejected \<Longrightarrow> pt_deps p = None \<Longrightarrow> user_keeps r (apply_patch p now r)"
  by (simp add: user_keeps_def user_apply) (simp add: apply_patch_def patched_def)

lemma set_rank_user:
  assumes "set_rank E i rank db = Inr (x, db')"
  shows "amends {ActUser} user_keeps db db'"
proof -
  obtain y where "store_apply E i (item_patch_default\<lparr>pt_rank := Some rank\<rparr>) None db = (y, db')"
    using assms by (auto simp: set_rank_def store_update_def split: prod.splits option.splits)
  then show ?thesis by (rule user.amends_apply) (rule user_keeps_apply; simp add: item_patch_default_def)
qed

lemma hold_user:
  "hold_with_event E i reason ActUser db = Inr (x, db') \<Longrightarrow> amends {ActUser} user_keeps db db'"
  by (erule user.hold_amends) (simp_all add: user_keeps_def user_may_def hold_ok_def is_rulable_def)

lemma release_user:
  assumes "release_with_event E i db = Inr (x, db')"
  shows "amends {ActUser} user_keeps db db'"
proof -
  let ?f = "\<lambda>r. r\<lparr>it_hold_reason := None, it_held_by := None, it_held_at := None, it_updated_at := en_now E\<rparr>"
  have lifts: "amends {ActUser} user_keeps db (update_rows (\<lambda>r. it_id r = i) ?f db)"
    by (rule user.amends_update) (auto simp: keeps_identity_def user_keeps_def user_may_def hold_ok_def)
  consider "db' = db"
    | j q d e where "record_event E j q ActUser EkReleased d (update_rows (\<lambda>r. it_id r = i) ?f db) = (e, db')"
    using assms
    by (auto simp: release_with_event_def release_item_def Let_def map_option_case split: option.splits prod.splits)
  then show ?thesis
  proof cases
    case 1
    then show ?thesis by (simp add: user.amends_refl)
  next
    case 2
    from record_after [OF lifts this] show ?thesis by simp
  qed
qed

lemma assign_user:
  assumes "assign E i op db = Inr (x, db')"
  shows "amends {ActUser} user_keeps db db'"
proof -
  obtain a r db1 j q k d e where
    "store_apply E i (item_patch_default\<lparr>pt_agent_id := Some a\<rparr>) None db = (Some r, db1)"
    "record_event E j q ActUser k d db1 = (e, db')"
    using assms by (auto simp: assign_def store_update_def Let_def split: option.splits prod.splits sum.splits if_splits)
  then show ?thesis
    by (rule user.apply_record_amends) (simp_all add: user_keeps_apply item_patch_default_def)
qed

text \<open>A row is ruled off the board only from where the guard leaves it.\<close>

lemma store_reject_user:
  assumes "store_reject E i reason db = (x, db')"
    and "\<And>r. r \<in> set (bd_items db) \<Longrightarrow> it_id r = i \<Longrightarrow> is_rulable (it_status r)"
  shows "amends {ActUser} user_keeps db db'"
proof -
  have "it_status r \<noteq> Rejected" if "r \<in> set (bd_items db)" "it_id r = i" for r
    using assms(2) [OF that] by (auto simp: is_rulable_def)
  then have "amends {ActUser} user_keeps db
     (update_rows (\<lambda>r. it_id r = i)
        (\<lambda>r. r\<lparr>it_status := Rejected, it_close_reason := Some reason, it_hold_reason := None,
               it_held_by := None, it_held_at := None, it_agent_id := None, it_updated_at := en_now E\<rparr>) db)"
    using assms(2)
    by (intro user.amends_update) (auto simp: keeps_identity_def user_keeps_def user_may_def hold_ok_def)
  moreover have "db' = update_rows (\<lambda>r. it_id r = i)
        (\<lambda>r. r\<lparr>it_status := Rejected, it_close_reason := Some reason, it_hold_reason := None,
               it_held_by := None, it_held_at := None, it_agent_id := None, it_updated_at := en_now E\<rparr>) db"
    using assms(1) by (auto simp: store_reject_def Let_def)
  ultimately show ?thesis by simp
qed

lemma proposal_delete_amends: "amends A (=) db (proposal_delete i db)"
  unfolding proposal_delete_def by (rule same.amends_proposals)

lemma same_then_amends: "amends A (=) db db1 \<Longrightarrow> amends A R db1 db2 \<Longrightarrow> amends A R db db2"
  by (erule (1) amends_trans) simp

lemma reject_item_user:
  assumes ids: "distinct (map it_id (bd_items db))" and "reject_item E i reason db = Inr (x, db')"
  shows "amends {ActUser} user_keeps db db'"
proof -
  obtain why current where current: "store_get db i = Some current" "is_rulable (it_status current)"
    using assms(2)
    by (cases "store_get db i"; cases "it_status (the (store_get db i))")
      (auto simp: reject_item_def store_require_def is_rulable_def Let_def split: option.splits sum.splits if_splits)
  define db1 where "db1 = (case proposal_for_item db i of Some p \<Rightarrow> proposal_delete (pr_id p) db | None \<Rightarrow> db)"
  have db1: "amends {ActUser} (=) db db1" "bd_items db1 = bd_items db"
    by (simp_all add: db1_def same.amends_refl proposal_delete_amends split: option.split)
      (simp add: proposal_delete_def)
  obtain why r db2 j q k d e where
    "store_reject E i why db1 = (Some r, db2)" "record_event E j q ActUser k d db2 = (e, db')"
    using assms(2) unfolding reject_item_def store_require_def Let_def db1_def [symmetric] current(1)
    by (auto split: option.splits sum.splits if_splits prod.splits)
  note steps = this
  have "is_rulable (it_status s)" if "s \<in> set (bd_items db1)" "it_id s = i" for s
    using store_get_row [OF ids current(1)] that current(2) db1(2) by auto
  from same_then_amends [OF db1(1) record_after [OF store_reject_user [OF steps(1) this] steps(2)]]
  show ?thesis by simp
qed

lemma correct_loop_amends:
  "correct_loop E code deps db = (es, db') \<Longrightarrow> amends {ActUser} (=) db db'"
proof (induction deps arbitrary: es db)
  case (Cons d deps)
  show ?case
  proof (cases "wedged_on db code d")
    case True
    then obtain e db1 fs where
      "record_event E (it_id d) (it_project_id d) ActUser EkNote
         (Some (code @ '' was reopened '' @ em_dash @ '' waiting on it normally again'')) db = (e, db1)"
      "correct_loop E code deps db1 = (fs, db')"
      using Cons.prems by (auto simp: Let_def split: prod.splits)
    from same_then_amends [OF same.amends_record [OF this(1)] Cons.IH [OF this(2)]] show ?thesis by simp
  next
    case False
    with Cons show ?thesis by simp
  qed
qed (simp add: same.amends_refl)

lemma reopen_item_user:
  assumes "reopen_item E i db = Inr (x, db')"
  shows "amends {ActUser} user_keeps db db'"
proof -
  let ?f = "\<lambda>r. r\<lparr>it_status := Open, it_close_reason := None, it_hold_reason := None,
                  it_held_by := None, it_held_at := None, it_updated_at := en_now E\<rparr>"
  let ?db = "update_rows (\<lambda>r. it_id r = i \<and> it_status r = Rejected) ?f db"
  have opens: "amends {ActUser} user_keeps db ?db"
    by (rule user.amends_update) (auto simp: keeps_identity_def user_keeps_def user_may_def hold_ok_def)
  consider "db' = db" | "db' = ?db" | j q k d e db2 code deps es where
      "record_event E j q ActUser k d ?db = (e, db2)" "correct_loop E code deps db2 = (es, db')"
    using assms
    by (auto simp: reopen_item_def store_reopen_def correct_wedged_dependants_def Let_def
        split: option.splits prod.splits if_splits)
  then show ?thesis
  proof cases
    case 1
    then show ?thesis by (simp add: user.amends_refl)
  next
    case 2
    then show ?thesis using opens by simp
  next
    case 3
    have "amends {ActUser} user_keeps db db2" by (rule record_after [OF opens 3(1)]) simp
    from amends_then_same [OF this correct_loop_amends [OF 3(2)]] show ?thesis .
  qed
qed

text \<open>Order: only ranks move.\<close>

lemma set_ranks_loop_amends:
  "set_ranks_loop E n ids db = (rows, db') \<Longrightarrow> amends A rank_only db db'"
proof (induction ids arbitrary: n rows db)
  case (Cons i ids)
  let ?db = "update_rows (\<lambda>r. it_id r = i) (\<lambda>r. r\<lparr>it_rank := of_nat (n + 1), it_updated_at := en_now E\<rparr>) db"
  have "amends A rank_only db ?db"
    by (rule ranks.amends_update) (simp add: keeps_identity_def rank_only_def keeps_defs)
  moreover obtain rows1 where "set_ranks_loop E (Suc n) ids ?db = (rows1, db')"
    using Cons.prems by (auto simp: Let_def split: prod.splits option.splits)
  ultimately show ?case using Cons.IH ranks.amends_seq by blast
qed (simp add: ranks.amends_refl)

lemma order_delete_amends: "amends A (=) db (order_delete p db)"
  unfolding order_delete_def by (rule same.amends_orders)

lemma accept_order_user:
  assumes "accept_order E p db = Inr (x, db')"
  shows "amends {ActUser} user_keeps db db'"
proof -
  consider "db' = order_delete p db" | ids rows db1 where "set_ranks E ids db = (rows, db1)" "db' = order_delete p db1"
    using assms by (auto simp: accept_order_def Let_def split: option.splits sum.splits prod.splits)
  then show ?thesis
  proof cases
    case 1
    then show ?thesis using same_then_amends [OF order_delete_amends user.amends_refl] by simp
  next
    case 2
    have "amends {ActUser} rank_only db db1"
      using 2(1) unfolding set_ranks_def by (rule set_ranks_loop_amends)
    then have "amends {ActUser} user_keeps db db1" by (rule amends_mono) (auto intro: rank_user)
    then show ?thesis unfolding 2(2) by (rule amends_then_same) (rule order_delete_amends)
  qed
qed

section \<open>Edits of the dependencies\<close>

lemma check_edit_checked:
  assumes "distinct (map it_id (bd_items db))" and "store_get db i = Some c"
    and "check_edit U (store_list db (it_project_id c)) c ds = Inr ()"
    and "r \<in> set (bd_items db)" and "it_id r = i" and "it_deps s = ds"
  shows "dep_checked U db i r s"
proof -
  have "r = c" using store_get_row [OF assms(1,2,4,5)] .
  with assms(3,5,6) show ?thesis by (auto simp: dep_checked_def check_edit_def split: if_splits)
qed

lemma apply_checked:
  assumes "distinct (map it_id (bd_items db))"
    and "case (pt_deps p, store_get db i) of
           (Some ds, Some c) \<Rightarrow> check_edit U (store_list db (it_project_id c)) c ds = Inr ()
         | _ \<Rightarrow> True"
    and "r \<in> set (bd_items db)" and "apply_matches i expected r"
  shows "dep_checked U db i r (apply_patch p now r)"
proof (cases "pt_deps p")
  case None
  then show ?thesis by (simp add: dep_checked_def apply_patch_def patched_def)
next
  case (Some ds)
  have id: "it_id r = i" using assms(4) by (simp add: apply_matches_def)
  obtain c where c: "store_get db i = Some c"
    using store_get_exists [OF assms(3)] id by auto
  from assms(2) Some c have "check_edit U (store_list db (it_project_id c)) c ds = Inr ()" by simp
  from check_edit_checked [OF assms(1) c this assms(3) id] Some
  show ?thesis by (simp add: apply_patch_def patched_def)
qed

lemma accept_proposal_user:
  assumes ids: "distinct (map it_id (bd_items db))" and "accept_proposal E pid db = Inr (x, db')"
  shows "\<exists>i. amends {ActUser} (user_edits (en_unicode E) db i) db db'"
proof -
  have finish: "amends {ActUser} R db db2"
    if "finish_accept E r k v n pid db1 = (y, db2)" "amends {ActUser} R db db1" for r k v n y db1 db2 R
  proof -
    from that(1) obtain e db0 where "record_event E (it_id r) (it_project_id r) ActUser k (Some (ruling_detail v n)) db1 = (e, db0)"
      "db2 = proposal_delete pid db0"
      by (auto simp: finish_accept_def Let_def split: prod.splits)
    with record_after [OF that(2) this(1)] show ?thesis
      by (auto intro: amends_then_same proposal_delete_amends)
  qed
  obtain p r where p: "proposal_get db pid = Some p" "store_get db (pr_item_id p) = Some r"
    using assms(2) by (auto simp: accept_proposal_def split: option.splits)
  note body = assms(2) [unfolded accept_proposal_def p option.case]
  consider "db' = proposal_delete pid db"
    | pp s db1 y v n where
        "case pp_deps pp of Some ds \<Rightarrow> check_edit (en_unicode E) (store_list db (it_project_id r)) r ds = Inr () | None \<Rightarrow> True"
        "store_apply E (it_id r) (to_item_patch pp) None db = (Some s, db1)"
        "finish_accept E s EkEdited v n pid db1 = (y, db')"
    | w s db1 y v n where "is_rulable (it_status r)"
        "store_reject E (it_id r) w db = (Some s, db1)" "finish_accept E s EkRejected v n pid db1 = (y, db')"
  proof (cases "is_rulable (it_status r)")
    case False
    with body that(1) show ?thesis by (auto simp: proposal_gate_def)
  next
    case gate: True
    then have free: "proposal_gate r = Inr ()" by (simp add: proposal_gate_def)
    show ?thesis
    proof (cases "pr_kind p")
      case PkUpdate
      show ?thesis
      proof (cases "pr_patch p")
        case None
        with body PkUpdate free show ?thesis by simp
      next
        case (Some pp)
        let ?check = "case pp_deps pp of
            Some ds \<Rightarrow> check_edit (en_unicode E) (store_list db (it_project_id r)) r ds | None \<Rightarrow> Inr ()"
        show ?thesis
        proof (cases ?check)
          case (Inl e)
          with body PkUpdate Some free that(1) show ?thesis by simp
        next
          case (Inr u)
          then have "case pp_deps pp of Some ds \<Rightarrow> check_edit (en_unicode E) (store_list db (it_project_id r)) r ds = Inr ()
              | None \<Rightarrow> True" by (simp split: option.splits)
          moreover from body PkUpdate Some free Inr obtain s db1 y where
            "store_apply E (it_id r) (to_item_patch pp) None db = (Some s, db1)"
            "finish_accept E s EkEdited ''Accepted'' (pr_note p) pid db1 = (y, db')"
            by (auto simp: store_update_def split: option.splits prod.splits)
          ultimately show ?thesis by (rule that(2))
        qed
      qed
    next
      case PkDiscard
      with body free obtain w s db1 y where
        "store_reject E (it_id r) w db = (Some s, db1)"
        "finish_accept E s EkRejected ''Rejected'' (pr_note p) pid db1 = (y, db')"
        by (auto split: option.splits prod.splits)
      with gate show ?thesis by (rule that(3))
    qed
  qed
  then show ?thesis
  proof cases
    case 1
    then show ?thesis using same_then_amends [OF proposal_delete_amends edits.amends_refl] by blast
  next
    case 2
    have "pt_status (to_item_patch pp) \<noteq> Some Rejected" "pt_deps (to_item_patch pp) = pp_deps pp"
      by (simp_all add: to_item_patch_def item_patch_default_def)
    moreover have id: "it_id r = pr_item_id p" using store_get_SomeD [OF p(2)] by simp
    ultimately have "amends {ActUser} (user_edits (en_unicode E) db (it_id r)) db db1"
      using p(2) 2(1) by (intro edits.amends_apply [OF 2(2)])
        (auto simp: user_edits_def user_apply intro!: apply_checked [OF ids] split: option.splits)
    from finish [OF 2(3) this] show ?thesis by blast
  next
    case 3
    have "is_rulable (it_status s)" if "s \<in> set (bd_items db)" "it_id s = it_id r" for s
      using store_get_row [OF ids p(2) that(1)] store_get_SomeD [OF p(2)] that(2) 3(1) by auto
    from finish [OF 3(3) store_reject_user [OF 3(2) this]]
    have "amends {ActUser} user_keeps db db'" .
    then show ?thesis by (intro exI, rule amends_mono) (auto intro: user_keeps_edits)
  qed
qed

lemma reject_proposal_user:
  assumes "reject_proposal E pid db = Inr (x, db')"
  shows "amends {ActUser} user_keeps db db'"
proof -
  obtain j q d where "record_event E j q ActUser EkNote d (proposal_delete pid db) = (x, db')"
    using assms by (auto simp: reject_proposal_def split: option.splits)
  from same_then_amends [OF proposal_delete_amends user.amends_record [OF this]] show ?thesis by simp
qed

lemma update_and_record_user:
  assumes ids: "distinct (map it_id (bd_items db))" and "update_and_record E i p expect queue db = Inr (x, db')"
  shows "amends {ActUser} (user_edits (en_unicode E) db i) db db'"
proof -
  define landing where "landing = (if is_accept expect p then landing_for db i queue else None)"
  define eff where "eff = (case landing of Some l \<Rightarrow> p\<lparr>pt_status := Some (landing_status l)\<rparr> | None \<Rightarrow> p)"
  define gate where "gate = (case (pt_deps p, store_get db i) of
       (Some ds, Some c) \<Rightarrow> check_edit (en_unicode E) (store_list db (it_project_id c)) c ds | _ \<Rightarrow> Inr ())"
  obtain y db1 where written: "store_apply E i eff expect db = (y, db1)" by fastforce
  have status: "pt_status p \<noteq> Some Rejected" "gate = Inr ()"
    using assms(2) by (auto simp: update_and_record_def gate_def split: if_splits sum.splits)
  note body = assms(2) [unfolded update_and_record_def landing_def [symmetric] eff_def [symmetric]
      gate_def [symmetric] Let_def status(2) sum.case]
  have ok: "case (pt_deps eff, store_get db i) of
        (Some ds, Some c) \<Rightarrow> check_edit (en_unicode E) (store_list db (it_project_id c)) c ds = Inr () | _ \<Rightarrow> True"
    using status(2) by (auto simp: gate_def eff_def split: option.splits)
  have "landing_status l \<noteq> Rejected" for l by (cases l) simp_all
  with status(1) have "pt_status eff \<noteq> Some Rejected" by (auto simp: eff_def split: option.splits)
  then have writes: "user_edits (en_unicode E) db i r (apply_patch eff (en_now E) r)"
    if "r \<in> set (bd_items db)" "apply_matches i expect r" for r
    using that by (simp add: user_edits_def user_apply apply_checked [OF ids ok])
  have applied: "amends {ActUser} (user_edits (en_unicode E) db i) db db1"
    using written writes by (rule edits.amends_apply)
  have "(case expect of Some s \<Rightarrow> update_where_status E i s eff db | None \<Rightarrow> store_update E i eff db) = (y, db1)"
    using written by (cases expect) (simp_all add: update_where_status_def store_update_def)
  with body status(1) consider "db' = db1"
    | j q k d e where "record_event E j q ActUser k d db1 = (e, db')"
    by (auto split: option.splits prod.splits)
  then show ?thesis
  proof cases
    case 1
    with applied show ?thesis by simp
  next
    case 2
    from record_after [OF applied this] show ?thesis by simp
  qed
qed

section \<open>The agent\<close>

lemma place_hold_pm:
  assumes ids: "distinct (map it_id (bd_items db))" and "place_hold E p scope raw db = Inr (HeldItem r e, db')"
  shows "amends {ActPm} pm_keeps db db'"
proof -
  obtain c why where c: "List.find (\<lambda>r. it_code r = trim scope) (store_list db p) = Some c" "it_status c \<noteq> Rejected"
    "hold_with_event E (it_id c) why ActPm db = Inr ((r, e), db')"
    using assms(2) by (auto simp: place_hold_def Let_def split: sum.splits if_splits option.splits prod.splits)
  have "c \<in> set (bd_items db)" using find_SomeD [OF c(1)] by (simp add: store_list_set)
  have "it_status s \<noteq> Rejected" if "s \<in> set (bd_items db)" "it_id s = it_id c" for s
    using ids that \<open>c \<in> set (bd_items db)\<close> c(2) by (auto simp: distinct_map dest: inj_onD)
  then show ?thesis
    by (intro asks.hold_amends [OF c(3)]) (auto simp: pm_keeps_def pm_may_def keeps_text_def keeps_runtime_def)
qed

lemma record_note_pm:
  assumes "record_note E p code raw db = Inr (x, db')"
  shows "amends {ActPm} pm_keeps db db'"
proof -
  obtain j q d where "record_event E j q ActPm EkNote d db = (x, db')"
    using assms by (auto simp: record_note_def Let_def split: if_splits option.splits)
  then show ?thesis by (rule asks.amends_record) simp
qed

end
