(* ===== verification/Roadmap_Board.thy ===== *)
theory Roadmap_Board
  imports Roadmap_Refines
begin

text \<open>
  The invariant of the board: ids and codes name one row each, every code and dependency lies below
  the project's counter, so that an allocated code is new, the columns of a hold stand together, an
  item has one pending ask at most, and no item waits on itself.
\<close>

section \<open>Code numbers\<close>

definition ascii_word :: "string \<Rightarrow> bool" where
  "ascii_word s \<longleftrightarrow> list_all is_ascii_alphanumeric s"

lemma digit_byte: "is_ascii_digit c \<Longrightarrow> byte_of c < 128 \<and> c \<noteq> CHR ''-'' \<and> c \<noteq> CHR ''+''"
  by (auto simp: is_ascii_digit_def byte_of_def)

lemma split_no_sep: "list_all (\<lambda>c. \<not> P c) cs \<Longrightarrow> split_chars P cs = [concat cs]"
  by (induction cs) auto

lemma split_chars_ne: "split_chars P cs \<noteq> []"
  by (cases cs) (auto split: list.splits)

lemma last_split_chars: "P c \<Longrightarrow> last (split_chars P (xs @ c # ys)) = last (split_chars P ys)"
proof (induction xs)
  case Nil
  then show ?case by (simp add: split_chars_ne)
next
  case (Cons x xs)
  have two: "length (split_chars P (zs @ c # ys)) \<ge> 2" for zs
    using Cons.prems by (induction zs) (auto split: list.splits simp: Suc_le_eq split_chars_ne)
  show ?case
  proof (cases "split_chars P (xs @ c # ys)")
    case (Cons w ws)
    then have "ws \<noteq> []" using two [of xs] by auto
    with Cons Cons.IH [OF Cons.prems] show ?thesis by (auto simp: split_chars_ne)
  qed (simp add: split_chars_ne)
qed

text \<open>A code reads back as the number it was made from.\<close>

lemma parse_i64_show: "int n \<le> i64_max \<Longrightarrow> parse_i64 (show_nat n) = Some (int n)"
proof -
  assume n: "int n \<le> i64_max"
  obtain c cs where c: "show_nat n = c # cs" using show_nat_ne [of n] by (cases "show_nat n") auto
  then have "is_ascii_digit c" using show_nat_digits [of n] by simp
  with digit_byte have "c \<noteq> CHR ''-''" "c \<noteq> CHR ''+''" by auto
  moreover have "digits_value 0 (c # cs) = n" "list_all is_ascii_digit (c # cs)"
    using c show_nat_digits [of n] digits_value_show_nat [of n] by simp_all
  ultimately show ?thesis using n by (simp add: parse_i64_def c i64_max_def)
qed

lemma code_number_made:
  assumes "ascii_word p" and "int n \<le> i64_max"
  shows "code_number (p @ ''-'' @ show_nat n) = Some (int n)"
proof -
  have word: "byte_of c < 128" if "is_ascii_alphanumeric c" for c
    using that by (auto simp: is_ascii_alphanumeric_def is_ascii_digit_def)
  have "list_all (\<lambda>c. byte_of c < 128) (p @ ''-'' @ show_nat n)"
    using assms(1) word show_nat_digits [of n] digit_byte
    by (auto simp: ascii_word_def list_all_iff byte_of_def)
  then have chars: "utf8_chars (p @ ''-'' @ show_nat n) =
      map (\<lambda>c. [c]) p @ ''-'' # map (\<lambda>c. [c]) (show_nat n)"
    by (simp add: utf8_chars_ascii)
  have single: "concat (map (\<lambda>c. [c]) s) = s" for s :: string by (induction s) auto
  have digits: "list_all (\<lambda>c. \<not> c = ''-'') (map (\<lambda>c. [c]) (show_nat n))"
    using show_nat_digits [of n] digit_byte by (auto simp: list_all_iff)
  have "last (split_by (\<lambda>c. c = ''-'') (p @ ''-'' @ show_nat n)) =
      last (split_chars (\<lambda>c. c = ''-'') (map (\<lambda>c. [c]) (show_nat n)))"
    unfolding split_by_def chars by (rule last_split_chars) simp
  also have "\<dots> = show_nat n"
    using split_no_sep [OF digits] single [of "show_nat n"] by simp
  finally show ?thesis using parse_i64_show [OF assms(2)] by (simp add: code_number_def)
qed

text \<open>A derived prefix is one ASCII word.\<close>

lemma take_words:
  assumes "w \<in> set (split_chars P cs)" and "\<And>c. c \<in> set cs \<Longrightarrow> \<not> P c \<Longrightarrow> ascii_word c"
  shows "ascii_word w"
  using assms
proof (induction cs arbitrary: w)
  case (Cons c cs)
  obtain v vs where v: "split_chars P cs = v # vs" using split_chars_ne [of P cs] by (cases "split_chars P cs") auto
  have rest: "ascii_word u" if "u \<in> set (v # vs)" for u
    using Cons.IH [of u] Cons.prems(2) that v by auto
  show ?case
  proof (cases "P c")
    case True
    with Cons.prems(1) rest v show ?thesis by (auto simp: ascii_word_def)
  next
    case False
    then have "ascii_word c" using Cons.prems(2) by simp
    with False Cons.prems(1) rest v show ?thesis by (auto simp: ascii_word_def)
  qed
qed (simp add: ascii_word_def)

lemma upper_word: "ascii_word s \<Longrightarrow> ascii_word (to_ascii_uppercase s)"
proof -
  have "is_ascii_alphanumeric (char_of (byte_of c - 32))" if "97 \<le> byte_of c" "byte_of c \<le> 122" for c
  proof -
    have "byte_of (char_of (byte_of c - 32)) = byte_of c - 32" using that by (simp add: byte_of_def)
    moreover have "65 \<le> byte_of c - 32" "byte_of c - 32 \<le> 90" using that by linarith+
    ultimately show ?thesis by (simp add: is_ascii_alphanumeric_def)
  qed
  then show "ascii_word s \<Longrightarrow> ascii_word (to_ascii_uppercase s)"
    by (auto simp: ascii_word_def to_ascii_uppercase_def list_all_iff)
qed

lemma initials_word:
  assumes "\<And>w. w \<in> set ws \<Longrightarrow> ascii_word w \<and> w \<noteq> []"
  shows "ascii_word (if length ws \<ge> 2 then map hd (take 4 ws) else (case ws of w # _ \<Rightarrow> take 3 w | [] \<Rightarrow> []))"
proof (cases "length ws \<ge> 2")
  case True
  have "is_ascii_alphanumeric (hd w)" if "w \<in> set (take 4 ws)" for w
    using assms [of w] in_set_takeD [OF that] by (cases w) (auto simp: ascii_word_def)
  with True show ?thesis by (simp add: ascii_word_def list_all_iff)
next
  case False
  have "ascii_word (take 3 w)" if "ascii_word w" for w
    using that by (auto simp: ascii_word_def list_all_iff dest: in_set_takeD)
  with False assms show ?thesis by (cases ws) (auto simp: ascii_word_def)
qed

lemma derive_prefix_word: "ascii_word (derive_prefix name) \<and> derive_prefix name \<noteq> []"
proof -
  let ?words = "filter (\<lambda>w. w \<noteq> []) (split_by (\<lambda>c. \<not> list_all is_ascii_alphanumeric c) name)"
  have words: "ascii_word w \<and> w \<noteq> []" if "w \<in> set ?words" for w
    using that take_words [of w "\<lambda>c. \<not> list_all is_ascii_alphanumeric c" "utf8_chars name"]
    by (auto simp: split_by_def ascii_word_def)
  let ?c = "if length ?words \<ge> 2 then map hd (take 4 ?words) else (case ?words of w # _ \<Rightarrow> take 3 w | [] \<Rightarrow> [])"
  have "ascii_word ?c" using words by (intro initials_word) blast
  then have up: "ascii_word (to_ascii_uppercase ?c)" by (rule upper_word)
  have "ascii_word fallback_prefix \<and> fallback_prefix \<noteq> []" by code_simp
  moreover have "derive_prefix name =
      (if length (to_ascii_uppercase ?c) \<ge> 2 then to_ascii_uppercase ?c else fallback_prefix)"
    unfolding derive_prefix_def Let_def by (rule refl)
  ultimately show ?thesis using up by auto
qed

section \<open>The counter\<close>

definition counter :: "board_db \<Rightarrow> string \<Rightarrow> int option" where
  "counter db p = Option.bind (bd_settings db (p, seq_key)) (\<lambda>v. parse_i64 (trim v))"

text \<open>Codes and dependencies the counter has passed; none of them looks like a batch reference.\<close>

definition below_counter :: "board_db \<Rightarrow> string \<Rightarrow> string \<Rightarrow> bool" where
  "below_counter db p c \<longleftrightarrow>
     \<not> prefix [batch_prefix] c \<and> (\<exists>n k. code_number c = Some n \<and> counter db p = Some k \<and> 0 \<le> n \<and> n < k)"

definition sound_prefixes :: "board_db \<Rightarrow> bool" where
  "sound_prefixes db \<longleftrightarrow> (\<forall>p v. bd_settings db (p, prefix_key) = Some v \<longrightarrow> ascii_word v)"

definition room :: "board_db \<Rightarrow> string \<Rightarrow> nat \<Rightarrow> bool" where
  "room db p k \<longleftrightarrow> next_number db p + int k \<le> i64_max"

definition grows :: "board_db \<Rightarrow> board_db \<Rightarrow> bool" where
  "grows db db' \<longleftrightarrow> (\<forall>p c. below_counter db p c \<longrightarrow> below_counter db' p c)"

lemma next_number_ge: "counter db p = Some k \<Longrightarrow> k \<le> next_number db p"
  by (auto simp: counter_def next_number_def Let_def)

lemma keys_differ: "prefix_key \<noteq> seq_key" "seq_key \<noteq> prefix_key"
  by (simp_all add: prefix_key_def seq_key_def)

text \<open>What allocating a code does: a code the counter had not passed, and has passed now.\<close>

lemma code_prefix_word:
  assumes "code_prefix E p db = (w, db1)" and "sound_prefixes db"
  shows "ascii_word w \<and> w \<noteq> [] \<and> sound_prefixes db1 \<and>
    bd_items db1 = bd_items db \<and> (\<forall>q. bd_settings db1 (q, seq_key) = bd_settings db (q, seq_key))"
proof -
  have ne: "trim v \<noteq> [] \<Longrightarrow> v \<noteq> []" for v
    by (auto simp: trim_def trim_matches_def trim_start_matches_def trim_end_matches_def)
  have "sound_prefixes (set_setting p prefix_key (derive_prefix n) db)" for n
    using assms(2) derive_prefix_word [of n] by (simp add: sound_prefixes_def set_setting_def)
  then show ?thesis
    using assms derive_prefix_word ne keys_differ
    by (auto simp: code_prefix_def Let_def sound_prefixes_def set_setting_def split: option.splits if_splits)
qed

lemma next_number_cong:
  "bd_items db' = bd_items db \<Longrightarrow> bd_settings db' (p, seq_key) = bd_settings db (p, seq_key) \<Longrightarrow>
     next_number db' p = next_number db p"
  by (simp add: next_number_def)

lemma next_number_nonneg:
  assumes "\<And>r n. r \<in> set (bd_items db) \<Longrightarrow> it_project_id r = p \<Longrightarrow> code_number (it_code r) = Some n \<Longrightarrow> 0 \<le> n"
  shows "0 \<le> next_number db p"
proof -
  let ?ns = "List.map_filter (\<lambda>i. code_number (it_code i)) (filter (\<lambda>i. it_project_id i = p) (bd_items db))"
  let ?h = "if ?ns = [] then first_number - 1 else fold max (tl ?ns) (hd ?ns)"
  have ge: "0 \<le> n" if "n \<in> set ?ns" for n using that assms by (auto simp: set_map_filter_iff)
  have "m \<le> fold max ns m" for m :: int and ns
    by (induction ns arbitrary: m) (simp, metis fold_simps(2) max.bounded_iff)
  then have "hd ?ns \<le> fold max (tl ?ns) (hd ?ns)" by blast
  moreover have "0 \<le> hd ?ns" if "?ns \<noteq> []" using ge hd_in_set [OF that] by blast
  ultimately have "0 \<le> ?h + 1" by (auto simp: first_number_def)
  then show ?thesis unfolding next_number_def Let_def by (auto simp: max_def)
qed

lemma next_code_new:
  assumes "next_code E p db = (c, db1)" and "sound_prefixes db" and "0 \<le> next_number db p" and "room db p 1"
  shows "\<not> below_counter db p c" and "below_counter db1 p c" and "grows db db1" and "sound_prefixes db1"
    and "bd_items db1 = bd_items db" and "counter db1 p = Some (next_number db p + 1)"
proof -
  obtain w db2 where w: "code_prefix E p db = (w, db2)" by fastforce
  note word = code_prefix_word [OF w assms(2)]
  define m where "m = next_number db p"
  have m: "next_number db2 p = m" unfolding m_def using word by (intro next_number_cong) auto
  have c: "c = w @ ''-'' @ show_nat (nat m)"
    and db1: "db1 = set_setting p seq_key (show_nat (nat (m + 1))) db2"
    using assms(1) by (simp_all add: next_code_def w m)
  have number: "code_number c = Some m"
    unfolding c using code_number_made [of w "nat m"] word assms(3,4) by (simp add: room_def m_def)
  have counter1: "counter db1 p = Some (m + 1)"
  proof -
    have "parse_i64 (show_nat (nat (m + 1))) = Some (int (nat (m + 1)))"
      using assms(4) by (intro parse_i64_show) (simp add: room_def m_def i64_max_def)
    then show ?thesis
      using assms(3) by (simp add: counter_def db1 set_setting_def trim_digits [OF show_nat_digits] m_def)
  qed
  have other: "counter db1 q = counter db q" if "q \<noteq> p" for q
    using that word by (simp add: counter_def db1 set_setting_def)
  have plain: "\<not> prefix [batch_prefix] c"
    using word by (cases w) (auto simp: c ascii_word_def batch_prefix_def is_ascii_alphanumeric_def is_ascii_digit_def byte_of_def)
  show "\<not> below_counter db p c" using next_number_ge [of db p] number by (auto simp: below_counter_def m_def)
  show "below_counter db1 p c" using plain number counter1 assms(3) by (simp add: below_counter_def m_def)
  show "grows db db1"
    unfolding grows_def
  proof (intro allI impI)
    fix q d assume d: "below_counter db q d"
    show "below_counter db1 q d"
    proof (cases "q = p")
      case True
      with d counter1 next_number_ge [of db p] show ?thesis by (fastforce simp: below_counter_def m_def)
    next
      case False
      with d other [OF False] show ?thesis by (simp add: below_counter_def)
    qed
  qed
  show "sound_prefixes db1"
    using word keys_differ by (simp add: db1 sound_prefixes_def set_setting_def)
  show "bd_items db1 = bd_items db" using word by (simp add: db1 set_setting_def)
  show "counter db1 p = Some (next_number db p + 1)" using counter1 by (simp add: m_def)
qed

section \<open>The invariant\<close>

definition sound_ids :: "(nat \<Rightarrow> string) \<Rightarrow> board_db \<Rightarrow> bool" where
  "sound_ids uuid db \<longleftrightarrow>
     distinct (map it_id (bd_items db)) \<and> (\<forall>r \<in> set (bd_items db). \<exists>n < bd_drawn db. it_id r = uuid n)"

definition sound_codes :: "board_db \<Rightarrow> bool" where
  "sound_codes db \<longleftrightarrow>
     sound_prefixes db \<and> distinct (map (\<lambda>r. (it_project_id r, it_code r)) (bd_items db)) \<and>
     (\<forall>r \<in> set (bd_items db). below_counter db (it_project_id r) (it_code r))"

definition sound_deps :: "board_db \<Rightarrow> bool" where
  "sound_deps db \<longleftrightarrow>
     (\<forall>r \<in> set (bd_items db). \<forall>d \<in> set (it_deps r). below_counter db (it_project_id r) d) \<and>
     (\<forall>p. acyclic_board (graph_of (store_list db p)))"

definition sound_rows :: "board_db \<Rightarrow> bool" where
  "sound_rows db \<longleftrightarrow> list_all hold_ok (bd_items db) \<and> distinct (map pr_item_id (bd_proposals db))"

definition sound_board :: "(nat \<Rightarrow> string) \<Rightarrow> board_db \<Rightarrow> bool" where
  "sound_board uuid db \<longleftrightarrow> sound_ids uuid db \<and> sound_codes db \<and> sound_deps db \<and> sound_rows db"

text \<open>With distinct codes the graph of a project is its rows.\<close>

lemma sound_codes_inj:
  "sound_codes db \<Longrightarrow> r \<in> set (bd_items db) \<Longrightarrow> s \<in> set (bd_items db) \<Longrightarrow>
     it_project_id r = it_project_id s \<Longrightarrow> it_code r = it_code s \<Longrightarrow> r = s"
  by (auto simp: sound_codes_def distinct_map dest: inj_onD)

lemma graph_of_map:
  assumes "distinct (map it_code rows)"
  shows "map_of (graph_of rows) c = Some ds \<longleftrightarrow> (\<exists>r \<in> set rows. it_code r = c \<and> it_deps r = ds)"
proof -
  have "foldl (\<lambda>g i. btree_insert (it_code i) (it_deps i) g) g rows =
      foldl (\<lambda>m (k, v). btree_insert k v m) g (map (\<lambda>i. (it_code i, it_deps i)) rows)" for g
    by (induction rows arbitrary: g) auto
  then have "map_of (graph_of rows) = map_of (map (\<lambda>i. (it_code i, it_deps i)) rows)"
    using assms by (simp add: graph_of_def map_of_btree_inserts comp_def)
  moreover have "distinct (map fst (map (\<lambda>i. (it_code i, it_deps i)) rows))" using assms by (simp add: comp_def)
  ultimately show ?thesis by (auto simp: map_of_eq_Some_iff)
qed

lemma project_codes_distinct:
  assumes "sound_codes db"
  shows "distinct (map it_code (store_list db p))"
proof -
  have items: "distinct (bd_items db)" using assms by (simp add: sound_codes_def distinct_map)
  have "inj_on it_code (set (store_list db p))"
    by (rule inj_onI) (use sound_codes_inj [OF assms] in \<open>auto simp: store_list_set\<close>)
  with items show ?thesis by (simp add: distinct_map store_list_def)
qed

lemma graph_board:
  "sound_codes db \<Longrightarrow>
   map_of (graph_of (store_list db p)) c = Some ds \<longleftrightarrow>
     (\<exists>r \<in> set (bd_items db). it_project_id r = p \<and> it_code r = c \<and> it_deps r = ds)"
  by (auto simp: graph_of_map project_codes_distinct store_list_set)

lemma option_eqI: "(\<And>y. x = Some y \<longleftrightarrow> x' = Some y) \<Longrightarrow> x = x'"
  by (cases x; cases x') auto

lemma acyclic_map: "map_of g = map_of h \<Longrightarrow> acyclic_board g \<longleftrightarrow> acyclic_board h"
proof -
  assume "map_of g = map_of h"
  then have "dep_edge g = dep_edge h" by (simp add: fun_eq_iff dep_edge_def)
  then show ?thesis by (simp add: acyclic_board_def waits_on_itself_def)
qed

lemma acyclic_subgraph:
  "acyclic_board g \<Longrightarrow> (\<And>a b. dep_edge h a b \<Longrightarrow> dep_edge g a b) \<Longrightarrow> acyclic_board h"
proof -
  assume g: "acyclic_board g" and sub: "\<And>a b. dep_edge h a b \<Longrightarrow> dep_edge g a b"
  have "(dep_edge h)\<^sup>+\<^sup>+ a b \<Longrightarrow> (dep_edge g)\<^sup>+\<^sup>+ a b" for a b
    by (induction rule: tranclp_induct) (use sub in \<open>blast intro: tranclp.intros\<close>)+
  with g show ?thesis by (auto simp: acyclic_board_def waits_on_itself_def)
qed

section \<open>Amendments keep it\<close>

lemma below_counter_settings:
  "bd_settings db' = bd_settings db \<Longrightarrow> below_counter db' p c \<longleftrightarrow> below_counter db p c"
  by (simp add: below_counter_def counter_def)

lemma amended_graph:
  assumes sound: "sound_ids uuid db" "sound_codes db" "sound_codes db'"
    and items: "bd_items db' = map f (bd_items db)"
    and f: "\<And>r. r \<in> set (bd_items db) \<Longrightarrow> keeps_identity r (f r) \<and> dep_checked U db i r (f r)"
    and acyclic: "acyclic_board (graph_of (store_list db p))"
  shows "acyclic_board (graph_of (store_list db' p))"
proof (cases "\<forall>r \<in> set (bd_items db). it_project_id r = p \<longrightarrow> it_deps (f r) = it_deps r")
  case True
  then have "map_of (graph_of (store_list db' p)) c = map_of (graph_of (store_list db p)) c" for c
    using f by (intro option_eqI) (auto simp: graph_board sound items keeps_identity_def)
  then have "map_of (graph_of (store_list db' p)) = map_of (graph_of (store_list db p))" by (rule ext)
  from acyclic_map [OF this] acyclic show ?thesis by simp
next
  case False
  then obtain r where r: "r \<in> set (bd_items db)" "it_project_id r = p" "it_deps (f r) \<noteq> it_deps r" by blast
  let ?g = "graph_of (store_list db p)"
  from f [OF r(1)] r(2,3) have id: "it_id r = i"
    and checked: "validate_edit U ?g (rejected_of (store_list db p)) (it_code r) (it_deps (f r)) = Inr ()"
    by (auto simp: dep_checked_def)
  have other: "it_deps (f s) = it_deps s" if "s \<in> set (bd_items db)" "s \<noteq> r" for s
  proof (rule ccontr)
    assume "it_deps (f s) \<noteq> it_deps s"
    with f [OF that(1)] id have "it_id s = it_id r" by (auto simp: dep_checked_def)
    with sound(1) r(1) that show False by (auto simp: sound_ids_def distinct_map dest: inj_onD)
  qed
  have "map_of (graph_of (store_list db' p)) c = map_of (btree_insert (it_code r) (it_deps (f r)) ?g) c" for c
  proof (rule option_eqI)
    fix ds
    have row: "it_project_id (f s) = it_project_id s \<and> it_code (f s) = it_code s" if "s \<in> set (bd_items db)" for s
      using f [OF that] by (simp add: keeps_identity_def)
    show "map_of (graph_of (store_list db' p)) c = Some ds \<longleftrightarrow>
        map_of (btree_insert (it_code r) (it_deps (f r)) ?g) c = Some ds"
    proof (cases "c = it_code r")
      case True
      have "s = r" if "s \<in> set (bd_items db)" "it_project_id s = p" "it_code s = it_code r" for s
        using sound_codes_inj [OF sound(2) that(1) r(1)] that r(2) by simp
      with True r row show ?thesis by (auto simp: graph_board sound items)
    next
      case False
      have "it_project_id (f s) = p \<and> it_code (f s) = c \<and> it_deps (f s) = ds \<longleftrightarrow>
          it_project_id s = p \<and> it_code s = c \<and> it_deps s = ds" if "s \<in> set (bd_items db)" for s
        using row [OF that] other [OF that] False by (cases "s = r") auto
      then have "map_of (graph_of (store_list db' p)) c = Some ds \<longleftrightarrow> map_of ?g c = Some ds"
        by (simp add: graph_board sound items)
      with False show ?thesis by simp
    qed
  qed
  then have "map_of (graph_of (store_list db' p)) = map_of (btree_insert (it_code r) (it_deps (f r)) ?g)"
    by (rule ext)
  moreover have "acyclic_board (btree_insert (it_code r) (it_deps (f r)) ?g)"
    using acyclic checked by (simp add: edit_acyclic validate_edit_ok)
  ultimately show ?thesis using acyclic_map by blast
qed

lemma sound_ids_amend:
  assumes "sound_ids uuid db" and "amends A R db db'"
  shows "sound_ids uuid db'"
proof -
  from assms(2) obtain f where items: "bd_items db' = map f (bd_items db)" and drawn: "bd_drawn db \<le> bd_drawn db'"
    and id: "\<And>r. r \<in> set (bd_items db) \<Longrightarrow> it_id (f r) = it_id r"
    unfolding amends_def keeps_identity_def by blast
  have "map it_id (bd_items db') = map it_id (bd_items db)" by (simp add: items id)
  moreover have "\<exists>n < bd_drawn db'. it_id s = uuid n" if "s \<in> set (bd_items db')" for s
  proof -
    from that obtain r where r: "r \<in> set (bd_items db)" "s = f r" by (auto simp: items)
    with assms(1) obtain n where "n < bd_drawn db" "it_id r = uuid n" by (auto simp: sound_ids_def)
    then have "n < bd_drawn db'" "it_id s = uuid n" using drawn r id by simp_all
    then show ?thesis by blast
  qed
  ultimately show ?thesis using assms(1) unfolding sound_ids_def by simp
qed

lemma sound_codes_amend:
  assumes "sound_codes db" and "amends A R db db'"
  shows "sound_codes db'"
proof -
  from assms(2) obtain f where items: "bd_items db' = map f (bd_items db)" and settings: "bd_settings db' = bd_settings db"
    and row: "\<And>r. r \<in> set (bd_items db) \<Longrightarrow> it_project_id (f r) = it_project_id r \<and> it_code (f r) = it_code r"
    unfolding amends_def keeps_identity_def by blast
  have "map (\<lambda>r. (it_project_id r, it_code r)) (bd_items db') = map (\<lambda>r. (it_project_id r, it_code r)) (bd_items db)"
    by (simp add: items row)
  moreover have "sound_prefixes db'" using assms(1) settings by (simp add: sound_codes_def sound_prefixes_def)
  moreover have "\<forall>r \<in> set (bd_items db'). below_counter db' (it_project_id r) (it_code r)"
    using assms(1) row by (simp add: items sound_codes_def below_counter_settings [OF settings])
  ultimately show ?thesis using assms(1) unfolding sound_codes_def by simp
qed

text \<open>The interface of the operations to the invariant.\<close>

lemma sound_amend:
  assumes sound: "sound_board uuid db" and "amends A R db db'"
    and R: "\<And>r s. r \<in> set (bd_items db) \<Longrightarrow> R r s \<Longrightarrow> (hold_ok r \<longrightarrow> hold_ok s) \<and> dep_checked U db i r s"
  shows "sound_board uuid db'"
proof -
  note parts = sound [unfolded sound_board_def]
  from assms(2) obtain f P where
    items: "bd_items db' = map f (bd_items db)"
    and f: "\<And>r. r \<in> set (bd_items db) \<Longrightarrow> keeps_identity r (f r) \<and> R r (f r)"
    and props: "bd_proposals db' = filter P (bd_proposals db)"
    and rest: "bd_settings db' = bd_settings db" "bd_drawn db \<le> bd_drawn db'"
    unfolding amends_def by blast
  have row: "it_id (f r) = it_id r" "it_project_id (f r) = it_project_id r" "it_code (f r) = it_code r"
    if "r \<in> set (bd_items db)" for r using f [OF that] by (simp_all add: keeps_identity_def)
  have ids: "sound_ids uuid db'" and codes: "sound_codes db'"
    using parts sound_ids_amend sound_codes_amend assms(2) by blast+
  have checked: "dep_checked U db i r (f r)" "hold_ok r \<longrightarrow> hold_ok (f r)" if "r \<in> set (bd_items db)" for r
    using R [OF that] f [OF that] by auto
  have deps: "sound_deps db'"
    unfolding sound_deps_def
  proof (intro conjI allI)
    show "acyclic_board (graph_of (store_list db' p))" for p
      using parts codes f checked
      by (intro amended_graph [OF _ _ _ items, of uuid U i]) (auto simp: sound_deps_def)
    show "\<forall>r \<in> set (bd_items db'). \<forall>d \<in> set (it_deps r). below_counter db' (it_project_id r) d"
    proof (intro ballI)
      fix s d assume "s \<in> set (bd_items db')" "d \<in> set (it_deps s)"
      then obtain r where r: "r \<in> set (bd_items db)" "s = f r" "d \<in> set (it_deps (f r))" by (auto simp: items)
      have "below_counter db (it_project_id r) d"
      proof (cases "it_deps (f r) = it_deps r")
        case True
        with r parts show ?thesis by (simp add: sound_deps_def)
      next
        case False
        with checked(1) [OF r(1)] r(3) obtain ds where "map_of (graph_of (store_list db (it_project_id r))) d = Some ds"
          by (auto simp: dep_checked_def validate_edit_ok)
        then show ?thesis using parts by (auto simp: graph_board sound_codes_def)
      qed
      then show "below_counter db' (it_project_id s) d"
        using r row by (simp add: below_counter_settings [OF rest(1)])
    qed
  qed
  have "sound_rows db'"
    using parts checked(2) by (auto simp: sound_rows_def items props list_all_iff distinct_map_filter)
  with ids codes deps show ?thesis by (simp add: sound_board_def)
qed

end
