(* ===== verification/Roadmap_Create.thy ===== *)
theory Roadmap_Create
  imports Roadmap_Board
begin

text \<open>
  New rows. A created row gets an id and a code the board has not seen; a proposed batch is stored in
  two passes, the rows first and then the references between them, and the board that results is the
  one the batch was validated against.
\<close>

section \<open>One row\<close>

text \<open>What an operation that only appends rows does to the rest of the tables.\<close>

definition adds :: "event_actor set \<Rightarrow> board_db \<Rightarrow> board_db \<Rightarrow> roadmap_item list \<Rightarrow> bool" where
  "adds A db db' news \<longleftrightarrow>
     bd_items db' = bd_items db @ news \<and> bd_holds db' = bd_holds db \<and>
     (\<exists>P. bd_proposals db' = filter P (bd_proposals db)) \<and>
     (\<exists>es. bd_events db' = bd_events db @ es \<and> (\<forall>e \<in> set es. ev_actor e \<in> A))"

lemma adds_refl: "adds A db db []"
  unfolding adds_def by (intro conjI exI [of _ "[]"] exI [of _ "\<lambda>_. True"]) simp_all

lemma adds_trans:
  assumes "adds A db db1 xs" and "adds A db1 db2 ys"
  shows "adds A db db2 (xs @ ys)"
proof -
  from assms obtain es fs where "bd_events db1 = bd_events db @ es" "bd_events db2 = bd_events db1 @ fs"
    "\<forall>e \<in> set (es @ fs). ev_actor e \<in> A"
    unfolding adds_def by fastforce
  then have "\<exists>es. bd_events db2 = bd_events db @ es \<and> (\<forall>e \<in> set es. ev_actor e \<in> A)"
    by (intro exI [of _ "es @ fs"]) simp
  moreover from assms obtain P Q where "bd_proposals db1 = filter P (bd_proposals db)"
    "bd_proposals db2 = filter Q (bd_proposals db1)" unfolding adds_def by blast
  then have "\<exists>P. bd_proposals db2 = filter P (bd_proposals db)"
    by (intro exI [of _ "\<lambda>x. P x \<and> Q x"]) simp
  ultimately show ?thesis using assms by (simp add: adds_def)
qed

lemma adds_amends: "amends A (=) db db' \<Longrightarrow> adds A db db' []"
  unfolding amends_def adds_def by (auto simp: map_idI cong: map_cong)

lemma adds_record: "record_event E i p a k d db = (e, db') \<Longrightarrow> a \<in> A \<Longrightarrow> adds A db db' []"
  by (rule adds_amends) (rule same.amends_record)

lemma sound_ids_later:
  "sound_ids uuid db \<Longrightarrow> bd_items db' = bd_items db \<Longrightarrow> bd_drawn db \<le> bd_drawn db' \<Longrightarrow> sound_ids uuid db'"
  unfolding sound_ids_def by (simp, meson order_less_le_trans)

lemma sound_codes_later:
  "sound_codes db \<Longrightarrow> bd_items db' = bd_items db \<Longrightarrow> bd_settings db' = bd_settings db \<Longrightarrow> sound_codes db'"
  using below_counter_settings [of db' db] by (simp add: sound_codes_def sound_prefixes_def)

lemma sound_number_nonneg: "sound_codes db \<Longrightarrow> 0 \<le> next_number db p"
proof (rule next_number_nonneg)
  fix r n assume "sound_codes db" "r \<in> set (bd_items db)" "it_project_id r = p" "code_number (it_code r) = Some n"
  then have "below_counter db p (it_code r)" by (auto simp: sound_codes_def)
  with \<open>code_number (it_code r) = Some n\<close> show "0 \<le> n" by (auto simp: below_counter_def)
qed

lemma next_number_counter:
  assumes "sound_codes db" and "counter db p = Some k" and "r \<in> set (bd_items db)" and "it_project_id r = p"
  shows "next_number db p = k"
proof -
  let ?ns = "List.map_filter (\<lambda>i. code_number (it_code i)) (filter (\<lambda>i. it_project_id i = p) (bd_items db))"
  have below: "n < k" if n: "n \<in> set ?ns" for n
  proof -
    from n obtain s where s: "s \<in> set (bd_items db)" "it_project_id s = p" "code_number (it_code s) = Some n"
      by (auto simp: set_map_filter_iff)
    with assms(1) have "below_counter db p (it_code s)" by (auto simp: sound_codes_def)
    with s(3) assms(2) show ?thesis by (simp add: below_counter_def)
  qed
  have "below_counter db p (it_code r)" using assms by (auto simp: sound_codes_def)
  then obtain n where "code_number (it_code r) = Some n" by (auto simp: below_counter_def)
  then have "n \<in> set ?ns" using assms(3,4) by (auto simp: set_map_filter_iff)
  then have ne: "?ns \<noteq> []" by auto
  have max: "m < k \<Longrightarrow> \<forall>n \<in> set ns. n < k \<Longrightarrow> fold max ns m < k" for m :: int and ns
    by (induction ns arbitrary: m) auto
  have "hd ?ns < k" "\<forall>n \<in> set (tl ?ns). n < k"
    using below ne by (auto dest: list.set_sel(2))
  then have "fold max (tl ?ns) (hd ?ns) < k" by (rule max)
  then show ?thesis
    using ne assms(2) unfolding next_number_def Let_def counter_def by simp
qed

lemma store_create_sound:
  assumes ids: "sound_ids uuid db" "inj uuid" "en_uuid E = uuid" and codes: "sound_codes db" and "room db p (Suc k)"
    and create: "store_create E p new db = (row, db')"
  shows "sound_ids uuid db'" and "sound_codes db'" and "room db' p k" and "grows db db'" and "adds A db db' [row]"
    and "\<not> below_counter db p (it_code row)" and "below_counter db' p (it_code row)"
proof -
  obtain db1 c db2 where step: "db1 = db\<lparr>bd_drawn := Suc (bd_drawn db)\<rparr>" "next_code E p db1 = (c, db2)"
    "row = new_row E p new (en_uuid E (bd_drawn db)) c (next_rank db2 p)"
    "db' = db2\<lparr>bd_items := bd_items db2 @ [row]\<rparr>"
    using create by (auto simp: store_create_def draw_uuid_def Let_def split: prod.splits)
  have same1: "bd_items db1 = bd_items db" "bd_settings db1 = bd_settings db" by (simp_all add: step(1))
  have below1: "below_counter db1 = below_counter db" using below_counter_settings [OF same1(2)] by (simp add: fun_eq_iff)
  have number1: "next_number db1 p = next_number db p" by (simp add: next_number_def same1)
  have codes1: "sound_codes db1" using codes same1 by (rule sound_codes_later)
  have room1: "room db1 p 1" using assms(5) by (simp add: room_def number1)
  note new = next_code_new [OF step(2) _ sound_number_nonneg [OF codes1] room1]
  have prefixes: "sound_prefixes db1" using codes1 by (simp add: sound_codes_def)
  note new = new [OF prefixes]
  have row: "it_code row = c" "it_project_id row = p" "it_id row = en_uuid E (bd_drawn db)"
    by (simp_all add: step(3) new_row_def)
  have items: "bd_items db' = bd_items db @ [row]" by (simp add: step(4) new(5) same1)
  have below: "below_counter db' = below_counter db2"
    using below_counter_settings [of db' db2] by (simp add: fun_eq_iff step(4))
  show "grows db db'" using new(3) by (simp add: grows_def below below1)
  show not_below: "\<not> below_counter db p (it_code row)" using new(1) by (simp add: row below1)
  show now: "below_counter db' p (it_code row)" using new(2) by (simp add: row below)
  have drawn: "bd_drawn db' = Suc (bd_drawn db)" using store_create_items [OF create] by simp
  show "adds A db db' [row]"
  proof -
    have "bd_holds db2 = bd_holds db1 \<and> bd_proposals db2 = bd_proposals db1 \<and> bd_events db2 = bd_events db1"
      using step(2) by (auto simp: next_code_def code_prefix_def set_setting_def Let_def split: prod.splits option.splits if_splits)
    then show ?thesis unfolding adds_def
      by (intro conjI exI [of _ "[]"] exI [of _ "\<lambda>_. True"]) (simp_all add: step(4) step(1) new(5))
  qed
  have old: "it_code r \<noteq> it_code row" if "r \<in> set (bd_items db)" "it_project_id r = p" for r
    using codes that not_below by (auto simp: sound_codes_def)
  show sound: "sound_codes db'"
    unfolding sound_codes_def
  proof (intro conjI)
    show "sound_prefixes db'" using new(4) by (simp add: step(4) sound_prefixes_def)
    show "distinct (map (\<lambda>r. (it_project_id r, it_code r)) (bd_items db'))"
    proof -
      have "(p, it_code row) \<notin> set (map (\<lambda>r. (it_project_id r, it_code r)) (bd_items db))"
        using old by force
      with codes show ?thesis by (simp add: items sound_codes_def row(2))
    qed
    show "\<forall>r \<in> set (bd_items db'). below_counter db' (it_project_id r) (it_code r)"
      using codes new(3) now by (auto simp: items sound_codes_def row(2) grows_def below below1)
  qed
  have fresh: "it_id r \<noteq> it_id row" if "r \<in> set (bd_items db)" for r
  proof -
    obtain n where "n < bd_drawn db" "it_id r = uuid n" using ids(1) \<open>r \<in> set (bd_items db)\<close> by (auto simp: sound_ids_def)
    then show ?thesis using ids(2,3) by (auto simp: row(3) dest: injD)
  qed
  show "sound_ids uuid db'"
    unfolding sound_ids_def
  proof
    show "distinct (map it_id (bd_items db'))" using ids(1) fresh by (auto simp: items sound_ids_def)
    show "\<forall>r \<in> set (bd_items db'). \<exists>n < bd_drawn db'. it_id r = uuid n"
    proof
      fix s assume "s \<in> set (bd_items db')"
      then consider "s \<in> set (bd_items db)" | "s = row" by (auto simp: items)
      then show "\<exists>n < bd_drawn db'. it_id s = uuid n"
      proof cases
        case 1
        with ids(1) obtain n where "n < bd_drawn db" "it_id s = uuid n" by (auto simp: sound_ids_def)
        then show ?thesis by (intro exI [of _ n]) (simp add: drawn)
      next
        case 2
        then show ?thesis by (intro exI [of _ "bd_drawn db"]) (simp add: drawn row(3) ids(3))
      qed
    qed
  qed
  have "counter db' p = Some (next_number db p + 1)" using new(6) by (simp add: counter_def step(4) number1)
  from next_number_counter [OF sound this, of row] have "next_number db' p = next_number db p + 1"
    by (simp add: items row(2))
  then show "room db' p k" using assms(5) by (simp add: room_def)
qed

text \<open>What a row takes from the payload it was created with.\<close>

definition made_from :: "string \<Rightarrow> roadmap_item \<Rightarrow> new_item \<Rightarrow> bool" where
  "made_from p r new \<longleftrightarrow>
     it_project_id r = p \<and> it_deps r = ni_deps new \<and> hold_ok r \<and>
     it_status r = (case ni_status new of Some s \<Rightarrow> s | None \<Rightarrow> Open)"

lemma store_create_made: "store_create E p new db = (row, db') \<Longrightarrow> made_from p row new"
  by (auto simp: store_create_def new_row_def made_from_def hold_ok_def Let_def split: prod.splits)

lemma dep_edge_board:
  assumes "sound_codes db"
  shows "dep_edge (graph_of (store_list db p)) a b \<longleftrightarrow>
    (\<exists>r \<in> set (bd_items db). it_project_id r = p \<and> it_code r = a \<and> b \<in> set (it_deps r))"
  using graph_board [OF assms] by (auto simp: dep_edge_def)

text \<open>A new item nothing waits on closes no loop.\<close>

lemma acyclic_new_source:
  assumes "acyclic_board g" and "\<And>a b. dep_edge h a b \<Longrightarrow> b \<noteq> c \<and> (a = c \<or> dep_edge g a b)"
  shows "acyclic_board h"
proof -
  have "(dep_edge h)\<^sup>+\<^sup>+ a b \<Longrightarrow> a \<noteq> c \<Longrightarrow> (dep_edge g)\<^sup>+\<^sup>+ a b \<and> b \<noteq> c" for a b
    by (induction rule: tranclp_induct) (use assms(2) in \<open>blast intro: tranclp.intros\<close>)+
  moreover have "(dep_edge h)\<^sup>+\<^sup>+ a b \<Longrightarrow> b \<noteq> c" for a b
    by (induction rule: tranclp_induct) (use assms(2) in blast)+
  ultimately show ?thesis using assms(1) unfolding acyclic_board_def waits_on_itself_def by blast
qed

lemma known_below:
  assumes "sound_codes db" and "map_of (graph_of (store_list db p)) d \<noteq> None"
  shows "below_counter db p d"
  using assms by (auto simp: graph_board sound_codes_def)

lemma create_checked_sound:
  assumes sound: "sound_board uuid db" and "inj uuid" "en_uuid E = uuid" and "room db p 1"
    and create: "create_checked E p new db = Inr ((row, e), db')"
  shows "sound_board uuid db' \<and> adds {ActUser} db db' [row]"
proof -
  obtain db1 d where steps: "store_create E p new db = (row, db1)"
    "record_event E (it_id row) p ActUser EkCreated d db1 = (e, db')"
    "ni_deps new \<noteq> [] \<Longrightarrow>
       validate_new (en_unicode E) (graph_of (store_list db p)) (rejected_of (store_list db p)) (ni_deps new) = Inr ()"
    using create by (auto simp: create_checked_def Let_def split: sum.splits prod.splits if_splits)
  note parts = sound [unfolded sound_board_def]
  have "room db p (Suc 0)" using assms(4) by simp
  from store_create_sound [OF _ assms(2,3) _ this steps(1)] parts
  have one: "sound_ids uuid db1" "sound_codes db1" "grows db db1" "adds {ActUser} db db1 [row]"
    "\<not> below_counter db p (it_code row)" "below_counter db1 p (it_code row)" by blast+
  note event = record_event_eq [OF steps(2)] record_event_items [OF steps(2)]
  have added: "adds {ActUser} db db' [row]"
    using adds_trans [OF one(4) adds_record [OF steps(2)]] by simp
  have items: "bd_items db' = bd_items db @ [row]" using added by (simp add: adds_def)
  have settings: "bd_settings db' = bd_settings db1" using event by simp
  note below = below_counter_settings [OF settings]
  have codes: "sound_codes db'" by (rule sound_codes_later [OF one(2)]) (simp_all add: event settings)
  have ids: "sound_ids uuid db'" by (rule sound_ids_later [OF one(1)]) (simp_all add: event)
  note made = store_create_made [OF steps(1), unfolded made_from_def]
  have known: "below_counter db p d" if "d \<in> set (it_deps row)" for d
  proof -
    have d: "d \<in> set (ni_deps new)" using that made by simp
    then have "ni_deps new \<noteq> []" by auto
    from steps(3) [OF this] d have "map_of (graph_of (store_list db p)) d \<noteq> None"
      by (simp add: validate_new_def check_codes_ok)
    with parts show ?thesis by (auto intro: known_below)
  qed
  have old: "below_counter db (it_project_id r) d" if "r \<in> set (bd_items db)" "d \<in> set (it_deps r)" for r d
    using parts that by (simp add: sound_deps_def)
  have "sound_deps db'"
    unfolding sound_deps_def
  proof (intro conjI allI)
    show "\<forall>r \<in> set (bd_items db'). \<forall>d \<in> set (it_deps r). below_counter db' (it_project_id r) d"
      using old known one(3) made by (auto simp: items below grows_def)
    fix q
    have "it_project_id row = p" using made by simp
    then show "acyclic_board (graph_of (store_list db' q))"
    proof (cases "q = p")
      case True
      show ?thesis
      proof (rule acyclic_new_source [where g = "graph_of (store_list db p)" and c = "it_code row"])
        show "acyclic_board (graph_of (store_list db p))" using parts by (simp add: sound_deps_def)
        fix a b assume "dep_edge (graph_of (store_list db' q)) a b"
        then obtain r where "r \<in> set (bd_items db) \<or> r = row" "it_project_id r = p" "it_code r = a" "b \<in> set (it_deps r)"
          using True by (auto simp: dep_edge_board [OF codes] items)
        with old known one(5) parts show "b \<noteq> it_code row \<and> (a = it_code row \<or> dep_edge (graph_of (store_list db p)) a b)"
          by (auto simp: dep_edge_board)
      qed
    next
      case False
      with made have "dep_edge (graph_of (store_list db' q)) a b \<longleftrightarrow> dep_edge (graph_of (store_list db q)) a b" for a b
        using parts by (auto simp: dep_edge_board codes items)
      note same = this
      have "acyclic_board (graph_of (store_list db q))" using parts by (simp add: sound_deps_def)
      then show ?thesis by (rule acyclic_subgraph) (simp add: same)
    qed
  qed
  moreover have "sound_rows db'"
    using parts made added by (auto simp: sound_rows_def items adds_def distinct_map_filter)
  ultimately show ?thesis using ids codes added by (simp add: sound_board_def)
qed

section \<open>A batch\<close>

lemma grows_trans: "grows a b \<Longrightarrow> grows b c \<Longrightarrow> grows a c"
  by (simp add: grows_def)

text \<open>The first pass.\<close>

lemma create_rows_sound:
  assumes "inj uuid" and "en_uuid E = uuid"
  shows "sound_ids uuid db \<Longrightarrow> sound_codes db \<Longrightarrow> room db p (length news) \<Longrightarrow>
    create_rows E p detail news db = ((rows, es), db') \<Longrightarrow>
    sound_ids uuid db' \<and> sound_codes db' \<and> grows db db' \<and> adds {ActPm} db db' rows \<and>
    list_all2 (made_from p) rows news \<and>
    (\<forall>r \<in> set rows. \<not> below_counter db p (it_code r) \<and> below_counter db' p (it_code r))"
proof (induction news arbitrary: db rows es)
  case Nil
  then show ?case by (simp add: adds_refl grows_def)
next
  case (Cons new news)
  obtain row db1 e db2 rows2 es2 where steps: "store_create E p new db = (row, db1)"
    "record_event E (it_id row) p ActPm EkProposed detail db1 = (e, db2)"
    "create_rows E p detail news db2 = ((rows2, es2), db')" "rows = row # rows2"
    using Cons.prems(4) by (auto simp: Let_def split: prod.splits)
  have "room db p (Suc (length news))" using Cons.prems(3) by simp
  note one = store_create_sound [OF Cons.prems(1) assms Cons.prems(2) this steps(1)]
  note event = record_event_eq [OF steps(2)] record_event_items [OF steps(2)]
  have settings: "bd_settings db2 = bd_settings db1" using event by simp
  note below = below_counter_settings [OF settings]
  have two: "sound_ids uuid db2" "sound_codes db2" "room db2 p (length news)"
    using sound_ids_later [OF one(1), of db2] sound_codes_later [OF one(2), of db2] one(3) event settings
    by (simp_all add: room_def next_number_def)
  note rest = Cons.IH [OF two steps(3)]
  have grows2: "grows db db2" using one(4) by (simp add: grows_def below)
  have "adds {ActPm} db db' (([row] @ []) @ rows2)"
    by (rule adds_trans [OF adds_trans [OF one(5) adds_record [OF steps(2)]]]) (use rest in simp_all)
  moreover have "\<not> below_counter db p (it_code r) \<and> below_counter db' p (it_code r)" if "r \<in> set rows" for r
  proof (cases "r = row")
    case True
    with one(6,7) rest show ?thesis by (simp add: below grows_def)
  next
    case False
    with that steps(4) rest grows2 show ?thesis by (auto simp: grows_def)
  qed
  ultimately show ?case
    using rest grows_trans [OF grows2] store_create_made [OF steps(1)] by (simp add: steps(4))
qed

text \<open>The second pass rewrites dependencies, each row by its id.\<close>

definition resolves ::
  "string list \<Rightarrow> (new_item \<times> roadmap_item) list \<Rightarrow> roadmap_item \<Rightarrow> roadmap_item \<Rightarrow> bool" where
  "resolves codes pairs r s \<longleftrightarrow>
     it_status s = it_status r \<and> (hold_ok r \<longrightarrow> hold_ok s) \<and>
     (it_id r \<notin> it_id ` snd ` set pairs \<longrightarrow> s = r) \<and>
     (\<forall>(new, row) \<in> set pairs. it_id row = it_id r \<longrightarrow> it_deps s = stored_deps (ni_deps new) codes)"

lemma resolve_rows_amends:
  assumes "distinct (map (it_id \<circ> snd) pairs)"
    and "\<And>new row r. (new, row) \<in> set pairs \<Longrightarrow> r \<in> set (bd_items db) \<Longrightarrow> it_id r = it_id row \<Longrightarrow> it_deps r = ni_deps new"
    and "resolve_rows E codes pairs db = (out, db')"
  shows "amends {ActPm} (resolves codes pairs) db db'"
  using assms
proof (induction pairs arbitrary: db out)
  case Nil
  have "row_stays (resolves codes [])" by (rule row_stays.intro) (simp add: resolves_def)
  from row_stays.amends_refl [OF this] Nil.prems(3) show ?case by simp
next
  case (Cons pair pairs)
  obtain new row where pair: "pair = (new, row)" by (cases pair)
  let ?p = "item_patch_default\<lparr>pt_deps := Some (resolve_batch_deps (ni_deps new) codes)\<rparr>"
  let ?R = "\<lambda>r s. s = r \<or> it_id s = it_id r \<and> it_id r = it_id row \<and> it_status s = it_status r \<and>
      (hold_ok r \<longrightarrow> hold_ok s) \<and> it_deps s = stored_deps (ni_deps new) codes"
  have stays: "row_stays ?R" by (rule row_stays.intro) simp
  obtain db1 rows where first: "amends {ActPm} ?R db db1" and rest: "resolve_rows E codes pairs db1 = (rows, db')"
    and deps: "\<And>r. r \<in> set (bd_items db1) \<Longrightarrow> it_id r = it_id row \<Longrightarrow> it_deps r = stored_deps (ni_deps new) codes"
  proof (cases "\<exists>d \<in> set (ni_deps new). prefix [batch_prefix] d")
    case True
    then obtain y db1 rows where steps: "store_apply E (it_id row) ?p None db = (y, db1)"
      "resolve_rows E codes pairs db1 = (rows, db')"
      using Cons.prems(3) by (auto simp: pair store_update_def Let_def split: prod.splits)
    have patch: "it_deps (apply_patch ?p n r) = stored_deps (ni_deps new) codes \<and>
        it_status (apply_patch ?p n r) = it_status r \<and> (hold_ok r \<longrightarrow> hold_ok (apply_patch ?p n r)) \<and>
        it_id (apply_patch ?p n r) = it_id r" for n r
      using True by (simp add: apply_patch_def patched_def item_patch_default_def stored_deps_def hold_ok_def)
    have first: "amends {ActPm} ?R db db1"
      by (rule row_stays.amends_apply [OF stays steps(1)]) (use patch in \<open>auto simp: apply_matches_def\<close>)
    have ne: "?p \<noteq> item_patch_default" by (simp add: item_patch_default_def)
    have db1: "db1 = update_rows (apply_matches (it_id row) None) (apply_patch ?p (en_now E)) db"
      using steps(1) ne unfolding store_apply_def Let_def item_patch_empty_def apply_matches_def [abs_def] by simp
    show ?thesis
      by (rule that [OF first steps(2)]) (use patch in \<open>auto simp: db1 apply_matches_def split: if_splits\<close>)
  next
    case False
    then obtain rows where "resolve_rows E codes pairs db = (rows, db')"
      using Cons.prems(3) by (auto simp: pair Let_def split: prod.splits)
    moreover have "it_deps r = stored_deps (ni_deps new) codes" if "r \<in> set (bd_items db)" "it_id r = it_id row" for r
      using Cons.prems(2) [of new row r] that False by (auto simp: pair stored_deps_def)
    ultimately show ?thesis using that row_stays.amends_refl [OF stays] by blast
  qed
  have ids: "it_id row \<notin> it_id ` snd ` set pairs" using Cons.prems(1) by (auto simp: pair)
  from first obtain f where f: "bd_items db1 = map f (bd_items db)" "\<And>r. r \<in> set (bd_items db) \<Longrightarrow> ?R r (f r)"
    unfolding amends_def by blast
  have "it_deps r = ni_deps new'" if "(new', row') \<in> set pairs" "r \<in> set (bd_items db1)" "it_id r = it_id row'" for new' row' r
  proof -
    from that(2) f(1) obtain s where s: "s \<in> set (bd_items db)" "r = f s" by auto
    have "it_id (snd (new', row')) \<in> it_id ` snd ` set pairs" by (intro imageI that(1))
    with ids have "it_id row' \<noteq> it_id row" by (metis snd_conv)
    with f(2) [OF s(1)] s(2) that(3) have "r = s" by auto
    with Cons.prems(2) [of new' row' s] that s(1) show ?thesis by (simp add: pair)
  qed
  then have "amends {ActPm} (resolves codes pairs) db1 db'"
    using Cons.prems(1) by (intro Cons.IH [OF _ _ rest]) (auto simp: pair)
  then have "amends {ActPm} (\<lambda>s t. resolves codes pairs s t \<and>
      (it_id s = it_id row \<longrightarrow> it_deps s = stored_deps (ni_deps new) codes)) db1 db'"
    by (rule amends_mono) (use deps in auto)
  with first show ?case
  proof (rule amends_trans)
    fix r s t
    assume rs: "?R r s" and st: "resolves codes pairs s t \<and>
      (it_id s = it_id row \<longrightarrow> it_deps s = stored_deps (ni_deps new) codes)"
    have id: "it_id s = it_id r" using rs by auto
    have "it_status t = it_status r" "hold_ok r \<longrightarrow> hold_ok t" using rs st by (auto simp: resolves_def)
    moreover have "t = r" if "it_id r \<notin> it_id ` snd ` set (pair # pairs)"
      using rs st that id by (auto simp: resolves_def pair)
    moreover have "it_deps t = stored_deps (ni_deps new') codes"
      if "(new', row') \<in> set (pair # pairs)" "it_id row' = it_id r" for new' row'
    proof (cases "(new', row') = pair")
      case True
      with that(2) id ids st have "t = s" by (simp add: pair resolves_def)
      with True that(2) id st show ?thesis by (simp add: pair)
    next
      case False
      with that id st show ?thesis by (auto simp: resolves_def)
    qed
    ultimately show "resolves codes (pair # pairs) r t" unfolding resolves_def by blast
  qed
qed

lemma batch_codes_fresh:
  assumes "sound_board uuid db" and "sound_codes db1" and "adds A db db1 rows"
    and "\<And>r. r \<in> set rows \<Longrightarrow> it_project_id r = p \<and> \<not> below_counter db p (it_code r)"
  shows "fresh_codes (graph_of (store_list db p)) (map it_code rows)"
proof -
  note parts = assms(1) [unfolded sound_board_def]
  then have codes: "sound_codes db" by blast
  have "bd_items db1 = bd_items db @ rows" using assms(3) by (simp add: adds_def)
  with assms(2) have "distinct (map (\<lambda>r. (it_project_id r, it_code r)) rows)" by (simp add: sound_codes_def)
  moreover have "map (\<lambda>r. (it_project_id r, it_code r)) rows = map (Pair p) (map it_code rows)"
    using assms(4) by simp
  ultimately have "distinct (map it_code rows)" by (metis distinct_map)
  moreover have "map_of (graph_of (store_list db p)) (it_code r) = None" if "r \<in> set rows" for r
    using known_below [OF codes] assms(4) [OF that] by blast
  moreover have "\<not> dep_edge (graph_of (store_list db p)) a (it_code r)" if "r \<in> set rows" for a r
  proof
    assume "dep_edge (graph_of (store_list db p)) a (it_code r)"
    then have "below_counter db p (it_code r)"
      using parts by (auto simp: dep_edge_board sound_deps_def)
    with assms(4) [OF that] show False by simp
  qed
  moreover have "\<not> prefix [batch_prefix] c" if "map_of (graph_of (store_list db p)) c \<noteq> None" for c
    using known_below [OF codes that] by (simp add: below_counter_def)
  ultimately show ?thesis by (auto simp: fresh_codes_def)
qed

text \<open>Both passes: the rows of the batch, in order, after the board's, each with its references rewritten.\<close>

definition stored_as :: "string \<Rightarrow> string list \<Rightarrow> roadmap_item \<Rightarrow> new_item \<Rightarrow> bool" where
  "stored_as p codes r new \<longleftrightarrow>
     it_project_id r = p \<and> it_deps r = stored_deps (ni_deps new) codes \<and> hold_ok r \<and>
     it_status r = (case ni_status new of Some s \<Rightarrow> s | None \<Rightarrow> Open)"

lemma create_proposed_rows:
  assumes sound: "sound_ids uuid db" "sound_codes db" and env: "inj uuid" "en_uuid E = uuid" and "room db p (length news)"
    and create: "create_proposed E p detail news db = ((out, es), db')"
  obtains rows where "adds {ActPm} db db' rows" "sound_ids uuid db'" "sound_codes db'" "grows db db'"
    "list_all2 (stored_as p (map it_code rows)) rows news"
    "\<And>r. r \<in> set rows \<Longrightarrow> \<not> below_counter db p (it_code r) \<and> below_counter db' p (it_code r)"
proof -
  obtain rows es1 db1 where steps: "create_rows E p detail news db = ((rows, es1), db1)"
    "resolve_rows E (map it_code rows) (zip news rows) db1 = (out, db')"
    using create by (auto simp: create_proposed_def Let_def split: prod.splits)
  from create_rows_sound [OF env sound assms(5) steps(1)]
  have first: "sound_ids uuid db1" "sound_codes db1" "grows db db1" "adds {ActPm} db db1 rows"
    "list_all2 (made_from p) rows news"
    "\<And>r. r \<in> set rows \<Longrightarrow> \<not> below_counter db p (it_code r) \<and> below_counter db1 p (it_code r)" by blast+
  let ?codes = "map it_code rows" and ?pairs = "zip news rows"
  have len: "length rows = length news" using first(5) by (rule list_all2_lengthD)
  have items1: "bd_items db1 = bd_items db @ rows" using first(4) by (simp add: adds_def)
  have made: "made_from p (rows ! k) (news ! k)" if "k < length news" for k
    using list_all2_nthD2 [OF first(5) that] .
  have ids1: "distinct (map it_id (bd_items db @ rows))" using first(1) by (simp add: sound_ids_def items1)
  have pair_ids: "map (it_id \<circ> snd) ?pairs = map it_id rows" "snd ` set ?pairs = set rows"
    using len by (metis map_snd_zip map_map, metis list.set_map map_snd_zip)
  have second: "amends {ActPm} (resolves ?codes ?pairs) db1 db'"
  proof (rule resolve_rows_amends [OF _ _ steps(2)])
    show "distinct (map (it_id \<circ> snd) ?pairs)" unfolding pair_ids using ids1 by simp
    fix new row r assume "(new, row) \<in> set ?pairs" "r \<in> set (bd_items db1)" "it_id r = it_id row"
    moreover from this(1) obtain k where k: "k < length news" "new = news ! k" "row = rows ! k"
      by (auto simp: set_zip)
    ultimately have "r = row"
      using ids1 len by (intro inj_onD [of it_id "set (bd_items db @ rows)"]) (auto simp: distinct_map items1 inj_on_Un)
    then show "it_deps r = ni_deps new" using made [OF k(1)] k by (simp add: made_from_def)
  qed
  then obtain f where items: "bd_items db' = map f (bd_items db @ rows)"
    and f: "\<And>r. r \<in> set (bd_items db @ rows) \<Longrightarrow> keeps_identity r (f r) \<and> resolves ?codes ?pairs r (f r)"
    and settings: "bd_settings db' = bd_settings db1"
    unfolding amends_def items1 by blast
  have "f r = r" if "r \<in> set (bd_items db)" for r
  proof -
    have "it_id r \<notin> it_id ` set rows" using ids1 that by auto
    with f [of r] that show ?thesis by (simp add: resolves_def pair_ids)
  qed
  then have items': "bd_items db' = bd_items db @ map f rows" by (simp add: items map_idI)
  have codes: "map it_code (map f rows) = ?codes" using f by (simp add: keeps_identity_def)
  have "stored_as p ?codes (f (rows ! k)) (news ! k)" if "k < length news" for k
  proof -
    have "(news ! k, rows ! k) \<in> set ?pairs" "rows ! k \<in> set (bd_items db @ rows)"
      using that len by (auto simp: set_zip)
    with f [of "rows ! k"] made [OF that] show ?thesis
      by (fastforce simp: resolves_def stored_as_def made_from_def keeps_identity_def)
  qed
  then have all: "list_all2 (stored_as p (map it_code (map f rows))) (map f rows) news"
    unfolding codes using len by (intro list_all2_all_nthI) simp_all
  have added: "adds {ActPm} db db' (map f rows)"
  proof -
    have "adds {ActPm} db1 (db'\<lparr>bd_items := bd_items db1\<rparr>) []"
      using second unfolding amends_def adds_def by auto
    from adds_trans [OF first(4) this] show ?thesis by (simp add: adds_def items' items1)
  qed
  have below: "below_counter db' = below_counter db1"
    using below_counter_settings [OF settings] by (simp add: fun_eq_iff)
  have "\<not> below_counter db p (it_code s) \<and> below_counter db' p (it_code s)" if "s \<in> set (map f rows)" for s
    using that first(6) f by (auto simp: below keeps_identity_def)
  moreover have "grows db db'" using first(3) by (simp add: grows_def below)
  ultimately show ?thesis
    by (intro that [OF added sound_ids_amend [OF first(1) second] sound_codes_amend [OF first(2) second] _ all])
qed

text \<open>The stored batch is the board the validation looked at.\<close>

lemma stored_batch_edges:
  assumes codes: "sound_codes db" "sound_codes db'" and items: "bd_items db' = bd_items db @ rows"
    and stored: "list_all2 (stored_as p (map it_code rows)) rows news"
    and fresh: "fresh_codes (graph_of (store_list db p)) (map it_code rows)"
    and edge: "dep_edge (graph_of (store_list db' p)) a b"
  shows "dep_edge (board_after (graph_of (store_list db p)) (map ni_deps news) (map it_code rows)) a b"
proof -
  let ?g = "graph_of (store_list db p)" and ?codes = "map it_code rows"
  let ?deps = "map (\<lambda>raw. resolve_batch_deps raw ?codes) (map ni_deps news)"
  have len: "length rows = length news" using stored by (rule list_all2_lengthD)
  have dist: "distinct ?codes" using fresh by (simp add: fresh_codes_def)
  have after: "map_of (board_after ?g (map ni_deps news) ?codes) = map_of ?g ++ map_of (zip ?codes ?deps)"
    by (rule board_after_map [OF dist]) (simp add: len)
  from edge obtain s where s: "s \<in> set (bd_items db')" "it_project_id s = p" "it_code s = a" "b \<in> set (it_deps s)"
    by (auto simp: dep_edge_board [OF codes(2)])
  then consider "s \<in> set (bd_items db)" | k where "k < length news" "s = rows ! k"
    using len by (auto simp: items in_set_conv_nth)
  then show ?thesis
  proof cases
    case 1
    then have g: "map_of ?g a = Some (it_deps s)" using s codes(1) by (auto simp: graph_board)
    with fresh have "a \<notin> set ?codes" by (auto simp: fresh_codes_def)
    then have none: "map_of (zip ?codes ?deps) a = None" by (auto simp: map_of_eq_None_iff dest: set_zip_leftD)
    have "map_of (board_after ?g (map ni_deps news) ?codes) a = Some (it_deps s)"
      unfolding after map_add_def none option.case by (rule g)
    with s(4) show ?thesis by (auto simp: dep_edge_def)
  next
    case 2
    have "a = ?codes ! k" using s(3) 2 len by simp
    moreover have "it_deps s = ?deps ! k"
      using 2 list_all2_nthD2 [OF stored 2(1)] by (simp add: stored_deps_resolved stored_as_def)
    ultimately have some: "map_of (zip ?codes ?deps) a = Some (it_deps s)"
      using zip_map_of_nth [OF dist, of ?deps a "it_deps s"] 2(1) len by auto
    have "map_of (board_after ?g (map ni_deps news) ?codes) a = Some (it_deps s)"
      unfolding after map_add_def some option.case by (rule refl)
    with s(4) show ?thesis by (auto simp: dep_edge_def)
  qed
qed

lemma create_proposed_sound:
  assumes sound: "sound_board uuid db" and env: "inj uuid" "en_uuid E = uuid" and "room db p (length news)"
    and valid: "validate_batch U (graph_of (store_list db p)) (rejected_of (store_list db p)) (map ni_deps news) = Inr ()"
      "canonical_refs (map ni_deps news)"
    and create: "create_proposed E p detail news db = ((out, es), db')"
  shows "sound_board uuid db' \<and>
    (\<exists>rows. adds {ActPm} db db' rows \<and> list_all2 (stored_as p (map it_code rows)) rows news)"
proof -
  note parts = sound [unfolded sound_board_def]
  let ?g = "graph_of (store_list db p)"
  obtain rows where rows: "adds {ActPm} db db' rows" "sound_ids uuid db'" "sound_codes db'" "grows db db'"
    "list_all2 (stored_as p (map it_code rows)) rows news"
    "\<And>r. r \<in> set rows \<Longrightarrow> \<not> below_counter db p (it_code r) \<and> below_counter db' p (it_code r)"
    using create_proposed_rows [OF _ _ env assms(4) create] parts by blast
  have items: "bd_items db' = bd_items db @ rows" using rows(1) by (simp add: adds_def)
  have len: "length rows = length news" using rows(5) by (rule list_all2_lengthD)
  have row: "\<exists>k < length news. r = rows ! k \<and> stored_as p (map it_code rows) r (news ! k)" if "r \<in> set rows" for r
    using that len list_all2_nthD2 [OF rows(5)] by (auto simp: in_set_conv_nth)
  then have project: "it_project_id r = p" if "r \<in> set rows" for r
    using that by (auto simp: stored_as_def)
  have fresh: "fresh_codes ?g (map it_code rows)"
    by (rule batch_codes_fresh [OF sound rows(3,1)]) (use project rows(6) in blast)
  have board: "acyclic_board (board_after ?g (map ni_deps news) (map it_code rows))"
    "\<And>raw d. raw \<in> set (map ni_deps news) \<Longrightarrow> d \<in> set (stored_deps raw (map it_code rows)) \<Longrightarrow>
       d \<in> set (map it_code rows) \<or> map_of ?g d \<noteq> None"
    using stored_batch_acyclic [OF _ valid(1) _ fresh valid(2)] parts len by (auto simp: sound_deps_def)
  have "sound_deps db'"
    unfolding sound_deps_def
  proof (intro conjI allI ballI)
    fix q
    show "acyclic_board (graph_of (store_list db' q))"
    proof (cases "q = p")
      case True
      from acyclic_subgraph [OF board(1) stored_batch_edges [OF _ rows(3) items rows(5) fresh]] True parts
      show ?thesis by simp
    next
      case False
      have same: "dep_edge (graph_of (store_list db' q)) a b \<Longrightarrow> dep_edge (graph_of (store_list db q)) a b" for a b
        using False project parts rows(3) by (auto simp: dep_edge_board items)
      have "acyclic_board (graph_of (store_list db q))" using parts by (simp add: sound_deps_def)
      then show ?thesis by (rule acyclic_subgraph) (rule same)
    qed
  next
    fix s d assume s: "s \<in> set (bd_items db')" "d \<in> set (it_deps s)"
    show "below_counter db' (it_project_id s) d"
    proof (cases "s \<in> set (bd_items db)")
      case True
      with s parts rows(4) show ?thesis by (auto simp: sound_deps_def grows_def)
    next
      case False
      with s(1) have "s \<in> set rows" by (simp add: items)
      from row [OF this] s(2) obtain k where "k < length news" "d \<in> set (stored_deps (ni_deps (news ! k)) (map it_code rows))"
        by (auto simp: stored_as_def)
      then have "d \<in> set (map it_code rows) \<or> map_of ?g d \<noteq> None" using board(2) [of "ni_deps (news ! k)"] by simp
      then have "below_counter db' p d"
        using rows(4,6) known_below [of db p d] parts by (auto simp: grows_def)
      with project [OF \<open>s \<in> set rows\<close>] show ?thesis by simp
    qed
  qed
  moreover have "hold_ok r" if "r \<in> set rows" for r using row [OF that] by (auto simp: stored_as_def)
  moreover from rows(1) obtain Q where "bd_proposals db' = filter Q (bd_proposals db)" by (auto simp: adds_def)
  ultimately show ?thesis
    using rows parts by (auto simp: sound_board_def sound_rows_def items list_all_iff distinct_map_filter)
qed

end
