(* ===== verification/Roadmap_Loops.thy ===== *)
theory Roadmap_Loops
  imports Roadmap_Create
begin

text \<open>
  The drainer and the merge sweep refine their contracts, and a claim takes what it may take:
  the first item of the queue whose dependencies have landed.
\<close>

section \<open>The drainer\<close>

lemma drainer_apply:
  assumes "pt_title p = None" "pt_why p = None" "pt_horizon p = None" "pt_area p = None" "pt_source p = None"
    "pt_accept p = None" "pt_deps p = None" "pt_rank p = None" "pt_agent_id p = None"
    and "pt_status p = None \<or> pt_status p \<in> {Some Open, Some InReview, Some Done} \<or>
      pt_status p = Some Active \<and> it_status r = Queued \<and> it_hold_reason r = None \<and> it_agent_id r = None"
  shows "drainer_may r (apply_patch p now r)"
  using assms by (auto simp: drainer_may_def keeps_defs apply_patch_def patched_def)

lemma sweep_apply:
  assumes "pt_title p = None" "pt_why p = None" "pt_horizon p = None" "pt_area p = None" "pt_source p = None"
    "pt_accept p = None" "pt_deps p = None" "pt_rank p = None" "pt_agent_id p = None"
    and "pt_status p \<in> {Some Open, Some Done}" and "it_status r = InReview"
  shows "sweep_may r (apply_patch p now r)"
  using assms by (auto simp: sweep_may_def keeps_defs apply_patch_def patched_def)

context row_stays
begin

lemma apply_and_record_amends:
  assumes "apply_and_record E i expected p a k d db = (x, db')" and "a \<in> A"
    and writes: "\<And>r. r \<in> set (bd_items db) \<Longrightarrow> apply_matches i expected r \<Longrightarrow> R r (apply_patch p (en_now E) r)"
  shows "amends A R db db'"
proof -
  obtain y db1 where one: "store_apply E i p expected db = (y, db1)" by fastforce
  then have "(case expected of Some s \<Rightarrow> update_where_status E i s p db | None \<Rightarrow> store_update E i p db) = (y, db1)"
    by (cases expected) (simp_all add: update_where_status_def store_update_def)
  with assms(1) consider "db' = db1" | j q e where "record_event E j q a k d db1 = (e, db')"
    by (auto simp: apply_and_record_def split: option.splits prod.splits)
  then show ?thesis
  proof cases
    case 1
    from amends_apply [OF one writes] 1 show ?thesis by simp
  next
    case 2
    from record_after [OF amends_apply [OF one writes] 2 assms(2)] show ?thesis by simp
  qed
qed

lemma write_item_amends:
  assumes "\<And>r. R r (apply_patch p (en_now E) r)"
  shows "amends A R db (write_item E i p db)"
proof -
  obtain y db1 where one: "store_apply E i p None db = (y, db1)" by fastforce
  then have "write_item E i p db = db1" by (simp add: write_item_def store_update_def)
  with amends_apply [OF one] assms show ?thesis by simp
qed

lemma record_wedge_amends:
  assumes "record_wedge E r d db = (x, db')" and "ActDrainer \<in> A"
  shows "amends A R db db'"
proof -
  consider "db' = db" | j q e where "record_event E j q ActDrainer EkBlocked (Some d) db = (e, db')"
    using assms(1) by (auto simp: record_wedge_def Let_def split: option.splits prod.splits if_splits)
  then show ?thesis by cases (auto intro: amends_refl amends_record assms(2))
qed

end

lemma conclude_drainer: "amends {ActDrainer} drainer_may db (conclude E r out pr d db)"
proof -
  let ?p = "settlement_patch out pr"
  have p: "drainer_may s (apply_patch ?p now s)" for s now
    by (rule drainer_apply) (simp_all add: settlement_patch_def item_patch_default_def split: settlement.split)
  show ?thesis
  proof (cases "settlement_event out pr")
    case None
    then show ?thesis by (simp add: conclude_def drain.write_item_amends p)
  next
    case (Some kd)
    obtain k d' where kd: "kd = (k, d')" by (cases kd)
    obtain x db1 where "apply_and_record E (it_id r) None ?p ActDrainer k
        (case d of Some d \<Rightarrow> Some d | None \<Rightarrow> d') db = (x, db1)" by fastforce
    with drain.apply_and_record_amends [OF this] p Some kd show ?thesis by (simp add: conclude_def)
  qed
qed

lemma settle_one_drainer: "amends {ActDrainer} drainer_may db (settle_one E db s)"
proof (cases "sd_outcome s = StillRunning")
  case True
  have "drainer_may r (apply_patch (item_patch_default\<lparr>pt_run_id := Some (sd_adopted_run_id s)\<rparr>) now r)" for r now
    by (rule drainer_apply) (simp_all add: item_patch_default_def)
  with True show ?thesis by (simp add: settle_one_def drain.write_item_amends)
next
  case False
  then show ?thesis by (simp add: settle_one_def conclude_drainer)
qed

lemma settle_project_drainer: "amends {ActDrainer} drainer_may db (settle_project E runs p db)"
  unfolding settle_project_def by (rule drain.amends_foldl) (rule settle_one_drainer)

lemma dispatch_plan_drainer: "amends {ActDrainer} drainer_may db (dispatch_plan E pl launched db)"
proof (cases launched)
  case (Inl e)
  then show ?thesis by (simp add: dispatch_plan_def conclude_drainer)
next
  case (Inr run)
  have "drainer_may r (apply_patch (item_patch_default\<lparr>pt_run_id := Some (Some run)\<rparr>) now r)" for r now
    by (rule drainer_apply) (simp_all add: item_patch_default_def)
  with Inr show ?thesis by (simp add: dispatch_plan_def drain.write_item_amends)
qed

lemma claim_wedge_drainer: "claim_wedge E r note db = (x, db') \<Longrightarrow> amends {ActDrainer} drainer_may db db'"
  by (auto simp: claim_wedge_def Let_def intro: drain.record_wedge_amends split: prod.splits)

lemma claim_when_blocked_drainer:
  "claim_when_blocked E items queued i w db = (x, db') \<Longrightarrow> amends {ActDrainer} drainer_may db db'"
  by (auto simp: claim_when_blocked_def Let_def intro: claim_wedge_drainer drain.amends_refl
      split: option.splits if_splits)

lemma claim_item_drainer:
  assumes "claim_item E i def name db = (x, db')"
    and free: "\<And>r. r \<in> set (bd_items db) \<Longrightarrow> it_id r = i \<Longrightarrow> it_status r = Queued \<and> it_hold_reason r = None \<and> it_agent_id r = None"
  shows "amends {ActDrainer} drainer_may db db'"
proof -
  let ?p = "item_patch_default\<lparr>pt_status := Some Active, pt_workflow_def_id := Some (Some def)\<rparr>"
  have p: "drainer_may r (apply_patch ?p now r)" if "r \<in> set (bd_items db)" "apply_matches i None r" for r now
    using free [OF that(1)] that(2)
    by (intro drainer_apply) (simp_all add: item_patch_default_def apply_matches_def)
  obtain y db1 where one: "store_apply E i ?p None db = (y, db1)" by fastforce
  with assms(1) consider "db' = db" | "db' = db1" | j q d e where "record_event E j q ActDrainer EkDispatched d db1 = (e, db')"
    by (auto simp: claim_item_def store_update_def Let_def split: option.splits prod.splits if_splits)
  then show ?thesis
  proof cases
    case 1
    then show ?thesis by (simp add: drain.amends_refl)
  next
    case 2
    from drain.amends_apply [OF one p] 2 show ?thesis by simp
  next
    case 3
    from record_after [OF drain.amends_apply [OF one p] 3] show ?thesis by simp
  qed
qed

section \<open>The choice\<close>

abbreviation waiting_of :: "string set \<Rightarrow> string set \<Rightarrow> roadmap_item \<Rightarrow> string list" where
  "waiting_of landed known r \<equiv> unsatisfied_deps (it_deps r) landed known"

lemma pick_loop_dispatch:
  "pick_loop landed known n head rs = DispatchAt m \<Longrightarrow>
   \<exists>k < length rs. m = n + k \<and> waiting_of landed known (rs ! k) = [] \<and>
     (\<forall>j < k. waiting_of landed known (rs ! j) \<noteq> [])"
proof (induction rs arbitrary: n head)
  case (Cons r rs)
  show ?case
  proof (cases "waiting_of landed known r = []")
    case True
    with Cons.prems show ?thesis by (intro exI [of _ 0]) simp
  next
    case False
    with Cons.prems obtain h where "pick_loop landed known (Suc n) h rs = DispatchAt m"
      by (auto simp: Let_def)
    from Cons.IH [OF this] obtain k where "k < length rs" "m = Suc n + k" "waiting_of landed known (rs ! k) = []"
      "\<forall>j < k. waiting_of landed known (rs ! j) \<noteq> []" by blast
    with False show ?thesis by (intro exI [of _ "Suc k"]) (auto simp: less_Suc_eq_0_disj)
  qed
qed (auto split: option.splits)

lemma pick_loop_never:
  "(\<And>m. pick_loop landed known n head rs \<noteq> DispatchAt m) \<Longrightarrow> r \<in> set rs \<Longrightarrow> waiting_of landed known r \<noteq> []"
proof (induction rs arbitrary: n head)
  case (Cons s rs)
  have "waiting_of landed known s \<noteq> []"
  proof
    assume "waiting_of landed known s = []"
    with Cons.prems(1) [of n] show False by simp
  qed
  with Cons show ?case by (auto simp: Let_def)
qed simp

lemma plan_and_claim_cases:
  assumes "plan_and_claim E C runs p cap db = (x, db')"
  obtains (idle) "db' = db" "\<not> (\<exists>pl e. x = Claimed pl e)"
    | (blocked) i w where "claim_when_blocked E (store_list db p) (dispatchable (store_list db p)) i w db = (x, db')"
    | (wedged) r msg where "claim_wedge E r msg db = (x, db')"
    | (taken) n def name repo brief y where
        "pick_next (dispatchable (store_list db p)) (live_run_count runs p) cap (done_codes (store_list db p))
           (set (map it_code (store_list db p))) = DispatchAt n"
        "project_gate db p = None"
        "claim_item E (it_id (dispatchable (store_list db p) ! n)) def name db = (y, db')"
        "x = (case y of Some (c, e) \<Rightarrow> Claimed \<lparr>pl_item = c, pl_definition_id = def,
                pl_repo_path = repo, pl_brief = brief\<rparr> e | None \<Rightarrow> ClaimNothing)"
proof (cases "project_gate db p")
  case (Some w)
  with assms idle show ?thesis by (simp add: plan_and_claim_def)
next
  case None
  let ?items = "store_list db p"
  let ?queued = "dispatchable ?items"
  note body = assms [unfolded plan_and_claim_def Let_def None, simplified]
  show ?thesis
  proof (cases "pick_next ?queued (live_run_count runs p) cap (done_codes ?items) (set (map it_code ?items))")
    case Empty
    with body idle show ?thesis by simp
  next
    case AtCapacity
    with body idle show ?thesis by simp
  next
    case (Blocked i w)
    with body blocked show ?thesis by simp
  next
    case (DispatchAt n)
    show ?thesis
    proof (cases "resolve_for_dispatch C db p (?queued ! n) ?items")
      case (Inl msg)
      with body DispatchAt wedged show ?thesis by simp
    next
      case (Inr prep)
      obtain y db2 where y: "claim_item E (it_id (?queued ! n)) (dp_definition_id prep) (dp_workflow_name prep) db = (y, db2)"
        by fastforce
      with body DispatchAt Inr have "db2 = db'" "x = (case y of Some (c, e) \<Rightarrow> Claimed \<lparr>pl_item = c,
          pl_definition_id = dp_definition_id prep, pl_repo_path = dp_repo_path prep, pl_brief = dp_brief prep\<rparr> e
          | None \<Rightarrow> ClaimNothing)"
        by (auto split: option.splits)
      with y show ?thesis by (intro taken [OF DispatchAt None, of _ _ _ "dp_repo_path prep" "dp_brief prep"]) auto
    qed
  qed
qed

lemma dispatchable_row:
  "r \<in> set (dispatchable (store_list db p)) \<longleftrightarrow>
     r \<in> set (bd_items db) \<and> it_project_id r = p \<and> it_status r = Queued \<and> it_agent_id r = None \<and> it_hold_reason r = None"
  by (auto simp: dispatchable_def store_list_set is_held_def)

lemma pick_next_dispatch:
  assumes "pick_next queued live cap landed known = DispatchAt n"
  shows "n < length queued" and "live < cap" and "waiting_of landed known (queued ! n) = []"
    and "\<forall>j < n. waiting_of landed known (queued ! j) \<noteq> []"
  using assms pick_loop_dispatch [of landed known 0 None queued n]
  by (auto simp: pick_next_def split: if_splits)

lemma plan_and_claim_drainer:
  assumes ids: "distinct (map it_id (bd_items db))" and claim: "plan_and_claim E C runs p cap db = (x, db')"
  shows "amends {ActDrainer} drainer_may db db'"
  using claim
proof (cases rule: plan_and_claim_cases)
  case idle
  then show ?thesis by (simp add: drain.amends_refl)
next
  case blocked
  then show ?thesis by (rule claim_when_blocked_drainer)
next
  case wedged
  then show ?thesis by (rule claim_wedge_drainer)
next
  case (taken n def name repo brief y)
  let ?r = "dispatchable (store_list db p) ! n"
  have "?r \<in> set (dispatchable (store_list db p))" using pick_next_dispatch(1) [OF taken(1)] by simp
  then have r: "?r \<in> set (bd_items db)" "it_status ?r = Queued" "it_agent_id ?r = None" "it_hold_reason ?r = None"
    unfolding dispatchable_row by auto
  show ?thesis
  proof (rule claim_item_drainer [OF taken(3)])
    fix s assume "s \<in> set (bd_items db)" "it_id s = it_id ?r"
    with ids r(1) have "s = ?r" by (auto simp: distinct_map dest: inj_onD)
    with r show "it_status s = Queued \<and> it_hold_reason s = None \<and> it_agent_id s = None" by simp
  qed
qed

lemma unsatisfied_done:
  assumes codes: "sound_codes db" and "waiting_of (done_codes (store_list db p)) (set (map it_code (store_list db p))) r = []"
    and "d \<in> set (it_deps r)" and "s \<in> set (bd_items db)" and "it_project_id s = p" and "it_code s = d"
  shows "it_status s = Done \<and> it_hold_reason s = None"
proof -
  have "d \<in> set (map it_code (store_list db p))" using assms(4-6) by (auto simp: store_list_set)
  with assms(2,3) have "d \<in> done_codes (store_list db p)" by (auto simp: unsatisfied_deps_def filter_empty_conv)
  then obtain t where t: "t \<in> set (bd_items db)" "it_project_id t = p" "it_code t = d" "it_status t = Done" "\<not> is_held t"
    by (auto simp: done_codes_def store_list_set)
  with sound_codes_inj [OF codes t(1) assms(4)] assms(5,6) have "t = s" by simp
  with t show ?thesis by (simp add: is_held_def)
qed

lemma claim_item_Some:
  assumes "claim_item E i def name db = (Some (c, e), db')"
  shows "store_get db' i = Some c \<and> it_id c = i \<and> it_status c = Active"
proof -
  let ?p = "item_patch_default\<lparr>pt_status := Some Active, pt_workflow_def_id := Some (Some def)\<rparr>"
  obtain db1 j q d where one: "store_apply E i ?p None db = (Some c, db1)" "record_event E j q ActDrainer EkDispatched d db1 = (e, db')"
    using assms by (auto simp: claim_item_def store_update_def Let_def split: option.splits prod.splits if_splits)
  have ne: "?p \<noteq> item_patch_default" by (simp add: item_patch_default_def)
  from one(1) ne have db1: "db1 = update_rows (apply_matches i None) (apply_patch ?p (en_now E)) db" "store_get db1 i = Some c"
    unfolding store_apply_def Let_def item_patch_empty_def apply_matches_def [abs_def] by auto
  have "c \<in> set (bd_items db1)" "it_id c = i" using store_get_SomeD [OF db1(2)] by simp_all
  then obtain r where r: "c = (if apply_matches i None r then apply_patch ?p (en_now E) r else r)"
    unfolding db1(1) update_rows_items set_map by (elim imageE) (rule that)
  have "it_id r = i" using \<open>it_id c = i\<close> r by (simp add: apply_matches_def split: if_splits)
  then have "it_status c = Active" by (simp add: r apply_matches_def apply_patch_def patched_def)
  moreover have "store_get db' i = Some c" using db1(2) record_event_items [OF one(2)] by (simp add: store_get_def)
  ultimately show ?thesis using \<open>it_id c = i\<close> by simp
qed

lemma claim_item_takes:
  assumes "store_get db i = Some r" and "it_status r = Queued"
  shows "\<exists>c e db'. claim_item E i def name db = (Some (c, e), db')"
proof -
  let ?p = "item_patch_default\<lparr>pt_status := Some Active, pt_workflow_def_id := Some (Some def)\<rparr>"
  have ne: "?p \<noteq> item_patch_default" by (simp add: item_patch_default_def)
  obtain y db1 where one: "store_apply E i ?p None db = (y, db1)" by fastforce
  with ne have y: "y = store_get db1 i" unfolding store_apply_def Let_def item_patch_empty_def by auto
  have "row_stays (\<lambda>_ _. True)" by (rule row_stays.intro) simp
  from amends_get [OF row_stays.amends_apply [OF this one] assms(1)] obtain c where "y = Some c" using y by auto
  with one assms show ?thesis by (auto simp: claim_item_def store_update_def Let_def split: prod.splits)
qed

lemma unsatisfied_not_done:
  assumes "sound_codes db" and "waiting_of (done_codes (store_list db p)) (set (map it_code (store_list db p))) q \<noteq> []"
  shows "\<exists>s \<in> set (bd_items db). it_project_id s = p \<and> it_code s \<in> set (it_deps q) \<and>
     \<not> (it_status s = Done \<and> it_hold_reason s = None)"
proof -
  from assms(2) obtain d where d: "d \<in> set (it_deps q)" "d \<in> set (map it_code (store_list db p))"
    "d \<notin> done_codes (store_list db p)" by (auto simp: unsatisfied_deps_def filter_empty_conv)
  then obtain s where s: "s \<in> set (bd_items db)" "it_project_id s = p" "it_code s = d" by (auto simp: store_list_set)
  with d(3) have "\<not> (it_status s = Done \<and> it_hold_reason s = None)"
    by (force simp: done_codes_def store_list_set is_held_def)
  with s d(1) show ?thesis by blast
qed

text \<open>
  Claim C5. What the drainer takes. A claim is made only on a project that is not held and runs less than
  its cap; the item is one of its queued rows, not held and with no agent, every dependency that is
  still on the board is done and not held, and every row before it in the queue waits on a
  dependency that is not. The row is then active.
\<close>

theorem claim_is_ready:
  assumes "sound_board uuid db" and "plan_and_claim E C runs p cap db = (Claimed pl e, db')"
  shows "hold_get db p = None \<and> live_run_count runs p < cap \<and>
    (\<exists>before r after. dispatchable (store_list db p) = before @ r # after \<and>
       store_get db' (it_id r) = Some (pl_item pl) \<and> it_id (pl_item pl) = it_id r \<and> it_status (pl_item pl) = Active \<and>
       it_status r = Queued \<and> it_agent_id r = None \<and> it_hold_reason r = None \<and>
       (\<forall>s \<in> set (bd_items db). it_project_id s = p \<longrightarrow> it_code s \<in> set (it_deps r) \<longrightarrow>
          it_status s = Done \<and> it_hold_reason s = None) \<and>
       (\<forall>q \<in> set before. \<exists>s \<in> set (bd_items db). it_project_id s = p \<and> it_code s \<in> set (it_deps q) \<and>
          \<not> (it_status s = Done \<and> it_hold_reason s = None)))"
proof -
  let ?items = "store_list db p"
  let ?queued = "dispatchable ?items"
  note parts = assms(1) [unfolded sound_board_def]
  from assms(2) obtain n def name c where n:
    "pick_next ?queued (live_run_count runs p) cap (done_codes ?items) (set (map it_code ?items)) = DispatchAt n"
    "project_gate db p = None"
    "claim_item E (it_id (?queued ! n)) def name db = (Some (c, e), db')"
    "pl_item pl = c"
    by (cases rule: plan_and_claim_cases)
      (auto simp: claim_when_blocked_def claim_wedge_def Let_def split: option.splits if_splits prod.splits)
  note pick = pick_next_dispatch [OF n(1)]
  let ?r = "?queued ! n"
  have split: "?queued = take n ?queued @ ?r # drop (Suc n) ?queued" using pick(1) by (rule id_take_nth_drop)
  have "?r \<in> set ?queued" using pick(1) by simp
  then have r: "it_status ?r = Queued" "it_agent_id ?r = None" "it_hold_reason ?r = None"
    unfolding dispatchable_row by auto
  have landed: "\<forall>s \<in> set (bd_items db). it_project_id s = p \<longrightarrow> it_code s \<in> set (it_deps ?r) \<longrightarrow>
      it_status s = Done \<and> it_hold_reason s = None"
    using unsatisfied_done [OF _ pick(3)] parts by blast
  have before: "\<forall>q \<in> set (take n ?queued). \<exists>s \<in> set (bd_items db). it_project_id s = p \<and>
      it_code s \<in> set (it_deps q) \<and> \<not> (it_status s = Done \<and> it_hold_reason s = None)"
  proof
    fix q assume "q \<in> set (take n ?queued)"
    then obtain j where "j < n" "q = ?queued ! j" by (auto simp: in_set_conv_nth)
    with pick(4) parts show "\<exists>s \<in> set (bd_items db). it_project_id s = p \<and>
        it_code s \<in> set (it_deps q) \<and> \<not> (it_status s = Done \<and> it_hold_reason s = None)"
      by (intro unsatisfied_not_done) auto
  qed
  have "hold_get db p = None" using n(2) by (simp add: project_gate_def)
  with pick(2) split claim_item_Some [OF n(3)] r landed before n(4) show ?thesis by blast
qed

text \<open>
  Claim C12. The queue does not wedge. On a sound board, when the project is not held, has capacity and a
  queue, everything its queued items wait on is either done or itself free to be built, and each can
  be resolved to a workflow and a repository, the drainer claims one.
\<close>

theorem queue_moves:
  assumes "sound_board uuid db" and "hold_get db p = None" and "live_run_count runs p < cap"
    and "dispatchable (store_list db p) \<noteq> []"
    and waits: "\<forall>r \<in> set (dispatchable (store_list db p)).
      \<forall>d \<in> set (unsatisfied_deps (it_deps r) (done_codes (store_list db p)) (set (map it_code (store_list db p)))).
        d \<in> it_code ` set (dispatchable (store_list db p))"
    and resolved: "\<forall>r \<in> set (dispatchable (store_list db p)).
      \<exists>prep. resolve_for_dispatch C db p r (store_list db p) = Inr prep"
  shows "\<exists>pl e db'. plan_and_claim E C runs p cap db = (Claimed pl e, db')"
proof -
  let ?items = "store_list db p"
  let ?queued = "dispatchable ?items"
  let ?waiting = "waiting_of (done_codes ?items) (set (map it_code ?items))"
  let ?S = "it_code ` set ?queued"
  let ?edges = "{(a, b). a \<in> ?S \<and> b \<in> ?S \<and> dep_edge (graph_of ?items) a b}"
  note parts = assms(1) [unfolded sound_board_def]
  have "finite ?edges" by (rule finite_subset [of _ "?S \<times> ?S"]) auto
  moreover have "acyclic ?edges"
  proof (rule acyclicI, rule allI, rule notI)
    fix a assume "(a, a) \<in> ?edges\<^sup>+"
    moreover have "(x, y) \<in> ?edges\<^sup>+ \<Longrightarrow> (dep_edge (graph_of ?items))\<^sup>+\<^sup>+ x y" for x y
      by (induction rule: trancl_induct) (auto intro: tranclp.intros)
    ultimately have "(dep_edge (graph_of ?items))\<^sup>+\<^sup>+ a a" by blast
    with parts show False by (auto simp: sound_deps_def acyclic_board_def waits_on_itself_def)
  qed
  ultimately have "wf (?edges\<inverse>)" by (rule finite_acyclic_wf_converse)
  moreover have "hd ?queued \<in> set ?queued" using assms(4) by simp
  ultimately obtain z where z: "z \<in> ?S" "\<And>y. (z, y) \<in> ?edges \<Longrightarrow> y \<notin> ?S"
    by (metis (no_types, lifting) wf_eq_minimal converse_iff image_eqI)
  then obtain r where r: "r \<in> set ?queued" "z = it_code r" by blast
  have free: "?waiting r = []"
  proof (rule ccontr)
    assume "?waiting r \<noteq> []"
    then obtain d where d: "d \<in> set (?waiting r)" by (cases "?waiting r") auto
    with waits r(1) have "d \<in> ?S" by blast
    moreover have "dep_edge (graph_of ?items) z d"
      using r d parts by (auto simp: dep_edge_board dispatchable_row unsatisfied_deps_def)
    ultimately show False using z r by blast
  qed
  obtain m where "pick_loop (done_codes ?items) (set (map it_code ?items)) 0 None ?queued = DispatchAt m"
    using pick_loop_never [OF _ r(1)] free by blast
  then have m: "pick_next ?queued (live_run_count runs p) cap (done_codes ?items) (set (map it_code ?items)) = DispatchAt m"
    using assms(3,4) by (simp add: pick_next_def)
  let ?r = "?queued ! m"
  have in_queue: "?r \<in> set ?queued" using pick_next_dispatch(1) [OF m] by simp
  with resolved obtain prep where prep: "resolve_for_dispatch C db p ?r ?items = Inr prep" by blast
  have row: "?r \<in> set (bd_items db)" "it_status ?r = Queued" using in_queue unfolding dispatchable_row by auto
  from store_get_exists [OF row(1)] obtain c where c: "store_get db (it_id ?r) = Some c" by blast
  with parts row(1) have "c = ?r" using store_get_row by (fastforce simp: sound_ids_def)
  with claim_item_takes [OF c] row(2) obtain d e db'
    where "claim_item E (it_id ?r) (dp_definition_id prep) (dp_workflow_name prep) db = (Some (d, e), db')" by blast
  with m prep assms(2) show ?thesis by (auto simp: plan_and_claim_def project_gate_def Let_def)
qed

section \<open>The merge sweep\<close>

lemma sweep_one_merges:
  assumes "sweep_one E poll (seen, db) w = (seen', db')"
  shows "amends {ActSweep, ActDrainer} sweep_may db db'"
proof -
  consider "db' = db"
    | r d where "db' = snd (record_wedge E r d db)"
    | v p k d where "patch_for v = Some p"
        "db' = snd (apply_and_record E (it_id w) (Some InReview) p ActSweep k d db)"
    using assms by (auto simp: sweep_one_def Let_def split: prod.splits if_splits option.splits)
  then show ?thesis
  proof cases
    case 1
    then show ?thesis by (simp add: merges.amends_refl)
  next
    case 2
    obtain x db1 where "record_wedge E r d db = (x, db1)" by fastforce
    with merges.record_wedge_amends [OF this] 2 show ?thesis by simp
  next
    case 3
    obtain x db1 where one: "apply_and_record E (it_id w) (Some InReview) p ActSweep k d db = (x, db1)" by fastforce
    have "amends {ActSweep, ActDrainer} sweep_may db db1"
    proof (rule merges.apply_and_record_amends [OF one])
      fix r assume "apply_matches (it_id w) (Some InReview) r"
      then show "sweep_may r (apply_patch p (en_now E) r)"
        using 3(1) by (intro sweep_apply)
          (auto simp: patch_for_def item_patch_default_def apply_matches_def split: verdict.splits)
    qed simp
    with one 3(2) show ?thesis by simp
  qed
qed

end
