(* ===== verification/Roadmap_Agent.thy ===== *)
theory Roadmap_Agent
  imports Roadmap_Loops
begin

text \<open>
  The agent's operations that write rows: a proposed batch and the triage of a captured note. Both
  keep the board's invariant, add proposals only, and reshape nothing but the note they were asked
  about.
\<close>

section \<open>What validation leaves\<close>

lemma validate_ticket_proposed:
  "validate_ticket U n it = Inr new \<Longrightarrow> ni_status new = Some Proposed \<and> ni_deps new = clean_list (pi_deps it)"
  by (auto simp: validate_ticket_def Let_def split: if_splits option.splits)

lemma validate_tickets_proposed:
  "validate_tickets U n items = Inr news \<Longrightarrow>
     list_all (\<lambda>new. ni_status new = Some Proposed) news \<and> map ni_deps news = map (clean_list \<circ> pi_deps) items"
proof (induction items arbitrary: n news)
  case (Cons it items)
  then obtain new rest where "validate_ticket U (n + 1) it = Inr new" "validate_tickets U (Suc n) items = Inr rest"
    "news = new # rest" by (auto split: sum.splits)
  with Cons.IH validate_ticket_proposed [OF this(1)] show ?case by auto
qed simp

lemma validate_ok:
  assumes "validate U items board = Inr news"
  shows "length news \<le> max_batch" and "list_all (\<lambda>new. ni_status new = Some Proposed) news"
    and "map ni_deps news = map (clean_list \<circ> pi_deps) items" and "items \<noteq> []"
    and "validate_batch U (graph_of board) (rejected_of board) (map ni_deps news) = Inr ()"
proof -
  from assms have one: "validate_tickets U 0 items = Inr news" "length items \<le> max_batch" "items \<noteq> []"
    "validate_batch U (graph_of board) (rejected_of board) (map ni_deps news) = Inr ()"
    by (auto simp: validate_def split: if_splits sum.splits)
  note two = validate_tickets_proposed [OF one(1)]
  from two have "length news = length items" by (metis length_map)
  with one two show "length news \<le> max_batch" "list_all (\<lambda>new. ni_status new = Some Proposed) news"
    "map ni_deps news = map (clean_list \<circ> pi_deps) items" "items \<noteq> []"
    "validate_batch U (graph_of board) (rejected_of board) (map ni_deps news) = Inr ()" by simp_all
qed

text \<open>The links of a triage change no dependency.\<close>

lemma link_candidates_same:
  "link_candidates U n src news = Inr out \<Longrightarrow>
     map ni_deps out = map ni_deps news \<and> map ni_status out = map ni_status news"
proof (induction news arbitrary: n out)
  case (Cons new news)
  then obtain rest where "link_candidates U (Suc n) src news = Inr rest" "out = new\<lparr>ni_from_item := Some (it_id src)\<rparr> # rest"
    by (auto split: if_splits sum.splits)
  with Cons.IH show ?case by simp
qed simp

lemma triage_candidates_ok:
  assumes "triage_candidates U items src board = Inr news"
  shows "length news \<le> max_batch" and "list_all (\<lambda>new. ni_status new = Some Proposed) news"
    and "map ni_deps news = map (clean_list \<circ> pi_deps) items"
    and "validate_batch U (graph_of board) (rejected_of board) (map ni_deps news) = Inr ()"
proof -
  from assms obtain mid where mid: "validate U items board = Inr mid" "link_candidates U 0 src mid = Inr news"
    by (auto simp: triage_candidates_def split: sum.splits)
  note ok = validate_ok [OF mid(1)] and same = link_candidates_same [OF mid(2)]
  have "length news = length mid" using same by (metis length_map)
  moreover have "ni_status ` set news = ni_status ` set mid" using same by (metis list.set_map)
  then have "list_all (\<lambda>new. ni_status new = Some Proposed) news"
    using ok(2) by (auto simp: list_all_iff)
  ultimately show "length news \<le> max_batch" "list_all (\<lambda>new. ni_status new = Some Proposed) news"
    "map ni_deps news = map (clean_list \<circ> pi_deps) items"
    "validate_batch U (graph_of board) (rejected_of board) (map ni_deps news) = Inr ()"
    using ok same by simp_all
qed

section \<open>Proposing\<close>

lemma room_less: "room db p k \<Longrightarrow> j \<le> k \<Longrightarrow> room db p j"
  by (simp add: room_def)

text \<open>Whatever its references say, a batch adds proposals only.\<close>

definition only_proposes :: "board_db \<Rightarrow> board_db \<Rightarrow> bool" where
  "only_proposes db db' \<longleftrightarrow>
     (\<exists>db1 rows. adds {ActPm} db db1 rows \<and> (\<forall>r \<in> set rows. it_status r = Proposed) \<and> amends {ActPm} pm_may db1 db')"

lemma only_proposes_added:
  "adds {ActPm} db db' rows \<Longrightarrow> \<forall>r \<in> set rows. it_status r = Proposed \<Longrightarrow> only_proposes db db'"
  unfolding only_proposes_def
  by (intro exI [of _ db'] exI [of _ rows]) (simp add: pm.amends_refl)

lemma proposed_rows_added:
  assumes sound: "sound_board uuid db" and env: "inj uuid" "en_uuid E = uuid" and "room db p max_batch"
    and news: "length news \<le> max_batch" "list_all (\<lambda>new. ni_status new = Some Proposed) news"
    and create: "create_proposed E p detail news db = ((out, es), db')"
  obtains rows where "adds {ActPm} db db' rows" "\<forall>r \<in> set rows. it_status r = Proposed"
proof -
  have "room db p (length news)" using assms(4) news(1) by (rule room_less)
  with create_proposed_rows [OF _ _ env _ create] sound obtain rows where
    rows: "adds {ActPm} db db' rows" "list_all2 (stored_as p (map it_code rows)) rows news"
    unfolding sound_board_def by metis
  have "it_status r = Proposed" if "r \<in> set rows" for r
  proof -
    from that obtain k where k: "k < length rows" "r = rows ! k" by (auto simp: in_set_conv_nth)
    with list_all2_nthD [OF rows(2) k(1)] list_all2_lengthD [OF rows(2)] news(2)
    show ?thesis by (simp add: stored_as_def list_all_length)
  qed
  with rows(1) that show ?thesis by blast
qed

lemma proposed_rows_sound:
  assumes sound: "sound_board uuid db" and env: "inj uuid" "en_uuid E = uuid" and "room db p max_batch"
    and news: "length news \<le> max_batch"
      "validate_batch U (graph_of (store_list db p)) (rejected_of (store_list db p)) (map ni_deps news) = Inr ()"
      "canonical_refs (map ni_deps news)"
    and create: "create_proposed E p detail news db = ((out, es), db')"
  shows "sound_board uuid db'"
proof -
  have "room db p (length news)" using assms(4) news(1) by (rule room_less)
  from create_proposed_sound [OF sound env this news(2,3) create] show ?thesis by blast
qed

lemma insert_batch_step:
  assumes "sound_board uuid db" and "inj uuid" "en_uuid E = uuid" and "room db p max_batch"
    and "insert_batch E p items db = Inr (x, db')"
  shows "only_proposes db db'" and "canonical_refs (map (clean_list \<circ> pi_deps) items) \<Longrightarrow> sound_board uuid db'"
proof -
  obtain news created es where one: "validate (en_unicode E) items (store_list db p) = Inr news"
    "create_proposed E p None news db = ((created, es), db')"
    using assms(5) by (auto simp: insert_batch_def Let_def split: sum.splits prod.splits)
  note ok = validate_ok [OF one(1)]
  obtain rows where "adds {ActPm} db db' rows" "\<forall>r \<in> set rows. it_status r = Proposed"
    by (rule proposed_rows_added [OF assms(1-4) ok(1,2) one(2)])
  then show "only_proposes db db'" by (rule only_proposes_added)
  assume "canonical_refs (map (clean_list \<circ> pi_deps) items)"
  then have "canonical_refs (map ni_deps news)" by (simp add: ok(3))
  from proposed_rows_sound [OF assms(1-4) ok(1,5) this one(2)] show "sound_board uuid db'" .
qed

section \<open>Triage\<close>

lemma set_triage_pm:
  assumes "set_triage E i k t db = (x, db')"
  shows "amends A pm_keeps db db'"
  using asks.amends_update [of db "\<lambda>r. it_id r = i"] assms
  by (auto simp: set_triage_def Let_def keeps_identity_def pm_keeps_def pm_may_def keeps_defs)

text \<open>The note becomes the proposal its ticket describes.\<close>

lemma shape_ask_ok:
  assumes "shape_ask U a src board = Inr out"
  shows "\<exists>p. out = OutAsk p \<and> pt_status p = Some Proposed \<and> pt_rank p = None \<and> pt_agent_id p = None \<and>
    pt_workflow_def_id p = None \<and> pt_run_id p = None \<and> pt_pr_url p = None \<and> pt_pr_number p = None \<and>
    (\<exists>ds. pt_deps p = Some ds \<and> validate_edit U (graph_of board) (rejected_of board) (it_code src) ds = Inr ())"
  using assms by (auto simp: shape_ask_def Let_def item_patch_default_def split: sum.splits option.splits)

lemma captured_ok:
  "captured U board code = Inr src \<Longrightarrow> src \<in> set board \<and> it_status src = Captured"
  by (auto simp: captured_def split: option.splits if_splits dest: find_SomeD)

lemma land_ask_pm:
  assumes ids: "distinct (map it_id (bd_items db))" and src: "src \<in> set (store_list db p)"
    and patch: "pt_status q = Some Proposed" "pt_rank q = None" "pt_agent_id q = None" "pt_workflow_def_id q = None"
      "pt_run_id q = None" "pt_pr_url q = None" "pt_pr_number q = None" "pt_deps q = Some ds"
      "validate_edit U (graph_of (store_list db p)) (rejected_of (store_list db p)) (it_code src) ds = Inr ()"
    and land: "land_ask E p src q db = Inr (x, db')"
  shows "amends {ActPm} (pm_edits U db (it_id src)) db db'"
proof -
  obtain c db1 y db2 e where steps: "store_apply E (it_id src) q (Some Captured) db = (Some c, db1)"
    "set_triage E (it_id src) Ask None db1 = (y, db2)"
    "record_event E (it_id src) p ActPm EkProposed (Some ''triaged as ask'') db2 = (e, db')"
    using land by (auto simp: land_ask_def update_where_status_def Let_def split: option.splits prod.splits)
  have "amends {ActPm} (pm_edits U db (it_id src)) db db1"
  proof (rule shapes.amends_apply [OF steps(1)])
    fix r assume r: "r \<in> set (bd_items db)" "apply_matches (it_id src) (Some Captured) r"
    then have "r = src" using ids src by (auto simp: apply_matches_def store_list_set distinct_map dest: inj_onD)
    with r(2) patch src show "pm_edits U db (it_id src) r (apply_patch q (en_now E) r)"
      by (auto simp: pm_edits_def pm_may_def keeps_defs dep_checked_def apply_patch_def patched_def
          apply_matches_def store_list_set)
  qed
  then have "amends {ActPm} (pm_edits U db (it_id src)) db db2"
  proof (rule amends_trans [OF _ set_triage_pm [OF steps(2)]])
    fix r s t assume "pm_edits U db (it_id src) r s" "pm_keeps s t"
    then show "pm_edits U db (it_id src) r t"
      using pm_may_trans by (auto simp: pm_edits_def pm_keeps_def dep_checked_def)
  qed
  from record_after [OF this steps(3)] show ?thesis by simp
qed

text \<open>The candidates a triage may add.\<close>

definition triage_refs :: "triage_args \<Rightarrow> string list list" where
  "triage_refs a = map (clean_list \<circ> pi_deps) (case ta_candidates a of Some items \<Rightarrow> items | None \<Rightarrow> [])"

lemma triage_shape_candidates:
  assumes "triage_shape U a src board = Inr out" and "out = OutIdea tr news \<or> out = OutBrainstorm news"
  shows "length news \<le> max_batch \<and> list_all (\<lambda>new. ni_status new = Some Proposed) news \<and>
    validate_batch U (graph_of board) (rejected_of board) (map ni_deps news) = Inr () \<and>
    (canonical_refs (triage_refs a) \<longrightarrow> canonical_refs (map ni_deps news))"
proof -
  consider "news = []" | items where "ta_candidates a = Some items" "triage_candidates U items src board = Inr news"
    using assms(1,2)
    by (auto simp: triage_shape_def shape_ask_def shape_idea_def shape_brainstorm_def Let_def
        split: option.splits capture_kind.splits sum.splits if_splits)
  then show ?thesis
  proof cases
    case 1
    then show ?thesis by (simp add: validate_batch_def canonical_refs_def)
  next
    case 2
    with triage_candidates_ok [OF 2(2)] show ?thesis by (simp add: triage_refs_def)
  qed
qed

lemma land_candidates_step:
  assumes sound: "sound_board uuid db" and env: "inj uuid" "en_uuid E = uuid" and "room db p max_batch"
    and news: "length news \<le> max_batch \<and> list_all (\<lambda>new. ni_status new = Some Proposed) news \<and>
      validate_batch U (graph_of (store_list db p)) (rejected_of (store_list db p)) (map ni_deps news) = Inr () \<and>
      (canonical_refs refs \<longrightarrow> canonical_refs (map ni_deps news))"
    and steps: "create_proposed E p detail news db = (out, db1)" "set_triage E i k t db1 = (y, db2)"
      "record_event E j p ActPm EkNote d db2 = (e, db')"
  shows "only_proposes db db'" and "canonical_refs refs \<Longrightarrow> sound_board uuid db'"
proof -
  obtain created es where create: "create_proposed E p detail news db = ((created, es), db1)" using steps(1) by (cases out) simp
  have two: "amends {ActPm} pm_keeps db1 db'"
    by (rule record_after [OF set_triage_pm [OF steps(2)] steps(3)]) simp
  from two have "amends {ActPm} pm_may db1 db'" by (rule amends_mono) (auto simp: pm_keeps_def)
  moreover obtain rows where "adds {ActPm} db db1 rows" "\<forall>r \<in> set rows. it_status r = Proposed"
    by (rule proposed_rows_added [OF sound env assms(4) _ _ create]) (use news in simp_all)
  ultimately show "only_proposes db db'" unfolding only_proposes_def by blast
  assume "canonical_refs refs"
  with proposed_rows_sound [OF sound env assms(4) _ _ _ create] news have "sound_board uuid db1" by blast
  then show "sound_board uuid db'"
    by (rule sound_amend [OF _ two, of uuid U i]) (auto simp: pm_keeps_def dep_checked_def dest: contract_hold_ok(1))
qed

lemma triage_op_step:
  assumes sound: "sound_board uuid db" and env: "inj uuid" "en_uuid E = uuid" and "room db p max_batch"
    and op: "triage_op E p a db = Inr (x, db')"
  shows "only_proposes db db' \<and> (canonical_refs (triage_refs a) \<longrightarrow> sound_board uuid db')"
proof -
  let ?U = "en_unicode E" and ?board = "store_list db p"
  from op obtain src out where src: "captured ?U ?board (trim (ta_code a)) = Inr src" "triage_shape ?U a src ?board = Inr out"
    by (auto simp: triage_op_def Let_def split: sum.splits)
  note body = op [unfolded triage_op_def Let_def src sum.case]
  show ?thesis
  proof (cases out)
    case (OutAsk q)
    have "shape_ask ?U a src ?board = Inr (OutAsk q)"
      using src(2) OutAsk
      by (auto simp: triage_shape_def shape_idea_def shape_brainstorm_def Let_def
          split: option.splits capture_kind.splits sum.splits if_splits)
    from shape_ask_ok [OF this] obtain ds where patch: "pt_status q = Some Proposed" "pt_rank q = None" "pt_agent_id q = None"
      "pt_workflow_def_id q = None" "pt_run_id q = None" "pt_pr_url q = None" "pt_pr_number q = None" "pt_deps q = Some ds"
      "validate_edit ?U (graph_of ?board) (rejected_of ?board) (it_code src) ds = Inr ()" by auto
    have ids: "distinct (map it_id (bd_items db))" using sound by (simp add: sound_board_def sound_ids_def)
    have "amends {ActPm} (pm_edits ?U db (it_id src)) db db'"
      using body OutAsk captured_ok [OF src(1)] patch by (intro land_ask_pm [OF ids]) auto
    note lands = this
    have "sound_board uuid db'"
      by (rule sound_amend [OF sound lands, of ?U "it_id src"]) (auto simp: pm_edits_def dest: contract_hold_ok(1))
    moreover from lands have "amends {ActPm} pm_may db db'" by (rule amends_mono) (auto simp: pm_edits_def)
    then have "only_proposes db db'" unfolding only_proposes_def using adds_refl by fastforce
    ultimately show ?thesis by blast
  next
    case (OutIdea tr news)
    obtain created db1 y db2 d e where steps: "create_proposed E p (Some (''from '' @ it_code src)) news db = (created, db1)"
      "set_triage E (it_id src) Idea (Some tr) db1 = (y, db2)" "record_event E (it_id src) p ActPm EkNote d db2 = (e, db')"
      using body OutIdea by (auto simp: land_idea_def Let_def split: option.splits prod.splits)
    from land_candidates_step [OF sound env assms(4) triage_shape_candidates [OF src(2)] steps] OutIdea
    show ?thesis by blast
  next
    case (OutBrainstorm news)
    obtain created db1 t y db2 d e where steps: "create_proposed E p (Some (''from '' @ it_code src)) news db = (created, db1)"
      "set_triage E (it_id src) Brainstorm t db1 = (y, db2)" "record_event E (it_id src) p ActPm EkNote d db2 = (e, db')"
      using body OutBrainstorm by (auto simp: land_brainstorm_def Let_def split: option.splits prod.splits)
    from land_candidates_step [OF sound env assms(4) triage_shape_candidates [OF src(2)] steps] OutBrainstorm
    show ?thesis by blast
  qed
qed

end
