(* ===== verification/Project_Settings.thy ===== *)
theory Project_Settings
  imports Roadmap_Store
begin

text \<open>
  The per-project settings a client may read and write (\<open>commands/project_settings.rs\<close>) and the
  spelling of the network posture of a box (\<open>sandbox/boxes/settings.rs\<close>). Everything off the list
  stays the host's own, the roadmap's code allocator with it.
\<close>

section \<open>The posture\<close>

datatype egress_mode = EgOpen | EgAsk | EgAllowList

definition egress_mode_setting :: string where "egress_mode_setting = ''box_egress_mode''"

definition egress_mode_parse :: "unicode \<Rightarrow> string option \<Rightarrow> string + egress_mode" where
  "egress_mode_parse U raw =
     (case (case map_option trim raw of Some s \<Rightarrow> if s = [] then None else Some s | None \<Rightarrow> None) of
        None \<Rightarrow> Inr EgOpen
      | Some s \<Rightarrow>
          if s = ''open'' then Inr EgOpen
          else if s = ''ask'' then Inr EgAsk
          else if s = ''allowlist'' then Inr EgAllowList
          else Inl (egress_mode_setting @ '' must be open, ask or allowlist; got '' @ debug_fmt U s))"

fun egress_mode_as_setting :: "egress_mode \<Rightarrow> string" where
  "egress_mode_as_setting EgOpen = ''open''"
| "egress_mode_as_setting EgAsk = ''ask''"
| "egress_mode_as_setting EgAllowList = ''allowlist''"

lemma egress_mode_roundtrip: "egress_mode_parse U (Some (egress_mode_as_setting m)) = Inr m"
proof -
  have "trim ''open'' = ''open''" "trim ''ask'' = ''ask''" "trim ''allowlist'' = ''allowlist''" by code_simp+
  then show ?thesis by (cases m) (simp_all add: egress_mode_parse_def)
qed

section \<open>The keys\<close>

definition egress_mode_key :: string where "egress_mode_key = ''sandbox.egress_mode''"
definition icon_source_key :: string where "icon_source_key = ''icon.source''"

definition project_setting_keys :: "string list" where
  "project_setting_keys =
     [''verify.on_turn_end'', ''run_env'', ''workflow.default'', ''roadmap.autoqueue'',
      ''roadmap.max_concurrent'', ''roadmap.settle_review'', ''linear.team_id'', ''linear.team_name'',
      ''context.enabled'', ''context.extract'', ''box.egress_allow'', ''sandbox.placement'',
      egress_mode_key, icon_source_key, ''roadmap.triage'']"

definition run_prefix :: string where "run_prefix = ''run.''"

definition is_client_project_key :: "string \<Rightarrow> bool" where
  "is_client_project_key key \<longleftrightarrow>
     key \<in> set project_setting_keys \<or> prefix run_prefix key \<and> length key > length run_prefix"

text \<open>The answer, a key at a time: what the map of \<open>get_project_settings_impl\<close> holds for a key.\<close>

definition get_project_settings :: "board_db \<Rightarrow> string \<Rightarrow> string \<rightharpoonup> string" where
  "get_project_settings db project key =
     (if is_client_project_key key then bd_settings db (project, key) else None)"

definition set_project_setting ::
  "unicode \<Rightarrow> string \<Rightarrow> string \<Rightarrow> string option \<Rightarrow> board_db \<Rightarrow> string + board_db" where
  "set_project_setting U project key value db =
     (if \<not> is_client_project_key key
      then Inl (in_ticks key @ '' is not a project setting a client may write'')
      else if key = icon_source_key
      then Inl (in_ticks key @ '' is written through project_icon_set'')
      else
        (case (if key = egress_mode_key
               then (case value of
                       None \<Rightarrow> Inr None
                     | Some v \<Rightarrow> (case egress_mode_parse U (Some v) of
                          Inl e \<Rightarrow> Inl e | Inr m \<Rightarrow> Inr (Some (egress_mode_as_setting m))))
               else Inr value) of
           Inl e \<Rightarrow> Inl e
         | Inr stored \<Rightarrow> Inr (db\<lparr>bd_settings := (bd_settings db)((project, key) := stored)\<rparr>)))"

lemma host_keys: "\<not> is_client_project_key seq_key" "\<not> is_client_project_key prefix_key"
  by (simp_all add: is_client_project_key_def project_setting_keys_def seq_key_def prefix_key_def
      egress_mode_key_def icon_source_key_def run_prefix_def)

text \<open>A client's write changes one setting of one project, and none the host keeps to itself.\<close>

lemma set_project_setting_keeps:
  assumes "set_project_setting U p key value db = Inr db'"
  shows "db' = db\<lparr>bd_settings := bd_settings db'\<rparr> \<and>
    (\<forall>q k. (q, k) \<noteq> (p, key) \<or> \<not> is_client_project_key k \<longrightarrow> bd_settings db' (q, k) = bd_settings db (q, k))"
  using assms by (auto simp: set_project_setting_def split: if_splits sum.splits option.splits)

end
