(* ===== verification/Roadmap_Run.thy ===== *)
theory Roadmap_Run
  imports Roadmap_Agent Project_Settings
begin

text \<open>
  The board as a state machine: the commands of \<open>roadmap/commands.rs\<close>, the agent's operations, the
  steps of the drainer and of the sweep, in any order. Every operation is one step, as it holds the
  database lock from its first read to its last write; the drainer takes the lock anew for each run
  it settles, each claim and each launch it records.
\<close>

section \<open>Commands\<close>

definition create_item_impl ::
  "env \<Rightarrow> string \<Rightarrow> new_item \<Rightarrow> board_db \<Rightarrow> string + (roadmap_item \<times> item_event) \<times> board_db" where
  "create_item_impl E project new db =
     (if trim (ni_title new) = [] then Inl ''a roadmap item needs a title'' else create_checked E project new db)"

definition capture_impl ::
  "env \<Rightarrow> string \<Rightarrow> string \<Rightarrow> board_db \<Rightarrow> string + (roadmap_item \<times> item_event) \<times> board_db" where
  "capture_impl E project body db =
     (case captured_item body of Inl e \<Rightarrow> Inl e | Inr new \<Rightarrow> create_checked E project new db)"

definition hold_item_impl ::
  "env \<Rightarrow> string \<Rightarrow> string \<Rightarrow> board_db \<Rightarrow> string + (roadmap_item \<times> item_event) \<times> board_db" where
  "hold_item_impl E i reason db =
     (case clean_reason reason of Inl e \<Rightarrow> Inl e | Inr reason \<Rightarrow> hold_with_event E i reason ActUser db)"

definition hold_project_impl :: "env \<Rightarrow> string \<Rightarrow> string \<Rightarrow> board_db \<Rightarrow> string + project_hold \<times> board_db" where
  "hold_project_impl E project reason db =
     (case clean_reason reason of Inl e \<Rightarrow> Inl e | Inr reason \<Rightarrow> Inr (hold_project E project reason ActUser db))"

definition feedback_detail :: "nat \<Rightarrow> string" where
  "feedback_detail threads =
     (if threads = 1 then ''Sent 1 review thread to an agent''
      else ''Sent '' @ show_nat threads @ '' review threads to an agent'')"

definition note_review_feedback_impl ::
  "env \<Rightarrow> string \<Rightarrow> nat \<Rightarrow> board_db \<Rightarrow> string + item_event \<times> board_db" where
  "note_review_feedback_impl E i threads db =
     (case store_get db i of
        None \<Rightarrow> Inl (missing i)
      | Some r \<Rightarrow>
          if it_status r \<noteq> InReview
          then Inl (it_code r @ '' is '' @ item_status_as_str (it_status r) @ '' '' @ em_dash @
                 '' only an item under review has feedback to send'')
          else Inr (record_event E (it_id r) (it_project_id r) ActUser EkNote (Some (feedback_detail threads)) db))"

section \<open>Steps\<close>

datatype party = User | Agent | Drainer | Sweep

text \<open>
  A step in which a number is allocated has room for it below the largest \<open>i64\<close>, where the counter of the
  program ends. \<open>canonical\<close> asks that the batches of the agent spell the references within them as the
  message of the tool does; the program takes any batch, which is the step with \<open>canonical = False\<close>.
\<close>

inductive board_step :: "(nat \<Rightarrow> string) \<Rightarrow> bool \<Rightarrow> party \<Rightarrow> board_db \<Rightarrow> board_db \<Rightarrow> bool" for uuid canonical where
  create: "en_uuid E = uuid \<Longrightarrow> room db p 1 \<Longrightarrow> create_item_impl E p new db = Inr (x, db') \<Longrightarrow>
    board_step uuid canonical User db db'"
| capture: "en_uuid E = uuid \<Longrightarrow> room db p 1 \<Longrightarrow> capture_impl E p body db = Inr (x, db') \<Longrightarrow>
    board_step uuid canonical User db db'"
| edit: "update_and_record E i pt expect queue db = Inr (x, db') \<Longrightarrow> board_step uuid canonical User db db'"
| rank: "set_rank E i rank db = Inr (x, db') \<Longrightarrow> board_step uuid canonical User db db'"
| assign: "assign E i op db = Inr (x, db') \<Longrightarrow> board_step uuid canonical User db db'"
| feedback: "note_review_feedback_impl E i n db = Inr (x, db') \<Longrightarrow> board_step uuid canonical User db db'"
| hold: "hold_item_impl E i reason db = Inr (x, db') \<Longrightarrow> board_step uuid canonical User db db'"
| release: "release_with_event E i db = Inr (x, db') \<Longrightarrow> board_step uuid canonical User db db'"
| hold_board: "hold_project_impl E p reason db = Inr (x, db') \<Longrightarrow> board_step uuid canonical User db db'"
| release_board: "release_project p db = (x, db') \<Longrightarrow> board_step uuid canonical User db db'"
| reject: "reject_item E i reason db = Inr (x, db') \<Longrightarrow> board_step uuid canonical User db db'"
| reopen: "reopen_item E i db = Inr (x, db') \<Longrightarrow> board_step uuid canonical User db db'"
| delete: "delete_item i only db = (x, db') \<Longrightarrow> board_step uuid canonical User db db'"
| accept_ask: "accept_proposal E pid db = Inr (x, db') \<Longrightarrow> board_step uuid canonical User db db'"
| reject_ask: "reject_proposal E pid db = Inr (x, db') \<Longrightarrow> board_step uuid canonical User db db'"
| accept_order: "accept_order E p db = Inr (x, db') \<Longrightarrow> board_step uuid canonical User db db'"
| reject_order: "db' = order_delete p db \<Longrightarrow> board_step uuid canonical User db db'"
| set_setting: "set_project_setting U p key v db = Inr db' \<Longrightarrow> board_step uuid canonical User db db'"
| propose: "en_uuid E = uuid \<Longrightarrow> room db p max_batch \<Longrightarrow> (canonical \<longrightarrow> canonical_refs (map (clean_list \<circ> pi_deps) items)) \<Longrightarrow>
    insert_batch E p items db = Inr (x, db') \<Longrightarrow> board_step uuid canonical Agent db db'"
| ask_update: "en_uuid E = uuid \<Longrightarrow> park_update E p code pt note db = Inr (x, db') \<Longrightarrow> board_step uuid canonical Agent db db'"
| ask_discard: "en_uuid E = uuid \<Longrightarrow> park_discard E p code reason db = Inr (x, db') \<Longrightarrow> board_step uuid canonical Agent db db'"
| ask_order: "park_order E p raw note db = Inr (x, db') \<Longrightarrow> board_step uuid canonical Agent db db'"
| observe: "record_note E p code raw db = Inr (x, db') \<Longrightarrow> board_step uuid canonical Agent db db'"
| place_hold: "place_hold E p scope raw db = Inr (x, db') \<Longrightarrow> board_step uuid canonical Agent db db'"
| triage: "en_uuid E = uuid \<Longrightarrow> room db p max_batch \<Longrightarrow> (canonical \<longrightarrow> canonical_refs (triage_refs a)) \<Longrightarrow>
    triage_op E p a db = Inr (x, db') \<Longrightarrow> board_step uuid canonical Agent db db'"
| settle: "db' = settle_one E db s \<Longrightarrow> board_step uuid canonical Drainer db db'"
| claim: "plan_and_claim E C runs p cap db = (x, db') \<Longrightarrow> board_step uuid canonical Drainer db db'"
| launched: "db' = dispatch_plan E pl answer db \<Longrightarrow> board_step uuid canonical Drainer db db'"
| deferred: "record_event E i p ActDrainer EkNote d db = (e, db') \<Longrightarrow> board_step uuid canonical Drainer db db'"
| sweep: "sweep_one E poll (seen, db) w = (seen', db') \<Longrightarrow> board_step uuid canonical Sweep db db'"

inductive reachable :: "(nat \<Rightarrow> string) \<Rightarrow> board_db \<Rightarrow> bool" for uuid where
  start: "bd_items db = [] \<Longrightarrow> bd_proposals db = [] \<Longrightarrow> sound_prefixes db \<Longrightarrow> reachable uuid db"
| later: "reachable uuid db \<Longrightarrow> board_step uuid True who db db' \<Longrightarrow> reachable uuid db'"

section \<open>The invariant\<close>

lemma sound_start: "bd_items db = [] \<Longrightarrow> bd_proposals db = [] \<Longrightarrow> sound_prefixes db \<Longrightarrow> sound_board uuid db"
  by (simp add: sound_board_def sound_ids_def sound_codes_def sound_deps_def sound_rows_def store_list_def
      graph_of_def acyclic_board_def waits_on_itself_def)
    (metis dep_edge_def map_of.simps(1) option.distinct(1) tranclpD)

text \<open>A write to tables the invariant does not read, or that keeps one ask per item.\<close>

lemma sound_same:
  assumes "sound_board uuid db" and "bd_items db' = bd_items db" and "bd_drawn db \<le> bd_drawn db'"
    and "\<And>p. bd_settings db' (p, seq_key) = bd_settings db (p, seq_key)"
    and "\<And>p. bd_settings db' (p, prefix_key) = bd_settings db (p, prefix_key)"
    and "distinct (map pr_item_id (bd_proposals db'))"
  shows "sound_board uuid db'"
proof -
  have "counter db' = counter db" using assms(4) by (simp add: fun_eq_iff counter_def)
  then have "below_counter db' = below_counter db" by (simp add: fun_eq_iff below_counter_def)
  moreover have "store_list db' = store_list db" by (simp add: fun_eq_iff store_list_def assms(2))
  moreover have "sound_ids uuid db'"
    using assms(1-3) sound_ids_later by (auto simp: sound_board_def)
  ultimately show ?thesis
    using assms by (simp add: sound_board_def sound_codes_def sound_prefixes_def sound_deps_def sound_rows_def)
qed

lemma upsert_one_ask:
  "distinct (map pr_item_id (bd_proposals db)) \<Longrightarrow>
     distinct (map pr_item_id (bd_proposals (proposal_upsert E p i k q n db)))"
proof -
  assume d: "distinct (map pr_item_id (bd_proposals db))"
  show ?thesis
  proof (cases "proposal_for_item db i")
    case None
    then have "i \<notin> pr_item_id ` set (bd_proposals db)" by (auto simp: proposal_for_item_def dest: find_NoneD)
    with None d show ?thesis by (simp add: proposal_upsert_def draw_uuid_def proposal_for_item_def)
  next
    case (Some a)
    then have "map pr_item_id (bd_proposals (proposal_upsert E p i k q n db)) = map pr_item_id (bd_proposals db)"
      by (simp add: proposal_upsert_def draw_uuid_def proposal_for_item_def comp_def if_distrib cong: if_cong)
    with d show ?thesis by simp
  qed
qed

lemma upsert_rest:
  "bd_items (proposal_upsert E p i k q n db) = bd_items db" "bd_drawn db \<le> bd_drawn (proposal_upsert E p i k q n db)"
  "bd_settings (proposal_upsert E p i k q n db) = bd_settings db" "bd_holds (proposal_upsert E p i k q n db) = bd_holds db"
  "bd_events (proposal_upsert E p i k q n db) = bd_events db"
  by (simp_all add: proposal_upsert_def draw_uuid_def Let_def)

lemma forget_origin_fields [simp]:
  "it_id (forget_origin i r) = it_id r" "it_project_id (forget_origin i r) = it_project_id r" "it_code (forget_origin i r) = it_code r"
  "it_deps (forget_origin i r) = it_deps r" "it_status (forget_origin i r) = it_status r"
  "hold_ok (forget_origin i r) = hold_ok r"
  by (simp_all add: forget_origin_def hold_ok_def)

lemma sound_delete:
  assumes "sound_board uuid db" and "store_delete i db = (x, db')"
  shows "sound_board uuid db'"
proof -
  note parts = assms(1) [unfolded sound_board_def]
  have db': "bd_items db' = map (forget_origin i) (filter (\<lambda>r. it_id r \<noteq> i) (bd_items db))" "bd_settings db' = bd_settings db"
    "bd_drawn db' = bd_drawn db" "bd_proposals db' = filter (\<lambda>p. pr_item_id p \<noteq> i) (bd_proposals db)"
    using assms(2) by (auto simp: store_delete_def)
  note below = below_counter_settings [OF db'(2)]
  have codes: "sound_codes db'"
    using parts by (auto simp: sound_codes_def sound_prefixes_def db' below distinct_map_filter comp_def)
  have "acyclic_board (graph_of (store_list db' p))" for p
  proof -
    have "acyclic_board (graph_of (store_list db p))" using parts by (simp add: sound_deps_def)
    moreover have "dep_edge (graph_of (store_list db' p)) a b \<Longrightarrow> dep_edge (graph_of (store_list db p)) a b" for a b
      using parts codes by (auto simp: dep_edge_board db')
    ultimately show ?thesis by (rule acyclic_subgraph)
  qed
  with parts codes show ?thesis
    by (auto simp: sound_board_def sound_ids_def sound_deps_def sound_rows_def db' below list_all_iff distinct_map_filter comp_def)
qed

section \<open>Refinement\<close>

fun signs :: "party \<Rightarrow> event_actor set" where
  "signs User = {ActUser}"
| "signs Agent = {ActPm}"
| "signs Drainer = {ActDrainer}"
| "signs Sweep = {ActSweep, ActDrainer}"

fun contract :: "party \<Rightarrow> roadmap_item \<Rightarrow> roadmap_item \<Rightarrow> bool" where
  "contract User = user_may"
| "contract Agent = pm_may"
| "contract Drainer = drainer_may"
| "contract Sweep = sweep_may"

text \<open>
  What a party may do to the board: a row keeps its name, and its origin unless the user deleted the item it
  came from, and changes as the contract allows; only the user deletes one, which is then nobody's origin;
  the agent adds proposals only and the loops nothing, only the user lifts the hold of a project, and what
  is recorded is signed by the party.
\<close>

definition keeps_name :: "roadmap_item \<Rightarrow> roadmap_item \<Rightarrow> bool" where
  "keeps_name r s \<longleftrightarrow>
     it_id s = it_id r \<and> it_project_id s = it_project_id r \<and> it_code s = it_code r \<and>
     it_created_at s = it_created_at r \<and> it_issue_url s = it_issue_url r"

definition keeps_origin :: "party \<Rightarrow> board_db \<Rightarrow> roadmap_item \<Rightarrow> roadmap_item \<Rightarrow> bool" where
  "keeps_origin who db' r s \<longleftrightarrow>
     it_from_item s = it_from_item r \<or>
     who = User \<and> it_from_item s = None \<and> (\<exists>i. it_from_item r = Some i \<and> store_get db' i = None)"

lemma identity_kept: "keeps_identity r s \<Longrightarrow> keeps_name r s \<and> keeps_origin who db' r s"
  by (simp add: keeps_identity_def keeps_name_def keeps_origin_def)

definition party_refines :: "party \<Rightarrow> board_db \<Rightarrow> board_db \<Rightarrow> bool" where
  "party_refines who db db' \<longleftrightarrow>
     (\<forall>i r. store_get db i = Some r \<longrightarrow>
        (case store_get db' i of Some s \<Rightarrow> keeps_name r s \<and> keeps_origin who db' r s \<and> contract who r s | None \<Rightarrow> who = User)) \<and>
     (\<forall>i s. store_get db i = None \<longrightarrow> store_get db' i = Some s \<longrightarrow> who = User \<or> who = Agent \<and> it_status s = Proposed) \<and>
     (\<forall>i. store_get db i \<noteq> None \<longrightarrow> store_get db' i = None \<longrightarrow> (\<forall>s \<in> set (bd_items db'). it_from_item s \<noteq> Some i)) \<and>
     (\<forall>p. who \<noteq> User \<longrightarrow> hold_get db p \<noteq> None \<longrightarrow> hold_get db' p \<noteq> None) \<and>
     (\<forall>e \<in> set (bd_events db'). e \<in> set (bd_events db) \<or> ev_actor e \<in> signs who) \<and>
     (who \<noteq> User \<longrightarrow> set (bd_events db) \<subseteq> set (bd_events db'))"

lemma contract_refl: "contract who r r"
  by (cases who) (simp_all add: user_may_def pm_may_def drainer_may_def sweep_may_def)

lemma store_get_None: "store_get db i = None \<longleftrightarrow> i \<notin> it_id ` set (bd_items db)"
  by (auto simp: store_get_def find_None_iff)

lemma adds_get: "adds A db db1 rows \<Longrightarrow> store_get db i = Some r \<Longrightarrow> store_get db1 i = Some r"
proof -
  assume "adds A db db1 rows" and "store_get db i = Some r"
  then obtain xs ys where "bd_items db1 = xs @ r # (ys @ rows)" "it_id r = i" "\<forall>y \<in> set xs. it_id y \<noteq> i"
    unfolding store_get_def find_first_iff adds_def by auto
  then show ?thesis unfolding store_get_def find_first_iff by blast
qed

lemma adds_refines:
  assumes adds: "adds (signs who) db db1 rows" and amends: "amends (signs who) R db1 db'"
    and R: "\<And>r s. R r s \<Longrightarrow> contract who r s"
    and rows: "rows = [] \<or> who = User \<or> who = Agent \<and> (\<forall>r \<in> set rows. it_status r = Proposed)"
  shows "party_refines who db db'"
proof -
  have holds: "bd_holds db' = bd_holds db" using adds amends unfolding adds_def amends_def by metis
  from adds amends obtain es fs where events: "bd_events db' = bd_events db @ es @ fs"
    "\<forall>e \<in> set es. ev_actor e \<in> signs who" "\<forall>e \<in> set fs. ev_actor e \<in> signs who"
    unfolding adds_def amends_def by fastforce
  show ?thesis
    unfolding party_refines_def
  proof (intro conjI allI impI ballI)
    fix i r assume "store_get db i = Some r"
    from amends_get [OF amends adds_get [OF adds this]] R identity_kept
    show "case store_get db' i of Some s \<Rightarrow> keeps_name r s \<and> keeps_origin who db' r s \<and> contract who r s | None \<Rightarrow> who = User"
      by fastforce
  next
    fix i s assume none: "store_get db i = None" and some: "store_get db' i = Some s"
    from amends obtain f where f: "bd_items db' = map f (bd_items db1)"
      "\<And>r. r \<in> set (bd_items db1) \<Longrightarrow> keeps_identity r (f r) \<and> R r (f r)" unfolding amends_def by blast
    from store_get_SomeD [OF some] obtain r where r: "r \<in> set (bd_items db1)" "s = f r" by (auto simp: f(1))
    have "it_id r = i" using store_get_SomeD [OF some] f(2) [OF r(1)] r(2) by (simp add: keeps_identity_def)
    with none adds r(1) have "r \<in> set rows" by (auto simp: store_get_None adds_def)
    with rows consider "who = User" | "who = Agent" "it_status r = Proposed" by auto
    then show "who = User \<or> who = Agent \<and> it_status s = Proposed"
    proof cases
      case 2
      have "contract who r s" using R f(2) [OF r(1)] r(2) by blast
      with 2 show ?thesis by (auto simp: pm_may_def)
    qed simp
  next
    fix i s assume "store_get db i \<noteq> None" "store_get db' i = None"
    with amends_get [OF amends adds_get [OF adds]] show "it_from_item s \<noteq> Some i" by fastforce
  next
    fix p assume "hold_get db p \<noteq> None"
    then show "hold_get db' p \<noteq> None" by (simp add: hold_get_def holds)
  next
    fix e assume "e \<in> set (bd_events db')"
    then show "e \<in> set (bd_events db) \<or> ev_actor e \<in> signs who" using events by auto
  next
    show "set (bd_events db) \<subseteq> set (bd_events db')" using events by auto
  qed
qed

lemma amends_refines:
  "amends (signs who) R db db' \<Longrightarrow> (\<And>r s. R r s \<Longrightarrow> contract who r s) \<Longrightarrow> party_refines who db db'"
  by (rule adds_refines [where ?db1.0 = db and rows = "[]" and R = R]) (simp_all add: adds_refl)

lemma same_refines:
  assumes "bd_items db' = bd_items db" and "bd_events db' = bd_events db"
    and "\<And>p. who \<noteq> User \<Longrightarrow> hold_get db p \<noteq> None \<Longrightarrow> hold_get db' p \<noteq> None"
  shows "party_refines who db db'"
proof -
  have "store_get db' = store_get db" using assms(1) by (simp add: fun_eq_iff store_get_def)
  then show ?thesis
    using assms contract_refl identity_kept [OF keeps_identity_refl] unfolding party_refines_def
    by (auto split: option.split)
qed

lemma delete_refines: "store_delete i db = (x, db') \<Longrightarrow> party_refines User db db'"
proof -
  assume "store_delete i db = (x, db')"
  then have items: "bd_items db' = map (forget_origin i) (filter (\<lambda>r. it_id r \<noteq> i) (bd_items db))"
    and rest: "bd_events db' = filter (\<lambda>e. ev_item_id e \<noteq> i) (bd_events db)" by (auto simp: store_delete_def)
  have "List.find (\<lambda>r. it_id r = j) (map (forget_origin i) (filter (\<lambda>r. it_id r \<noteq> i) rs)) =
      (if j = i then None else map_option (forget_origin i) (List.find (\<lambda>r. it_id r = j) rs))" for j and rs :: "roadmap_item list"
    by (induction rs) auto
  then have get: "store_get db' j = (if j = i then None else map_option (forget_origin i) (store_get db j))" for j
    unfolding store_get_def items by simp
  have gone: "it_from_item s \<noteq> Some i" if "s \<in> set (bd_items db')" for s
    using that by (auto simp: items forget_origin_def)
  have "keeps_name r (forget_origin i r) \<and> keeps_origin User db' r (forget_origin i r) \<and> contract User r (forget_origin i r)" for r
    using get [of i] by (auto simp: forget_origin_def keeps_name_def keeps_origin_def user_may_def hold_ok_def)
  with get rest gone show ?thesis unfolding party_refines_def by (auto split: option.split)
qed

section \<open>Every step\<close>

lemma contract_keeps_hold: "contract who r s \<Longrightarrow> hold_ok r \<Longrightarrow> hold_ok s"
  by (cases who) (auto dest: contract_hold_ok)

lemma amend_step:
  assumes "sound_board uuid db" and "amends (signs who) R db db'"
    and "\<And>r s. R r s \<Longrightarrow> contract who r s \<and> dep_checked U db i r s"
  shows "sound_board uuid db' \<and> party_refines who db db'"
  using sound_amend [OF assms(1,2), of U i] amends_refines [OF assms(2)] assms(3) contract_keeps_hold by blast

lemma user_step: "sound_board uuid db \<Longrightarrow> amends {ActUser} user_keeps db db' \<Longrightarrow>
    sound_board uuid db' \<and> party_refines User db db'"
  by (rule amend_step [where who = User and R = user_keeps]) (simp_all add: user_keeps_def dep_checked_def)

lemma user_edit_step: "sound_board uuid db \<Longrightarrow> amends {ActUser} (user_edits U db i) db db' \<Longrightarrow>
    sound_board uuid db' \<and> party_refines User db db'"
  by (rule amend_step [where who = User and R = "user_edits U db i" and U = U and i = i])
    (simp_all add: user_edits_def)

lemma pm_step: "sound_board uuid db \<Longrightarrow> amends {ActPm} pm_keeps db db' \<Longrightarrow>
    sound_board uuid db' \<and> party_refines Agent db db'"
  by (rule amend_step [where who = Agent and R = pm_keeps]) (simp_all add: pm_keeps_def dep_checked_def)

lemma drainer_step: "sound_board uuid db \<Longrightarrow> amends {ActDrainer} drainer_may db db' \<Longrightarrow>
    sound_board uuid db' \<and> party_refines Drainer db db'"
  by (rule amend_step [where who = Drainer and R = drainer_may])
    (simp_all add: dep_checked_def drainer_may_def keeps_text_def)

lemma sweep_step: "sound_board uuid db \<Longrightarrow> amends {ActSweep, ActDrainer} sweep_may db db' \<Longrightarrow>
    sound_board uuid db' \<and> party_refines Sweep db db'"
  by (rule amend_step [where who = Sweep and R = sweep_may])
    (simp_all add: dep_checked_def sweep_may_def keeps_text_def)

lemma table_step:
  assumes "sound_board uuid db" and "bd_items db' = bd_items db" and "bd_events db' = bd_events db"
    and "bd_drawn db \<le> bd_drawn db'"
    and "\<And>p. bd_settings db' (p, seq_key) = bd_settings db (p, seq_key)"
    and "\<And>p. bd_settings db' (p, prefix_key) = bd_settings db (p, prefix_key)"
    and "distinct (map pr_item_id (bd_proposals db'))"
    and "\<And>p. who \<noteq> User \<Longrightarrow> hold_get db p \<noteq> None \<Longrightarrow> hold_get db' p \<noteq> None"
  shows "sound_board uuid db' \<and> party_refines who db db'"
  using sound_same [OF assms(1,2,4-7)] same_refines [OF assms(2,3,8)] by blast

lemma sound_one_ask: "sound_board uuid db \<Longrightarrow> distinct (map pr_item_id (bd_proposals db))"
  by (simp add: sound_board_def sound_rows_def)

lemma sound_distinct: "sound_board uuid db \<Longrightarrow> distinct (map it_id (bd_items db))"
  by (simp add: sound_board_def sound_ids_def)

lemma hold_get_None: "hold_get db q = None \<longleftrightarrow> q \<notin> set (map ph_project_id (bd_holds db))"
  by (auto simp: hold_get_def find_None_iff)

lemma hold_project_holds:
  "hold_project E p reason by db = (h, db') \<Longrightarrow>
     set (map ph_project_id (bd_holds db')) = insert p (set (map ph_project_id (bd_holds db)))"
proof (cases "hold_get db p")
  case None
  assume "hold_project E p reason by db = (h, db')"
  with None show ?thesis by (auto simp: hold_project_def Let_def)
next
  case (Some g)
  assume hold: "hold_project E p reason by db = (h, db')"
  have "p \<in> set (map ph_project_id (bd_holds db))" using Some hold_get_None [of db p] by auto
  moreover have "map ph_project_id (bd_holds db') = map ph_project_id (bd_holds db)"
    using hold Some by (auto simp: hold_project_def Let_def)
  ultimately show ?thesis by (simp add: insert_absorb)
qed

lemma hold_project_step:
  assumes "sound_board uuid db" and "hold_project E p reason by db = (h, db')"
  shows "sound_board uuid db' \<and> party_refines who db db'"
proof (rule table_step [OF assms(1)])
  fix q assume "hold_get db q \<noteq> None"
  then show "hold_get db' q \<noteq> None"
    using hold_project_holds [OF assms(2)] unfolding hold_get_None by blast
qed (use assms sound_one_ask in \<open>auto simp: hold_project_def Let_def split: if_splits\<close>)

lemma create_step:
  assumes "sound_board uuid db" "inj uuid" "en_uuid E = uuid" "room db p 1" "create_checked E p new db = Inr (x, db')"
  shows "sound_board uuid db' \<and> party_refines User db db'"
proof -
  obtain row e where "create_checked E p new db = Inr ((row, e), db')" using assms(5) by (cases x) simp
  from create_checked_sound [OF assms(1-4) this]
  have one: "sound_board uuid db'" "adds (signs User) db db' [row]" by simp_all
  have "amends (signs User) user_keeps db' db'" by (rule user.amends_refl)
  from adds_refines [OF one(2) this] one(1) show ?thesis by (simp add: user_keeps_def)
qed

lemma only_proposes_refines: "only_proposes db db' \<Longrightarrow> party_refines Agent db db'"
  unfolding only_proposes_def using adds_refines [of Agent db _ _ pm_may db'] by fastforce

lemma ask_step:
  assumes "sound_board uuid db" and "db' = proposal_upsert E p i k q n db"
  shows "sound_board uuid db' \<and> party_refines Agent db db'"
  by (rule table_step [OF assms(1)])
    (use sound_one_ask [OF assms(1)] in \<open>simp_all add: assms(2) upsert_rest upsert_one_ask hold_get_def\<close>)

lemma board_step_ok:
  assumes "board_step uuid True who db db'" and "inj uuid" and "sound_board uuid db"
  shows "sound_board uuid db' \<and> party_refines who db db'"
  using assms
proof (induction rule: board_step.induct)
  case (create E db p new x db')
  then have "create_checked E p new db = Inr (x, db')" by (simp add: create_item_impl_def split: if_splits)
  from create_step [OF create.prems(2,1) create.hyps(1,2) this] show ?case .
next
  case (capture E db p body x db')
  then obtain new where "create_checked E p new db = Inr (x, db')" by (auto simp: capture_impl_def split: sum.splits)
  from create_step [OF capture.prems(2,1) capture.hyps(1,2) this] show ?case .
next
  case (edit E i pt expect queue db x db')
  then show ?case using user_edit_step update_and_record_user sound_distinct by blast
next
  case (rank E i rank db x db')
  then show ?case using user_step set_rank_user by blast
next
  case (assign E i op db x db')
  then show ?case using user_step assign_user by blast
next
  case (feedback E i n db x db')
  then obtain j q d e where "record_event E j q ActUser EkNote d db = (e, db')"
    by (auto simp: note_review_feedback_impl_def split: option.splits if_splits)
  then have "amends {ActUser} user_keeps db db'" by (rule user.amends_record) simp
  then show ?case by (rule user_step [OF feedback.prems(2)])
next
  case (hold E i reason db x db')
  then obtain w where "hold_with_event E i w ActUser db = Inr (x, db')"
    by (auto simp: hold_item_impl_def split: sum.splits)
  from user_step [OF hold.prems(2) hold_user [OF this]] show ?case .
next
  case (release E i db x db')
  then show ?case using user_step release_user by blast
next
  case (hold_board E p reason db x db')
  then obtain h w where "hold_project E p w ActUser db = (h, db')"
    by (auto simp: hold_project_impl_def split: sum.splits)
  from hold_project_step [OF hold_board.prems(2) this] show ?case .
next
  case (release_board p db x db')
  then show ?case
    by (intro table_step) (auto simp: release_project_def sound_one_ask)
next
  case (reject E i reason db x db')
  then show ?case using user_step reject_item_user sound_distinct by blast
next
  case (reopen E i db x db')
  then show ?case using user_step reopen_item_user by blast
next
  case (delete i only db x db')
  then consider "db' = db" | y where "store_delete i db = (y, db')"
    by (auto simp: delete_item_def Let_def split: option.splits if_splits prod.splits)
  then show ?case
  proof cases
    case 1
    with delete show ?thesis using user_step user.amends_refl by blast
  next
    case 2
    with delete show ?thesis using sound_delete delete_refines by blast
  qed
next
  case (accept_ask E pid db x db')
  then show ?case using user_edit_step accept_proposal_user sound_distinct by blast
next
  case (reject_ask E pid db x db')
  then show ?case using user_step reject_proposal_user by blast
next
  case (accept_order E p db x db')
  then show ?case using user_step accept_order_user by blast
next
  case (reject_order db' p db)
  then show ?case by (intro table_step) (auto simp: order_delete_def sound_one_ask)
next
  case (set_setting U p k v db db')
  note keeps = set_project_setting_keeps [OF set_setting.hyps]
  from keeps have tables: "bd_items db' = bd_items db" "bd_events db' = bd_events db" "bd_drawn db' = bd_drawn db"
    "bd_proposals db' = bd_proposals db" "bd_holds db' = bd_holds db"
    by (metis (no_types, lifting) board_db.select_convs board_db.surjective board_db.update_convs(6))+
  from set_setting show ?case
    using keeps host_keys by (intro table_step) (simp_all add: tables sound_one_ask hold_get_def)
next
  case (propose E db p items x db')
  with insert_batch_step [OF propose.prems(2,1) propose.hyps(1,2,4)] show ?case by (simp add: only_proposes_refines)
next
  case (ask_update E p code pt n db x db')
  then show ?case by (auto simp: park_update_def Let_def split: sum.splits intro!: ask_step)
next
  case (ask_discard E p code reason db x db')
  then show ?case by (auto simp: park_discard_def Let_def split: sum.splits if_splits intro!: ask_step)
next
  case (ask_order E p raw n db x db')
  then have "db' = order_upsert E p (clean_list raw) (clean n) db"
    by (auto simp: park_order_def Let_def split: sum.splits)
  with ask_order show ?case by (intro table_step) (auto simp: order_upsert_def Let_def sound_one_ask hold_get_def)
next
  case (observe E p code raw db x db')
  then show ?case using pm_step record_note_pm by blast
next
  case (place_hold E p scope raw db x db')
  show ?case
  proof (cases x)
    case (HeldItem r e)
    with place_hold show ?thesis using pm_step place_hold_pm sound_distinct by blast
  next
    case (HeldProject h)
    then obtain w g where "hold_project E p w ActPm db = (g, db')"
      using place_hold.hyps by (auto simp: place_hold_def Let_def split: sum.splits if_splits option.splits prod.splits)
    from hold_project_step [OF place_hold.prems(2) this] show ?thesis .
  qed
next
  case (triage E db p a x db')
  with triage_op_step [OF triage.prems(2,1) triage.hyps(1,2,4)] show ?case by (simp add: only_proposes_refines)
next
  case (settle db' E db s)
  then show ?case using drainer_step settle_one_drainer by blast
next
  case (claim E C runs p cap db x db')
  then show ?case using drainer_step plan_and_claim_drainer sound_distinct by blast
next
  case (launched db' E pl answer db)
  then show ?case using drainer_step dispatch_plan_drainer by blast
next
  case (deferred E i p d db e db')
  have "amends {ActDrainer} drainer_may db db'" by (rule drain.amends_record [OF deferred.hyps]) simp
  then show ?case by (rule drainer_step [OF deferred.prems(2)])
next
  case (sweep E poll seen db w seen' db')
  then show ?case using sweep_step sweep_one_merges by blast
qed

text \<open>However a batch spells its references, its step is one the contract of the agent allows.\<close>

lemma any_step:
  assumes "board_step uuid canonical who db db'" and "inj uuid" and "sound_board uuid db"
  shows "board_step uuid True who db db' \<or> who = Agent \<and> only_proposes db db'"
  using assms
proof (induction rule: board_step.induct)
  case (propose E db p items x db')
  from insert_batch_step(1) [OF propose.prems(2,1) propose.hyps(1,2,4)] show ?case by simp
next
  case (triage E db p a x db')
  from triage_op_step [OF triage.prems(2,1) triage.hyps(1,2,4)] show ?case by simp
qed (blast intro: board_step.intros)+

section \<open>The properties\<close>

lemma reachable_sound: "reachable uuid db \<Longrightarrow> inj uuid \<Longrightarrow> sound_board uuid db"
  by (induction rule: reachable.induct) (auto simp: sound_start dest: board_step_ok)

text \<open>
  Claim C1. As long as batches spell their references as the board does (\<open>#1\<close>, not \<open>#01\<close>), nothing on
  a board ever waits on itself. In every board that the commands, the agent, the drainer and the sweep
  can then reach, in any order, each project's dependencies are free of loops, an id names one item, a code
  names one item of its project, and an item has one pending ask at most. What a step creates is numbered
  below the maximum of the counter (\<open>room\<close>). The program does not check the spelling: \<open>Roadmap_Gap\<close>
  shows the loop it lets through otherwise.
\<close>

theorem reachable_board_acyclic:
  assumes "reachable uuid db" and "inj uuid"
  shows "acyclic_board (graph_of (store_list db p)) \<and> find_cycle (graph_of (store_list db p)) c = None \<and>
    distinct (map it_id (bd_items db)) \<and> distinct (map (\<lambda>r. (it_project_id r, it_code r)) (bd_items db)) \<and>
    distinct (map pr_item_id (bd_proposals db))"
proof -
  note parts = reachable_sound [OF assms, unfolded sound_board_def]
  then have "acyclic_board (graph_of (store_list db p))" by (simp add: sound_deps_def)
  moreover from this have "find_cycle (graph_of (store_list db p)) c = None"
    by (simp add: find_cycle_None acyclic_board_def)
  ultimately show ?thesis using parts by (simp add: sound_ids_def sound_codes_def sound_rows_def)
qed

text \<open>
  Claim C27. Every row of a reachable board is well formed: its id was drawn, its code and every code it
  waits on carry a number the project's counter has passed, so that no code is ever given twice, and
  the reason, the author and the time of its hold are all there or all absent.
\<close>

theorem reachable_rows_typed:
  assumes "reachable uuid db" and "inj uuid"
  shows "list_all (\<lambda>r. (\<exists>n < bd_drawn db. it_id r = uuid n) \<and>
      list_all (\<lambda>c. \<exists>n k. code_number c = Some n \<and> counter db (it_project_id r) = Some k \<and> 0 \<le> n \<and> n < k)
        (it_code r # it_deps r) \<and>
      (it_held_by r = None \<longleftrightarrow> it_hold_reason r = None) \<and> (it_held_at r = None \<longleftrightarrow> it_hold_reason r = None))
    (bd_items db)"
  using reachable_sound [OF assms]
  by (auto simp: sound_board_def sound_ids_def sound_codes_def sound_deps_def sound_rows_def below_counter_def
      hold_ok_def list_all_iff)

text \<open>
  Claim C6. Every step from a board reached with canonical references, whatever its own batch spells, refines
  the contract of the party that makes it. A row keeps its id, project, code, date and origin (except that a row whose origin the
  user deletes forgets it), and otherwise changes only as the party may change it; only the user deletes
  rows, of which none is then left as an origin, and lifts the hold of a project; the agent adds proposals only, the drainer and the sweep add
  nothing; what is recorded is signed by the party, and only the user's deletes take history away.
\<close>

theorem step_refines_contract:
  assumes "reachable uuid db" and "inj uuid" and "board_step uuid canonical who db db'"
  shows "party_refines who db db'"
  using any_step [OF assms(3,2) reachable_sound [OF assms(1,2)]]
    board_step_ok [OF _ assms(2) reachable_sound [OF assms(1,2)]] only_proposes_refines by blast

end
