(* ===== verification/Roadmap_Order.thy ===== *)
theory Roadmap_Order
  imports Roadmap_Board
begin

text \<open>
  The order of the queue: what a proposed order must name, and what accepting one does to the board.
\<close>

section \<open>Validation\<close>

lemma by_code_iff:
  assumes "distinct (map it_code items)"
  shows "by_code items c = Some r \<longleftrightarrow> r \<in> set items \<and> it_code r = c"
proof
  assume "by_code items c = Some r"
  then show "r \<in> set items \<and> it_code r = c" by (auto simp: by_code_def dest: find_SomeD)
next
  assume r: "r \<in> set items \<and> it_code r = c"
  then have "\<exists>s. by_code items c = Some s" by (auto simp: by_code_def)
  then obtain s where s: "by_code items c = Some s" by blast
  then have "s \<in> set items" "it_code s = c" by (auto simp: by_code_def dest: find_SomeD)
  with r assms have "s = r" by (auto simp: distinct_map dest: inj_onD)
  with s show "by_code items c = Some r" by simp
qed

lemma order_loop_stuck:
  "order_loop items codes sc = Inr sc' \<Longrightarrow>
     (sc_unknown sc' = [] \<longrightarrow> sc_unknown sc = []) \<and> (sc_closed sc' = [] \<longrightarrow> sc_closed sc = [])"
proof (induction codes arbitrary: sc)
  case (Cons c codes)
  from Cons.prems obtain sc1 where "order_loop items codes sc1 = Inr sc'"
    "sc_unknown sc1 = [] \<longrightarrow> sc_unknown sc = []" "sc_closed sc1 = [] \<longrightarrow> sc_closed sc = []"
    by (auto simp: Let_def split: if_splits option.splits)
  with Cons.IH show ?case by blast
qed simp

lemma order_loop_iff:
  "order_loop items codes sc = Inr sc' \<and> sc_unknown sc' = [] \<and> sc_closed sc' = [] \<longleftrightarrow>
     distinct codes \<and> set codes \<inter> set (sc_seen sc) = {} \<and> sc_unknown sc = [] \<and> sc_closed sc = [] \<and>
     (\<forall>c \<in> set codes. \<exists>r. by_code items c = Some r \<and> is_orderable r) \<and>
     sc' = sc\<lparr>sc_seen := rev codes @ sc_seen sc, sc_ids := sc_ids sc @ map (\<lambda>c. it_id (the (by_code items c))) codes\<rparr>"
proof (induction codes arbitrary: sc)
  case Nil
  show ?case by (cases sc) auto
next
  case (Cons c codes)
  show ?case
  proof (cases "c \<in> set (sc_seen sc)")
    case True
    then show ?thesis by simp
  next
    case new: False
    show ?thesis
    proof (cases "\<exists>r. by_code items c = Some r \<and> is_orderable r")
      case True
      then obtain r where "by_code items c = Some r" "is_orderable r" by blast
      with new Cons.IH [of "sc\<lparr>sc_seen := c # sc_seen sc, sc_ids := sc_ids sc @ [it_id r]\<rparr>"]
      show ?thesis by (auto simp: Let_def)
    next
      case False
      then show ?thesis
        using new order_loop_stuck
        by (auto simp: Let_def split: option.splits if_splits dest!: order_loop_stuck)
    qed
  qed
qed

lemma list_all2_is_map: "list_all2 (\<lambda>c i. i = g c) cs is \<longleftrightarrow> is = map g cs"
  by (induction cs arbitrary: "is") (auto simp: list_all2_Cons1)

lemma set_orderable: "set (orderable items) = {r \<in> set items. is_orderable r}"
  by (auto simp: orderable_def)

lemma validate_order_iff:
  assumes codes: "distinct (map it_code items)"
  shows "validate_order codes items = Inr ids \<longleftrightarrow>
    codes \<noteq> [] \<and> mset codes = mset (map it_code (orderable items)) \<and>
    list_all2 (\<lambda>c i. \<exists>r \<in> set (orderable items). it_code r = c \<and> it_id r = i) codes ids"
proof -
  let ?sc0 = "\<lparr>sc_seen = [], sc_ids = [], sc_unknown = [], sc_closed = []\<rparr>"
  have open_code: "(\<exists>r. by_code items c = Some r \<and> is_orderable r) \<longleftrightarrow> c \<in> it_code ` set (orderable items)" for c
    by (auto simp: by_code_iff [OF codes] set_orderable)
  have "validate_order codes items = Inr ids \<longleftrightarrow>
      codes \<noteq> [] \<and> (\<exists>sc. (order_loop items codes ?sc0 = Inr sc \<and> sc_unknown sc = [] \<and> sc_closed sc = []) \<and>
        (\<forall>r \<in> set (orderable items). it_code r \<in> set (sc_seen sc)) \<and> ids = sc_ids sc)"
    by (auto simp: validate_order_def Let_def filter_empty_conv split: sum.split)
  also have "\<dots> \<longleftrightarrow> codes \<noteq> [] \<and> distinct codes \<and> set codes = it_code ` set (orderable items) \<and>
      ids = map (\<lambda>c. it_id (the (by_code items c))) codes"
    unfolding order_loop_iff open_code by auto
  also have "\<dots> \<longleftrightarrow> codes \<noteq> [] \<and> mset codes = mset (map it_code (orderable items)) \<and>
      ids = map (\<lambda>c. it_id (the (by_code items c))) codes"
  proof -
    have "distinct (map it_code (orderable items))" using codes by (simp add: orderable_def distinct_map_filter)
    then have "distinct codes \<and> set codes = it_code ` set (orderable items) \<longleftrightarrow>
        mset codes = mset (map it_code (orderable items))"
      by (metis list.set_map mset_eq_setD mset_eq_imp_distinct_iff set_eq_iff_mset_eq_distinct)
    then show ?thesis by blast
  qed
  also have "\<dots> \<longleftrightarrow> codes \<noteq> [] \<and> mset codes = mset (map it_code (orderable items)) \<and>
      list_all2 (\<lambda>c i. \<exists>r \<in> set (orderable items). it_code r = c \<and> it_id r = i) codes ids"
  proof (intro conj_cong refl)
    assume "mset codes = mset (map it_code (orderable items))"
    then have set_codes: "set codes = it_code ` set (orderable items)" by (metis list.set_map mset_eq_setD)
    have same: "(\<exists>r \<in> set (orderable items). it_code r = c \<and> it_id r = i) \<longleftrightarrow> i = it_id (the (by_code items c))"
      if "c \<in> it_code ` set (orderable items)" for c i
    proof -
      from that obtain r where r: "r \<in> set (orderable items)" "it_code r = c" by blast
      then have "by_code items c = Some r" by (simp add: by_code_iff [OF codes] set_orderable)
      moreover have "s = r" if "s \<in> set (orderable items)" "it_code s = c" for s
      proof -
        have "by_code items c = Some s" using that by (simp add: by_code_iff [OF codes] set_orderable)
        with \<open>by_code items c = Some r\<close> show ?thesis by simp
      qed
      ultimately show ?thesis using r by (metis option.sel)
    qed
    have "list_all2 (\<lambda>c i. \<exists>r \<in> set (orderable items). it_code r = c \<and> it_id r = i) codes ids \<longleftrightarrow>
        list_all2 (\<lambda>c i. i = it_id (the (by_code items c))) codes ids"
      by (rule list.rel_cong [OF refl refl]) (simp only: same set_codes)
    then show "ids = map (\<lambda>c. it_id (the (by_code items c))) codes \<longleftrightarrow>
        list_all2 (\<lambda>c i. \<exists>r \<in> set (orderable items). it_code r = c \<and> it_id r = i) codes ids"
      by (simp add: list_all2_is_map)
  qed
  finally show ?thesis .
qed

text \<open>
  Claim C28. An order is accepted exactly when it lists the code of every item that can be ordered, proposed,
  open or queued, once and no other; the ids that come back are those items', in that order.
\<close>

theorem validate_order_correct:
  "distinct (map it_code items) \<Longrightarrow>
   validate_order codes items = Inr ids \<longleftrightarrow>
     codes \<noteq> [] \<and> mset codes = mset (map it_code (orderable items)) \<and>
     list_all2 (\<lambda>c i. \<exists>r \<in> set (orderable items). it_code r = c \<and> it_id r = i) codes ids"
  by (rule validate_order_iff)

section \<open>Applying an order\<close>

definition ranked_by :: "env \<Rightarrow> nat \<Rightarrow> string list \<Rightarrow> roadmap_item \<Rightarrow> roadmap_item" where
  "ranked_by E n ids r =
     (case position (it_id r) ids of
        Some k \<Rightarrow> r\<lparr>it_rank := of_nat (n + k + 1), it_updated_at := en_now E\<rparr>
      | None \<Rightarrow> r)"

lemma set_ranks_loop_items:
  "distinct ids \<Longrightarrow> set_ranks_loop E n ids db = (rows, db') \<Longrightarrow> bd_items db' = map (ranked_by E n ids) (bd_items db)"
proof (induction ids arbitrary: n rows db)
  case Nil
  then show ?case by (simp add: ranked_by_def)
next
  case (Cons i ids)
  let ?f = "\<lambda>r. r\<lparr>it_rank := of_nat (n + 1), it_updated_at := en_now E\<rparr>"
  let ?db = "update_rows (\<lambda>r. it_id r = i) ?f db"
  obtain rows1 where "set_ranks_loop E (Suc n) ids ?db = (rows1, db')"
    using Cons.prems(2) by (auto simp: Let_def split: prod.splits option.splits)
  with Cons have "bd_items db' = map (ranked_by E (Suc n) ids) (bd_items ?db)" by simp
  moreover have "ranked_by E (Suc n) ids (if it_id r = i then ?f r else r) = ranked_by E n (i # ids) r" for r
  proof (cases "it_id r = i")
    case True
    with Cons.prems(1) have "position i ids = None" by (simp add: position_None)
    with True show ?thesis by (simp add: ranked_by_def)
  next
    case False
    then show ?thesis by (cases "position (it_id r) ids") (simp_all add: ranked_by_def)
  qed
  ultimately show ?case by (simp only: update_rows_items map_map comp_def)
qed

lemma ranked_by_same [simp]:
  "it_id (ranked_by E n ids r) = it_id r" "it_code (ranked_by E n ids r) = it_code r"
  "it_project_id (ranked_by E n ids r) = it_project_id r" "is_orderable (ranked_by E n ids r) = is_orderable r"
  by (simp_all add: ranked_by_def is_orderable_def split: option.split)

lemma sorted_firsts: "sorted (map (\<lambda>x. (f x, g x)) xs) \<Longrightarrow> sorted (map f xs)"
  unfolding sorted_map by (erule sorted_wrt_mono_rel [rotated]) auto

text \<open>The position of an item in the order is the position of its code.\<close>

lemma order_distinct:
  assumes codes: "distinct (map it_code items)" and ids: "distinct (map it_id items)"
    and valid: "validate_order codes items = Inr is"
  shows "distinct codes" and "distinct is"
proof -
  note v = validate_order_iff [OF codes, THEN iffD1, OF valid]
  then have perm: "mset codes = mset (map it_code (orderable items))" by blast
  have items: "distinct (map it_code (orderable items))" "distinct (map it_id (orderable items))"
    using codes ids by (simp_all add: orderable_def distinct_map_filter)
  show dist: "distinct codes" using items(1) mset_eq_imp_distinct_iff [OF perm] by simp
  have all2: "list_all2 (\<lambda>c i. \<exists>s \<in> set (orderable items). it_code s = c \<and> it_id s = i) codes is" using v by blast
  show "distinct is"
  proof (rule distinct_conv_nth [THEN iffD2], intro allI impI)
    fix i j assume ij: "i < length is" "j < length is" "i \<noteq> j"
    have len: "length codes = length is" using all2 by (rule list_all2_lengthD)
    obtain s where s: "s \<in> set (orderable items)" "it_code s = codes ! i" "it_id s = is ! i"
      using list_all2_nthD2 [OF all2 ij(1)] by blast
    obtain u where u: "u \<in> set (orderable items)" "it_code u = codes ! j" "it_id u = is ! j"
      using list_all2_nthD2 [OF all2 ij(2)] by blast
    have "codes ! i \<noteq> codes ! j" using ij dist len by (simp add: nth_eq_iff_index_eq)
    with s u have "s \<noteq> u" by auto
    with s u items(2) show "is ! i \<noteq> is ! j" by (metis distinct_map inj_onD)
  qed
qed

lemma order_positions:
  assumes codes: "distinct (map it_code items)" and ids: "distinct (map it_id items)"
    and valid: "validate_order codes items = Inr is" and r: "r \<in> set (orderable items)"
  shows "\<exists>k. position (it_id r) is = Some k \<and> position (it_code r) codes = Some k"
proof -
  note v = validate_order_iff [OF codes, THEN iffD1, OF valid]
  then have perm: "mset codes = mset (map it_code (orderable items))" by blast
  from mset_eq_setD [OF this] have "it_code r \<in> set codes" using r by simp
  then obtain k where k: "k < length codes" "codes ! k = it_code r" by (auto simp: in_set_conv_nth)
  have all2: "list_all2 (\<lambda>c i. \<exists>s \<in> set (orderable items). it_code s = c \<and> it_id s = i) codes is" using v by blast
  obtain s where s: "s \<in> set (orderable items)" "it_code s = it_code r" "it_id s = is ! k"
    using list_all2_nthD [OF all2 k(1)] k(2) by auto
  have "distinct (map it_code (orderable items))" using codes by (simp add: orderable_def distinct_map_filter)
  with s(1,2) r have "s = r" by (metis distinct_map inj_onD)
  moreover have "position (is ! k) is = Some k"
    using k(1) list_all2_lengthD [OF all2] order_distinct(2) [OF codes ids valid] by (intro position_nth) simp_all
  moreover have "position (codes ! k) codes = Some k"
    using k(1) order_distinct(1) [OF codes ids valid] by (intro position_nth)
  ultimately show ?thesis using s(3) k(2) by auto
qed

lemma position_order:
  assumes "distinct codes"
  shows "map (\<lambda>c. the (position c codes)) codes = [0..<length codes]"
  by (rule nth_equalityI) (simp_all add: position_nth [OF assms])

text \<open>A list whose members' positions in another ascend, each once, is the other.\<close>

lemma sorted_positions_eq:
  assumes "distinct codes" and "distinct xs" and "set xs = set codes"
    and "sorted (map (\<lambda>c. the (position c codes)) xs)"
  shows "xs = codes"
proof -
  have inj: "inj_on (\<lambda>c. the (position c codes)) (set codes)"
    using position_order [OF assms(1)] assms(1) by (metis distinct_map distinct_upt)
  show ?thesis
    by (rule map_sorted_distinct_set_unique [of "\<lambda>c. the (position c codes)"])
      (use assms inj in \<open>simp_all add: distinct_map position_order\<close>)
qed

text \<open>
  Accepting the agent's order makes it the order of the board: what can be ordered then stands in
  exactly the proposed sequence, and the ask is gone.
\<close>

theorem accept_order_orders:
  assumes "sound_board uuid db" and "accept_order E p db = Inr (Applied rows, db')" and "order_get db p = Some ask"
  shows "map it_code (orderable (store_list db' p)) = op_codes ask \<and> order_get db' p = None"
proof -
  let ?items = "store_list db p" and ?codes = "op_codes ask"
  note parts = assms(1) [unfolded sound_board_def]
  have codes: "distinct (map it_code ?items)" using parts project_codes_distinct by blast
  have ids: "distinct (map it_id ?items)"
    using parts by (simp add: sound_ids_def store_list_def distinct_map inj_on_def)
  obtain "is" db1 where one: "validate_order ?codes ?items = Inr is" "set_ranks E is db = (rows, db1)"
    "db' = order_delete p db1"
    using assms(2,3) by (auto simp: accept_order_def Let_def split: sum.splits prod.splits)
  note v = validate_order_iff [OF codes, THEN iffD1, OF one(1)]
  note pos = order_positions [OF codes ids one(1)]
  let ?rank = "ranked_by E 0 is"
  have dist: "distinct is" "distinct ?codes" using order_distinct [OF codes ids one(1)] by simp_all
  have items: "bd_items db' = map ?rank (bd_items db)"
    using set_ranks_loop_items [OF dist(1)] one(2,3) by (simp add: set_ranks_def order_delete_def)
  let ?new = "orderable (store_list db' p)"
  have new: "set ?new = ?rank ` set (orderable ?items)"
    by (auto simp: set_orderable store_list_set items)
  have "sorted (map (\<lambda>r. (it_rank r, it_created_at r)) ?new)"
    unfolding orderable_def store_list_def by (intro sorted_map_filter) simp
  then have ranks: "sorted (map it_rank ?new)" by (rule sorted_firsts)
  have rank: "it_rank s = of_nat (the (position (it_code s) ?codes) + 1)" if "s \<in> set ?new" for s
  proof -
    from that new obtain r where r: "r \<in> set (orderable ?items)" "s = ?rank r" by blast
    from pos [OF r(1)] r(2) show ?thesis by (auto simp: ranked_by_def)
  qed
  have "sorted (map (\<lambda>s. the (position (it_code s) ?codes)) ?new)"
    using ranks unfolding sorted_map by (rule sorted_wrt_mono_rel [rotated]) (simp add: rank)
  then have ascending: "sorted (map (\<lambda>c. the (position c ?codes)) (map it_code ?new))" by (simp add: comp_def)
  have perm: "mset ?codes = mset (map it_code (orderable ?items))" using v by blast
  have "set (map it_code ?new) = set ?codes"
    using mset_eq_setD [OF perm] by (simp add: new image_image)
  moreover have "distinct (map it_code ?new)"
  proof -
    have "distinct (map (\<lambda>r. (it_project_id r, it_code r)) (bd_items db'))"
      using parts by (simp add: items comp_def sound_codes_def)
    then have "inj_on it_code (set ?new)" "distinct (bd_items db')"
      by (auto simp: distinct_map set_orderable store_list_set inj_on_def)
    then show ?thesis by (simp add: distinct_map orderable_def store_list_def)
  qed
  ultimately have "map it_code ?new = ?codes" by (intro sorted_positions_eq [OF dist(2)] ascending)
  moreover have "order_get db' p = None" by (auto simp: one(3) order_delete_def order_get_def find_None_iff)
  ultimately show ?thesis by simp
qed

end
