(* ===== verification/Examples_Roadmap.thy ===== *)
theory Examples_Roadmap
  imports Roadmap_Run Roadmap_Order
begin

text \<open>
  A board of two queued items, the second waiting on the first, built by the user's own commands, and
  the roadmap's properties applied to it: the claim of the first item, the agent's order, and a batch
  of tickets that name each other.
\<close>

section \<open>The dependency rules\<close>

definition ex_graph :: dep_graph where
  "ex_graph = [(''A-1'', [''A-2'']), (''A-2'', [])]"

definition ex_loop :: dep_graph where
  "ex_loop = [(''A-1'', [''A-2'']), (''A-2'', [''A-1''])]"

theorem find_cycle_correct_witness:
  "is_loop ex_loop [''A-1'', ''A-2'', ''A-1'']"
proof -
  have "find_cycle ex_loop ''A-1'' = Some [''A-1'', ''A-2'', ''A-1'']" by code_simp
  with find_cycle_correct [of ex_loop "''A-1''"] show ?thesis by blast
qed

lemma ex_graph_acyclic: "acyclic_board ex_graph"
proof -
  have rank: "dep_edge ex_graph a b \<Longrightarrow> a = ''A-1'' \<and> b = ''A-2''" for a b
    by (auto simp: dep_edge_def ex_graph_def split: if_splits)
  have "(dep_edge ex_graph)\<^sup>+\<^sup>+ a b \<Longrightarrow> a = ''A-1'' \<and> b = ''A-2''" for a b
    by (induction rule: tranclp_induct) (use rank in blast)+
  then show ?thesis by (fastforce simp: acyclic_board_def waits_on_itself_def)
qed

theorem validate_edit_keeps_acyclic_witness:
  "acyclic_board (btree_insert ''A-1'' [] ex_graph) \<and>
   \<not> acyclic_board (btree_insert ''A-2'' [''A-1''] ex_graph)"
proof
  have "validate_edit ascii_tables ex_graph {} ''A-1'' [] = Inr ()" by code_simp
  with validate_edit_keeps_acyclic [of ascii_tables ex_graph "{}" "''A-1''" "[]"] ex_graph_acyclic
  show "acyclic_board (btree_insert ''A-1'' [] ex_graph)" by blast
  have "find_cycle (btree_insert ''A-2'' [''A-1''] ex_graph) ''A-2'' \<noteq> None" by code_simp
  then show "\<not> acyclic_board (btree_insert ''A-2'' [''A-1''] ex_graph)"
    by (auto simp: find_cycle_None acyclic_board_def)
qed

lemma ex_index: "batch_index ''#2'' (Suc (Suc 0)) = Some (Suc 0)" "batch_index ''A-1'' (Suc (Suc 0)) = None"
proof -
  have "trim ''2'' = ''2''" by code_simp
  then show "batch_index ''#2'' (Suc (Suc 0)) = Some (Suc 0)" "batch_index ''A-1'' (Suc (Suc 0)) = None"
    by (simp_all add: batch_index_def strip_prefix_def batch_prefix_def parse_usize_def
        is_ascii_digit_def byte_of_def usize_max_def)
qed

lemma ex_refs: "canonical_refs [[''#2'', ''A-1''], []]"
proof -
  have "placeholder 1 = ''#2''" by code_simp
  then show ?thesis by (simp add: canonical_refs_def ex_index numeral_2_eq_2)
qed

theorem propose_keeps_acyclic_witness:
  "acyclic_board (board_after ex_graph [[''#2'', ''A-1''], []] [''A-3'', ''A-4''])"
proof -
  have names: "placeholder 0 = ''#1''" "placeholder (Suc 0) = ''#2''" by code_simp+
  have "find_cycle [(''#1'', [''#2'', ''A-1'']), (''#2'', []), (''A-1'', [''A-2'']), (''A-2'', [])] r = None"
    if "r \<in> {''#1'', ''#2''}" for r
    using that by (auto simp: find_cycle_def walk.simps)
  then have "validate_batch ascii_tables ex_graph {} [[''#2'', ''A-1''], []] = Inr ()"
    using ex_index by (simp add: validate_batch_def batch_prefix_def names upt_rec ex_graph_def)
  moreover have "fresh_codes ex_graph [''A-3'', ''A-4'']"
    by (auto simp: fresh_codes_def ex_graph_def dep_edge_def batch_prefix_def)
  ultimately show ?thesis
    using propose_keeps_acyclic [of ex_graph ascii_tables "{}" "[[''#2'', ''A-1''], []]" "[''A-3'', ''A-4'']"]
      ex_graph_acyclic ex_refs by simp
qed

section \<open>A board\<close>

definition ex_env :: env where
  "ex_env = \<lparr>en_now = 7, en_uuid = show_nat, en_unicode = ascii_tables, en_project = (\<lambda>_. Some ''fletch app''),
             en_workspace = (\<lambda>_. None)\<rparr>"

definition ex_empty :: board_db where
  "ex_empty = \<lparr>bd_items = [], bd_events = [], bd_holds = [], bd_proposals = [], bd_orders = [],
               bd_settings = [(''p'', ''workflow.default'') \<mapsto> ''wf''], bd_drawn = 0\<rparr>"

definition ex_item :: "string list \<Rightarrow> new_item" where
  "ex_item deps = new_item_default\<lparr>ni_title := ''work'', ni_status := Some Queued, ni_deps := deps\<rparr>"

definition ex_one :: board_db where
  "ex_one = snd (projr (create_item_impl ex_env ''p'' (ex_item []) ex_empty))"

definition ex_two :: board_db where
  "ex_two = snd (projr (create_item_impl ex_env ''p'' (ex_item [''FA-100'']) ex_one))"

lemma Inr_split: "\<not> isl x \<Longrightarrow> \<exists>a. x = Inr (a, snd (projr x))"
  by (cases x) auto

lemma ex_uuid: "inj show_nat" "en_uuid ex_env = show_nat"
  by (auto intro: injI simp: ex_env_def)

lemma ex_created:
  "\<not> isl (create_item_impl ex_env ''p'' (ex_item []) ex_empty)" "room ex_empty ''p'' 1"
  "\<not> isl (create_item_impl ex_env ''p'' (ex_item [''FA-100'']) ex_one)" "room ex_one ''p'' 1"
  by code_simp+

lemma ex_reach_one: "reachable show_nat ex_one"
proof -
  have "reachable show_nat ex_empty"
    by (rule reachable.start) (simp_all add: ex_empty_def sound_prefixes_def prefix_key_def)
  moreover obtain x where "create_item_impl ex_env ''p'' (ex_item []) ex_empty = Inr (x, ex_one)"
    using Inr_split [OF ex_created(1)] by (auto simp: ex_one_def)
  ultimately show ?thesis by (blast intro: reachable.later board_step.create ex_uuid ex_created)
qed

lemma ex_step_two: "board_step show_nat True User ex_one ex_two"
proof -
  obtain x where "create_item_impl ex_env ''p'' (ex_item [''FA-100'']) ex_one = Inr (x, ex_two)"
    using Inr_split [OF ex_created(3)] by (auto simp: ex_two_def)
  then show ?thesis by (blast intro: board_step.create ex_uuid ex_created)
qed

lemma ex_reach_two: "reachable show_nat ex_two"
  using ex_reach_one ex_step_two by (rule reachable.later)

lemma ex_sound: "sound_board show_nat ex_two"
  by (rule reachable_sound [OF ex_reach_two ex_uuid(1)])

theorem reachable_board_acyclic_witness:
  "find_cycle (graph_of (store_list ex_two ''p'')) ''FA-101'' = None \<and>
   map it_deps (bd_items ex_two) = [[], [''FA-100'']]"
proof
  show "find_cycle (graph_of (store_list ex_two ''p'')) ''FA-101'' = None"
    using reachable_board_acyclic [OF ex_reach_two ex_uuid(1)] by blast
qed code_simp

theorem reachable_rows_typed_witness:
  "list_all (\<lambda>r. it_held_by r = None \<longleftrightarrow> it_hold_reason r = None) (bd_items ex_two) \<and> length (bd_items ex_two) = 2"
proof
  show "list_all (\<lambda>r. it_held_by r = None \<longleftrightarrow> it_hold_reason r = None) (bd_items ex_two)"
    using reachable_rows_typed [OF ex_reach_two ex_uuid(1)] by (rule list.pred_mono_strong) blast
qed code_simp

theorem step_refines_contract_witness: "party_refines User ex_one ex_two"
  by (rule step_refines_contract [OF ex_reach_one ex_uuid(1) ex_step_two])

section \<open>The drainer\<close>

definition ex_catalog :: catalog where
  "ex_catalog = \<lparr>cat_spec = (\<lambda>_. True), cat_name = (\<lambda>_. None), cat_repo = (\<lambda>_. Some ''/repo'')\<rparr>"

definition ex_claim :: "claim \<times> board_db" where
  "ex_claim = plan_and_claim ex_env ex_catalog [] ''p'' 1 ex_two"

definition ex_row :: "nat \<Rightarrow> nat \<Rightarrow> string \<Rightarrow> string list \<Rightarrow> roadmap_item" where
  "ex_row i rank code deps = new_row ex_env ''p'' (ex_item deps) (show_nat i) code (of_nat rank)"

definition ex_rows :: "roadmap_item list" where
  "ex_rows = [ex_row 0 1 ''FA-100'' [], ex_row 2 2 ''FA-101'' [''FA-100'']]"

lemma ex_list: "store_list ex_two ''p'' = ex_rows"
  by code_simp

lemma ex_rest: "hold_get ex_two ''p'' = None" "project_setting ex_two ''p'' ''workflow.default'' = Some ''wf''"
  by code_simp+

lemma ex_queue:
  "dispatchable ex_rows = ex_rows" "done_codes ex_rows = {}" "map it_code ex_rows = [''FA-100'', ''FA-101'']"
  "\<forall>r \<in> set ex_rows. it_workflow_def_id r = None" "ex_rows \<noteq> []"
  by (simp_all add: ex_rows_def ex_row_def new_row_def ex_item_def new_item_default_def dispatchable_def
      done_codes_def is_held_def)

theorem queue_moves_witness:
  "\<exists>pl e db'. plan_and_claim ex_env ex_catalog [] ''p'' 1 ex_two = (Claimed pl e, db')"
proof (rule queue_moves [OF ex_sound], unfold ex_list)
  show "\<forall>r \<in> set (dispatchable ex_rows).
      \<forall>d \<in> set (unsatisfied_deps (it_deps r) (done_codes ex_rows) (set (map it_code ex_rows))).
        d \<in> it_code ` set (dispatchable ex_rows)"
    by (auto simp: unsatisfied_deps_def ex_queue(1))
  show "\<forall>r \<in> set (dispatchable ex_rows). \<exists>prep. resolve_for_dispatch ex_catalog ex_two ''p'' r ex_rows = Inr prep"
    using ex_queue(4)
    by (auto simp: resolve_for_dispatch_def resolve_workflow_def ex_catalog_def ex_rest ex_queue(1) split: option.splits)
qed (simp_all add: ex_queue ex_rest live_run_count_def)

lemma ex_claimed:
  "(case ex_claim of (Claimed pl e, db) \<Rightarrow> it_code (pl_item pl) | _ \<Rightarrow> []) = ''FA-100''"
  by code_simp

theorem claim_is_ready_witness:
  "\<exists>pl :: plan. it_code (pl_item pl) = ''FA-100'' \<and> it_status (pl_item pl) = Active \<and> hold_get ex_two ''p'' = None"
proof -
  from ex_claimed obtain pl e db where "ex_claim = (Claimed pl e, db)" "it_code (pl_item pl) = ''FA-100''"
    by (auto split: prod.splits claim.splits)
  with claim_is_ready [OF ex_sound, of ex_env ex_catalog "[]" "''p''" 1 pl e db] show ?thesis
    unfolding ex_claim_def by blast
qed

section \<open>The order\<close>

definition ex_asked :: board_db where
  "ex_asked = snd (projr (park_order ex_env ''p'' [''FA-101'', ''FA-100''] None ex_two))"

lemma ex_park: "\<not> isl (park_order ex_env ''p'' [''FA-101'', ''FA-100''] None ex_two)"
  by code_simp

lemma ex_asked_sound: "sound_board show_nat ex_asked"
proof -
  obtain x where "park_order ex_env ''p'' [''FA-101'', ''FA-100''] None ex_two = Inr (x, ex_asked)"
    using Inr_split [OF ex_park] by (auto simp: ex_asked_def)
  then have "board_step show_nat True Agent ex_two ex_asked" by (rule board_step.ask_order)
  with reachable.later [OF ex_reach_two] show ?thesis using reachable_sound ex_uuid(1) by blast
qed

lemma ex_ask: "map_option op_codes (order_get ex_asked ''p'') = Some [''FA-101'', ''FA-100'']"
  by code_simp

lemma ex_accepted:
  "(case accept_order ex_env ''p'' ex_asked of Inr (Applied rows, db) \<Rightarrow> True | _ \<Rightarrow> False)"
  by code_simp

theorem accept_order_orders_witness:
  "\<exists>db. map it_code (orderable (store_list db ''p'')) = [''FA-101'', ''FA-100'']"
proof -
  from ex_accepted obtain rows db where "accept_order ex_env ''p'' ex_asked = Inr (Applied rows, db)"
    by (auto split: sum.splits prod.splits order_ruling.splits)
  moreover from ex_ask obtain ask where "order_get ex_asked ''p'' = Some ask" "op_codes ask = [''FA-101'', ''FA-100'']"
    by auto
  ultimately show ?thesis using accept_order_orders [OF ex_asked_sound] by metis
qed

theorem validate_order_correct_witness:
  "\<exists>ids. validate_order [''FA-101'', ''FA-100''] ex_rows = Inr ids \<and>
     mset [''FA-101'', ''FA-100''] = mset (map it_code (orderable ex_rows))"
proof -
  have "\<not> isl (validate_order [''FA-101'', ''FA-100''] ex_rows)" by code_simp
  then obtain ids where "validate_order [''FA-101'', ''FA-100''] ex_rows = Inr ids" by (metis sum.collapse(2))
  moreover have "distinct (map it_code ex_rows)" by (simp add: ex_queue)
  ultimately show ?thesis using validate_order_correct by blast
qed

end
