(* ===== verification/Roadmap_Gap.thy ===== *)
theory Roadmap_Gap
  imports Roadmap_Deps
begin

text \<open>
  A gap in the batch check of \<open>roadmap/deps.rs\<close>: references that \<open>batch_index\<close> accepts without being
  the name under which the merged graph knows the row.
\<close>

text \<open>Two references the parser accepts although no message teaches them.\<close>

lemma stray_refs: "batch_index ''# 2'' (Suc (Suc 0)) = Some (Suc 0)" "batch_index ''#01'' (Suc (Suc 0)) = Some 0"
proof -
  have "trim '' 2'' = ''2''" "trim ''01'' = ''01''" by code_simp+
  then show "batch_index ''# 2'' (Suc (Suc 0)) = Some (Suc 0)" "batch_index ''#01'' (Suc (Suc 0)) = Some 0"
    by (simp_all add: batch_index_def strip_prefix_def batch_prefix_def parse_usize_def
        is_ascii_digit_def byte_of_def usize_max_def)
qed

text \<open>
  Claim C26. A batch whose references are not spelled canonically can slip a loop through:
  \<open>batch_index\<close> trims and parses, so \<open># 2\<close> and \<open>#01\<close> are accepted and later rewritten to the codes
  of the second and the first row, but the merged graph that is searched for loops knows the rows
  only as \<open>#1\<close> and \<open>#2\<close>. Two rows that wait on each other are written to an empty board.
\<close>

theorem batch_loop_accepted:
  "validate_batch U [] {} [[''# 2''], [''#01'']] = Inr () \<and>
   clean_list [''# 2'', ''#01''] = [''# 2'', ''#01''] \<and>
   find_cycle (board_after [] [[''# 2''], [''#01'']] [''PRJ-100'', ''PRJ-101'']) ''PRJ-100'' =
     Some [''PRJ-100'', ''PRJ-101'', ''PRJ-100'']"
proof -
  have names: "placeholder 0 = ''#1''" "placeholder (Suc 0) = ''#2''" by code_simp+
  have "find_cycle [(''#1'', [''# 2'']), (''#2'', [''#01''])] r = None" if "r \<in> {''#1'', ''#2''}" for r
    using that by (auto simp: find_cycle_def walk.simps)
  then have "validate_batch U [] {} [[''# 2''], [''#01'']] = Inr ()"
    using stray_refs by (simp add: validate_batch_def batch_prefix_def names upt_rec)
  moreover have "clean_list [''# 2'', ''#01''] = [''# 2'', ''#01'']" by code_simp
  moreover have "board_after [] [[''# 2''], [''#01'']] [''PRJ-100'', ''PRJ-101''] =
      [(''PRJ-100'', [''PRJ-101'']), (''PRJ-101'', [''PRJ-100''])]"
    using stray_refs
    by (simp add: board_after_def stored_deps_resolved resolve_batch_deps_def)
  moreover have "find_cycle [(''PRJ-100'', [''PRJ-101'']), (''PRJ-101'', [''PRJ-100''])] ''PRJ-100'' =
     Some [''PRJ-100'', ''PRJ-101'', ''PRJ-100'']" by (simp add: find_cycle_def walk.simps)
  ultimately show ?thesis by simp
qed

end
