(* ===== verification/Egress_Policy.thy ===== *)
theory Egress_Policy
  imports Rust_Str "HOL-Library.Word"
begin

text \<open>
  Who a box may reach (\<open>fletch-box/src/egress/policy.rs\<close>): host names and the patterns over them, the
  template every box starts from, the hosts whose refusal is noise, and the check of a host and a
  port against a policy. A host is the list of its bytes; a port is a 16-bit word.
\<close>

section \<open>Numbers off the wire\<close>

type_synonym port = "16 word"

text \<open>\<open>str::parse\<close> at an unsigned width: an optional \<open>+\<close>, then at least one digit, at most the largest number of the width.\<close>

definition parse_uint :: "nat \<Rightarrow> string \<Rightarrow> nat option" where
  "parse_uint mx s =
     (let ds = (case s of c # cs \<Rightarrow> if c = CHR ''+'' then cs else s | [] \<Rightarrow> s)
      in if ds \<noteq> [] \<and> list_all is_ascii_digit ds \<and> digits_value 0 ds \<le> mx
         then Some (digits_value 0 ds) else None)"

lemma parse_uint_usize: "parse_usize = parse_uint usize_max"
  by (simp add: fun_eq_iff parse_usize_def parse_uint_def)

lemma parse_uint_le: "parse_uint mx s = Some n \<Longrightarrow> n \<le> mx"
  by (auto simp: parse_uint_def Let_def split: if_splits)

lemma parse_uint_show_nat: "n \<le> mx \<Longrightarrow> parse_uint mx (show_nat n) = Some n"
  using show_nat_digits [of n] hd_show_nat [of n] digits_value_show_nat [of n]
  by (cases "show_nat n") (simp_all add: parse_uint_def)

definition parse_u16 :: "string \<Rightarrow> port option" where
  "parse_u16 s = map_option of_nat (parse_uint (2 ^ 16 - 1) s)"

section \<open>Host names\<close>

definition is_dot :: "string \<Rightarrow> bool" where "is_dot c \<longleftrightarrow> c = ''.''"

definition labels :: "string \<Rightarrow> string list" where "labels host = split_by is_dot host"

definition label_byte :: "char \<Rightarrow> bool" where
  "label_byte b \<longleftrightarrow> is_ascii_alphanumeric b \<or> b = CHR ''-'' \<or> b = CHR ''_''"

definition label_ok :: "string \<Rightarrow> bool" where
  "label_ok label \<longleftrightarrow> label \<noteq> [] \<and> list_all label_byte label"

definition max_host :: nat where "max_host = 253"

definition normalize_host :: "string \<Rightarrow> string option" where
  "normalize_host s =
     (let host = to_ascii_lowercase (trim_end_matches is_dot (trim s))
      in if host \<noteq> [] \<and> length host \<le> max_host \<and> list_all label_ok (labels host) then Some host else None)"

section \<open>Patterns\<close>

text \<open>A suffix is stored with its leading dot.\<close>

datatype host_pattern = Exact string | Suffix string

definition star_dot :: string where "star_dot = ''*.''"

definition parse_pattern :: "string \<Rightarrow> string + host_pattern" where
  "parse_pattern pattern =
     (case strip_prefix star_dot pattern of
        Some domain \<Rightarrow>
          (case normalize_host domain of Some d \<Rightarrow> Inr (Suffix (CHR ''.'' # d)) | None \<Rightarrow> Inl pattern)
      | None \<Rightarrow> (case normalize_host pattern of Some h \<Rightarrow> Inr (Exact h) | None \<Rightarrow> Inl pattern))"

definition pattern_error :: "unicode \<Rightarrow> string \<Rightarrow> string" where
  "pattern_error U p = ''invalid host pattern '' @ debug_fmt U p @ '': use a host name or *.domain''"

fun show_pattern :: "host_pattern \<Rightarrow> string" where
  "show_pattern (Exact name) = name"
| "show_pattern (Suffix suf) = CHR ''*'' # suf"

fun matches :: "host_pattern \<Rightarrow> string \<Rightarrow> bool" where
  "matches (Exact name) host \<longleftrightarrow> host = name"
| "matches (Suffix suf) host \<longleftrightarrow> suffix suf host"

section \<open>The template and the quiet hosts\<close>

datatype category = Providers | Registries | Toolchains | SourceHosting | OsPackages

fun category_str :: "category \<Rightarrow> string" where
  "category_str Providers = ''providers''"
| "category_str Registries = ''registries''"
| "category_str Toolchains = ''toolchains''"
| "category_str SourceHosting = ''source_hosting''"
| "category_str OsPackages = ''os_packages''"

definition template :: "(string \<times> category) list" where
  "template =
     [
      (''api.anthropic.com'', Providers), (''platform.claude.com'', Providers),
      (''*.anthropic.com'', Providers), (''*.claude.ai'', Providers), (''api.openai.com'', Providers),
      (''chatgpt.com'', Providers), (''auth.openai.com'', Providers), (''api2.cursor.sh'', Providers),
      (''*.cursor.sh'', Providers), (''api.cursor.com'', Providers), (''opencode.ai'', Providers),
      (''*.opencode.ai'', Providers), (''generativelanguage.googleapis.com'', Providers),
      (''openrouter.ai'', Providers), (''api.groq.com'', Providers), (''api.x.ai'', Providers),
      (''api.deepseek.com'', Providers), (''api.mistral.ai'', Providers),
      (''api.githubcopilot.com'', Providers), (''models.dev'', Providers),
      (''registry.npmjs.org'', Registries), (''*.npmjs.org'', Registries),
      (''registry.yarnpkg.com'', Registries), (''repo.yarnpkg.com'', Registries), (''jsr.io'', Registries),
      (''pypi.org'', Registries), (''files.pythonhosted.org'', Registries), (''crates.io'', Registries),
      (''static.crates.io'', Registries), (''index.crates.io'', Registries),
      (''proxy.golang.org'', Registries), (''sum.golang.org'', Registries),
      (''repo.packagist.org'', Registries), (''rubygems.org'', Registries),
      (''index.rubygems.org'', Registries), (''repo1.maven.org'', Registries),
      (''repo.maven.apache.org'', Registries), (''plugins.gradle.org'', Registries),
      (''api.nuget.org'', Registries), (''static.rust-lang.org'', Toolchains), (''sh.rustup.rs'', Toolchains),
      (''cursor.com'', Toolchains), (''downloads.cursor.com'', Toolchains), (''nodejs.org'', Toolchains),
      (''bun.sh'', Toolchains), (''deno.land'', Toolchains), (''dl.deno.land'', Toolchains),
      (''astral.sh'', Toolchains), (''bootstrap.pypa.io'', Toolchains), (''go.dev'', Toolchains),
      (''dl.google.com'', Toolchains), (''services.gradle.org'', Toolchains),
      (''downloads.gradle.org'', Toolchains), (''getcomposer.org'', Toolchains),
      (''cdn.playwright.dev'', Toolchains), (''playwright.download.prss.microsoft.com'', Toolchains),
      (''github.com'', SourceHosting), (''api.github.com'', SourceHosting),
      (''objects.githubusercontent.com'', SourceHosting), (''raw.githubusercontent.com'', SourceHosting),
      (''codeload.github.com'', SourceHosting), (''release-assets.githubusercontent.com'', SourceHosting),
      (''gitlab.com'', SourceHosting), (''bitbucket.org'', SourceHosting), (''deb.debian.org'', OsPackages),
      (''security.debian.org'', OsPackages), (''snapshot.debian.org'', OsPackages)]"

definition default_allow :: "string list" where "default_allow = map fst template"

definition quiet_hosts :: "string list" where
  "quiet_hosts =
     [
      ''*.datadoghq.com'', ''*.datadoghq.eu'', ''sentry.io'', ''*.sentry.io'', ''statsig.com'',
      ''*.statsig.com'', ''featuregates.org'', ''*.featuregates.org'', ''*.featureassets.org'',
      ''*.prodregistryv2.org'', ''api.segment.io'', ''*.posthog.com'', ''*.amplitude.com'',
      ''*.mixpanel.com'', ''api.honeycomb.io'', ''content-autofill.googleapis.com'',
      ''optimizationguide-pa.googleapis.com'', ''safebrowsing.googleapis.com'',
      ''clientservices.googleapis.com'', ''update.googleapis.com'', ''clients2.google.com'', ''*.gvt1.com'']"

definition is_quiet :: "string \<Rightarrow> bool" where
  "is_quiet host \<longleftrightarrow>
     list_ex (\<lambda>p. case parse_pattern p of Inr pattern \<Rightarrow> matches pattern host | Inl _ \<Rightarrow> False) quiet_hosts"

section \<open>Policies\<close>

record egress_policy =
  pol_allow :: "host_pattern list"
  pol_ports :: "port list"

datatype denial = DenyHost | DenyPort

definition default_ports :: "port list" where "default_ports = [80, 443]"

text \<open>\<open>collect\<close> into a \<open>Result\<close>: the first pattern that does not parse is the answer.\<close>

fun parse_patterns :: "string list \<Rightarrow> string + host_pattern list" where
  "parse_patterns [] = Inr []"
| "parse_patterns (p # ps) =
     (case parse_pattern p of
        Inl e \<Rightarrow> Inl e
      | Inr pattern \<Rightarrow> (case parse_patterns ps of Inl e \<Rightarrow> Inl e | Inr rest \<Rightarrow> Inr (pattern # rest)))"

definition policy_new :: "string list \<Rightarrow> string + egress_policy" where
  "policy_new patterns = map_sum id (\<lambda>ps. \<lparr>pol_allow = ps, pol_ports = default_ports\<rparr>) (parse_patterns patterns)"

text \<open>The default's \<open>expect\<close>: \<open>default_allow_parses\<close> shows that it never panics.\<close>

definition policy_default :: egress_policy where
  "policy_default = projr (policy_new default_allow)"

definition policy_with_extra :: "string list \<Rightarrow> string + egress_policy" where
  "policy_with_extra patterns =
     map_sum id (\<lambda>ps. policy_default\<lparr>pol_allow := pol_allow policy_default @ ps\<rparr>) (parse_patterns patterns)"

definition policy_check :: "egress_policy \<Rightarrow> string \<Rightarrow> port \<Rightarrow> denial + unit" where
  "policy_check pol host port =
     (if port \<notin> set (pol_ports pol) then Inl DenyPort
      else if list_ex (\<lambda>p. matches p host) (pol_allow pol) then Inr ()
      else Inl DenyHost)"

section \<open>Labels\<close>

lemma split_chars_some [simp]: "split_chars P cs \<noteq> []"
  by (induction cs) (auto split: list.split)

lemma split_chars_sep: "P c \<Longrightarrow> split_chars P (xs @ c # ys) = split_chars P xs @ split_chars P ys"
proof (induction xs)
  case (Cons x xs)
  then show ?case by (cases "split_chars P xs") auto
qed simp

lemma join_append: "xs \<noteq> [] \<Longrightarrow> ys \<noteq> [] \<Longrightarrow> join sep (xs @ ys) = join sep xs @ sep @ join sep ys"
  by (induction xs) (auto simp: join_Cons)

lemma join_split_chars:
  "(\<And>c. P c \<Longrightarrow> c = sep) \<Longrightarrow> join sep (split_chars P cs) = concat cs"
proof (induction cs)
  case (Cons c cs)
  then show ?case by (cases "split_chars P cs") (auto simp: join_Cons)
qed simp

lemma join_labels [simp]: "join ''.'' (labels host) = host"
  using join_split_chars [of is_dot "''.''" "utf8_chars host"] by (simp add: labels_def split_by_def is_dot_def)

lemma labels_ne [simp]: "labels host \<noteq> []"
  by (simp add: labels_def split_by_def)

lemma labels_dot:
  assumes "list_all (\<lambda>c. byte_of c < 128) a" "list_all (\<lambda>c. byte_of c < 128) b"
  shows "labels (a @ CHR ''.'' # b) = labels a @ labels b"
proof -
  have dot: "byte_of (CHR ''.'') < 128" by (simp add: byte_of_def)
  have "utf8_chars (a @ CHR ''.'' # b) = map (\<lambda>c. [c]) a @ ''.'' # map (\<lambda>c. [c]) b"
    using assms dot by (subst utf8_chars_ascii) auto
  then show ?thesis
    using assms by (simp add: labels_def split_by_def utf8_chars_ascii split_chars_sep is_dot_def)
qed

text \<open>What a normalised host looks like.\<close>

definition host_byte :: "char \<Rightarrow> bool" where "host_byte c \<longleftrightarrow> label_byte c \<or> c = CHR ''.''"

lemma set_join: "c \<in> set (join sep xs) \<Longrightarrow> c \<in> set sep \<or> (\<exists>x \<in> set xs. c \<in> set x)"
  by (induction xs) (auto simp: join_Cons split: if_splits)

lemma last_join:
  assumes "xs \<noteq> []" "last xs \<noteq> []"
  shows "join sep xs \<noteq> [] \<and> last (join sep xs) = last (last xs)"
  using assms
proof (induction xs)
  case (Cons x xs)
  then show ?case by (cases "xs = []") (auto simp: join_Cons)
qed simp

lemma label_byte_ascii: "label_byte c \<Longrightarrow> byte_of c < 128"
  by (auto simp: label_byte_def is_ascii_alphanumeric_def is_ascii_digit_def) (simp_all add: byte_of_def)

lemma host_byte_ascii: "host_byte c \<Longrightarrow> byte_of c < 128"
  by (auto simp: host_byte_def byte_of_def dest: label_byte_ascii [unfolded byte_of_def])

lemma host_byte_not_space: "host_byte c \<Longrightarrow> \<not> is_whitespace [c]"
  by (auto simp: host_byte_def label_byte_def is_ascii_alphanumeric_def is_ascii_digit_def is_whitespace_def
      whitespace_chars_def byte_of_def)

lemma labels_host_bytes:
  assumes "list_all label_ok (labels host)"
  shows "list_all host_byte host" "host = [] \<or> last host \<noteq> CHR ''.''"
proof -
  have "c \<in> set (join ''.'' (labels host)) \<Longrightarrow> host_byte c" for c
    using set_join [of c "''.''" "labels host"] assms by (auto simp: list_all_iff label_ok_def host_byte_def)
  then show bytes: "list_all host_byte host" by (simp add: list_all_iff)
  have ok: "label_ok (last (labels host))" using assms by (simp add: list_all_iff)
  then have "last (join ''.'' (labels host)) = last (last (labels host))"
    using last_join [of "labels host" "''.''"] by (auto simp: label_ok_def)
  with ok have "label_byte (last host)" by (simp add: label_ok_def list_all_iff)
  then show "host = [] \<or> last host \<noteq> CHR ''.''"
    by (auto simp: label_byte_def is_ascii_alphanumeric_def is_ascii_digit_def byte_of_def)
qed

lemma concat_singletons [simp]: "concat (map (\<lambda>c. [c]) s) = s"
  by (induction s) auto

lemma trim_end_ascii:
  "list_all (\<lambda>c. byte_of c < 128) s \<Longrightarrow> s = [] \<or> \<not> P [last s] \<Longrightarrow> trim_end_matches P s = s"
  by (cases s rule: rev_cases) (simp_all add: trim_end_matches_def utf8_chars_ascii rev_map)

lemma trim_start_ascii:
  "list_all (\<lambda>c. byte_of c < 128) s \<Longrightarrow> s = [] \<or> \<not> P [hd s] \<Longrightarrow> trim_start_matches P s = s"
  by (cases s) (simp_all add: trim_start_matches_def utf8_chars_ascii del: utf8_chars.simps)

lemma host_trims:
  assumes "list_all host_byte host"
  shows "trim host = host"
proof -
  have ascii: "list_all (\<lambda>c. byte_of c < 128) host" using assms host_byte_ascii by (auto simp: list_all_iff)
  have "host = [] \<or> \<not> is_whitespace [hd host]" "host = [] \<or> \<not> is_whitespace [last host]"
    using assms host_byte_not_space by (auto simp: list_all_iff)
  then show ?thesis by (simp add: trim_def trim_matches_def trim_start_ascii trim_end_ascii ascii)
qed

text \<open>A name in the form \<open>normalize_host\<close> leaves it in.\<close>

definition normal_host :: "string \<Rightarrow> bool" where "normal_host h \<longleftrightarrow> normalize_host h = Some h"

lemma normalize_normal: "normalize_host s = Some h \<Longrightarrow> normal_host h"
proof -
  assume h: "normalize_host s = Some h"
  then have ok: "h \<noteq> []" "length h \<le> max_host" "list_all label_ok (labels h)" "to_ascii_lowercase h = h"
    by (auto simp: normalize_host_def Let_def split: if_splits)
  have ascii: "list_all (\<lambda>c. byte_of c < 128) h"
    using labels_host_bytes(1) [OF ok(3)] host_byte_ascii by (auto simp: list_all_iff)
  have "trim_end_matches is_dot (trim h) = h"
    using labels_host_bytes [OF ok(3)] ascii by (simp add: host_trims trim_end_ascii is_dot_def)
  with ok show ?thesis by (simp add: normal_host_def normalize_host_def)
qed

lemma normal_host_bytes: "normal_host h \<Longrightarrow> list_all host_byte h \<and> h \<noteq> []"
  using labels_host_bytes(1) [of h]
  by (auto simp: normal_host_def normalize_host_def Let_def split: if_splits)

lemma normal_host_ascii: "normal_host h \<Longrightarrow> list_all (\<lambda>c. byte_of c < 128) h"
  using normal_host_bytes [of h] host_byte_ascii by (auto simp: list_all_iff)

section \<open>What a pattern reaches\<close>

lemma below_domain:
  assumes "normal_host host" "normal_host d"
  shows "suffix (CHR ''.'' # d) host \<longleftrightarrow> (\<exists>ls. ls \<noteq> [] \<and> labels host = ls @ labels d)"
proof
  assume "suffix (CHR ''.'' # d) host"
  then obtain a where host: "host = a @ CHR ''.'' # d" by (auto simp: suffix_def)
  with assms have "list_all (\<lambda>c. byte_of c < 128) a" using normal_host_ascii [of host] by simp
  then have "labels host = labels a @ labels d"
    using labels_dot [of a d] normal_host_ascii [OF assms(2)] by (simp add: host)
  then show "\<exists>ls. ls \<noteq> [] \<and> labels host = ls @ labels d" by (intro exI [of _ "labels a"]) simp
next
  assume "\<exists>ls. ls \<noteq> [] \<and> labels host = ls @ labels d"
  then obtain ls where ls: "ls \<noteq> []" "labels host = ls @ labels d" by blast
  then have "host = join ''.'' ls @ ''.'' @ d"
    using join_labels [of host] join_append [of ls "labels d" "''.''"] by simp
  then show "suffix (CHR ''.'' # d) host" by (auto simp: suffix_def)
qed

lemma parse_pattern_cases:
  "parse_pattern s = Inr p \<Longrightarrow>
     (\<exists>d. p = Suffix (CHR ''.'' # d) \<and> normal_host d \<and> prefix star_dot s \<and>
          normalize_host (drop (length star_dot) s) = Some d) \<or>
     (\<exists>h. p = Exact h \<and> normal_host h \<and> \<not> prefix star_dot s \<and> normalize_host s = Some h)"
  by (auto simp: parse_pattern_def strip_prefix_def normalize_normal split: option.splits if_splits)

lemma parse_patterns_Inr: "parse_patterns ps = Inr qs \<longleftrightarrow> map parse_pattern ps = map Inr qs"
proof (induction ps arbitrary: qs)
  case (Cons p ps)
  show ?case
  proof
    assume "parse_patterns (p # ps) = Inr qs"
    then obtain q rest where "parse_pattern p = Inr q" "parse_patterns ps = Inr rest" "qs = q # rest"
      by (cases "parse_pattern p"; cases "parse_patterns ps") simp_all
    with Cons.IH [of rest] show "map parse_pattern (p # ps) = map Inr qs" by simp
  next
    assume "map parse_pattern (p # ps) = map Inr qs"
    then obtain q rest where "qs = q # rest" "parse_pattern p = Inr q" "map parse_pattern ps = map Inr rest"
      by (cases qs) auto
    with Cons.IH [of rest] show "parse_patterns (p # ps) = Inr qs" by simp
  qed
qed auto

lemma parse_patterns_Inl: "parse_patterns ps = Inl e \<Longrightarrow> \<exists>p \<in> set ps. parse_pattern p = Inl e"
proof (induction ps)
  case (Cons p ps)
  then show ?case by (cases "parse_pattern p"; cases "parse_patterns ps") simp_all
qed simp

text \<open>The reading of a pattern: a name, or every name below a domain at a label boundary.\<close>

definition reaches :: "string \<Rightarrow> string \<Rightarrow> bool" where
  "reaches pattern host \<longleftrightarrow>
     (case strip_prefix star_dot pattern of
        Some domain \<Rightarrow> \<exists>d ls. normalize_host domain = Some d \<and> ls \<noteq> [] \<and> labels host = ls @ labels d
      | None \<Rightarrow> normalize_host pattern = Some host)"

lemma matches_reaches:
  assumes "parse_pattern s = Inr p" "normal_host host"
  shows "matches p host \<longleftrightarrow> reaches s host"
  using parse_pattern_cases [OF assms(1)] assms
  by (auto simp: reaches_def strip_prefix_def below_domain)

lemma policy_checked:
  assumes "policy_new patterns = Inr pol" "normal_host host"
  shows "policy_check pol host port =
    (if port \<noteq> 80 \<and> port \<noteq> 443 then Inl DenyPort
     else if \<exists>s \<in> set patterns. reaches s host then Inr ()
     else Inl DenyHost)"
proof -
  from assms(1) obtain ps where ps: "map parse_pattern patterns = map Inr ps" "pol = \<lparr>pol_allow = ps, pol_ports = default_ports\<rparr>"
    by (auto simp: policy_new_def map_sum_def parse_patterns_Inr [symmetric] split: sum.splits)
  have "list_ex (\<lambda>p. matches p host) ps \<longleftrightarrow> (\<exists>s \<in> set patterns. reaches s host)"
    using ps(1)
  proof (induction patterns arbitrary: ps)
    case (Cons s patterns)
    then obtain p qs where "ps = p # qs" "parse_pattern s = Inr p" "map parse_pattern patterns = map Inr qs" by auto
    with Cons.IH [of qs] assms(2) show ?case by (simp add: matches_reaches)
  qed simp
  then show ?thesis by (simp add: ps(2) policy_check_def default_ports_def)
qed

text \<open>
  Claim C33. A policy answers a host by the patterns it was built from and nothing else: any port but 80
  and 443 is refused as a port, a host is let through exactly when a pattern names it or names a
  domain it lies strictly below at a label boundary, and every other host is refused as a host.
\<close>

theorem check_correct:
  assumes "policy_new patterns = Inr pol" "normal_host host"
  shows "policy_check pol host port =
    (if port \<noteq> 80 \<and> port \<noteq> 443 then Inl DenyPort
     else if \<exists>s \<in> set patterns. reaches s host then Inr ()
     else Inl DenyHost)"
  by (rule policy_checked [OF assms])

lemma shown_parses:
  assumes "parse_pattern s = Inr p"
  shows "parse_pattern (show_pattern p) = Inr p"
proof -
  have "\<not> prefix star_dot h" if "normal_host h" for h
    using normal_host_bytes [OF that] unfolding star_dot_def
    by (cases h) (auto simp: host_byte_def label_byte_def is_ascii_alphanumeric_def is_ascii_digit_def byte_of_def)
  with parse_pattern_cases [OF assms] show ?thesis
    by (auto simp: parse_pattern_def strip_prefix_def star_dot_def normal_host_def)
qed

text \<open>
  Claim C34. A pattern that was read and is written out reads back as itself, so what a layer stores is
  the one spelling of what it allows; and what is read is in that spelling exactly when it is its own
  output.
\<close>

theorem pattern_roundtrip:
  assumes "parse_pattern s = Inr p"
  shows "parse_pattern (show_pattern p) = Inr p \<and>
    (\<forall>t q. parse_pattern t = Inr q \<and> show_pattern q = show_pattern p \<longrightarrow> q = p)"
proof (intro conjI allI impI)
  fix t q
  assume t: "parse_pattern t = Inr q \<and> show_pattern q = show_pattern p"
  then have "parse_pattern (show_pattern q) = Inr q" by (intro shown_parses) blast
  moreover from t have "parse_pattern (show_pattern q) = Inr p" using shown_parses [OF assms] by (simp only:)
  ultimately have "Inr q = (Inr p :: string + host_pattern)" by (simp only:)
  then show "q = p" by (rule Inr_inject)
qed (rule shown_parses [OF assms])

text \<open>A scan that recognises names already in normal form, for the names the program lists.\<close>

definition lower_byte :: "char \<Rightarrow> bool" where
  "lower_byte c \<longleftrightarrow> (let b = byte_of c in 97 \<le> b \<and> b \<le> 122 \<or> 48 \<le> b \<and> b \<le> 57 \<or> b = 45)"

fun plain_name :: "bool \<Rightarrow> string \<Rightarrow> bool" where
  "plain_name seen [] = seen"
| "plain_name seen (c # cs) =
     (if c = CHR ''.'' then seen \<and> plain_name False cs else lower_byte c \<and> plain_name True cs)"

lemma byte_dash: "byte_of c = 45 \<Longrightarrow> c = CHR ''-''"
proof -
  assume "byte_of c = 45"
  then have "char_of (of_char c :: nat) = (char_of (45 :: nat) :: char)" by (simp only: byte_of_def)
  moreover have "char_of (45 :: nat) = CHR ''-''" by code_simp
  ultimately show ?thesis by simp
qed

lemma lower_byte_label: "lower_byte c \<Longrightarrow> label_byte c \<and> ascii_lower_byte c = c \<and> byte_of c < 128"
  unfolding lower_byte_def label_byte_def is_ascii_alphanumeric_def is_ascii_digit_def ascii_lower_byte_def Let_def
  by (auto dest: byte_dash)

lemma lower_labels:
  assumes "list_all lower_byte w"
  shows "labels w = [w]"
proof -
  have "utf8_chars w = map (\<lambda>c. [c]) w"
    using assms lower_byte_label by (intro utf8_chars_ascii) (auto simp: list_all_iff)
  moreover have "split_chars is_dot (map (\<lambda>c. [c]) w) = [w]"
    using assms
  proof (induction w)
    case (Cons c w)
    then have "c \<noteq> CHR ''.''" by (auto simp: lower_byte_def byte_of_def)
    with Cons show ?case by (simp add: is_dot_def)
  qed simp
  ultimately show ?thesis by (simp add: labels_def split_by_def)
qed

lemma lower_word: "list_all lower_byte w \<Longrightarrow> w \<noteq> [] \<Longrightarrow> label_ok w \<and> list_all (\<lambda>c. byte_of c < 128) w"
  using lower_byte_label by (auto simp: label_ok_def list_all_iff)

lemma plain_name_bytes: "plain_name seen s \<Longrightarrow> to_ascii_lowercase s = s \<and> list_all (\<lambda>c. byte_of c < 128) s"
proof (induction seen s rule: plain_name.induct)
  case (2 seen c cs)
  then show ?case
    using lower_byte_label [of c]
    by (cases "c = CHR ''.''") (simp_all add: to_ascii_lowercase_def ascii_lower_byte_def byte_of_def)
qed (simp add: to_ascii_lowercase_def)

lemma plain_name_labels:
  "plain_name seen s \<Longrightarrow> list_all lower_byte w \<Longrightarrow> seen = (w \<noteq> []) \<Longrightarrow> list_all label_ok (labels (w @ s))"
proof (induction seen s arbitrary: w rule: plain_name.induct)
  case (1 seen)
  then show ?case using lower_word [of w] by (simp add: lower_labels)
next
  case (2 seen c cs)
  show ?case
  proof (cases "c = CHR ''.''")
    case True
    with 2 have "plain_name False cs" "w \<noteq> []" by auto
    with True 2 "2.IH"(1) [of "[]"] show ?thesis
      using labels_dot [of w cs] lower_word [of w] plain_name_bytes [of False cs] by (simp add: lower_labels)
  next
    case False
    with 2 have "list_all label_ok (labels ((w @ [c]) @ cs))" by (intro "2.IH"(2)) auto
    then show ?thesis by simp
  qed
qed

lemma plain_name_normal:
  assumes "plain_name False s" "length s \<le> max_host"
  shows "normal_host s"
proof -
  have ok: "list_all label_ok (labels s)" "to_ascii_lowercase s = s" "list_all (\<lambda>c. byte_of c < 128) s" "s \<noteq> []"
    using plain_name_labels [of False s "[]"] plain_name_bytes [OF assms(1)] assms(1) by auto
  then have "trim_end_matches is_dot (trim s) = s"
    using labels_host_bytes [OF ok(1)] by (simp add: host_trims trim_end_ascii is_dot_def)
  with ok assms(2) show ?thesis by (simp add: normal_host_def normalize_host_def)
qed

text \<open>The names of the template and of the quiet list are in normal form.\<close>

definition spelled :: "string \<Rightarrow> bool" where
  "spelled p \<longleftrightarrow>
     (let d = (case strip_prefix star_dot p of Some d \<Rightarrow> d | None \<Rightarrow> p) in plain_name False d \<and> length d \<le> max_host)"

lemma spelled_parses:
  assumes "spelled p"
  shows "\<exists>q. parse_pattern p = Inr q \<and> show_pattern q = p"
proof (cases "strip_prefix star_dot p")
  case None
  with assms have "normalize_host p = Some p"
    using plain_name_normal [of p] by (simp add: spelled_def normal_host_def)
  with None show ?thesis by (simp add: parse_pattern_def)
next
  case (Some d)
  with assms have "normalize_host d = Some d"
    using plain_name_normal [of d] by (simp add: spelled_def normal_host_def)
  moreover from Some have "p = star_dot @ d" by (simp add: strip_prefix_Some)
  ultimately show ?thesis using Some by (simp add: parse_pattern_def star_dot_def)
qed

lemma template_spelled: "list_all spelled default_allow" "list_all spelled quiet_hosts"
  by code_simp+

lemma template_distinct: "distinct default_allow"
  by code_simp

lemma default_allow_parses: "policy_new default_allow = Inr policy_default"
proof -
  have "parse_pattern p \<noteq> Inl e" if "p \<in> set default_allow" for p e
    using template_spelled(1) spelled_parses [of p] that by (auto simp: list_all_iff)
  then have "parse_patterns default_allow \<noteq> Inl e" for e
    using parse_patterns_Inl [of default_allow e] by blast
  then show ?thesis
    by (cases "parse_patterns default_allow") (auto simp: policy_default_def policy_new_def)
qed

end
