(* ===== verification/Egress_Proxy.thy ===== *)
theory Egress_Proxy
  imports Egress_Policy "HOL-Library.AList"
begin

text \<open>
  The box's only way out (\<open>fletch-box/src/egress/mod.rs\<close>): the request a connection opens with, the
  decision on its host, and the holds of connections that wait for an answer. Connections, the
  engine's updates and the clock interleave; every read and write under a lock of its own is a step.
\<close>

section \<open>Address literals\<close>

text \<open>
  What \<open>str::parse::<IpAddr>\<close> accepts, as the recognisers of the standard library's parser: each takes
  what it reads off the front and answers the rest.
\<close>

definition ip_octet :: "string \<Rightarrow> string option" where
  "ip_octet s =
     (let ds = takeWhile is_ascii_digit s
      in if ds = [] \<or> length ds > 3 \<or> hd ds = CHR ''0'' \<and> length ds > 1 \<or> digits_value 0 ds > 255 then None
         else Some (dropWhile is_ascii_digit s))"

definition is_hex_digit :: "char \<Rightarrow> bool" where
  "is_hex_digit c \<longleftrightarrow>
     is_ascii_digit c \<or> 65 \<le> byte_of c \<and> byte_of c \<le> 70 \<or> 97 \<le> byte_of c \<and> byte_of c \<le> 102"

definition ip_group :: "string \<Rightarrow> string option" where
  "ip_group s =
     (let ds = takeWhile is_hex_digit s
      in if ds = [] \<or> length ds > 4 then None else Some (dropWhile is_hex_digit s))"

definition ip_sep :: "char \<Rightarrow> nat \<Rightarrow> string \<Rightarrow> string option" where
  "ip_sep c i s = (if i = 0 then Some s else (case s of d # ds \<Rightarrow> if d = c then Some ds else None | [] \<Rightarrow> None))"

definition ip_part :: "string \<Rightarrow> nat \<Rightarrow> string option" where
  "ip_part s i = Option.bind (ip_sep (CHR ''.'') i s) ip_octet"

definition ip_v4 :: "string \<Rightarrow> string option" where
  "ip_v4 s = Option.bind (Option.bind (Option.bind (ip_part s 0) (\<lambda>r. ip_part r 1)) (\<lambda>r. ip_part r 2)) (\<lambda>r. ip_part r 3)"

text \<open>\<open>read_groups\<close> with that many groups left: how many were read, whether they end in an IPv4 part.\<close>

fun ip_groups :: "nat \<Rightarrow> nat \<Rightarrow> string \<Rightarrow> nat \<times> bool \<times> string" where
  "ip_groups 0 i s = (i, False, s)"
| "ip_groups (Suc k) i s =
     (case (if k > 0 then Option.bind (ip_sep (CHR '':'') i s) ip_v4 else None) of
        Some r \<Rightarrow> (i + 2, True, r)
      | None \<Rightarrow>
          (case Option.bind (ip_sep (CHR '':'') i s) ip_group of
             Some r \<Rightarrow> ip_groups k (Suc i) r
           | None \<Rightarrow> (i, False, s)))"

definition ip_v6 :: "string \<Rightarrow> string option" where
  "ip_v6 s =
     (let (n, v4, r) = ip_groups 8 0 s
      in if n = 8 then Some r
         else if v4 then None
         else Option.bind (strip_prefix ''::'' r) (\<lambda>r. let (_, _, r) = ip_groups (7 - n) 0 r in Some r))"

definition is_ip_addr :: "string \<Rightarrow> bool" where
  "is_ip_addr s = (case ip_v4 s of Some r \<Rightarrow> r = [] | None \<Rightarrow> ip_v6 s = Some [])"

section \<open>The request\<close>

definition rsplit_once :: "char \<Rightarrow> string \<Rightarrow> (string \<times> string) option" where
  "rsplit_once c s =
     (case dropWhile (\<lambda>d. d \<noteq> c) (rev s) of
        [] \<Rightarrow> None
      | _ # before \<Rightarrow> Some (rev before, rev (takeWhile (\<lambda>d. d \<noteq> c) (rev s))))"

definition parse_target :: "string \<Rightarrow> (string \<times> port) option" where
  "parse_target target =
     Option.bind (rsplit_once (CHR '':'') target) (\<lambda>(host, port).
       Option.bind (parse_u16 port) (\<lambda>port.
         let host = trim_end_matches (\<lambda>c. c = '']'') (trim_start_matches (\<lambda>c. c = ''['') host)
         in map_option (\<lambda>h. (h, port)) (if is_ip_addr host then Some (to_ascii_lowercase host) else normalize_host host)))"

definition max_header :: nat where "max_header = 8 * 1024"

definition crlf2 :: string where "crlf2 = [CHR 0x0D, CHR 0x0A, CHR 0x0D, CHR 0x0A]"

fun find_header_end :: "string \<Rightarrow> nat option" where
  "find_header_end [] = None"
| "find_header_end (c # cs) = (if prefix crlf2 (c # cs) then Some 4 else map_option Suc (find_header_end cs))"

text \<open>
  \<open>read_header\<close> over what the reads return, an error or the bytes (none at the end of the stream); a
  stream that stops before the header's end is still waiting, and its deadline answers nothing.
\<close>

fun read_header :: "string \<Rightarrow> (string + string) list \<Rightarrow> (string + string \<times> string) option" where
  "read_header buf reads =
     (case find_header_end buf of
        Some n \<Rightarrow> Some (Inr (take n buf, drop n buf))
      | None \<Rightarrow>
          if length buf \<ge> max_header then Some (Inl ''header too long'')
          else
            (case reads of
               [] \<Rightarrow> None
             | Inl e # _ \<Rightarrow> Some (Inl e)
             | Inr chunk # rest \<Rightarrow>
                 if chunk = [] then Some (Inl ''connection closed before the header ended'')
                 else read_header (buf @ chunk) rest))"

declare read_header.simps [simp del]

datatype eg_admission = AdListed | AdOpen | AdOverride

datatype egress_event =
    EvAllowed string port eg_admission nat nat
  | EvDenied string port denial
  | EvHeld nat string port
  | EvHoldEnded nat string port bool
  | EvError "string option" string

definition first_line :: "string \<Rightarrow> string" where
  "first_line head =
     (let line = takeWhile (\<lambda>c. c \<noteq> CHR 0x0A) head
      in if line \<noteq> [] \<and> last line = CHR 0x0D \<and> length line < length head then butlast line else line)"

text \<open>The head of a connection: a reply and an event when it is refused, else where it wants to go.\<close>

definition serve_head :: "unicode \<Rightarrow> string \<Rightarrow> (string \<times> string \<times> egress_event) + (string \<times> port)" where
  "serve_head U head =
     (let words = split_whitespace (first_line head);
          word = (\<lambda>i. if i < length words then words ! i else []);
          method = word 0; target = word 1
      in if method \<noteq> ''CONNECT''
         then Inl (''405 Method Not Allowed'', ''only CONNECT is supported by the box egress proxy'',
                   EvError None (''refused '' @ method @ '' '' @ target @ '': only CONNECT is supported''))
         else
           (case parse_target target of
              None \<Rightarrow> Inl (''400 Bad Request'', ''CONNECT needs host:port'', EvError None (''bad CONNECT target '' @ debug_fmt U target))
            | Some hp \<Rightarrow> Inr hp))"

section \<open>The proxy\<close>

datatype proxy_mode = MdOpen | MdOverride | MdHold | MdRefuse

record hold =
  hd_id :: nat
  hd_since :: nat
  hd_port :: port
  hd_waiting :: nat

definition max_held_hosts :: nat where "max_held_hosts = 4"

text \<open>\<open>Shared\<close>, and of \<open>EgressProxy\<close> the sender of the generation: its count, and whether it is still there.\<close>

record proxy =
  px_policy :: egress_policy
  px_mode :: proxy_mode
  px_declined :: "string set"
  px_held :: "(string \<times> hold) list"
  px_generation :: nat
  px_open :: bool
  px_timeout :: nat

datatype eg_verdict = Admit eg_admission | Refuse denial | Hold

text \<open>What the mode answers a host that is neither listed nor declined.\<close>

definition mode_verdict :: "proxy_mode \<Rightarrow> string \<Rightarrow> eg_verdict" where
  "mode_verdict m host =
     (case m of
        MdOpen \<Rightarrow> Admit AdOpen
      | MdOverride \<Rightarrow> Admit AdOverride
      | MdRefuse \<Rightarrow> Refuse DenyHost
      | MdHold \<Rightarrow> if is_quiet host then Refuse DenyHost else Hold)"

definition eg_decide :: "proxy \<Rightarrow> string \<Rightarrow> port \<Rightarrow> eg_verdict" where
  "eg_decide px host port =
     (case policy_check (px_policy px) host port of
        Inr _ \<Rightarrow> Admit AdListed
      | Inl DenyPort \<Rightarrow> Refuse DenyPort
      | Inl DenyHost \<Rightarrow> if host \<in> px_declined px then Refuse DenyHost else mode_verdict (px_mode px) host)"

text \<open>A decline is normalised first, and a name that is none is no decline.\<close>

definition decline_name :: "string \<Rightarrow> string option" where "decline_name host = normalize_host host"

record joined =
  jn_id :: nat
  jn_since :: nat
  jn_first :: bool

definition hold_of :: "proxy \<Rightarrow> string \<Rightarrow> hold option" where "hold_of px host = map_of (px_held px) host"

definition join_hold :: "nat \<Rightarrow> nat \<Rightarrow> string \<Rightarrow> port \<Rightarrow> proxy \<Rightarrow> (joined \<times> nat \<times> proxy) option" where
  "join_hold next_id now host port px =
     (case hold_of px host of
        Some h \<Rightarrow>
          Some (\<lparr>jn_id = hd_id h, jn_since = hd_since h, jn_first = False\<rparr>, next_id,
                px\<lparr>px_held := AList.update host (h\<lparr>hd_waiting := hd_waiting h + 1\<rparr>) (px_held px)\<rparr>)
      | None \<Rightarrow>
          if length (px_held px) \<ge> max_held_hosts then None
          else
            Some (\<lparr>jn_id = next_id + 1, jn_since = now, jn_first = True\<rparr>, next_id + 1,
                  px\<lparr>px_held := (host, \<lparr>hd_id = next_id + 1, hd_since = now, hd_port = port, hd_waiting = 1\<rparr>) # px_held px\<rparr>))"

definition leave_hold :: "string \<Rightarrow> proxy \<Rightarrow> port option \<times> proxy" where
  "leave_hold host px =
     (case hold_of px host of
        None \<Rightarrow> (None, px)
      | Some h \<Rightarrow>
          if hd_waiting h - 1 > 0
          then (None, px\<lparr>px_held := AList.update host (h\<lparr>hd_waiting := hd_waiting h - 1\<rparr>) (px_held px)\<rparr>)
          else (Some (hd_port h), px\<lparr>px_held := AList.delete host (px_held px)\<rparr>))"

definition held_hosts :: "proxy \<Rightarrow> string list" where "held_hosts px = sort (map fst (px_held px))"

section \<open>Connections and changes\<close>

text \<open>
  What \<open>eg_decide\<close> reads next: the policy, the declined hosts and the mode are under a lock each, so a
  change may fall between two reads.
\<close>

datatype reading = RdPolicy | RdDeclined | RdMode

definition read_step :: "proxy \<Rightarrow> string \<Rightarrow> port \<Rightarrow> reading \<Rightarrow> reading + eg_verdict" where
  "read_step px host port r =
     (case r of
        RdPolicy \<Rightarrow>
          (case policy_check (px_policy px) host port of
             Inr _ \<Rightarrow> Inr (Admit AdListed)
           | Inl DenyPort \<Rightarrow> Inr (Refuse DenyPort)
           | Inl DenyHost \<Rightarrow> Inl RdDeclined)
      | RdDeclined \<Rightarrow> if host \<in> px_declined px then Inr (Refuse DenyHost) else Inl RdMode
      | RdMode \<Rightarrow> Inr (mode_verdict (px_mode px) host))"

text \<open>
  Where a connection is in \<open>serve\<close> and \<open>hold\<close>: its first decision; the subscription to the generation;
  joining the hold; announcing it; in the loop, deciding again and waiting; leaving, and telling the
  end; then the tunnel or the refusal. The generation last seen and the place in the hold go along.
\<close>

datatype conn_pc =
    Deciding reading
  | Subscribing
  | Joining nat
  | Announcing nat joined
  | Checking reading nat joined
  | Waiting nat joined
  | Leaving joined "eg_admission option"
  | Ending joined port "eg_admission option"
  | Refusing denial
  | Tunnel eg_admission
  | Gone

text \<open>
  A connection, with three auxiliary fields no step reads: how many policies and modes there had been
  before the ones in force when it arrived, and whether its host was declined by then.
\<close>

record conn =
  cn_host :: string
  cn_port :: port
  cn_pc :: conn_pc
  cn_pol0 :: nat
  cn_mode0 :: nat
  cn_declined0 :: bool

text \<open>The rest of an \<open>update\<close> or a \<open>decline\<close> in progress.\<close>

datatype change = SetPolicy egress_policy proxy_mode | SetMode proxy_mode | AddDeclined string | Bump

text \<open>The auxiliary lists are the policies and the modes there have been, the last the one in force.\<close>

record egress_world =
  wd_proxy :: proxy
  wd_next_id :: nat
  wd_now :: nat
  wd_conns :: "conn list"
  wd_changes :: "change list"
  wd_events :: "egress_event list"
  wd_policies :: "egress_policy list"
  wd_modes :: "proxy_mode list"

definition after_hold :: "eg_admission option \<Rightarrow> conn_pc" where
  "after_hold a = (case a of Some ad \<Rightarrow> Tunnel ad | None \<Rightarrow> Refusing DenyHost)"

text \<open>
  The next step of a connection, if it can take one: where it is then, the proxy, the id counter and the
  events. A waiting connection wakes on a change it has not seen, else on the proxy's end or its
  deadline.
\<close>

definition conn_next :: "egress_world \<Rightarrow> conn \<Rightarrow> (conn_pc \<times> proxy \<times> nat \<times> egress_event list) option" where
  "conn_next w c =
     (let px = wd_proxy w; n = wd_next_id w; host = cn_host c; port = cn_port c
      in case cn_pc c of
           Deciding r \<Rightarrow>
             Some (case read_step px host port r of
                     Inl r \<Rightarrow> Deciding r
                   | Inr (Admit a) \<Rightarrow> Tunnel a
                   | Inr (Refuse d) \<Rightarrow> Refusing d
                   | Inr Hold \<Rightarrow> Subscribing, px, n, [])
         | Subscribing \<Rightarrow> Some (Joining (px_generation px), px, n, [])
         | Joining seen \<Rightarrow>
             Some (case join_hold n (wd_now w) host port px of
                     None \<Rightarrow> (Refusing DenyHost, px, n, [])
                   | Some (j, n, px) \<Rightarrow> (if jn_first j then Announcing seen j else Checking RdPolicy seen j, px, n, []))
         | Announcing seen j \<Rightarrow> Some (Checking RdPolicy seen j, px, n, [EvHeld (jn_id j) host port])
         | Checking r seen j \<Rightarrow>
             Some (case read_step px host port r of
                     Inl r \<Rightarrow> Checking r seen j
                   | Inr (Admit a) \<Rightarrow> Leaving j (Some a)
                   | Inr (Refuse _) \<Rightarrow> Leaving j None
                   | Inr Hold \<Rightarrow> Waiting seen j, px, n, [])
         | Waiting seen j \<Rightarrow>
             if px_generation px \<noteq> seen then Some (Checking RdPolicy (px_generation px) j, px, n, [])
             else if \<not> px_open px \<or> jn_since j + px_timeout px \<le> wd_now w then Some (Leaving j None, px, n, [])
             else None
         | Leaving j a \<Rightarrow>
             Some (case leave_hold host px of
                     (Some p, px) \<Rightarrow> (Ending j p a, px, n, [])
                   | (None, px) \<Rightarrow> (after_hold a, px, n, []))
         | Ending j p a \<Rightarrow> Some (after_hold a, px, n, [EvHoldEnded (jn_id j) host p (a \<noteq> None)])
         | Refusing d \<Rightarrow> Some (Gone, px, n, [EvDenied host port d])
         | Tunnel _ \<Rightarrow> None
         | Gone \<Rightarrow> None)"

definition set_pc :: "nat \<Rightarrow> conn_pc \<Rightarrow> egress_world \<Rightarrow> egress_world" where
  "set_pc i pc w = w\<lparr>wd_conns := (wd_conns w)[i := (wd_conns w ! i)\<lparr>cn_pc := pc\<rparr>]\<rparr>"

definition conn_move :: "egress_world \<Rightarrow> nat \<Rightarrow> egress_world option" where
  "conn_move w i =
     (if i < length (wd_conns w)
      then map_option (\<lambda>(pc, px, n, evs).
             set_pc i pc (w\<lparr>wd_proxy := px, wd_next_id := n, wd_events := wd_events w @ evs\<rparr>)) (conn_next w (wd_conns w ! i))
      else None)"

definition change_move :: "egress_world \<Rightarrow> nat \<Rightarrow> egress_world" where
  "change_move w i =
     (let px = wd_proxy w; ch = wd_changes w; next = (\<lambda>c. ch[i := c])
      in case ch ! i of
           SetPolicy pol m \<Rightarrow> w\<lparr>wd_proxy := px\<lparr>px_policy := pol\<rparr>, wd_changes := next (SetMode m), wd_policies := wd_policies w @ [pol]\<rparr>
         | SetMode m \<Rightarrow> w\<lparr>wd_proxy := px\<lparr>px_mode := m\<rparr>, wd_changes := next Bump, wd_modes := wd_modes w @ [m]\<rparr>
         | AddDeclined h \<Rightarrow> w\<lparr>wd_proxy := px\<lparr>px_declined := insert h (px_declined px)\<rparr>, wd_changes := next Bump\<rparr>
         | Bump \<Rightarrow> w\<lparr>wd_proxy := px\<lparr>px_generation := px_generation px + 1\<rparr>, wd_changes := take i ch @ drop (Suc i) ch\<rparr>)"

definition arrival :: "string \<Rightarrow> port \<Rightarrow> egress_world \<Rightarrow> conn" where
  "arrival host port w =
     \<lparr>cn_host = host, cn_port = port, cn_pc = Deciding RdPolicy, cn_pol0 = length (wd_policies w) - 1,
      cn_mode0 = length (wd_modes w) - 1, cn_declined0 = (host \<in> px_declined (wd_proxy w))\<rparr>"

definition proxy_start :: "egress_policy \<Rightarrow> proxy_mode \<Rightarrow> nat \<Rightarrow> nat \<Rightarrow> nat \<Rightarrow> egress_world" where
  "proxy_start pol m timeout next_id now =
     \<lparr>wd_proxy = \<lparr>px_policy = pol, px_mode = m, px_declined = {}, px_held = [], px_generation = 0, px_open = True,
                 px_timeout = timeout\<rparr>,
      wd_next_id = next_id, wd_now = now, wd_conns = [], wd_changes = [], wd_events = [], wd_policies = [pol], wd_modes = [m]\<rparr>"

text \<open>
  A step: a connection's head is read, or it moves on, or its tunnel ends; an update or a decline is
  called or moves on; time passes; another proxy takes hold ids from the counter of the process; the
  proxy is dropped, which no call can overlap.
\<close>

inductive egress_step :: "egress_world \<Rightarrow> egress_world \<Rightarrow> bool" where
  arrives: "parse_target t = Some (host, port) \<Longrightarrow> egress_step w (w\<lparr>wd_conns := wd_conns w @ [arrival host port w]\<rparr>)"
| moves: "conn_move w i = Some w' \<Longrightarrow> egress_step w w'"
| tunnel_ends: "i < length (wd_conns w) \<Longrightarrow> cn_pc (wd_conns w ! i) = Tunnel a \<Longrightarrow>
    evs = [] \<or> evs = [EvError (Some (cn_host (wd_conns w ! i))) message] \<or>
    evs = [EvAllowed (cn_host (wd_conns w ! i)) (cn_port (wd_conns w ! i)) a up down] \<Longrightarrow>
    egress_step w (set_pc i Gone (w\<lparr>wd_events := wd_events w @ evs\<rparr>))"
| updates: "px_open (wd_proxy w) \<Longrightarrow> egress_step w (w\<lparr>wd_changes := wd_changes w @ [SetPolicy pol m]\<rparr>)"
| declines: "px_open (wd_proxy w) \<Longrightarrow> decline_name h = Some n \<Longrightarrow> egress_step w (w\<lparr>wd_changes := wd_changes w @ [AddDeclined n]\<rparr>)"
| changes: "i < length (wd_changes w) \<Longrightarrow> egress_step w (change_move w i)"
| time: "egress_step w (w\<lparr>wd_now := wd_now w + k\<rparr>)"
| ids_taken: "egress_step w (w\<lparr>wd_next_id := wd_next_id w + k\<rparr>)"
| drops: "px_open (wd_proxy w) \<Longrightarrow> wd_changes w = [] \<Longrightarrow> egress_step w (w\<lparr>wd_proxy := (wd_proxy w)\<lparr>px_open := False\<rparr>\<rparr>)"

inductive egress_reach :: "egress_world \<Rightarrow> bool" where
  first: "egress_reach (proxy_start pol m timeout next_id now)"
| later: "egress_reach w \<Longrightarrow> egress_step w w' \<Longrightarrow> egress_reach w'"

lemma read_step_decides:
  "eg_decide px host port =
     (case read_step px host port RdPolicy of
        Inr v \<Rightarrow> v
      | Inl _ \<Rightarrow> (case read_step px host port RdDeclined of
                 Inr v \<Rightarrow> v
               | Inl _ \<Rightarrow> projr (read_step px host port RdMode)))"
  by (auto simp: eg_decide_def read_step_def split: sum.split denial.split)

end
