(* ===== verification/Egress_Admits.thy ===== *)
theory Egress_Admits
  imports Egress_Proxy
begin

text \<open>
  What the proxy lets through and what wakes a held connection: invariants over every interleaving of
  connections, updates, declines, the clock and the proxy's end.
\<close>

section \<open>The steps, taken apart\<close>

lemma conn_moveE:
  assumes "conn_move w i = Some w'"
  obtains pc px n evs where "i < length (wd_conns w)" "conn_next w (wd_conns w ! i) = Some (pc, px, n, evs)"
    "w' = set_pc i pc (w\<lparr>wd_proxy := px, wd_next_id := n, wd_events := wd_events w @ evs\<rparr>)"
  using assms by (auto simp: conn_move_def split: if_splits)

text \<open>Joining and leaving touch the holds only.\<close>

definition same_core :: "proxy \<Rightarrow> proxy \<Rightarrow> bool" where
  "same_core px px' \<longleftrightarrow> px' = px\<lparr>px_held := px_held px'\<rparr>"

lemma same_core_refl [simp]: "same_core px px"
  by (simp add: same_core_def)

lemma same_coreD:
  assumes "same_core px px'"
  shows "px_policy px' = px_policy px" "px_mode px' = px_mode px" "px_declined px' = px_declined px"
    "px_generation px' = px_generation px" "px_open px' = px_open px" "px_timeout px' = px_timeout px"
  by (subst assms [unfolded same_core_def], simp)+

lemma join_core: "join_hold n now host port px = Some (j, n', px') \<Longrightarrow> same_core px px'"
  by (auto simp: join_hold_def same_core_def split: option.splits if_splits)

lemma leave_core: "same_core px (snd (leave_hold host px))"
  by (auto simp: leave_hold_def same_core_def split: option.split)

lemma next_core: "conn_next w c = Some (pc, px, n, evs) \<Longrightarrow> same_core (wd_proxy w) px"
  using leave_core [of "wd_proxy w" "cn_host c"]
  by (cases "cn_pc c") (auto simp: conn_next_def Let_def dest: join_core split: option.splits prod.splits if_splits)

lemma set_pc_fields [simp]:
  "wd_proxy (set_pc i pc w) = wd_proxy w" "wd_next_id (set_pc i pc w) = wd_next_id w" "wd_now (set_pc i pc w) = wd_now w"
  "wd_changes (set_pc i pc w) = wd_changes w" "wd_events (set_pc i pc w) = wd_events w"
  "wd_policies (set_pc i pc w) = wd_policies w" "wd_modes (set_pc i pc w) = wd_modes w"
  "wd_conns (set_pc i pc w) = (wd_conns w)[i := (wd_conns w ! i)\<lparr>cn_pc := pc\<rparr>]"
  by (simp_all add: set_pc_def)

lemma change_move_fields:
  "wd_next_id (change_move w i) = wd_next_id w" "wd_now (change_move w i) = wd_now w"
  "wd_conns (change_move w i) = wd_conns w" "wd_events (change_move w i) = wd_events w"
  "px_held (wd_proxy (change_move w i)) = px_held (wd_proxy w)"
  "px_timeout (wd_proxy (change_move w i)) = px_timeout (wd_proxy w)"
  "px_open (wd_proxy (change_move w i)) = px_open (wd_proxy w)"
  by (cases "wd_changes w ! i"; simp add: change_move_def Let_def)+

text \<open>
  An invariant of the connections one by one, over worlds of which something else is known to hold: a
  connection arrives with it, its own step keeps it, and so does every other step for the connections
  it leaves where they are.
\<close>

locale conn_invariant =
  fixes sound :: "egress_world \<Rightarrow> bool" and holds :: "egress_world \<Rightarrow> conn \<Rightarrow> bool"
  assumes start: "sound (proxy_start pol m timeout next_id now)"
    and sound_step: "sound w \<Longrightarrow> egress_step w w' \<Longrightarrow> sound w'"
    and arrives: "sound w \<Longrightarrow> holds (w\<lparr>wd_conns := wd_conns w @ [arrival host port w]\<rparr>) (arrival host port w)"
    and own: "sound w \<Longrightarrow> holds w c \<Longrightarrow> conn_next w c = Some (pc, px, n, evs) \<Longrightarrow> holds (w\<lparr>wd_proxy := px\<rparr>) (c\<lparr>cn_pc := pc\<rparr>)"
    and frame: "holds w c \<Longrightarrow> same_core (wd_proxy w) (wd_proxy w') \<Longrightarrow> wd_changes w' = wd_changes w \<Longrightarrow>
      wd_policies w' = wd_policies w \<Longrightarrow> wd_modes w' = wd_modes w \<Longrightarrow> holds w' c"
    and gone: "holds w c \<Longrightarrow> holds w (c\<lparr>cn_pc := Gone\<rparr>)"
    and updates: "holds w c \<Longrightarrow> holds (w\<lparr>wd_changes := wd_changes w @ [ch]\<rparr>) c"
    and changes: "holds w c \<Longrightarrow> i < length (wd_changes w) \<Longrightarrow> holds (change_move w i) c"
    and drops: "holds w c \<Longrightarrow> holds (w\<lparr>wd_proxy := (wd_proxy w)\<lparr>px_open := False\<rparr>\<rparr>) c"
begin

lemma same: "holds w c \<Longrightarrow> wd_proxy w' = wd_proxy w \<Longrightarrow> wd_changes w' = wd_changes w \<Longrightarrow>
    wd_policies w' = wd_policies w \<Longrightarrow> wd_modes w' = wd_modes w \<Longrightarrow> holds w' c"
  by (rule frame) simp_all

lemma step_keeps:
  assumes "\<forall>c \<in> set (wd_conns w). holds w c" "egress_step w w'" "sound w"
  shows "\<forall>c \<in> set (wd_conns w'). holds w' c"
  using assms(2,1)
proof cases
  case (arrives t host port)
  have "holds w' c" if "c \<in> set (wd_conns w)" for c
    using bspec [OF assms(1) that] by (rule same) (simp_all add: arrives(1))
  then show ?thesis
    using conn_invariant.arrives [OF conn_invariant_axioms assms(3), of host port] by (auto simp: arrives(1))
next
  case (moves i)
  then obtain pc px n evs where nxt: "i < length (wd_conns w)" "conn_next w (wd_conns w ! i) = Some (pc, px, n, evs)"
    and w': "w' = set_pc i pc (w\<lparr>wd_proxy := px, wd_next_id := n, wd_events := wd_events w @ evs\<rparr>)"
    by (elim conn_moveE)
  have "holds w' c" if "c \<in> set (wd_conns w')" for c
  proof -
    from that nxt(1) consider "c = (wd_conns w ! i)\<lparr>cn_pc := pc\<rparr>" | "c \<in> set (wd_conns w)"
      by (auto simp: w' dest!: set_update_subset_insert [THEN subsetD])
    then show ?thesis
    proof cases
      case 1
      have "holds (w\<lparr>wd_proxy := px\<rparr>) c" unfolding 1 using assms(1,3) nxt by (intro own) auto
      then show ?thesis by (rule same) (simp_all add: w')
    next
      case 2
      with assms(1) have "holds w c" by blast
      then show ?thesis by (rule frame) (use next_core [OF nxt(2)] in \<open>simp_all add: w'\<close>)
    qed
  qed
  then show ?thesis by blast
next
  case (tunnel_ends i a evs message up down)
  have "holds w' c" if "c \<in> set (wd_conns w')" for c
  proof -
    have "holds w (wd_conns w ! i)" using assms(1) tunnel_ends(2) by simp
    moreover from that have "c = (wd_conns w ! i)\<lparr>cn_pc := Gone\<rparr> \<or> c \<in> set (wd_conns w)"
      by (auto simp: tunnel_ends(1) dest!: set_update_subset_insert [THEN subsetD])
    ultimately have "holds w c" using gone assms(1) by blast
    then show ?thesis by (rule same) (simp_all add: tunnel_ends(1))
  qed
  then show ?thesis by blast
next
  case (changes i)
  then show ?thesis using assms(1) conn_invariant.changes [OF conn_invariant_axioms] by (auto simp: change_move_fields)
next
  case (time k)
  have "holds w' c" if "c \<in> set (wd_conns w)" for c
    using bspec [OF assms(1) that] by (rule same) (simp_all add: time)
  then show ?thesis by (simp add: time)
next
  case (ids_taken k)
  have "holds w' c" if "c \<in> set (wd_conns w)" for c
    using bspec [OF assms(1) that] by (rule same) (simp_all add: ids_taken)
  then show ?thesis by (simp add: ids_taken)
qed (use assms(1) updates drops in auto)

lemma reach_holds: "egress_reach w \<Longrightarrow> sound w \<and> (\<forall>c \<in> set (wd_conns w). holds w c)"
proof (induction rule: egress_reach.induct)
  case (first pol m timeout next_id now)
  then show ?case using start by (simp add: proxy_start_def)
qed (use step_keeps sound_step in blast)

end

section \<open>No change is missed\<close>

text \<open>A change is on its way to a connection that saw generation \<open>g\<close>: written and not yet counted, or counted since.\<close>

definition written :: "change \<Rightarrow> bool" where
  "written ch = (case ch of Bump \<Rightarrow> True | SetMode _ \<Rightarrow> True | _ \<Rightarrow> False)"

definition stale :: "egress_world \<Rightarrow> nat \<Rightarrow> bool" where
  "stale w g \<longleftrightarrow> g \<noteq> px_generation (wd_proxy w) \<or> list_ex written (wd_changes w)"

definition aware :: "egress_world \<Rightarrow> conn \<Rightarrow> bool" where
  "aware w c =
     (let px = wd_proxy w; denied = policy_check (px_policy px) (cn_host c) (cn_port c) = Inl DenyHost
      in case cn_pc c of
           Joining g \<Rightarrow> g \<le> px_generation px
         | Announcing g j \<Rightarrow> g \<le> px_generation px
         | Checking r g j \<Rightarrow> g \<le> px_generation px \<and>
             (stale w g \<or> (r \<noteq> RdPolicy \<longrightarrow> denied) \<and> (r = RdMode \<longrightarrow> cn_host c \<notin> px_declined px))
         | Waiting g j \<Rightarrow> g \<le> px_generation px \<and> (stale w g \<or> eg_decide px (cn_host c) (cn_port c) = Hold)
         | _ \<Rightarrow> True)"

lemma eg_decide_core:
  assumes "same_core px px'"
  shows "eg_decide px' host port = eg_decide px host port"
  unfolding eg_decide_def same_coreD [OF assms] ..

lemma eg_decide_open [simp]: "eg_decide (px\<lparr>px_open := b\<rparr>) host port = eg_decide px host port"
  by (auto simp: eg_decide_def split: sum.split denial.split)

lemma aware_frame:
  assumes "aware w c" "same_core (wd_proxy w) (wd_proxy w')" "wd_changes w' = wd_changes w"
  shows "aware w' c"
  using assms(1,3)
  by (cases "cn_pc c") (simp_all add: aware_def stale_def Let_def eg_decide_core [OF assms(2)] same_coreD [OF assms(2)])

lemma aware_own:
  assumes "aware w c" "conn_next w c = Some (pc, px, n, evs)"
  shows "aware (w\<lparr>wd_proxy := px\<rparr>) (c\<lparr>cn_pc := pc\<rparr>)"
proof -
  note core = same_coreD [OF next_core [OF assms(2)]] eg_decide_core [OF next_core [OF assms(2)]]
  show ?thesis
  proof (cases "cn_pc c")
    case (Checking r g j)
    with assms core show ?thesis
      by (cases r) (auto simp: conn_next_def aware_def stale_def Let_def read_step_def eg_decide_def
          split: sum.splits denial.splits eg_verdict.splits if_splits)
  qed (use assms core in \<open>auto simp: conn_next_def aware_def stale_def Let_def after_hold_def
      split: option.splits sum.splits eg_verdict.splits prod.splits if_splits\<close>)
qed

lemma aware_change:
  assumes "aware w c" "i < length (wd_changes w)"
  shows "aware (change_move w i) c"
proof -
  have put: "list_ex written ((wd_changes w)[i := ch])" if "written ch" for ch
    using set_update_memI [OF assms(2), of ch] that by (auto simp: list_ex_iff)
  have after: "list_ex written (wd_changes (change_move w i))" if "wd_changes w ! i \<noteq> Bump"
    using that by (cases "wd_changes w ! i") (simp_all add: change_move_def Let_def put written_def)
  show ?thesis
  proof (cases "wd_changes w ! i = Bump")
    case True
    with assms(1) show ?thesis
      by (cases "cn_pc c") (auto simp: aware_def stale_def change_move_def Let_def)
  next
    case False
    then have "px_generation (wd_proxy (change_move w i)) = px_generation (wd_proxy w)"
      by (cases "wd_changes w ! i") (simp_all add: change_move_def Let_def)
    with assms(1) after [OF False] show ?thesis
      by (cases "cn_pc c") (simp_all add: aware_def stale_def Let_def)
  qed
qed

interpretation wakes: conn_invariant "\<lambda>_. True" aware
proof
  fix w w' :: egress_world and c host port pc px n evs i ch
  show "aware (w\<lparr>wd_conns := wd_conns w @ [arrival host port w]\<rparr>) (arrival host port w)"
    by (simp add: aware_def arrival_def)
  show "aware w c \<Longrightarrow> aware w (c\<lparr>cn_pc := Gone\<rparr>)" by (simp add: aware_def)
  show "aware w c \<Longrightarrow> aware (w\<lparr>wd_changes := wd_changes w @ [ch]\<rparr>) c"
    by (cases "cn_pc c") (auto simp: aware_def stale_def Let_def)
  show "aware w c \<Longrightarrow> aware (w\<lparr>wd_proxy := (wd_proxy w)\<lparr>px_open := False\<rparr>\<rparr>) c"
    by (cases "cn_pc c") (simp_all add: aware_def stale_def Let_def)
qed (blast intro: aware_own aware_frame aware_change)+

text \<open>
  Claim C22. No change is missed by a connection that waits: in every interleaving, a held connection
  that has seen the current generation, with no change written and still to be counted, is one the
  proxy would hold now: its host is not listed, not declined, not quiet, and the mode is to hold. So
  whatever would admit or refuse it wakes it, even when it lands between its decision and its wait, or
  between two of the reads of a decision.
\<close>

theorem no_change_missed:
  assumes "egress_reach w" "c \<in> set (wd_conns w)" "cn_pc c = Waiting (px_generation (wd_proxy w)) j"
    and "\<forall>ch \<in> set (wd_changes w). \<not> written ch"
  shows "eg_decide (wd_proxy w) (cn_host c) (cn_port c) = Hold"
  using wakes.reach_holds [OF assms(1)] assms(2-) by (auto simp: aware_def stale_def Let_def list_ex_iff)

section \<open>What a tunnel was admitted by\<close>

definition policies_since :: "egress_world \<Rightarrow> conn \<Rightarrow> egress_policy set" where
  "policies_since w c = set (drop (cn_pol0 c) (wd_policies w))"

definition modes_since :: "egress_world \<Rightarrow> conn \<Rightarrow> proxy_mode set" where
  "modes_since w c = set (drop (cn_mode0 c) (wd_modes w))"

definition unlisted_by :: "egress_world \<Rightarrow> conn \<Rightarrow> bool" where
  "unlisted_by w c \<longleftrightarrow> (\<exists>pol \<in> policies_since w c. policy_check pol (cn_host c) (cn_port c) = Inl DenyHost)"

definition admitted_by :: "egress_world \<Rightarrow> conn \<Rightarrow> eg_admission \<Rightarrow> bool" where
  "admitted_by w c a =
     (case a of
        AdListed \<Rightarrow> \<exists>pol \<in> policies_since w c. policy_check pol (cn_host c) (cn_port c) = Inr ()
      | AdOpen \<Rightarrow> unlisted_by w c \<and> \<not> cn_declined0 c \<and> MdOpen \<in> modes_since w c
      | AdOverride \<Rightarrow> unlisted_by w c \<and> \<not> cn_declined0 c \<and> MdOverride \<in> modes_since w c)"

text \<open>The history fits the state, and each place in the program has what its decision has read so far.\<close>

definition read_so_far :: "egress_world \<Rightarrow> conn \<Rightarrow> reading \<Rightarrow> bool" where
  "read_so_far w c r \<longleftrightarrow> (r \<noteq> RdPolicy \<longrightarrow> unlisted_by w c) \<and> (r = RdMode \<longrightarrow> \<not> cn_declined0 c)"

definition history_ok :: "egress_world \<Rightarrow> bool" where
  "history_ok w \<longleftrightarrow>
     wd_policies w \<noteq> [] \<and> last (wd_policies w) = px_policy (wd_proxy w) \<and>
     wd_modes w \<noteq> [] \<and> last (wd_modes w) = px_mode (wd_proxy w)"

definition pc_justified :: "egress_world \<Rightarrow> conn \<Rightarrow> conn_pc \<Rightarrow> bool" where
  "pc_justified w c pc \<longleftrightarrow>
     (case pc of
        Deciding r \<Rightarrow> read_so_far w c r
      | Checking r _ _ \<Rightarrow> read_so_far w c r
      | Leaving _ (Some a) \<Rightarrow> admitted_by w c a
      | Ending _ _ (Some a) \<Rightarrow> admitted_by w c a
      | Tunnel a \<Rightarrow> admitted_by w c a
      | _ \<Rightarrow> True)"

definition justified :: "egress_world \<Rightarrow> conn \<Rightarrow> bool" where
  "justified w c \<longleftrightarrow>
     cn_pol0 c < length (wd_policies w) \<and> cn_mode0 c < length (wd_modes w) \<and>
     (cn_declined0 c \<longrightarrow> cn_host c \<in> px_declined (wd_proxy w)) \<and>
     pc_justified w c (cn_pc c)"

lemma history_step:
  assumes "history_ok w" "egress_step w w'"
  shows "history_ok w'"
  using assms(2,1)
proof cases
  case (moves i)
  then show ?thesis using assms(1) by (elim conn_moveE) (simp add: history_ok_def same_coreD [OF next_core])
next
  case (changes i)
  then show ?thesis using assms(1) by (cases "wd_changes w ! i") (simp_all add: history_ok_def change_move_def Let_def)
qed (auto simp: history_ok_def)

lemma last_since: "n < length xs \<Longrightarrow> last xs \<in> set (drop n xs)"
  by (metis drop_eq_Nil2 last_drop last_in_set leD)

lemma admitted_mono:
  assumes "admitted_by w c a" "policies_since w c \<subseteq> policies_since w' c'" "modes_since w c \<subseteq> modes_since w' c'"
    "cn_host c' = cn_host c" "cn_port c' = cn_port c" "cn_declined0 c' = cn_declined0 c"
  shows "admitted_by w' c' a"
  using assms by (cases a) (auto simp: admitted_by_def unlisted_by_def)

lemma read_mono:
  assumes "read_so_far w c r" "policies_since w c \<subseteq> policies_since w' c'"
    "cn_host c' = cn_host c" "cn_port c' = cn_port c" "cn_declined0 c' = cn_declined0 c"
  shows "read_so_far w' c' r"
  using assms by (auto simp: read_so_far_def unlisted_by_def)

lemma justified_mono:
  assumes "justified w c" "policies_since w c \<subseteq> policies_since w' c" "modes_since w c \<subseteq> modes_since w' c"
    "length (wd_policies w) \<le> length (wd_policies w')" "length (wd_modes w) \<le> length (wd_modes w')"
    "px_declined (wd_proxy w) \<subseteq> px_declined (wd_proxy w')"
  shows "justified w' c"
proof -
  note mono = admitted_mono [where c = c and c' = c, OF _ assms(2,3) refl refl refl]
    read_mono [where c = c and c' = c, OF _ assms(2) refl refl refl]
  show ?thesis
    using assms(1,4,5,6) mono by (cases "cn_pc c") (auto simp: justified_def pc_justified_def split: option.splits)
qed

lemma since_update [simp]:
  "admitted_by (w\<lparr>wd_proxy := px\<rparr>) (c\<lparr>cn_pc := pc\<rparr>) a = admitted_by w c a"
  "read_so_far (w\<lparr>wd_proxy := px\<rparr>) (c\<lparr>cn_pc := pc\<rparr>) r = read_so_far w c r"
  by (cases a; simp add: admitted_by_def read_so_far_def unlisted_by_def policies_since_def modes_since_def)+

lemma pc_justified_update [simp]:
  "pc_justified (w\<lparr>wd_proxy := px\<rparr>) (c\<lparr>cn_pc := pc\<rparr>) q = pc_justified w c q"
  by (cases q) (auto simp: pc_justified_def split: option.split)

lemma read_so_far_start [simp]: "read_so_far w c RdPolicy"
  by (simp add: read_so_far_def)

lemma read_step_justified:
  assumes "history_ok w" "justified w c" "read_so_far w c r"
  shows "case read_step (wd_proxy w) (cn_host c) (cn_port c) r of
      Inl r' \<Rightarrow> read_so_far w c r'
    | Inr (Admit a) \<Rightarrow> admitted_by w c a
    | Inr _ \<Rightarrow> True"
proof -
  have pol: "px_policy (wd_proxy w) \<in> policies_since w c"
    using assms(1,2) last_since [of "cn_pol0 c" "wd_policies w"] by (simp add: history_ok_def justified_def policies_since_def)
  have mode: "px_mode (wd_proxy w) \<in> modes_since w c"
    using assms(1,2) last_since [of "cn_mode0 c" "wd_modes w"] by (simp add: history_ok_def justified_def modes_since_def)
  show ?thesis
  proof (cases r)
    case RdPolicy
    then show ?thesis
      using pol by (auto simp: read_step_def admitted_by_def read_so_far_def unlisted_by_def split: sum.split denial.split)
  next
    case RdDeclined
    with assms(2,3) show ?thesis by (auto simp: read_step_def read_so_far_def justified_def)
  next
    case RdMode
    with assms(3) mode show ?thesis
      by (cases "px_mode (wd_proxy w)") (auto simp: read_step_def mode_verdict_def read_so_far_def admitted_by_def)
  qed
qed

lemma justified_own:
  assumes "history_ok w" "justified w c" "conn_next w c = Some (pc, px, n, evs)"
  shows "justified (w\<lparr>wd_proxy := px\<rparr>) (c\<lparr>cn_pc := pc\<rparr>)"
proof -
  note core = same_coreD [OF next_core [OF assms(3)]]
  have keeps: "justified (w\<lparr>wd_proxy := px\<rparr>) (c\<lparr>cn_pc := pc\<rparr>) \<longleftrightarrow> pc_justified w c pc"
    using assms(2) core by (simp add: justified_def)
  note step = read_step_justified [OF assms(1,2)]
  from assms(2) have here: "pc_justified w c (cn_pc c)" by (simp add: justified_def)
  show ?thesis unfolding keeps
  proof (cases "cn_pc c")
    case (Deciding r)
    with here have "read_so_far w c r" by (simp add: pc_justified_def)
    from step [OF this] Deciding assms(3) show "pc_justified w c pc"
      by (auto simp: conn_next_def Let_def pc_justified_def split: sum.splits eg_verdict.splits)
  next
    case (Checking r g j)
    with here have "read_so_far w c r" by (simp add: pc_justified_def)
    from step [OF this] Checking assms(3) show "pc_justified w c pc"
      by (auto simp: conn_next_def Let_def pc_justified_def split: sum.splits eg_verdict.splits)
  qed (use here assms(3) in \<open>auto simp: conn_next_def Let_def after_hold_def pc_justified_def
      split: option.splits prod.splits if_splits\<close>)
qed

lemma justified_change:
  assumes "justified w c"
  shows "justified (change_move w i) c"
  by (rule justified_mono [OF assms], cases "wd_changes w ! i")
    (auto simp: change_move_def Let_def policies_since_def modes_since_def split: change.split)

interpretation admits: conn_invariant history_ok justified
proof
  fix w w' :: egress_world and c pc px n evs host port i ch pol m timeout next_id now
  show "history_ok (proxy_start pol m timeout next_id now)" by (simp add: history_ok_def proxy_start_def)
  show "history_ok w \<Longrightarrow> egress_step w w' \<Longrightarrow> history_ok w'" by (rule history_step)
  show "history_ok w \<Longrightarrow> justified (w\<lparr>wd_conns := wd_conns w @ [arrival host port w]\<rparr>) (arrival host port w)"
    by (cases "wd_policies w"; cases "wd_modes w") (simp_all add: history_ok_def justified_def pc_justified_def arrival_def)
  show "history_ok w \<Longrightarrow> justified w c \<Longrightarrow> conn_next w c = Some (pc, px, n, evs) \<Longrightarrow>
      justified (w\<lparr>wd_proxy := px\<rparr>) (c\<lparr>cn_pc := pc\<rparr>)" by (rule justified_own)
  show "justified w c \<Longrightarrow> same_core (wd_proxy w) (wd_proxy w') \<Longrightarrow> wd_changes w' = wd_changes w \<Longrightarrow>
      wd_policies w' = wd_policies w \<Longrightarrow> wd_modes w' = wd_modes w \<Longrightarrow> justified w' c"
    by (erule justified_mono) (simp_all add: policies_since_def modes_since_def same_coreD)
  show "justified w c \<Longrightarrow> justified w (c\<lparr>cn_pc := Gone\<rparr>)" by (simp add: justified_def pc_justified_def)
  show "justified w c \<Longrightarrow> justified (w\<lparr>wd_changes := wd_changes w @ [ch]\<rparr>) c"
    "justified w c \<Longrightarrow> justified (w\<lparr>wd_proxy := (wd_proxy w)\<lparr>px_open := False\<rparr>\<rparr>) c"
    by (erule justified_mono; simp add: policies_since_def modes_since_def)+
qed (auto intro: justified_change)

text \<open>
  Claim C21. A tunnel is opened only by the list, or by the network being open on a host nobody declined:
  in every interleaving, a host that is let through as listed was admitted, host and port, by a policy
  in force since its connection arrived; one let through otherwise was off the list of such a policy
  with its port allowed, was not declined when it arrived, and the mode since was the one named.
\<close>

theorem tunnel_admitted:
  assumes "egress_reach w" "c \<in> set (wd_conns w)" "cn_pc c = Tunnel a"
  shows "admitted_by w c a"
proof -
  from admits.reach_holds [OF assms(1)] assms(2) have "justified w c" by blast
  with assms(3) show ?thesis by (simp add: justified_def pc_justified_def)
qed

end
