(* ===== verification/Project_File.thy ===== *)
theory Project_File
  imports Egress_Policy
begin

text \<open>
  A project's own settings file, read and edited (\<open>project_file/file.rs\<close>): JSON with comments made
  JSON, the two lists of host patterns it may hold, the edit the app writes, and the refusal to read
  a repository inside an agent's workspace. The JSON library is a record of its parser and printers.
\<close>

section \<open>JSON\<close>

text \<open>\<open>serde_json::Value\<close>: an object is the list of its members in key order, a number its text.\<close>

datatype json = JNull | JBool bool | JNumber string | JString string | JArray "json list" | JObject "(string \<times> json) list"

record serde =
  from_text :: "string \<Rightarrow> string + json"
  to_compact :: "json \<Rightarrow> string"
  to_pretty :: "json \<Rightarrow> string"

fun json_str :: "json \<Rightarrow> string option" where
  "json_str (JString s) = Some s"
| "json_str _ = None"

text \<open>Every \<open>contains\<close>-then-\<open>push\<close> of the lists of patterns.\<close>

definition push_new :: "'a \<Rightarrow> 'a list \<Rightarrow> 'a list" where
  "push_new x xs = (if x \<in> set xs then xs else xs @ [x])"

definition push_all :: "'a list \<Rightarrow> 'a list \<Rightarrow> 'a list" where
  "push_all ys xs = foldl (\<lambda>xs y. push_new y xs) xs ys"

lemma set_push_new [simp]: "set (push_new x xs) = insert x (set xs)"
  by (auto simp: push_new_def)

lemma distinct_push_new [simp]: "distinct (push_new x xs) = distinct xs"
  by (simp add: push_new_def)

lemma push_all_Nil [simp]: "push_all [] xs = xs"
  by (simp add: push_all_def)

lemma push_all_Cons [simp]: "push_all (y # ys) xs = push_all ys (push_new y xs)"
  by (simp add: push_all_def)

lemma set_push_all [simp]: "set (push_all ys xs) = set xs \<union> set ys"
  by (induction ys arbitrary: xs) auto

lemma distinct_push_all [simp]: "distinct (push_all ys xs) = distinct xs"
  by (induction ys arbitrary: xs) auto

section \<open>Comments and trailing commas\<close>

definition backslash_char :: string where "backslash_char = [CHR 0x5C]"

text \<open>Where the scan is: outside strings, inside one, or inside a comment.\<close>

datatype jsonc_at = AtCode | AtString | AtLine | AtBlock

text \<open>
  \<open>closes_next\<close>, over the characters from \<open>from\<close> on. The line feed that ends a comment is white space
  and is skipped with it.
\<close>

fun closes_next :: "jsonc_at \<Rightarrow> string list \<Rightarrow> bool" where
  "closes_next at [] = False"
| "closes_next AtLine (c # cs) = (if c = nl then closes_next AtCode cs else closes_next AtLine cs)"
| "closes_next AtBlock (c # cs) =
     (case cs of
        d # ds \<Rightarrow> if c = ''*'' \<and> d = ''/'' then closes_next AtCode ds else closes_next AtBlock cs
      | [] \<Rightarrow> False)"
| "closes_next AtCode (c # cs) =
     (if is_whitespace c then closes_next AtCode cs
      else (case cs of
              d # ds \<Rightarrow>
                if c = ''/'' \<and> d = ''/'' then closes_next AtLine cs
                else if c = ''/'' \<and> d = ''*'' then closes_next AtBlock ds
                else c = ''}'' \<or> c = '']''
            | [] \<Rightarrow> c = ''}'' \<or> c = '']''))"
| "closes_next AtString (c # cs) = False"

text \<open>\<open>strip_jsonc\<close>: what is not JSON becomes spaces, line feeds stay.\<close>

fun strip_chars :: "jsonc_at \<Rightarrow> string list \<Rightarrow> string list" where
  "strip_chars at [] = []"
| "strip_chars AtString (c # cs) =
     (if c = backslash_char then (case cs of d # ds \<Rightarrow> c # d # strip_chars AtString ds | [] \<Rightarrow> [c])
      else c # strip_chars (if c = dquote then AtCode else AtString) cs)"
| "strip_chars AtLine (c # cs) = (if c = nl then c # strip_chars AtCode cs else '' '' # strip_chars AtLine cs)"
| "strip_chars AtBlock (c # cs) =
     (case cs of
        d # ds \<Rightarrow>
          if c = ''*'' \<and> d = ''/'' then '' '' # '' '' # strip_chars AtCode ds
          else (if c = nl then nl else '' '') # strip_chars AtBlock cs
      | [] \<Rightarrow> [if c = nl then nl else '' ''])"
| "strip_chars AtCode (c # cs) =
     (if c = dquote then c # strip_chars AtString cs
      else (case cs of
              d # ds \<Rightarrow>
                if c = ''/'' \<and> d = ''/'' then '' '' # strip_chars AtLine cs
                else if c = ''/'' \<and> d = ''*'' then '' '' # '' '' # strip_chars AtBlock ds
                else (if c = '','' \<and> closes_next AtCode cs then '' '' else c) # strip_chars AtCode cs
            | [] \<Rightarrow> [if c = '','' \<and> closes_next AtCode cs then '' '' else c]))"

definition strip_jsonc :: "string \<Rightarrow> string" where
  "strip_jsonc text = concat (strip_chars AtCode (utf8_chars text))"

fun comment_ahead :: "bool \<Rightarrow> string list \<Rightarrow> bool" where
  "comment_ahead in_string [] = False"
| "comment_ahead True (c # cs) =
     (if c = backslash_char then (case cs of d # ds \<Rightarrow> comment_ahead True ds | [] \<Rightarrow> False)
      else comment_ahead (c \<noteq> dquote) cs)"
| "comment_ahead False (c # cs) =
     (if c = dquote then comment_ahead True cs
      else if c = ''/'' \<and> cs \<noteq> [] \<and> (hd cs = ''/'' \<or> hd cs = ''*'') then True
      else comment_ahead False cs)"

definition has_comments :: "string \<Rightarrow> bool" where
  "has_comments text \<longleftrightarrow> comment_ahead False (utf8_chars text)"

section \<open>What a file asks for\<close>

record parsed_file =
  pf_allow :: "string list"
  pf_disable :: "string list"
  pf_warnings :: "string list"

definition parsed_default :: parsed_file where
  "parsed_default = \<lparr>pf_allow = [], pf_disable = [], pf_warnings = []\<rparr>"

definition warn :: "string \<Rightarrow> parsed_file \<Rightarrow> parsed_file" where
  "warn w p = p\<lparr>pf_warnings := pf_warnings p @ [w]\<rparr>"

definition allow_key :: string where "allow_key = ''allow''"
definition disable_key :: string where "disable_key = ''disable''"
definition egress_key :: string where "egress_key = ''egress''"

definition parse_item :: "serde \<Rightarrow> unicode \<Rightarrow> string \<Rightarrow> json \<Rightarrow> parsed_file \<Rightarrow> parsed_file" where
  "parse_item J U key item p =
     (case item of
        JString raw \<Rightarrow>
          (case parse_pattern raw of
             Inr pattern \<Rightarrow>
               if key = allow_key then p\<lparr>pf_allow := push_new (show_pattern pattern) (pf_allow p)\<rparr>
               else p\<lparr>pf_disable := push_new (show_pattern pattern) (pf_disable p)\<rparr>
           | Inl e \<Rightarrow> warn (in_ticks (''egress.'' @ key) @ '': '' @ pattern_error U e) p)
      | _ \<Rightarrow> warn (in_ticks (''egress.'' @ key) @ '': '' @ to_compact J item @ '' is not a string'') p)"

definition parse_member :: "serde \<Rightarrow> unicode \<Rightarrow> string \<times> json \<Rightarrow> parsed_file \<Rightarrow> parsed_file" where
  "parse_member J U m p =
     (if fst m \<noteq> allow_key \<and> fst m \<noteq> disable_key then warn (''unknown setting '' @ in_ticks (''egress.'' @ fst m)) p
      else (case snd m of
              JArray items \<Rightarrow> fold (parse_item J U (fst m)) items p
            | _ \<Rightarrow> warn (in_ticks (''egress.'' @ fst m) @ '' must be a list of host patterns'') p))"

definition parse_egress :: "serde \<Rightarrow> unicode \<Rightarrow> json \<Rightarrow> parsed_file \<Rightarrow> parsed_file" where
  "parse_egress J U v p =
     (case v of JObject ms \<Rightarrow> fold (parse_member J U) ms p | _ \<Rightarrow> warn (in_ticks egress_key @ '' must be an object'') p)"

definition parse_top :: "serde \<Rightarrow> unicode \<Rightarrow> string \<times> json \<Rightarrow> parsed_file \<Rightarrow> parsed_file" where
  "parse_top J U m p =
     (if fst m = ''$schema'' then p
      else if fst m = egress_key then parse_egress J U (snd m) p
      else warn (''unknown setting '' @ in_ticks (fst m)) p)"

definition parse_file :: "serde \<Rightarrow> unicode \<Rightarrow> string \<Rightarrow> string + parsed_file" where
  "parse_file J U text =
     (case from_text J (strip_jsonc text) of
        Inl e \<Rightarrow> Inl (''not valid JSON: '' @ e)
      | Inr (JObject ms) \<Rightarrow> Inr (fold (parse_top J U) ms parsed_default)
      | Inr _ \<Rightarrow> Inl ''the file must hold a JSON object'')"

section \<open>The edit the app writes\<close>

datatype which_file = Shared | Local

definition settings_dir :: string where "settings_dir = ''.fletch''"

fun file_name :: "which_file \<Rightarrow> string" where
  "file_name Shared = ''settings.json''"
| "file_name Local = ''settings.local.json''"

record file_edit =
  ed_allow_add :: "string list"
  ed_allow_remove :: "string list"
  ed_disable_add :: "string list"
  ed_disable_remove :: "string list"

definition spell :: "unicode \<Rightarrow> string \<Rightarrow> string + string" where
  "spell U raw = (case parse_pattern raw of Inl e \<Rightarrow> Inl (pattern_error U e) | Inr p \<Rightarrow> Inr (show_pattern p))"

fun edit_removes :: "unicode \<Rightarrow> string list \<Rightarrow> string list \<Rightarrow> string + string list" where
  "edit_removes U [] l = Inr l"
| "edit_removes U (raw # rest) l =
     (case spell U raw of
        Inl e \<Rightarrow> Inl e
      | Inr sp \<Rightarrow>
          edit_removes U rest
            (filter (\<lambda>p. case parse_pattern p of Inr q \<Rightarrow> show_pattern q \<noteq> sp | Inl _ \<Rightarrow> True) l))"

fun edit_adds :: "unicode \<Rightarrow> string list \<Rightarrow> string list \<Rightarrow> string + string list" where
  "edit_adds U [] l = Inr l"
| "edit_adds U (raw # rest) l =
     (case spell U raw of Inl e \<Rightarrow> Inl e | Inr sp \<Rightarrow> edit_adds U rest (push_new sp l))"

definition drop_key :: "string \<Rightarrow> (string \<times> json) list \<Rightarrow> (string \<times> json) list" where
  "drop_key k ms = filter (\<lambda>m. fst m \<noteq> k) ms"

definition edit_list ::
  "unicode \<Rightarrow> string \<Rightarrow> string list \<Rightarrow> string list \<Rightarrow> (string \<times> json) list \<Rightarrow> string + (string \<times> json) list" where
  "edit_list U key remove add egress =
     (case (case map_of egress key of
              Some (JArray items) \<Rightarrow> Inr (List.map_filter json_str items)
            | Some _ \<Rightarrow> Inl (in_ticks (''egress.'' @ key) @ '' must be a list'')
            | None \<Rightarrow> Inr []) of
        Inl e \<Rightarrow> Inl e
      | Inr l \<Rightarrow>
          (case edit_removes U remove l of
             Inl e \<Rightarrow> Inl e
           | Inr l \<Rightarrow>
               (case edit_adds U add l of
                  Inl e \<Rightarrow> Inl e
                | Inr l \<Rightarrow>
                    Inr (if l = [] then drop_key key egress
                         else btree_insert key (JArray (map JString l)) (drop_key key egress)))))"

definition edit_text :: "serde \<Rightarrow> unicode \<Rightarrow> string option \<Rightarrow> file_edit \<Rightarrow> string + string" where
  "edit_text J U text e =
     (let text = (case text of Some t \<Rightarrow> t | None \<Rightarrow> ''{}'')
      in if has_comments text
         then Inl ''this file has comments, which an edit from Fletch would drop; edit it by hand instead''
         else
           (case from_text J (strip_jsonc text) of
              Inl err \<Rightarrow> Inl (''not valid JSON: '' @ err)
            | Inr (JObject ms) \<Rightarrow>
                (case (case map_of ms egress_key of
                         Some (JObject egress) \<Rightarrow> Inr egress
                       | Some _ \<Rightarrow> Inl (in_ticks egress_key @ '' must be an object'')
                       | None \<Rightarrow> Inr []) of
                   Inl err \<Rightarrow> Inl err
                 | Inr egress \<Rightarrow>
                     (case edit_list U allow_key (ed_allow_remove e) (ed_allow_add e) egress of
                        Inl err \<Rightarrow> Inl err
                      | Inr egress \<Rightarrow>
                          (case edit_list U disable_key (ed_disable_remove e) (ed_disable_add e) egress of
                             Inl err \<Rightarrow> Inl err
                           | Inr egress \<Rightarrow>
                               Inr (to_pretty J
                                      (JObject (if egress = [] then drop_key egress_key ms
                                                else btree_insert egress_key (JObject egress) (drop_key egress_key ms)))
                                    @ nl))))
            | Inr _ \<Rightarrow> Inl ''the file must hold a JSON object''))"

section \<open>Reading both files\<close>

text \<open>
  The file system: a path's canonical components, its metadata (\<open>Inl None\<close> where nothing is there;
  else whether it is a file, and its length), its modification time, its text, and why a write to it
  fails.
\<close>

record file_system =
  fs_canonical :: "string \<Rightarrow> string list"
  fs_metadata :: "string \<Rightarrow> string option + bool \<times> nat"
  fs_modified :: "string \<Rightarrow> nat option"
  fs_read :: "string \<Rightarrow> string + string"
  fs_refuses :: "string \<Rightarrow> string option"

definition max_file_bytes :: nat where "max_file_bytes = 256 * 1024"

record file_report =
  fr_path :: string
  fr_exists :: bool
  fr_error :: "string option"
  fr_warnings :: "string list"
  fr_allow :: "string list"
  fr_disable :: "string list"

record files_read =
  rd_error :: "string option"
  rd_files :: "file_report list"
  rd_allow :: "string list"
  rd_disable :: "string list"

definition read_default :: files_read where
  "read_default = \<lparr>rd_error = None, rd_files = [], rd_allow = [], rd_disable = []\<rparr>"

definition file_path :: "string \<Rightarrow> which_file \<Rightarrow> string" where
  "file_path repo w = repo @ ''/'' @ settings_dir @ ''/'' @ file_name w"

definition read_one :: "serde \<Rightarrow> unicode \<Rightarrow> file_system \<Rightarrow> string \<Rightarrow> which_file \<Rightarrow> files_read \<Rightarrow> files_read" where
  "read_one J U F repo w read =
     (let path = file_path repo w;
          report = \<lparr>fr_path = settings_dir @ ''/'' @ file_name w, fr_exists = False, fr_error = None, fr_warnings = [],
                    fr_allow = [], fr_disable = []\<rparr>;
          failed = (\<lambda>e. read\<lparr>rd_files := rd_files read @ [report\<lparr>fr_exists := True, fr_error := Some e\<rparr>]\<rparr>)
      in case fs_metadata F path of
           Inl None \<Rightarrow> read\<lparr>rd_files := rd_files read @ [report]\<rparr>
         | Inl (Some e) \<Rightarrow> failed (''unreadable: '' @ e)
         | Inr (is_file, len) \<Rightarrow>
             if \<not> is_file then failed ''not a file''
             else if len > max_file_bytes then failed (show_nat len @ '' bytes is too large for a settings file'')
             else
               (case fs_read F path of
                  Inl e \<Rightarrow> failed (''unreadable: '' @ e)
                | Inr text \<Rightarrow>
                    (case parse_file J U text of
                       Inl e \<Rightarrow> failed e
                     | Inr p \<Rightarrow>
                         read\<lparr>rd_files := rd_files read @ [report\<lparr>fr_exists := True, fr_warnings := pf_warnings p,
                                fr_allow := pf_allow p, fr_disable := pf_disable p\<rparr>],
                              rd_allow := push_all (pf_allow p) (rd_allow read),
                              rd_disable := push_all (pf_disable p) (rd_disable read)\<rparr>)))"

definition read_files :: "serde \<Rightarrow> unicode \<Rightarrow> file_system \<Rightarrow> string \<Rightarrow> string option \<Rightarrow> files_read" where
  "read_files J U F repo agents_root =
     (if (case agents_root of Some root \<Rightarrow> prefix (fs_canonical F root) (fs_canonical F repo) | None \<Rightarrow> False)
      then read_default\<lparr>rd_error := Some (repo @
             '' is inside an agent's workspace; project settings are read only from your own repository'')\<rparr>
      else read_one J U F repo Local (read_one J U F repo Shared read_default))"

section \<open>The scan\<close>

lemma nl_not_special [simp]:
  "nl \<noteq> '' ''" "nl \<noteq> ''*''" "nl \<noteq> ''/''" "nl \<noteq> '',''" "'' '' \<noteq> nl" "''*'' \<noteq> nl" "''/'' \<noteq> nl" "'','' \<noteq> nl"
  by (simp_all add: nl_def)

text \<open>A character becomes a character, and a line feed is one exactly where one was.\<close>

lemma strip_keeps_lines: "map (\<lambda>c. c = nl) (strip_chars at cs) = map (\<lambda>c. c = nl) cs"
proof (induction at cs rule: strip_chars.induct)
  case (2 c cs)
  then show ?case by (cases cs) auto
next
  case (3 c cs)
  then show ?case by auto
next
  case (4 c cs)
  then show ?case by (cases cs) auto
next
  case (5 c cs)
  then show ?case by (cases cs) (auto split: if_splits)
qed simp

section \<open>The lists an edit leaves\<close>

definition read_patterns :: "string list \<Rightarrow> string set" where
  "read_patterns l = {show_pattern q |q raw. raw \<in> set l \<and> parse_pattern raw = Inr q}"

lemma read_patterns_simps [simp]:
  "read_patterns [] = {}"
  "read_patterns (raw # l) =
     (case parse_pattern raw of Inr q \<Rightarrow> insert (show_pattern q) (read_patterns l) | Inl _ \<Rightarrow> read_patterns l)"
  by (auto simp: read_patterns_def split: sum.splits)

lemma read_patterns_append [simp]: "read_patterns (l @ m) = read_patterns l \<union> read_patterns m"
  by (auto simp: read_patterns_def)

definition asked :: "string \<Rightarrow> parsed_file \<Rightarrow> string set" where
  "asked key p = set (if key = allow_key then pf_allow p else pf_disable p)"

definition list_keys :: "string set" where "list_keys = {allow_key, disable_key}"

lemma list_keys_differ [simp]: "allow_key \<noteq> disable_key" "disable_key \<noteq> allow_key"
  by (simp_all add: allow_key_def disable_key_def)

lemma asked_warn [simp]: "asked k (warn w p) = asked k p"
  by (simp add: asked_def warn_def)

lemma asked_item:
  "key \<in> list_keys \<Longrightarrow> k \<in> list_keys \<Longrightarrow>
     asked k (parse_item J U key item p) =
       asked k p \<union> (if k = key then read_patterns (List.map_filter json_str [item]) else {})"
  by (cases item) (auto simp: parse_item_def list_keys_def asked_def warn_def map_filter_def split: sum.split)

lemma asked_items:
  "key \<in> list_keys \<Longrightarrow> k \<in> list_keys \<Longrightarrow>
     asked k (fold (parse_item J U key) items p) =
       asked k p \<union> (if k = key then read_patterns (List.map_filter json_str items) else {})"
proof (induction items arbitrary: p)
  case (Cons item items)
  have "List.map_filter json_str (item # items) = List.map_filter json_str [item] @ List.map_filter json_str items"
    by (simp add: map_filter_def)
  with Cons show ?case by (auto simp: asked_item simp del: map_filter_simps)
qed (simp add: map_filter_def)

definition listed :: "string \<Rightarrow> (string \<times> json) list \<Rightarrow> string list" where
  "listed key ms = (case map_of ms key of Some (JArray items) \<Rightarrow> List.map_filter json_str items | _ \<Rightarrow> [])"

lemma asked_member:
  "k \<in> list_keys \<Longrightarrow> asked k (parse_member J U m p) = asked k p \<union> read_patterns (if fst m = k then listed k [m] else [])"
proof (cases "fst m \<in> list_keys")
  case True
  moreover assume "k \<in> list_keys"
  ultimately show ?thesis
    by (cases m; cases "snd m") (auto simp: parse_member_def listed_def asked_items list_keys_def)
qed (auto simp: parse_member_def list_keys_def)

lemma listed_Cons:
  assumes "fst m \<notin> fst ` set ms"
  shows "read_patterns (listed k (m # ms)) =
     read_patterns (if fst m = k then listed k [m] else []) \<union> read_patterns (listed k ms)"
proof (cases "fst m = k")
  case True
  with assms have "map_of ms k = None" by (simp add: map_of_eq_None_iff)
  with True show ?thesis by (cases m) (simp add: listed_def)
next
  case False
  then show ?thesis by (cases m) (simp add: listed_def)
qed

lemma asked_members:
  "distinct (map fst ms) \<Longrightarrow> k \<in> list_keys \<Longrightarrow>
     asked k (fold (parse_member J U) ms p) = asked k p \<union> read_patterns (listed k ms)"
proof (induction ms arbitrary: p)
  case (Cons m ms)
  then show ?case using listed_Cons [of m ms k] by (simp add: asked_member Un_assoc)
qed (simp add: listed_def)

definition egress_of :: "(string \<times> json) list \<Rightarrow> (string \<times> json) list" where
  "egress_of ms = (case map_of ms egress_key of Some (JObject egress) \<Rightarrow> egress | _ \<Rightarrow> [])"

lemma asked_top:
  assumes "distinct (map fst ms)" "\<And>es. (egress_key, JObject es) \<in> set ms \<Longrightarrow> distinct (map fst es)" "k \<in> list_keys"
  shows "asked k (fold (parse_top J U) ms p) = asked k p \<union> read_patterns (listed k (egress_of ms))"
  using assms
proof (induction ms arbitrary: p)
  case (Cons m ms)
  show ?case
  proof (cases "fst m = egress_key")
    case True
    with Cons.prems(1) have none: "map_of ms egress_key = None" by (simp add: map_of_eq_None_iff)
    then have rest: "egress_of ms = []" by (simp add: egress_of_def)
    have head: "egress_of (m # ms) = (case snd m of JObject es \<Rightarrow> es | _ \<Rightarrow> [])"
      using True by (cases m) (simp add: egress_of_def)
    have "asked k (parse_top J U m p) = asked k p \<union> read_patterns (listed k (egress_of (m # ms)))"
    proof (cases "snd m")
      case (JObject es)
      with True Cons.prems(2) [of es] have "distinct (map fst es)" by (cases m) auto
      with True JObject Cons.prems(3) head show ?thesis
        by (simp add: parse_top_def parse_egress_def asked_members egress_key_def)
    qed (use True head in \<open>simp_all add: parse_top_def parse_egress_def egress_key_def listed_def\<close>)
    with Cons rest show ?thesis by (simp add: listed_def)
  next
    case False
    then have "egress_of (m # ms) = egress_of ms" by (cases m) (simp add: egress_of_def)
    moreover have "asked k (parse_top J U m p) = asked k p" using False by (simp add: parse_top_def)
    ultimately show ?thesis using Cons by simp
  qed
qed (simp add: egress_of_def listed_def)

lemma asked_default [simp]: "asked k parsed_default = {}"
  by (simp add: asked_def parsed_default_def)

lemma parse_json_strings [simp]: "List.map_filter json_str (map JString l) = l"
  by (induction l) (simp_all add: map_filter_def)

lemma edit_removes_patterns:
  "edit_removes U rest l = Inr l' \<Longrightarrow> read_patterns l' = read_patterns l - read_patterns rest"
proof (induction rest arbitrary: l)
  case (Cons raw rest)
  then obtain q where q: "parse_pattern raw = Inr q" by (auto simp: spell_def split: sum.splits)
  define kept where
    "kept = filter (\<lambda>p. case parse_pattern p of Inr r \<Rightarrow> show_pattern r \<noteq> show_pattern q | Inl _ \<Rightarrow> True) l"
  from Cons.prems q have "edit_removes U rest kept = Inr l'" by (simp add: spell_def kept_def)
  then have "read_patterns l' = read_patterns kept - read_patterns rest" by (rule Cons.IH)
  moreover have "read_patterns kept = read_patterns l - {show_pattern q}"
    unfolding kept_def by (induction l) (auto split: sum.split)
  ultimately show ?case using q by auto
qed simp

lemma read_patterns_push_new: "read_patterns (push_new x l) = read_patterns l \<union> read_patterns [x]"
  by (auto simp: push_new_def read_patterns_def)

lemma edit_adds_patterns:
  "edit_adds U rest l = Inr l' \<Longrightarrow> read_patterns l' = read_patterns l \<union> read_patterns rest"
proof (induction rest arbitrary: l)
  case (Cons raw rest)
  then obtain q where q: "parse_pattern raw = Inr q" by (auto simp: spell_def split: sum.splits)
  with Cons show ?case
    using shown_parses [OF q] by (auto simp: spell_def read_patterns_push_new)
qed simp

lemma map_of_drop_key [simp]: "map_of (drop_key k ms) j = (if j = k then None else map_of ms j)"
  by (induction ms) (auto simp: drop_key_def)

lemma distinct_drop_key: "distinct (map fst ms) \<Longrightarrow> distinct (map fst (drop_key k ms))"
  by (simp add: drop_key_def distinct_map_filter)

lemma distinct_btree_insert:
  "distinct (map fst ms) \<Longrightarrow> k \<notin> fst ` set ms \<Longrightarrow> distinct (map fst (btree_insert k v ms))"
proof (induction ms)
  case (Cons m ms)
  then show ?case by (cases m) auto
qed simp

lemma drop_key_absent: "k \<notin> fst ` set (drop_key k ms)"
  by (auto simp: drop_key_def)

lemma edit_list_Inr:
  assumes "edit_list U key remove add ms = Inr ms'"
  obtains l1 l2 where "edit_removes U remove (listed key ms) = Inr l1" "edit_adds U add l1 = Inr l2"
    "ms' = (if l2 = [] then drop_key key ms else btree_insert key (JArray (map JString l2)) (drop_key key ms))"
  using assms unfolding edit_list_def listed_def
  by (cases "map_of ms key") (auto split: sum.splits json.splits)

lemma edit_list_patterns:
  assumes "edit_list U key remove add ms = Inr ms'"
  shows "read_patterns (listed key ms') = (read_patterns (listed key ms) - read_patterns remove) \<union> read_patterns add"
    and "j \<noteq> key \<Longrightarrow> map_of ms' j = map_of ms j"
    and "distinct (map fst ms) \<Longrightarrow> distinct (map fst ms')"
proof -
  from assms obtain l1 l2 where l: "edit_removes U remove (listed key ms) = Inr l1" "edit_adds U add l1 = Inr l2"
      "ms' = (if l2 = [] then drop_key key ms else btree_insert key (JArray (map JString l2)) (drop_key key ms))"
    by (rule edit_list_Inr)
  have "listed key ms' = l2" by (simp add: l(3) listed_def)
  then show "read_patterns (listed key ms') = (read_patterns (listed key ms) - read_patterns remove) \<union> read_patterns add"
    using edit_removes_patterns [OF l(1)] edit_adds_patterns [OF l(2)] by simp
  show "map_of ms' j = map_of ms j" if "j \<noteq> key" using that by (simp add: l(3))
  show "distinct (map fst ms')" if "distinct (map fst ms)"
    using that by (simp add: l(3) distinct_drop_key distinct_btree_insert drop_key_absent)
qed

end
