(* ===== verification/Project_Edit.thy ===== *)
theory Project_Edit
  imports Project_File
begin

text \<open>
  The app's edit of a settings file, from the text it reads to the text that is read again: JSON text is a
  fixed point of the scan that takes comments and trailing commas away (\<open>strip_jsonc\<close>), and the lists of
  the edited file are those the edit asked for.
\<close>

section \<open>JSON text\<close>

text \<open>
  What RFC 8259 calls JSON text, a little more generously: a scalar is a word of letters, digits, signs and
  dots, a string ends at the first quote that is not escaped. A text is the list of its characters.
\<close>

definition json_space :: "string \<Rightarrow> bool" where
  "json_space c \<longleftrightarrow> c \<in> {'' '', [CHR 0x0A], [CHR 0x0D], [CHR 0x09]}"

definition word_char :: "string \<Rightarrow> bool" where
  "word_char c \<longleftrightarrow> (\<exists>b. c = [b] \<and> (is_ascii_alphanumeric b \<or> b \<in> {CHR ''+'', CHR ''-'', CHR ''.''}))"

inductive str_body :: "string list \<Rightarrow> bool" where
  body_end: "str_body []"
| body_char: "c \<noteq> dquote \<Longrightarrow> c \<noteq> backslash_char \<Longrightarrow> str_body cs \<Longrightarrow> str_body (c # cs)"
| body_escape: "str_body cs \<Longrightarrow> str_body (backslash_char # c # cs)"

inductive json_value :: "string list \<Rightarrow> bool" and json_items :: "string list \<Rightarrow> bool" and json_members :: "string list \<Rightarrow> bool" where
  scalar: "w \<noteq> [] \<Longrightarrow> list_all word_char w \<Longrightarrow> json_value w"
| text_value: "str_body b \<Longrightarrow> json_value (dquote # b @ [dquote])"
| array_none: "list_all json_space u \<Longrightarrow> json_value (''['' # u @ ['']''])"
| array_some: "json_items xs \<Longrightarrow> json_value (''['' # xs @ ['']''])"
| object_none: "list_all json_space u \<Longrightarrow> json_value (''{'' # u @ [''}''])"
| object_some: "json_members ms \<Longrightarrow> json_value (''{'' # ms @ [''}''])"
| item_last: "list_all json_space u \<Longrightarrow> json_value v \<Longrightarrow> list_all json_space x \<Longrightarrow> json_items (u @ v @ x)"
| item_more: "list_all json_space u \<Longrightarrow> json_value v \<Longrightarrow> list_all json_space x \<Longrightarrow> json_items xs \<Longrightarrow>
    json_items (u @ v @ x @ '','' # xs)"
| member_last: "list_all json_space u \<Longrightarrow> str_body k \<Longrightarrow> list_all json_space x \<Longrightarrow> list_all json_space y \<Longrightarrow> json_value v \<Longrightarrow>
    list_all json_space z \<Longrightarrow> json_members (u @ dquote # k @ dquote # x @ '':'' # y @ v @ z)"
| member_more: "list_all json_space u \<Longrightarrow> str_body k \<Longrightarrow> list_all json_space x \<Longrightarrow> list_all json_space y \<Longrightarrow> json_value v \<Longrightarrow>
    list_all json_space z \<Longrightarrow> json_members ms \<Longrightarrow> json_members (u @ dquote # k @ dquote # x @ '':'' # y @ v @ z @ '','' # ms)"

section \<open>JSON text is not touched\<close>

lemma strip_plain: "c \<notin> {dquote, ''/'', '',''} \<Longrightarrow> strip_chars AtCode (c # cs) = c # strip_chars AtCode cs"
  by (cases cs) auto

lemma strip_comma: "\<not> closes_next AtCode cs \<Longrightarrow> strip_chars AtCode ('','' # cs) = '','' # strip_chars AtCode cs"
  by (cases cs) (auto simp: dquote_def)

lemma strip_body: "str_body b \<Longrightarrow> strip_chars AtString (b @ dquote # cs) = b @ dquote # strip_chars AtCode cs"
  by (induction rule: str_body.induct) (auto simp: dquote_def backslash_char_def)

lemma strip_text: "str_body b \<Longrightarrow> strip_chars AtCode (dquote # b @ dquote # cs) = dquote # b @ dquote # strip_chars AtCode cs"
  using strip_body [of b cs] by simp

lemma closes_space: "is_whitespace c \<Longrightarrow> closes_next AtCode (c # cs) = closes_next AtCode cs"
  by (cases cs) auto

declare strip_chars.simps [simp del] closes_next.simps [simp del]

lemma strip_plains: "list_all (\<lambda>c. c \<notin> {dquote, ''/'', '',''}) u \<Longrightarrow> strip_chars AtCode (u @ cs) = u @ strip_chars AtCode cs"
  by (induction u) (simp_all add: strip_plain)

lemma strip_spaces: "list_all json_space u \<Longrightarrow> strip_chars AtCode (u @ cs) = u @ strip_chars AtCode cs"
proof (rule strip_plains)
  assume "list_all json_space u"
  moreover have "c \<notin> {dquote, ''/'', '',''}" if "json_space c" for c using that by (auto simp: json_space_def dquote_def)
  ultimately show "list_all (\<lambda>c. c \<notin> {dquote, ''/'', '',''}) u" by (auto simp: list_all_iff)
qed

lemma json_space_white: "json_space c \<Longrightarrow> is_whitespace c"
  by (auto simp: json_space_def is_whitespace_def whitespace_chars_def)

lemma closes_spaces: "list_all json_space u \<Longrightarrow> closes_next AtCode (u @ cs) = closes_next AtCode cs"
  by (induction u) (simp_all add: closes_space json_space_white)

text \<open>What a value starts with closes nothing, so the comma before it stays.\<close>

definition opens_value :: "string list \<Rightarrow> bool" where
  "opens_value v \<longleftrightarrow> v \<noteq> [] \<and> \<not> is_whitespace (hd v) \<and> hd v \<notin> {''/'', ''}'', '']''}"

lemma opens_closes: "opens_value v \<Longrightarrow> \<not> closes_next AtCode (v @ cs)"
  by (cases v; cases "tl v @ cs") (auto simp: opens_value_def closes_next.simps)

lemma opens_quote [simp]: "opens_value (dquote # cs)"
  by (simp add: opens_value_def is_whitespace_def whitespace_chars_def dquote_def)

lemma opens_brackets [simp]: "opens_value (''['' # cs)" "opens_value (''{'' # cs)"
  by (simp_all add: opens_value_def is_whitespace_def whitespace_chars_def)

lemma word_char_plain: "word_char c \<Longrightarrow> c \<notin> {dquote, ''/'', '','', ''}'', '']''} \<and> \<not> is_whitespace c"
  by (auto simp: word_char_def is_ascii_alphanumeric_def is_ascii_digit_def byte_of_def dquote_def is_whitespace_def whitespace_chars_def)

lemma scalar_opens: "w \<noteq> [] \<Longrightarrow> list_all word_char w \<Longrightarrow> opens_value w"
  using word_char_plain by (cases w) (auto simp: opens_value_def)

lemma not_quote [simp]:
  "''['' \<noteq> dquote" "'']'' \<noteq> dquote" "''{'' \<noteq> dquote" "''}'' \<noteq> dquote" "'':'' \<noteq> dquote"
  by (simp_all add: dquote_def)

lemma closes_quote: "\<not> closes_next AtCode (dquote # cs)"
  using opens_closes [OF opens_quote, of "[]" cs] by simp

lemma json_unstripped:
  "json_value v \<Longrightarrow> opens_value v \<and> (\<forall>cs. strip_chars AtCode (v @ cs) = v @ strip_chars AtCode cs)"
  "json_items xs \<Longrightarrow> (\<forall>cs. \<not> closes_next AtCode (xs @ cs)) \<and> (\<forall>cs. strip_chars AtCode (xs @ cs) = xs @ strip_chars AtCode cs)"
  "json_members ms \<Longrightarrow> (\<forall>cs. \<not> closes_next AtCode (ms @ cs)) \<and> (\<forall>cs. strip_chars AtCode (ms @ cs) = ms @ strip_chars AtCode cs)"
proof (induction rule: json_value_json_items_json_members.inducts)
  case (scalar w)
  then have "strip_chars AtCode (w @ cs) = w @ strip_chars AtCode cs" for cs
    by (intro strip_plains) (auto simp: list_all_iff dest!: word_char_plain)
  with scalar show ?case by (simp add: scalar_opens)
next
  case (text_value b)
  then show ?case by (simp add: strip_text)
qed (simp_all add: strip_plain strip_spaces strip_text strip_comma closes_spaces opens_closes closes_quote)

lemma utf8_chars_then: "\<not> is_continuation c \<Longrightarrow> utf8_chars (s @ c # t) = utf8_chars s @ utf8_chars (c # t)"
proof (induction s rule: utf8_chars.induct)
  case (2 b s)
  have "takeWhile is_continuation (s @ c # t) = takeWhile is_continuation s"
    "dropWhile is_continuation (s @ c # t) = dropWhile is_continuation s @ c # t"
    using 2(2) by (induction s) auto
  with 2 show ?case by simp
qed simp

text \<open>What is JSON text and a line feed is left as it is.\<close>

lemma strip_json: "json_value (utf8_chars s) \<Longrightarrow> strip_jsonc (s @ nl) = s @ nl"
proof -
  assume json: "json_value (utf8_chars s)"
  have "\<not> is_continuation (CHR 0x0A)" by (simp add: is_continuation_def byte_of_def)
  then have chars: "utf8_chars (s @ nl) = utf8_chars s @ [nl]" by (simp add: nl_def utf8_chars_then)
  have "strip_chars AtCode [nl] = [nl]" by (simp add: strip_plain nl_def dquote_def strip_chars.simps)
  with json_unstripped(1) [OF json] show ?thesis by (simp add: strip_jsonc_def chars)
qed

section \<open>What the JSON library promises\<close>

text \<open>
  A value as the library has it, of a depth it reads: each object has a key once, a number is written as
  one, and a string does not start in the middle of a character.
\<close>

definition string_ok :: "string \<Rightarrow> bool" where
  "string_ok s \<longleftrightarrow> s = [] \<or> \<not> is_continuation (hd s)"

definition number_ok :: "string \<Rightarrow> bool" where
  "number_ok s \<longleftrightarrow> s \<noteq> [] \<and> list_all (\<lambda>c. c \<in> set ''0123456789+-.eE'') s"

fun value_ok :: "nat \<Rightarrow> json \<Rightarrow> bool" where
  "value_ok d (JObject ms) \<longleftrightarrow>
     0 < d \<and> distinct (map fst ms) \<and> (\<forall>m \<in> set ms. string_ok (fst m) \<and> value_ok (d - 1) (snd m))"
| "value_ok d (JArray items) \<longleftrightarrow> 0 < d \<and> (\<forall>i \<in> set items. value_ok (d - 1) i)"
| "value_ok d (JString s) \<longleftrightarrow> string_ok s"
| "value_ok d (JNumber s) \<longleftrightarrow> number_ok s"
| "value_ok d _ \<longleftrightarrow> True"

text \<open>
  What the edit relies on: up to some depth, which is three at least, what it prints is JSON text that
  reads back as the same value, a line feed after it or not; and what it reads is such a value.
\<close>

definition serde_ok :: "serde \<Rightarrow> bool" where
  "serde_ok J \<longleftrightarrow>
     (\<exists>d \<ge> 3.
        (\<forall>v. value_ok d v \<longrightarrow> json_value (utf8_chars (to_pretty J v)) \<and> from_text J (to_pretty J v @ nl) = Inr v) \<and>
        (\<forall>s v. from_text J s = Inr v \<longrightarrow> value_ok d v))"

lemma set_btree_insert: "(j, w) \<in> set (btree_insert k v ms) \<Longrightarrow> (j, w) = (k, v) \<or> (j, w) \<in> set ms"
  by (induction ms) (auto split: if_splits)

lemma value_ok_object:
  "value_ok d (JObject ms) \<longleftrightarrow>
     0 < d \<and> distinct (map fst ms) \<and> (\<forall>j w. (j, w) \<in> set ms \<longrightarrow> string_ok j \<and> value_ok (d - 1) w)"
  by auto

lemma value_ok_member: "value_ok d (JObject ms) \<Longrightarrow> map_of ms k = Some v \<Longrightarrow> value_ok (d - 1) v"
  unfolding value_ok_object by (blast dest: map_of_SomeD)

lemma value_ok_replace:
  assumes "value_ok d (JObject ms)"
  shows "value_ok d (JObject (drop_key k ms))"
    and "string_ok k \<Longrightarrow> value_ok (d - 1) w \<Longrightarrow> value_ok d (JObject (btree_insert k w (drop_key k ms)))"
proof -
  from assms have ok: "0 < d" "distinct (map fst ms)" "\<And>j v. (j, v) \<in> set ms \<Longrightarrow> string_ok j \<and> value_ok (d - 1) v"
    unfolding value_ok_object by blast+
  then show drop: "value_ok d (JObject (drop_key k ms))"
    unfolding value_ok_object using distinct_drop_key [of ms k] by (auto simp: drop_key_def)
  assume w: "string_ok k" "value_ok (d - 1) w"
  have "string_ok j \<and> value_ok (d - 1) v" if "(j, v) \<in> set (btree_insert k w (drop_key k ms))" for j v
    using set_btree_insert [OF that] w drop unfolding value_ok_object by blast
  moreover have "distinct (map fst (btree_insert k w (drop_key k ms)))"
    using ok(2) by (simp add: distinct_drop_key distinct_btree_insert drop_key_absent)
  ultimately show "value_ok d (JObject (btree_insert k w (drop_key k ms)))"
    unfolding value_ok_object using ok(1) by blast
qed

section \<open>What the edit writes\<close>

lemma spell_string_ok: "spell U raw = Inr s \<Longrightarrow> string_ok s"
proof -
  assume "spell U raw = Inr s"
  then obtain p where p: "parse_pattern raw = Inr p" "s = show_pattern p" by (auto simp: spell_def split: sum.splits)
  have ascii: "\<not> is_continuation (hd h)" if "normal_host h" for h
    using normal_host_ascii [OF that] normal_host_bytes [OF that] by (cases h) (auto simp: is_continuation_def)
  from parse_pattern_cases [OF p(1)] show ?thesis
  proof (elim disjE exE conjE)
    fix d
    assume "p = Suffix (CHR ''.'' # d)"
    then show ?thesis by (simp add: p(2) string_ok_def is_continuation_def byte_of_def)
  next
    fix h
    assume "p = Exact h" "normal_host h"
    with ascii show ?thesis by (simp add: p(2) string_ok_def)
  qed
qed

lemma edit_removes_subset: "edit_removes U raws l = Inr l' \<Longrightarrow> set l' \<subseteq> set l"
proof (induction raws arbitrary: l)
  case (Cons raw raws)
  then obtain sp where "edit_removes U raws (filter (\<lambda>p. case parse_pattern p of Inr q \<Rightarrow> show_pattern q \<noteq> sp | Inl _ \<Rightarrow> True) l) = Inr l'"
    by (auto split: sum.splits)
  from Cons.IH [OF this] show ?case by auto
qed simp

lemma edit_adds_spelled: "edit_adds U raws l = Inr l' \<Longrightarrow> s \<in> set l' \<Longrightarrow> s \<in> set l \<or> string_ok s"
proof (induction raws arbitrary: l)
  case (Cons raw raws)
  then obtain sp where sp: "spell U raw = Inr sp" "edit_adds U raws (push_new sp l) = Inr l'"
    by (auto split: sum.splits)
  from Cons.IH [OF sp(2) Cons.prems(2)] spell_string_ok [OF sp(1)] show ?case by auto
qed simp

lemma value_ok_edit_list:
  assumes "edit_list U key remove add ms = Inr ms'" "value_ok d (JObject ms)" "2 \<le> d" "string_ok key"
  shows "value_ok d (JObject ms')"
  using assms(1)
proof (rule edit_list_Inr)
  fix l1 l2
  assume l: "edit_removes U remove (listed key ms) = Inr l1" "edit_adds U add l1 = Inr l2"
    "ms' = (if l2 = [] then drop_key key ms else btree_insert key (JArray (map JString l2)) (drop_key key ms))"
  have "string_ok s" if "s \<in> set (listed key ms)" for s
  proof -
    from that obtain items where items: "map_of ms key = Some (JArray items)" "JString s \<in> set items"
      by (auto simp: listed_def List.map_filter_def split: option.splits json.splits elim!: json_str.elims dest: sym)
    have "value_ok (d - 1) (JArray items)" using assms(2) map_of_SomeD [OF items(1)] unfolding value_ok_object by blast
    with items(2) show ?thesis by fastforce
  qed
  with edit_removes_subset [OF l(1)] edit_adds_spelled [OF l(2)] have "\<forall>s \<in> set l2. string_ok s" by blast
  with assms(3) have "value_ok (d - 1) (JArray (map JString l2))" by simp
  with value_ok_replace [OF assms(2)] assms(4) show ?thesis unfolding l(3) by presburger
qed

lemma parse_file_asked:
  assumes "serde_ok J" "from_text J (strip_jsonc text) = Inr (JObject ms)" "k \<in> list_keys"
  shows "\<exists>p. parse_file J U text = Inr p \<and> asked k p = read_patterns (listed k (egress_of ms))"
proof -
  from assms(1,2) obtain d where ok: "value_ok d (JObject ms)" unfolding serde_ok_def by blast
  then have "distinct (map fst es)" if "(egress_key, JObject es) \<in> set ms" for es
    using that unfolding value_ok_object by force
  with ok assms(3) have "asked k (fold (parse_top J U) ms parsed_default) = read_patterns (listed k (egress_of ms))"
    using asked_top [of ms k J U parsed_default] by simp
  then show ?thesis by (simp add: parse_file_def assms(2))
qed

text \<open>The edit of both lists, one after the other.\<close>

lemma edit_both:
  assumes "edit_list U allow_key ra aa ms = Inr ms1" "edit_list U disable_key rb ab ms1 = Inr ms2"
  shows "read_patterns (listed allow_key ms2) = (read_patterns (listed allow_key ms) - read_patterns ra) \<union> read_patterns aa"
    "read_patterns (listed disable_key ms2) = (read_patterns (listed disable_key ms) - read_patterns rb) \<union> read_patterns ab"
  using edit_list_patterns(1,2) [OF assms(1)] edit_list_patterns(1,2) [OF assms(2)]
  by (auto simp: listed_def)

text \<open>
  Claim C35. An edit from the app is what the file says afterwards: each list read back from the written
  text is the list read before, less the patterns removed and with the patterns added, both in their
  one spelling, whatever else the file holds.
\<close>

theorem edit_applies:
  assumes "serde_ok J" "edit_text J U text e = Inr out"
  shows "\<exists>p q. parse_file J U (case text of Some t \<Rightarrow> t | None \<Rightarrow> ''{}'') = Inr p \<and> parse_file J U out = Inr q \<and>
    set (pf_allow q) = (set (pf_allow p) - read_patterns (ed_allow_remove e)) \<union> read_patterns (ed_allow_add e) \<and>
    set (pf_disable q) = (set (pf_disable p) - read_patterns (ed_disable_remove e)) \<union> read_patterns (ed_disable_add e)"
proof -
  define t where "t = (case text of Some t \<Rightarrow> t | None \<Rightarrow> ''{}'')"
  from assms(2) obtain ms m1 m2 where ms: "from_text J (strip_jsonc t) = Inr (JObject ms)"
    "map_of ms egress_key = None \<or> (\<exists>es. map_of ms egress_key = Some (JObject es))"
    "edit_list U allow_key (ed_allow_remove e) (ed_allow_add e) (egress_of ms) = Inr m1"
    "edit_list U disable_key (ed_disable_remove e) (ed_disable_add e) m1 = Inr m2"
    "out = to_pretty J (JObject (if m2 = [] then drop_key egress_key ms
       else btree_insert egress_key (JObject m2) (drop_key egress_key ms))) @ nl"
    unfolding edit_text_def Let_def t_def [symmetric] egress_of_def
    by (auto split: if_splits sum.splits json.splits option.splits)
  define ms' where "ms' = (if m2 = [] then drop_key egress_key ms
       else btree_insert egress_key (JObject m2) (drop_key egress_key ms))"
  from assms(1) obtain d where d: "3 \<le> d" "\<And>s v. from_text J s = Inr v \<Longrightarrow> value_ok d v"
    "\<And>v. value_ok d v \<Longrightarrow> json_value (utf8_chars (to_pretty J v)) \<and> from_text J (to_pretty J v @ nl) = Inr v"
    unfolding serde_ok_def by blast
  have ok: "value_ok d (JObject ms)" by (rule d(2) [OF ms(1)])
  have keys: "string_ok egress_key" "string_ok allow_key" "string_ok disable_key"
    by (simp_all add: string_ok_def egress_key_def allow_key_def disable_key_def is_continuation_def byte_of_def)
  have es: "value_ok (d - 1) (JObject es)" if "map_of ms egress_key = Some (JObject es)" for es
    by (rule value_ok_member [OF ok that])
  have none: "value_ok (d - 1) (JObject [])" using d(1) by simp
  have "value_ok (d - 1) (JObject (egress_of ms))"
    using ms(2) es none by (elim disjE exE) (simp_all only: egress_of_def option.case json.case)
  moreover have "2 \<le> d - 1" using d(1) by simp
  ultimately have m2: "value_ok (d - 1) (JObject m2)" using value_ok_edit_list ms(3,4) keys by blast
  have "value_ok d (JObject ms')"
    unfolding ms'_def using value_ok_replace [OF ok] m2 keys(1) by presburger
  from d(3) [OF this] have out: "from_text J (strip_jsonc out) = Inr (JObject ms')"
    by (simp add: ms(5) ms'_def strip_json)
  have "egress_of ms' = m2" by (simp add: ms'_def egress_of_def)
  then show ?thesis
    using parse_file_asked [OF assms(1) ms(1), of allow_key U] parse_file_asked [OF assms(1) ms(1), of disable_key U]
      parse_file_asked [OF assms(1) out, of allow_key U] parse_file_asked [OF assms(1) out, of disable_key U]
      edit_both [OF ms(3,4)]
    unfolding t_def [symmetric] by (auto simp: list_keys_def asked_def)
qed

end
