(* ===== verification/Egress_Layers.thy ===== *)
theory Egress_Layers
  imports Project_File Project_Settings
begin

text \<open>
  The layers of a box's allow-list (\<open>sandbox/boxes/allowlist.rs\<close>), the in-process mirrors they are read
  from (the egress part of \<open>sandbox/boxes/settings.rs\<close>), the settings files with the user's approvals
  (\<open>project_file/mod.rs\<close>), and the policy they make (\<open>egress_entries\<close> and \<open>egress_policy\<close> of
  \<open>sandbox/boxes/registry.rs\<close>).
\<close>

section \<open>Layers\<close>

record delta =
  dl_add :: "string list"
  dl_remove :: "string list"

definition delta_default :: delta where "delta_default = \<lparr>dl_add = [], dl_remove = []\<rparr>"

fun normalize_into :: "unicode \<Rightarrow> string list \<Rightarrow> string list \<Rightarrow> string + string list" where
  "normalize_into U out [] = Inr out"
| "normalize_into U out (p # ps) =
     (case spell U p of Inl e \<Rightarrow> Inl e | Inr sp \<Rightarrow> normalize_into U (push_new sp out) ps)"

definition normalize_all :: "unicode \<Rightarrow> string list \<Rightarrow> string + string list" where
  "normalize_all U patterns = normalize_into U [] patterns"

definition delta_normalized :: "unicode \<Rightarrow> delta \<Rightarrow> string + delta" where
  "delta_normalized U d =
     (case normalize_all U (dl_add d) of
        Inl e \<Rightarrow> Inl e
      | Inr add \<Rightarrow>
          (case normalize_all U (dl_remove d) of Inl e \<Rightarrow> Inl e | Inr rem \<Rightarrow> Inr \<lparr>dl_add = add, dl_remove = rem\<rparr>))"

text \<open>A JSON array of strings, and the object a delta is stored as: either field may be missing.\<close>

definition json_strings :: "json \<Rightarrow> string list option" where
  "json_strings v =
     (case v of
        JArray items \<Rightarrow> if list_all (\<lambda>i. json_str i \<noteq> None) items then Some (List.map_filter json_str items) else None
      | _ \<Rightarrow> None)"

definition json_field :: "(string \<times> json) list \<Rightarrow> string \<Rightarrow> string list option" where
  "json_field ms k = (case map_of ms k of None \<Rightarrow> Some [] | Some v \<Rightarrow> json_strings v)"

definition json_delta :: "json \<Rightarrow> delta option" where
  "json_delta v =
     (case v of
        JObject ms \<Rightarrow>
          (case (json_field ms ''add'', json_field ms ''remove'') of
             (Some add, Some rem) \<Rightarrow> Some \<lparr>dl_add = add, dl_remove = rem\<rparr>
           | _ \<Rightarrow> None)
      | _ \<Rightarrow> None)"

definition delta_json :: "delta \<Rightarrow> json" where
  "delta_json d = JObject [(''add'', JArray (map JString (dl_add d))), (''remove'', JArray (map JString (dl_remove d)))]"

definition from_json :: "serde \<Rightarrow> (json \<Rightarrow> 'a option) \<Rightarrow> string \<Rightarrow> 'a option" where
  "from_json J f raw = (case from_text J raw of Inr v \<Rightarrow> f v | Inl _ \<Rightarrow> None)"

definition delta_parse :: "serde \<Rightarrow> unicode \<Rightarrow> string option \<Rightarrow> delta" where
  "delta_parse J U raw =
     (case Option.bind raw (from_json J json_delta) of
        Some d \<Rightarrow> (case delta_normalized U d of Inr n \<Rightarrow> n | Inl _ \<Rightarrow> delta_default)
      | None \<Rightarrow> delta_default)"

datatype layer_source = SrcTemplate | SrcGlobal | SrcProjectFile | SrcProject

record allow_entry =
  en_pattern :: string
  en_source :: layer_source
  en_category :: "string option"

definition template_entries :: "allow_entry list" where
  "template_entries =
     map (\<lambda>(p, c). \<lparr>en_pattern = p, en_source = SrcTemplate, en_category = Some (category_str c)\<rparr>) template"

definition add_entry :: "layer_source \<Rightarrow> string \<Rightarrow> allow_entry list \<Rightarrow> allow_entry list" where
  "add_entry src p entries =
     (if list_ex (\<lambda>e. en_pattern e = p) entries then entries
      else entries @ [\<lparr>en_pattern = p, en_source = src, en_category = None\<rparr>])"

definition apply_layer :: "layer_source \<times> delta \<Rightarrow> allow_entry list \<Rightarrow> allow_entry list" where
  "apply_layer l entries =
     fold (add_entry (fst l)) (dl_add (snd l)) (filter (\<lambda>e. en_pattern e \<notin> set (dl_remove (snd l))) entries)"

definition effective :: "(layer_source \<times> delta) list \<Rightarrow> allow_entry list" where
  "effective layers = fold apply_layer layers template_entries"

section \<open>The settings files and their approvals\<close>

definition approved_key :: string where "approved_key = ''settings_file.approved_egress''"
definition egress_allow_key :: string where "egress_allow_key = ''box.egress_allow''"

record egress_status =
  st_applied :: "string list"
  st_pending :: "string list"
  st_disabled :: "string list"

record settings_status =
  fst_project :: string
  fst_repo :: "string option"
  fst_error :: "string option"
  fst_files :: "file_report list"
  fst_egress :: egress_status

type_synonym file_stamp = "(nat \<times> nat) option list"

record file_entry =
  fe_repo :: "string option"
  fe_read :: files_read
  fe_approved :: "string list"
  fe_stamp :: file_stamp

definition entry_status :: "string \<Rightarrow> file_entry \<Rightarrow> settings_status" where
  "entry_status project e =
     \<lparr>fst_project = project, fst_repo = fe_repo e, fst_error = rd_error (fe_read e), fst_files = rd_files (fe_read e),
      fst_egress = \<lparr>st_applied = filter (\<lambda>p. p \<in> set (fe_approved e)) (rd_allow (fe_read e)),
                    st_pending = filter (\<lambda>p. p \<notin> set (fe_approved e)) (rd_allow (fe_read e)),
                    st_disabled = rd_disable (fe_read e)\<rparr>\<rparr>"

definition stamp_of :: "file_system \<Rightarrow> string \<Rightarrow> file_stamp" where
  "stamp_of F repo =
     map (\<lambda>w. case fs_metadata F (file_path repo w) of
                Inr (_, len) \<Rightarrow> map_option (\<lambda>m. (len, m)) (fs_modified F (file_path repo w))
              | Inl _ \<Rightarrow> None) [Shared, Local]"

text \<open>What the engine reads the files through: the libraries, the disk, and where repositories are.\<close>

record disk =
  dk_serde :: serde
  dk_unicode :: unicode
  dk_fs :: file_system
  dk_repo :: "string \<Rightarrow> string option"
  dk_agents :: "string option"

text \<open>
  The mirrors and the rows behind them: the project settings (of the board's database), the global
  row, the global posture, and per project the additions, the posture and the files.
\<close>

record egress_state =
  eg_db :: board_db
  eg_global_row :: "string option"
  eg_posture_row :: "string option"
  eg_posture :: egress_mode
  eg_global :: "delta option"
  eg_allow :: "string \<Rightarrow> string list option"
  eg_modes :: "string \<Rightarrow> egress_mode option"
  eg_files :: "string \<Rightarrow> file_entry option"

definition file_status_of :: "egress_state \<Rightarrow> string \<Rightarrow> settings_status" where
  "file_status_of s project =
     (case eg_files s project of
        Some e \<Rightarrow> entry_status project e
      | None \<Rightarrow> \<lparr>fst_project = project, fst_repo = None, fst_error = None, fst_files = [],
                 fst_egress = \<lparr>st_applied = [], st_pending = [], st_disabled = []\<rparr>\<rparr>)"

definition applied_egress :: "egress_state \<Rightarrow> string \<Rightarrow> string list" where
  "applied_egress s project = st_applied (fst_egress (file_status_of s project))"

definition egress_delta :: "egress_state \<Rightarrow> string \<Rightarrow> delta" where
  "egress_delta s project =
     (let st = fst_egress (file_status_of s project) in \<lparr>dl_add = st_applied st, dl_remove = st_disabled st\<rparr>)"

text \<open>\<open>store\<close>: whether the status changed, and whether what the boxes enforce did.\<close>

definition file_store :: "string \<Rightarrow> file_entry \<Rightarrow> egress_state \<Rightarrow> (bool \<times> bool) \<times> egress_state" where
  "file_store project e s =
     (let before = map_option (entry_status project) (eg_files s project);
          after = entry_status project e;
          enforced = (\<lambda>st. (st_applied (fst_egress st), st_disabled (fst_egress st)))
      in ((before \<noteq> Some after, map_option enforced before \<noteq> Some (enforced after)),
          s\<lparr>eg_files := (eg_files s)(project \<mapsto> e)\<rparr>))"

definition load_approved :: "disk \<Rightarrow> egress_state \<Rightarrow> string \<Rightarrow> string list" where
  "load_approved D s project =
     (case Option.bind (bd_settings (eg_db s) (project, approved_key)) (from_json (dk_serde D) json_strings) of
        Some ps \<Rightarrow> ps | None \<Rightarrow> [])"

definition store_approved :: "disk \<Rightarrow> string \<Rightarrow> string list \<Rightarrow> egress_state \<Rightarrow> egress_state" where
  "store_approved D project ps s =
     s\<lparr>eg_db := (eg_db s)\<lparr>bd_settings := (bd_settings (eg_db s))
         ((project, approved_key) \<mapsto> to_compact (dk_serde D) (JArray (map JString ps)))\<rparr>\<rparr>"

definition file_refresh :: "disk \<Rightarrow> string \<Rightarrow> egress_state \<Rightarrow> (settings_status \<times> bool \<times> bool) \<times> egress_state" where
  "file_refresh D project s =
     (let repo = dk_repo D project;
          e = \<lparr>fe_repo = repo,
               fe_read = (case repo of Some r \<Rightarrow> read_files (dk_serde D) (dk_unicode D) (dk_fs D) r (dk_agents D)
                          | None \<Rightarrow> read_default),
               fe_approved = load_approved D s project,
               fe_stamp = (case repo of Some r \<Rightarrow> stamp_of (dk_fs D) r | None \<Rightarrow> [])\<rparr>;
          ((changed, pushed), s) = file_store project e s
      in ((entry_status project e, changed, pushed), s))"

fun approve_loop :: "unicode \<Rightarrow> string list \<Rightarrow> string list \<Rightarrow> string list \<Rightarrow> string + string list" where
  "approve_loop U offered approved [] = Inr approved"
| "approve_loop U offered approved (p # ps) =
     (case spell U p of
        Inl e \<Rightarrow> Inl e
      | Inr sp \<Rightarrow>
          if sp \<notin> set offered then Inl (in_ticks sp @ '' is not in this project's settings files'')
          else approve_loop U offered (push_new sp approved) ps)"

definition file_approve :: "disk \<Rightarrow> string \<Rightarrow> string list \<Rightarrow> egress_state \<Rightarrow> (string + settings_status) \<times> egress_state" where
  "file_approve D project patterns s =
     (let ((current, _), s) = file_refresh D project s;
          offered = st_applied (fst_egress current) @ st_pending (fst_egress current)
      in case approve_loop (dk_unicode D) offered (load_approved D s project) patterns of
           Inl e \<Rightarrow> (Inl e, s)
         | Inr approved \<Rightarrow>
             (let ((status, _), s) = file_refresh D project (store_approved D project approved s)
              in (Inr status, s)))"

definition fs_write :: "string \<Rightarrow> string \<Rightarrow> nat \<Rightarrow> file_system \<Rightarrow> file_system" where
  "fs_write path text now F =
     F\<lparr>fs_metadata := (fs_metadata F)(path := Inr (True, length text)), fs_modified := (fs_modified F)(path \<mapsto> now),
       fs_read := (fs_read F)(path := Inr text)\<rparr>"

fun approve_added :: "unicode \<Rightarrow> string list \<Rightarrow> string list \<Rightarrow> string + string list" where
  "approve_added U approved [] = Inr approved"
| "approve_added U approved (p # ps) =
     (case spell U p of Inl e \<Rightarrow> Inl e | Inr sp \<Rightarrow> approve_added U (push_new sp approved) ps)"

text \<open>\<open>edit\<close>, with the disk it leaves.\<close>

definition edit_files ::
  "disk \<Rightarrow> string \<Rightarrow> which_file \<Rightarrow> file_edit \<Rightarrow> nat \<Rightarrow> egress_state \<Rightarrow> (string + settings_status) \<times> disk \<times> egress_state" where
  "edit_files D project which e now s =
     (case dk_repo D project of
        None \<Rightarrow> (Inl ''this project has no repository'', D, s)
      | Some repo \<Rightarrow>
          (case rd_error (read_files (dk_serde D) (dk_unicode D) (dk_fs D) repo (dk_agents D)) of
             Some err \<Rightarrow> (Inl err, D, s)
           | None \<Rightarrow>
               (let path = file_path repo which
                in case (if fs_metadata (dk_fs D) path = Inl None then Inr None
                         else map_sum id Some (fs_read (dk_fs D) path)) of
                     Inl err \<Rightarrow> (Inl err, D, s)
                   | Inr current \<Rightarrow>
                       (case edit_text (dk_serde D) (dk_unicode D) current e of
                          Inl err \<Rightarrow> (Inl (settings_dir @ ''/'' @ file_name which @ '': '' @ err), D, s)
                        | Inr text \<Rightarrow>
                            (case fs_refuses (dk_fs D) path of
                               Some err \<Rightarrow> (Inl err, D, s)
                             | None \<Rightarrow>
                                 (let D = D\<lparr>dk_fs := fs_write path text now (dk_fs D)\<rparr>
                                  in case approve_added (dk_unicode D) (load_approved D s project) (ed_allow_add e) of
                                       Inl err \<Rightarrow> (Inl err, D, s)
                                     | Inr approved \<Rightarrow>
                                         (let ((status, _), s) = file_refresh D project (store_approved D project approved s)
                                          in (Inr status, D, s))))))))"

section \<open>The mirrors\<close>

definition egress_allow :: "egress_state \<Rightarrow> string \<Rightarrow> string list" where
  "egress_allow s project = (case eg_allow s project of Some ps \<Rightarrow> ps | None \<Rightarrow> [])"

definition set_egress_allow :: "string \<Rightarrow> string list \<Rightarrow> egress_state \<Rightarrow> egress_state" where
  "set_egress_allow project ps s = s\<lparr>eg_allow := (eg_allow s)(project \<mapsto> ps)\<rparr>"

definition global_egress :: "egress_state \<Rightarrow> delta" where
  "global_egress s = (case eg_global s of Some d \<Rightarrow> d | None \<Rightarrow> delta_default)"

definition set_global_egress :: "delta \<Rightarrow> egress_state \<Rightarrow> egress_state" where
  "set_global_egress d s = s\<lparr>eg_global := Some \<lparr>dl_add = dl_add d, dl_remove = []\<rparr>\<rparr>"

definition egress_mode_of :: "egress_state \<Rightarrow> string \<Rightarrow> egress_mode" where
  "egress_mode_of s project = (case eg_modes s project of Some m \<Rightarrow> m | None \<Rightarrow> eg_posture s)"

definition set_egress_mode_override :: "string \<Rightarrow> egress_mode option \<Rightarrow> egress_state \<Rightarrow> egress_state" where
  "set_egress_mode_override project m s = s\<lparr>eg_modes := (eg_modes s)(project := m)\<rparr>"

definition parse_egress_allow :: "serde \<Rightarrow> string \<Rightarrow> string list" where
  "parse_egress_allow J raw =
     (case from_json J json_strings raw of
        Some ps \<Rightarrow> filter (\<lambda>p. p \<noteq> []) (map trim ps)
      | None \<Rightarrow> [])"

text \<open>\<open>seed\<close>, its egress part: every mirror from the rows.\<close>

definition load_posture :: "unicode \<Rightarrow> egress_state \<Rightarrow> egress_mode" where
  "load_posture U s = (case egress_mode_parse U (eg_posture_row s) of Inr m \<Rightarrow> m | Inl _ \<Rightarrow> EgOpen)"

definition seed_egress :: "serde \<Rightarrow> unicode \<Rightarrow> egress_state \<Rightarrow> egress_state" where
  "seed_egress J U s =
     (set_global_egress (delta_parse J U (eg_global_row s)) s)
       \<lparr>eg_posture := load_posture U s,
        eg_allow := (\<lambda>p. map_option (parse_egress_allow J) (bd_settings (eg_db s) (p, egress_allow_key))),
        eg_modes := (\<lambda>p. Option.bind (bd_settings (eg_db s) (p, egress_mode_key))
          (\<lambda>v. case egress_mode_parse U (Some v) of Inr m \<Rightarrow> Some m | Inl _ \<Rightarrow> None))\<rparr>"

section \<open>The policy\<close>

definition egress_layers :: "egress_state \<Rightarrow> string \<Rightarrow> (layer_source \<times> delta) list" where
  "egress_layers s project =
     [(SrcGlobal, global_egress s), (SrcProjectFile, egress_delta s project),
      (SrcProject, \<lparr>dl_add = egress_allow s project, dl_remove = []\<rparr>)]"

definition egress_entries :: "egress_state \<Rightarrow> string \<Rightarrow> allow_entry list" where
  "egress_entries s project = effective (egress_layers s project)"

definition egress_policy_of :: "egress_state \<Rightarrow> string \<Rightarrow> egress_policy" where
  "egress_policy_of s project =
     (case policy_new (map en_pattern (egress_entries s project)) of
        Inr pol \<Rightarrow> pol
      | Inl _ \<Rightarrow> policy_default)"

section \<open>The writes a client makes\<close>

definition allow_host :: "serde \<Rightarrow> unicode \<Rightarrow> string \<Rightarrow> string \<Rightarrow> egress_state \<Rightarrow> (string + string list) \<times> egress_state" where
  "allow_host J U project pattern s =
     (case spell U pattern of
        Inl e \<Rightarrow> (Inl e, s)
      | Inr sp \<Rightarrow>
          (let ps = push_new sp (egress_allow s project)
           in case set_project_setting U project egress_allow_key
                     (Some (to_compact J (JArray (map JString ps)))) (eg_db s) of
                Inl e \<Rightarrow> (Inl e, s)
              | Inr db \<Rightarrow> (Inr ps, set_egress_allow project ps (s\<lparr>eg_db := db\<rparr>))))"

definition set_global_list :: "serde \<Rightarrow> unicode \<Rightarrow> delta \<Rightarrow> egress_state \<Rightarrow> (string + delta) \<times> egress_state" where
  "set_global_list J U d s =
     (case delta_normalized U d of
        Inl e \<Rightarrow> (Inl e, s)
      | Inr n \<Rightarrow>
          (let stored = \<lparr>dl_add = dl_add n, dl_remove = []\<rparr>
           in (Inr stored, set_global_egress stored (s\<lparr>eg_global_row := Some (to_compact J (delta_json stored))\<rparr>))))"

text \<open>\<open>set_box_setting_impl\<close> on the posture: validated, stored or cleared, and read back.\<close>

definition set_posture :: "unicode \<Rightarrow> string option \<Rightarrow> egress_state \<Rightarrow> (string + unit) \<times> egress_state" where
  "set_posture U value s =
     (case (case value of
              None \<Rightarrow> Inr None
            | Some v \<Rightarrow> (case egress_mode_parse U (Some v) of Inl e \<Rightarrow> Inl e | Inr m \<Rightarrow> Inr (Some (egress_mode_as_setting m)))) of
        Inl e \<Rightarrow> (Inl e, s)
      | Inr row \<Rightarrow> (let s = s\<lparr>eg_posture_row := row\<rparr> in (Inr (), s\<lparr>eg_posture := load_posture U s\<rparr>)))"

text \<open>\<open>set_project_setting_impl\<close> with the mirror of the posture.\<close>

definition project_setting_write ::
  "unicode \<Rightarrow> string \<Rightarrow> string \<Rightarrow> string option \<Rightarrow> egress_state \<Rightarrow> (string + unit) \<times> egress_state" where
  "project_setting_write U project key value s =
     (case set_project_setting U project key value (eg_db s) of
        Inl e \<Rightarrow> (Inl e, s)
      | Inr db \<Rightarrow>
          (let s = s\<lparr>eg_db := db\<rparr>
           in (Inr (),
               if key = egress_mode_key
               then set_egress_mode_override project
                      (Option.bind value (\<lambda>v. case egress_mode_parse U (Some v) of Inr m \<Rightarrow> Some m | Inl _ \<Rightarrow> None)) s
               else s)))"

section \<open>What the layers leave\<close>

abbreviation patterns_of :: "allow_entry list \<Rightarrow> string list" where
  "patterns_of es \<equiv> map en_pattern es"

lemma patterns_add_entry [simp]: "patterns_of (add_entry src p es) = push_new p (patterns_of es)"
  by (auto simp: add_entry_def push_new_def list_ex_iff)

lemma patterns_add_entries [simp]: "patterns_of (fold (add_entry src) ps es) = push_all ps (patterns_of es)"
  by (induction ps arbitrary: es) simp_all

lemma patterns_apply_layer:
  "patterns_of (apply_layer (src, d) es) = push_all (dl_add d) (filter (\<lambda>p. p \<notin> set (dl_remove d)) (patterns_of es))"
  by (simp add: apply_layer_def filter_map o_def)

lemma distinct_effective: "distinct (patterns_of (effective layers))"
proof -
  have "distinct (patterns_of (fold apply_layer layers es))" if "distinct (patterns_of es)" for es
    using that
  proof (induction layers arbitrary: es)
    case (Cons l layers)
    then have "distinct (patterns_of (apply_layer l es))" by (cases l) (simp add: patterns_apply_layer)
    with Cons show ?case by simp
  qed simp
  moreover have "patterns_of template_entries = default_allow"
    by (simp add: template_entries_def default_allow_def case_prod_unfold o_def)
  ultimately show ?thesis using template_distinct unfolding effective_def by simp
qed

text \<open>The last layer that speaks of a pattern; a layer that both adds and removes it adds it.\<close>

definition speaks :: "string \<Rightarrow> layer_source \<times> delta \<Rightarrow> bool" where
  "speaks p l \<longleftrightarrow> p \<in> set (dl_add (snd l)) \<union> set (dl_remove (snd l))"

lemma effective_snoc: "effective (ls @ [l]) = apply_layer l (effective ls)"
  by (simp add: effective_def)

lemma patterns_template: "patterns_of template_entries = default_allow"
  by (simp add: template_entries_def default_allow_def case_prod_unfold o_def)

lemma effective_speaks:
  "p \<in> set (patterns_of (effective layers)) \<longleftrightarrow>
     (case List.find (speaks p) (rev layers) of
        Some l \<Rightarrow> p \<in> set (dl_add (snd l))
      | None \<Rightarrow> p \<in> set default_allow)"
proof (induction layers rule: rev_induct)
  case Nil
  then show ?case using patterns_template by (simp add: effective_def)
next
  case (snoc l layers)
  have "set (patterns_of (effective (layers @ [l]))) =
      set (dl_add (snd l)) \<union> (set (patterns_of (effective layers)) - set (dl_remove (snd l)))"
    by (cases l) (auto simp only: effective_snoc patterns_apply_layer set_push_all set_filter snd_conv)
  with snoc show ?case by (auto simp: speaks_def simp del: set_map)
qed

text \<open>
  A pattern is on a box's list exactly when the last layer that names it adds it, or no layer
  names it and it is in the template, whatever the layers; and it is listed once.
\<close>

theorem effective_last_wins:
  "distinct (patterns_of (effective layers)) \<and>
   (p \<in> set (patterns_of (effective layers)) \<longleftrightarrow>
     (case List.find (speaks p) (rev layers) of
        Some l \<Rightarrow> p \<in> set (dl_add (snd l))
      | None \<Rightarrow> p \<in> set default_allow))"
  using distinct_effective effective_speaks by blast

end
