(* ===== verification/Egress_Consent.thy ===== *)
theory Egress_Consent
  imports Egress_Layers
begin

text \<open>
  What a box may reach needs the user's word: the runs of the engine over its rows and mirrors, with the
  files of the repositories changing at will between any two steps, and what they leave a policy of.
\<close>

section \<open>Runs\<close>

text \<open>
  The user's approvals so far are kept beside the state: what \<open>approve\<close> answered, and the hosts an edit
  from the app added. A client's writes and the boot are steps too; files change between steps.
\<close>

inductive consent_reach :: "serde \<Rightarrow> unicode \<Rightarrow> disk \<Rightarrow> egress_state \<Rightarrow> (string \<times> string) set \<Rightarrow> bool" for J U where
  begins: "dk_serde D = J \<Longrightarrow> dk_unicode D = U \<Longrightarrow> eg_files s = Map.empty \<Longrightarrow>
    (\<And>p. bd_settings (eg_db s) (p, approved_key) = None) \<Longrightarrow> consent_reach J U D s {}"
| files_change: "consent_reach J U D s C \<Longrightarrow> dk_serde D' = J \<Longrightarrow> dk_unicode D' = U \<Longrightarrow> consent_reach J U D' s C"
| refreshes: "consent_reach J U D s C \<Longrightarrow> consent_reach J U D (snd (file_refresh D p s)) C"
| approves: "consent_reach J U D s C \<Longrightarrow> file_approve D p ps s = (r, s') \<Longrightarrow>
    consent_reach J U D s' (if isl r then C else C \<union> {p} \<times> read_patterns ps)"
| edits: "consent_reach J U D s C \<Longrightarrow> edit_files D p w e now s = (r, D', s') \<Longrightarrow>
    consent_reach J U D' s' (if isl r then C else C \<union> {p} \<times> read_patterns (ed_allow_add e))"
| allows_host: "consent_reach J U D s C \<Longrightarrow> consent_reach J U D (snd (allow_host J U p pat s)) C"
| sets_global: "consent_reach J U D s C \<Longrightarrow> consent_reach J U D (snd (set_global_list J U d s)) C"
| writes_setting: "consent_reach J U D s C \<Longrightarrow> consent_reach J U D (snd (project_setting_write U p k v s)) C"
| sets_posture: "consent_reach J U D s C \<Longrightarrow> consent_reach J U D (snd (set_posture U v s)) C"
| boots: "consent_reach J U D s C \<Longrightarrow> consent_reach J U D (seed_egress J U s) C"

text \<open>What the approvals rely on of the JSON library: a list of strings reads back as it was printed.\<close>

definition compact_ok :: "serde \<Rightarrow> bool" where
  "compact_ok J \<longleftrightarrow> (\<forall>ps. from_text J (to_compact J (JArray (map JString ps))) = Inr (JArray (map JString ps)))"

section \<open>Approvals\<close>

definition approvals_ok :: "disk \<Rightarrow> egress_state \<Rightarrow> (string \<times> string) set \<Rightarrow> bool" where
  "approvals_ok D s C \<longleftrightarrow>
     (\<forall>p. {p} \<times> set (load_approved D s p) \<subseteq> C) \<and>
     (\<forall>p e. eg_files s p = Some e \<longrightarrow> {p} \<times> set (fe_approved e) \<subseteq> C)"

lemma json_strings_map [simp]: "json_strings (JArray (map JString ps)) = Some ps"
  by (simp add: json_strings_def list_all_iff)

lemma load_approved_cong:
  "dk_serde D' = dk_serde D \<Longrightarrow> bd_settings (eg_db s') (p, approved_key) = bd_settings (eg_db s) (p, approved_key) \<Longrightarrow>
     load_approved D' s' p = load_approved D s p"
  by (simp add: load_approved_def)

lemma load_store_approved:
  "compact_ok (dk_serde D) \<Longrightarrow>
     load_approved D' (store_approved D p ps s) q =
       (if q = p \<and> dk_serde D' = dk_serde D then ps
        else load_approved D' (store_approved D p ps s) q)"
  by (simp add: load_approved_def store_approved_def from_json_def compact_ok_def)

lemma load_store_other:
  "q \<noteq> p \<Longrightarrow> load_approved D' (store_approved D p ps s) q = load_approved D' s q"
  by (simp add: load_approved_def store_approved_def)

lemma spell_patterns: "spell U p = Inr q \<Longrightarrow> read_patterns [p] = {q}"
  by (auto simp: spell_def split: sum.splits)

lemma approve_loop_set:
  "approve_loop U offered approved ps = Inr out \<Longrightarrow>
     set out = set approved \<union> read_patterns ps \<and> read_patterns ps \<subseteq> set offered"
proof (induction ps arbitrary: approved)
  case (Cons p ps)
  then obtain q where q: "spell U p = Inr q" "q \<in> set offered" "approve_loop U offered (push_new q approved) ps = Inr out"
    by (auto split: sum.splits if_splits)
  moreover have "read_patterns (p # ps) = {q} \<union> read_patterns ps"
    using spell_patterns [OF q(1)] read_patterns_append [of "[p]" ps] by simp
  ultimately show ?case using Cons.IH [OF q(3)] by auto
qed simp

lemma approve_added_set: "approve_added U approved ps = Inr out \<Longrightarrow> set out = set approved \<union> read_patterns ps"
proof (induction ps arbitrary: approved)
  case (Cons p ps)
  then obtain q where q: "spell U p = Inr q" "approve_added U (push_new q approved) ps = Inr out"
    by (auto split: sum.splits)
  moreover have "read_patterns (p # ps) = {q} \<union> read_patterns ps"
    using spell_patterns [OF q(1)] read_patterns_append [of "[p]" ps] by simp
  ultimately show ?case using Cons.IH [OF q(2)] by auto
qed simp

lemma refresh_fields:
  "eg_db (snd (file_refresh D p s)) = eg_db s"
  "eg_files (snd (file_refresh D p s)) q = (if q = p then Some (\<lparr>fe_repo = dk_repo D p,
     fe_read = (case dk_repo D p of Some r \<Rightarrow> read_files (dk_serde D) (dk_unicode D) (dk_fs D) r (dk_agents D) | None \<Rightarrow> read_default),
     fe_approved = load_approved D s p, fe_stamp = (case dk_repo D p of Some r \<Rightarrow> stamp_of (dk_fs D) r | None \<Rightarrow> [])\<rparr>)
   else eg_files s q)"
  by (simp_all add: file_refresh_def file_store_def Let_def)

lemma approvals_refresh: "approvals_ok D s C \<Longrightarrow> approvals_ok D (snd (file_refresh D p s)) C"
  by (auto simp: approvals_ok_def refresh_fields load_approved_cong [of D D "snd (file_refresh D p s)" _ s])

lemma approvals_mono: "approvals_ok D s C \<Longrightarrow> C \<subseteq> C' \<Longrightarrow> approvals_ok D s C'"
  unfolding approvals_ok_def by blast

lemma approvals_store:
  assumes "approvals_ok D s C" "compact_ok (dk_serde D)" "set ps \<subseteq> set (load_approved D s p) \<union> S"
  shows "approvals_ok D (store_approved D p ps s) (C \<union> {p} \<times> S)"
proof -
  have "{q} \<times> set (load_approved D (store_approved D p ps s) q) \<subseteq> C \<union> {p} \<times> S" for q
  proof (cases "q = p")
    case True
    then have "load_approved D (store_approved D p ps s) q = ps"
      using load_store_approved [OF assms(2), of D p ps s q] by simp
    with assms(1,3) True show ?thesis by (auto simp: approvals_ok_def)
  next
    case False
    with assms(1) show ?thesis by (auto simp: approvals_ok_def load_store_other)
  qed
  moreover have "eg_files (store_approved D p ps s) = eg_files s" by (simp add: store_approved_def)
  ultimately show ?thesis using assms(1) unfolding approvals_ok_def by (simp only:) blast
qed

lemma approvals_same:
  "approvals_ok D s C \<Longrightarrow> dk_serde D' = dk_serde D \<Longrightarrow> eg_files s' = eg_files s \<Longrightarrow>
     (\<And>p. bd_settings (eg_db s') (p, approved_key) = bd_settings (eg_db s) (p, approved_key)) \<Longrightarrow> approvals_ok D' s' C"
  by (simp add: approvals_ok_def load_approved_def)

lemma approve_cases:
  assumes "file_approve D p ps s = (r, s')"
  shows "isl r \<and> s' = snd (file_refresh D p s) \<or>
    \<not> isl r \<and> (\<exists>offered out. approve_loop (dk_unicode D) offered (load_approved D (snd (file_refresh D p s)) p) ps = Inr out \<and>
      s' = snd (file_refresh D p (store_approved D p out (snd (file_refresh D p s)))))"
  using assms unfolding file_approve_def Let_def by (auto simp: case_prod_unfold split: sum.splits)

lemma edit_cases:
  assumes "edit_files D p w e now s = (r, D', s')"
  shows "dk_serde D' = dk_serde D \<and> dk_unicode D' = dk_unicode D \<and>
    (isl r \<and> s' = s \<or>
     \<not> isl r \<and> (\<exists>out. approve_added (dk_unicode D') (load_approved D' s p) (ed_allow_add e) = Inr out \<and>
       s' = snd (file_refresh D' p (store_approved D' p out s))))"
  using assms unfolding edit_files_def Let_def
  by (auto simp: case_prod_unfold split: sum.splits option.splits)

lemma setting_keeps_approved:
  assumes "set_project_setting U p k v db = Inr db'"
  shows "bd_settings db' (q, approved_key) = bd_settings db (q, approved_key)"
proof -
  have "\<not> is_client_project_key approved_key"
    by (simp add: is_client_project_key_def project_setting_keys_def approved_key_def egress_mode_key_def
        icon_source_key_def run_prefix_def)
  then show ?thesis using set_project_setting_keeps [OF assms] by blast
qed

lemma writes_keep_approved:
  "eg_files (snd (allow_host J U p pat s)) = eg_files s"
  "bd_settings (eg_db (snd (allow_host J U p pat s))) (q, approved_key) = bd_settings (eg_db s) (q, approved_key)"
  "eg_files (snd (set_global_list J U d s)) = eg_files s"
  "eg_db (snd (set_global_list J U d s)) = eg_db s"
  "eg_files (snd (project_setting_write U p k v s)) = eg_files s"
  "bd_settings (eg_db (snd (project_setting_write U p k v s))) (q, approved_key) = bd_settings (eg_db s) (q, approved_key)"
  by (auto simp: allow_host_def set_global_list_def project_setting_write_def set_egress_allow_def set_global_egress_def
      set_egress_mode_override_def Let_def setting_keeps_approved split: sum.split)

lemma consent_disk: "consent_reach J U D s C \<Longrightarrow> dk_serde D = J \<and> dk_unicode D = U"
  by (induction rule: consent_reach.induct) (auto dest: edit_cases)

lemma consent_approvals:
  assumes "consent_reach J U D s C" "compact_ok J"
  shows "approvals_ok D s C"
  using assms(1)
proof (induction rule: consent_reach.induct)
  case (begins D s)
  then show ?case by (simp add: approvals_ok_def load_approved_def)
next
  case (files_change D s C D')
  then show ?case using consent_disk [OF files_change(1)] by (auto intro: approvals_same)
next
  case (refreshes D s C p)
  then show ?case by (intro approvals_refresh)
next
  case (approves D s C p ps r s')
  note base = approvals_refresh [OF approves.IH, of p]
  from approve_cases [OF approves.hyps(2)] show ?case
  proof (elim disjE conjE exE)
    fix offered out
    assume out: "approve_loop (dk_unicode D) offered (load_approved D (snd (file_refresh D p s)) p) ps = Inr out"
      "s' = snd (file_refresh D p (store_approved D p out (snd (file_refresh D p s))))" "\<not> isl r"
    have "set out \<subseteq> set (load_approved D (snd (file_refresh D p s)) p) \<union> read_patterns ps"
      using approve_loop_set [OF out(1)] by simp
    with base approvals_store approvals_refresh consent_disk [OF approves.hyps(1)] assms(2) out(2,3) show ?case by auto
  qed (use base in simp)
next
  case (edits D s C p w e now r D' s')
  note cases = edit_cases [OF edits.hyps(2)]
  then have base: "approvals_ok D' s C" using edits.IH by (auto intro: approvals_same)
  from cases show ?case
  proof (elim disjE conjE exE)
    fix out
    assume out: "approve_added (dk_unicode D') (load_approved D' s p) (ed_allow_add e) = Inr out"
      "s' = snd (file_refresh D' p (store_approved D' p out s))" "\<not> isl r" "dk_serde D' = dk_serde D"
    have "set out \<subseteq> set (load_approved D' s p) \<union> read_patterns (ed_allow_add e)"
      using approve_added_set [OF out(1)] by simp
    with base approvals_store approvals_refresh consent_disk [OF edits.hyps(1)] assms(2) out(2-) show ?case by auto
  qed (use base in simp)
next
  case (allows_host D s C p pat)
  then show ?case by (auto intro: approvals_same simp: writes_keep_approved)
next
  case (sets_global D s C d)
  then show ?case by (auto intro: approvals_same simp: writes_keep_approved)
next
  case (writes_setting D s C p k v)
  then show ?case by (auto intro: approvals_same simp: writes_keep_approved)
next
  case (sets_posture D s C v)
  have "eg_db (snd (set_posture U v s)) = eg_db s" "eg_files (snd (set_posture U v s)) = eg_files s"
    by (simp_all add: set_posture_def Let_def split: option.split sum.split)
  with sets_posture show ?case by (auto intro: approvals_same)
next
  case (boots D s C)
  then show ?case by (auto intro: approvals_same simp: seed_egress_def set_global_egress_def)
qed

section \<open>What a policy admits\<close>

lemma policy_admits:
  assumes "policy_check (egress_policy_of s project) host port = Inr ()" "normal_host host"
  shows "\<exists>pat. reaches pat host \<and>
    (pat \<in> set default_allow \<or> pat \<in> set (patterns_of (egress_entries s project)))"
proof -
  obtain ps where ps: "policy_new ps = Inr (egress_policy_of s project)"
    "ps = default_allow \<or> ps = patterns_of (egress_entries s project)"
    using default_allow_parses by (cases "policy_new (patterns_of (egress_entries s project))") (auto simp: egress_policy_of_def)
  from assms(1) have "\<exists>p \<in> set ps. reaches p host"
    using policy_checked [OF ps(1) assms(2), of port] by (auto split: if_splits)
  with ps(2) show ?thesis by blast
qed

lemma entries_from:
  "p \<in> set (patterns_of (effective layers)) \<Longrightarrow> p \<in> set default_allow \<or> (\<exists>l \<in> set layers. p \<in> set (dl_add (snd l)))"
  unfolding effective_speaks by (auto split: option.splits dest!: find_SomeD)

text \<open>
  Claim C20. A box reaches a host only with the user's word: in every run, with the repositories' files
  changing at will, whatever a project's policy admits is named by the template, by the user's global
  list or the project's in-app list, or by a pattern of the settings files that the user approved or
  added in the app. What a file says on its own admits nothing.
\<close>

theorem reach_needs_consent:
  assumes "consent_reach J U D s C" "compact_ok J"
    and "policy_check (egress_policy_of s project) host port = Inr ()" "normal_host host"
  shows "\<exists>pat. reaches pat host \<and>
    (pat \<in> set default_allow \<or> pat \<in> set (dl_add (global_egress s)) \<or> pat \<in> set (egress_allow s project) \<or>
     (project, pat) \<in> C)"
proof -
  have "(project, p) \<in> C" if "p \<in> set (dl_add (egress_delta s project))" for p
    using consent_approvals [OF assms(1,2)] that
    by (force simp: approvals_ok_def egress_delta_def file_status_of_def entry_status_def Let_def split: option.splits)
  with policy_admits [OF assms(3,4)] show ?thesis
    using entries_from [of _ "egress_layers s project"] unfolding egress_entries_def
    by (auto simp: egress_layers_def)
qed

text \<open>
  Claim C36. One pattern of the in-app list that does not parse takes every layer with it: the policy is
  the template again, what the settings files and the global list added is gone, and what they turned
  off is on.
\<close>

theorem bad_pattern_resets:
  assumes "pat \<in> set (egress_allow s project)" "parse_pattern pat = Inl e"
  shows "egress_policy_of s project = policy_default"
proof -
  have "pat \<in> set (patterns_of (egress_entries s project))"
    unfolding egress_entries_def effective_speaks
    using assms(1) by (simp add: egress_layers_def speaks_def)
  then have "map parse_pattern (patterns_of (egress_entries s project)) \<noteq> map Inr ps" for ps
    using assms(2) by (metis (no_types, lifting) Inl_Inr_False in_set_conv_nth length_map nth_map)
  then have "parse_patterns (patterns_of (egress_entries s project)) \<noteq> Inr ps" for ps
    unfolding parse_patterns_Inr .
  then show ?thesis
    by (cases "parse_patterns (patterns_of (egress_entries s project))") (auto simp: egress_policy_of_def policy_new_def)
qed

end
