(* ===== verification/Egress_Holds.thy ===== *)
theory Egress_Holds
  imports Egress_Admits
begin

text \<open>
  The holds: how many there are and who is in one.
\<close>

section \<open>Who is in a hold\<close>

definition in_hold :: "conn_pc \<Rightarrow> joined option" where
  "in_hold pc =
     (case pc of
        Announcing _ j \<Rightarrow> Some j
      | Checking _ _ j \<Rightarrow> Some j
      | Waiting _ j \<Rightarrow> Some j
      | Leaving j _ \<Rightarrow> Some j
      | _ \<Rightarrow> None)"

definition is_member :: "string \<Rightarrow> conn \<Rightarrow> bool" where
  "is_member host c \<longleftrightarrow> cn_host c = host \<and> in_hold (cn_pc c) \<noteq> None"

definition members :: "egress_world \<Rightarrow> string \<Rightarrow> nat" where
  "members w host = length (filter (is_member host) (wd_conns w))"

lemma members_update:
  assumes "i < length (wd_conns w)"
  shows "length (filter P ((wd_conns w)[i := c])) + (if P (wd_conns w ! i) then 1 else 0) =
    length (filter P (wd_conns w)) + (if P c then 1 else 0)"
proof -
  have w: "wd_conns w = take i (wd_conns w) @ wd_conns w ! i # drop (Suc i) (wd_conns w)"
    using assms by (rule id_take_nth_drop)
  have "(wd_conns w)[i := c] = take i (wd_conns w) @ c # drop (Suc i) (wd_conns w)"
    using assms by (rule upd_conv_take_nth_drop)
  then have "filter P ((wd_conns w)[i := c]) = filter P (take i (wd_conns w)) @ filter P (c # drop (Suc i) (wd_conns w))"
    by simp
  moreover have "filter P (wd_conns w) = filter P (take i (wd_conns w)) @ filter P (wd_conns w ! i # drop (Suc i) (wd_conns w))"
    by (subst (1) w) simp
  ultimately show ?thesis by simp
qed

text \<open>What a connection knows of the hold it is in.\<close>

definition fits :: "hold \<Rightarrow> joined \<Rightarrow> conn \<Rightarrow> bool" where
  "fits h j c \<longleftrightarrow> hd_id h = jn_id j \<and> hd_since h = jn_since j \<and> (jn_first j \<longrightarrow> hd_port h = cn_port c)"

definition counted :: "egress_world \<Rightarrow> bool" where
  "counted w \<longleftrightarrow>
     distinct (map fst (px_held (wd_proxy w))) \<and> length (px_held (wd_proxy w)) \<le> max_held_hosts \<and>
     (\<forall>host h. hold_of (wd_proxy w) host = Some h \<longrightarrow>
        hd_waiting h = members w host \<and> 0 < hd_waiting h \<and> hd_id h \<le> wd_next_id w) \<and>
     (\<forall>a b g h. hold_of (wd_proxy w) a = Some g \<longrightarrow> hold_of (wd_proxy w) b = Some h \<longrightarrow> hd_id g = hd_id h \<longrightarrow> a = b) \<and>
     (\<forall>c \<in> set (wd_conns w). \<forall>j. in_hold (cn_pc c) = Some j \<longrightarrow>
        (\<exists>h. hold_of (wd_proxy w) (cn_host c) = Some h \<and> fits h j c))"

lemma countedD:
  assumes "counted w"
  shows "distinct (map fst (px_held (wd_proxy w)))" "length (px_held (wd_proxy w)) \<le> max_held_hosts"
    "hold_of (wd_proxy w) host = Some h \<Longrightarrow> hd_waiting h = members w host \<and> 0 < hd_waiting h \<and> hd_id h \<le> wd_next_id w"
    "hold_of (wd_proxy w) a = Some g \<Longrightarrow> hold_of (wd_proxy w) b = Some h \<Longrightarrow> hd_id g = hd_id h \<Longrightarrow> a = b"
    "c \<in> set (wd_conns w) \<Longrightarrow> in_hold (cn_pc c) = Some j \<Longrightarrow>
       \<exists>h. hold_of (wd_proxy w) (cn_host c) = Some h \<and> fits h j c"
  using assms unfolding counted_def by blast+

lemma countedI:
  assumes "distinct (map fst (px_held (wd_proxy w)))" "length (px_held (wd_proxy w)) \<le> max_held_hosts"
    "\<And>host h. hold_of (wd_proxy w) host = Some h \<Longrightarrow> hd_waiting h = members w host \<and> 0 < hd_waiting h \<and> hd_id h \<le> wd_next_id w"
    "\<And>a b g h. hold_of (wd_proxy w) a = Some g \<Longrightarrow> hold_of (wd_proxy w) b = Some h \<Longrightarrow> hd_id g = hd_id h \<Longrightarrow> a = b"
    "\<And>c j. c \<in> set (wd_conns w) \<Longrightarrow> in_hold (cn_pc c) = Some j \<Longrightarrow>
       \<exists>h. hold_of (wd_proxy w) (cn_host c) = Some h \<and> fits h j c"
  shows "counted w"
  using assms unfolding counted_def by blast

lemma hold_of_key: "hold_of px host = Some h \<Longrightarrow> host \<in> fst ` set (px_held px)"
  by (force simp: hold_of_def dest: map_of_SomeD)

lemma members_same:
  assumes "\<And>host. length (filter (is_member host) (wd_conns w')) = length (filter (is_member host) (wd_conns w))"
  shows "members w' host = members w host"
  using assms by (simp add: members_def)

lemma members_set_pc:
  assumes "i < length (wd_conns w)" "wd_conns w' = (wd_conns w)[i := (wd_conns w ! i)\<lparr>cn_pc := pc\<rparr>]"
  shows "members w' host + (if is_member host (wd_conns w ! i) then 1 else 0) =
    members w host + (if cn_host (wd_conns w ! i) = host \<and> in_hold pc \<noteq> None then 1 else 0)"
  using members_update [OF assms(1), of "is_member host" "(wd_conns w ! i)\<lparr>cn_pc := pc\<rparr>"]
  by (simp add: members_def assms(2) is_member_def)

lemma in_updated:
  "c \<in> set (cs[i := d]) \<Longrightarrow> c = d \<or> c \<in> set cs"
  using set_update_subset_insert [of cs i d] by auto

text \<open>A step that leaves the table alone and everyone in the hold they were in.\<close>

lemma counted_stays:
  assumes "counted w" "i < length (wd_conns w)" "in_hold pc = in_hold (cn_pc (wd_conns w ! i))"
    and "wd_conns w' = (wd_conns w)[i := (wd_conns w ! i)\<lparr>cn_pc := pc\<rparr>]"
    and "px_held (wd_proxy w') = px_held (wd_proxy w)" "wd_next_id w' = wd_next_id w"
  shows "counted w'"
proof (rule countedI)
  note c = countedD [OF assms(1)]
  have held: "hold_of (wd_proxy w') = hold_of (wd_proxy w)" by (simp add: hold_of_def fun_eq_iff assms(5))
  have members: "members w' host = members w host" for host
    using members_set_pc [OF assms(2,4), of host] assms(3) by (auto simp: is_member_def split: if_splits)
  show "distinct (map fst (px_held (wd_proxy w')))" "length (px_held (wd_proxy w')) \<le> max_held_hosts"
    using c(1,2) by (simp_all add: assms(5))
  show "hd_waiting h = members w' host \<and> 0 < hd_waiting h \<and> hd_id h \<le> wd_next_id w'"
    if "hold_of (wd_proxy w') host = Some h" for host h
    using c(3) that unfolding held members assms(6) .
  show "a = b" if "hold_of (wd_proxy w') a = Some g" "hold_of (wd_proxy w') b = Some h" "hd_id g = hd_id h" for a b g h
    using c(4) that unfolding held .
  fix c' j
  assume "c' \<in> set (wd_conns w')" "in_hold (cn_pc c') = Some j"
  then consider "c' \<in> set (wd_conns w)"
    | "c' = (wd_conns w ! i)\<lparr>cn_pc := pc\<rparr>" "in_hold (cn_pc (wd_conns w ! i)) = Some j"
    using assms(3,4) in_updated by fastforce
  then show "\<exists>h. hold_of (wd_proxy w') (cn_host c') = Some h \<and> fits h j c'"
  proof cases
    case 1
    with c(5) \<open>in_hold (cn_pc c') = Some j\<close> show ?thesis unfolding held by blast
  next
    case 2
    with c(5) [of "wd_conns w ! i" j] assms(2) show ?thesis unfolding held by (simp add: fits_def)
  qed
qed

lemma counted_joins:
  assumes "counted w" "i < length (wd_conns w)" "in_hold (cn_pc (wd_conns w ! i)) = None"
    and "join_hold (wd_next_id w) (wd_now w) (cn_host (wd_conns w ! i)) (cn_port (wd_conns w ! i)) (wd_proxy w) = Some (j, n, px)"
    and "in_hold pc = Some j" "wd_conns w' = (wd_conns w)[i := (wd_conns w ! i)\<lparr>cn_pc := pc\<rparr>]"
    and "wd_proxy w' = px" "wd_next_id w' = n"
  shows "counted w'"
proof -
  define c where "c = wd_conns w ! i"
  note cd = countedD [OF assms(1)]
  have members: "members w' host = members w host + (if host = cn_host c then 1 else 0)" for host
    using members_set_pc [OF assms(2,6), of host] assms(3,5) by (auto simp: is_member_def c_def split: if_splits)
  have old: "d \<in> set (wd_conns w') \<Longrightarrow> d = c\<lparr>cn_pc := pc\<rparr> \<or> d \<in> set (wd_conns w)" for d
    using in_updated by (fastforce simp: assms(6) c_def)
  show ?thesis
  proof (cases "hold_of (wd_proxy w) (cn_host c)")
    case None
    with assms(4) have j: "j = \<lparr>jn_id = wd_next_id w + 1, jn_since = wd_now w, jn_first = True\<rparr>" "n = wd_next_id w + 1"
        "length (px_held (wd_proxy w)) < max_held_hosts"
        "px = (wd_proxy w)\<lparr>px_held := (cn_host c, \<lparr>hd_id = wd_next_id w + 1, hd_since = wd_now w,
            hd_port = cn_port c, hd_waiting = 1\<rparr>) # px_held (wd_proxy w)\<rparr>"
      by (auto simp: join_hold_def c_def split: if_splits)
    define h0 where "h0 = \<lparr>hd_id = wd_next_id w + 1, hd_since = wd_now w, hd_port = cn_port c, hd_waiting = 1\<rparr>"
    have held: "hold_of (wd_proxy w') host = (if host = cn_host c then Some h0 else hold_of (wd_proxy w) host)" for host
      by (simp add: hold_of_def assms(7) j(4) h0_def)
    have fresh: "cn_host d = cn_host c \<Longrightarrow> d \<in> set (wd_conns w) \<Longrightarrow> in_hold (cn_pc d) = None" for d
      using cd(5) [of d] None by (cases "in_hold (cn_pc d)") auto
    then have none: "members w (cn_host c) = 0" by (auto simp: members_def is_member_def filter_empty_conv)
    show ?thesis
    proof (rule countedI)
      show "distinct (map fst (px_held (wd_proxy w')))"
        using cd(1) None by (auto simp: assms(7) j(4) hold_of_def map_of_eq_None_iff)
      show "length (px_held (wd_proxy w')) \<le> max_held_hosts" using j(3) by (simp add: assms(7) j(4))
      show "hd_waiting h = members w' host \<and> 0 < hd_waiting h \<and> hd_id h \<le> wd_next_id w'"
        if "hold_of (wd_proxy w') host = Some h" for host h
        using that cd(3) [of host h] none unfolding held members
        by (auto simp: h0_def assms(8) j(2) split: if_splits)
      show "a = b" if "hold_of (wd_proxy w') a = Some g" "hold_of (wd_proxy w') b = Some h" "hd_id g = hd_id h" for a b g h
      proof (cases "a = cn_host c \<or> b = cn_host c")
        case False
        with that(1,2) have "hold_of (wd_proxy w) a = Some g" "hold_of (wd_proxy w) b = Some h" unfolding held by simp_all
        then show ?thesis using that(3) by (rule cd(4))
      next
        case True
        have old_id: "hd_id h' \<noteq> hd_id h0" if "e \<noteq> cn_host c" "hold_of (wd_proxy w') e = Some h'" for e h'
          using cd(3) [of e h'] that unfolding held by (simp add: h0_def)
        have new_id: "h' = h0" if "e = cn_host c" "hold_of (wd_proxy w') e = Some h'" for e h'
          using that unfolding held by simp
        show ?thesis
        proof (rule ccontr)
          assume "a \<noteq> b"
          with True consider "a = cn_host c" "b \<noteq> cn_host c" | "a \<noteq> cn_host c" "b = cn_host c" by blast
          then show False
          proof cases
            case 1
            with old_id [OF 1(2) that(2)] new_id [OF 1(1) that(1)] that(3) show ?thesis by simp
          next
            case 2
            with old_id [OF 2(1) that(1)] new_id [OF 2(2) that(2)] that(3) show ?thesis by simp
          qed
        qed
      qed
      fix d k
      assume d: "d \<in> set (wd_conns w')" "in_hold (cn_pc d) = Some k"
      then show "\<exists>h. hold_of (wd_proxy w') (cn_host d) = Some h \<and> fits h k d"
        using old [OF d(1)] fresh [of d] cd(5) [of d k] assms(5) unfolding held
        by (auto simp: fits_def h0_def j(1))
    qed
  next
    case (Some h1)
    with assms(4) have j: "j = \<lparr>jn_id = hd_id h1, jn_since = hd_since h1, jn_first = False\<rparr>" "n = wd_next_id w"
        "px = (wd_proxy w)\<lparr>px_held := AList.update (cn_host c) (h1\<lparr>hd_waiting := hd_waiting h1 + 1\<rparr>) (px_held (wd_proxy w))\<rparr>"
      by (auto simp: join_hold_def c_def)
    define h2 where "h2 = h1\<lparr>hd_waiting := hd_waiting h1 + 1\<rparr>"
    have held: "hold_of (wd_proxy w') host = (if host = cn_host c then Some h2 else hold_of (wd_proxy w) host)" for host
      by (simp add: hold_of_def assms(7) j(3) h2_def update_conv')
    have keys: "map fst (px_held (wd_proxy w')) = map fst (px_held (wd_proxy w))"
      using hold_of_key [OF Some] by (simp add: assms(7) j(3) update_keys)
    show ?thesis
    proof (rule countedI)
      show "distinct (map fst (px_held (wd_proxy w')))" using cd(1) by (simp add: keys)
      show "length (px_held (wd_proxy w')) \<le> max_held_hosts" using cd(2) arg_cong [OF keys, of length] by simp
      show "hd_waiting h = members w' host \<and> 0 < hd_waiting h \<and> hd_id h \<le> wd_next_id w'"
        if "hold_of (wd_proxy w') host = Some h" for host h
        using that cd(3) [of host h] cd(3) [OF Some] unfolding held members
        by (auto simp: h2_def assms(8) j(2) split: if_splits)
      show "a = b" if "hold_of (wd_proxy w') a = Some g" "hold_of (wd_proxy w') b = Some h" "hd_id g = hd_id h" for a b g h
      proof -
        have "\<exists>h'. hold_of (wd_proxy w) e = Some h' \<and> hd_id h' = hd_id f" if "hold_of (wd_proxy w') e = Some f" for e f
          using that Some unfolding held by (cases "e = cn_host c") (auto simp: h2_def)
        from this [OF that(1)] this [OF that(2)] that(3) cd(4) show ?thesis by metis
      qed
      fix d k
      assume d: "d \<in> set (wd_conns w')" "in_hold (cn_pc d) = Some k"
      then show "\<exists>h. hold_of (wd_proxy w') (cn_host d) = Some h \<and> fits h k d"
        using old [OF d(1)] cd(5) [of d k] assms(5) Some unfolding held
        by (auto simp: fits_def h2_def j(1))
    qed
  qed
qed

lemma counted_leaves:
  assumes "counted w" "i < length (wd_conns w)" "in_hold (cn_pc (wd_conns w ! i)) = Some j0" "in_hold pc = None"
    and "wd_conns w' = (wd_conns w)[i := (wd_conns w ! i)\<lparr>cn_pc := pc\<rparr>]"
    and "wd_proxy w' = snd (leave_hold (cn_host (wd_conns w ! i)) (wd_proxy w))" "wd_next_id w' = wd_next_id w"
  shows "counted w'"
proof -
  define c where "c = wd_conns w ! i"
  note cd = countedD [OF assms(1)]
  have "c \<in> set (wd_conns w)" using assms(2) by (simp add: c_def)
  then obtain h1 where h1: "hold_of (wd_proxy w) (cn_host c) = Some h1" using cd(5) assms(3) c_def by blast
  note count = cd(3) [OF h1]
  have members: "members w' host + (if host = cn_host c then 1 else 0) = members w host" for host
    using members_set_pc [OF assms(2,5), of host] assms(3,4) by (auto simp: is_member_def c_def split: if_splits)
  have old: "d \<in> set (wd_conns w)" if "d \<in> set (wd_conns w')" "in_hold (cn_pc d) = Some k" for d k
    using in_updated [OF that(1) [unfolded assms(5)]] that(2) assms(4) by auto
  have here: "is_member (cn_host d) d \<and> d \<in> set (wd_conns w')"
    if "d \<in> set (wd_conns w')" "in_hold (cn_pc d) = Some k" for d k
    using that by (simp add: is_member_def)
  show ?thesis
  proof (cases "hd_waiting h1 - 1 > 0")
    case True
    define h2 where "h2 = h1\<lparr>hd_waiting := hd_waiting h1 - 1\<rparr>"
    have px: "wd_proxy w' = (wd_proxy w)\<lparr>px_held := AList.update (cn_host c) h2 (px_held (wd_proxy w))\<rparr>"
      using True h1 by (simp add: assms(6) leave_hold_def c_def h2_def)
    have held: "hold_of (wd_proxy w') host = (if host = cn_host c then Some h2 else hold_of (wd_proxy w) host)" for host
      by (simp add: hold_of_def px update_conv')
    have keys: "map fst (px_held (wd_proxy w')) = map fst (px_held (wd_proxy w))"
      using hold_of_key [OF h1] by (simp add: px update_keys)
    show ?thesis
    proof (rule countedI)
      show "distinct (map fst (px_held (wd_proxy w')))" using cd(1) by (simp add: keys)
      show "length (px_held (wd_proxy w')) \<le> max_held_hosts" using cd(2) arg_cong [OF keys, of length] by simp
      show "hd_waiting h = members w' host \<and> 0 < hd_waiting h \<and> hd_id h \<le> wd_next_id w'"
        if "hold_of (wd_proxy w') host = Some h" for host h
        using that cd(3) [of host h] count members [of host] True unfolding held
        by (auto simp: h2_def assms(7) split: if_splits)
      show "a = b" if "hold_of (wd_proxy w') a = Some g" "hold_of (wd_proxy w') b = Some h" "hd_id g = hd_id h" for a b g h
      proof -
        have "\<exists>h'. hold_of (wd_proxy w) e = Some h' \<and> hd_id h' = hd_id f" if "hold_of (wd_proxy w') e = Some f" for e f
          using that h1 unfolding held by (cases "e = cn_host c") (auto simp: h2_def)
        from this [OF that(1)] this [OF that(2)] that(3) cd(4) show ?thesis by metis
      qed
      show "\<exists>h. hold_of (wd_proxy w') (cn_host d) = Some h \<and> fits h k d"
        if "d \<in> set (wd_conns w')" "in_hold (cn_pc d) = Some k" for d k
        using cd(5) [OF old [OF that] that(2)] h1 unfolding held by (auto simp: fits_def h2_def)
    qed
  next
    case False
    have px: "wd_proxy w' = (wd_proxy w)\<lparr>px_held := AList.delete (cn_host c) (px_held (wd_proxy w))\<rparr>"
      using False h1 by (simp add: assms(6) leave_hold_def c_def)
    have held: "hold_of (wd_proxy w') host = (if host = cn_host c then None else hold_of (wd_proxy w) host)" for host
      by (simp add: hold_of_def px delete_conv')
    have none: "members w' (cn_host c) = 0" using False count members [of "cn_host c"] by simp
    have gone: "cn_host d \<noteq> cn_host c" if "d \<in> set (wd_conns w')" "in_hold (cn_pc d) = Some k" for d k
      using here [OF that] none by (auto simp: members_def filter_empty_conv)
    show ?thesis
    proof (rule countedI)
      show "distinct (map fst (px_held (wd_proxy w')))" using cd(1) by (simp add: px distinct_delete)
      show "length (px_held (wd_proxy w')) \<le> max_held_hosts"
        using cd(2) length_delete_le [of "cn_host c" "px_held (wd_proxy w)"] by (simp add: px)
      show "hd_waiting h = members w' host \<and> 0 < hd_waiting h \<and> hd_id h \<le> wd_next_id w'"
        if "hold_of (wd_proxy w') host = Some h" for host h
        using that cd(3) [of host h] members [of host] unfolding held by (auto simp: assms(7) split: if_splits)
      show "a = b" if "hold_of (wd_proxy w') a = Some g" "hold_of (wd_proxy w') b = Some h" "hd_id g = hd_id h" for a b g h
        using that(1,2) cd(4) [of a g b h, OF _ _ that(3)] unfolding held by (auto split: if_splits)
      show "\<exists>h. hold_of (wd_proxy w') (cn_host d) = Some h \<and> fits h k d"
        if "d \<in> set (wd_conns w')" "in_hold (cn_pc d) = Some k" for d k
        using cd(5) [OF old [OF that] that(2)] gone [OF that] unfolding held by simp
    qed
  qed
qed

lemma counted_frame:
  assumes "counted w" "px_held (wd_proxy w') = px_held (wd_proxy w)" "wd_next_id w \<le> wd_next_id w'" "wd_conns w' = wd_conns w"
  shows "counted w'"
  using assms(1) le_trans [OF _ assms(3)] unfolding counted_def hold_of_def members_def assms(2,4) by blast

lemma counted_arrives:
  assumes "counted w" "in_hold (cn_pc c) = None" "wd_conns w' = wd_conns w @ [c]" "wd_proxy w' = wd_proxy w"
    "wd_next_id w' = wd_next_id w"
  shows "counted w'"
proof -
  have members: "members w' host = members w host" for host
    using assms(2,3) by (simp add: members_def is_member_def)
  note cd = countedD [OF assms(1)]
  show ?thesis
  proof (rule countedI)
    fix d j
    assume "d \<in> set (wd_conns w')" "in_hold (cn_pc d) = Some j"
    with assms(2,3) have "d \<in> set (wd_conns w)" "in_hold (cn_pc d) = Some j" by auto
    then show "\<exists>h. hold_of (wd_proxy w') (cn_host d) = Some h \<and> fits h j d"
      unfolding assms(4) by (rule cd(5))
  qed (unfold assms(4,5) members, fact cd, fact cd, rule cd(3), assumption, rule cd(4))
qed

lemma in_hold_simps [simp]:
  "in_hold (Deciding r) = None" "in_hold Subscribing = None" "in_hold (Joining g) = None" "in_hold (Announcing g j) = Some j"
  "in_hold (Checking r g j) = Some j" "in_hold (Waiting g j) = Some j" "in_hold (Leaving j a) = Some j"
  "in_hold (Ending j p a) = None" "in_hold (Refusing d) = None" "in_hold (Tunnel ad) = None" "in_hold Gone = None"
  "in_hold (after_hold a) = None"
  by (simp_all add: in_hold_def after_hold_def split: option.split)

text \<open>The four ways a connection's step touches the table: not at all, by joining, by not joining, by leaving.\<close>

lemma next_cases:
  assumes "conn_next w c = Some (pc, px, n, evs)"
  obtains (stays) "in_hold pc = in_hold (cn_pc c)" "px = wd_proxy w" "n = wd_next_id w"
  | (joins) g j where "cn_pc c = Joining g" "join_hold (wd_next_id w) (wd_now w) (cn_host c) (cn_port c) (wd_proxy w) = Some (j, n, px)"
      "pc = (if jn_first j then Announcing g j else Checking RdPolicy g j)" "evs = []"
  | (leaves) j a where "cn_pc c = Leaving j a" "px = snd (leave_hold (cn_host c) (wd_proxy w))" "n = wd_next_id w"
      "pc = (case fst (leave_hold (cn_host c) (wd_proxy w)) of Some p \<Rightarrow> Ending j p a | None \<Rightarrow> after_hold a)" "evs = []"
  using assms
  by (cases "cn_pc c") (auto simp: conn_next_def Let_def split: sum.splits eg_verdict.splits option.splits prod.splits if_splits)

lemma counted_step:
  assumes "counted w" "egress_step w w'"
  shows "counted w'"
  using assms(2)
proof cases
  case (arrives t host port)
  then show ?thesis
    by (intro counted_arrives [OF assms(1), of "arrival host port w"]) (simp_all add: arrival_def)
next
  case (moves i)
  then obtain pc px n evs where nxt: "i < length (wd_conns w)" "conn_next w (wd_conns w ! i) = Some (pc, px, n, evs)"
    and w': "w' = set_pc i pc (w\<lparr>wd_proxy := px, wd_next_id := n, wd_events := wd_events w @ evs\<rparr>)"
    by (elim conn_moveE)
  from nxt(2) show ?thesis
  proof (cases rule: next_cases)
    case stays
    then show ?thesis using assms(1) nxt(1) by (intro counted_stays [of w i pc w']) (simp_all add: w')
  next
    case (joins g j)
    then show ?thesis using assms(1) nxt(1) by (intro counted_joins [of w i j n px pc w']) (simp_all add: w')
  next
    case (leaves j a)
    then show ?thesis using assms(1) nxt(1)
      by (intro counted_leaves [of w i j pc w']) (simp_all add: w' split: option.split)
  qed
next
  case (tunnel_ends i a evs message up down)
  then show ?thesis using assms(1) by (intro counted_stays [of w i Gone w']) simp_all
next
  case (changes i)
  then show ?thesis using assms(1) by (intro counted_frame [of w w']) (simp_all add: change_move_fields)
qed (simp_all add: counted_frame [OF assms(1)])

lemma reach_counted: "egress_reach w \<Longrightarrow> counted w"
proof (induction rule: egress_reach.induct)
  case (first pol m timeout next_id now)
  then show ?case by (simp add: counted_def proxy_start_def hold_of_def)
qed (rule counted_step)

text \<open>
  Claim C37. The holds are bounded and account for who waits: in every interleaving at most four hosts
  are held, each once, a held host counts exactly the connections in its hold and always at least one,
  and a connection in a hold finds its host held, under the id it joined.
\<close>

theorem holds_accounted:
  assumes "egress_reach w"
  shows "length (px_held (wd_proxy w)) \<le> 4 \<and> distinct (map fst (px_held (wd_proxy w))) \<and>
    (\<forall>host h. hold_of (wd_proxy w) host = Some h \<longrightarrow>
       hd_waiting h = length (filter (is_member host) (wd_conns w)) \<and> 0 < hd_waiting h) \<and>
    (\<forall>c \<in> set (wd_conns w). \<forall>j. in_hold (cn_pc c) = Some j \<longrightarrow>
       (\<exists>h. hold_of (wd_proxy w) (cn_host c) = Some h \<and> hd_id h = jn_id j))"
  using reach_counted [OF assms] unfolding counted_def members_def fits_def max_held_hosts_def by blast

end
