(* ===== verification/Egress_Told.thy ===== *)
theory Egress_Told
  imports Egress_Holds
begin

text \<open>
  What is told of the holds. A law of conservation carries it: of any set of holds, those announced and
  those about to be are as many as those open, those whose end is told and those about to be told.
\<close>

section \<open>Counting\<close>

definition tally :: "('a \<Rightarrow> bool) \<Rightarrow> 'a list \<Rightarrow> nat" where
  "tally P xs = length (filter P xs)"

lemma tally_simps [simp]:
  "tally P [] = 0" "tally P (x # xs) = of_bool (P x) + tally P xs" "tally P (xs @ ys) = tally P xs + tally P ys"
  by (simp_all add: tally_def)

lemma tally_0: "tally P xs = 0 \<longleftrightarrow> (\<forall>x \<in> set xs. \<not> P x)"
  by (simp add: tally_def filter_empty_conv)

lemma tally_pos: "0 < tally P xs \<longleftrightarrow> (\<exists>x \<in> set xs. P x)"
  using tally_0 [of P xs] by auto

lemma tally_update: "i < length xs \<Longrightarrow> tally P (xs[i := y]) + of_bool (P (xs ! i)) = tally P xs + of_bool (P y)"
proof (induction xs arbitrary: i)
  case (Cons x xs)
  then show ?case by (cases i) simp_all
qed simp

lemma tally_mono: "(\<And>x. x \<in> set xs \<Longrightarrow> P x \<Longrightarrow> Q x) \<Longrightarrow> tally P xs \<le> tally Q xs"
  by (induction xs) auto

lemma tally_AList_update:
  "distinct (map fst al) \<Longrightarrow> map_of al k = Some v0 \<Longrightarrow>
     tally P (AList.update k v al) + of_bool (P (k, v0)) = tally P al + of_bool (P (k, v))"
proof (induction al)
  case (Cons a al)
  then show ?case by (cases a) (auto split: if_splits)
qed simp

lemma tally_AList_delete:
  "distinct (map fst al) \<Longrightarrow> map_of al k = Some v0 \<Longrightarrow> tally P (AList.delete k al) + of_bool (P (k, v0)) = tally P al"
proof (induction al)
  case (Cons a al)
  have "k \<notin> fst ` set al \<Longrightarrow> AList.delete k al = al"
    by (induction al) auto
  with Cons show ?case by (cases a) (auto split: if_splits)
qed simp

section \<open>The law\<close>

text \<open>A set of holds is one of ids, hosts and ports.\<close>

type_synonym holds = "nat \<Rightarrow> string \<Rightarrow> port \<Rightarrow> bool"

definition announces :: "holds \<Rightarrow> conn \<Rightarrow> bool" where
  "announces P c = (case cn_pc c of Announcing _ j \<Rightarrow> P (jn_id j) (cn_host c) (cn_port c) | _ \<Rightarrow> False)"

definition ends :: "holds \<Rightarrow> conn \<Rightarrow> bool" where
  "ends P c = (case cn_pc c of Ending j p _ \<Rightarrow> P (jn_id j) (cn_host c) p | _ \<Rightarrow> False)"

definition tells_held :: "holds \<Rightarrow> egress_event \<Rightarrow> bool" where
  "tells_held P e = (case e of EvHeld n h p \<Rightarrow> P n h p | _ \<Rightarrow> False)"

definition tells_ended :: "holds \<Rightarrow> egress_event \<Rightarrow> bool" where
  "tells_ended P e = (case e of EvHoldEnded n h p _ \<Rightarrow> P n h p | _ \<Rightarrow> False)"

definition open_hold :: "holds \<Rightarrow> string \<times> hold \<Rightarrow> bool" where
  "open_hold P hh \<longleftrightarrow> P (hd_id (snd hh)) (fst hh) (hd_port (snd hh))"

definition announcers :: "holds \<Rightarrow> egress_world \<Rightarrow> nat" where "announcers P w = tally (announces P) (wd_conns w)"
definition enders :: "holds \<Rightarrow> egress_world \<Rightarrow> nat" where "enders P w = tally (ends P) (wd_conns w)"
definition announced :: "holds \<Rightarrow> egress_world \<Rightarrow> nat" where "announced P w = tally (tells_held P) (wd_events w)"
definition ended :: "holds \<Rightarrow> egress_world \<Rightarrow> nat" where "ended P w = tally (tells_ended P) (wd_events w)"
definition still_open :: "holds \<Rightarrow> egress_world \<Rightarrow> nat" where "still_open P w = tally (open_hold P) (px_held (wd_proxy w))"

lemma announces_iff: "announces P c \<longleftrightarrow> (\<exists>g j. cn_pc c = Announcing g j \<and> P (jn_id j) (cn_host c) (cn_port c))"
  by (cases "cn_pc c") (simp_all add: announces_def)

lemma ends_iff: "ends P c \<longleftrightarrow> (\<exists>j p a. cn_pc c = Ending j p a \<and> P (jn_id j) (cn_host c) p)"
  by (cases "cn_pc c") (simp_all add: ends_def)

lemma tells_iff:
  "tells_held P e \<longleftrightarrow> (\<exists>n h p. e = EvHeld n h p \<and> P n h p)" "tells_ended P e \<longleftrightarrow> (\<exists>n h p a. e = EvHoldEnded n h p a \<and> P n h p)"
  by (cases e; simp add: tells_held_def tells_ended_def)+

lemmas told_defs = announcers_def enders_def announced_def ended_def still_open_def

text \<open>What a step does to the two sides of the law, and that ids are used once.\<close>

definition balanced :: "holds \<Rightarrow> egress_world \<Rightarrow> bool" where
  "balanced P w \<longleftrightarrow> announcers P w + announced P w = still_open P w + enders P w + ended P w"

definition with_id :: "nat \<Rightarrow> holds" where "with_id n m h p \<longleftrightarrow> m = n"

definition once :: "egress_world \<Rightarrow> bool" where
  "once w \<longleftrightarrow> (\<forall>n. announcers (with_id n) w + announced (with_id n) w \<le> of_bool (n \<le> wd_next_id w))"

text \<open>The two invariants read the world through these numbers only.\<close>

lemma set_pc_tally:
  "i < length (wd_conns w) \<Longrightarrow>
     tally (announces P) (wd_conns (set_pc i pc w)) + of_bool (announces P (wd_conns w ! i)) =
       tally (announces P) (wd_conns w) + of_bool (announces P ((wd_conns w ! i)\<lparr>cn_pc := pc\<rparr>))"
  "i < length (wd_conns w) \<Longrightarrow>
     tally (ends P) (wd_conns (set_pc i pc w)) + of_bool (ends P (wd_conns w ! i)) =
       tally (ends P) (wd_conns w) + of_bool (ends P ((wd_conns w ! i)\<lparr>cn_pc := pc\<rparr>))"
  by (simp_all add: tally_update)

text \<open>
  A connection's step: what it adds to each count and takes from it. The hold it may open or close is
  its own.
\<close>

lemma move_balances:
  assumes "counted w" "i < length (wd_conns w)" "conn_next w (wd_conns w ! i) = Some (pc, px, n, evs)"
  defines "c \<equiv> wd_conns w ! i" and "c' \<equiv> (wd_conns w ! i)\<lparr>cn_pc := pc\<rparr>"
  shows "tally (open_hold P) (px_held px) + of_bool (announces P c) + of_bool (ends P c') + tally (tells_ended P) evs =
    tally (open_hold P) (px_held (wd_proxy w)) + of_bool (announces P c') + of_bool (ends P c) + tally (tells_held P) evs"
    and "of_bool (announces P c') + tally (tells_held P) evs \<le>
      of_bool (announces P c) + (of_bool (P (Suc (wd_next_id w)) (cn_host c) (cn_port c)) * (n - wd_next_id w))"
    and "n = wd_next_id w \<or> n = Suc (wd_next_id w)"
proof -
  note cd = countedD [OF assms(1)]
  have mem: "c \<in> set (wd_conns w)" using assms(2) by (simp add: c_def)
  have "(tally (open_hold P) (px_held px) + of_bool (announces P c) + of_bool (ends P c') + tally (tells_ended P) evs =
    tally (open_hold P) (px_held (wd_proxy w)) + of_bool (announces P c') + of_bool (ends P c) + tally (tells_held P) evs) \<and>
    of_bool (announces P c') + tally (tells_held P) evs \<le>
      of_bool (announces P c) + (of_bool (P (Suc (wd_next_id w)) (cn_host c) (cn_port c)) * (n - wd_next_id w)) \<and>
    (n = wd_next_id w \<or> n = Suc (wd_next_id w))"
  proof (cases "cn_pc c")
    case (Joining g)
    show ?thesis
    proof (cases "join_hold (wd_next_id w) (wd_now w) (cn_host c) (cn_port c) (wd_proxy w)")
      case None
      with Joining assms(3) show ?thesis
        by (auto simp: c_def c'_def conn_next_def Let_def announces_def ends_def)
    next
      case (Some r)
      then obtain j where r: "r = (j, n, px)" "pc = (if jn_first j then Announcing g j else Checking RdPolicy g j)" "evs = []"
        using Joining assms(3) by (cases r) (auto simp: c_def conn_next_def Let_def)
      show ?thesis
      proof (cases "hold_of (wd_proxy w) (cn_host c)")
        case None
        with Some r Joining show ?thesis
          by (auto simp: c_def c'_def join_hold_def announces_def ends_def open_hold_def split: if_splits)
      next
        case (Some h)
        with tally_AList_update [OF cd(1), of "cn_host c" h "open_hold P" "h\<lparr>hd_waiting := hd_waiting h + 1\<rparr>"]
          \<open>join_hold _ _ _ _ _ = Some r\<close> r Joining
        show ?thesis
          by (auto simp: c_def c'_def join_hold_def announces_def ends_def open_hold_def hold_of_def)
      qed
    qed
  next
    case (Leaving j a)
    with cd(5) [OF mem, of j] obtain h where h: "hold_of (wd_proxy w) (cn_host c) = Some h" "hd_id h = jn_id j"
      by (auto simp: fits_def)
    show ?thesis
    proof (cases "hd_waiting h - 1 > 0")
      case True
      with tally_AList_update [OF cd(1), of "cn_host c" h "open_hold P" "h\<lparr>hd_waiting := hd_waiting h - 1\<rparr>"] h Leaving assms(3)
      show ?thesis
        by (auto simp: c_def c'_def conn_next_def Let_def leave_hold_def announces_def ends_def open_hold_def hold_of_def
            after_hold_def split: option.splits)
    next
      case False
      with tally_AList_delete [OF cd(1), of "cn_host c" h "open_hold P"] h Leaving assms(3)
      show ?thesis
        by (auto simp: c_def c'_def conn_next_def Let_def leave_hold_def announces_def ends_def open_hold_def hold_of_def)
    qed
  qed (use assms(3) in \<open>auto simp: c_def c'_def conn_next_def Let_def announces_def ends_def tells_held_def tells_ended_def after_hold_def
      split: option.splits sum.splits eg_verdict.splits if_splits\<close>)
  then show "tally (open_hold P) (px_held px) + of_bool (announces P c) + of_bool (ends P c') + tally (tells_ended P) evs =
    tally (open_hold P) (px_held (wd_proxy w)) + of_bool (announces P c') + of_bool (ends P c) + tally (tells_held P) evs"
    "of_bool (announces P c') + tally (tells_held P) evs \<le>
      of_bool (announces P c) + (of_bool (P (Suc (wd_next_id w)) (cn_host c) (cn_port c)) * (n - wd_next_id w))"
    "n = wd_next_id w \<or> n = Suc (wd_next_id w)" by blast+
qed

lemma tally_conns:
  assumes "i < length (wd_conns w)" "wd_conns w' = (wd_conns w)[i := (wd_conns w ! i)\<lparr>cn_pc := pc\<rparr>]"
  shows "announcers P w' + of_bool (announces P (wd_conns w ! i)) = announcers P w + of_bool (announces P ((wd_conns w ! i)\<lparr>cn_pc := pc\<rparr>))"
    "enders P w' + of_bool (ends P (wd_conns w ! i)) = enders P w + of_bool (ends P ((wd_conns w ! i)\<lparr>cn_pc := pc\<rparr>))"
  using tally_update [OF assms(1)] by (simp_all add: announcers_def enders_def assms(2))

text \<open>A step of no connection tells nothing of a hold, and leaves the table as it is.\<close>

definition quiet :: "egress_world \<Rightarrow> egress_world \<Rightarrow> bool" where
  "quiet w w' \<longleftrightarrow>
     (\<forall>P. announcers P w' = announcers P w \<and> enders P w' = enders P w \<and> announced P w' = announced P w \<and>
        ended P w' = ended P w \<and> still_open P w' = still_open P w) \<and> wd_next_id w \<le> wd_next_id w'"

lemma quiet_frame:
  assumes "wd_conns w' = wd_conns w" "wd_events w' = wd_events w" "px_held (wd_proxy w') = px_held (wd_proxy w)"
    "wd_next_id w \<le> wd_next_id w'"
  shows "quiet w w'"
  using assms by (simp add: quiet_def told_defs)

lemma step_tells:
  assumes "egress_step w w'"
  obtains "quiet w w'" | i where "conn_move w i = Some w'"
  using assms
proof cases
  case (arrives t host port)
  then have "quiet w w'" by (simp add: quiet_def told_defs arrival_def announces_def ends_def)
  then show thesis by (rule that(1))
next
  case (moves i)
  then show thesis by (rule that(2))
next
  case (tunnel_ends i a evs message up down)
  have "tells_held P e \<noteq> True" "tells_ended P e \<noteq> True" if "e \<in> set evs" for P e
    using tunnel_ends(4) that by (auto simp: tells_held_def tells_ended_def)
  then have "tally (tells_held P) evs = 0" "tally (tells_ended P) evs = 0" for P
    by (auto simp: tally_0)
  moreover have "announcers P w' = announcers P w" "enders P w' = enders P w" for P
    using tally_conns [of i w w' Gone P] tunnel_ends(1-3) by (simp_all add: announces_def ends_def)
  ultimately have "quiet w w'" by (simp add: quiet_def tunnel_ends(1) announced_def ended_def still_open_def)
  then show thesis by (rule that(1))
next
  case (changes i)
  then show thesis by (intro that(1) quiet_frame) (simp_all add: change_move_fields)
qed (auto intro!: that(1) quiet_frame)

lemma told_step:
  assumes "egress_step w w'" "counted w"
  shows "balanced P w \<Longrightarrow> balanced P w'" and "once w \<Longrightarrow> once w'"
proof -
  from assms(1) have "(balanced P w \<longrightarrow> balanced P w') \<and> (once w \<longrightarrow> once w')"
  proof (cases rule: step_tells)
    case 1
    have "of_bool (n \<le> wd_next_id w) \<le> (of_bool (n \<le> wd_next_id w') :: nat)" for n using 1 by (auto simp: quiet_def)
    with 1 show ?thesis unfolding balanced_def once_def quiet_def by (metis le_trans)
  next
    case (2 i)
    then obtain pc px n evs where nxt: "i < length (wd_conns w)" "conn_next w (wd_conns w ! i) = Some (pc, px, n, evs)"
      and w': "w' = set_pc i pc (w\<lparr>wd_proxy := px, wd_next_id := n, wd_events := wd_events w @ evs\<rparr>)"
      by (elim conn_moveE)
    have conns: "wd_conns w' = (wd_conns w)[i := (wd_conns w ! i)\<lparr>cn_pc := pc\<rparr>]" by (simp add: w')
    have events: "announced Q w' = announced Q w + tally (tells_held Q) evs" "ended Q w' = ended Q w + tally (tells_ended Q) evs" for Q
      by (simp_all add: w' announced_def ended_def)
    have table: "still_open Q w' = tally (open_hold Q) (px_held px)" for Q by (simp add: w' still_open_def)
    note moved = move_balances [OF assms(2) nxt]
    note here = tally_conns [OF nxt(1) conns]
    have "balanced P w'" if "balanced P w"
      using that here [of P] moved(1) [of P] events [of P] table [of P]
      unfolding balanced_def still_open_def [of P w] by linarith
    moreover have "announcers (with_id m) w' + announced (with_id m) w' \<le> of_bool (m \<le> wd_next_id w')" if "once w" for m
    proof -
      have "announcers (with_id m) w' + announced (with_id m) w' \<le> announcers (with_id m) w + announced (with_id m) w +
          of_bool (m = Suc (wd_next_id w)) * (n - wd_next_id w)"
        using here(1) [of "with_id m"] moved(2) [of "with_id m"] events(1) [of "with_id m"] by (simp add: with_id_def eq_commute)
      moreover have "announcers (with_id m) w + announced (with_id m) w \<le> of_bool (m \<le> wd_next_id w)"
        using that by (simp add: once_def)
      moreover have "wd_next_id w' = n" by (simp add: w')
      ultimately show ?thesis using moved(3) by (cases "m = Suc (wd_next_id w)") (auto simp: of_bool_def split: if_splits)
    qed
    ultimately show ?thesis by (auto simp: once_def)
  qed
  then show "balanced P w \<Longrightarrow> balanced P w'" and "once w \<Longrightarrow> once w'" by blast+
qed

lemma reach_told: "egress_reach w \<Longrightarrow> balanced P w \<and> once w"
proof (induction rule: egress_reach.induct)
  case (first pol m timeout next_id now)
  then show ?case by (simp add: balanced_def once_def told_defs proxy_start_def)
next
  case (later w w')
  then show ?case using told_step [OF later(2) reach_counted [OF later(1)]] by blast
qed

section \<open>What follows\<close>

lemma announced_once:
  assumes "egress_reach w"
  shows "announcers (with_id n) w + announced (with_id n) w \<le> 1"
proof -
  have "announcers (with_id n) w + announced (with_id n) w \<le> of_bool (n \<le> wd_next_id w)"
    using reach_told [OF assms, of "with_id n"] by (simp add: once_def)
  then show ?thesis by (simp split: if_splits add: of_bool_def)
qed

lemma announcer_open:
  assumes "counted w" "0 < announcers (with_id n) w"
  shows "0 < still_open (with_id n) w"
proof -
  from assms(2) obtain c g j where c: "c \<in> set (wd_conns w)" "cn_pc c = Announcing g j" "jn_id j = n"
    by (auto simp: announcers_def tally_pos announces_iff with_id_def)
  with countedD(5) [OF assms(1), of c j] obtain h where "hold_of (wd_proxy w) (cn_host c) = Some h" "hd_id h = n"
    by (auto simp: fits_def)
  then have "(cn_host c, h) \<in> set (px_held (wd_proxy w))" "hd_id h = n" by (auto simp: hold_of_def dest: map_of_SomeD)
  then show ?thesis by (force simp: still_open_def tally_pos open_hold_def with_id_def)
qed

definition this_hold :: "nat \<Rightarrow> string \<Rightarrow> port \<Rightarrow> holds" where
  "this_hold n h p m g q \<longleftrightarrow> m = n \<and> g = h \<and> q = p"

lemma hold_end_announced:
  assumes "egress_reach w" "EvHoldEnded n h p a \<in> set (wd_events w)"
  shows "EvHeld n h p \<in> set (wd_events w)" "still_open (with_id n) w = 0" "ended (with_id n) w = 1"
proof -
  from assms(2) have ended: "0 < ended (with_id n) w" "0 < ended (this_hold n h p) w"
    by (auto simp: ended_def tally_pos tells_ended_def with_id_def this_hold_def intro!: bexI [OF _ assms(2)])
  note told = reach_told [OF assms(1)]
  have le: "announcers (with_id n) w + announced (with_id n) w \<le> 1" by (rule announced_once [OF assms(1)])
  then have counts: "still_open (with_id n) w = 0" "ended (with_id n) w = 1"
    using told [of "with_id n"] ended(1) by (auto simp: balanced_def)
  then show "still_open (with_id n) w = 0" "ended (with_id n) w = 1" by auto
  have "announcers (with_id n) w = 0" using counts(1) announcer_open [OF reach_counted [OF assms(1)], of n] by auto
  moreover have "announcers (this_hold n h p) w \<le> announcers (with_id n) w"
    unfolding announcers_def by (rule tally_mono) (auto simp: announces_iff with_id_def this_hold_def)
  ultimately have "0 < announced (this_hold n h p) w"
    using told [of "this_hold n h p"] ended(2) by (auto simp: balanced_def)
  then show "EvHeld n h p \<in> set (wd_events w)"
    by (auto simp: announced_def tally_pos tells_iff this_hold_def)
qed

lemma held_accounted_for:
  assumes "egress_reach w" "EvHeld n h p \<in> set (wd_events w)"
  shows "(\<exists>a. EvHoldEnded n h p a \<in> set (wd_events w)) \<or>
    (\<exists>x. hold_of (wd_proxy w) h = Some x \<and> hd_id x = n \<and> hd_port x = p) \<or>
    (\<exists>c \<in> set (wd_conns w). \<exists>j a. cn_pc c = Ending j p a \<and> cn_host c = h \<and> jn_id j = n)"
proof -
  have "0 < announced (this_hold n h p) w"
    by (auto simp: announced_def tally_pos tells_held_def this_hold_def intro!: bexI [OF _ assms(2)])
  then have "0 < still_open (this_hold n h p) w + enders (this_hold n h p) w + ended (this_hold n h p) w"
    using reach_told [OF assms(1), of "this_hold n h p"] unfolding balanced_def by linarith
  then consider "0 < still_open (this_hold n h p) w" | "0 < enders (this_hold n h p) w" | "0 < ended (this_hold n h p) w"
    by linarith
  then show ?thesis
  proof cases
    case 1
    then obtain x where "(h, x) \<in> set (px_held (wd_proxy w))" "hd_id x = n" "hd_port x = p"
      by (auto simp: still_open_def tally_pos open_hold_def this_hold_def)
    moreover from this(1) have "hold_of (wd_proxy w) h = Some x"
      using countedD(1) [OF reach_counted [OF assms(1)]] by (simp add: hold_of_def)
    ultimately show ?thesis by blast
  next
    case 2
    then obtain c j a where "c \<in> set (wd_conns w)" "cn_pc c = Ending j p a" "cn_host c = h" "jn_id j = n"
      by (auto simp: enders_def tally_pos ends_iff this_hold_def)
    then show ?thesis by blast
  next
    case 3
    then show ?thesis by (auto simp: ended_def tally_pos tells_iff this_hold_def)
  qed
qed

text \<open>
  Claim C38. Every question asked can be closed, and none twice: in every interleaving each hold is
  announced at most once, under an id no other hold has; its end is told at most once, after the
  announcement, for the same host and port, and never while the hold is open; and a hold that was
  announced is open, or its end was told, or a connection is about to tell it.
\<close>

theorem hold_told_once:
  assumes "egress_reach w"
  shows "length (filter (tells_held (with_id n)) (wd_events w)) \<le> 1 \<and>
    length (filter (tells_ended (with_id n)) (wd_events w)) \<le> 1 \<and>
    (\<forall>h p a. EvHoldEnded n h p a \<in> set (wd_events w) \<longrightarrow>
       EvHeld n h p \<in> set (wd_events w) \<and> (\<forall>x \<in> set (px_held (wd_proxy w)). hd_id (snd x) \<noteq> n)) \<and>
    (\<forall>h p. EvHeld n h p \<in> set (wd_events w) \<longrightarrow>
       (\<exists>a. EvHoldEnded n h p a \<in> set (wd_events w)) \<or>
       (\<exists>x. hold_of (wd_proxy w) h = Some x \<and> hd_id x = n \<and> hd_port x = p) \<or>
       (\<exists>c \<in> set (wd_conns w). \<exists>j a. cn_pc c = Ending j p a \<and> cn_host c = h \<and> jn_id j = n))"
proof (intro conjI allI impI)
  have le: "announcers (with_id n) w + announced (with_id n) w \<le> 1" by (rule announced_once [OF assms])
  then show "length (filter (tells_held (with_id n)) (wd_events w)) \<le> 1" by (simp add: announced_def tally_def)
  from le show "length (filter (tells_ended (with_id n)) (wd_events w)) \<le> 1"
    using reach_told [OF assms, of "with_id n"] by (simp add: balanced_def ended_def tally_def)
  fix h p a
  assume "EvHoldEnded n h p a \<in> set (wd_events w)"
  note told = hold_end_announced [OF assms this]
  then show "EvHeld n h p \<in> set (wd_events w)" by blast
  from told(2) show "\<forall>x \<in> set (px_held (wd_proxy w)). hd_id (snd x) \<noteq> n"
    by (auto simp: still_open_def tally_0 open_hold_def with_id_def)
qed (rule held_accounted_for [OF assms])

end
