(* ===== verification/Egress_Drain.thy ===== *)
theory Egress_Drain
  imports Egress_Holds
begin

text \<open>
  Nothing is held for ever: left to themselves the connections come to rest after a bounded number of
  steps, and what is held then is held by an open proxy before its deadline.
\<close>

fun reads_left :: "reading \<Rightarrow> nat" where
  "reads_left RdPolicy = 2"
| "reads_left RdDeclined = 1"
| "reads_left RdMode = 0"

text \<open>How far a connection is from its rest, in a proxy of that generation.\<close>

definition unseen :: "nat \<Rightarrow> nat \<Rightarrow> nat" where "unseen g seen = (if seen = g then 0 else 4)"

fun rank :: "nat \<Rightarrow> conn_pc \<Rightarrow> nat" where
  "rank g (Deciding r) = 15 + reads_left r"
| "rank g Subscribing = 14"
| "rank g (Joining seen) = 9 + unseen g seen"
| "rank g (Announcing seen j) = 8 + unseen g seen"
| "rank g (Checking r seen j) = 5 + reads_left r + unseen g seen"
| "rank g (Waiting seen j) = 4 + unseen g seen"
| "rank g (Leaving j a) = 3"
| "rank g (Ending j p a) = 2"
| "rank g (Refusing d) = 1"
| "rank g (Tunnel a) = 0"
| "rank g Gone = 0"

lemma rank_after [simp]: "rank g (after_hold a) \<le> 1"
  by (cases a) (simp_all add: after_hold_def)

lemma rank_le: "rank g pc \<le> 17"
proof (cases pc)
  case (Deciding r)
  then show ?thesis by (cases r) simp_all
next
  case (Checking r seen j)
  then show ?thesis by (cases r) (simp_all add: unseen_def)
qed (simp_all add: unseen_def)

lemma read_step_Inl: "read_step px host port r = Inl r' \<Longrightarrow> reads_left r' < reads_left r"
  by (cases r) (auto simp: read_step_def split: sum.splits denial.splits if_splits)

lemma next_ranks:
  assumes "conn_next w c = Some (pc, px, n, evs)"
  shows "rank (px_generation (wd_proxy w)) pc < rank (px_generation (wd_proxy w)) (cn_pc c)"
proof (cases "cn_pc c")
  case (Leaving j a)
  have "rank g (after_hold a) < 3" for g using rank_after [of g a] by linarith
  with Leaving assms show ?thesis
    by (auto simp: conn_next_def Let_def split: option.splits prod.splits)
next
  case (Ending j p a)
  have "rank g (after_hold a) < 2" for g using rank_after [of g a] by linarith
  with Ending assms show ?thesis by (auto simp: conn_next_def Let_def)
qed (use assms in \<open>auto simp: conn_next_def Let_def unseen_def dest: read_step_Inl
    split: option.splits sum.splits eg_verdict.splits prod.splits if_splits\<close>)

definition ranks :: "egress_world \<Rightarrow> nat" where
  "ranks w = sum_list (map (\<lambda>c. rank (px_generation (wd_proxy w)) (cn_pc c)) (wd_conns w))"

lemma sum_list_less:
  "i < length xs \<Longrightarrow> (f y :: nat) < f (xs ! i) \<Longrightarrow> sum_list (map f (xs[i := y])) < sum_list (map f xs)"
proof (induction xs arbitrary: i)
  case (Cons x xs)
  then show ?case by (cases i) simp_all
qed simp

definition moves :: "egress_world \<Rightarrow> egress_world \<Rightarrow> bool" where
  "moves w w' \<longleftrightarrow> (\<exists>i. conn_move w i = Some w')"

lemma moves_ranks:
  assumes "moves w w'"
  shows "ranks w' < ranks w" "length (wd_conns w') = length (wd_conns w)"
proof -
  from assms obtain i pc px n evs where nxt: "i < length (wd_conns w)" "conn_next w (wd_conns w ! i) = Some (pc, px, n, evs)"
    and w': "w' = set_pc i pc (w\<lparr>wd_proxy := px, wd_next_id := n, wd_events := wd_events w @ evs\<rparr>)"
    unfolding moves_def by (elim exE conn_moveE)
  have "px_generation (wd_proxy w') = px_generation (wd_proxy w)"
    using same_coreD(4) [OF next_core [OF nxt(2)]] by (simp add: w')
  then show "ranks w' < ranks w"
    unfolding ranks_def using next_ranks [OF nxt(2)] by (simp add: w' sum_list_less [OF nxt(1)])
  show "length (wd_conns w') = length (wd_conns w)" by (simp add: w')
qed

lemma moves_bounded: "(moves ^^ k) w w' \<Longrightarrow> k + ranks w' \<le> ranks w"
proof (induction k arbitrary: w')
  case (Suc k)
  then obtain v where v: "(moves ^^ k) w v" "moves v w'" by (auto elim: relpowp_Suc_E)
  with Suc.IH [OF v(1)] moves_ranks(1) [OF v(2)] show ?case by linarith
qed simp

lemma ranks_le: "ranks w \<le> 17 * length (wd_conns w)"
proof -
  have "sum_list (map (\<lambda>c. rank g (cn_pc c)) cs) \<le> 17 * length cs" for g cs
    using rank_le [of g] by (induction cs) (simp_all add: add_mono)
  then show ?thesis by (simp add: ranks_def)
qed

lemma moves_reach: "egress_reach w \<Longrightarrow> (moves ^^ k) w w' \<Longrightarrow> egress_reach w'"
proof (induction k arbitrary: w')
  case (Suc k)
  then obtain v where v: "(moves ^^ k) w v" "moves v w'" by (auto elim: relpowp_Suc_E)
  with Suc show ?case by (auto simp: moves_def intro: egress_reach.later egress_step.moves)
qed simp

text \<open>Where a connection rests.\<close>

definition at_rest :: "egress_world \<Rightarrow> conn \<Rightarrow> bool" where
  "at_rest w c \<longleftrightarrow>
     (case cn_pc c of
        Waiting seen j \<Rightarrow>
          seen = px_generation (wd_proxy w) \<and> px_open (wd_proxy w) \<and> wd_now w < jn_since j + px_timeout (wd_proxy w)
      | Tunnel _ \<Rightarrow> True
      | Gone \<Rightarrow> True
      | _ \<Rightarrow> False)"

lemma next_None: "conn_next w c = None \<longleftrightarrow> at_rest w c"
  by (cases "cn_pc c") (auto simp: conn_next_def at_rest_def Let_def)

lemma settled_rests:
  assumes "\<forall>i. conn_move w i = None" "c \<in> set (wd_conns w)"
  shows "at_rest w c"
proof -
  from assms(2) obtain i where "i < length (wd_conns w)" "wd_conns w ! i = c" by (auto simp: in_set_conv_nth)
  with assms(1) show ?thesis by (auto simp: conn_move_def next_None dest: spec [of _ i])
qed

lemma settled_holds:
  assumes "egress_reach w" "\<forall>i. conn_move w i = None" "(host, h) \<in> set (px_held (wd_proxy w))"
  shows "px_open (wd_proxy w) \<and> wd_now w < hd_since h + px_timeout (wd_proxy w)"
proof -
  note cd = countedD [OF reach_counted [OF assms(1)]]
  from assms(3) cd(1) have h: "hold_of (wd_proxy w) host = Some h" by (simp add: hold_of_def)
  with cd(3) have "0 < members w host" by fastforce
  then obtain c j where c: "c \<in> set (wd_conns w)" "cn_host c = host" "in_hold (cn_pc c) = Some j"
    by (auto simp: members_def is_member_def filter_empty_conv)
  with cd(5) [OF c(1,3)] h have "hd_since h = jn_since j" by (simp add: fits_def)
  with settled_rests [OF assms(2) c(1)] c(3) show ?thesis
    by (auto simp: at_rest_def split: conn_pc.splits)
qed

text \<open>
  Claim C39. Nothing is held for ever: from any world that was reached, the connections take at most
  seventeen steps apiece before they all rest, unless something else happens; and where all of them
  rest, a host that is still held is held by an open proxy before the deadline of its hold. So once the
  deadlines passed, or the proxy is dropped, every hold is over after that many steps.
\<close>

theorem holds_drain:
  assumes "egress_reach w" "(moves ^^ k) w w'"
  shows "k \<le> 17 * length (wd_conns w) \<and>
    ((\<forall>i. conn_move w' i = None) \<longrightarrow>
     (\<forall>(host, h) \<in> set (px_held (wd_proxy w')). px_open (wd_proxy w') \<and> wd_now w' < hd_since h + px_timeout (wd_proxy w')))"
  using moves_bounded [OF assms(2)] ranks_le [of w] settled_holds [OF moves_reach [OF assms]] by fastforce

end
