(* ===== verification/Egress_Prompts.thy ===== *)
theory Egress_Prompts
  imports Egress_Told
begin

text \<open>
  The questions held connections raise (\<open>sandbox/boxes/egress_prompt.rs\<close>), what a box's proxy is heard to say
  (\<open>on_egress\<close> of \<open>registry.rs\<close>, the record of \<open>egress_log.rs\<close>), and how the questions follow the holds.
\<close>

section \<open>Prompts\<close>

record pending_prompt =
  pp_id :: string
  pp_agent :: string
  pp_project :: string
  pp_host :: string
  pp_port :: port
  pp_requested_at :: string
  pp_hold :: nat

datatype prompt_outcome = OcAllowed | OcBlocked | OcExpired

fun outcome_str :: "prompt_outcome \<Rightarrow> string" where
  "outcome_str OcAllowed = ''allowed''"
| "outcome_str OcBlocked = ''blocked''"
| "outcome_str OcExpired = ''expired''"

datatype prompt_event = PeRequested pending_prompt | PeResolved string prompt_outcome

text \<open>
  The pending prompts in the order they were raised. The map of the source is keyed by id, and what is
  looked up by agent and host or by agent and hold is unique (\<open>prompt_of_hold\<close>), so its order is not seen.
\<close>

definition prompt_request ::
  "string \<Rightarrow> string \<Rightarrow> string \<Rightarrow> port \<Rightarrow> nat \<Rightarrow> string \<Rightarrow> string \<Rightarrow> pending_prompt list \<Rightarrow> pending_prompt list \<times> prompt_event list" where
  "prompt_request agent project host port hold uuid now t =
     (let prompt = \<lparr>pp_id = uuid, pp_agent = agent, pp_project = project, pp_host = host, pp_port = port,
                    pp_requested_at = now, pp_hold = hold\<rparr>
      in case List.find (\<lambda>p. pp_agent p = agent \<and> pp_host p = host) t of
           Some p \<Rightarrow>
             if pp_hold p = hold then (t, [])
             else (filter (\<lambda>q. pp_id q \<noteq> pp_id p) t @ [prompt], [PeResolved (pp_id p) OcExpired, PeRequested prompt])
         | None \<Rightarrow> (t @ [prompt], [PeRequested prompt]))"

definition prompts_pending :: "pending_prompt list \<Rightarrow> pending_prompt list" where
  "prompts_pending t = sort_key pp_requested_at t"

definition get_prompt :: "string \<Rightarrow> pending_prompt list \<Rightarrow> pending_prompt option" where
  "get_prompt uid t = List.find (\<lambda>p. pp_id p = uid) t"

definition prompt_resolve :: "string \<Rightarrow> prompt_outcome \<Rightarrow> pending_prompt list \<Rightarrow> pending_prompt list \<times> prompt_event list" where
  "prompt_resolve uid o' t =
     (if get_prompt uid t = None then (t, [])
      else (filter (\<lambda>p. pp_id p \<noteq> uid) t, [PeResolved uid o']))"

definition prompt_ended :: "string \<Rightarrow> nat \<Rightarrow> bool \<Rightarrow> pending_prompt list \<Rightarrow> pending_prompt list \<times> prompt_event list" where
  "prompt_ended agent hold admitted t =
     (case List.find (\<lambda>p. pp_agent p = agent \<and> pp_hold p = hold) t of
        Some p \<Rightarrow> prompt_resolve (pp_id p) (if admitted then OcAllowed else OcExpired) t
      | None \<Rightarrow> (t, []))"

section \<open>What is heard of a proxy\<close>

record log_record =
  lr_agent :: string
  lr_project :: string
  lr_host :: string
  lr_port :: port
  lr_allowed :: bool
  lr_via :: string
  lr_up :: nat
  lr_down :: nat

record egress_payload =
  py_agent :: string
  py_host :: string
  py_port :: port
  py_allowed :: bool
  py_quiet :: bool

record heard =
  he_table :: "pending_prompt list"
  he_prompts :: "prompt_event list"
  he_log :: "log_record list"
  he_told :: "egress_payload list"

definition on_egress :: "string \<Rightarrow> string \<Rightarrow> string \<Rightarrow> string \<Rightarrow> egress_event \<Rightarrow> pending_prompt list \<Rightarrow> heard" where
  "on_egress agent project uuid now e t =
     (case e of
        EvAllowed host port a up down \<Rightarrow>
          \<lparr>he_table = t, he_prompts = [],
           he_log = [\<lparr>lr_agent = agent, lr_project = project, lr_host = host, lr_port = port, lr_allowed = True,
             lr_via = (case a of AdListed \<Rightarrow> ''listed'' | AdOpen \<Rightarrow> ''open'' | AdOverride \<Rightarrow> ''turn''), lr_up = up, lr_down = down\<rparr>],
           he_told = [\<lparr>py_agent = agent, py_host = host, py_port = port, py_allowed = True, py_quiet = False\<rparr>]\<rparr>
      | EvDenied host port reason \<Rightarrow>
          \<lparr>he_table = t, he_prompts = [],
           he_log = [\<lparr>lr_agent = agent, lr_project = project, lr_host = host, lr_port = port, lr_allowed = False,
             lr_via = (case reason of DenyPort \<Rightarrow> ''port'' | DenyHost \<Rightarrow> if is_quiet host then ''quiet'' else ''host''),
             lr_up = 0, lr_down = 0\<rparr>],
           he_told = [\<lparr>py_agent = agent, py_host = host, py_port = port, py_allowed = False, py_quiet = is_quiet host\<rparr>]\<rparr>
      | EvHeld hold host port \<Rightarrow>
          (let (t, pes) = prompt_request agent project host port hold uuid now t
           in \<lparr>he_table = t, he_prompts = pes, he_log = [], he_told = []\<rparr>)
      | EvHoldEnded hold host port admitted \<Rightarrow>
          (let (t, pes) = prompt_ended agent hold admitted t
           in \<lparr>he_table = t, he_prompts = pes, he_log = [], he_told = []\<rparr>)
      | EvError _ _ \<Rightarrow> \<lparr>he_table = t, he_prompts = [], he_log = [], he_told = []\<rparr>)"

section \<open>Runs\<close>

text \<open>
  A box of one agent and everything else that touches the prompts: the proxy's steps, each event heard as
  it is told; an answer or any other closing of a prompt by its id; and the boxes of other agents. A
  fresh id is the next of an injective stream. The holds whose prompt was closed by its id are kept.
\<close>

record prompt_run =
  rn_world :: egress_world
  rn_table :: "pending_prompt list"
  rn_drawn :: nat
  rn_answered :: "nat set"

definition hear :: "(nat \<Rightarrow> string) \<Rightarrow> string \<Rightarrow> string \<Rightarrow> string \<Rightarrow> egress_event \<Rightarrow> prompt_run \<Rightarrow> prompt_run" where
  "hear uuids agent project now e r =
     r\<lparr>rn_table := he_table (on_egress agent project (uuids (rn_drawn r)) now e (rn_table r)), rn_drawn := rn_drawn r + 1\<rparr>"

inductive prompt_reach :: "(nat \<Rightarrow> string) \<Rightarrow> string \<Rightarrow> prompt_run \<Rightarrow> bool" for uuids agent where
  box_starts: "\<lbrakk>\<forall>p \<in> set t. pp_agent p \<noteq> agent \<and> pp_id p \<in> uuids ` {..<k}; distinct (map pp_id t);
    \<forall>p \<in> set t. \<forall>q \<in> set t. pp_agent p = pp_agent q \<longrightarrow> pp_host p = pp_host q \<longrightarrow> p = q\<rbrakk> \<Longrightarrow>
    prompt_reach uuids agent \<lparr>rn_world = proxy_start pol m timeout next_id clock, rn_table = t, rn_drawn = k, rn_answered = {}\<rparr>"
| box_moves: "prompt_reach uuids agent r \<Longrightarrow> egress_step (rn_world r) w \<Longrightarrow> wd_events w = wd_events (rn_world r) @ evs \<Longrightarrow>
    prompt_reach uuids agent (fold (hear uuids agent project now) evs (r\<lparr>rn_world := w\<rparr>))"
| closes: "prompt_reach uuids agent r \<Longrightarrow> get_prompt uid (rn_table r) = Some p \<Longrightarrow>
    prompt_reach uuids agent (r\<lparr>rn_table := fst (prompt_resolve uid o' (rn_table r)), rn_answered := insert (pp_hold p) (rn_answered r)\<rparr>)"
| others: "prompt_reach uuids agent r \<Longrightarrow> other \<noteq> agent \<Longrightarrow> prompt_reach uuids agent (hear uuids other project now e r)"

section \<open>The table\<close>

definition table_sound :: "(nat \<Rightarrow> string) \<Rightarrow> nat \<Rightarrow> pending_prompt list \<Rightarrow> bool" where
  "table_sound uuids k t \<longleftrightarrow> distinct (map pp_id t) \<and> (\<forall>p \<in> set t. pp_id p \<in> uuids ` {..<k})"

lemma drop_id_set: "set (filter (\<lambda>q. pp_id q \<noteq> uid) t) = {q \<in> set t. pp_id q \<noteq> uid}"
  by auto

lemma table_sound_drop: "table_sound uuids k t \<Longrightarrow> table_sound uuids k (filter P t)"
  by (auto simp: table_sound_def distinct_map_filter)

lemma table_sound_Suc: "table_sound uuids k t \<Longrightarrow> table_sound uuids (Suc k) t"
  by (fastforce simp: table_sound_def)

lemma table_sound_snoc:
  assumes "table_sound uuids k t" "inj uuids" "pp_id p = uuids k"
  shows "table_sound uuids (Suc k) (t @ [p])"
proof -
  have "uuids k \<notin> uuids ` {..<k}" using assms(2) by (auto simp: inj_eq)
  with assms show ?thesis by (fastforce simp: table_sound_def)
qed

lemma same_id: "table_sound uuids k t \<Longrightarrow> p \<in> set t \<Longrightarrow> q \<in> set t \<Longrightarrow> pp_id p = pp_id q \<Longrightarrow> p = q"
  by (auto simp: table_sound_def dest: eq_key_imp_eq_value inj_on_eq_iff [THEN iffD1] simp: distinct_map)

text \<open>What each operation leaves, for the prompts of one agent.\<close>

lemma request_table:
  assumes "table_sound uuids k t" "inj uuids" "t' = fst (prompt_request a project host port hold (uuids k) now t)"
  shows "table_sound uuids (Suc k) t'"
    and "p \<in> set t' \<Longrightarrow> p \<in> set t \<or> pp_agent p = a \<and> pp_host p = host \<and> pp_port p = port \<and> pp_hold p = hold"
    and "p \<in> set t \<Longrightarrow> p \<in> set t' \<or> pp_agent p = a \<and> pp_host p = host \<and> pp_hold p \<noteq> hold"
    and "\<exists>p \<in> set t'. pp_agent p = a \<and> pp_host p = host \<and> pp_hold p = hold"
    and "(\<And>p q. p \<in> set t \<Longrightarrow> q \<in> set t \<Longrightarrow> pp_agent p = pp_agent q \<Longrightarrow> pp_host p = pp_host q \<Longrightarrow> p = q) \<Longrightarrow>
      p \<in> set t' \<Longrightarrow> q \<in> set t' \<Longrightarrow> pp_agent p = pp_agent q \<Longrightarrow> pp_host p = pp_host q \<Longrightarrow> p = q"
proof -
  define new where "new = \<lparr>pp_id = uuids k, pp_agent = a, pp_project = project, pp_host = host, pp_port = port,
    pp_requested_at = now, pp_hold = hold\<rparr>"
  consider (none) "\<forall>p \<in> set t. \<not> (pp_agent p = a \<and> pp_host p = host)" "t' = t @ [new]"
    | (same) p where "p \<in> set t" "pp_agent p = a" "pp_host p = host" "pp_hold p = hold" "t' = t"
    | (stale) p where "p \<in> set t" "pp_agent p = a" "pp_host p = host" "pp_hold p \<noteq> hold"
        "t' = filter (\<lambda>q. pp_id q \<noteq> pp_id p) t @ [new]"
  proof (cases "List.find (\<lambda>p. pp_agent p = a \<and> pp_host p = host) t")
    case None
    then have "\<forall>p \<in> set t. \<not> (pp_agent p = a \<and> pp_host p = host)" unfolding find_None_iff by blast
    with None show ?thesis by (intro none) (simp_all add: assms(3) prompt_request_def new_def Let_def)
  next
    case (Some p)
    then have "p \<in> set t" "pp_agent p = a" "pp_host p = host" by (auto dest: find_SomeD)
    note p = this
    show ?thesis
    proof (cases "pp_hold p = hold")
      case True
      with Some p show ?thesis by (intro same [of p]) (simp_all add: assms(3) prompt_request_def Let_def)
    next
      case False
      with Some p show ?thesis by (intro stale [of p]) (simp_all add: assms(3) prompt_request_def new_def Let_def)
    qed
  qed
  note cases = this
  have new: "pp_agent new = a" "pp_host new = host" "pp_port new = port" "pp_hold new = hold" "pp_id new = uuids k"
    by (simp_all add: new_def)
  show "table_sound uuids (Suc k) t'"
  proof (cases rule: cases)
    case (stale p')
    show ?thesis unfolding stale(5) by (rule table_sound_snoc [OF table_sound_drop [OF assms(1)] assms(2) new(5)])
  qed (simp_all add: table_sound_snoc [OF assms(1,2)] table_sound_Suc [OF assms(1)] new)
  show "p \<in> set t' \<Longrightarrow> p \<in> set t \<or> pp_agent p = a \<and> pp_host p = host \<and> pp_port p = port \<and> pp_hold p = hold"
    by (cases rule: cases) (auto simp: new)
  show "p \<in> set t \<Longrightarrow> p \<in> set t' \<or> pp_agent p = a \<and> pp_host p = host \<and> pp_hold p \<noteq> hold"
    by (cases rule: cases) (auto dest: same_id [OF assms(1)])
  show "\<exists>p \<in> set t'. pp_agent p = a \<and> pp_host p = host \<and> pp_hold p = hold"
    by (cases rule: cases) (auto simp: new)
  assume one: "\<And>p q. p \<in> set t \<Longrightarrow> q \<in> set t \<Longrightarrow> pp_agent p = pp_agent q \<Longrightarrow> pp_host p = pp_host q \<Longrightarrow> p = q"
  assume pq: "p \<in> set t'" "q \<in> set t'" "pp_agent p = pp_agent q" "pp_host p = pp_host q"
  show "p = q"
  proof (cases rule: cases)
    case none
    with pq one show ?thesis by (auto simp: new)
  next
    case (same p')
    with pq one show ?thesis by blast
  next
    case (stale p')
    have "pp_id r = pp_id p'" if "r \<in> set t" "pp_agent r = a" "pp_host r = host" for r
      using one [OF that(1) stale(1)] that stale by simp
    with pq one show ?thesis by (auto simp: new stale(5))
  qed
qed

lemma resolve_table: "set (fst (prompt_resolve uid o' t)) = {p \<in> set t. pp_id p \<noteq> uid}"
  by (auto simp: prompt_resolve_def get_prompt_def find_None_iff)

lemma resolve_sound: "table_sound uuids k t \<Longrightarrow> table_sound uuids k (fst (prompt_resolve uid o' t))"
  by (simp add: prompt_resolve_def table_sound_drop)

lemma ended_table:
  assumes "table_sound uuids k t" "t' = fst (prompt_ended a hold admitted t)"
  shows "table_sound uuids k t'" "set t' \<subseteq> set t"
    "p \<in> set t \<Longrightarrow> p \<in> set t' \<or> pp_agent p = a \<and> pp_hold p = hold"
    "\<exists>r. {p \<in> set t. pp_agent p = a \<and> pp_hold p = hold} \<subseteq> {r} \<Longrightarrow> p \<in> set t' \<Longrightarrow> pp_agent p = a \<Longrightarrow> pp_hold p \<noteq> hold"
proof -
  consider (none) "\<forall>p \<in> set t. \<not> (pp_agent p = a \<and> pp_hold p = hold)" "t' = t"
    | (found) q o' where "q \<in> set t" "pp_agent q = a" "pp_hold q = hold" "t' = fst (prompt_resolve (pp_id q) o' t)"
  proof (cases "List.find (\<lambda>p. pp_agent p = a \<and> pp_hold p = hold) t")
    case None
    then have "\<forall>p \<in> set t. \<not> (pp_agent p = a \<and> pp_hold p = hold)" unfolding find_None_iff by blast
    with None show ?thesis by (intro none) (simp_all add: assms(2) prompt_ended_def)
  next
    case (Some q)
    then have "q \<in> set t" "pp_agent q = a" "pp_hold q = hold" by (auto dest: find_SomeD)
    with Some show ?thesis by (intro found) (simp_all add: assms(2) prompt_ended_def)
  qed
  note cases = this
  show "table_sound uuids k t'" by (cases rule: cases) (simp_all add: assms(1) resolve_sound)
  show "set t' \<subseteq> set t" by (cases rule: cases) (auto simp: resolve_table)
  show "p \<in> set t \<Longrightarrow> p \<in> set t' \<or> pp_agent p = a \<and> pp_hold p = hold"
    by (cases rule: cases) (auto simp: resolve_table dest: same_id [OF assms(1)])
  show "\<exists>r. {p \<in> set t. pp_agent p = a \<and> pp_hold p = hold} \<subseteq> {r} \<Longrightarrow> p \<in> set t' \<Longrightarrow> pp_agent p = a \<Longrightarrow> pp_hold p \<noteq> hold"
    by (cases rule: cases) (auto simp: resolve_table)
qed

section \<open>The steps of the proxy, as they are heard\<close>

lemma move_events: "conn_next w c = Some (pc, px, n, evs) \<Longrightarrow> length evs \<le> 1"
  by (cases "cn_pc c") (auto simp: conn_next_def Let_def split: sum.splits eg_verdict.splits option.splits prod.splits if_splits)

lemma step_events:
  assumes "egress_step w w'" "wd_events w' = wd_events w @ evs"
  shows "length evs \<le> 1"
proof -
  have same: "wd_events w' = wd_events w \<Longrightarrow> length evs \<le> 1" using assms(2) by simp
  from assms(1) show ?thesis
  proof cases
  case (moves i)
  then obtain pc px n evs' where "conn_next w (wd_conns w ! i) = Some (pc, px, n, evs')"
    and "w' = set_pc i pc (w\<lparr>wd_proxy := px, wd_next_id := n, wd_events := wd_events w @ evs'\<rparr>)"
    by (elim conn_moveE)
  with assms(2) show ?thesis using move_events by simp
next
  case (tunnel_ends i a es message up down)
  have "wd_events w' = wd_events w @ es" by (simp add: tunnel_ends(1))
  with assms(2) have "evs = es" by simp
  with tunnel_ends(4) show ?thesis by fastforce
  qed (rule same, simp add: change_move_fields)+
qed

text \<open>A hold that is open after a step was open before it, or is new and was never announced.\<close>

lemma in_alist_update: "x \<in> set (AList.update k v al) \<Longrightarrow> x = (k, v) \<or> x \<in> set al"
  by (induction al) (auto split: if_splits)

lemma in_alist_delete: "x \<in> set (AList.delete k al) \<Longrightarrow> x \<in> set al"
  by (induction al) (auto split: if_splits)

lemma join_ids:
  assumes "join_hold n now host port px = Some (j, n', px')" "x \<in> set (px_held px')"
  shows "hd_id (snd x) = Suc n \<or> (\<exists>y \<in> set (px_held px). hd_id (snd y) = hd_id (snd x))"
proof (cases "hold_of px host")
  case None
  with assms show ?thesis by (auto simp: join_hold_def split: if_splits)
next
  case (Some h)
  then have h: "(host, h) \<in> set (px_held px)" by (simp add: hold_of_def map_of_SomeD)
  have "x = (host, h\<lparr>hd_waiting := hd_waiting h + 1\<rparr>) \<or> x \<in> set (px_held px)"
    using assms Some in_alist_update [of x host _ "px_held px"] by (auto simp: join_hold_def)
  then show ?thesis
  proof
    assume "x = (host, h\<lparr>hd_waiting := hd_waiting h + 1\<rparr>)"
    then have "hd_id (snd (host, h)) = hd_id (snd x)" by simp
    with h show ?thesis by blast
  qed blast
qed

lemma leave_ids:
  assumes "x \<in> set (px_held (snd (leave_hold host px)))"
  shows "\<exists>y \<in> set (px_held px). hd_id (snd y) = hd_id (snd x)"
proof (cases "hold_of px host")
  case None
  with assms show ?thesis by (auto simp: leave_hold_def)
next
  case (Some h)
  then have h: "(host, h) \<in> set (px_held px)" by (simp add: hold_of_def map_of_SomeD)
  have "x = (host, h\<lparr>hd_waiting := hd_waiting h - 1\<rparr>) \<or> x \<in> set (px_held px)"
    using assms Some in_alist_update [of x host _ "px_held px"] in_alist_delete [of x host "px_held px"]
    by (auto simp: leave_hold_def split: if_splits)
  then show ?thesis
  proof
    assume "x = (host, h\<lparr>hd_waiting := hd_waiting h - 1\<rparr>)"
    then have "hd_id (snd (host, h)) = hd_id (snd x)" by simp
    with h show ?thesis by blast
  qed blast
qed

lemma step_ids:
  assumes "egress_step w w'" "x \<in> set (px_held (wd_proxy w'))"
  shows "hd_id (snd x) = Suc (wd_next_id w) \<or> (\<exists>y \<in> set (px_held (wd_proxy w)). hd_id (snd y) = hd_id (snd x))"
  using assms(1)
proof cases
  case (moves i)
  then obtain pc px n evs where nxt: "conn_next w (wd_conns w ! i) = Some (pc, px, n, evs)"
    and w': "w' = set_pc i pc (w\<lparr>wd_proxy := px, wd_next_id := n, wd_events := wd_events w @ evs\<rparr>)"
    by (elim conn_moveE)
  from assms(2) have x: "x \<in> set (px_held px)" by (simp add: w')
  from nxt show ?thesis
  proof (cases rule: next_cases)
    case stays
    with x show ?thesis by blast
  next
    case (joins g j)
    then show ?thesis using join_ids [OF joins(2) x] by blast
  next
    case (leaves j a)
    with x leave_ids [of x "cn_host (wd_conns w ! i)" "wd_proxy w"] show ?thesis by blast
  qed
qed (use assms(2) in \<open>auto simp: change_move_fields\<close>)

lemma announcing_open:
  assumes "egress_step w w'" "counted w" "wd_events w' = wd_events w @ [EvHeld n host port]"
  shows "\<exists>h. hold_of (wd_proxy w') host = Some h \<and> hd_id h = n" (is ?held)
proof -
  have same: "wd_events w' = wd_events w \<Longrightarrow> ?held" using assms(3) by simp
  from assms(1) show ?held
  proof cases
  case (moves i)
  then obtain pc px k evs where i: "i < length (wd_conns w)" and nxt: "conn_next w (wd_conns w ! i) = Some (pc, px, k, evs)"
    and w': "w' = set_pc i pc (w\<lparr>wd_proxy := px, wd_next_id := k, wd_events := wd_events w @ evs\<rparr>)"
    by (elim conn_moveE)
  with assms(3) have "evs = [EvHeld n host port]" by simp
  with nxt obtain g j where "cn_pc (wd_conns w ! i) = Announcing g j" "px = wd_proxy w" "jn_id j = n" "cn_host (wd_conns w ! i) = host"
    by (cases "cn_pc (wd_conns w ! i)")
      (auto simp: conn_next_def Let_def split: sum.splits eg_verdict.splits option.splits prod.splits if_splits)
  with countedD(5) [OF assms(2), of "wd_conns w ! i" j] i show ?held by (auto simp: w' fits_def)
next
  case (tunnel_ends i a es message up down)
  have "wd_events w' = wd_events w @ es" by (simp add: tunnel_ends(1))
  with assms(3) have "es = [EvHeld n host port]" by simp
  with tunnel_ends(4) show ?held by simp
  qed (rule same, simp add: change_move_fields)+
qed

lemma announced_same:
  assumes "egress_reach w" "EvHeld n h p \<in> set (wd_events w)" "EvHeld n g q \<in> set (wd_events w)"
  shows "h = g"
proof -
  have "length (filter (tells_held (with_id n)) (wd_events w)) \<le> 1"
    using announced_once [OF assms(1), of n] by (simp add: announced_def tally_def)
  then obtain e where "set (filter (tells_held (with_id n)) (wd_events w)) \<subseteq> {e}"
    by (cases "filter (tells_held (with_id n)) (wd_events w)") auto
  with assms(2,3) have "EvHeld n h p = e" "EvHeld n g q = e" by (auto simp: tells_iff with_id_def)
  then show ?thesis by auto
qed

text \<open>The host of an open hold that was announced is the one it was announced for.\<close>

lemma open_host:
  assumes "egress_reach w" "(g, h) \<in> set (px_held (wd_proxy w))" "EvHeld (hd_id h) host p \<in> set (wd_events w)"
  shows "g = host"
proof -
  have ann: "0 < announced (with_id (hd_id h)) w"
    using assms(3) by (auto simp: announced_def tally_pos tells_iff with_id_def)
  have "announcers (this_hold (hd_id h) g (hd_port h)) w \<le> announcers (with_id (hd_id h)) w"
    unfolding announcers_def by (rule tally_mono) (auto simp: announces_iff with_id_def this_hold_def)
  moreover have "announcers (with_id (hd_id h)) w = 0" using announced_once [OF assms(1), of "hd_id h"] ann by linarith
  moreover have "0 < still_open (this_hold (hd_id h) g (hd_port h)) w"
    using assms(2) by (force simp: still_open_def tally_pos open_hold_def this_hold_def)
  ultimately have "0 < announced (this_hold (hd_id h) g (hd_port h)) w"
    using reach_told [OF assms(1), of "this_hold (hd_id h) g (hd_port h)"] unfolding balanced_def by linarith
  then have "EvHeld (hd_id h) g (hd_port h) \<in> set (wd_events w)"
    by (auto simp: announced_def tally_pos tells_iff this_hold_def)
  from announced_same [OF assms(1) this assms(3)] show ?thesis .
qed

section \<open>Prompts and holds\<close>

definition stands :: "string \<Rightarrow> egress_world \<Rightarrow> pending_prompt list \<Rightarrow> bool" where
  "stands a w t \<longleftrightarrow>
     (\<forall>p \<in> set t. pp_agent p = a \<longrightarrow>
        EvHeld (pp_hold p) (pp_host p) (pp_port p) \<in> set (wd_events w) \<and> ended (with_id (pp_hold p)) w = 0)"

definition one_each :: "pending_prompt list \<Rightarrow> bool" where
  "one_each t \<longleftrightarrow> (\<forall>p \<in> set t. \<forall>q \<in> set t. pp_agent p = pp_agent q \<longrightarrow> pp_host p = pp_host q \<longrightarrow> p = q)"

definition asked_of :: "string \<Rightarrow> egress_world \<Rightarrow> pending_prompt list \<Rightarrow> nat set \<Rightarrow> bool" where
  "asked_of a w t ans \<longleftrightarrow>
     (\<forall>x \<in> set (px_held (wd_proxy w)). 0 < announced (with_id (hd_id (snd x))) w \<longrightarrow>
        hd_id (snd x) \<in> ans \<or> (\<exists>p \<in> set t. pp_agent p = a \<and> pp_hold p = hd_id (snd x)))"

definition prompts_ok :: "(nat \<Rightarrow> string) \<Rightarrow> string \<Rightarrow> prompt_run \<Rightarrow> bool" where
  "prompts_ok uuids a r \<longleftrightarrow>
     egress_reach (rn_world r) \<and> table_sound uuids (rn_drawn r) (rn_table r) \<and> one_each (rn_table r) \<and>
     stands a (rn_world r) (rn_table r) \<and> asked_of a (rn_world r) (rn_table r) (rn_answered r)"

lemma one_eachD: "one_each t \<Longrightarrow> p \<in> set t \<Longrightarrow> q \<in> set t \<Longrightarrow> pp_agent p = pp_agent q \<Longrightarrow> pp_host p = pp_host q \<Longrightarrow> p = q"
  by (simp add: one_each_def)

lemma one_each_subset: "one_each t \<Longrightarrow> set t' \<subseteq> set t \<Longrightarrow> one_each t'"
  by (auto simp: one_each_def)

text \<open>What is heard of another agent's box leaves the prompts of this one as they were.\<close>

lemma hear_other:
  assumes "other \<noteq> a" "prompts_ok uuids a r" "inj uuids"
  shows "prompts_ok uuids a (hear uuids other project now e r)"
proof -
  let ?t = "rn_table r" and ?t' = "he_table (on_egress other project (uuids (rn_drawn r)) now e (rn_table r))"
  from assms(2) have ok: "table_sound uuids (rn_drawn r) ?t" "one_each ?t" by (simp_all add: prompts_ok_def)
  have "table_sound uuids (Suc (rn_drawn r)) ?t' \<and> one_each ?t' \<and> (\<forall>p. pp_agent p = a \<longrightarrow> p \<in> set ?t' \<longleftrightarrow> p \<in> set ?t)"
  proof (cases e)
    case (EvHeld n host port)
    then have t': "?t' = fst (prompt_request other project host port n (uuids (rn_drawn r)) now ?t)"
      by (simp add: on_egress_def case_prod_unfold Let_def)
    note req = request_table [OF ok(1) assms(3) t']
    have "one_each ?t'" unfolding one_each_def using req(5) one_eachD [OF ok(2)] by blast
    with req(1-3) assms(1) show ?thesis by blast
  next
    case (EvHoldEnded n host port adm)
    then have t': "?t' = fst (prompt_ended other n adm ?t)" by (simp add: on_egress_def case_prod_unfold Let_def)
    note en = ended_table [OF ok(1) t']
    show ?thesis using table_sound_Suc [OF en(1)] one_each_subset [OF ok(2) en(2)] en(2,3) assms(1) by blast
  qed (use table_sound_Suc [OF ok(1)] ok(2) in \<open>simp_all add: on_egress_def\<close>)
  with assms(2) show ?thesis unfolding prompts_ok_def hear_def stands_def asked_of_def by simp blast
qed

lemma close_ok:
  assumes "prompts_ok uuids a r" "get_prompt uid (rn_table r) = Some p"
  shows "prompts_ok uuids a (r\<lparr>rn_table := fst (prompt_resolve uid o' (rn_table r)), rn_answered := insert (pp_hold p) (rn_answered r)\<rparr>)"
proof -
  from assms have ok: "table_sound uuids (rn_drawn r) (rn_table r)" and p: "p \<in> set (rn_table r)" "pp_id p = uid"
    by (auto simp: prompts_ok_def get_prompt_def dest: find_SomeD)
  have "q = p" if "q \<in> set (rn_table r)" "pp_id q = uid" for q using same_id [OF ok that(1) p(1)] that(2) p(2) by simp
  then have "\<And>q. q \<in> set (rn_table r) \<Longrightarrow> pp_hold q \<noteq> pp_hold p \<Longrightarrow> q \<in> set (fst (prompt_resolve uid o' (rn_table r)))"
    unfolding resolve_table by blast
  with assms(1) resolve_sound [OF ok] show ?thesis
    unfolding prompts_ok_def one_each_def stands_def asked_of_def by (simp add: resolve_table) metis
qed

text \<open>The proxy's step, before what it tells is heard: open holds, and what was announced.\<close>

lemma open_before:
  assumes "egress_reach w" "egress_step w w'" "x \<in> set (px_held (wd_proxy w'))" "0 < announced (with_id (hd_id (snd x))) w"
  shows "\<exists>y \<in> set (px_held (wd_proxy w)). hd_id (snd y) = hd_id (snd x)"
proof -
  have "announcers (with_id n) w + announced (with_id n) w \<le> of_bool (n \<le> wd_next_id w)" for n
    using reach_told [OF assms(1), of "with_id n"] by (simp add: once_def)
  from this [of "hd_id (snd x)"] assms(4) have "hd_id (snd x) \<noteq> Suc (wd_next_id w)" by auto
  with step_ids [OF assms(2,3)] show ?thesis by blast
qed

lemma announced_held: "EvHeld n h p \<in> set (wd_events w) \<Longrightarrow> 0 < announced (with_id n) w"
  by (auto simp: announced_def tally_pos tells_iff with_id_def)

lemma ended_none:
  assumes "egress_reach w" "announced (with_id n) w = 0"
  shows "ended (with_id n) w = 0"
proof (rule ccontr)
  assume "ended (with_id n) w \<noteq> 0"
  then obtain h p a where "EvHoldEnded n h p a \<in> set (wd_events w)"
    by (auto simp: ended_def tally_0 tells_iff with_id_def)
  with hold_end_announced(1) [OF assms(1)] announced_held assms(2) show False by fastforce
qed

lemma hear_quiet:
  assumes "prompts_ok uuids a r" "egress_step (rn_world r) w" "egress_reach w"
    and same: "\<And>n. announced (with_id n) w = announced (with_id n) (rn_world r)"
      "\<And>n. ended (with_id n) w = ended (with_id n) (rn_world r)"
    and events: "set (wd_events (rn_world r)) \<subseteq> set (wd_events w)"
  shows "prompts_ok uuids a (r\<lparr>rn_world := w\<rparr>)"
proof -
  from assms(1) have reach: "egress_reach (rn_world r)" by (simp add: prompts_ok_def)
  have "asked_of a w (rn_table r) (rn_answered r)"
  proof (unfold asked_of_def, intro ballI impI)
    fix x
    assume x: "x \<in> set (px_held (wd_proxy w))" "0 < announced (with_id (hd_id (snd x))) w"
    then obtain y where "y \<in> set (px_held (wd_proxy (rn_world r)))" "hd_id (snd y) = hd_id (snd x)"
      using open_before [OF reach assms(2) x(1)] by (auto simp: same)
    with x(2) assms(1) same show "hd_id (snd x) \<in> rn_answered r \<or> (\<exists>p\<in>set (rn_table r). pp_agent p = a \<and> pp_hold p = hd_id (snd x))"
      unfolding prompts_ok_def asked_of_def by metis
  qed
  with assms(1,3) same events show ?thesis unfolding prompts_ok_def stands_def by auto
qed

lemma hear_held:
  assumes "prompts_ok uuids a r" "inj uuids" "egress_step (rn_world r) w" "egress_reach w"
    and events: "wd_events w = wd_events (rn_world r) @ [EvHeld n host port]"
  shows "prompts_ok uuids a (hear uuids a project now (EvHeld n host port) (r\<lparr>rn_world := w\<rparr>))"
proof -
  let ?v = "rn_world r" and ?t = "rn_table r"
  define t' where "t' = fst (prompt_request a project host port n (uuids (rn_drawn r)) now ?t)"
  from assms(1) have ok: "egress_reach ?v" "table_sound uuids (rn_drawn r) ?t" "one_each ?t" "stands a ?v ?t" "asked_of a ?v ?t (rn_answered r)"
    by (simp_all add: prompts_ok_def)
  note req = request_table [OF ok(2) assms(2) t'_def]
  have counts: "announced (with_id m) w = announced (with_id m) ?v + of_bool (m = n)" "ended (with_id m) w = ended (with_id m) ?v" for m
    by (auto simp: announced_def ended_def events tells_held_def tells_ended_def with_id_def)
  have new: "announced (with_id n) ?v = 0" using announced_once [OF assms(4), of n] counts(1) [of n] by simp
  note none = ended_none [OF ok(1) new]
  have "stands a w t'"
    unfolding stands_def
  proof (intro ballI impI)
    fix p
    assume p: "p \<in> set t'" "pp_agent p = a"
    from req(2) [OF p(1)] show "EvHeld (pp_hold p) (pp_host p) (pp_port p) \<in> set (wd_events w) \<and> ended (with_id (pp_hold p)) w = 0"
    proof
      assume "p \<in> set ?t"
      with ok(4) p(2) show ?thesis by (simp add: stands_def events counts)
    qed (simp add: events counts none)
  qed
  moreover have "asked_of a w t' (rn_answered r)"
    unfolding asked_of_def
  proof (intro ballI impI)
    fix x
    assume x: "x \<in> set (px_held (wd_proxy w))" "0 < announced (with_id (hd_id (snd x))) w"
    show "hd_id (snd x) \<in> rn_answered r \<or> (\<exists>p\<in>set t'. pp_agent p = a \<and> pp_hold p = hd_id (snd x))"
    proof (cases "hd_id (snd x) = n")
      case True
      from req(4) show ?thesis unfolding True by blast
    next
      case False
      with x(2) have before: "0 < announced (with_id (hd_id (snd x))) ?v" by (simp add: counts)
      obtain y where "y \<in> set (px_held (wd_proxy ?v))" "hd_id (snd y) = hd_id (snd x)"
        using open_before [OF ok(1) assms(3) x(1) before] by blast
      with ok(5) before have "hd_id (snd x) \<in> rn_answered r \<or> (\<exists>p\<in>set ?t. pp_agent p = a \<and> pp_hold p = hd_id (snd x))"
        unfolding asked_of_def by metis
      then show ?thesis
      proof
        assume "\<exists>p\<in>set ?t. pp_agent p = a \<and> pp_hold p = hd_id (snd x)"
        then obtain p where p: "p \<in> set ?t" "pp_agent p = a" "pp_hold p = hd_id (snd x)" by blast
        have "pp_host p \<noteq> host"
        proof
          assume "pp_host p = host"
          with ok(4) p have "EvHeld (hd_id (snd x)) host (pp_port p) \<in> set (wd_events w)" by (auto simp: stands_def events)
          with open_host [OF assms(4), of "fst x" "snd x"] x(1) have "fst x = host" by simp
          moreover obtain h where "hold_of (wd_proxy w) host = Some h" "hd_id h = n"
            using announcing_open [OF assms(3) reach_counted [OF ok(1)] events] by blast
          moreover have "hold_of (wd_proxy w) (fst x) = Some (snd x)"
            using x(1) countedD(1) [OF reach_counted [OF assms(4)]] by (simp add: hold_of_def)
          ultimately show False using False by simp
        qed
        with req(3) [OF p(1)] p show ?thesis by blast
      qed blast
    qed
  qed
  moreover have "one_each t'" unfolding one_each_def using req(5) one_eachD [OF ok(3)] by blast
  ultimately show ?thesis
    using req(1) assms(4) unfolding prompts_ok_def hear_def by (simp add: on_egress_def case_prod_unfold Let_def t'_def)
qed

lemma hear_ended:
  assumes "prompts_ok uuids a r" "egress_step (rn_world r) w" "egress_reach w"
    and events: "wd_events w = wd_events (rn_world r) @ [EvHoldEnded n host port adm]"
  shows "prompts_ok uuids a (hear uuids a project now (EvHoldEnded n host port adm) (r\<lparr>rn_world := w\<rparr>))"
proof -
  let ?v = "rn_world r" and ?t = "rn_table r"
  define t' where "t' = fst (prompt_ended a n adm ?t)"
  from assms(1) have ok: "egress_reach ?v" "table_sound uuids (rn_drawn r) ?t" "one_each ?t" "stands a ?v ?t" "asked_of a ?v ?t (rn_answered r)"
    by (simp_all add: prompts_ok_def)
  note en = ended_table [OF ok(2) t'_def]
  have counts: "announced (with_id m) w = announced (with_id m) ?v" "ended (with_id m) w = ended (with_id m) ?v + of_bool (m = n)" for m
    by (auto simp: announced_def ended_def events tells_held_def tells_ended_def with_id_def)
  have "p = q" if "p \<in> set ?t" "q \<in> set ?t" "pp_agent p = a" "pp_agent q = a" "pp_hold p = n" "pp_hold q = n" for p q
  proof -
    from ok(4) that have "EvHeld n (pp_host p) (pp_port p) \<in> set (wd_events ?v)" "EvHeld n (pp_host q) (pp_port q) \<in> set (wd_events ?v)"
      by (auto simp: stands_def)
    from announced_same [OF ok(1) this] one_eachD [OF ok(3) that(1,2)] that(3,4) show ?thesis by simp
  qed
  then have "\<exists>r. {p \<in> set ?t. pp_agent p = a \<and> pp_hold p = n} \<subseteq> {r}" by blast
  note others = en(4) [OF this]
  have "stands a w t'"
    using ok(4) en(2) others by (auto simp: stands_def counts events)
  moreover have "asked_of a w t' (rn_answered r)"
    unfolding asked_of_def
  proof (intro ballI impI)
    fix x
    assume x: "x \<in> set (px_held (wd_proxy w))" "0 < announced (with_id (hd_id (snd x))) w"
    obtain y where "y \<in> set (px_held (wd_proxy ?v))" "hd_id (snd y) = hd_id (snd x)"
      using open_before [OF ok(1) assms(2) x(1)] x(2) by (auto simp: counts)
    with ok(5) x(2) have "hd_id (snd x) \<in> rn_answered r \<or> (\<exists>p\<in>set ?t. pp_agent p = a \<and> pp_hold p = hd_id (snd x))"
      unfolding asked_of_def counts by metis
    moreover have "hd_id (snd x) \<noteq> n"
      using hold_end_announced(2) [OF assms(3), of n host port adm] x(1)
      by (auto simp: events still_open_def tally_0 open_hold_def with_id_def)
    ultimately show "hd_id (snd x) \<in> rn_answered r \<or> (\<exists>p\<in>set t'. pp_agent p = a \<and> pp_hold p = hd_id (snd x))"
      using en(3) by metis
  qed
  ultimately show ?thesis
    using table_sound_Suc [OF en(1)] one_each_subset [OF ok(3) en(2)] assms(3)
    unfolding prompts_ok_def hear_def by (simp add: on_egress_def case_prod_unfold Let_def t'_def)
qed

lemma hear_step:
  assumes "prompts_ok uuids a r" "inj uuids" "egress_step (rn_world r) w" "wd_events w = wd_events (rn_world r) @ evs"
  shows "prompts_ok uuids a (fold (hear uuids a project now) evs (r\<lparr>rn_world := w\<rparr>))"
proof -
  from assms(1,3) have reach: "egress_reach w" by (auto simp: prompts_ok_def intro: egress_reach.later)
  have sub: "set (wd_events (rn_world r)) \<subseteq> set (wd_events w)" by (simp add: assms(4))
  from step_events [OF assms(3,4)] consider "evs = []" | e where "evs = [e]"
    by (cases evs) auto
  then show ?thesis
  proof cases
    case 1
    then have "prompts_ok uuids a (r\<lparr>rn_world := w\<rparr>)"
      using hear_quiet [OF assms(1,3) reach _ _ sub] assms(4) by (simp add: announced_def ended_def)
    with 1 show ?thesis by simp
  next
    case (2 e)
    have rest: ?thesis if quiet: "\<And>P. \<not> tells_held P e" "\<And>P. \<not> tells_ended P e"
      and same: "\<And>t u. he_table (on_egress a project u now e t) = t"
    proof -
      have "prompts_ok uuids a (r\<lparr>rn_world := w\<rparr>)"
        using hear_quiet [OF assms(1,3) reach _ _ sub] quiet by (simp add: announced_def ended_def assms(4) 2)
      then show ?thesis
        using table_sound_Suc by (simp add: 2 hear_def same prompts_ok_def)
    qed
    show ?thesis
    proof (cases e)
      case (EvHeld n host port)
      with 2 hear_held [OF assms(1-3) reach] assms(4) show ?thesis by simp
    next
      case (EvHoldEnded n host port adm)
      with 2 hear_ended [OF assms(1,3) reach] assms(4) show ?thesis by simp
    qed (rule rest, simp_all add: tells_held_def tells_ended_def on_egress_def)+
  qed
qed

lemma reach_prompts:
  assumes "prompt_reach uuids a r" "inj uuids"
  shows "prompts_ok uuids a r"
  using assms(1)
proof induction
  case (box_starts t k pol m timeout next_id clock)
  have "egress_reach (proxy_start pol m timeout next_id clock)" by (rule egress_reach.first)
  moreover have "px_held (wd_proxy (proxy_start pol m timeout next_id clock)) = []" by (simp add: proxy_start_def)
  ultimately show ?case using box_starts by (simp add: prompts_ok_def table_sound_def one_each_def stands_def asked_of_def)
next
  case (box_moves r w evs project now)
  then show ?case using hear_step assms(2) by blast
next
  case (closes r uid p o')
  then show ?case by (intro close_ok)
next
  case (others r other project now e)
  then show ?case using hear_other assms(2) by blast
qed

text \<open>
  Claim C24. The questions follow the holds: in every run, with answers closing prompts and other boxes
  raising theirs in between, no workspace is asked twice about one host at a time; a prompt of the box
  stands for a hold that was announced for that host and port and whose end was not told; and a hold
  that is open and was announced has its prompt up, unless somebody closed it. So no question outlives
  its hold's end, and no late end of an older hold takes the question of the one that followed it.
\<close>

theorem prompts_follow_holds:
  assumes "prompt_reach uuids a r" "inj uuids"
  shows "(\<forall>p \<in> set (rn_table r). \<forall>q \<in> set (rn_table r). pp_agent p = pp_agent q \<longrightarrow> pp_host p = pp_host q \<longrightarrow> p = q) \<and>
    (\<forall>p \<in> set (rn_table r). pp_agent p = a \<longrightarrow>
       EvHeld (pp_hold p) (pp_host p) (pp_port p) \<in> set (wd_events (rn_world r)) \<and>
       (\<forall>h port adm. EvHoldEnded (pp_hold p) h port adm \<notin> set (wd_events (rn_world r)))) \<and>
    (\<forall>(host, h) \<in> set (px_held (wd_proxy (rn_world r))). \<forall>port. EvHeld (hd_id h) host port \<in> set (wd_events (rn_world r)) \<longrightarrow>
       hd_id h \<in> rn_answered r \<or> (\<exists>p \<in> set (rn_table r). pp_agent p = a \<and> pp_host p = host \<and> pp_hold p = hd_id h))"
proof (intro conjI ballI impI allI)
  from reach_prompts [OF assms] have ok: "egress_reach (rn_world r)" "one_each (rn_table r)" "stands a (rn_world r) (rn_table r)"
    "asked_of a (rn_world r) (rn_table r) (rn_answered r)" by (simp_all add: prompts_ok_def)
  show "p = q" if "p \<in> set (rn_table r)" "q \<in> set (rn_table r)" "pp_agent p = pp_agent q" "pp_host p = pp_host q" for p q
    using one_eachD [OF ok(2) that] .
  show "EvHeld (pp_hold p) (pp_host p) (pp_port p) \<in> set (wd_events (rn_world r))"
    if "p \<in> set (rn_table r)" "pp_agent p = a" for p using ok(3) that by (simp add: stands_def)
  show "EvHoldEnded (pp_hold p) h port adm \<notin> set (wd_events (rn_world r))"
    if "p \<in> set (rn_table r)" "pp_agent p = a" for p h port adm
  proof -
    from ok(3) that have "ended (with_id (pp_hold p)) (rn_world r) = 0" by (simp add: stands_def)
    then have "\<not> tells_ended (with_id (pp_hold p)) e" if "e \<in> set (wd_events (rn_world r))" for e
      using that by (simp add: ended_def tally_0)
    from this [of "EvHoldEnded (pp_hold p) h port adm"] show ?thesis by (auto simp: tells_ended_def with_id_def)
  qed
  fix x :: "string \<times> hold"
  assume x: "x \<in> set (px_held (wd_proxy (rn_world r)))"
  show "case x of (host, h) \<Rightarrow> \<forall>port. EvHeld (hd_id h) host port \<in> set (wd_events (rn_world r)) \<longrightarrow>
       hd_id h \<in> rn_answered r \<or> (\<exists>p \<in> set (rn_table r). pp_agent p = a \<and> pp_host p = host \<and> pp_hold p = hd_id h)"
  proof (unfold case_prod_unfold, intro allI impI)
    fix port
    assume held: "EvHeld (hd_id (snd x)) (fst x) port \<in> set (wd_events (rn_world r))"
    with ok(4) x announced_held have "hd_id (snd x) \<in> rn_answered r \<or> (\<exists>p \<in> set (rn_table r). pp_agent p = a \<and> pp_hold p = hd_id (snd x))"
      unfolding asked_of_def by blast
    moreover have "pp_host p = fst x" if "p \<in> set (rn_table r)" "pp_agent p = a" "pp_hold p = hd_id (snd x)" for p
      using ok(3) that announced_same [OF ok(1) _ held, of "pp_host p" "pp_port p"] by (auto simp: stands_def)
    ultimately show "hd_id (snd x) \<in> rn_answered r \<or>
      (\<exists>p \<in> set (rn_table r). pp_agent p = a \<and> pp_host p = fst x \<and> pp_hold p = hd_id (snd x))" by blast
  qed
qed

text \<open>Every world of the proxy is one of a run in which nothing was answered.\<close>

lemma step_appends:
  assumes "egress_step w w'"
  shows "\<exists>evs. wd_events w' = wd_events w @ evs"
  using assms
proof cases
  case (moves i)
  then show ?thesis by (elim conn_moveE) simp
next
  case (tunnel_ends i a evs message up down)
  show ?thesis by (simp add: tunnel_ends(1))
qed (simp_all add: change_move_fields)

lemma hears_keep [simp]:
  "rn_world (fold (hear uuids a project now) evs r) = rn_world r" "rn_answered (fold (hear uuids a project now) evs r) = rn_answered r"
  by (induction evs arbitrary: r) (simp_all add: hear_def)

lemma run_exists: "egress_reach w \<Longrightarrow> \<exists>r. prompt_reach uuids a r \<and> rn_world r = w \<and> rn_answered r = {}"
proof (induction rule: egress_reach.induct)
  case (first pol m timeout next_id now)
  have "prompt_reach uuids a \<lparr>rn_world = proxy_start pol m timeout next_id now, rn_table = [], rn_drawn = 0, rn_answered = {}\<rparr>"
    by (rule prompt_reach.box_starts) simp_all
  then show ?case by (intro exI conjI) (assumption, simp_all)
next
  case (later w w')
  then obtain r where r: "prompt_reach uuids a r" "rn_world r = w" "rn_answered r = {}" by blast
  obtain evs where evs: "wd_events w' = wd_events w @ evs" using step_appends [OF later(2)] by blast
  then have "prompt_reach uuids a (fold (hear uuids a '''' '''') evs (r\<lparr>rn_world := w'\<rparr>))"
    using prompt_reach.box_moves [OF r(1)] later(2) r(2) by simp
  with r(3) show ?case by (intro exI conjI) (assumption, simp_all)
qed

end
