(* ===== verification/Egress_Boxes.thy ===== *)
theory Egress_Boxes
  imports Egress_Layers Egress_Prompts
begin

text \<open>
  The boxes' side of the network (\<open>sandbox/boxes/registry.rs\<close>, \<open>commands/boxes.rs\<close>): what a box's proxy is given
  as it boots, how a change of the lists, of the posture or of the turn reaches the running ones, and the
  answers to prompts. The projects of an update of all boxes are taken in the order of the boxes (the code has
  them in a hash set, in any order). A call reads under one lock and writes under another, so calls and boots interleave.
\<close>

section \<open>Boxes\<close>

fun posture_mode :: "egress_mode \<Rightarrow> proxy_mode" where
  "posture_mode EgOpen = MdOpen"
| "posture_mode EgAsk = MdHold"
| "posture_mode EgAllowList = MdRefuse"

text \<open>A running box: which of the proxies so far it has, and what that one serves.\<close>

record running_box =
  rb_proxy :: nat
  rb_policy :: egress_policy
  rb_mode :: proxy_mode
  rb_declined :: "string set"

text \<open>A boot has read the mode, then has a proxy of its own, and is published when the machine is ready.\<close>

datatype booting = BtMode proxy_mode | BtReady running_box

record box_entry =
  bx_project :: string
  bx_turn_open :: bool
  bx_booting :: "booting option"
  bx_running :: "running_box option"

definition entry_new :: "string \<Rightarrow> box_entry" where
  "entry_new project = \<lparr>bx_project = project, bx_turn_open = False, bx_booting = None, bx_running = None\<rparr>"

definition entry_mode :: "egress_state \<Rightarrow> box_entry \<Rightarrow> proxy_mode" where
  "entry_mode s e = (if bx_turn_open e then MdOverride else posture_mode (egress_mode_of s (bx_project e)))"

text \<open>
  What is left of a call: of \<open>update_egress\<close> for some projects, the policy to read, the modes to read, the
  proxies to update with what was read; of \<open>set_turn_open\<close>, its update.
\<close>

datatype net_call =
    UpdAll
  | UpdRead "string list"
  | UpdModes string egress_policy "string list"
  | UpdApply egress_policy "(string \<times> nat \<times> proxy_mode) list" "string list"
  | TurnApply string nat proxy_mode

record fleet =
  fl_settings :: egress_state
  fl_boxes :: "(string \<times> box_entry) list"
  fl_calls :: "net_call list"
  fl_proxies :: nat

definition with_box :: "string \<Rightarrow> (box_entry \<Rightarrow> box_entry) \<Rightarrow> fleet \<Rightarrow> fleet" where
  "with_box a f w =
     (case map_of (fl_boxes w) a of
        Some e \<Rightarrow> w\<lparr>fl_boxes := AList.update a (f e) (fl_boxes w)\<rparr>
      | None \<Rightarrow> w)"

definition register_box :: "string \<Rightarrow> string \<Rightarrow> fleet \<Rightarrow> fleet" where
  "register_box a project w =
     (case map_of (fl_boxes w) a of
        Some e \<Rightarrow> with_box a (\<lambda>e. e\<lparr>bx_project := project\<rparr>) w
      | None \<Rightarrow> w\<lparr>fl_boxes := fl_boxes w @ [(a, entry_new project)]\<rparr>)"

text \<open>\<open>proxy.update\<close> on the proxy that was running when the call read it; it may be gone since.\<close>

definition update_proxy :: "string \<Rightarrow> nat \<Rightarrow> egress_policy \<Rightarrow> proxy_mode \<Rightarrow> fleet \<Rightarrow> fleet" where
  "update_proxy a i pol m w =
     with_box a (\<lambda>e. e\<lparr>bx_running := map_option (\<lambda>r. if rb_proxy r = i then r\<lparr>rb_policy := pol, rb_mode := m\<rparr> else r) (bx_running e)\<rparr>) w"

definition running_projects :: "fleet \<Rightarrow> string list" where
  "running_projects w = remdups (map (\<lambda>(a, e). bx_project e) (filter (\<lambda>(a, e). bx_running e \<noteq> None) (fl_boxes w)))"

definition modes_of :: "fleet \<Rightarrow> string \<Rightarrow> (string \<times> nat \<times> proxy_mode) list" where
  "modes_of w project =
     List.map_filter (\<lambda>(a, e). if bx_project e = project
        then map_option (\<lambda>r. (a, rb_proxy r, entry_mode (fl_settings w) e)) (bx_running e) else None) (fl_boxes w)"

definition upd_rest :: "string list \<Rightarrow> net_call list" where
  "upd_rest ps = (if ps = [] then [] else [UpdRead ps])"

text \<open>A call's next step: what it does, and what is left of it.\<close>

definition call_step :: "net_call \<Rightarrow> fleet \<Rightarrow> fleet \<times> net_call list" where
  "call_step c w =
     (case c of
        UpdAll \<Rightarrow> (w, upd_rest (running_projects w))
      | UpdRead ps \<Rightarrow> (w, case ps of [] \<Rightarrow> [] | p # ps \<Rightarrow> [UpdModes p (egress_policy_of (fl_settings w) p) ps])
      | UpdModes p pol ps \<Rightarrow> (w, [UpdApply pol (modes_of w p) ps])
      | UpdApply pol todo ps \<Rightarrow>
          (case todo of
             [] \<Rightarrow> (w, upd_rest ps)
           | (a, i, m) # todo \<Rightarrow> (update_proxy a i pol m w, [UpdApply pol todo ps]))
      | TurnApply a i m \<Rightarrow>
          (case map_of (fl_boxes w) a of
             Some e \<Rightarrow> (update_proxy a i (egress_policy_of (fl_settings w) (bx_project e)) m w, [])
           | None \<Rightarrow> (w, [])))"

definition call_moves :: "nat \<Rightarrow> fleet \<Rightarrow> fleet" where
  "call_moves i w =
     (let (w', rest) = call_step (fl_calls w ! i) w
      in w'\<lparr>fl_calls := take i (fl_calls w) @ rest @ drop (Suc i) (fl_calls w)\<rparr>)"

definition call :: "net_call list \<Rightarrow> fleet \<Rightarrow> fleet" where
  "call cs w = w\<lparr>fl_calls := fl_calls w @ cs\<rparr>"

definition set_turn_open :: "string \<Rightarrow> bool \<Rightarrow> fleet \<Rightarrow> bool \<times> fleet" where
  "set_turn_open a opened w =
     (case map_of (fl_boxes w) a of
        None \<Rightarrow> (False, w)
      | Some e \<Rightarrow>
          if bx_turn_open e = opened then (True, w)
          else
            (let e = e\<lparr>bx_turn_open := opened\<rparr>
             in (True, call (case bx_running e of Some r \<Rightarrow> [TurnApply a (rb_proxy r) (entry_mode (fl_settings w) e)] | None \<Rightarrow> [])
                  (with_box a (\<lambda>_. e) w))))"

definition box_turn_ended :: "string \<Rightarrow> fleet \<Rightarrow> fleet" where
  "box_turn_ended a w = snd (set_turn_open a False w)"

definition decline_host :: "string \<Rightarrow> string \<Rightarrow> fleet \<Rightarrow> fleet" where
  "decline_host a host w =
     with_box a (\<lambda>e. e\<lparr>bx_running := map_option (\<lambda>r. case decline_name host of
         Some n \<Rightarrow> r\<lparr>rb_declined := insert n (rb_declined r)\<rparr> | None \<Rightarrow> r) (bx_running e)\<rparr>) w"

section \<open>Boots\<close>

definition boot_begin :: "string \<Rightarrow> fleet \<Rightarrow> fleet" where
  "boot_begin a w = with_box a (\<lambda>e. e\<lparr>bx_booting := Some (BtMode (entry_mode (fl_settings w) e))\<rparr>) w"

definition boot_proxy :: "string \<Rightarrow> fleet \<Rightarrow> fleet" where
  "boot_proxy a w =
     (with_box a (\<lambda>e. case bx_booting e of
         Some (BtMode m) \<Rightarrow> e\<lparr>bx_booting := Some (BtReady \<lparr>rb_proxy = fl_proxies w,
            rb_policy = egress_policy_of (fl_settings w) (bx_project e), rb_mode = m, rb_declined = {}\<rparr>)\<rparr>
       | _ \<Rightarrow> e) w)\<lparr>fl_proxies := fl_proxies w + 1\<rparr>"

definition boot_published :: "string \<Rightarrow> fleet \<Rightarrow> fleet" where
  "boot_published a w =
     with_box a (\<lambda>e. case bx_booting e of
         Some (BtReady r) \<Rightarrow> e\<lparr>bx_booting := None, bx_running := Some r\<rparr>
       | _ \<Rightarrow> e) w"

definition boot_failed :: "string \<Rightarrow> fleet \<Rightarrow> fleet" where
  "boot_failed a w = with_box a (\<lambda>e. e\<lparr>bx_booting := None\<rparr>) w"

definition box_stopped :: "string \<Rightarrow> fleet \<Rightarrow> fleet" where
  "box_stopped a w = with_box a (\<lambda>e. e\<lparr>bx_running := None\<rparr>) w"

section \<open>Changes\<close>

text \<open>Each write of the settings calls the update of the boxes it reaches.\<close>

definition net_allow :: "serde \<Rightarrow> unicode \<Rightarrow> string \<Rightarrow> string \<Rightarrow> fleet \<Rightarrow> fleet" where
  "net_allow J U project pat w =
     (let (r, s) = allow_host J U project pat (fl_settings w)
      in (case r of Inl _ \<Rightarrow> id | Inr _ \<Rightarrow> call [UpdRead [project]]) (w\<lparr>fl_settings := s\<rparr>))"

definition net_global :: "serde \<Rightarrow> unicode \<Rightarrow> delta \<Rightarrow> fleet \<Rightarrow> fleet" where
  "net_global J U d w =
     (let (r, s) = set_global_list J U d (fl_settings w)
      in (case r of Inl _ \<Rightarrow> id | Inr _ \<Rightarrow> call [UpdAll]) (w\<lparr>fl_settings := s\<rparr>))"

definition net_setting :: "unicode \<Rightarrow> string \<Rightarrow> string \<Rightarrow> string option \<Rightarrow> fleet \<Rightarrow> fleet" where
  "net_setting U project key v w =
     (let (r, s) = project_setting_write U project key v (fl_settings w)
      in (case r of Inl _ \<Rightarrow> id | Inr _ \<Rightarrow> if key = egress_mode_key then call [UpdRead [project]] else id) (w\<lparr>fl_settings := s\<rparr>))"

definition net_posture :: "unicode \<Rightarrow> string option \<Rightarrow> fleet \<Rightarrow> fleet" where
  "net_posture U v w =
     (let (r, s) = set_posture U v (fl_settings w)
      in (case r of Inl _ \<Rightarrow> id | Inr _ \<Rightarrow> call [UpdAll]) (w\<lparr>fl_settings := s\<rparr>))"

definition net_refresh :: "disk \<Rightarrow> string \<Rightarrow> fleet \<Rightarrow> fleet" where
  "net_refresh D project w =
     (let ((_, _, pushed), s) = file_refresh D project (fl_settings w)
      in (if pushed then call [UpdRead [project]] else id) (w\<lparr>fl_settings := s\<rparr>))"

section \<open>Answers\<close>

datatype egress_answer = AnProject | AnAlways | AnBlock | AnTurn

text \<open>\<open>box_egress_answer\<close>: what it leaves of the fleet and the prompts, what it tells, and its error.\<close>

definition egress_answer_op ::
  "serde \<Rightarrow> unicode \<Rightarrow> string \<Rightarrow> egress_answer \<Rightarrow> fleet \<Rightarrow> pending_prompt list \<Rightarrow>
     fleet \<times> pending_prompt list \<times> prompt_event list \<times> string option" where
  "egress_answer_op J U uid ans w t =
     (case get_prompt uid t of
        None \<Rightarrow> (w, t, [], None)
      | Some p \<Rightarrow>
          (let allowed = (\<lambda>w. let (t, es) = prompt_resolve uid OcAllowed t in (w, t, es, None))
           in case ans of
                AnProject \<Rightarrow>
                  (case fst (allow_host J U (pp_project p) (pp_host p) (fl_settings w)) of
                     Inl e \<Rightarrow> (net_allow J U (pp_project p) (pp_host p) w, t, [], Some e)
                   | Inr _ \<Rightarrow> allowed (net_allow J U (pp_project p) (pp_host p) w))
              | AnAlways \<Rightarrow>
                  (let d = global_egress (fl_settings w); d = d\<lparr>dl_add := push_new (pp_host p) (dl_add d)\<rparr>
                   in case fst (set_global_list J U d (fl_settings w)) of
                        Inl e \<Rightarrow> (net_global J U d w, t, [], Some e)
                      | Inr _ \<Rightarrow> allowed (net_global J U d w))
              | AnTurn \<Rightarrow> allowed (snd (set_turn_open (pp_agent p) True w))
              | AnBlock \<Rightarrow>
                  (let (t, es) = prompt_resolve uid OcBlocked t
                   in (decline_host (pp_agent p) (pp_host p) w, t, es, None))))"

definition open_turn :: "string \<Rightarrow> bool \<Rightarrow> fleet \<Rightarrow> (string + unit) \<times> fleet" where
  "open_turn a opened w =
     (let (ok, w) = set_turn_open a opened w
      in (if ok then Inr () else Inl ''this workspace does not run in a Linux VM'', w))"

section \<open>Steps\<close>

text \<open>An agent's project does not change. What starts a call or a boot; what moves one on; what is neither.\<close>

inductive net_op :: "serde \<Rightarrow> unicode \<Rightarrow> fleet \<Rightarrow> fleet \<Rightarrow> bool" for J U where
  allows: "net_op J U w (net_allow J U p pat w)"
| globals: "net_op J U w (net_global J U d w)"
| sets: "net_op J U w (net_setting U p k v w)"
| postures: "net_op J U w (net_posture U v w)"
| rereads: "net_op J U w (net_refresh D p w)"
| turns: "net_op J U w (snd (set_turn_open a opened w))"
| boots: "map_of (fl_boxes w) a = Some e \<Longrightarrow> bx_running e = None \<Longrightarrow> bx_booting e = None \<Longrightarrow> net_op J U w (boot_begin a w)"

inductive net_progress :: "fleet \<Rightarrow> fleet \<Rightarrow> bool" where
  calls_on: "i < length (fl_calls w) \<Longrightarrow> net_progress w (call_moves i w)"
| has_proxy: "net_progress w (boot_proxy a w)"
| published: "net_progress w (boot_published a w)"
| fails: "net_progress w (boot_failed a w)"

inductive net_free :: "(string \<Rightarrow> string) \<Rightarrow> fleet \<Rightarrow> fleet \<Rightarrow> bool" for project_of where
  registers: "net_free project_of w (register_box a (project_of a) w)"
| stops: "net_free project_of w (box_stopped a w)"
| declines: "net_free project_of w (decline_host a h w)"

definition fleet_start :: "egress_state \<Rightarrow> fleet" where
  "fleet_start s = \<lparr>fl_settings = s, fl_boxes = [], fl_calls = [], fl_proxies = 0\<rparr>"

inductive net_reach :: "serde \<Rightarrow> unicode \<Rightarrow> (string \<Rightarrow> string) \<Rightarrow> fleet \<Rightarrow> bool" for J U project_of where
  fleet_starts: "net_reach J U project_of (fleet_start s)"
| fleet_moves: "net_reach J U project_of w \<Longrightarrow> net_op J U w w' \<or> net_progress w w' \<or> net_free project_of w w' \<Longrightarrow>
    net_reach J U project_of w'"

definition idle :: "fleet \<Rightarrow> bool" where
  "idle w \<longleftrightarrow> fl_calls w = [] \<and> (\<forall>a e. map_of (fl_boxes w) a = Some e \<longrightarrow> bx_booting e = None)"

text \<open>A run in which a call or a boot begins only when no other is on its way.\<close>

inductive calm_reach :: "serde \<Rightarrow> unicode \<Rightarrow> (string \<Rightarrow> string) \<Rightarrow> fleet \<Rightarrow> bool" for J U project_of where
  calm_starts: "calm_reach J U project_of (fleet_start s)"
| calm_moves: "calm_reach J U project_of w \<Longrightarrow> idle w \<and> net_op J U w w' \<or> net_progress w w' \<or> net_free project_of w w' \<Longrightarrow>
    calm_reach J U project_of w'"

definition box_of :: "fleet \<Rightarrow> string \<Rightarrow> box_entry option" where "box_of w a = map_of (fl_boxes w) a"

definition current :: "egress_state \<Rightarrow> box_entry \<Rightarrow> running_box \<Rightarrow> bool" where
  "current s e r \<longleftrightarrow> rb_policy r = egress_policy_of s (bx_project e) \<and> rb_mode r = entry_mode s e"

definition served :: "fleet \<Rightarrow> string \<Rightarrow> box_entry \<Rightarrow> bool" where
  "served w a e \<longleftrightarrow> (\<forall>r. bx_running e = Some r \<longrightarrow> current (fl_settings w) e r)"

text \<open>What holds while a call is on its way: who is served already, and that what it read is current.\<close>

definition call_ok :: "fleet \<Rightarrow> net_call \<Rightarrow> bool" where
  "call_ok w c =
     (case c of
        UpdAll \<Rightarrow> True
      | UpdRead ps \<Rightarrow> \<forall>a e. box_of w a = Some e \<longrightarrow> bx_project e \<notin> set ps \<longrightarrow> served w a e
      | UpdModes p pol ps \<Rightarrow> pol = egress_policy_of (fl_settings w) p \<and>
          (\<forall>a e. box_of w a = Some e \<longrightarrow> bx_project e \<notin> set (p # ps) \<longrightarrow> served w a e)
      | UpdApply pol todo ps \<Rightarrow> (\<exists>p. pol = egress_policy_of (fl_settings w) p \<and>
          (\<forall>(a, i, m) \<in> set todo. \<exists>e. box_of w a = Some e \<and> bx_project e = p \<and> m = entry_mode (fl_settings w) e) \<and>
          (\<forall>a e. box_of w a = Some e \<longrightarrow> bx_project e \<notin> set ps \<longrightarrow>
             served w a e \<or> (\<exists>r m. bx_running e = Some r \<and> (a, rb_proxy r, m) \<in> set todo)))
      | TurnApply a i m \<Rightarrow> box_of w a \<noteq> None \<and> (\<forall>b e. box_of w b = Some e \<longrightarrow> (if b = a
          then m = entry_mode (fl_settings w) e \<and> (\<forall>r. bx_running e = Some r \<longrightarrow> rb_proxy r = i) else served w b e)))"

definition boot_ok :: "egress_state \<Rightarrow> box_entry \<Rightarrow> bool" where
  "boot_ok s e \<longleftrightarrow>
     (case bx_booting e of
        Some (BtMode m) \<Rightarrow> m = entry_mode s e
      | Some (BtReady r) \<Rightarrow> current s e r
      | None \<Rightarrow> True)"

definition calm_ok :: "(string \<Rightarrow> string) \<Rightarrow> fleet \<Rightarrow> bool" where
  "calm_ok project_of w \<longleftrightarrow>
     distinct (map fst (fl_boxes w)) \<and> (\<forall>a e. box_of w a = Some e \<longrightarrow> bx_project e = project_of a) \<and>
     (case fl_calls w of
        [] \<Rightarrow> \<forall>a e. box_of w a = Some e \<longrightarrow> served w a e \<and> boot_ok (fl_settings w) e
      | [c] \<Rightarrow> call_ok w c \<and> (\<forall>a e. box_of w a = Some e \<longrightarrow> bx_booting e = None)
      | _ \<Rightarrow> False)"

lemma box_with: "box_of (with_box a f w) b = (if b = a then map_option f (box_of w a) else box_of w b)"
  by (auto simp: box_of_def with_box_def update_conv' split: option.split)

lemma with_box_fields [simp]:
  "fl_settings (with_box a f w) = fl_settings w" "fl_calls (with_box a f w) = fl_calls w" "fl_proxies (with_box a f w) = fl_proxies w"
  by (simp_all add: with_box_def split: option.split)

lemma with_box_distinct: "distinct (map fst (fl_boxes w)) \<Longrightarrow> distinct (map fst (fl_boxes (with_box a f w)))"
  by (simp add: with_box_def distinct_update split: option.split)

lemma box_of_more [simp]:
  "box_of (w\<lparr>fl_calls := cs\<rparr>) a = box_of w a" "box_of (w\<lparr>fl_settings := s\<rparr>) a = box_of w a" "box_of (w\<lparr>fl_proxies := n\<rparr>) a = box_of w a"
  by (simp_all add: box_of_def)

lemma served_more [simp]:
  "served (w\<lparr>fl_calls := cs\<rparr>) a e = served w a e" "served (with_box b f w) a e = served w a e"
  "served (w\<lparr>fl_proxies := n\<rparr>) a e = served w a e"
  by (simp_all add: served_def)

lemma call_ok_more [simp]:
  "call_ok (w\<lparr>fl_calls := cs\<rparr>) c = call_ok w c" "call_ok (w\<lparr>fl_proxies := n\<rparr>) c = call_ok w c"
  by (cases c; simp add: call_ok_def)+

text \<open>A change of one box that may take its proxy or its boot away, and no more.\<close>

definition keeps :: "(box_entry \<Rightarrow> box_entry) \<Rightarrow> box_entry \<Rightarrow> bool" where
  "keeps f e \<longleftrightarrow>
     bx_project (f e) = bx_project e \<and> bx_turn_open (f e) = bx_turn_open e \<and>
     (bx_booting (f e) = None \<or> bx_booting (f e) = bx_booting e) \<and>
     (\<forall>r'. bx_running (f e) = Some r' \<longrightarrow> (\<exists>r. bx_running e = Some r \<and>
        rb_proxy r' = rb_proxy r \<and> rb_policy r' = rb_policy r \<and> rb_mode r' = rb_mode r))"

lemma keeps_entry:
  assumes "keeps f e"
  shows "bx_project (f e) = bx_project e" "entry_mode s (f e) = entry_mode s e" "served w a e \<Longrightarrow> served w a (f e)"
    "bx_running (f e) = Some r' \<Longrightarrow> \<exists>r. bx_running e = Some r \<and> rb_proxy r' = rb_proxy r"
    "current s (f e) r = current s e r" "bx_booting e = None \<Longrightarrow> bx_booting (f e) = None"
  using assms by (auto simp: keeps_def entry_mode_def served_def current_def)

lemma call_ok_keeps:
  assumes "call_ok w c" "\<And>e. box_of w a = Some e \<Longrightarrow> keeps f e"
  shows "call_ok (with_box a f w) c"
proof -
  have box: "\<exists>e'. box_of w b = Some e' \<and> bx_project e = bx_project e' \<and> entry_mode s e = entry_mode s e' \<and>
      (served w b e' \<longrightarrow> served w b e) \<and> (\<forall>r. bx_running e = Some r \<longrightarrow> (\<exists>r'. bx_running e' = Some r' \<and> rb_proxy r = rb_proxy r'))"
    if "box_of (with_box a f w) b = Some e" for b e s
    using that keeps_entry [OF assms(2)] by (auto simp: box_with split: if_splits)
  have kept: "\<exists>e'. box_of (with_box a f w) b = Some e' \<and> bx_project e = bx_project e' \<and> entry_mode s e = entry_mode s e'"
    if "box_of w b = Some e" for b e s
    using that keeps_entry [OF assms(2)] by (auto simp: box_with)
  show ?thesis
  proof (cases c)
    case UpdAll
    then show ?thesis by (simp add: call_ok_def)
  next
    case (UpdRead ps)
    with assms(1) show ?thesis using box by (fastforce simp: call_ok_def)
  next
    case (UpdModes p pol ps)
    with assms(1) show ?thesis using box by (fastforce simp: call_ok_def)
  next
    case (TurnApply b i m)
    with assms(1) have ok: "box_of w b \<noteq> None" "\<And>b' e. box_of w b' = Some e \<Longrightarrow> if b' = b
          then m = entry_mode (fl_settings w) e \<and> (\<forall>r. bx_running e = Some r \<longrightarrow> rb_proxy r = i) else served w b' e"
      by (auto simp: call_ok_def)
    have "if b' = b then m = entry_mode (fl_settings w) e \<and> (\<forall>r. bx_running e = Some r \<longrightarrow> rb_proxy r = i) else served w b' e"
      if new: "box_of (with_box a f w) b' = Some e" for b' e
    proof -
      obtain e' where e': "box_of w b' = Some e'" "entry_mode (fl_settings w) e = entry_mode (fl_settings w) e'"
        "served w b' e' \<longrightarrow> served w b' e" "\<forall>r. bx_running e = Some r \<longrightarrow> (\<exists>r'. bx_running e' = Some r' \<and> rb_proxy r = rb_proxy r')"
        using box [OF new, of "fl_settings w"] by blast
      from ok(2) [OF e'(1)] e'(2-) show ?thesis by (auto split: if_splits)
    qed
    moreover have "box_of (with_box a f w) b \<noteq> None" using ok(1) by (auto simp: box_with)
    ultimately show ?thesis using TurnApply by (simp add: call_ok_def)
  next
    case (UpdApply pol todo ps)
    with assms(1) obtain p where ok: "pol = egress_policy_of (fl_settings w) p"
      "\<And>b i m. (b, i, m) \<in> set todo \<Longrightarrow> \<exists>e. box_of w b = Some e \<and> bx_project e = p \<and> m = entry_mode (fl_settings w) e"
      "\<And>b e. box_of w b = Some e \<Longrightarrow> bx_project e \<notin> set ps \<Longrightarrow>
         served w b e \<or> (\<exists>r m. bx_running e = Some r \<and> (b, rb_proxy r, m) \<in> set todo)"
      by (fastforce simp: call_ok_def)
    have "\<exists>e. box_of (with_box a f w) b = Some e \<and> bx_project e = p \<and> m = entry_mode (fl_settings w) e"
      if "(b, i, m) \<in> set todo" for b i m using ok(2) [OF that] kept [of b _ "fl_settings w"] by metis
    moreover have "served w b e \<or> (\<exists>r m. bx_running e = Some r \<and> (b, rb_proxy r, m) \<in> set todo)"
      if new: "box_of (with_box a f w) b = Some e" "bx_project e \<notin> set ps" for b e
    proof -
      obtain e' where e': "box_of w b = Some e'" "bx_project e = bx_project e'"
        "served w b e' \<longrightarrow> served w b e" "\<forall>r. bx_running e = Some r \<longrightarrow> (\<exists>r'. bx_running e' = Some r' \<and> rb_proxy r = rb_proxy r')"
        using box [OF new(1), of "fl_settings w"] by blast
      from ok(3) [OF e'(1)] new(2) e'(2-) show ?thesis
        by (cases "bx_running e") (auto simp: served_def)
    qed
    ultimately show ?thesis using UpdApply ok(1) by (auto simp: call_ok_def intro!: exI [of _ p])
  qed
qed

lemma calm_keeps:
  assumes "calm_ok project_of w" "\<And>e. box_of w a = Some e \<Longrightarrow> keeps f e"
  shows "calm_ok project_of (with_box a f w)"
proof -
  have project: "bx_project e = project_of b" if "box_of (with_box a f w) b = Some e" for b e
    using that assms(1) keeps_entry(1) [OF assms(2)] by (auto simp: calm_ok_def box_with split: if_splits)
  have none: "bx_booting e = None"
    if "\<forall>b e. box_of w b = Some e \<longrightarrow> bx_booting e = None" "box_of (with_box a f w) b = Some e" for b e
    using that keeps_entry(6) [OF assms(2)] by (auto simp: box_with split: if_splits)
  show ?thesis
  proof (cases "fl_calls w")
    case Nil
    have "served w b e \<and> boot_ok (fl_settings w) e"
      if "box_of (with_box a f w) b = Some e" for b e
    proof -
      have old: "served w b e' \<and> boot_ok (fl_settings w) e'" if "box_of w b = Some e'" for e'
        using assms(1) Nil that by (simp add: calm_ok_def)
      show ?thesis
      proof (cases "b = a")
        case True
        with that obtain e' where e': "box_of w a = Some e'" "e = f e'" by (auto simp: box_with)
        note k = assms(2) [OF e'(1)]
        from old [of e'] True e' keeps_entry [OF k] k show ?thesis
          by (auto simp: keeps_def boot_ok_def split: option.splits booting.splits)
      qed (use that old in \<open>simp add: box_with\<close>)
    qed
    with Nil assms(1) project show ?thesis by (simp add: calm_ok_def with_box_distinct)
  next
    case (Cons c cs)
    with assms(1) have "cs = []" by (cases cs) (simp_all add: calm_ok_def)
    with Cons assms(1) project none call_ok_keeps [OF _ assms(2)] show ?thesis
      by (simp add: calm_ok_def with_box_distinct)
  qed
qed

section \<open>What a write of the settings reaches\<close>

definition same_net :: "egress_state \<Rightarrow> egress_state \<Rightarrow> string \<Rightarrow> bool" where
  "same_net s s' q \<longleftrightarrow> egress_policy_of s' q = egress_policy_of s q \<and> egress_mode_of s' q = egress_mode_of s q"

lemma same_netI:
  assumes "eg_global s' = eg_global s" "egress_delta s' q = egress_delta s q" "eg_allow s' q = eg_allow s q"
    "eg_modes s' q = eg_modes s q" "eg_posture s' = eg_posture s"
  shows "same_net s s' q"
  using assms
  by (cases "eg_modes s q") (simp_all add: same_net_def egress_policy_of_def egress_entries_def egress_layers_def global_egress_def egress_allow_def egress_mode_of_def)

lemma delta_cong: "eg_files s' q = eg_files s q \<Longrightarrow> egress_delta s' q = egress_delta s q"
  by (simp add: egress_delta_def file_status_of_def)

lemma same_net_refl [simp]: "same_net s s q"
  by (simp add: same_net_def)

lemma net_db: "same_net s (s\<lparr>eg_db := db\<rparr>) q"
  by (intro same_netI delta_cong) simp_all

lemma allow_host_net:
  assumes "allow_host J U p pat s = (r, s')"
  shows "isl r \<Longrightarrow> s' = s" "q \<noteq> p \<Longrightarrow> same_net s s' q"
proof -
  show "isl r \<Longrightarrow> s' = s" using assms by (auto simp: allow_host_def Let_def split: sum.splits)
  assume "q \<noteq> p"
  with assms show "same_net s s' q"
    by (auto simp: allow_host_def Let_def set_egress_allow_def intro!: same_netI delta_cong split: sum.splits)
qed

lemma setting_net:
  assumes "project_setting_write U p key v s = (r, s')"
  shows "isl r \<Longrightarrow> s' = s" "q \<noteq> p \<or> key \<noteq> egress_mode_key \<Longrightarrow> same_net s s' q"
proof -
  show "isl r \<Longrightarrow> s' = s" using assms by (auto simp: project_setting_write_def Let_def split: sum.splits)
  assume "q \<noteq> p \<or> key \<noteq> egress_mode_key"
  with assms show "same_net s s' q"
    by (auto simp: project_setting_write_def Let_def set_egress_mode_override_def intro!: same_netI delta_cong split: sum.splits)
qed

lemma posture_net: "set_posture U v s = (r, s') \<Longrightarrow> isl r \<Longrightarrow> s' = s"
  by (auto simp: set_posture_def Let_def split: sum.splits option.splits)

lemma global_net: "set_global_list J U d s = (r, s') \<Longrightarrow> isl r \<Longrightarrow> s' = s"
  by (auto simp: set_global_list_def Let_def split: sum.splits)

lemma refresh_net:
  assumes "file_refresh D p s = ((st, ch, pushed), s')"
  shows "q \<noteq> p \<or> \<not> pushed \<Longrightarrow> same_net s s' q"
proof -
  assume q: "q \<noteq> p \<or> \<not> pushed"
  obtain e where e: "file_store p e s = ((ch, pushed), s')"
    using assms by (auto simp: file_refresh_def Let_def case_prod_unfold intro: that) (metis prod.collapse)
  then have s': "s' = s\<lparr>eg_files := (eg_files s)(p \<mapsto> e)\<rparr>" by (auto simp: file_store_def Let_def)
  have "egress_delta s' q = egress_delta s q"
  proof (cases "q = p")
    case True
    with q e obtain e0 where e0: "eg_files s p = Some e0"
      "st_applied (fst_egress (entry_status p e0)) = st_applied (fst_egress (entry_status p e))"
      "st_disabled (fst_egress (entry_status p e0)) = st_disabled (fst_egress (entry_status p e))"
      by (cases "eg_files s p") (auto simp: file_store_def Let_def)
    with True show ?thesis by (simp add: s' egress_delta_def file_status_of_def Let_def)
  next
    case False
    then show ?thesis by (intro delta_cong) (simp add: s')
  qed
  then show "same_net s s' q"
    by (intro same_netI) (simp_all add: s')
qed

lemma served_same:
  "same_net (fl_settings w) s' (bx_project e) \<Longrightarrow> served (w\<lparr>fl_settings := s'\<rparr>) a e = served w a e"
  by (simp add: served_def current_def entry_mode_def same_net_def)

text \<open>A write in an idle fleet, and the call it makes.\<close>

lemma calm_write:
  assumes "calm_ok project_of w" "idle w" "cs = [] \<or> cs = [UpdAll] \<or> (\<exists>p. cs = [UpdRead [p]])"
    and "\<And>q. cs \<noteq> [UpdAll] \<Longrightarrow> cs \<noteq> [UpdRead [q]] \<Longrightarrow> same_net (fl_settings w) s' q"
  shows "calm_ok project_of (call cs (w\<lparr>fl_settings := s'\<rparr>))"
proof -
  from assms(1,2) have ok: "fl_calls w = []" "distinct (map fst (fl_boxes w))" "\<And>a e. box_of w a = Some e \<Longrightarrow> bx_project e = project_of a"
    "\<And>a e. box_of w a = Some e \<Longrightarrow> served w a e" "\<And>a e. box_of w a = Some e \<Longrightarrow> bx_booting e = None"
    by (auto simp: calm_ok_def idle_def box_of_def)
  from assms(3) show ?thesis
  proof (elim disjE exE)
    assume "cs = []"
    with ok assms(4) show ?thesis by (auto simp: calm_ok_def call_def served_same boot_ok_def)
  next
    assume "cs = [UpdAll]"
    with ok show ?thesis by (auto simp: calm_ok_def call_def call_ok_def)
  next
    fix p
    assume "cs = [UpdRead [p]]"
    with ok assms(4) show ?thesis by (auto simp: calm_ok_def call_def call_ok_def served_same)
  qed
qed

lemma call_Nil [simp]: "call [] w = w"
  by (simp add: call_def)

lemma call_with [simp]: "call cs (w\<lparr>fl_settings := fl_settings w\<rparr>) = call cs w"
  by simp

lemma calm_turn:
  assumes "calm_ok project_of w" "idle w"
  shows "calm_ok project_of (snd (set_turn_open a opened w))"
proof -
  from assms have ok: "fl_calls w = []" "distinct (map fst (fl_boxes w))" "\<And>a e. box_of w a = Some e \<Longrightarrow> bx_project e = project_of a"
    "\<And>a e. box_of w a = Some e \<Longrightarrow> served w a e" "\<And>a e. box_of w a = Some e \<Longrightarrow> bx_booting e = None"
    by (auto simp: calm_ok_def idle_def box_of_def)
  consider "snd (set_turn_open a opened w) = w"
    | e e' where "box_of w a = Some e" "e' = e\<lparr>bx_turn_open := opened\<rparr>"
        "snd (set_turn_open a opened w) = call (case bx_running e of Some r \<Rightarrow> [TurnApply a (rb_proxy r) (entry_mode (fl_settings w) e')] | None \<Rightarrow> [])
          (with_box a (\<lambda>_. e') w)"
  proof (cases "map_of (fl_boxes w) a")
    case None
    then show ?thesis by (intro that(1)) (simp add: set_turn_open_def)
  next
    case (Some e)
    show ?thesis
    proof (cases "bx_turn_open e = opened")
      case True
      with Some show ?thesis by (intro that(1)) (simp add: set_turn_open_def)
    next
      case False
      with Some show ?thesis by (intro that(2) [of e]) (simp_all add: set_turn_open_def box_of_def Let_def)
    qed
  qed
  then show ?thesis
  proof cases
    case 1
    with assms show ?thesis by simp
  next
    case (2 e e')
    have box: "box_of (with_box a (\<lambda>_. e') w) b = (if b = a then Some e' else box_of w b)" for b
      using 2(1) by (simp add: box_with)
    have e': "bx_project e' = bx_project e" "bx_booting e' = None" "bx_running e' = bx_running e"
      using 2(1,2) ok(5) by auto
    define w1 where "w1 = with_box a (\<lambda>_. e') w"
    have w1: "fl_calls w1 = []" "fl_settings w1 = fl_settings w" "distinct (map fst (fl_boxes w1))"
      using ok(1) with_box_distinct [OF ok(2)] by (simp_all add: w1_def)
    have entry: "bx_project x = project_of b \<and> bx_booting x = None" if "box_of w1 b = Some x" for b x
    proof (cases "b = a")
      case True
      with that e' ok(3) [OF 2(1)] show ?thesis unfolding w1_def box by simp
    next
      case False
      with that have "box_of w b = Some x" unfolding w1_def box by simp
      from ok(3,5) [OF this] show ?thesis by simp
    qed
    have other: "served w1 b x" if "box_of w1 b = Some x" "b \<noteq> a" for b x
      using that ok(4) [of b x] unfolding w1_def box by simp
    have own: "box_of w1 a = Some e'" unfolding w1_def box by simp
    show ?thesis
    proof (cases "bx_running e")
      case None
      then have "served w1 a e'" using e'(3) by (simp add: served_def)
      then have "served w1 b x" if "box_of w1 b = Some x" for b x
        using other [OF that] own that by (cases "b = a") auto
      with w1 entry None show ?thesis
        unfolding 2(3) w1_def [symmetric] by (simp add: calm_ok_def boot_ok_def)
    next
      case (Some r)
      have "call_ok w1 (TurnApply a (rb_proxy r) (entry_mode (fl_settings w) e'))"
        using other own e'(3) Some w1(2) by (simp add: call_ok_def)
      with w1 entry Some show ?thesis
        unfolding 2(3) w1_def [symmetric] by (simp add: calm_ok_def call_def)
    qed
  qed
qed

lemma calm_change:
  assumes "calm_ok project_of w" "fl_calls w = []"
    and "\<And>e. box_of w a = Some e \<Longrightarrow> bx_project (f e) = bx_project e \<and> served w a (f e) \<and> boot_ok (fl_settings w) (f e)"
  shows "calm_ok project_of (with_box a f w)"
proof -
  from assms(1,2) have ok: "distinct (map fst (fl_boxes w))" "\<And>a e. box_of w a = Some e \<Longrightarrow> bx_project e = project_of a"
    "\<And>a e. box_of w a = Some e \<Longrightarrow> served w a e \<and> boot_ok (fl_settings w) e"
    by (simp_all add: calm_ok_def)
  have "bx_project e' = project_of b \<and> served w b e' \<and> boot_ok (fl_settings w) e'" if "box_of (with_box a f w) b = Some e'" for b e'
  proof (cases "b = a")
    case True
    with that obtain e where e: "box_of w a = Some e" "e' = f e" by (auto simp: box_with)
    with assms(3) [OF e(1)] ok(2) [OF e(1)] True show ?thesis by simp
  next
    case False
    with that ok(2,3) show ?thesis by (simp add: box_with)
  qed
  with ok(1) assms(2) show ?thesis by (simp add: calm_ok_def with_box_distinct)
qed

lemma calm_op:
  assumes "calm_ok project_of w" "idle w" "net_op J U w w'"
  shows "calm_ok project_of w'"
  using assms(3)
proof cases
  case (allows p pat)
  obtain r s where rs: "allow_host J U p pat (fl_settings w) = (r, s)" by fastforce
  show ?thesis
  proof (cases r)
    case (Inl e)
    with rs allow_host_net(1) [OF rs] assms(1) show ?thesis by (simp add: allows net_allow_def)
  next
    case (Inr ps)
    with rs show ?thesis
      using calm_write [OF assms(1,2), of "[UpdRead [p]]" s] allow_host_net(2) [OF rs] by (auto simp: allows net_allow_def)
  qed
next
  case (globals d)
  obtain r s where rs: "set_global_list J U d (fl_settings w) = (r, s)" by fastforce
  show ?thesis
  proof (cases r)
    case (Inl e)
    with rs global_net [OF rs] assms(1) show ?thesis by (simp add: globals net_global_def)
  next
    case (Inr d')
    with rs show ?thesis using calm_write [OF assms(1,2), of "[UpdAll]" s] by (simp add: globals net_global_def)
  qed
next
  case (sets p k v)
  obtain r s where rs: "project_setting_write U p k v (fl_settings w) = (r, s)" by fastforce
  show ?thesis
  proof (cases r)
    case (Inl e)
    with rs setting_net(1) [OF rs] assms(1) show ?thesis by (simp add: sets net_setting_def)
  next
    case (Inr u)
    show ?thesis
    proof (cases "k = egress_mode_key")
      case True
      with rs Inr show ?thesis
        using calm_write [OF assms(1,2), of "[UpdRead [p]]" s] setting_net(2) [OF rs] by (auto simp: sets net_setting_def)
    next
      case False
      with rs Inr show ?thesis
        using calm_write [OF assms(1,2), of "[]" s] setting_net(2) [OF rs] by (auto simp: sets net_setting_def)
    qed
  qed
next
  case (postures v)
  obtain r s where rs: "set_posture U v (fl_settings w) = (r, s)" by fastforce
  show ?thesis
  proof (cases r)
    case (Inl e)
    with rs posture_net [OF rs] assms(1) show ?thesis by (simp add: postures net_posture_def)
  next
    case (Inr d')
    with rs show ?thesis using calm_write [OF assms(1,2), of "[UpdAll]" s] by (simp add: postures net_posture_def)
  qed
next
  case (rereads D p)
  obtain st ch pushed s where rs: "file_refresh D p (fl_settings w) = ((st, ch, pushed), s)" by (metis prod.collapse)
  then show ?thesis
    using calm_write [OF assms(1,2), of "[UpdRead [p]]" s] calm_write [OF assms(1,2), of "[]" s] refresh_net [OF rs]
    by (auto simp: rereads net_refresh_def)
next
  case (turns a opened)
  then show ?thesis using calm_turn [OF assms(1,2)] by simp
next
  case (boots a e)
  from assms(1,2) have ok: "fl_calls w = []" "served w a e" by (auto simp: calm_ok_def idle_def box_of_def boots(2))
  then show ?thesis
    unfolding boots(1) boot_begin_def
    by (intro calm_change [OF assms(1)]) (use boots(2) in \<open>auto simp: box_of_def served_def current_def boot_ok_def entry_mode_def\<close>)
qed

section \<open>What a call does\<close>

lemma in_modes_of:
  assumes "distinct (map fst (fl_boxes w))"
  shows "(a, i, m) \<in> set (modes_of w p) \<longleftrightarrow>
     (\<exists>e r. box_of w a = Some e \<and> bx_project e = p \<and> bx_running e = Some r \<and> rb_proxy r = i \<and> m = entry_mode (fl_settings w) e)"
  using assms by (force simp: modes_of_def box_of_def map_filter_def map_of_eq_Some_iff split: if_splits)

lemma in_running_projects:
  assumes "box_of w a = Some e" "bx_running e = Some r"
  shows "bx_project e \<in> set (running_projects w)"
  using map_of_SomeD [OF assms(1) [unfolded box_of_def]] assms(2) by (force simp: running_projects_def)

lemma box_update:
  "box_of (update_proxy a i pol m w) b = (if b = a then map_option (\<lambda>e. e\<lparr>bx_running :=
     map_option (\<lambda>r. if rb_proxy r = i then r\<lparr>rb_policy := pol, rb_mode := m\<rparr> else r) (bx_running e)\<rparr>) (box_of w a) else box_of w b)"
  by (simp add: update_proxy_def box_with)

lemma update_fields [simp]:
  "fl_settings (update_proxy a i pol m w) = fl_settings w" "fl_calls (update_proxy a i pol m w) = fl_calls w"
  "served (update_proxy b i pol m w) a e = served w a e"
  by (simp_all add: update_proxy_def)

lemma update_box:
  assumes "box_of (update_proxy a i pol m w) b = Some e'"
  obtains e where "box_of w b = Some e" "bx_project e' = bx_project e" "bx_booting e' = bx_booting e"
    "bx_turn_open e' = bx_turn_open e"
    "bx_running e' = (if b = a then map_option (\<lambda>r. if rb_proxy r = i then r\<lparr>rb_policy := pol, rb_mode := m\<rparr> else r) (bx_running e) else bx_running e)"
proof -
  from assms obtain e where e: "box_of w b = Some e" by (auto simp: box_update split: if_splits)
  with assms have e': "e' = (if b = a then e\<lparr>bx_running := map_option (\<lambda>r. if rb_proxy r = i then r\<lparr>rb_policy := pol, rb_mode := m\<rparr> else r) (bx_running e)\<rparr> else e)"
    by (cases "b = a") (simp_all add: box_update)
  show thesis
    by (rule that [OF e]) (simp_all add: e')
qed

lemma update_box_on:
  assumes "box_of w b = Some e"
  shows "\<exists>e'. box_of (update_proxy a i pol m w) b = Some e' \<and> bx_project e' = bx_project e \<and> entry_mode s e = entry_mode s e'"
  using assms by (cases "b = a") (simp_all add: box_update entry_mode_def)

text \<open>An update makes its box current, when it is told the policy and the mode of now; it disturbs no other.\<close>

lemma update_served:
  assumes "box_of (update_proxy a i pol m w) b = Some e'" "box_of w b = Some e"
    and "b = a \<Longrightarrow> pol = egress_policy_of (fl_settings w) (bx_project e) \<and> m = entry_mode (fl_settings w) e"
    and "\<And>r. bx_running e = Some r \<Longrightarrow> b = a \<and> rb_proxy r = i \<or> served w b e"
  shows "served w b e'"
proof -
  obtain e0 where "box_of w b = Some e0" and e': "bx_project e' = bx_project e0" "bx_turn_open e' = bx_turn_open e0"
    "bx_running e' = (if b = a then map_option (\<lambda>r. if rb_proxy r = i then r\<lparr>rb_policy := pol, rb_mode := m\<rparr> else r) (bx_running e0) else bx_running e0)"
    by (rule update_box [OF assms(1)]) (rule that)
  with assms(2) have same: "e0 = e" by simp
  have mode: "entry_mode s e' = entry_mode s e" for s using e' same by (simp add: entry_mode_def)
  show ?thesis
  proof (cases "bx_running e")
    case None
    with e'(3) same show ?thesis by (simp add: served_def)
  next
    case (Some r)
    show ?thesis
    proof (cases "b = a \<and> rb_proxy r = i")
      case True
      with e' same Some assms(3) mode show ?thesis by (simp add: served_def current_def)
    next
      case False
      with assms(4) [OF Some] have "served w b e" by blast
      moreover from False e'(3) same Some have "bx_running e' = Some r" by auto
      ultimately show ?thesis using e'(1) same Some mode by (simp add: served_def current_def)
    qed
  qed
qed


lemma calm_one:
  assumes "distinct (map fst (fl_boxes w))" "\<And>a e. box_of w a = Some e \<Longrightarrow> bx_project e = project_of a \<and> bx_booting e = None"
    and "call_ok w c"
  shows "calm_ok project_of (w\<lparr>fl_calls := [c]\<rparr>)"
  using assms by (simp add: calm_ok_def)

lemma calm_none:
  assumes "distinct (map fst (fl_boxes w))" "\<And>a e. box_of w a = Some e \<Longrightarrow> bx_project e = project_of a \<and> bx_booting e = None"
    and "\<And>a e. box_of w a = Some e \<Longrightarrow> served w a e"
  shows "calm_ok project_of (w\<lparr>fl_calls := []\<rparr>)"
  using assms by (simp add: calm_ok_def boot_ok_def)

lemma calm_rest:
  assumes "distinct (map fst (fl_boxes w))" "\<And>a e. box_of w a = Some e \<Longrightarrow> bx_project e = project_of a \<and> bx_booting e = None"
    and "\<And>a e. box_of w a = Some e \<Longrightarrow> bx_project e \<notin> set ps \<Longrightarrow> served w a e"
  shows "calm_ok project_of (w\<lparr>fl_calls := upd_rest ps\<rparr>)"
  using calm_one [OF assms(1,2), where c = "UpdRead ps"] calm_none [OF assms(1,2)] assms(3)
  by (auto simp: upd_rest_def call_ok_def)

lemma calm_call:
  assumes calm: "calm_ok project_of w" and one: "fl_calls w = [c]"
  shows "calm_ok project_of ((fst (call_step c w))\<lparr>fl_calls := snd (call_step c w)\<rparr>)"
proof -
  from assms have d: "distinct (map fst (fl_boxes w))"
    and p: "\<And>a e. box_of w a = Some e \<Longrightarrow> bx_project e = project_of a \<and> bx_booting e = None"
    and ok: "call_ok w c"
    by (simp_all add: calm_ok_def)
  have d': "distinct (map fst (fl_boxes (update_proxy a i pol m w)))" for a i pol m
    unfolding update_proxy_def by (rule with_box_distinct [OF d])
  have p': "bx_project e' = project_of b \<and> bx_booting e' = None" if "box_of (update_proxy a i pol m w) b = Some e'" for a i pol m b e'
    by (rule update_box [OF that]) (simp add: p)
  show ?thesis
  proof (cases c)
    case UpdAll
    have "served w a e" if "box_of w a = Some e" "bx_project e \<notin> set (running_projects w)" for a e
      using in_running_projects [OF that(1)] that(2) by (auto simp: served_def)
    with calm_rest [OF d p] UpdAll show ?thesis by (simp add: call_step_def)
  next
    case (UpdRead ps)
    show ?thesis
    proof (cases ps)
      case Nil
      with ok UpdRead calm_none [OF d p] show ?thesis by (simp add: call_step_def call_ok_def)
    next
      case (Cons q qs)
      with ok UpdRead calm_one [OF d p] show ?thesis by (simp add: call_step_def call_ok_def)
    qed
  next
    case (UpdModes q pol ps)
    have "served w a e \<or> (\<exists>r m. bx_running e = Some r \<and> (a, rb_proxy r, m) \<in> set (modes_of w q))"
      if e: "box_of w a = Some e" "bx_project e \<notin> set ps" for a e
    proof (cases "bx_project e = q \<and> bx_running e \<noteq> None")
      case True
      with e show ?thesis by (auto simp: in_modes_of [OF d])
    next
      case False
      with e ok UpdModes show ?thesis by (cases "bx_project e = q") (auto simp: call_ok_def served_def)
    qed
    moreover from ok UpdModes have "pol = egress_policy_of (fl_settings w) q" by (simp add: call_ok_def)
    moreover have "\<forall>(a, i, m) \<in> set (modes_of w q). \<exists>e. box_of w a = Some e \<and> bx_project e = q \<and> m = entry_mode (fl_settings w) e"
      by (auto simp: in_modes_of [OF d])
    ultimately have "call_ok w (UpdApply pol (modes_of w q) ps)" by (auto simp: call_ok_def intro!: exI [of _ q])
    with calm_one [OF d p] UpdModes show ?thesis by (simp add: call_step_def)
  next
    case (UpdApply pol todo ps)
    with ok obtain q where q: "pol = egress_policy_of (fl_settings w) q"
      "\<And>a i m. (a, i, m) \<in> set todo \<Longrightarrow> \<exists>e. box_of w a = Some e \<and> bx_project e = q \<and> m = entry_mode (fl_settings w) e"
      "\<And>a e. box_of w a = Some e \<Longrightarrow> bx_project e \<notin> set ps \<Longrightarrow>
         served w a e \<or> (\<exists>r m. bx_running e = Some r \<and> (a, rb_proxy r, m) \<in> set todo)"
      by (fastforce simp: call_ok_def)
    show ?thesis
    proof (cases todo)
      case Nil
      with q(3) UpdApply calm_rest [OF d p] show ?thesis by (simp add: call_step_def)
    next
      case (Cons x todo')
      then obtain a i m where t: "todo = (a, i, m) # todo'" by (cases x) simp
      let ?w = "update_proxy a i pol m w"
      have head: "\<exists>e. box_of w a = Some e \<and> bx_project e = q \<and> m = entry_mode (fl_settings w) e"
        using q(2) [of a i m] t by simp
      have "\<exists>e. box_of ?w b = Some e \<and> bx_project e = q \<and> n = entry_mode (fl_settings w) e" if "(b, j, n) \<in> set todo'" for b j n
      proof -
        from that q(2) [of b j n] t obtain e where "box_of w b = Some e" "bx_project e = q" "n = entry_mode (fl_settings w) e" by auto
        then show ?thesis using update_box_on by blast
      qed
      moreover have "served w b e' \<or> (\<exists>r n. bx_running e' = Some r \<and> (b, rb_proxy r, n) \<in> set todo')"
        if e': "box_of ?w b = Some e'" "bx_project e' \<notin> set ps" for b e'
      proof (rule update_box [OF e'(1)])
        fix e
        assume e: "box_of w b = Some e" "bx_project e' = bx_project e"
          and run: "bx_running e' = (if b = a then map_option (\<lambda>r. if rb_proxy r = i then r\<lparr>rb_policy := pol, rb_mode := m\<rparr> else r) (bx_running e) else bx_running e)"
        have now: "b = a \<Longrightarrow> pol = egress_policy_of (fl_settings w) (bx_project e) \<and> m = entry_mode (fl_settings w) e"
          using head e(1) q(1) by auto
        from e'(2) e q(3) [OF e(1)] consider "served w b e" | r n where "bx_running e = Some r" "(b, rb_proxy r, n) \<in> set todo" by auto
        then show ?thesis
        proof cases
          case 1
          then have "served w b e'" by (intro update_served [OF e'(1) e(1) now] disjI2)
          then show ?thesis ..
        next
          case (2 r n)
          show ?thesis
          proof (cases "b = a \<and> rb_proxy r = i")
            case True
            then have "served w b e'" using 2(1) by (intro update_served [OF e'(1) e(1) now]) auto
            then show ?thesis ..
          next
            case False
            with 2(2) t have "(b, rb_proxy r, n) \<in> set todo'" by auto
            moreover from False run 2(1) have "bx_running e' = Some r" by auto
            ultimately show ?thesis by blast
          qed
        qed
      qed
      ultimately have "call_ok ?w (UpdApply pol todo' ps)"
        using q(1) by (auto simp: call_ok_def intro!: exI [of _ q])
      with calm_one [OF d' p'] UpdApply t show ?thesis by (simp add: call_step_def)
    qed
  next
    case (TurnApply a i m)
    with ok have t: "box_of w a \<noteq> None" "\<And>b e. box_of w b = Some e \<Longrightarrow> if b = a
          then m = entry_mode (fl_settings w) e \<and> (\<forall>r. bx_running e = Some r \<longrightarrow> rb_proxy r = i) else served w b e"
      by (auto simp: call_ok_def)
    from t(1) obtain e where e: "box_of w a = Some e" by blast
    let ?pol = "egress_policy_of (fl_settings w) (bx_project e)"
    have "served (update_proxy a i ?pol m w) b x'" if x': "box_of (update_proxy a i ?pol m w) b = Some x'" for b x'
    proof (rule update_box [OF x'])
      fix x
      assume x: "box_of w b = Some x"
      have "served w b x'"
        using t(2) [OF x] x e by (intro update_served [OF x' x]) (auto split: if_splits)
      then show ?thesis by simp
    qed
    with calm_none [OF d' p'] e TurnApply show ?thesis by (simp add: call_step_def box_of_def)
  qed
qed

lemma calm_proxies: "calm_ok project_of (w\<lparr>fl_proxies := n\<rparr>) = calm_ok project_of w"
  by (simp add: calm_ok_def split: list.split)

lemma calm_booting:
  assumes "calm_ok project_of w" "box_of w a = Some e" "bx_booting e \<noteq> None"
  shows "fl_calls w = [] \<and> served w a e \<and> boot_ok (fl_settings w) e"
  using assms by (auto simp: calm_ok_def split: list.splits)

text \<open>A boot's own steps: nothing unless it is on its way, and then no call is.\<close>

lemma calm_boot:
  assumes "calm_ok project_of w" "\<And>e. box_of w a = Some e \<Longrightarrow> bx_booting e = None \<Longrightarrow> f e = e"
    and "\<And>e. box_of w a = Some e \<Longrightarrow> bx_booting e \<noteq> None \<Longrightarrow> served w a e \<Longrightarrow> boot_ok (fl_settings w) e \<Longrightarrow>
      bx_project (f e) = bx_project e \<and> served w a (f e) \<and> boot_ok (fl_settings w) (f e)"
  shows "calm_ok project_of (with_box a f w)"
proof (cases "\<exists>e. box_of w a = Some e \<and> bx_booting e \<noteq> None")
  case True
  then obtain e where e: "box_of w a = Some e" "bx_booting e \<noteq> None" by blast
  note c = calm_booting [OF assms(1) e]
  show ?thesis
    by (rule calm_change [OF assms(1)]) (use c e assms(3) [OF e] in auto)
next
  case False
  then show ?thesis
    by (intro calm_keeps [OF assms(1)]) (simp add: assms(2) keeps_def)
qed

lemma calm_progress:
  assumes "calm_ok project_of w" "net_progress w w'"
  shows "calm_ok project_of w'"
  using assms(2)
proof cases
  case (calls_on i)
  with assms(1) obtain c where c: "fl_calls w = [c]" by (auto simp: calm_ok_def split: list.splits)
  with calls_on calm_call [OF assms(1) c] show ?thesis by (simp add: call_moves_def case_prod_unfold Let_def)
next
  case (has_proxy a)
  show ?thesis
    unfolding has_proxy boot_proxy_def calm_proxies
    by (rule calm_boot [OF assms(1)])
      (auto simp: boot_ok_def served_def current_def entry_mode_def split: option.split booting.split option.splits booting.splits)
next
  case (published a)
  show ?thesis
    unfolding published boot_published_def
    by (rule calm_boot [OF assms(1)])
      (auto simp: boot_ok_def served_def current_def entry_mode_def split: option.splits booting.splits)
next
  case (fails a)
  show ?thesis
    unfolding fails boot_failed_def by (rule calm_keeps [OF assms(1)]) (simp add: keeps_def)
qed

lemma calm_registers:
  assumes "calm_ok project_of w"
  shows "calm_ok project_of (register_box a (project_of a) w)"
proof (cases "map_of (fl_boxes w) a")
  case (Some e)
  with assms have "bx_project e = project_of a" by (simp add: calm_ok_def box_of_def)
  with Some show ?thesis
    by (simp add: register_box_def) (rule calm_keeps [OF assms], simp add: box_of_def keeps_def)
next
  case None
  let ?w = "w\<lparr>fl_boxes := fl_boxes w @ [(a, entry_new (project_of a))]\<rparr>"
  have box: "box_of ?w b = (if b = a then Some (entry_new (project_of a)) else box_of w b)" for b
    using None by (auto simp: box_of_def map_add_def split: option.split)
  have old: "box_of w b \<noteq> None \<Longrightarrow> b \<noteq> a" for b using None by (auto simp: box_of_def)
  have fresh: "served v a (entry_new p)" "boot_ok s (entry_new p)" "bx_booting (entry_new p) = None" "bx_project (entry_new p) = p" for v s p
    by (simp_all add: served_def boot_ok_def entry_new_def)
  have same: "served ?w b e = served w b e" for b e by (simp add: served_def)
  have grown: "box_of w b = Some e \<Longrightarrow> box_of ?w b = Some e" for b e using old [of b] by (simp add: box)
  have shrunk: "box_of ?w b = Some e \<Longrightarrow> box_of w b = Some e \<or> served w b e" for b e
    using fresh(1) by (auto simp: box split: if_splits)
  have d: "distinct (map fst (fl_boxes ?w))"
    using assms None by (auto simp: calm_ok_def map_of_eq_None_iff)
  have p: "bx_project e = project_of b" if "box_of ?w b = Some e" for b e
    using that assms fresh by (auto simp: box calm_ok_def split: if_splits)
  have "calm_ok project_of ?w"
  proof (cases "fl_calls w")
    case Nil
    with assms have "served w b e \<and> boot_ok (fl_settings w) e" if "box_of w b = Some e" for b e
      using that by (simp add: calm_ok_def)
    then have "served ?w b e \<and> boot_ok (fl_settings w) e" if "box_of ?w b = Some e" for b e
      using that fresh by (auto simp: box same split: if_splits)
    with Nil d p show ?thesis by (simp add: calm_ok_def)
  next
    case (Cons c cs)
    with assms have c: "cs = []" "call_ok w c" "\<And>b e. box_of w b = Some e \<Longrightarrow> bx_booting e = None"
      by (auto simp: calm_ok_def split: list.splits)
    have "bx_booting e = None" if "box_of ?w b = Some e" for b e
      using that c(3) fresh by (auto simp: box split: if_splits)
    moreover have "call_ok ?w c"
    proof (cases c)
      case (UpdApply pol todo ps)
      with c(2) obtain q where q: "pol = egress_policy_of (fl_settings w) q"
        "\<forall>(b, i, m) \<in> set todo. \<exists>e. box_of w b = Some e \<and> bx_project e = q \<and> m = entry_mode (fl_settings w) e"
        "\<forall>b e. box_of w b = Some e \<longrightarrow> bx_project e \<notin> set ps \<longrightarrow>
           served w b e \<or> (\<exists>r m. bx_running e = Some r \<and> (b, rb_proxy r, m) \<in> set todo)"
        by (auto simp: call_ok_def)
      from q(2) have "\<forall>(b, i, m) \<in> set todo. \<exists>e. box_of ?w b = Some e \<and> bx_project e = q \<and> m = entry_mode (fl_settings w) e"
        using grown by fastforce
      moreover from q(3) have "\<forall>b e. box_of ?w b = Some e \<longrightarrow> bx_project e \<notin> set ps \<longrightarrow>
           served w b e \<or> (\<exists>r m. bx_running e = Some r \<and> (b, rb_proxy r, m) \<in> set todo)"
        using shrunk by blast
      ultimately show ?thesis using UpdApply q(1) by (auto simp: call_ok_def same intro!: exI [of _ q])
    next
      case (TurnApply x i m)
      with c(2) old fresh(1) show ?thesis by (auto simp: call_ok_def same box)
    qed (use c(2) shrunk in \<open>auto simp: call_ok_def same\<close>)
    ultimately show ?thesis using Cons c(1) d p by (simp add: calm_ok_def)
  qed
  with None show ?thesis by (simp add: register_box_def)
qed


lemma calm_free:
  assumes "calm_ok project_of w" "net_free project_of w w'"
  shows "calm_ok project_of w'"
  using assms(2)
proof cases
  case (registers a)
  then show ?thesis using calm_registers [OF assms(1)] by simp
next
  case (stops a)
  then show ?thesis unfolding stops box_stopped_def by (intro calm_keeps [OF assms(1)]) (simp add: keeps_def)
next
  case (declines a h)
  show ?thesis
    unfolding declines decline_host_def
    by (rule calm_keeps [OF assms(1)]) (auto simp: keeps_def split: option.splits)
qed

lemma calm_sound: "calm_reach J U project_of w \<Longrightarrow> calm_ok project_of w"
proof (induction rule: calm_reach.induct)
  case (calm_starts s)
  show ?case by (simp add: calm_ok_def fleet_start_def box_of_def)
next
  case (calm_moves w w')
  then show ?case using calm_op calm_progress calm_free by blast
qed

text \<open>
  Claim C23. When changes do not overlap, every running box serves the settings of now: in a run where a
  write of the lists, the posture or the turn, or a boot, begins only when no update or boot is still on
  its way - while boxes are registered, stop and answer prompts at any moment - once everything ended
  each running box's proxy has the policy of its project and the mode of its turn and posture as they are.
\<close>

theorem calm_net_current:
  assumes "calm_reach J U project_of w" "idle w" "box_of w a = Some e" "bx_running e = Some r"
  shows "rb_policy r = egress_policy_of (fl_settings w) (project_of a) \<and>
    rb_mode r = (if bx_turn_open e then MdOverride else posture_mode (egress_mode_of (fl_settings w) (project_of a)))"
  using calm_sound [OF assms(1)] assms(2-)
  by (simp add: calm_ok_def idle_def served_def current_def entry_mode_def)

section \<open>Changes that overlap\<close>

text \<open>
  Claim C40. A box can keep a network the user closed: while a box boots on a project without a posture of its own,
  the posture is set to the allow-list and all its updates end; the boot, which read the mode first, then
  publishes a proxy that lets every host through, with nothing left on its way to tell it otherwise.
\<close>

theorem posture_lost:
  fixes s :: egress_state
  assumes "eg_modes s (project_of a) = None"
  shows "\<exists>w e r. net_reach J U project_of w \<and> idle w \<and> eg_posture (fl_settings w) = EgAllowList \<and>
    box_of w a = Some e \<and> bx_running e = Some r \<and> \<not> bx_turn_open e \<and>
    rb_mode r = MdOpen \<and> entry_mode (fl_settings w) e = MdRefuse"
proof -
  let ?p = "project_of a" and ?s = "s\<lparr>eg_posture := EgOpen\<rparr>" and ?t = "s\<lparr>eg_posture_row := Some ''allowlist'', eg_posture := EgAllowList\<rparr>"
  let ?e = "\<lambda>b r. \<lparr>bx_project = ?p, bx_turn_open = False, bx_booting = b, bx_running = r\<rparr>"
  let ?w = "\<lambda>s e cs n. \<lparr>fl_settings = s, fl_boxes = [(a, e)], fl_calls = cs, fl_proxies = n\<rparr>"
  let ?r = "\<lparr>rb_proxy = 0, rb_policy = egress_policy_of ?t ?p, rb_mode = MdOpen, rb_declined = {}\<rparr>"
  have m: "entry_mode ?s (?e b r) = MdOpen" "entry_mode ?t (?e b r) = MdRefuse" for b r
    using assms by (simp_all add: entry_mode_def egress_mode_of_def)
  note on = fleet_moves [of J U project_of]
  have "net_free project_of (fleet_start ?s) (?w ?s (?e None None) [] 0)"
    using net_free.registers [of project_of "fleet_start ?s" a] by (simp add: register_box_def fleet_start_def entry_new_def)
  with fleet_starts have w0: "net_reach J U project_of (?w ?s (?e None None) [] 0)" by (blast intro: on)
  have "net_op J U (?w ?s (?e None None) [] 0) (?w ?s (?e (Some (BtMode MdOpen)) None) [] 0)"
    using net_op.boots [of "?w ?s (?e None None) [] 0" a "?e None None" J U] m by (simp add: boot_begin_def with_box_def)
  with w0 have w1: "net_reach J U project_of (?w ?s (?e (Some (BtMode MdOpen)) None) [] 0)" by (blast intro: on)
  have "net_op J U (?w ?s (?e (Some (BtMode MdOpen)) None) [] 0) (?w ?t (?e (Some (BtMode MdOpen)) None) [UpdAll] 0)"
    using net_op.postures [of J U "?w ?s (?e (Some (BtMode MdOpen)) None) [] 0" "Some ''allowlist''"] egress_mode_roundtrip [of U EgAllowList]
    by (simp add: net_posture_def call_def set_posture_def load_posture_def Let_def)
  with w1 have w2: "net_reach J U project_of (?w ?t (?e (Some (BtMode MdOpen)) None) [UpdAll] 0)" by (blast intro: on)
  have "net_progress (?w ?t (?e (Some (BtMode MdOpen)) None) [UpdAll] 0) (?w ?t (?e (Some (BtMode MdOpen)) None) [] 0)"
    using net_progress.calls_on [of 0 "?w ?t (?e (Some (BtMode MdOpen)) None) [UpdAll] 0"]
    by (simp add: call_moves_def call_step_def running_projects_def upd_rest_def)
  with w2 have w3: "net_reach J U project_of (?w ?t (?e (Some (BtMode MdOpen)) None) [] 0)" by (blast intro: on)
  have "net_progress (?w ?t (?e (Some (BtMode MdOpen)) None) [] 0) (?w ?t (?e (Some (BtReady ?r)) None) [] 1)"
    using net_progress.has_proxy [of "?w ?t (?e (Some (BtMode MdOpen)) None) [] 0" a] by (simp add: boot_proxy_def with_box_def)
  with w3 have w4: "net_reach J U project_of (?w ?t (?e (Some (BtReady ?r)) None) [] 1)" by (blast intro: on)
  have "net_progress (?w ?t (?e (Some (BtReady ?r)) None) [] 1) (?w ?t (?e None (Some ?r)) [] 1)"
    using net_progress.published [of "?w ?t (?e (Some (BtReady ?r)) None) [] 1" a] by (simp add: boot_published_def with_box_def)
  with w4 have "net_reach J U project_of (?w ?t (?e None (Some ?r)) [] 1)" by (blast intro: on)
  then show ?thesis
    by (intro exI [of _ "?w ?t (?e None (Some ?r)) [] 1"] exI [of _ "?e None (Some ?r)"] exI [of _ ?r])
      (simp add: idle_def box_of_def m)
qed

end
