(* ===== verification/Examples_Egress.thy ===== *)
theory Examples_Egress
  imports Project_Edit Egress_Consent Egress_Holds Egress_Told Egress_Drain Egress_Prompts Egress_Boxes "HOL-Library.Countable"
begin

text \<open>
  The egress properties applied: a policy of two patterns, a settings file the app writes to, a project
  with a host allowed in the app, and a proxy with a connection that waits and one that is let through.
\<close>

section \<open>A policy\<close>

definition ge_patterns :: "string list" where "ge_patterns = [''Example.com.'', ''*.a.dev'']"

definition ge_policy :: egress_policy where
  "ge_policy = \<lparr>pol_allow = [Exact ''example.com'', Suffix ''.a.dev''], pol_ports = default_ports\<rparr>"

lemma ge_policy_new: "policy_new ge_patterns = Inr ge_policy"
  by code_simp

lemma ge_hosts: "normal_host ''x.a.dev''" "normal_host ''a.dev''" "normal_host ''a.com''"
  by code_simp+

lemma ge_reaches: "reaches ''*.a.dev'' ''x.a.dev''" "\<not> reaches ''*.a.dev'' ''a.dev''" "\<not> reaches ''Example.com.'' ''a.dev''"
proof -
  have labels: "labels ''x.a.dev'' = [''x'', ''a'', ''dev'']" "labels ''a.dev'' = [''a'', ''dev'']" by code_simp+
  have star: "strip_prefix star_dot ''*.a.dev'' = Some ''a.dev''" "strip_prefix star_dot ''Example.com.'' = None"
    "normalize_host ''a.dev'' = Some ''a.dev''" "normalize_host ''Example.com.'' = Some ''example.com''" by code_simp+
  show "reaches ''*.a.dev'' ''x.a.dev''" "\<not> reaches ''*.a.dev'' ''a.dev''" "\<not> reaches ''Example.com.'' ''a.dev''"
    by (auto simp: reaches_def star labels)
qed

theorem check_correct_witness:
  "policy_check ge_policy ''x.a.dev'' 443 = Inr () \<and> policy_check ge_policy ''a.dev'' 443 = Inl DenyHost \<and>
   policy_check ge_policy ''x.a.dev'' 22 = Inl DenyPort"
  using check_correct [OF ge_policy_new ge_hosts(1), of 443] check_correct [OF ge_policy_new ge_hosts(2), of 443]
    check_correct [OF ge_policy_new ge_hosts(1), of 22] ge_reaches
  by (simp add: ge_patterns_def)

theorem pattern_roundtrip_witness: "parse_pattern (show_pattern (Suffix ''.a.dev'')) = Inr (Suffix ''.a.dev'')"
proof -
  have "parse_pattern '' *.A.dev'' = Inl ''*.a.dev'' \<or> parse_pattern ''*.A.dev'' = Inr (Suffix ''.a.dev'')" by code_simp
  moreover have "parse_pattern ''*.A.dev'' = Inr (Suffix ''.a.dev'')" by code_simp
  ultimately show ?thesis using pattern_roundtrip [of "''*.A.dev''" "Suffix ''.a.dev''"] by blast
qed

section \<open>A settings file\<close>

text \<open>
  A JSON library: values are numbered, and a value is printed as an array of two strings, the first of as many
  letters as its number. The strings hold what outside of one is a comment and a trailing comma.
\<close>

instance json :: countable
  by countable_datatype

definition ge_print :: "json \<Rightarrow> string" where
  "ge_print v = ''['' @ dquote @ ''//'' @ replicate (to_nat v) CHR ''a'' @ dquote @ '','' @ nl @ dquote @ ''/*,]'' @ dquote @ '']''"

definition ge_number :: "string \<Rightarrow> json" where "ge_number s = from_nat (length (filter (\<lambda>c. c = CHR ''a'') s))"

definition ge_read :: "string \<Rightarrow> string + json" where
  "ge_read s =
     (if s = ''{}'' then Inr (JObject [])
      else if value_ok 3 (ge_number s) then Inr (ge_number s) else Inl ''not a value'')"

definition ge_serde :: serde where "ge_serde = \<lparr>from_text = ge_read, to_compact = ge_print, to_pretty = ge_print\<rparr>"

lemma ge_number_print: "ge_number (ge_print v) = v" "ge_number (ge_print v @ nl) = v"
  by (simp_all add: ge_number_def ge_print_def dquote_def nl_def)

lemma ge_reads_back: "value_ok 3 v \<Longrightarrow> ge_read (ge_print v @ nl) = Inr v"
  by (simp add: ge_read_def ge_number_print) (simp add: ge_print_def)

lemma ge_prints_json: "json_value (utf8_chars (ge_print v))"
proof -
  let ?a = "dquote # (''/'' # ''/'' # replicate (to_nat v) ''a'') @ [dquote]" and ?b = "dquote # [''/'', ''*'', '','', '']''] @ [dquote]"
  have body: "str_body (replicate n ''a'')" for n
    by (induction n) (auto intro: str_body.intros simp: dquote_def backslash_char_def)
  have "utf8_chars (ge_print v) = map (\<lambda>c. [c]) (ge_print v)"
    by (rule utf8_chars_ascii) (simp add: ge_print_def dquote_def nl_def byte_of_def list_all_iff)
  also have "\<dots> = ''['' # ([] @ ?a @ [] @ '','' # ([nl] @ ?b @ [])) @ ['']'']"
    by (simp add: ge_print_def dquote_def nl_def)
  finally have chars: "utf8_chars (ge_print v) = ''['' # ([] @ ?a @ [] @ '','' # ([nl] @ ?b @ [])) @ ['']'']" .
  have "json_value ?a" "json_value ?b"
    by (intro json_value_json_items_json_members.text_value str_body.body_char body str_body.body_end; simp add: dquote_def backslash_char_def)+
  moreover have "list_all json_space [nl]" "list_all json_space []" by (simp_all add: json_space_def nl_def)
  ultimately show ?thesis
    unfolding chars
    by (intro json_value_json_items_json_members.array_some json_value_json_items_json_members.item_more
        json_value_json_items_json_members.item_last)
qed

lemma ge_serde_ok: "serde_ok ge_serde"
proof -
  have "value_ok 3 v" if "ge_read s = Inr v" for s v using that by (auto simp: ge_read_def split: if_splits)
  then show ?thesis
    unfolding serde_ok_def by (intro exI [of _ 3]) (simp add: ge_serde_def ge_prints_json ge_reads_back)
qed

definition ge_edit :: file_edit where
  "ge_edit = \<lparr>ed_allow_add = [''A.com''], ed_allow_remove = [], ed_disable_add = [], ed_disable_remove = []\<rparr>"

lemma ge_edit_text:
  "edit_text ge_serde ascii_tables None ge_edit =
     Inr (ge_print (JObject [(egress_key, JObject [(allow_key, JArray [JString ''a.com''])])]) @ nl)"
proof -
  have scan: "strip_jsonc ''{}'' = ''{}''" "\<not> has_comments ''{}''" "spell ascii_tables ''A.com'' = Inr ''a.com''"
    by code_simp+
  have lists: "edit_list ascii_tables allow_key [] [''A.com''] [] = Inr [(allow_key, JArray [JString ''a.com''])]"
    "edit_list ascii_tables disable_key [] [] [(allow_key, JArray [JString ''a.com''])] = Inr [(allow_key, JArray [JString ''a.com''])]"
    by (simp_all add: edit_list_def scan push_new_def drop_key_def)
  show ?thesis
    by (simp add: edit_text_def scan lists ge_edit_def ge_serde_def ge_read_def drop_key_def)
qed

lemma ge_a_com: "read_patterns [''A.com''] = {''a.com''}" "read_patterns [''a.com''] = {''a.com''}"
proof -
  have "parse_pattern ''A.com'' = Inr (Exact ''a.com'')" "parse_pattern ''a.com'' = Inr (Exact ''a.com'')" by code_simp+
  then show "read_patterns [''A.com''] = {''a.com''}" "read_patterns [''a.com''] = {''a.com''}" by simp_all
qed

theorem edit_applies_witness:
  "\<exists>q. parse_file ge_serde ascii_tables
         (ge_print (JObject [(egress_key, JObject [(allow_key, JArray [JString ''a.com''])])]) @ nl) = Inr q \<and>
       set (pf_allow q) = {''a.com''} \<and> set (pf_disable q) = {}"
proof -
  have scan: "strip_jsonc ''{}'' = ''{}''" by code_simp
  have "parse_file ge_serde ascii_tables ''{}'' = Inr parsed_default"
    by (simp add: parse_file_def ge_serde_def ge_read_def scan)
  then show ?thesis
    using edit_applies [OF ge_serde_ok ge_edit_text] ge_a_com by (auto simp: ge_edit_def parsed_default_def)
qed

section \<open>A project with a host of its own\<close>

text \<open>A library for the rows, which reads any list of strings back.\<close>

definition ge_rows :: serde where
  "ge_rows = \<lparr>from_text = (\<lambda>s. Inr (ge_number s)), to_compact = ge_print, to_pretty = ge_print\<rparr>"

lemma ge_compact_ok: "compact_ok ge_rows"
  by (simp add: compact_ok_def ge_rows_def ge_number_print)

definition ge_disk :: disk where
  "ge_disk = \<lparr>dk_serde = ge_rows, dk_unicode = ascii_tables,
     dk_fs = \<lparr>fs_canonical = (\<lambda>p. [p]), fs_metadata = (\<lambda>_. Inl None), fs_modified = (\<lambda>_. None),
              fs_read = (\<lambda>_. Inl ''no such file''), fs_refuses = (\<lambda>_. None)\<rparr>,
     dk_repo = (\<lambda>_. Some ''/r''), dk_agents = None\<rparr>"

definition ge_db :: board_db where
  "ge_db = \<lparr>bd_items = [], bd_events = [], bd_holds = [], bd_proposals = [], bd_orders = [],
     bd_settings = Map.empty, bd_drawn = 0\<rparr>"

definition ge_state0 :: egress_state where
  "ge_state0 = \<lparr>eg_db = ge_db, eg_global_row = None, eg_posture_row = Some ''allowlist'', eg_posture = EgAllowList, eg_global = None,
     eg_allow = Map.empty, eg_modes = Map.empty, eg_files = Map.empty\<rparr>"

definition ge_state :: egress_state where
  "ge_state = snd (allow_host ge_rows ascii_tables ''p'' ''A.com'' ge_state0)"

lemma ge_state_allow: "egress_allow ge_state ''p'' = [''a.com'']"
proof -
  have "spell ascii_tables ''A.com'' = Inr ''a.com''" by code_simp
  moreover have "is_client_project_key egress_allow_key" "egress_allow_key \<noteq> icon_source_key" "egress_allow_key \<noteq> egress_mode_key"
    by code_simp+
  ultimately show ?thesis
    by (simp add: ge_state_def allow_host_def set_project_setting_def ge_state0_def egress_allow_def push_new_def set_egress_allow_def Let_def)
qed

lemma ge_consent: "consent_reach ge_rows ascii_tables ge_disk ge_state {}"
  unfolding ge_state_def
  by (intro consent_reach.allows_host consent_reach.begins) (simp_all add: ge_disk_def ge_state0_def ge_db_def)

lemma ge_policy_of: "policy_check (egress_policy_of ge_state ''p'') ''a.com'' 443 = Inr ()"
proof -
  have mirrors: "eg_files ge_state = Map.empty" "eg_global ge_state = None"
    by (auto simp: ge_state_def allow_host_def ge_state0_def set_egress_allow_def Let_def split: sum.split)
  have "patterns_of (egress_entries ge_state ''p'') = push_new ''a.com'' default_allow"
    by (simp add: egress_entries_def egress_layers_def effective_def patterns_apply_layer patterns_template ge_state_allow
        mirrors global_egress_def delta_default_def egress_delta_def file_status_of_def Let_def)
  moreover have "list_all spelled [''a.com'']" by code_simp
  ultimately have "list_all spelled (patterns_of (egress_entries ge_state ''p''))" "''a.com'' \<in> set (patterns_of (egress_entries ge_state ''p''))"
    using template_spelled(1) by (auto simp: list_all_iff simp del: set_map)
  note ps = this
  have "parse_patterns (patterns_of (egress_entries ge_state ''p'')) \<noteq> Inl e" for e
  proof
    assume "parse_patterns (patterns_of (egress_entries ge_state ''p'')) = Inl e"
    then obtain p where "p \<in> set (patterns_of (egress_entries ge_state ''p''))" "parse_pattern p = Inl e"
      using parse_patterns_Inl by blast
    with ps(1) spelled_parses [of p] show False by (auto simp only: list_all_iff)
  qed
  then obtain pol where pol: "policy_new (patterns_of (egress_entries ge_state ''p'')) = Inr pol"
    by (cases "parse_patterns (patterns_of (egress_entries ge_state ''p''))") (auto simp: policy_new_def)
  moreover have "reaches ''a.com'' ''a.com''"
  proof -
    have "strip_prefix star_dot ''a.com'' = None" "normalize_host ''a.com'' = Some ''a.com''" by code_simp+
    then show ?thesis by (simp add: reaches_def)
  qed
  ultimately show ?thesis
    using ps(2) policy_checked [OF pol ge_hosts(3), of 443] by (auto simp: egress_policy_of_def simp del: set_map)
qed

theorem reach_needs_consent_witness:
  "\<exists>pat. reaches pat ''a.com'' \<and>
    (pat \<in> set default_allow \<or> pat \<in> set (dl_add (global_egress ge_state)) \<or> pat \<in> set (egress_allow ge_state ''p'') \<or>
     (''p'', pat) \<in> {})"
  by (rule reach_needs_consent [OF ge_consent ge_compact_ok ge_policy_of ge_hosts(3)])

definition ge_bad :: egress_state where
  "ge_bad = ge_state0\<lparr>eg_allow := [''p'' \<mapsto> [''a.com'', ''b c'']], eg_global := Some \<lparr>dl_add = [''d.com''], dl_remove = []\<rparr>\<rparr>"

theorem bad_pattern_resets_witness: "egress_policy_of ge_bad ''p'' = policy_default"
proof -
  have "isl (parse_pattern ''b c'')" by code_simp
  then obtain e where e: "parse_pattern ''b c'' = Inl e" by (cases "parse_pattern ''b c''") auto
  have "''b c'' \<in> set (egress_allow ge_bad ''p'')" by (simp add: ge_bad_def egress_allow_def)
  then show ?thesis using e by (rule bad_pattern_resets)
qed

section \<open>A proxy\<close>

definition gw_start :: "proxy_mode \<Rightarrow> egress_world" where "gw_start m = proxy_start ge_policy m 60 0 0"

definition gw_arrive :: "string \<Rightarrow> port \<Rightarrow> egress_world \<Rightarrow> egress_world" where
  "gw_arrive host port w = w\<lparr>wd_conns := wd_conns w @ [arrival host port w]\<rparr>"

text \<open>A connection moves as long as it can, for that many steps.\<close>

fun gw_moves :: "nat \<Rightarrow> nat \<Rightarrow> egress_world \<Rightarrow> egress_world" where
  "gw_moves i 0 w = w"
| "gw_moves i (Suc n) w = (case conn_move w i of Some w' \<Rightarrow> gw_moves i n w' | None \<Rightarrow> w)"

lemma gw_reach:
  "egress_reach (gw_start m)"
  "parse_target t = Some (host, port) \<Longrightarrow> egress_reach w \<Longrightarrow> egress_reach (gw_arrive host port w)"
  "egress_reach w \<Longrightarrow> egress_reach (gw_moves i n w)"
proof -
  show "egress_reach (gw_start m)" unfolding gw_start_def by (rule egress_reach.first)
  show "parse_target t = Some (host, port) \<Longrightarrow> egress_reach w \<Longrightarrow> egress_reach (gw_arrive host port w)"
    unfolding gw_arrive_def by (blast intro: egress_reach.later egress_step.arrives)
  show "egress_reach w \<Longrightarrow> egress_reach (gw_moves i n w)"
  proof (induction i n w rule: gw_moves.induct)
    case (2 i n w)
    then show ?case by (cases "conn_move w i") (simp_all add: egress_reach.later [OF _ egress_step.moves])
  qed simp
qed

lemma gw_target: "parse_target ''b.org:443'' = Some (''b.org'', 443)"
proof -
  have host: "rsplit_once (CHR '':'') ''b.org:443'' = Some (''b.org'', ''443'')" "\<not> is_ip_addr ''b.org''"
    "normalize_host ''b.org'' = Some ''b.org''"
    "trim_end_matches (\<lambda>c. c = '']'') (trim_start_matches (\<lambda>c. c = ''['') ''b.org'') = ''b.org''" by code_simp+
  have "parse_u16 ''443'' = Some 443"
    by (simp add: parse_u16_def parse_uint_def is_ascii_digit_def byte_of_def)
  with host show ?thesis by (simp add: parse_target_def)
qed

text \<open>The quiet hosts are spelled as they are shown, so a host is told from them without reading them.\<close>

definition gw_named :: "string \<Rightarrow> host_pattern" where
  "gw_named p = (case strip_prefix star_dot p of Some d \<Rightarrow> Suffix (CHR ''.'' # d) | None \<Rightarrow> Exact p)"

lemma gw_quiet: "is_quiet host = list_ex (\<lambda>p. matches (gw_named p) host) quiet_hosts"
proof -
  have "parse_pattern p = Inr (gw_named p)" if "p \<in> set quiet_hosts" for p
  proof -
    from that template_spelled(2) obtain q where q: "parse_pattern p = Inr q" "show_pattern q = p"
      using spelled_parses [of p] by (auto simp: list_all_iff)
    with parse_pattern_cases [OF q(1)] show ?thesis by (auto simp: gw_named_def star_dot_def strip_prefix_def)
  qed
  then show ?thesis by (auto simp: is_quiet_def list_ex_iff)
qed

lemma gw_check: "policy_check ge_policy ''b.org'' 443 = Inl DenyHost" "\<not> is_quiet ''b.org''"
proof -
  have "\<not> list_ex (\<lambda>p. matches p ''b.org'') (pol_allow ge_policy)" by code_simp
  then show "policy_check ge_policy ''b.org'' 443 = Inl DenyHost"
    by (simp add: policy_check_def ge_policy_def default_ports_def)
  show "\<not> is_quiet ''b.org''" unfolding gw_quiet by code_simp
qed

text \<open>Two connections to one host that wait, and one whose host the open network lets through.\<close>

definition gw_held :: egress_world where
  "gw_held = gw_moves 1 9 (gw_moves 0 9 (gw_arrive ''b.org'' 443 (gw_arrive ''b.org'' 443 (gw_start MdHold))))"

definition gw_open :: egress_world where "gw_open = gw_moves 0 3 (gw_arrive ''b.org'' 443 (gw_start MdOpen))"

lemma gw_reached: "egress_reach gw_held" "egress_reach gw_open"
  unfolding gw_held_def gw_open_def by (rule gw_reach gw_target)+

lemmas gw_runs = gw_check conn_move_def conn_next_def set_pc_def Let_def read_step_def mode_verdict_def join_hold_def hold_of_def
  max_held_hosts_def gw_arrive_def gw_start_def proxy_start_def arrival_def eval_nat_numeral

lemma gw_held_is:
  "gw_held =
     \<lparr>wd_proxy = \<lparr>px_policy = ge_policy, px_mode = MdHold, px_declined = {},
        px_held = [(''b.org'', \<lparr>hd_id = 1, hd_since = 0, hd_port = 443, hd_waiting = 2\<rparr>)], px_generation = 0, px_open = True,
        px_timeout = 60\<rparr>,
      wd_next_id = 1, wd_now = 0,
      wd_conns =
        [\<lparr>cn_host = ''b.org'', cn_port = 443, cn_pc = Waiting 0 \<lparr>jn_id = 1, jn_since = 0, jn_first = True\<rparr>, cn_pol0 = 0,
          cn_mode0 = 0, cn_declined0 = False\<rparr>,
         \<lparr>cn_host = ''b.org'', cn_port = 443, cn_pc = Waiting 0 \<lparr>jn_id = 1, jn_since = 0, jn_first = False\<rparr>, cn_pol0 = 0,
          cn_mode0 = 0, cn_declined0 = False\<rparr>],
      wd_changes = [], wd_events = [EvHeld 1 ''b.org'' 443], wd_policies = [ge_policy], wd_modes = [MdHold]\<rparr>"
  unfolding gw_held_def by (simp add: gw_runs)

lemma gw_held_conns:
  "map cn_pc (wd_conns gw_held) =
     [Waiting 0 \<lparr>jn_id = 1, jn_since = 0, jn_first = True\<rparr>, Waiting 0 \<lparr>jn_id = 1, jn_since = 0, jn_first = False\<rparr>]"
  "px_generation (wd_proxy gw_held) = 0" "wd_changes gw_held = []"
  "map cn_host (wd_conns gw_held) = [''b.org'', ''b.org'']"
  by (simp_all add: gw_held_is)

lemma gw_open_conns: "map cn_pc (wd_conns gw_open) = [Tunnel AdOpen]"
  unfolding gw_open_def by (simp add: gw_runs)

theorem no_change_missed_witness: "\<exists>c \<in> set (wd_conns gw_held). eg_decide (wd_proxy gw_held) (cn_host c) (cn_port c) = Hold"
proof -
  obtain c where "c \<in> set (wd_conns gw_held)" "cn_pc c = Waiting 0 \<lparr>jn_id = 1, jn_since = 0, jn_first = True\<rparr>"
    using gw_held_conns(1) by (cases "wd_conns gw_held") auto
  with no_change_missed [OF gw_reached(1), of c] gw_held_conns show ?thesis by force
qed

theorem holds_accounted_witness:
  "length (px_held (wd_proxy gw_held)) \<le> 4 \<and> (\<exists>h. hold_of (wd_proxy gw_held) ''b.org'' = Some h \<and> hd_waiting h = 2)"
proof -
  obtain c d where cd: "wd_conns gw_held = [c, d]" "cn_host c = ''b.org''" "cn_host d = ''b.org''"
    "in_hold (cn_pc c) = Some \<lparr>jn_id = 1, jn_since = 0, jn_first = True\<rparr>"
    "in_hold (cn_pc d) = Some \<lparr>jn_id = 1, jn_since = 0, jn_first = False\<rparr>"
    using gw_held_conns by auto
  with holds_accounted [OF gw_reached(1)] show ?thesis by (auto simp: is_member_def)
qed

theorem tunnel_admitted_witness: "\<exists>c \<in> set (wd_conns gw_open). admitted_by gw_open c AdOpen"
proof -
  obtain c where "c \<in> set (wd_conns gw_open)" "cn_pc c = Tunnel AdOpen"
    using gw_open_conns by (cases "wd_conns gw_open") auto
  with tunnel_admitted [OF gw_reached(2)] show ?thesis by blast
qed

theorem hold_told_once_witness:
  "length (filter (tells_held (with_id 1)) (wd_events gw_held)) \<le> 1 \<and> (\<forall>a. EvHoldEnded 1 ''b.org'' 443 a \<notin> set (wd_events gw_held)) \<and>
   (\<exists>x. hold_of (wd_proxy gw_held) ''b.org'' = Some x \<and> hd_id x = 1)"
proof -
  have "EvHeld 1 ''b.org'' 443 \<in> set (wd_events gw_held)" "\<forall>a. EvHoldEnded 1 ''b.org'' 443 a \<notin> set (wd_events gw_held)"
    "\<forall>c \<in> set (wd_conns gw_held). \<forall>j a. cn_pc c \<noteq> Ending j 443 a"
    by (simp_all add: gw_held_is)
  with hold_told_once [OF gw_reached(1), of 1] show ?thesis by blast
qed

theorem holds_drain_witness:
  "(\<exists>w'. (moves ^^ 1) (gw_arrive ''b.org'' 443 (gw_start MdHold)) w' \<and> (1::nat) \<le> 17 * 1) \<and>
   (\<forall>i. conn_move gw_held i = None) \<and> (\<exists>h. hold_of (wd_proxy gw_held) ''b.org'' = Some h \<and> wd_now gw_held < hd_since h + 60)"
proof (intro conjI)
  let ?w = "gw_arrive ''b.org'' 443 (gw_start MdHold)"
  have reach: "egress_reach ?w" by (rule gw_reach gw_target)+
  obtain w' where "conn_move ?w 0 = Some w'" by (simp add: gw_runs)
  then have "(moves ^^ 1) ?w w'" unfolding relpowp_1 moves_def by blast
  with holds_drain [OF reach this] show "\<exists>w'. (moves ^^ 1) ?w w' \<and> (1::nat) \<le> 17 * 1"
    by (auto simp: gw_arrive_def gw_start_def proxy_start_def)
  have rest: "conn_move gw_held i = None" for i
  proof (cases "i < 2")
    case True
    then have "i = 0 \<or> i = 1" by auto
    then show ?thesis by (auto simp: gw_held_is conn_move_def conn_next_def)
  qed (simp add: gw_held_is conn_move_def)
  then show "\<forall>i. conn_move gw_held i = None" by blast
  have "(moves ^^ 0) gw_held gw_held" by simp
  from holds_drain [OF gw_reached(1) this] rest
  show "\<exists>h. hold_of (wd_proxy gw_held) ''b.org'' = Some h \<and> wd_now gw_held < hd_since h + 60"
    by (simp add: gw_held_is hold_of_def)
qed

theorem prompts_follow_holds_witness:
  "\<exists>r :: prompt_run. rn_world r = gw_held \<and> (\<exists>p \<in> set (rn_table r). pp_agent p = ''a'' \<and> pp_host p = ''b.org'' \<and> pp_hold p = 1)"
proof -
  have inj: "inj (\<lambda>n. replicate n CHR ''x'')" by (rule injI) (metis length_replicate)
  obtain r where r: "prompt_reach (\<lambda>n. replicate n CHR ''x'') ''a'' r" "rn_world r = gw_held" "rn_answered r = {}"
    using run_exists [OF gw_reached(1)] by blast
  have "(''b.org'', \<lparr>hd_id = 1, hd_since = 0, hd_port = 443, hd_waiting = 2\<rparr>) \<in> set (px_held (wd_proxy gw_held))"
    "EvHeld 1 ''b.org'' 443 \<in> set (wd_events gw_held)"
    by (simp_all add: gw_held_is)
  with prompts_follow_holds [OF r(1) inj] r(2,3) have "\<exists>p \<in> set (rn_table r). pp_agent p = ''a'' \<and> pp_host p = ''b.org'' \<and> pp_hold p = 1"
    by fastforce
  with r(2) show ?thesis by blast
qed

section \<open>A box\<close>

definition gb_entry :: "booting option \<Rightarrow> running_box option \<Rightarrow> box_entry" where
  "gb_entry b r = \<lparr>bx_project = ''p'', bx_turn_open = False, bx_booting = b, bx_running = r\<rparr>"

definition gb_fleet :: "booting option \<Rightarrow> running_box option \<Rightarrow> nat \<Rightarrow> fleet" where
  "gb_fleet b r n = \<lparr>fl_settings = ge_state0, fl_boxes = [(''a'', gb_entry b r)], fl_calls = [], fl_proxies = n\<rparr>"

definition gb_running :: running_box where
  "gb_running = \<lparr>rb_proxy = 0, rb_policy = egress_policy_of ge_state0 ''p'', rb_mode = MdRefuse, rb_declined = {}\<rparr>"

lemmas gb_runs = gb_fleet_def gb_entry_def gb_running_def with_box_def entry_mode_def egress_mode_of_def ge_state0_def

lemma gb_calm: "calm_reach ge_rows ascii_tables (\<lambda>_. ''p'') (gb_fleet None (Some gb_running) 1)"
proof -
  note on = calm_moves [of ge_rows ascii_tables "\<lambda>_. ''p''"]
  have "net_free (\<lambda>_. ''p'') (fleet_start ge_state0) (gb_fleet None None 0)"
    using net_free.registers [of "\<lambda>_. ''p''" "fleet_start ge_state0" "''a''"]
    by (simp add: register_box_def fleet_start_def entry_new_def gb_fleet_def gb_entry_def)
  with calm_starts have w0: "calm_reach ge_rows ascii_tables (\<lambda>_. ''p'') (gb_fleet None None 0)" by (blast intro: on)
  have "idle (gb_fleet None None 0)" by (simp add: idle_def gb_fleet_def gb_entry_def)
  moreover have "net_op ge_rows ascii_tables (gb_fleet None None 0) (gb_fleet (Some (BtMode MdRefuse)) None 0)"
    using net_op.boots [of "gb_fleet None None 0" "''a''" "gb_entry None None"] by (simp add: boot_begin_def gb_runs)
  ultimately have w1: "calm_reach ge_rows ascii_tables (\<lambda>_. ''p'') (gb_fleet (Some (BtMode MdRefuse)) None 0)"
    using w0 by (blast intro: on)
  have "net_progress (gb_fleet (Some (BtMode MdRefuse)) None 0) (gb_fleet (Some (BtReady gb_running)) None 1)"
    using net_progress.has_proxy [of "gb_fleet (Some (BtMode MdRefuse)) None 0" "''a''"] by (simp add: boot_proxy_def gb_runs)
  with w1 have w2: "calm_reach ge_rows ascii_tables (\<lambda>_. ''p'') (gb_fleet (Some (BtReady gb_running)) None 1)" by (blast intro: on)
  have "net_progress (gb_fleet (Some (BtReady gb_running)) None 1) (gb_fleet None (Some gb_running) 1)"
    using net_progress.published [of "gb_fleet (Some (BtReady gb_running)) None 1" "''a''"] by (simp add: boot_published_def gb_runs)
  with w2 show ?thesis by (blast intro: on)
qed

theorem calm_net_current_witness:
  "rb_policy gb_running = egress_policy_of ge_state0 ''p'' \<and> rb_mode gb_running = posture_mode EgAllowList"
proof -
  have "idle (gb_fleet None (Some gb_running) 1)" "box_of (gb_fleet None (Some gb_running) 1) ''a'' = Some (gb_entry None (Some gb_running))"
    "bx_running (gb_entry None (Some gb_running)) = Some gb_running"
    by (simp_all add: idle_def box_of_def gb_fleet_def gb_entry_def)
  from calm_net_current [OF gb_calm this] show ?thesis
    by (simp add: gb_fleet_def gb_entry_def egress_mode_of_def ge_state0_def)
qed

theorem posture_lost_witness:
  "\<exists>w e r. net_reach ge_rows ascii_tables (\<lambda>_. ''p'') w \<and> idle w \<and> eg_posture (fl_settings w) = EgAllowList \<and>
    box_of w ''a'' = Some e \<and> bx_running e = Some r \<and> rb_mode r = MdOpen \<and> entry_mode (fl_settings w) e = MdRefuse"
proof -
  have "eg_modes ge_state0 ''p'' = None" by (simp add: ge_state0_def)
  then show ?thesis
    using posture_lost [where s = ge_state0 and project_of = "\<lambda>_. ''p''" and a = "''a''" and J = ge_rows and U = ascii_tables] by blast
qed

end
