(* ===== verification/Spec2Isabelle.thy ===== *)
theory Spec2Isabelle
  imports Examples_Ctx Examples_Ap Examples_Del Examples_Review Examples_Roadmap Roadmap_Gap Egress_Admits Examples_Egress
begin

text \<open>
  \<^bold>\<open>Fletch, the decisions a user is asked to trust.\<close>

  Fletch runs coding agents in worktrees on a user's machine, in virtual machines if the user likes.
  Six of its subsystems decide things nobody watches: the context store compiles what an agent is told
  about a project, autopilot pushes an agent's pull request towards a merge, the delegation table hands
  git work to the agent and waits for its effect, the local review has the agent's code read before it
  is published, the roadmap drains a queue of items into runs, and the egress proxy answers which hosts
  a virtual machine may reach. This development models those from \<open>crates/fletch-core/src\<close> and
  \<open>crates/fletch-box/src\<close> and proves what makes them safe to leave alone. Everything is executable; the
  state of a component is a record, an operation a function on it, an error a value.

  \<^bold>\<open>Shared.\<close> \<open>Prelude\<close> has the lemmas on lists and options the components share. \<open>Rust_Str\<close> models the
  strings of the source as their UTF-8 bytes, with the standard library's operations on them
  (\<open>trim\<close>, \<open>split\<close>, \<open>contains\<close>, \<open>format!\<close> of numbers); the Unicode tables (lower case, alphanumeric,
  the \<open>Debug\<close> escapes) are a record of functions, and the examples use the ASCII ones.

  \<^bold>\<open>The context store\<close> (\<open>context/\<close>). A project's memory is a graph of entities, of assertions about
  them, and of contradictions and supersessions between assertions.
    \<^item> \<open>Ctx_Model\<close>: the data model (\<open>model.rs\<close>).
    \<^item> \<open>Ctx_Chain\<close>: which assertion of a supersession chain is current, and its history
      (\<open>compile.rs\<close>, \<open>resolve.rs\<close>); the code's hop bounds never change the answer.
    \<^item> \<open>Ctx_Resolve\<close>: references to entities and the conflict check of new assertions (\<open>resolve.rs\<close>).
    \<^item> \<open>Ctx_Render\<close>: the texts handed to agents, byte for byte (\<open>render.rs\<close>).
    \<^item> \<open>Ctx_Compile\<close>, \<open>Ctx_Served\<close>: the compiled bundle (\<open>compile.rs\<close>), what it serves and within
      which budget.
    \<^item> \<open>Ctx_Trust\<close>, \<open>Ctx_Tidy\<close>: user quotes (\<open>trust.rs\<close>) and the tidy pass (\<open>tidy.rs\<close>).

  \<^bold>\<open>Autopilot\<close> (\<open>autopilot/\<close>). A loop over enrolled checkouts: read the world, place the checkout on a
  ladder of remedies, and perhaps hand one rung to the agent.
    \<^item> \<open>Ap_World\<close>: git and pull-request state as read, and the delegation kinds.
    \<^item> \<open>Ap_Readiness\<close>: blockers and the ladder (\<open>readiness.rs\<close>). \<open>Ap_Step\<close>: the policy (\<open>step.rs\<close>).
    \<^item> \<open>Ap_Driver\<close>: the table and one pass over it (\<open>mod.rs\<close>, \<open>store.rs\<close>, \<open>driver.rs\<close>).
    \<^item> \<open>Ap_Run\<close>: runs of the loop; termination within budgets and the invariant of every
      table the host reaches.

  \<^bold>\<open>Delegations\<close> (\<open>supervisor/delegation.rs\<close>). One piece of git work at a time is handed to an agent, and
  is done when the checkout shows it.
    \<^item> \<open>Del_Table\<close>: the entries and what one does on what was seen. \<open>Del_Admit\<close>: the trigger line and which
      requests are admitted.
    \<^item> \<open>Del_Run\<close>: requests, agents, passes and deliveries in any order, with a log: evidence, and once only.
      A trigger that is taken up is a pending delivery, and its success or failure a step of its own.
      \<open>Del_Pass\<close>: a pass without interleaving decides as each entry alone would; a resting agent drains.

  \<^bold>\<open>The local review\<close> (\<open>review/\<close>). A second agent reads the code of a checkout; its findings are threads.
    \<^item> \<open>Review_Model\<close>, \<open>Review_Threads\<close>: the memory of a checkout, and the findings (\<open>model.rs\<close>, \<open>store.rs\<close>).
    \<^item> \<open>Review_Engine\<close>, \<open>Review_Drive\<close>: the table, the looks, the rounds and their driver (\<open>engine.rs\<close>).
    \<^item> \<open>Review_Rules\<close>: when code is reviewed on its own, when a round ends, what becomes of a report.
      \<open>Review_Run\<close>: reviews and delegations side by side on the same checkouts.

  \<^bold>\<open>Egress\<close> (\<open>fletch-box/src/egress/\<close>, \<open>project_file/\<close>, \<open>sandbox/boxes/\<close>). The only way out of a virtual machine is a
  proxy that asks a policy; the policy is built from layers, of which a file in the repository is one.
    \<^item> \<open>Egress_Policy\<close>: host names, patterns, the template, the check (\<open>policy.rs\<close>).
    \<^item> \<open>Project_File\<close>: the settings files, read and edited (\<open>file.rs\<close>). \<open>Project_Edit\<close>: JSON text as a grammar,
      which the comment scan leaves as it is, so that what an edit writes reads back.
      \<open>Egress_Layers\<close>: the layers, their mirrors,
      the approvals and the writes a client makes (\<open>allowlist.rs\<close>, \<open>settings.rs\<close>, \<open>project_file/mod.rs\<close>,
      \<open>registry.rs\<close>, \<open>commands/boxes.rs\<close>). \<open>Egress_Consent\<close>: what the policy admits has the user's word.
    \<^item> \<open>Egress_Proxy\<close>: the request, the decision and the holds; connections, updates, declines, the clock and
      the proxy's end as a step relation in which every read and write under a lock of its own is a step
      (\<open>egress/mod.rs\<close>). \<open>Egress_Admits\<close>: a locale for invariants of the connections one by one, interpreted
      twice: no change is missed, and no tunnel is opened that nothing admitted. \<open>Egress_Holds\<close>: the holds are
      bounded and count who waits. \<open>Egress_Told\<close>: a tally of what was told of each hold is kept by
      every step, so a hold is announced once and its end told once. \<open>Egress_Drain\<close>: a rank of the
      connections falls with each step, so holds drain.
    \<^item> \<open>Egress_Prompts\<close>: the questions raised (\<open>egress_prompt.rs\<close>), what becomes of a proxy's events
      (\<open>on_egress\<close>), and that the questions follow the holds.
    \<^item> \<open>Egress_Boxes\<close>: what of a box decides its network (\<open>registry.rs\<close>, \<open>commands/boxes.rs\<close>): boots, updates
      and turns as steps that interleave, and the answers. Where they do not overlap every running box
      serves the settings of now; a run in which they do and a box stays open.

  \<^bold>\<open>The roadmap\<close> (\<open>roadmap/\<close>, \<open>rpc/roadmap/\<close>). A board of items written by four parties at once: the
  user's commands, the project-manager agent, the drainer, the merge sweep.
    \<^item> \<open>Roadmap_Types\<close>, \<open>Roadmap_Store\<close>: rows, tables and statements. A table is the list of its rows.
    \<^item> \<open>Roadmap_Deps\<close>: the dependency graph (\<open>deps.rs\<close>): the loop search is exact, accepted edits and
      batches keep the graph free of loops. \<open>Roadmap_Gap\<close>: a batch that slips through.
    \<^item> \<open>Roadmap_Rules\<close>: what the user may decide (\<open>mutations.rs\<close>, \<open>rulings.rs\<close>, \<open>brakes.rs\<close>,
      \<open>autonomy.rs\<close>, \<open>assignments.rs\<close>, \<open>order_proposals.rs\<close>).
    \<^item> \<open>Roadmap_Pm\<close>: what the agent may do (\<open>rpc/roadmap/\<close>). \<open>Roadmap_Queue\<close>: \<open>drainer.rs\<close> and
      \<open>merge_sweep.rs\<close>. \<open>Project_Settings\<close>: the settings a client may write.
    \<^item> \<open>Roadmap_Rows\<close>: the interface of a write. The locales \<open>row_stays\<close> and \<open>row_change\<close> state what a
      relation between a row and its successor must satisfy, and prove once that every operation of
      the store and its history then changes the board within it. \<open>Roadmap_Parties\<close> interprets them
      for the contract of each party; \<open>Roadmap_Refines\<close>, \<open>Roadmap_Loops\<close> and \<open>Roadmap_Agent\<close> show that
      each operation refines its party's contract.
    \<^item> \<open>Roadmap_Board\<close>, \<open>Roadmap_Create\<close>: the invariant of the board (unique ids and codes, codes below
      the counter, no loops) and its preservation by writes and by creation.
    \<^item> \<open>Roadmap_Run\<close>: the step relation of all parties, reachability, and the theorems over it.
      \<open>Roadmap_Order\<close>: the agent's order of the board.

  \<^bold>\<open>Examples.\<close> \<open>Examples_Ctx\<close>, \<open>Examples_Ap\<close>, \<open>Examples_Del\<close>, \<open>Examples_Review\<close>, \<open>Examples_Egress\<close> and
  \<open>Examples_Roadmap\<close> apply every theorem with hypotheses to concrete data.

  \<^bold>\<open>Bounds.\<close> Counters are mathematical numbers where the source's cannot overflow in use. Where it
  matters it is said: codes are numbered by an \<open>i64\<close>, so a step that creates rows needs room below
  its maximum; a batch reference is a \<open>usize\<close>. Recursions of the source that are not structural are
  proved to end, the loop search by the rows not yet visited.

  \<^bold>\<open>Assumed of the outside.\<close> A step of the roadmap holds the database lock, reads the clock once and
  draws ids from an injective stream. \<open>f64\<close> ranks are rational numbers. The invariant of the board
  holds as long as batches spell their references \<open>#n\<close>, which a step of the agent may or may not do (the flag of
  \<open>board_step\<close>); \<open>Roadmap_Gap\<close> shows what happens otherwise. What git, the
  forge, the workflow engine and the file system answer are arguments. The JSON library is a record of
  its parser and printers (\<open>serde\<close>): that what it prints is JSON text that it parses back as the value
  it printed, and that an object has each key once, are named hypotheses (\<open>serde_ok\<close>, \<open>compact_ok\<close>).

  \<^bold>\<open>Not modelled.\<close> Database errors and transactions that roll back; the JSON parser; client events and
  logs; when a timer fires; sockets and the bytes of a tunnel; the chat turns of the roadmap's review
  and triage; the SQL projection behind the context graph; workflows; the virtual machines, with their
  disks, launches, tenants and discard, beyond their network; the egress log as it is read back; remote access, providers and the user interfaces.
\<close>

end
